(* ===== verification/Prelude.thy ===== *)
theory Prelude
  imports Main "HOL-Library.Word" "HOL-Library.Multiset" "HOL-Library.Sublist"
begin

text \<open>
  The vocabulary every component theory shares: machine-integer operations of the Rust
  standard library (\<open>saturating_add\<close>, \<open>checked_sub\<close>, \<open>try_into\<close>), results as sums with the
  early return of the question-mark operator, \<open>BTreeMap\<close> as a key-ordered association list,
  strings with their UTF-8 length, and the two interfaces the components are proved against:
  \<open>key_store\<close> (what a map promises its client) and \<open>machine\<close> (what one step promises a run).
\<close>

named_theorems sat_simps \<open>unsigned readings of saturating and checked word arithmetic\<close>
named_theorems res_simps \<open>inversion of results and early returns\<close>

section \<open>Machine integers\<close>

type_synonym u8 = "8 word"
type_synonym u16 = "16 word"
type_synonym u32 = "32 word"
type_synonym u64 = "64 word"
type_synonym usize = "64 word"

text \<open>Universally unique identifiers are opaque: the code compares and orders them only.\<close>

type_synonym uuid = nat

definition sat_add :: "'a::len word \<Rightarrow> 'a word \<Rightarrow> 'a word" where
  "sat_add a b = (if unat a + unat b < 2 ^ LENGTH('a) then a + b else - 1)"

definition sat_sub :: "'a::len word \<Rightarrow> 'a word \<Rightarrow> 'a word" where
  "sat_sub a b = (if b \<le> a then a - b else 0)"

definition sat_mul :: "'a::len word \<Rightarrow> 'a word \<Rightarrow> 'a word" where
  "sat_mul a b = (if unat a * unat b < 2 ^ LENGTH('a) then a * b else - 1)"

definition checked_sub :: "'a::len word \<Rightarrow> 'a word \<Rightarrow> 'a word option" where
  "checked_sub a b = (if b \<le> a then Some (a - b) else None)"

definition checked_add :: "'a::len word \<Rightarrow> 'a word \<Rightarrow> 'a word option" where
  "checked_add a b = (if unat a + unat b < 2 ^ LENGTH('a) then Some (a + b) else None)"

definition clamp_u64 :: "nat \<Rightarrow> u64" where
  "clamp_u64 n = (if n < 2 ^ 64 then of_nat n else - 1)"

lemma unat_max_word [sat_simps]: "unat (- 1 :: 'a::len word) = 2 ^ LENGTH('a) - 1"
  by (simp add: unsigned_minus_1_eq_mask mask_eq_exp_minus_1)

lemma unat_sat_add [sat_simps]:
  "unat (sat_add a b) = min (2 ^ LENGTH('a) - 1) (unat a + unat (b :: 'a::len word))"
  by (auto simp: sat_add_def unat_word_ariths unat_max_word)

lemma unat_sat_sub [sat_simps]: "unat (sat_sub a b) = unat a - unat b"
  by (auto simp: sat_sub_def unat_sub word_le_nat_alt)

lemma unat_sat_mul [sat_simps]:
  "unat (sat_mul a b) = min (2 ^ LENGTH('a) - 1) (unat a * unat (b :: 'a::len word))"
  by (auto simp: sat_mul_def unat_word_ariths unat_max_word)

lemma checked_sub_eq_Some [sat_simps]:
  "checked_sub a b = Some c \<longleftrightarrow> unat b \<le> unat a \<and> unat c = unat a - unat b"
  by (auto simp: checked_sub_def word_le_nat_alt unat_sub word_unat_eq_iff)

lemma checked_sub_eq_None [sat_simps]: "checked_sub a b = None \<longleftrightarrow> unat a < unat b"
  by (auto simp: checked_sub_def word_le_nat_alt)

lemma checked_add_eq_Some [sat_simps]:
  "checked_add a b = Some c \<longleftrightarrow>
     unat a + unat b < 2 ^ LENGTH('a) \<and> unat (c :: 'a::len word) = unat a + unat b"
  by (auto simp: checked_add_def unat_word_ariths word_unat_eq_iff)

lemma word_neq_max_less:
  assumes "(g :: 'a::len word) \<noteq> - 1"
  shows "unat g < 2 ^ LENGTH('a) - 1"
proof -
  have "unat g < 2 ^ LENGTH('a)" by (rule unsigned_less)
  moreover have "unat g \<noteq> 2 ^ LENGTH('a) - 1"
    using assms by (simp add: word_unat_eq_iff unat_max_word)
  ultimately show ?thesis by linarith
qed

lemma unat_le_max: "unat (g :: 'a::len word) \<le> 2 ^ LENGTH('a) - 1"
proof -
  have "unat g < 2 ^ LENGTH('a)" by (rule unsigned_less)
  then show ?thesis by linarith
qed

lemma sat_succ_mono [simp]: "unat g \<le> unat (sat_add g 1)"
  using unat_le_max [of g] by (simp add: sat_simps)

lemma sat_succ_strict: "g \<noteq> - 1 \<Longrightarrow> unat g < unat (sat_add g 1)"
  using word_neq_max_less [of g] by (simp add: sat_simps)

section \<open>Results and early returns\<close>

text \<open>
  \<open>Result<T, E>\<close> is the sum \<open>'e + 't\<close>, with \<open>Inl\<close> for \<open>Err\<close>. \<open>res_bind\<close> is the
  question-mark operator, \<open>ensure\<close> the \<open>anyhow::ensure!\<close> guard, \<open>ok_or\<close> the method of the
  same name on options.
\<close>

definition res_bind :: "'e + 'a \<Rightarrow> ('a \<Rightarrow> 'e + 'b) \<Rightarrow> 'e + 'b" where
  "res_bind r f = (case r of Inl e \<Rightarrow> Inl e | Inr x \<Rightarrow> f x)"

definition ensure :: "bool \<Rightarrow> 'e \<Rightarrow> 'e + unit" where
  "ensure b e = (if b then Inr () else Inl e)"

definition ok_or :: "'a option \<Rightarrow> 'e \<Rightarrow> 'e + 'a" where
  "ok_or x e = (case x of None \<Rightarrow> Inl e | Some y \<Rightarrow> Inr y)"

definition is_ok :: "'e + 'a \<Rightarrow> bool" where
  "is_ok r = (case r of Inl _ \<Rightarrow> False | Inr _ \<Rightarrow> True)"

lemma is_ok_simps [simp]: "is_ok (Inr x)" "\<not> is_ok (Inl e)"
  by (simp_all add: is_ok_def)

lemma is_okE: "is_ok r \<Longrightarrow> (\<And>x. r = Inr x \<Longrightarrow> P) \<Longrightarrow> P"
  by (cases r) auto

lemma res_bind_simps [simp]: "res_bind (Inl e) f = Inl e" "res_bind (Inr x) f = f x"
  by (simp_all add: res_bind_def)

lemma res_bind_eq_Inr [res_simps]:
  "res_bind r f = Inr y \<longleftrightarrow> (\<exists>x. r = Inr x \<and> f x = Inr y)"
  by (cases r) auto

lemma ensure_eq_Inr [res_simps]: "ensure b e = Inr u \<longleftrightarrow> b"
  by (simp add: ensure_def)

lemma ensure_eq_Inl [res_simps]: "ensure b e = Inl e' \<longleftrightarrow> \<not> b \<and> e = e'"
  by (simp add: ensure_def)

lemma ok_or_eq_Inr [res_simps]: "ok_or x e = Inr y \<longleftrightarrow> x = Some y"
  by (cases x) (auto simp: ok_or_def)

lemma ok_or_simps [simp]: "ok_or None e = Inl e" "ok_or (Some y) e = Inr y"
  by (simp_all add: ok_or_def)

text \<open>
  Effects that can fail: a function of the state returning the state it leaves and a result. An
  error stops the sequence and keeps the effects already done.
\<close>

type_synonym ('s, 'e, 'a) effect = "'s \<Rightarrow> 's \<times> ('e + 'a)"

definition eff_return :: "'a \<Rightarrow> ('s, 'e, 'a) effect" where
  "eff_return x = (\<lambda>s. (s, Inr x))"

definition eff_fail :: "'e \<Rightarrow> ('s, 'e, 'a) effect" where
  "eff_fail e = (\<lambda>s. (s, Inl e))"

definition eff_bind :: "('s, 'e, 'a) effect \<Rightarrow> ('a \<Rightarrow> ('s, 'e, 'b) effect) \<Rightarrow> ('s, 'e, 'b) effect"
where
  "eff_bind m f =
     (\<lambda>s. case m s of (s', Inl e) \<Rightarrow> (s', Inl e) | (s', Inr x) \<Rightarrow> f x s')"

lemma eff_simps [simp]:
  "eff_return x s = (s, Inr x)" "eff_fail e s = (s, Inl e)"
  "eff_bind (eff_return x) f = f x" "eff_bind (eff_fail e) f = eff_fail e"
  by (simp_all add: eff_return_def eff_fail_def eff_bind_def)

lemma eff_bind_cases:
  assumes "eff_bind m f s = (s', r)"
  obtains (error) e where "m s = (s', Inl e)" and "r = Inl e"
    | (proceeds) s1 x where "m s = (s1, Inr x)" and "f x s1 = (s', r)"
  using assms by (auto simp: eff_bind_def split: prod.splits sum.splits)

section \<open>Strings\<close>

text \<open>
  A Rust string is a list of Unicode scalar values (\<open>chars\<close>) whose \<open>len\<close> counts the bytes of its
  UTF-8 encoding. \<open>rstr\<close> writes a literal, \<open>decimal\<close> is the rendering of a counter by \<open>format!\<close>,
  \<open>is_control\<close> is \<open>char::is_control\<close> (general category Cc).
\<close>

type_synonym rust_string = "nat list"

definition rstr :: "string \<Rightarrow> rust_string" where
  "rstr s = map of_char s"

definition utf8_len :: "nat \<Rightarrow> nat" where
  "utf8_len c = (if c < 128 then 1 else if c < 2048 then 2 else if c < 65536 then 3 else 4)"

definition str_len :: "rust_string \<Rightarrow> nat" where
  "str_len s = sum_list (map utf8_len s)"

definition is_control :: "nat \<Rightarrow> bool" where
  "is_control c = (c < 32 \<or> 127 \<le> c \<and> c < 160)"

fun decimal :: "nat \<Rightarrow> rust_string" where
  "decimal n = (if n < 10 then [48 + n] else decimal (n div 10) @ [48 + n mod 10])"

declare decimal.simps [simp del]

lemma decimal_nonempty [simp]: "decimal n \<noteq> []" "[] \<noteq> decimal n"
  by (subst decimal.simps, simp)+

lemma last_decimal: "last (decimal n) = 48 + n mod 10"
  by (subst decimal.simps) simp

lemma butlast_decimal: "butlast (decimal n) = (if n < 10 then [] else decimal (n div 10))"
  by (subst decimal.simps) simp

lemma decimal_inject [simp]: "decimal m = decimal n \<longleftrightarrow> m = n"
proof
  show "decimal m = decimal n \<Longrightarrow> m = n"
  proof (induction m arbitrary: n rule: less_induct)
    case (less m)
    have last: "m mod 10 = n mod 10"
      using arg_cong [OF less.prems, of last] by (simp add: last_decimal)
    have but: "butlast (decimal m) = butlast (decimal n)" using less.prems by simp
    show ?case
    proof (cases "m < 10")
      case True
      then show ?thesis using but last by (simp add: butlast_decimal split: if_splits)
    next
      case False
      then have "\<not> n < 10" and "decimal (m div 10) = decimal (n div 10)"
        using but by (simp_all add: butlast_decimal split: if_splits)
      moreover have "m div 10 < m" using False by simp
      ultimately have "m div 10 = n div 10" by (blast intro: less.IH)
      then show ?thesis using last by (metis mult_div_mod_eq)
    qed
  qed
qed simp

lemma digits_decimal: "c \<in> set (decimal n) \<Longrightarrow> 48 \<le> c \<and> c < 58"
proof (induction n rule: less_induct)
  case (less n)
  show ?case
  proof (cases "n < 10")
    case True
    then show ?thesis using less.prems by (simp add: decimal.simps)
  next
    case False
    then have "c \<in> set (decimal (n div 10)) \<or> c = 48 + n mod 10"
      using less.prems by (subst (asm) decimal.simps) auto
    then show ?thesis using less.IH [of "n div 10"] False by auto
  qed
qed

text \<open>\<open>char::is_whitespace\<close> (property White_Space), \<open>str::trim\<close> and the UTF-8 bytes of a string.\<close>

definition is_whitespace :: "nat \<Rightarrow> bool" where
  "is_whitespace c =
     (9 \<le> c \<and> c \<le> 13 \<or> c \<in> {32, 133, 160, 5760, 8232, 8233, 8239, 8287, 12288}
      \<or> 8192 \<le> c \<and> c \<le> 8202)"

definition trim :: "rust_string \<Rightarrow> rust_string" where
  "trim s = rev (dropWhile is_whitespace (rev (dropWhile is_whitespace s)))"

definition utf8_char :: "nat \<Rightarrow> u8 list" where
  "utf8_char c =
     (if c < 128 then [of_nat c]
      else if c < 2048 then [of_nat (192 + c div 64), of_nat (128 + c mod 64)]
      else if c < 65536 then
        [of_nat (224 + c div 4096), of_nat (128 + c div 64 mod 64), of_nat (128 + c mod 64)]
      else [of_nat (240 + c div 262144), of_nat (128 + c div 4096 mod 64),
        of_nat (128 + c div 64 mod 64), of_nat (128 + c mod 64)])"

definition utf8_bytes :: "rust_string \<Rightarrow> u8 list" where
  "utf8_bytes s = concat (map utf8_char s)"

lemma length_utf8_bytes: "length (utf8_bytes s) = str_len s"
  by (induction s) (simp_all add: utf8_bytes_def str_len_def utf8_char_def utf8_len_def)

section \<open>Paths\<close>

text \<open>
  \<open>std::path::Path\<close> is compared and searched by components, so a path is its component list
  (Unix reading: an absolute path starts at the root directory, and \<open>Prefix\<close> never occurs).
  \<open>components\<close> keeps \<open>CurDir\<close> only in front, which is why \<open>join\<close> drops it.
\<close>

datatype path_component = Prefix rust_string | RootDir | CurDir | ParentDir | Normal rust_string

type_synonym path = "path_component list"

definition is_absolute :: "path \<Rightarrow> bool" where
  "is_absolute p = (case p of RootDir # _ \<Rightarrow> True | _ \<Rightarrow> False)"

definition path_starts_with :: "path \<Rightarrow> path \<Rightarrow> bool" where
  "path_starts_with p base = (take (length base) p = base)"

definition path_join :: "path \<Rightarrow> path \<Rightarrow> path" where
  "path_join p q =
     (if is_absolute q then q else if p = [] then q else p @ filter (\<lambda>c. c \<noteq> CurDir) q)"

lemma path_starts_with_refl [simp]: "path_starts_with p p"
  by (simp add: path_starts_with_def)

lemma path_starts_with_iff: "path_starts_with p base \<longleftrightarrow> (\<exists>rest. p = base @ rest)"
  by (metis append_eq_conv_conj append_take_drop_id path_starts_with_def)

lemma path_starts_with_trans:
  "path_starts_with p q \<Longrightarrow> path_starts_with q r \<Longrightarrow> path_starts_with p r"
  by (auto simp: path_starts_with_iff)

lemma find_distinct: "distinct (map f xs) \<Longrightarrow> x \<in> set xs \<Longrightarrow> find (\<lambda>y. f y = f x) xs = Some x"
  by (induction xs) auto

section \<open>The map interface and BTreeMap\<close>

text \<open>
  What a client of a map relies on: lookups after an insertion or a removal, and the key list
  an iteration visits. The lookup laws hold of any representation; the iteration laws need the
  representation invariant.
\<close>

locale key_store =
  fixes lookup :: "'m \<Rightarrow> 'k \<Rightarrow> 'v option"
    and put :: "'k \<Rightarrow> 'v \<Rightarrow> 'm \<Rightarrow> 'm"
    and del :: "'k \<Rightarrow> 'm \<Rightarrow> 'm"
    and key_list :: "'m \<Rightarrow> 'k list"
    and well :: "'m \<Rightarrow> bool"
  assumes lookup_put: "lookup (put k v m) k' = (if k' = k then Some v else lookup m k')"
    and lookup_del: "lookup (del k m) k' = (if k' = k then None else lookup m k')"
    and key_list_lookup: "set (key_list m) = {k. lookup m k \<noteq> None}"
    and key_list_distinct: "well m \<Longrightarrow> distinct (key_list m)"
    and put_well: "well m \<Longrightarrow> well (put k v m)"
    and del_well: "well m \<Longrightarrow> well (del k m)"
begin

lemma lookup_put_same: "lookup (put k v m) k = Some v"
  by (simp add: lookup_put)

lemma lookup_put_other: "k' \<noteq> k \<Longrightarrow> lookup (put k v m) k' = lookup m k'"
  by (simp add: lookup_put)

lemma mem_key_list: "k \<in> set (key_list m) \<longleftrightarrow> (\<exists>v. lookup m k = Some v)"
  by (auto simp: key_list_lookup)

lemma key_list_put: "set (key_list (put k v m)) = insert k (set (key_list m))"
  by (auto simp: key_list_lookup lookup_put)

lemma key_list_del: "set (key_list (del k m)) = set (key_list m) - {k}"
  by (auto simp: key_list_lookup lookup_del)

lemma length_key_list_put:
  assumes "well m"
  shows "length (key_list (put k v m)) =
     (if lookup m k = None then Suc (length (key_list m)) else length (key_list m))"
proof -
  have "length (key_list (put k v m)) = card (set (key_list (put k v m)))"
    using assms by (simp add: distinct_card key_list_distinct put_well)
  also have "\<dots> = card (insert k (set (key_list m)))"
    by (simp add: key_list_put)
  also have "\<dots> = (if lookup m k = None then Suc (card (set (key_list m)))
      else card (set (key_list m)))"
    using mem_key_list [of k m] by (auto simp: insert_absorb)
  finally show ?thesis
    using assms by (simp add: distinct_card key_list_distinct)
qed

end

text \<open>
  \<open>BTreeMap\<close>: entries in strictly ascending key order, so that iteration, \<open>find_map\<close> and
  \<open>keys\<close> visit them as the Rust code does. \<open>get_mut\<close> followed by field writes is an insertion
  at a present key.
\<close>

type_synonym ('k, 'v) btree = "('k \<times> 'v) list"

definition bt_get :: "('k, 'v) btree \<Rightarrow> 'k \<Rightarrow> 'v option" where
  "bt_get m k = map_of m k"

fun bt_insert :: "'k::linorder \<Rightarrow> 'v \<Rightarrow> ('k, 'v) btree \<Rightarrow> ('k, 'v) btree" where
  "bt_insert k v [] = [(k, v)]"
| "bt_insert k v ((k', v') # m) =
     (if k = k' then (k, v) # m
      else if k < k' then (k, v) # (k', v') # m
      else (k', v') # bt_insert k v m)"

definition bt_remove :: "'k \<Rightarrow> ('k, 'v) btree \<Rightarrow> ('k, 'v) btree" where
  "bt_remove k m = filter (\<lambda>(k', v). k' \<noteq> k) m"

definition bt_keys :: "('k, 'v) btree \<Rightarrow> 'k list" where
  "bt_keys m = map fst m"

definition bt_wf :: "('k::linorder, 'v) btree \<Rightarrow> bool" where
  "bt_wf m = sorted_wrt (<) (map fst m)"

definition bt_contains :: "('k, 'v) btree \<Rightarrow> 'k \<Rightarrow> bool" where
  "bt_contains m k = (bt_get m k \<noteq> None)"

lemma bt_get_empty [simp]: "bt_get [] k = None"
  by (simp add: bt_get_def)

lemma bt_get_insert: "bt_get (bt_insert k v m) k' = (if k' = k then Some v else bt_get m k')"
  by (induction k v m rule: bt_insert.induct) (auto simp: bt_get_def)

lemma bt_get_remove: "bt_get (bt_remove k m) k' = (if k' = k then None else bt_get m k')"
  by (induction m) (auto simp: bt_get_def bt_remove_def)

lemma set_bt_keys: "set (bt_keys m) = {k. bt_get m k \<noteq> None}"
  by (auto simp: bt_keys_def bt_get_def map_of_eq_None_iff)

lemma set_keys_bt_insert: "set (map fst (bt_insert k v m)) = insert k (set (map fst m))"
  by (induction k v m rule: bt_insert.induct) auto

lemma bt_wf_insert: "bt_wf m \<Longrightarrow> bt_wf (bt_insert k v m)"
proof (induction k v m rule: bt_insert.induct)
  case (2 k v k' v' m)
  then show ?case
    using set_keys_bt_insert [of k v m] by (force simp: bt_wf_def)
qed (simp add: bt_wf_def)

lemma bt_wf_remove: "bt_wf m \<Longrightarrow> bt_wf (bt_remove k m)"
  by (induction m) (auto simp: bt_wf_def bt_remove_def)

lemma bt_wf_empty [simp]: "bt_wf []"
  by (simp add: bt_wf_def)

lemma distinct_bt_keys: "bt_wf m \<Longrightarrow> distinct (bt_keys m)"
  by (simp add: bt_wf_def bt_keys_def strict_sorted_iff)

interpretation bt: key_store bt_get bt_insert bt_remove bt_keys bt_wf
  by unfold_locales
    (simp_all add: bt_get_insert bt_get_remove set_bt_keys bt_wf_insert bt_wf_remove
      distinct_bt_keys)

lemma bt_get_in_set: "bt_get m k = Some v \<Longrightarrow> (k, v) \<in> set m"
  by (simp add: bt_get_def map_of_SomeD)

lemma bt_in_set_get: "bt_wf m \<Longrightarrow> (k, v) \<in> set m \<Longrightarrow> bt_get m k = Some v"
  using bt.key_list_distinct [of m] by (auto simp: bt_get_def bt_keys_def intro: map_of_is_SomeI)

lemma set_bt_remove: "set (bt_remove k m) = {e \<in> set m. fst e \<noteq> k}"
  by (auto simp: bt_remove_def)

lemma mset_bt_remove:
  "bt_wf m \<Longrightarrow> bt_get m k = Some v \<Longrightarrow> mset m = add_mset (k, v) (mset (bt_remove k m))"
proof (induction m)
  case (Cons e m)
  obtain k' v' where e: "e = (k', v')" by fastforce
  have wf: "bt_wf m" using Cons.prems(1) by (simp add: bt_wf_def)
  show ?case
  proof (cases "k' = k")
    case True
    then have "k \<notin> fst ` set m" using Cons.prems(1) e by (auto simp: bt_wf_def)
    then have "bt_remove k m = m" by (force simp: bt_remove_def filter_id_conv)
    then show ?thesis using Cons.prems(2) e True by (simp add: bt_remove_def bt_get_def)
  next
    case False
    then show ?thesis
      using Cons.IH [OF wf] Cons.prems(2) e by (simp add: bt_remove_def bt_get_def)
  qed
qed simp

lemma mset_bt_insert:
  "bt_get m k = None \<Longrightarrow> mset (bt_insert k v m) = add_mset (k, v) (mset m)"
  by (induction k v m rule: bt_insert.induct) (auto simp: bt_get_def split: if_splits)

lemma bt_values:
  assumes "bt_wf m" and "mset ks = mset (bt_keys m)"
  shows "mset (map (\<lambda>k. the (bt_get m k)) ks) = mset (map snd m)"
proof -
  have "the (bt_get m (fst kv)) = snd kv" if "kv \<in> set m" for kv
    using bt_in_set_get [OF assms(1), of "fst kv" "snd kv"] that by simp
  then have "map (\<lambda>k. the (bt_get m k)) (bt_keys m) = map snd m" by (simp add: bt_keys_def)
  moreover have "mset (map (\<lambda>k. the (bt_get m k)) ks) =
      image_mset (\<lambda>k. the (bt_get m k)) (mset (bt_keys m))"
    using assms(2) by simp
  ultimately show ?thesis by (metis mset_map)
qed

section \<open>Machines: from one step to a run\<close>

text \<open>
  A component is a state and a deterministic step per command. The contract of a step is an
  invariant, and possibly a preorder the state only climbs; a run is the fold of the steps.
\<close>

locale machine =
  fixes step :: "'s \<Rightarrow> 'c \<Rightarrow> 's"
    and inv :: "'s \<Rightarrow> bool"
  assumes step_inv: "inv s \<Longrightarrow> inv (step s c)"
begin

lemma run_inv: "inv s \<Longrightarrow> inv (foldl step s cs)"
  by (induction cs arbitrary: s) (auto intro: step_inv)

end

locale monotone_machine = machine +
  fixes below :: "'a \<Rightarrow> 'a \<Rightarrow> bool"
  assumes below_refl: "below s s"
    and below_trans: "below r s \<Longrightarrow> below s t \<Longrightarrow> below r t"
    and step_below: "inv s \<Longrightarrow> below s (step s c)"
begin

lemma run_below: "inv s \<Longrightarrow> below s (foldl step s cs)"
proof (induction cs arbitrary: s)
  case Nil
  then show ?case by (simp add: below_refl)
next
  case (Cons c cs)
  then have "below s (step s c)" and "below (step s c) (foldl step (step s c) cs)"
    by (simp_all add: step_below step_inv)
  then show ?case by (auto intro: below_trans)
qed

lemma run_split_below: "inv s \<Longrightarrow> below (foldl step s cs) (foldl step s (cs @ ds))"
  using run_below [of "foldl step s cs" ds] run_inv by simp

end

end
