(* ===== verification/Controller_Leases.thy ===== *)
theory Controller_Leases
  imports Prelude
begin

text \<open>
  Conversation-scoped controller leases, \<open>src/src/controller.rs\<close>: which client may mutate one
  Conversation. The table is a \<open>BTreeMap\<close> of leases and one of generations that survive the
  release of a lease. Time is the explicit monotonic \<open>Instant\<close> the code passes in, read here in
  nanoseconds. What the code draws from its environment is an argument: fresh identifiers and
  capability halves (\<open>Uuid::new_v4\<close>) are the record \<open>fresh\<close>, \<open>blake3::hash\<close> is the function
  \<open>H\<close> from a capability to its 32 digest bytes.
\<close>

unbundle bit_operations_syntax

section \<open>Data\<close>

type_synonym client_id = uuid
type_synonym controller_id = uuid
type_synonym instant = nat
type_synonym digest = "u8 list"

datatype lease_state = Connected | Reconnecting

datatype takeover_state = NotTakenOver | Confirmed

record takeover_confirmation =
  tc_controller_id :: controller_id
  tc_generation :: u64

datatype disconnect_reason = TransportClosed | SequenceGap

record 'k lease_snapshot =
  sn_conversation :: 'k
  sn_controller_id :: controller_id
  sn_generation :: u64
  sn_state :: lease_state
  sn_takeover :: takeover_state
  sn_grace_remaining_ms :: "u64 option"
  sn_disconnect_reason :: "disconnect_reason option"

datatype change_kind =
    Acquired
  | Renewed
  | Reconnected
  | TakenOver controller_id
  | Disconnected disconnect_reason
  | Released
  | Expired

record 'k controller_change =
  ch_conversation :: 'k
  ch_controller :: "'k lease_snapshot option"
  ch_change :: change_kind

record 'k controller_grant =
  gr_snapshot :: "'k lease_snapshot"
  gr_change :: change_kind
  gr_capability :: string

record 'k controller_expiry =
  ex_conversation :: 'k
  ex_generation :: u64
  ex_deadline :: instant

datatype 'k lease_error =
    TakeoverConfirmationRequired "'k lease_snapshot"
  | PendingApproval 'k
  | NotController 'k
  | InvalidReconnect
  | ExpiredReconnect

record lease =
  l_client_id :: client_id
  l_controller_id :: controller_id
  l_generation :: u64
  l_reconnect_hash :: digest
  l_state :: lease_state
  l_takeover :: takeover_state
  l_reconnect_deadline :: "instant option"
  l_disconnect_reason :: "disconnect_reason option"

record 'k controller_leases =
  leases :: "('k, lease) btree"
  generations :: "('k, u64) btree"

record fresh =
  fr_controller :: controller_id
  fr_first :: string
  fr_second :: string

text \<open>\<open>Instant\<close> keeps whole seconds in an \<open>i64\<close>; \<open>checked_add\<close> fails beyond that.\<close>

definition instant_limit :: nat where
  "instant_limit = 2 ^ 63 * 1000000000"

definition instant_checked_add :: "instant \<Rightarrow> nat \<Rightarrow> instant option" where
  "instant_checked_add now d = (if now + d < instant_limit then Some (now + d) else None)"

section \<open>Operations\<close>

definition new_leases :: "'k controller_leases" where
  "new_leases = \<lparr>leases = [], generations = []\<rparr>"

definition confirmation_of :: "'k lease_snapshot \<Rightarrow> takeover_confirmation" where
  "confirmation_of s = \<lparr>tc_controller_id = sn_controller_id s, tc_generation = sn_generation s\<rparr>"

definition snapshot_of :: "'k \<Rightarrow> lease \<Rightarrow> instant \<Rightarrow> 'k lease_snapshot" where
  "snapshot_of k l now =
     \<lparr>sn_conversation = k,
      sn_controller_id = l_controller_id l,
      sn_generation = l_generation l,
      sn_state = l_state l,
      sn_takeover = l_takeover l,
      sn_grace_remaining_ms =
        map_option (\<lambda>deadline. clamp_u64 ((deadline - now) div 1000000)) (l_reconnect_deadline l),
      sn_disconnect_reason = l_disconnect_reason l\<rparr>"

definition reconnect_capability :: "(string \<Rightarrow> digest) \<Rightarrow> fresh \<Rightarrow> string \<times> digest" where
  "reconnect_capability H f = (let capability = fr_first f @ fr_second f in (capability, H capability))"

definition constant_time_equal :: "digest \<Rightarrow> digest \<Rightarrow> bool" where
  "constant_time_equal left right =
     (foldl (\<lambda>different (l, r). different OR (l XOR r)) 0 (zip left right) = 0)"

definition next_generation ::
  "'k::linorder controller_leases \<Rightarrow> 'k \<Rightarrow> 'k controller_leases \<times> u64" where
  "next_generation s k =
     (let g = sat_add (case bt_get (generations s) k of None \<Rightarrow> 0 | Some g \<Rightarrow> g) 1
      in (s\<lparr>generations := bt_insert k g (generations s)\<rparr>, g))"

definition renew ::
  "(string \<Rightarrow> digest) \<Rightarrow> fresh \<Rightarrow> 'k::linorder controller_leases \<Rightarrow> 'k \<Rightarrow> client_id \<Rightarrow> instant
    \<Rightarrow> 'k controller_leases \<times> ('k lease_error + 'k controller_grant)" where
  "renew H f s k client now =
     (case bt_get (leases s) k of
        None \<Rightarrow> (s, Inl (NotController k))
      | Some l \<Rightarrow>
          if \<not> (l_client_id l = client \<and> l_state l = Connected) then (s, Inl (NotController k))
          else
            (let (s1, g) = next_generation s k;
                 (capability, hash) = reconnect_capability H f;
                 l' = l\<lparr>l_generation := g, l_reconnect_hash := hash,
                        l_reconnect_deadline := None, l_disconnect_reason := None\<rparr>
             in (s1\<lparr>leases := bt_insert k l' (leases s1)\<rparr>,
                 Inr \<lparr>gr_snapshot = snapshot_of k l' now, gr_change = Renewed,
                      gr_capability = capability\<rparr>)))"

definition grant_new ::
  "(string \<Rightarrow> digest) \<Rightarrow> fresh \<Rightarrow> 'k::linorder controller_leases \<Rightarrow> 'k \<Rightarrow> client_id \<Rightarrow> instant
    \<Rightarrow> 'k controller_leases \<times> 'k controller_grant" where
  "grant_new H f s k client now =
     (let previous = map_option l_controller_id (bt_get (leases s) k);
          (s1, g) = next_generation s k;
          (capability, hash) = reconnect_capability H f;
          l = \<lparr>l_client_id = client, l_controller_id = fr_controller f, l_generation = g,
               l_reconnect_hash = hash, l_state = Connected,
               l_takeover = (if previous \<noteq> None then Confirmed else NotTakenOver),
               l_reconnect_deadline = None, l_disconnect_reason = None\<rparr>;
          change = (case previous of None \<Rightarrow> Acquired | Some p \<Rightarrow> TakenOver p)
      in (s1\<lparr>leases := bt_insert k l (leases s1)\<rparr>,
          \<lparr>gr_snapshot = snapshot_of k l now, gr_change = change, gr_capability = capability\<rparr>))"

definition acquire ::
  "(string \<Rightarrow> digest) \<Rightarrow> fresh \<Rightarrow> 'k::linorder controller_leases \<Rightarrow> 'k \<Rightarrow> client_id
    \<Rightarrow> takeover_confirmation option \<Rightarrow> bool \<Rightarrow> instant
    \<Rightarrow> 'k controller_leases \<times> ('k lease_error + 'k controller_grant)" where
  "acquire H f s k client takeover has_pending_approval now =
     (case bt_get (leases s) k of
        None \<Rightarrow> (let (s', g) = grant_new H f s k client now in (s', Inr g))
      | Some existing \<Rightarrow>
          if l_client_id existing = client \<and> l_state existing = Connected
          then renew H f s k client now
          else if takeover \<noteq> Some (confirmation_of (snapshot_of k existing now))
          then (s, Inl (TakeoverConfirmationRequired (snapshot_of k existing now)))
          else if has_pending_approval then (s, Inl (PendingApproval k))
          else (let (s', g) = grant_new H f s k client now in (s', Inr g)))"

text \<open>
  \<open>disconnect_client\<close> first collects the conversations, then updates each. \<open>None\<close> is the
  panic of the \<open>expect\<close> on a collected lease that is gone.
\<close>

fun disconnect_each ::
  "disconnect_reason \<Rightarrow> instant \<Rightarrow> nat \<Rightarrow> 'k::linorder list \<Rightarrow> 'k controller_leases
    \<Rightarrow> ('k controller_leases \<times> ('k controller_change \<times> 'k controller_expiry) list) option" where
  "disconnect_each reason now grace [] s = Some (s, [])"
| "disconnect_each reason now grace (k # ks) s =
     (let (s1, g) = next_generation s k;
          deadline = (case instant_checked_add now grace of None \<Rightarrow> now | Some d \<Rightarrow> d)
      in case bt_get (leases s1) k of
           None \<Rightarrow> None
         | Some l \<Rightarrow>
             (let l' = l\<lparr>l_generation := g, l_state := Reconnecting,
                         l_reconnect_deadline := Some deadline,
                         l_disconnect_reason := Some reason\<rparr>;
                  s2 = s1\<lparr>leases := bt_insert k l' (leases s1)\<rparr>;
                  change = \<lparr>ch_conversation = k, ch_controller = Some (snapshot_of k l' now),
                            ch_change = Disconnected reason\<rparr>;
                  expiry = \<lparr>ex_conversation = k, ex_generation = g, ex_deadline = deadline\<rparr>
              in map_option (\<lambda>(s3, changes). (s3, (change, expiry) # changes))
                   (disconnect_each reason now grace ks s2)))"

definition connected_conversations :: "'k controller_leases \<Rightarrow> client_id \<Rightarrow> 'k list" where
  "connected_conversations s client =
     map fst (filter (\<lambda>(k, l). l_client_id l = client \<and> l_state l = Connected) (leases s))"

definition disconnect_client ::
  "'k::linorder controller_leases \<Rightarrow> client_id \<Rightarrow> disconnect_reason \<Rightarrow> instant \<Rightarrow> nat
    \<Rightarrow> ('k controller_leases \<times> ('k controller_change \<times> 'k controller_expiry) list) option" where
  "disconnect_client s client reason now grace =
     disconnect_each reason now grace (connected_conversations s client) s"

definition match_reconnect :: "digest \<Rightarrow> ('k, lease) btree \<Rightarrow> ('k \<times> lease) option" where
  "match_reconnect hash ls = find (\<lambda>(k, l). constant_time_equal hash (l_reconnect_hash l)) ls"

definition grace_over :: "lease \<Rightarrow> instant \<Rightarrow> bool" where
  "grace_over l now =
     (l_state l = Reconnecting \<and>
      (case l_reconnect_deadline l of None \<Rightarrow> True | Some deadline \<Rightarrow> deadline \<le> now))"

definition reconnect ::
  "(string \<Rightarrow> digest) \<Rightarrow> fresh \<Rightarrow> 'k::linorder controller_leases \<Rightarrow> client_id \<Rightarrow> string \<Rightarrow> instant
    \<Rightarrow> 'k controller_leases \<times> ('k lease_error + 'k controller_grant)" where
  "reconnect H f s client presented now =
     (case match_reconnect (H presented) (leases s) of
        None \<Rightarrow> (s, Inl InvalidReconnect)
      | Some (k, l) \<Rightarrow>
          if grace_over l now then (s, Inl ExpiredReconnect)
          else
            (let (s1, g) = next_generation s k;
                 (capability, hash) = reconnect_capability H f;
                 l' = l\<lparr>l_client_id := client, l_generation := g, l_reconnect_hash := hash,
                        l_state := Connected, l_reconnect_deadline := None,
                        l_disconnect_reason := None\<rparr>
             in (s1\<lparr>leases := bt_insert k l' (leases s1)\<rparr>,
                 Inr \<lparr>gr_snapshot = snapshot_of k l' now, gr_change = Reconnected,
                      gr_capability = capability\<rparr>)))"

definition release ::
  "'k::linorder controller_leases \<Rightarrow> 'k \<Rightarrow> client_id
    \<Rightarrow> 'k controller_leases \<times> ('k lease_error + 'k controller_change)" where
  "release s k client =
     (if (case bt_get (leases s) k of None \<Rightarrow> False | Some l \<Rightarrow> l_client_id l = client)
      then (s\<lparr>leases := bt_remove k (leases s)\<rparr>,
            Inr \<lparr>ch_conversation = k, ch_controller = None, ch_change = Released\<rparr>)
      else (s, Inl (NotController k)))"

definition expire ::
  "'k::linorder controller_leases \<Rightarrow> 'k controller_expiry \<Rightarrow> instant
    \<Rightarrow> 'k controller_leases \<times> 'k controller_change option" where
  "expire s x now =
     (if (case bt_get (leases s) (ex_conversation x) of
            None \<Rightarrow> False
          | Some l \<Rightarrow>
              l_state l = Reconnecting \<and> l_generation l = ex_generation x \<and>
              (case l_reconnect_deadline l of None \<Rightarrow> False | Some deadline \<Rightarrow> deadline \<le> now))
      then (s\<lparr>leases := bt_remove (ex_conversation x) (leases s)\<rparr>,
            Some \<lparr>ch_conversation = ex_conversation x, ch_controller = None,
                  ch_change = Expired\<rparr>)
      else (s, None))"

definition expire_all ::
  "'k controller_leases \<Rightarrow> 'k controller_leases \<times> 'k controller_change list" where
  "expire_all s =
     (s\<lparr>leases := []\<rparr>,
      map (\<lambda>k. \<lparr>ch_conversation = k, ch_controller = None, ch_change = Expired\<rparr>)
        (bt_keys (leases s)))"

definition is_controller :: "'k controller_leases \<Rightarrow> 'k \<Rightarrow> client_id \<Rightarrow> bool" where
  "is_controller s k client =
     (case bt_get (leases s) k of
        None \<Rightarrow> False
      | Some l \<Rightarrow> l_client_id l = client \<and> l_state l = Connected)"

definition snapshot_at :: "'k controller_leases \<Rightarrow> 'k \<Rightarrow> instant \<Rightarrow> 'k lease_snapshot option" where
  "snapshot_at s k now = map_option (\<lambda>l. snapshot_of k l now) (bt_get (leases s) k)"

section \<open>Frames and outcomes of single operations\<close>

definition generation_of :: "'k controller_leases \<Rightarrow> 'k \<Rightarrow> nat" where
  "generation_of s k = (case bt_get (generations s) k of None \<Rightarrow> 0 | Some g \<Rightarrow> unat g)"

lemmas lease_op_defs =
  next_generation_def reconnect_capability_def Let_def snapshot_of_def confirmation_of_def

lemma next_generation_simps [simp]:
  "leases (fst (next_generation s k)) = leases s"
  "snd (next_generation s k) =
     sat_add (case bt_get (generations s) k of None \<Rightarrow> 0 | Some g \<Rightarrow> g) 1"
  "generations (fst (next_generation s k)) = bt_insert k (snd (next_generation s k)) (generations s)"
  by (simp_all add: next_generation_def Let_def)

text \<open>
  Every granting operation is one transition: the lease at \<open>k\<close> is replaced, under the next
  generation of \<open>k\<close>. \<open>regrant\<close> names it, so that the invariant and the order are proved once.
\<close>

definition regrant :: "'k::linorder \<Rightarrow> (u64 \<Rightarrow> lease) \<Rightarrow> 'k controller_leases \<Rightarrow> 'k controller_leases" where
  "regrant k mk s = (let (s1, g) = next_generation s k in s1\<lparr>leases := bt_insert k (mk g) (leases s1)\<rparr>)"

definition drop_lease :: "'k::linorder \<Rightarrow> 'k controller_leases \<Rightarrow> 'k controller_leases" where
  "drop_lease k s = s\<lparr>leases := bt_remove k (leases s)\<rparr>"

lemma leases_regrant:
  "leases (regrant k mk s) = bt_insert k (mk (snd (next_generation s k))) (leases s)"
  by (simp add: regrant_def split_beta Let_def)

lemma generations_regrant:
  "generations (regrant k mk s) = bt_insert k (snd (next_generation s k)) (generations s)"
  by (simp add: regrant_def split_beta Let_def)

lemma get_lease_regrant:
  "bt_get (leases (regrant k mk s)) j =
     (if j = k then Some (mk (snd (next_generation s k))) else bt_get (leases s) j)"
  by (simp add: leases_regrant bt.lookup_put)

lemma get_lease_drop:
  "bt_get (leases (drop_lease k s)) j = (if j = k then None else bt_get (leases s) j)"
  by (simp add: drop_lease_def bt.lookup_del)

definition settled :: "lease \<Rightarrow> bool" where
  "settled l \<longleftrightarrow>
     (l_state l = Connected \<longleftrightarrow> l_reconnect_deadline l = None) \<and>
     (l_reconnect_deadline l = None \<longleftrightarrow> l_disconnect_reason l = None)"

text \<open>
  The invariant: ordered tables, every lease under the current generation of its Conversation,
  and a deadline and a reason exactly while a lease waits for its reconnect.
\<close>

definition leases_ok :: "'k::linorder controller_leases \<Rightarrow> bool" where
  "leases_ok s \<longleftrightarrow> bt_wf (leases s) \<and> bt_wf (generations s) \<and>
     (\<forall>k l. bt_get (leases s) k = Some l \<longrightarrow>
        bt_get (generations s) k = Some (l_generation l) \<and> settled l)"

definition gens_below :: "'k controller_leases \<Rightarrow> 'k controller_leases \<Rightarrow> bool" where
  "gens_below s t \<longleftrightarrow> (\<forall>k. generation_of s k \<le> generation_of t k)"

lemma leases_ok_wf: "leases_ok s \<Longrightarrow> bt_wf (leases s)"
  by (simp add: leases_ok_def)

lemma leases_ok_generation:
  "leases_ok s \<Longrightarrow> bt_get (leases s) k = Some l \<Longrightarrow> generation_of s k = unat (l_generation l)"
  by (simp add: leases_ok_def generation_of_def)

lemma leases_ok_settled: "leases_ok s \<Longrightarrow> bt_get (leases s) k = Some l \<Longrightarrow> settled l"
  by (simp add: leases_ok_def)

lemma leases_ok_regrant:
  assumes "leases_ok s"
    and "\<And>g. l_generation (mk g) = g"
    and "\<And>g. settled (mk g)"
  shows "leases_ok (regrant k mk s)"
  using assms
  by (auto simp: leases_ok_def get_lease_regrant leases_regrant generations_regrant
      bt.lookup_put bt.put_well)

lemma leases_ok_drop: "leases_ok s \<Longrightarrow> leases_ok (drop_lease k s)"
  by (auto simp: leases_ok_def drop_lease_def bt.lookup_del bt.del_well)

lemma gens_below_refl [simp]: "gens_below s s"
  by (simp add: gens_below_def)

lemma gens_below_trans: "gens_below r s \<Longrightarrow> gens_below s t \<Longrightarrow> gens_below r t"
  by (meson gens_below_def order_trans)

lemma generation_of_regrant:
  "generation_of (regrant k mk s) j =
     (if j = k then unat (snd (next_generation s k)) else generation_of s j)"
  by (simp add: generation_of_def generations_regrant bt.lookup_put)

lemma next_generation_ge: "generation_of s k \<le> unat (snd (next_generation s k))"
  by (auto simp: generation_of_def simp del: One_nat_def split: option.splits)

lemma next_generation_gt:
  "leases_ok s \<Longrightarrow> bt_get (leases s) k = Some l \<Longrightarrow> l_generation l \<noteq> - 1 \<Longrightarrow>
     unat (l_generation l) < unat (snd (next_generation s k))"
  by (simp add: leases_ok_def sat_succ_strict)

lemma gens_below_regrant: "gens_below s (regrant k mk s)"
  using next_generation_ge [of s k] by (simp add: gens_below_def generation_of_regrant)

lemma gens_below_drop: "gens_below s (drop_lease k s)"
  by (simp add: gens_below_def generation_of_def drop_lease_def)

section \<open>Operations as transitions\<close>

text \<open>The lease each granting operation writes, as a function of the new generation.\<close>

definition renewed_lease :: "(string \<Rightarrow> digest) \<Rightarrow> fresh \<Rightarrow> lease \<Rightarrow> u64 \<Rightarrow> lease" where
  "renewed_lease H f l n = l\<lparr>l_generation := n, l_reconnect_hash := H (fr_first f @ fr_second f),
     l_reconnect_deadline := None, l_disconnect_reason := None\<rparr>"

definition fresh_lease ::
  "(string \<Rightarrow> digest) \<Rightarrow> fresh \<Rightarrow> client_id \<Rightarrow> takeover_state \<Rightarrow> u64 \<Rightarrow> lease" where
  "fresh_lease H f c t n = \<lparr>l_client_id = c, l_controller_id = fr_controller f, l_generation = n,
     l_reconnect_hash = H (fr_first f @ fr_second f), l_state = Connected, l_takeover = t,
     l_reconnect_deadline = None, l_disconnect_reason = None\<rparr>"

definition waiting_lease :: "disconnect_reason \<Rightarrow> instant \<Rightarrow> lease \<Rightarrow> u64 \<Rightarrow> lease" where
  "waiting_lease r d l n = l\<lparr>l_generation := n, l_state := Reconnecting,
     l_reconnect_deadline := Some d, l_disconnect_reason := Some r\<rparr>"

definition resumed_lease :: "(string \<Rightarrow> digest) \<Rightarrow> fresh \<Rightarrow> client_id \<Rightarrow> lease \<Rightarrow> u64 \<Rightarrow> lease" where
  "resumed_lease H f c l n = l\<lparr>l_client_id := c, l_generation := n,
     l_reconnect_hash := H (fr_first f @ fr_second f), l_state := Connected,
     l_reconnect_deadline := None, l_disconnect_reason := None\<rparr>"

definition grant_for :: "'k \<Rightarrow> change_kind \<Rightarrow> fresh \<Rightarrow> lease \<Rightarrow> instant \<Rightarrow> 'k controller_grant" where
  "grant_for k change f l now = \<lparr>gr_snapshot = snapshot_of k l now, gr_change = change,
     gr_capability = fr_first f @ fr_second f\<rparr>"

lemmas written_lease_defs =
  renewed_lease_def fresh_lease_def waiting_lease_def resumed_lease_def

lemma written_lease_simps [simp]:
  "l_generation (renewed_lease H f l n) = n"
  "l_generation (fresh_lease H f c t n) = n"
  "l_generation (waiting_lease r d l n) = n"
  "l_generation (resumed_lease H f c l n) = n"
  "l_state (fresh_lease H f c t n) = Connected"
  "l_client_id (fresh_lease H f c t n) = c"
  "settled (fresh_lease H f c t n)"
  "settled (waiting_lease r d l n)"
  "settled (resumed_lease H f c l n)"
  "l_state l = Connected \<Longrightarrow> settled (renewed_lease H f l n)"
  by (simp_all add: written_lease_defs settled_def)

lemma grant_for_simps [simp]:
  "gr_change (grant_for k change f l now) = change"
  "gr_capability (grant_for k change f l now) = fr_first f @ fr_second f"
  "gr_snapshot (grant_for k change f l now) = snapshot_of k l now"
  by (simp_all add: grant_for_def)

lemma renew_eq:
  "renew H f s k c now =
     (case bt_get (leases s) k of
        None \<Rightarrow> (s, Inl (NotController k))
      | Some l \<Rightarrow>
          if \<not> (l_client_id l = c \<and> l_state l = Connected) then (s, Inl (NotController k))
          else (regrant k (renewed_lease H f l) s,
            Inr (grant_for k Renewed f (renewed_lease H f l (snd (next_generation s k))) now)))"
  by (simp add: renew_def regrant_def reconnect_capability_def Let_def split_beta
      renewed_lease_def grant_for_def split: option.split)

lemma grant_new_eq:
  "grant_new H f s k c now =
     (case bt_get (leases s) k of
        None \<Rightarrow>
          (regrant k (fresh_lease H f c NotTakenOver) s,
           grant_for k Acquired f
             (fresh_lease H f c NotTakenOver (snd (next_generation s k))) now)
      | Some l \<Rightarrow>
          (regrant k (fresh_lease H f c Confirmed) s,
           grant_for k (TakenOver (l_controller_id l)) f
             (fresh_lease H f c Confirmed (snd (next_generation s k))) now))"
  by (simp add: grant_new_def regrant_def reconnect_capability_def Let_def split_beta
      fresh_lease_def grant_for_def split: option.split)

lemma acquire_eq:
  "acquire H f s k c t p now =
     (case bt_get (leases s) k of
        None \<Rightarrow> (regrant k (fresh_lease H f c NotTakenOver) s,
          Inr (grant_for k Acquired f
             (fresh_lease H f c NotTakenOver (snd (next_generation s k))) now))
      | Some l \<Rightarrow>
          if l_client_id l = c \<and> l_state l = Connected then
            (regrant k (renewed_lease H f l) s,
             Inr (grant_for k Renewed f (renewed_lease H f l (snd (next_generation s k))) now))
          else if t \<noteq> Some \<lparr>tc_controller_id = l_controller_id l, tc_generation = l_generation l\<rparr>
          then (s, Inl (TakeoverConfirmationRequired (snapshot_of k l now)))
          else if p then (s, Inl (PendingApproval k))
          else (regrant k (fresh_lease H f c Confirmed) s,
            Inr (grant_for k (TakenOver (l_controller_id l)) f
               (fresh_lease H f c Confirmed (snd (next_generation s k))) now)))"
  by (simp add: acquire_def renew_eq grant_new_eq confirmation_of_def snapshot_of_def
      split: option.split)

lemma reconnect_eq:
  "reconnect H f s c presented now =
     (case match_reconnect (H presented) (leases s) of
        None \<Rightarrow> (s, Inl InvalidReconnect)
      | Some (k, l) \<Rightarrow>
          if grace_over l now then (s, Inl ExpiredReconnect)
          else (regrant k (resumed_lease H f c l) s,
            Inr (grant_for k Reconnected f
              (resumed_lease H f c l (snd (next_generation s k))) now)))"
  by (simp add: reconnect_def regrant_def reconnect_capability_def Let_def split_beta
      resumed_lease_def grant_for_def split: option.split)

lemma disconnect_each_Cons:
  "disconnect_each r now grace (k # ks) s =
     (let d = (case instant_checked_add now grace of None \<Rightarrow> now | Some d \<Rightarrow> d);
          n = snd (next_generation s k)
      in case bt_get (leases s) k of
           None \<Rightarrow> None
         | Some l \<Rightarrow>
             map_option (\<lambda>(s', changes). (s',
                 (\<lparr>ch_conversation = k, ch_controller = Some (snapshot_of k (waiting_lease r d l n) now),
                   ch_change = Disconnected r\<rparr>,
                  \<lparr>ex_conversation = k, ex_generation = n, ex_deadline = d\<rparr>) # changes))
               (disconnect_each r now grace ks (regrant k (waiting_lease r d l) s)))"
  by (simp add: regrant_def Let_def split_beta waiting_lease_def split: option.split)

declare disconnect_each.simps(2) [simp del]

lemma disconnect_each_total:
  assumes "\<forall>k\<in>set ks. bt_get (leases s) k \<noteq> None"
  shows "\<exists>s' changes. disconnect_each r now grace ks s = Some (s', changes)"
  using assms
proof (induction ks arbitrary: s)
  case (Cons k ks)
  from Cons.prems obtain l where l: "bt_get (leases s) k = Some l" by auto
  have "\<forall>j\<in>set ks. bt_get (leases (regrant k mk s)) j \<noteq> None" for mk
    using Cons.prems by (auto simp: get_lease_regrant)
  then have "\<exists>s' changes. disconnect_each r now grace ks (regrant k mk s) = Some (s', changes)" for mk
    by (rule Cons.IH)
  then show ?case
    using l by (fastforce simp: disconnect_each_Cons Let_def)
qed simp

lemma disconnect_each_preserves:
  assumes "disconnect_each r now grace ks s = Some (s', changes)"
    and "leases_ok s"
  shows "leases_ok s' \<and> gens_below s s'"
  using assms
proof (induction ks arbitrary: s changes)
  case (Cons k ks)
  obtain d l cs where
    rest: "disconnect_each r now grace ks (regrant k (waiting_lease r d l) s) = Some (s', cs)"
    using Cons.prems(1) by (auto simp: disconnect_each_Cons Let_def split: option.splits)
  have "leases_ok (regrant k (waiting_lease r d l) s)"
    by (rule leases_ok_regrant [OF Cons.prems(2)]) simp_all
  from Cons.IH [OF rest this] show ?case
    using gens_below_regrant gens_below_trans by blast
qed simp

section \<open>The lease machine\<close>

definition takes_over :: "('k controller_leases \<times> ('k lease_error + 'k controller_grant)) \<Rightarrow> bool" where
  "takes_over r = (case snd r of Inl _ \<Rightarrow> False
     | Inr g \<Rightarrow> (case gr_change g of TakenOver _ \<Rightarrow> True | _ \<Rightarrow> False))"

datatype 'k lease_command =
    Acquire_cmd fresh 'k client_id "takeover_confirmation option" bool instant
  | Renew_cmd fresh 'k client_id instant
  | Disconnect_cmd client_id disconnect_reason instant nat
  | Reconnect_cmd fresh client_id string instant
  | Release_cmd 'k client_id
  | Expire_cmd "'k controller_expiry" instant
  | ExpireAll_cmd

fun lease_step ::
  "(string \<Rightarrow> digest) \<Rightarrow> 'k::linorder controller_leases \<Rightarrow> 'k lease_command \<Rightarrow> 'k controller_leases" where
  "lease_step H s (Acquire_cmd f k c t p now) = fst (acquire H f s k c t p now)"
| "lease_step H s (Renew_cmd f k c now) = fst (renew H f s k c now)"
| "lease_step H s (Disconnect_cmd c r now grace) =
     (case disconnect_client s c r now grace of None \<Rightarrow> s | Some (s', _) \<Rightarrow> s')"
| "lease_step H s (Reconnect_cmd f c presented now) = fst (reconnect H f s c presented now)"
| "lease_step H s (Release_cmd k c) = fst (release s k c)"
| "lease_step H s (Expire_cmd x now) = fst (expire s x now)"
| "lease_step H s ExpireAll_cmd = fst (expire_all s)"

lemma match_reconnect_get:
  assumes "match_reconnect h ls = Some (k, l)" and "bt_wf ls"
  shows "bt_get ls k = Some l" and "constant_time_equal h (l_reconnect_hash l)"
proof -
  from assms(1) have "(k, l) \<in> set ls \<and> constant_time_equal h (l_reconnect_hash l)"
    by (auto simp: match_reconnect_def find_Some_iff) (metis nth_mem)
  then show "bt_get ls k = Some l" and "constant_time_equal h (l_reconnect_hash l)"
    using assms(2) by (auto intro: bt_in_set_get)
qed

lemma connected_conversations_present:
  "\<forall>k\<in>set (connected_conversations s c). bt_get (leases s) k \<noteq> None"
proof
  fix k assume "k \<in> set (connected_conversations s c)"
  then have "k \<in> set (bt_keys (leases s))"
    by (auto simp: connected_conversations_def bt_keys_def)
  then show "bt_get (leases s) k \<noteq> None" by (simp add: set_bt_keys)
qed

lemma disconnect_client_total:
  "\<exists>s' changes. disconnect_client s c r now grace = Some (s', changes)"
  unfolding disconnect_client_def
  by (rule disconnect_each_total [OF connected_conversations_present])

lemma release_eq:
  "release s k c = (case bt_get (leases s) k of
      None \<Rightarrow> (s, Inl (NotController k))
    | Some l \<Rightarrow> if l_client_id l = c
        then (drop_lease k s,
          Inr \<lparr>ch_conversation = k, ch_controller = None, ch_change = Released\<rparr>)
        else (s, Inl (NotController k)))"
  by (simp add: release_def drop_lease_def split: option.split)

lemma fst_expire_cases: "fst (expire s x now) = s \<or> fst (expire s x now) = drop_lease (ex_conversation x) s"
  by (simp add: expire_def drop_lease_def)

lemma lease_step_preserves:
  assumes ok: "leases_ok s"
  shows "leases_ok (lease_step H s c) \<and> gens_below s (lease_step H s c)"
proof (cases c)
  case (Acquire_cmd f k cl t p now)
  then show ?thesis
    using ok by (auto simp: acquire_eq intro!: leases_ok_regrant gens_below_regrant split: option.split)
next
  case (Renew_cmd f k cl now)
  then show ?thesis
    using ok by (auto simp: renew_eq intro!: leases_ok_regrant gens_below_regrant split: option.split)
next
  case (Disconnect_cmd cl r now grace)
  then show ?thesis
    using ok
    by (auto simp: disconnect_client_def dest: disconnect_each_preserves split: option.split)
next
  case (Reconnect_cmd f cl pr now)
  then show ?thesis
    using ok by (auto simp: reconnect_eq intro!: leases_ok_regrant gens_below_regrant split: option.split)
next
  case (Release_cmd k cl)
  then show ?thesis
    using ok by (auto simp: release_eq intro!: leases_ok_drop gens_below_drop split: option.split)
next
  case (Expire_cmd x now)
  then show ?thesis
    using ok fst_expire_cases [of s x now] leases_ok_drop gens_below_drop by fastforce
next
  case ExpireAll_cmd
  then show ?thesis
    using ok by (simp add: expire_all_def leases_ok_def gens_below_def generation_of_def)
qed

interpretation lm: monotone_machine "lease_step H" leases_ok gens_below
  by unfold_locales (auto simp: lease_step_preserves intro: gens_below_trans)

lemma leases_ok_new [simp]: "leases_ok new_leases"
  by (simp add: leases_ok_def new_leases_def)

text \<open>A confirmation of an older generation takes nothing over.\<close>

lemma stale_confirmation_refused:
  assumes "leases_ok s" and "unat (tc_generation t) < generation_of s k"
  shows "\<not> takes_over (acquire H f s k c (Some t) p now)"
  using assms leases_ok_generation [OF assms(1), of k]
  by (auto simp: acquire_eq takes_over_def split: option.split)

lemma stale_expiry_ignored:
  assumes "leases_ok s" and "unat (ex_generation x) < generation_of s (ex_conversation x)"
  shows "expire s x now = (s, None)"
  using assms leases_ok_generation [OF assms(1), of "ex_conversation x"]
  by (auto simp: expire_def split: option.split)

section \<open>Properties\<close>

lemma word_or_eq_0: "a OR b = 0 \<longleftrightarrow> a = 0 \<and> b = (0 :: 'a::len word)"
  by (auto simp: bit_eq_iff bit_simps)

lemma word_xor_eq_0: "a XOR b = 0 \<longleftrightarrow> a = (b :: 'a::len word)"
  by (auto simp: bit_eq_iff bit_simps)

lemma fold_difference_eq_0:
  "foldl (\<lambda>different (l, r). different OR (l XOR r)) d ps = 0 \<longleftrightarrow>
     d = 0 \<and> (\<forall>(l, r)\<in>set ps. l = (r :: u8))"
  by (induction ps arbitrary: d) (auto simp: word_or_eq_0 word_xor_eq_0)

text \<open>
  The branch-free digest comparison decides equality of digests: on two arrays of the same
  length, folding the bitwise differences gives zero exactly when the arrays are equal.
\<close>

theorem constant_time_equal_is_equality:
  assumes "length left = length right"
  shows "constant_time_equal left right \<longleftrightarrow> left = right"
proof -
  have "(\<forall>(l, r)\<in>set (zip left right). l = r) \<longleftrightarrow> left = right"
    using assms by (induction rule: list_induct2) auto
  then show ?thesis
    by (simp add: constant_time_equal_def fold_difference_eq_0)
qed

theorem constant_time_equal_is_equality_witness:
  "length [1, 2 :: u8] = length [1, 3 :: u8] \<and> \<not> constant_time_equal [1, 2] [1, 3]"
  using constant_time_equal_is_equality [of "[1, 2]" "[1, 3]"] by simp

text \<open>Whatever commands reach the lease table, in whatever order, the tables stay ordered maps,
  every lease carries exactly the current generation of its Conversation, and a lease has a
  reconnect deadline and a disconnect reason exactly while it is not connected.
\<close>

theorem lease_table_invariant:
  "leases_ok (foldl (lease_step H) new_leases cs)"
  by (rule lm.run_inv) simp

text \<open>
  Generations of a Conversation never repeat, across release, expiry and shutdown: a grant
  made after any further commands carries a strictly larger generation than any held at an
  earlier moment, as long as the 64-bit counter has not saturated.
\<close>

theorem generations_only_advance:
  assumes "snd (acquire H f (foldl (lease_step H) new_leases (cs @ ds)) k c t p now) = Inr g"
    and "generation_of (foldl (lease_step H) new_leases (cs @ ds)) k < 2 ^ 64 - 1"
  shows "generation_of (foldl (lease_step H) new_leases cs) k < unat (sn_generation (gr_snapshot g))"
proof -
  let ?s = "foldl (lease_step H) new_leases (cs @ ds)"
  have "generation_of (foldl (lease_step H) new_leases cs) k \<le> generation_of ?s k"
    using lm.run_split_below [of new_leases H cs ds] by (simp add: gens_below_def)
  also have "generation_of ?s k < unat (snd (next_generation ?s k))"
    using assms(2) by (auto simp: generation_of_def sat_simps split: option.splits)
  also have "snd (next_generation ?s k) = sn_generation (gr_snapshot g)"
    using assms(1) by (auto simp: acquire_eq snapshot_of_def split: option.splits if_splits)
  finally show ?thesis .
qed

text \<open>A concrete run for the witnesses: two clients, one Conversation, a digest of known bytes.\<close>

definition demo_hash :: "string \<Rightarrow> digest" where
  "demo_hash cap = map of_char cap"

definition demo_fresh :: "uuid \<Rightarrow> char \<Rightarrow> fresh" where
  "demo_fresh i x = \<lparr>fr_controller = i, fr_first = [x], fr_second = [x]\<rparr>"

definition demo_acquire :: "nat lease_command" where
  "demo_acquire = Acquire_cmd (demo_fresh 10 CHR ''a'') 7 1 None False 0"

lemmas demo_defs = demo_hash_def demo_fresh_def demo_acquire_def new_leases_def
lemmas lease_eval = acquire_eq renew_eq release_eq reconnect_eq regrant_def drop_lease_def
  next_generation_def bt_get_def sat_add_def written_lease_defs grant_for_def snapshot_of_def
  generation_of_def

theorem generations_only_advance_witness:
  "generation_of (foldl (lease_step demo_hash) new_leases [demo_acquire]) 7
     < unat (sn_generation (gr_snapshot (projr (snd (acquire demo_hash (demo_fresh 11 CHR ''b'')
         (foldl (lease_step demo_hash) new_leases ([demo_acquire] @ [Release_cmd 7 1]))
         7 2 None False 5)))))"
  by (rule generations_only_advance [where ds = "[Release_cmd 7 1]" and t = None
        and H = demo_hash and f = "demo_fresh 11 CHR ''b''" and p = False and c = 2 and now = 5])
    (simp_all add: demo_defs lease_eval bt_remove_def)

text \<open>The first competing takeover wins. Once a confirmation has taken a Conversation over, the
  same confirmation never takes it over again, for any client and after any further commands:
  a stale contender is refused rather than becoming the last writer.
\<close>

theorem first_confirmed_takeover_wins:
  assumes "leases_ok s" and "acquire H f s k c (Some t) p now = (s1, Inr g)"
    and "takes_over (s1, Inr g :: 'k lease_error + 'k controller_grant)" and "tc_generation t \<noteq> - 1"
  shows "\<not> takes_over (acquire H f' (foldl (lease_step H) s1 cs) (k :: 'k::linorder) c' (Some t) p' now')"
proof -
  obtain l where l: "bt_get (leases s) k = Some l" and t: "tc_generation t = l_generation l"
    and s1: "s1 = regrant k (fresh_lease H f c Confirmed) s"
    using assms(2,3) by (auto simp: acquire_eq takes_over_def split: option.splits if_splits)
  have ok: "leases_ok s1"
    unfolding s1 by (rule leases_ok_regrant [OF assms(1)]) simp_all
  have "unat (tc_generation t) < generation_of s1 k"
    using next_generation_gt [OF assms(1) l] assms(4) t by (simp add: s1 generation_of_regrant)
  also have "\<dots> \<le> generation_of (foldl (lease_step H) s1 cs) k"
    using lm.run_below [OF ok] by (simp add: gens_below_def)
  finally show ?thesis
    by (rule stale_confirmation_refused [OF lm.run_inv [OF ok]])
qed

definition demo_claim :: takeover_confirmation where
  "demo_claim = \<lparr>tc_controller_id = 10, tc_generation = 1\<rparr>"

definition demo_taken :: "nat controller_leases \<times> (nat lease_error + nat controller_grant)" where
  "demo_taken = acquire demo_hash (demo_fresh 11 CHR ''b'')
     (foldl (lease_step demo_hash) new_leases [demo_acquire]) 7 2 (Some demo_claim) False 5"

theorem first_confirmed_takeover_wins_witness:
  "takes_over demo_taken \<and>
   \<not> takes_over (acquire demo_hash (demo_fresh 12 CHR ''c'')
      (foldl (lease_step demo_hash) (fst demo_taken) []) 7 3 (Some demo_claim) False 6)"
proof -
  have taken: "takes_over demo_taken"
    by (simp add: demo_taken_def demo_claim_def takes_over_def demo_defs lease_eval)
  have ok: "snd demo_taken = Inr (projr (snd demo_taken))"
    by (simp add: demo_taken_def demo_claim_def demo_defs lease_eval)
  have "\<not> takes_over (acquire demo_hash (demo_fresh 12 CHR ''c'')
      (foldl (lease_step demo_hash) (fst demo_taken) []) 7 3 (Some demo_claim) False 6)"
  proof (rule first_confirmed_takeover_wins)
    show "leases_ok (foldl (lease_step demo_hash) new_leases [demo_acquire])"
      by (rule lm.run_inv) simp
    show "acquire demo_hash (demo_fresh 11 CHR ''b'')
      (foldl (lease_step demo_hash) new_leases [demo_acquire]) 7 2 (Some demo_claim) False 5
        = (fst demo_taken, Inr (projr (snd demo_taken)))"
      by (simp only: ok [symmetric] prod.collapse) (simp only: demo_taken_def)
    show "takes_over (fst demo_taken, Inr (projr (snd demo_taken)) :: nat lease_error + nat controller_grant)"
      by (simp only: ok [symmetric] prod.collapse taken)
    show "tc_generation demo_claim \<noteq> - 1" by (simp add: demo_claim_def)
  qed
  with taken show ?thesis by simp
qed

lemma disconnect_each_client:
  "disconnect_each r now grace ks s = Some (s', changes) \<Longrightarrow>
     \<not> is_controller s k c \<Longrightarrow> \<not> is_controller s' k c"
proof (induction ks arbitrary: s changes)
  case (Cons j ks)
  obtain d l cs where
    rest: "disconnect_each r now grace ks (regrant j (waiting_lease r d l) s) = Some (s', cs)"
    using Cons.prems(1) by (auto simp: disconnect_each_Cons Let_def split: option.splits)
  have "\<not> is_controller (regrant j (waiting_lease r d l) s) k c"
    using Cons.prems(2) by (simp add: is_controller_def get_lease_regrant waiting_lease_def)
  with rest show ?case by (rule Cons.IH)
qed simp

lemma is_controller_regrant:
  "is_controller (regrant j mk s) k c \<longleftrightarrow>
     (if k = j then l_client_id (mk (snd (next_generation s j))) = c \<and>
        l_state (mk (snd (next_generation s j))) = Connected
      else is_controller s k c)"
  by (simp add: is_controller_def get_lease_regrant)

lemma is_controller_drop: "is_controller (drop_lease j s) k c \<longleftrightarrow> k \<noteq> j \<and> is_controller s k c"
  by (simp add: is_controller_def get_lease_drop)

definition names_exactly :: "takeover_confirmation \<Rightarrow> lease \<Rightarrow> bool" where
  "names_exactly t l \<longleftrightarrow> tc_controller_id t = l_controller_id l \<and> tc_generation t = l_generation l"

text \<open>
  C21: control of a Conversation held by a connected client passes to another client in one
  command only if that client acquires it under a confirmation naming the held lease exactly,
  with no approval pending, or reconnects presenting a capability whose digest is the lease's.
  No other command, and no command about another Conversation, moves it.
\<close>

theorem control_passes_only_on_proof:
  assumes "leases_ok s" and held: "bt_get (leases s) k = Some l" "l_client_id l = c" "l_state l = Connected"
    and "c' \<noteq> c" and moved: "is_controller (lease_step H s cmd) k c'"
  shows "(\<exists>f t now. cmd = Acquire_cmd f k c' (Some t) False now \<and> names_exactly t l) \<or>
     (\<exists>f presented now. cmd = Reconnect_cmd f c' presented now \<and>
        constant_time_equal (H presented) (l_reconnect_hash l))"
proof -
  have out: "\<not> is_controller s k c'"
    using held assms(5) by (simp add: is_controller_def)
  show ?thesis
  proof (cases cmd)
    case (Acquire_cmd f j cl t p now)
    then show ?thesis
      using moved out held assms(5)
      by (auto simp: acquire_eq is_controller_regrant renewed_lease_def names_exactly_def
          split: option.splits if_splits)
  next
    case (Renew_cmd f j cl now)
    then show ?thesis
      using moved out held assms(5)
      by (auto simp: renew_eq is_controller_regrant renewed_lease_def split: option.splits if_splits)
  next
    case (Disconnect_cmd cl r now grace)
    then show ?thesis
      using moved out
      by (auto simp: disconnect_client_def dest: disconnect_each_client split: option.splits)
  next
    case (Reconnect_cmd f cl pr now)
    obtain j m where j: "match_reconnect (H pr) (leases s) = Some (j, m)" "j = k" "cl = c'"
      using moved out Reconnect_cmd
      by (auto simp: reconnect_eq is_controller_regrant resumed_lease_def
          split: option.splits if_splits)
    with match_reconnect_get [OF j(1) leases_ok_wf [OF assms(1)]] held(1) Reconnect_cmd
    show ?thesis by auto
  next
    case (Release_cmd j cl)
    then show ?thesis
      using moved out by (auto simp: release_eq is_controller_drop split: option.splits if_splits)
  next
    case (Expire_cmd x now)
    then show ?thesis
      using moved out fst_expire_cases [of s x now] by (auto simp: is_controller_drop)
  next
    case ExpireAll_cmd
    then show ?thesis
      using moved by (simp add: expire_all_def is_controller_def)
  qed
qed

lemma demo_state_ok: "leases_ok (foldl (lease_step demo_hash) new_leases [demo_acquire])"
  by (rule lm.run_inv) simp

theorem control_passes_only_on_proof_witness:
  "let s = foldl (lease_step demo_hash) new_leases [demo_acquire];
       cmd = Acquire_cmd (demo_fresh 11 CHR ''b'') 7 2 (Some demo_claim) False 5
   in is_controller (lease_step demo_hash s cmd) 7 2 \<and>
     ((\<exists>f t now. cmd = Acquire_cmd f 7 2 (Some t) False now \<and>
         names_exactly t (the (bt_get (leases s) 7))) \<or>
      (\<exists>f presented now. cmd = Reconnect_cmd f 2 presented now \<and>
         constant_time_equal (demo_hash presented)
           (l_reconnect_hash (the (bt_get (leases s) 7)))))"
proof -
  let ?s = "foldl (lease_step demo_hash) new_leases [demo_acquire]"
  let ?cmd = "Acquire_cmd (demo_fresh 11 CHR ''b'') 7 2 (Some demo_claim) False 5"
  have l: "bt_get (leases ?s) 7 = Some (the (bt_get (leases ?s) 7))"
    "l_client_id (the (bt_get (leases ?s) 7)) = 1"
    "l_state (the (bt_get (leases ?s) 7)) = Connected"
    by (simp_all add: demo_defs lease_eval)
  have moved: "is_controller (lease_step demo_hash ?s ?cmd) 7 2"
    by (simp add: demo_defs demo_claim_def lease_eval is_controller_def)
  have "(2 :: nat) \<noteq> 1" by simp
  from control_passes_only_on_proof [OF demo_state_ok l this moved] moved
  show ?thesis by (simp only: Let_def simp_thms)
qed

lemma disconnect_each_expiry_generation:
  assumes "disconnect_each r now grace ks s = Some (s', changes)" and "leases_ok s"
    and "(ch, x) \<in> set changes"
  shows "unat (ex_generation x) \<le> generation_of s' (ex_conversation x)"
  using assms
proof (induction ks arbitrary: s changes ch)
  case (Cons k ks)
  obtain d l cs where
    rest: "disconnect_each r now grace ks (regrant k (waiting_lease r d l) s) = Some (s', cs)"
    and changes: "snd ` set changes = insert
        \<lparr>ex_conversation = k, ex_generation = snd (next_generation s k), ex_deadline = d\<rparr> (snd ` set cs)"
    using Cons.prems(1) by (auto simp: disconnect_each_Cons Let_def split: option.splits)
  let ?s1 = "regrant k (waiting_lease r d l) s"
  have ok: "leases_ok ?s1"
    by (rule leases_ok_regrant [OF Cons.prems(2)]) simp_all
  have "x \<in> snd ` set changes" using Cons.prems(3) by force
  then consider "x = \<lparr>ex_conversation = k, ex_generation = snd (next_generation s k), ex_deadline = d\<rparr>"
    | y where "(y, x) \<in> set cs"
    unfolding changes by auto
  then show ?case
  proof cases
    case 1
    have "unat (ex_generation x) = generation_of ?s1 k"
      using 1 by (simp add: generation_of_regrant)
    also have "\<dots> \<le> generation_of s' k"
      using disconnect_each_preserves [OF rest ok] by (simp add: gens_below_def)
    finally show ?thesis using 1 by simp
  next
    case (2 y)
    then show ?thesis by (rule Cons.IH [OF rest ok])
  qed
qed simp

text \<open>
  A reconnected lease survives its disconnect timer. After a client disconnects and a
  client reconnects to the Conversation, the expiry scheduled by that disconnect never removes
  anything, however late it fires and whatever commands ran in between.
\<close>

theorem reconnected_lease_survives_timer:
  fixes s :: "'k::linorder controller_leases"
  assumes "leases_ok s"
    and "disconnect_client s c r now grace = Some (s1, changes)" and "(ch, x) \<in> set changes"
    and "reconnect H f s1 c' presented now' = (s2, Inr g)"
    and "sn_conversation (gr_snapshot g) = ex_conversation x"
    and "generation_of s1 (ex_conversation x) < 2 ^ 64 - 1"
  shows "expire (foldl (lease_step H) s2 cs) x now'' = (foldl (lease_step H) s2 cs, None)"
proof -
  let ?k = "ex_conversation x"
  have dis: "disconnect_each r now grace (connected_conversations s c) s = Some (s1, changes)"
    using assms(2) by (simp add: disconnect_client_def)
  have ok1: "leases_ok s1" using disconnect_each_preserves [OF dis assms(1)] by simp
  obtain l where s2: "s2 = regrant ?k (resumed_lease H f c' l) s1"
    using assms(4,5) by (auto simp: reconnect_eq snapshot_of_def split: option.splits if_splits)
  have ok2: "leases_ok s2"
    unfolding s2 by (rule leases_ok_regrant [OF ok1]) simp_all
  have "unat (ex_generation x) \<le> generation_of s1 ?k"
    by (rule disconnect_each_expiry_generation [OF dis assms(1,3)])
  also have "\<dots> < unat (snd (next_generation s1 ?k))"
    using assms(6) by (auto simp: generation_of_def sat_simps split: option.splits)
  also have "\<dots> = generation_of s2 ?k"
    by (simp add: s2 generation_of_regrant)
  also have "\<dots> \<le> generation_of (foldl (lease_step H) s2 cs) ?k"
    using lm.run_below [OF ok2] by (simp add: gens_below_def)
  finally show ?thesis
    by (rule stale_expiry_ignored [OF lm.run_inv [OF ok2]])
qed

definition demo_expiry :: "nat controller_expiry" where
  "demo_expiry = \<lparr>ex_conversation = 7, ex_generation = 2, ex_deadline = 103\<rparr>"

definition demo_waiting :: "nat controller_leases" where
  "demo_waiting = fst (the (disconnect_client
     (foldl (lease_step demo_hash) new_leases [demo_acquire]) 1 TransportClosed 100 3))"

lemmas disconnect_eval = disconnect_client_def connected_conversations_def disconnect_each_Cons
  instant_checked_add_def instant_limit_def match_reconnect_def grace_over_def
  constant_time_equal_def

theorem reconnected_lease_survives_timer_witness:
  "is_ok (snd (reconnect demo_hash (demo_fresh 12 CHR ''c'') demo_waiting 1 ''aa'' 102)) \<and>
   expire (foldl (lease_step demo_hash)
       (fst (reconnect demo_hash (demo_fresh 12 CHR ''c'') demo_waiting 1 ''aa'' 102)) [])
     demo_expiry 103 =
   (foldl (lease_step demo_hash)
       (fst (reconnect demo_hash (demo_fresh 12 CHR ''c'') demo_waiting 1 ''aa'' 102)) [], None)"
proof -
  let ?s = "foldl (lease_step demo_hash) new_leases [demo_acquire]"
  let ?d = "the (disconnect_client ?s 1 TransportClosed 100 3)"
  let ?r = "reconnect demo_hash (demo_fresh 12 CHR ''c'') demo_waiting 1 ''aa'' 102"
  have d: "disconnect_client ?s 1 TransportClosed 100 3 = Some (demo_waiting, snd ?d)"
    by (simp add: demo_waiting_def demo_defs lease_eval disconnect_eval)
  have x: "(fst (hd (snd ?d)), demo_expiry) \<in> set (snd ?d)"
    by (simp add: demo_expiry_def demo_defs lease_eval disconnect_eval)
  have ok: "is_ok (snd ?r)"
    by (simp add: demo_waiting_def demo_defs lease_eval disconnect_eval)
  then have r: "?r = (fst ?r, Inr (projr (snd ?r)))" by (metis is_okE prod.collapse sum.sel(2))
  have conv: "sn_conversation (gr_snapshot (projr (snd ?r))) = ex_conversation demo_expiry"
    by (simp add: demo_waiting_def demo_expiry_def demo_defs lease_eval disconnect_eval)
  have small: "generation_of demo_waiting (ex_conversation demo_expiry) < 2 ^ 64 - 1"
    by (simp add: demo_waiting_def demo_expiry_def demo_defs lease_eval disconnect_eval)
  show ?thesis
    by (intro conjI ok reconnected_lease_survives_timer [OF demo_state_ok d x r conv small])
qed

text \<open>The reconnect grace ends at one instant. For a waiting lease, the holder of its capability
  can reconnect at a time exactly when its own expiry cannot yet remove it at that time: there is
  no instant at which both succeed and none at which both fail.
\<close>

theorem grace_ends_at_one_instant:
  assumes "leases_ok s" and "match_reconnect (H presented) (leases s) = Some (k, l)"
    and "l_state l = Reconnecting" and "ex_conversation x = k" and "ex_generation x = l_generation l"
  shows "is_ok (snd (reconnect H f s c presented now)) \<longleftrightarrow> snd (expire s x now) = None"
proof -
  have l: "bt_get (leases s) k = Some l"
    using match_reconnect_get [OF assms(2) leases_ok_wf [OF assms(1)]] by simp
  have "l_reconnect_deadline l \<noteq> None"
    using leases_ok_settled [OF assms(1) l] assms(3) by (auto simp: settled_def)
  then show ?thesis
    using assms(2-5) l by (auto simp: reconnect_eq expire_def grace_over_def)
qed

lemma demo_waiting_ok: "leases_ok demo_waiting"
proof -
  let ?s = "foldl (lease_step demo_hash) new_leases [demo_acquire]"
  obtain s' cs where "disconnect_client ?s 1 TransportClosed 100 3 = Some (s', cs)"
    using disconnect_client_total by blast
  then show ?thesis
    using disconnect_each_preserves demo_state_ok
    by (fastforce simp: demo_waiting_def disconnect_client_def)
qed

theorem grace_ends_at_one_instant_witness:
  "is_ok (snd (reconnect demo_hash (demo_fresh 12 CHR ''c'') demo_waiting 1 ''aa'' 102))
     \<longleftrightarrow> snd (expire demo_waiting demo_expiry 102) = None"
  by (rule grace_ends_at_one_instant [OF demo_waiting_ok,
        where k = 7 and l = "the (bt_get (leases demo_waiting) 7)"])
    (simp_all add: demo_waiting_def demo_expiry_def demo_defs lease_eval disconnect_eval)

text \<open>Reconnect capabilities are single use. A successful reconnect rotates the capability, so
  presenting the consumed one again is refused as invalid, provided the digests of the two
  capabilities differ and no other lease shares the consumed digest.
\<close>

theorem reconnect_capability_single_use:
  fixes s :: "'k::linorder controller_leases"
  assumes "leases_ok s" and "reconnect H f s c presented now = (s1, Inr g)"
    and "\<not> constant_time_equal (H presented) (H (gr_capability g))"
    and "\<forall>(k, l)\<in>set (leases s). k \<noteq> sn_conversation (gr_snapshot g) \<longrightarrow>
           \<not> constant_time_equal (H presented) (l_reconnect_hash l)"
  shows "reconnect H f' s1 c' presented now' = (s1, Inl InvalidReconnect)"
proof -
  obtain k l where s1: "s1 = regrant k (resumed_lease H f c l) s"
    and k: "sn_conversation (gr_snapshot g) = k" and cap: "gr_capability g = fr_first f @ fr_second f"
    using assms(2) by (auto simp: reconnect_eq snapshot_of_def split: option.splits if_splits)
  have ok1: "leases_ok s1"
    unfolding s1 by (rule leases_ok_regrant [OF assms(1)]) simp_all
  have "\<not> constant_time_equal (H presented) (l_reconnect_hash m)" if "(j, m) \<in> set (leases s1)" for j m
  proof -
    have "bt_get (leases s1) j = Some m"
      using that leases_ok_wf [OF ok1] by (rule bt_in_set_get [rotated])
    then show ?thesis
      using assms(3,4) k cap
      by (auto simp: s1 get_lease_regrant resumed_lease_def dest!: bt_get_in_set split: if_splits)
  qed
  then have "match_reconnect (H presented) (leases s1) = None"
    by (auto simp: match_reconnect_def find_None_iff)
  then show ?thesis by (simp add: reconnect_def)
qed

theorem reconnect_capability_single_use_witness:
  "let r = reconnect demo_hash (demo_fresh 12 CHR ''c'') demo_waiting 1 ''aa'' 102
   in is_ok (snd r) \<and>
      reconnect demo_hash (demo_fresh 13 CHR ''d'') (fst r) 1 ''aa'' 102 = (fst r, Inl InvalidReconnect)"
proof -
  let ?r = "reconnect demo_hash (demo_fresh 12 CHR ''c'') demo_waiting 1 ''aa'' 102"
  have ok: "is_ok (snd ?r)"
    by (simp add: demo_waiting_def demo_defs lease_eval disconnect_eval)
  then have r: "?r = (fst ?r, Inr (projr (snd ?r)))" by (metis is_okE prod.collapse sum.sel(2))
  have "\<not> constant_time_equal (demo_hash ''aa'') (demo_hash (gr_capability (projr (snd ?r))))"
    by (simp add: demo_waiting_def demo_defs lease_eval disconnect_eval)
  moreover have "\<forall>(k, l)\<in>set (leases demo_waiting). k \<noteq> sn_conversation (gr_snapshot (projr (snd ?r))) \<longrightarrow>
      \<not> constant_time_equal (demo_hash ''aa'') (l_reconnect_hash l)"
    by (simp add: demo_waiting_def demo_defs lease_eval disconnect_eval)
  ultimately show ?thesis
    using ok reconnect_capability_single_use [OF demo_waiting_ok r] by (simp add: Let_def)
qed

end
