(* ===== verification/Budget_Ledger.thy ===== *)
theory Budget_Ledger
  imports Prelude
begin

text \<open>
  The orchestration budget, \<open>src/src/orchestration/budget.rs\<close>, and the configuration check
  that bounds it, \<open>validate_orchestration_limits\<close> of \<open>src/src/config.rs\<close>. Counters are 64-bit
  \<open>usize\<close> words, so the saturating sums and the plain \<open>+=\<close> of the code are what they are at run
  time; \<open>None\<close> is a panic (\<open>assert!\<close>, \<open>expect\<close>). The ledger is refined to the multiset of
  reservations that are charged and not yet rolled back.
\<close>

section \<open>Limits and budgets\<close>

record orchestration_limits =
  max_fan_out :: usize
  max_descendants :: usize
  max_concurrency :: usize
  deadline_seconds :: u64
  max_context_tokens :: usize
  max_report_bytes :: usize
  max_artifact_bytes :: usize

datatype limit_error =
    InvalidOrchestrationLimit string u64 u64
  | InvalidProfileOption string

definition check_limit :: "string \<Rightarrow> u64 \<Rightarrow> u64 \<Rightarrow> limit_error + unit" where
  "check_limit field value maximum =
     (if value = 0 \<or> value > maximum then Inl (InvalidOrchestrationLimit field value maximum)
      else Inr ())"

definition validate_orchestration_limits :: "orchestration_limits \<Rightarrow> limit_error + unit" where
  "validate_orchestration_limits limits =
     res_bind (check_limit ''max_fan_out'' (max_fan_out limits) 64) (\<lambda>_.
     res_bind (check_limit ''max_descendants'' (max_descendants limits) 256) (\<lambda>_.
     res_bind (check_limit ''max_concurrency'' (max_concurrency limits) 32) (\<lambda>_.
     res_bind (ensure (\<not> max_concurrency limits > max_descendants limits)
                 (InvalidProfileOption ''orchestration.max_concurrency'')) (\<lambda>_.
     res_bind (ensure (\<not> max_fan_out limits > max_descendants limits)
                 (InvalidProfileOption ''orchestration.max_fan_out'')) (\<lambda>_.
     res_bind (check_limit ''deadline_seconds'' (deadline_seconds limits) (24 * 60 * 60)) (\<lambda>_.
     res_bind (check_limit ''max_context_tokens'' (max_context_tokens limits) 1000000) (\<lambda>_.
     res_bind (check_limit ''max_report_bytes'' (max_report_bytes limits) (1024 * 1024)) (\<lambda>_.
     res_bind (check_limit ''max_artifact_bytes'' (max_artifact_bytes limits) (64 * 1024 * 1024))
       (\<lambda>_. Inr ())))))))))"

record orchestration_budget =
  limits :: orchestration_limits
  max_tool_rounds :: usize
  max_total_tool_rounds :: usize
  max_total_context_tokens :: usize
  max_total_report_bytes :: usize
  max_total_artifact_bytes :: usize

definition new_budget :: "orchestration_limits \<Rightarrow> usize \<Rightarrow> orchestration_budget" where
  "new_budget ls rounds =
     \<lparr>limits = ls,
      max_tool_rounds = rounds,
      max_total_tool_rounds = sat_mul rounds (max_descendants ls),
      max_total_context_tokens = sat_mul (max_context_tokens ls) (max_descendants ls),
      max_total_report_bytes = sat_mul (max_report_bytes ls) (max_descendants ls),
      max_total_artifact_bytes = sat_mul (max_artifact_bytes ls) (max_descendants ls)\<rparr>"

record reservation_request =
  tool_rounds :: usize
  context_tokens :: usize
  report_bytes :: usize
  artifact_bytes :: usize

record budget_reservation =
  request :: reservation_request

record budget_ledger =
  budget :: orchestration_budget
  admitted_children :: usize
  running_children :: usize
  used_tool_rounds :: usize
  used_context_tokens :: usize
  used_report_bytes :: usize
  used_artifact_bytes :: usize

datatype budget_error =
    EmptyBatch
  | FanOut nat usize
  | Descendants usize usize
  | ToolRounds usize usize
  | ContextTokens usize usize
  | ReportBytes usize usize
  | ArtifactBytes usize usize

section \<open>Operations\<close>

definition request_sum :: "(reservation_request \<Rightarrow> usize) \<Rightarrow> reservation_request list \<Rightarrow> usize" where
  "request_sum field requests = foldl (\<lambda>total r. sat_add total (field r)) 0 requests"

definition with_consumed :: "orchestration_budget \<Rightarrow> reservation_request list \<Rightarrow> budget_ledger" where
  "with_consumed b requests =
     \<lparr>budget = b,
      admitted_children = of_nat (length requests),
      running_children = 0,
      used_tool_rounds = request_sum tool_rounds requests,
      used_context_tokens = request_sum context_tokens requests,
      used_report_bytes = request_sum report_bytes requests,
      used_artifact_bytes = request_sum artifact_bytes requests\<rparr>"

definition check_capacity ::
  "usize \<Rightarrow> usize \<Rightarrow> (usize \<Rightarrow> usize \<Rightarrow> budget_error) \<Rightarrow> budget_error + unit" where
  "check_capacity requested remaining mk_error =
     (if requested > remaining then Inl (mk_error requested remaining) else Inr ())"

definition reserve_checks :: "budget_ledger \<Rightarrow> reservation_request list \<Rightarrow> budget_error + unit" where
  "reserve_checks l requests =
     (let b = budget l in
      if requests = [] then Inl EmptyBatch
      else if length requests > unat (max_fan_out (limits b))
      then Inl (FanOut (length requests) (max_fan_out (limits b)))
      else
     res_bind (check_capacity (of_nat (length requests))
        (sat_sub (max_descendants (limits b)) (admitted_children l)) Descendants) (\<lambda>_.
     res_bind (check_capacity (request_sum tool_rounds requests)
        (sat_sub (max_total_tool_rounds b) (used_tool_rounds l)) ToolRounds) (\<lambda>_.
     res_bind (check_capacity (request_sum context_tokens requests)
        (sat_sub (max_total_context_tokens b) (used_context_tokens l)) ContextTokens) (\<lambda>_.
     res_bind (check_capacity (request_sum report_bytes requests)
        (sat_sub (max_total_report_bytes b) (used_report_bytes l)) ReportBytes) (\<lambda>_.
     check_capacity (request_sum artifact_bytes requests)
        (sat_sub (max_total_artifact_bytes b) (used_artifact_bytes l)) ArtifactBytes)))))"

definition reserve_batch ::
  "budget_ledger \<Rightarrow> reservation_request list
    \<Rightarrow> budget_ledger \<times> (budget_error + budget_reservation list)" where
  "reserve_batch l requests =
     (case reserve_checks l requests of
        Inl e \<Rightarrow> (l, Inl e)
      | Inr _ \<Rightarrow>
          (l\<lparr>admitted_children := admitted_children l + of_nat (length requests),
             used_tool_rounds := used_tool_rounds l + request_sum tool_rounds requests,
             used_context_tokens := used_context_tokens l + request_sum context_tokens requests,
             used_report_bytes := used_report_bytes l + request_sum report_bytes requests,
             used_artifact_bytes := used_artifact_bytes l + request_sum artifact_bytes requests\<rparr>,
           Inr (map (\<lambda>r. \<lparr>request = r\<rparr>) requests)))"

definition can_start :: "budget_ledger \<Rightarrow> bool" where
  "can_start l = (running_children l < max_concurrency (limits (budget l)))"

definition mark_started :: "budget_ledger \<Rightarrow> budget_ledger option" where
  "mark_started l =
     (if can_start l then Some (l\<lparr>running_children := running_children l + 1\<rparr>) else None)"

definition mark_stopped :: "budget_ledger \<Rightarrow> budget_ledger option" where
  "mark_stopped l = map_option (\<lambda>n. l\<lparr>running_children := n\<rparr>) (checked_sub (running_children l) 1)"

definition rollback :: "budget_ledger \<Rightarrow> budget_reservation \<Rightarrow> budget_ledger option" where
  "rollback l reservation =
     (let r = request reservation in
      Option.bind (checked_sub (admitted_children l) 1) (\<lambda>children.
      Option.bind (checked_sub (used_tool_rounds l) (tool_rounds r)) (\<lambda>rounds.
      Option.bind (checked_sub (used_context_tokens l) (context_tokens r)) (\<lambda>tokens.
      Option.bind (checked_sub (used_report_bytes l) (report_bytes r)) (\<lambda>report.
      Option.bind (checked_sub (used_artifact_bytes l) (artifact_bytes r)) (\<lambda>artifact.
        Some (l\<lparr>admitted_children := children, used_tool_rounds := rounds,
                used_context_tokens := tokens, used_report_bytes := report,
                used_artifact_bytes := artifact\<rparr>)))))))"

text \<open>The loop with which a caller gives back a whole batch.\<close>

fun rollback_all :: "budget_ledger \<Rightarrow> budget_reservation list \<Rightarrow> budget_ledger option" where
  "rollback_all l [] = Some l"
| "rollback_all l (r # rs) = Option.bind (rollback l r) (\<lambda>l'. rollback_all l' rs)"

section \<open>The abstract account\<close>

text \<open>
  Abstractly the ledger is a multiset of outstanding charges on top of what was consumed before.
  \<open>dims\<close> are the four resources, each with its counter, its ceiling and the part of a request it
  is charged for; the child count is treated apart.
\<close>

datatype dim = Rounds | Tokens | Report | Artifact

fun asked :: "dim \<Rightarrow> reservation_request \<Rightarrow> usize" where
  "asked Rounds = tool_rounds"
| "asked Tokens = context_tokens"
| "asked Report = report_bytes"
| "asked Artifact = artifact_bytes"

fun used :: "dim \<Rightarrow> budget_ledger \<Rightarrow> usize" where
  "used Rounds = used_tool_rounds"
| "used Tokens = used_context_tokens"
| "used Report = used_report_bytes"
| "used Artifact = used_artifact_bytes"

fun ceiling :: "dim \<Rightarrow> orchestration_budget \<Rightarrow> usize" where
  "ceiling Rounds = max_total_tool_rounds"
| "ceiling Tokens = max_total_context_tokens"
| "ceiling Report = max_total_report_bytes"
| "ceiling Artifact = max_total_artifact_bytes"

definition charge :: "dim \<Rightarrow> reservation_request multiset \<Rightarrow> nat" where
  "charge d M = (\<Sum>r\<in>#M. unat (asked d r))"

definition accounts_for ::
  "budget_ledger \<Rightarrow> reservation_request multiset \<Rightarrow> budget_ledger \<Rightarrow> bool" where
  "accounts_for base M l \<longleftrightarrow>
     budget l = budget base \<and>
     unat (admitted_children l) = unat (admitted_children base) + size M \<and>
     (\<forall>d. unat (used d l) = unat (used d base) + charge d M)"

text \<open>No ceiling is the saturated maximum: what a validated configuration guarantees.\<close>

definition unsaturated :: "orchestration_budget \<Rightarrow> bool" where
  "unsaturated b \<longleftrightarrow> (\<forall>d. unat (ceiling d b) < 2 ^ 64 - 1) \<and> unat (max_descendants (limits b)) < 2 ^ 64 - 1"

section \<open>Sums and ceilings\<close>

lemma word64_max: "unat (w :: usize) \<le> 2 ^ 64 - 1"
  using unat_le_max [of w] by simp

lemma unat_request_sum_from:
  "unat (foldl (\<lambda>total r. sat_add total (f r)) t rs) =
     min (2 ^ 64 - 1) (unat (t :: usize) + (\<Sum>r\<leftarrow>rs. unat (f r)))"
proof (induction rs arbitrary: t)
  case Nil
  then show ?case using word64_max [of t] by simp
next
  case (Cons r rs)
  show ?case by (simp add: Cons sat_simps min_def)
qed

lemma unat_request_sum: "unat (request_sum f rs) = min (2 ^ 64 - 1) (\<Sum>r\<leftarrow>rs. unat (f r))"
  by (simp add: request_sum_def unat_request_sum_from)

lemma charge_simps [simp]:
  "charge d {#} = 0" "charge d (add_mset r M) = unat (asked d r) + charge d M"
  "charge d (M + N) = charge d M + charge d N"
  by (simp_all add: charge_def)

lemma charge_mset: "charge d (mset rs) = (\<Sum>r\<leftarrow>rs. unat (asked d r))"
  by (induction rs) simp_all

lemma unat_request_sum_charge: "unat (request_sum (asked d) rs) = min (2 ^ 64 - 1) (charge d (mset rs))"
  by (simp add: unat_request_sum charge_mset)

lemma charge_member: "r \<in># M \<Longrightarrow> unat (asked d r) \<le> charge d M"
  by (auto dest!: multi_member_split)

lemma charge_remove: "r \<in># M \<Longrightarrow> charge d (M - {#r#}) = charge d M - unat (asked d r)"
  by (auto dest!: multi_member_split)

lemma check_capacity_Inr:
  "check_capacity requested remaining E = Inr u \<longleftrightarrow> unat requested \<le> unat remaining"
  by (simp add: check_capacity_def word_le_nat_alt not_less word_less_nat_alt)

lemma reserve_checks_Inr:
  "reserve_checks l rs = Inr u \<longleftrightarrow>
     rs \<noteq> [] \<and> length rs \<le> unat (max_fan_out (limits (budget l))) \<and>
     length rs \<le> unat (max_descendants (limits (budget l))) - unat (admitted_children l) \<and>
     (\<forall>d. unat (request_sum (asked d) rs) \<le> unat (ceiling d (budget l)) - unat (used d l))"
proof -
  have all: "(\<forall>d. P d) \<longleftrightarrow> P Rounds \<and> P Tokens \<and> P Report \<and> P Artifact" for P
    by (metis dim.exhaust)
  have len: "unat (of_nat (length rs) :: usize) = length rs"
    if "length rs \<le> unat (max_fan_out (limits (budget l)))"
    using that word64_max [of "max_fan_out (limits (budget l))"]
    by (simp add: unat_of_nat)
  show ?thesis
    by (auto simp: reserve_checks_def Let_def res_simps check_capacity_Inr sat_simps all len)
qed

lemma reserve_checks_charge:
  assumes "reserve_checks l rs = Inr u" and "unsaturated (budget l)"
  shows "charge d (mset rs) \<le> unat (ceiling d (budget l)) - unat (used d l)"
    and "unat (request_sum (asked d) rs) = charge d (mset rs)"
proof -
  have "min (2 ^ 64 - 1) (charge d (mset rs)) \<le> unat (ceiling d (budget l)) - unat (used d l)"
    using assms(1) by (simp add: reserve_checks_Inr unat_request_sum_charge)
  moreover have "unat (ceiling d (budget l)) < 2 ^ 64 - 1"
    using assms(2) by (simp add: unsaturated_def)
  ultimately have "charge d (mset rs) \<le> unat (ceiling d (budget l)) - unat (used d l) \<and>
      charge d (mset rs) < 2 ^ 64 - 1"
    by linarith
  then show "charge d (mset rs) \<le> unat (ceiling d (budget l)) - unat (used d l)"
    and "unat (request_sum (asked d) rs) = charge d (mset rs)"
    by (simp_all add: unat_request_sum_charge)
qed

lemma unat_add_exact: "unat a + unat b < 2 ^ 64 \<Longrightarrow> unat (a + b :: usize) = unat a + unat b"
  by (simp add: unat_word_ariths)

lemma used_reserve:
  assumes "reserve_checks l rs = Inr u"
  shows "used d (fst (reserve_batch l rs)) = used d l + request_sum (asked d) rs"
  using assms by (cases d) (simp_all add: reserve_batch_def)

lemma reserve_charges:
  assumes "reserve_checks l rs = Inr u" and "unsaturated (budget l)"
  shows "unat (used d (fst (reserve_batch l rs))) = unat (used d l) + charge d (mset rs)"
    and "unat (admitted_children (fst (reserve_batch l rs))) =
           unat (admitted_children l) + length rs"
proof -
  have "unat (used d l) + charge d (mset rs) < 2 ^ 64"
    using reserve_checks_charge(1) [OF assms, of d] word64_max [of "used d l"]
      word64_max [of "ceiling d (budget l)"] by simp
  then show "unat (used d (fst (reserve_batch l rs))) = unat (used d l) + charge d (mset rs)"
    using reserve_checks_charge(2) [OF assms, of d]
    by (simp add: used_reserve [OF assms(1)] unat_add_exact)
next
  have n: "length rs \<le> unat (max_descendants (limits (budget l))) - unat (admitted_children l)"
    using assms(1) by (simp add: reserve_checks_Inr)
  then have sum: "unat (admitted_children l) + length rs < 2 ^ 64"
    using word64_max [of "admitted_children l"] word64_max [of "max_descendants (limits (budget l))"]
    by simp
  then have "unat (of_nat (length rs) :: usize) = length rs"
    by (simp add: unat_of_nat)
  with sum show "unat (admitted_children (fst (reserve_batch l rs))) =
      unat (admitted_children l) + length rs"
    using assms(1) by (simp add: reserve_batch_def unat_add_exact)
qed

section \<open>Refinement of the operations\<close>

lemma check_limit_Inr: "check_limit f v m = Inr u \<longleftrightarrow> 0 < unat v \<and> unat v \<le> unat m"
proof -
  have "v = 0 \<longleftrightarrow> unat v = 0" by (simp add: word_unat_eq_iff)
  then show ?thesis by (auto simp: check_limit_def word_less_nat_alt not_less)
qed

lemma validated_unsaturated:
  assumes "validate_orchestration_limits ls = Inr u" and "unat rounds \<le> 64"
  shows "unsaturated (new_budget ls rounds)"
proof -
  have b: "unat (max_descendants ls) \<le> 256" "unat (max_context_tokens ls) \<le> 1000000"
    "unat (max_report_bytes ls) \<le> 1048576" "unat (max_artifact_bytes ls) \<le> 67108864"
    using assms(1) by (auto simp: validate_orchestration_limits_def res_simps check_limit_Inr)
  have prod: "unat (sat_mul a (max_descendants ls)) < 2 ^ 64 - 1" if "unat a \<le> 67108864" for a :: usize
  proof -
    have "unat a * unat (max_descendants ls) \<le> 67108864 * 256"
      using that b(1) by (rule mult_le_mono)
    then show ?thesis by (simp add: sat_simps)
  qed
  show ?thesis
    unfolding unsaturated_def
  proof (intro conjI allI)
    fix d show "unat (ceiling d (new_budget ls rounds)) < 2 ^ 64 - 1"
      using b assms(2) by (cases d) (auto simp: new_budget_def intro!: prod [simplified])
  qed (use b(1) in \<open>simp add: new_budget_def\<close>)
qed

lemma accounts_for_refl [simp]: "accounts_for l {#} l"
  by (simp add: accounts_for_def)

lemma accounts_budget: "accounts_for base M l \<Longrightarrow> budget l = budget base"
  by (simp add: accounts_for_def)

lemma budget_reserve [simp]:
  "budget (fst (reserve_batch l rs)) = budget l"
  "running_children (fst (reserve_batch l rs)) = running_children l"
  by (simp_all add: reserve_batch_def split: sum.split)

lemma reserve_batch_Inr:
  "snd (reserve_batch l rs) = Inr tokens \<longleftrightarrow>
     reserve_checks l rs = Inr () \<and> tokens = map (\<lambda>r. \<lparr>request = r\<rparr>) rs"
  by (auto simp: reserve_batch_def split: sum.split)

lemma reserve_batch_Inl: "snd (reserve_batch l rs) = Inl e \<Longrightarrow> fst (reserve_batch l rs) = l"
  by (auto simp: reserve_batch_def split: sum.splits)

lemma accounts_reserve:
  assumes "accounts_for base M l" and "unsaturated (budget base)"
    and "snd (reserve_batch l rs) = Inr tokens"
  shows "accounts_for base (M + mset rs) (fst (reserve_batch l rs))"
  using assms reserve_charges [of l rs "()"]
  by (simp add: accounts_for_def reserve_batch_Inr)

lemma accounts_rollback:
  assumes "accounts_for base M l" and "r \<in># M"
  shows "\<exists>l'. rollback l \<lparr>request = r\<rparr> = Some l' \<and> accounts_for base (M - {#r#}) l' \<and>
           running_children l' = running_children l"
proof -
  have used: "unat (used d l) = unat (used d base) + charge d M" for d
    using assms(1) by (simp add: accounts_for_def)
  have le: "unat (asked d r) \<le> unat (used d l)" for d
    using charge_member [OF assms(2), of d] used [of d] by simp
  have size: "1 \<le> size M" using assms(2) by (cases M) auto
  then have one: "unat (1 :: usize) \<le> unat (admitted_children l)"
    using assms(1) by (simp add: accounts_for_def)
  have sub: "checked_sub a b = Some (a - b)" if "unat b \<le> unat a" for a b :: usize
    using that by (simp add: checked_sub_def word_le_nat_alt)
  let ?l = "l\<lparr>admitted_children := admitted_children l - 1,
     used_tool_rounds := used Rounds l - asked Rounds r,
     used_context_tokens := used Tokens l - asked Tokens r,
     used_report_bytes := used Report l - asked Report r,
     used_artifact_bytes := used Artifact l - asked Artifact r\<rparr>"
  have "rollback l \<lparr>request = r\<rparr> = Some ?l"
    using le [of Rounds] le [of Tokens] le [of Report] le [of Artifact] one
    by (simp add: rollback_def sub)
  moreover have "unat (used d ?l) = unat (used d base) + charge d (M - {#r#})" for d
  proof -
    have "used d ?l = used d l - asked d r" by (cases d) simp_all
    then have "unat (used d ?l) = unat (used d l) - unat (asked d r)"
      using le [of d] by (simp add: unat_sub word_le_nat_alt)
    also have "\<dots> = unat (used d base) + charge d (M - {#r#})"
      using used [of d] charge_member [OF assms(2), of d] by (simp add: charge_remove [OF assms(2)])
    finally show ?thesis .
  qed
  moreover have "unat (admitted_children l - 1) = unat (admitted_children base) + size (M - {#r#})"
    using assms one size by (simp add: accounts_for_def unat_sub word_le_nat_alt size_Diff_singleton)
  ultimately show ?thesis
    using assms(1) by (intro exI [of _ ?l]) (simp add: accounts_for_def)
qed

lemma accounts_for_empty:
  assumes "accounts_for l {#} l'" and "running_children l' = running_children l"
  shows "l' = l"
proof -
  have "used d l' = used d l" for d
    using assms(1) by (simp add: accounts_for_def word_unat_eq_iff)
  from this [of Rounds] this [of Tokens] this [of Report] this [of Artifact] show ?thesis
    using assms by (simp add: accounts_for_def word_unat_eq_iff)
qed

lemma rollback_all_restores:
  assumes "accounts_for base (M + mset rs) l"
  shows "\<exists>l'. rollback_all l (map (\<lambda>r. \<lparr>request = r\<rparr>) rs) = Some l' \<and>
           accounts_for base M l' \<and> running_children l' = running_children l"
  using assms
proof (induction rs arbitrary: l)
  case (Cons r rs)
  obtain l1 where l1: "rollback l \<lparr>request = r\<rparr> = Some l1"
    "accounts_for base (M + mset rs) l1" "running_children l1 = running_children l"
    using accounts_rollback [OF Cons.prems, of r] by auto
  then show ?case using Cons.IH [OF l1(2)] by simp
qed simp

section \<open>Runs of the ledger\<close>

text \<open>
  The supervisor's use of the ledger as a step relation. A reservation token is moved into
  \<open>rollback\<close>, so a step gives back a reservation only while it is outstanding; children start
  only after \<open>can_start\<close> and stop once each.
\<close>

inductive ledger_step ::
  "budget_ledger \<times> reservation_request multiset \<Rightarrow> budget_ledger \<times> reservation_request multiset \<Rightarrow> bool" where
  reserve: "reserve_batch l rs = (l', Inr tokens) \<Longrightarrow>
     ledger_step (l, M) (l', M + mset (map request tokens))"
| refuse: "reserve_batch l rs = (l', Inl e) \<Longrightarrow> ledger_step (l, M) (l', M)"
| give_back: "r \<in># M \<Longrightarrow> rollback l \<lparr>request = r\<rparr> = Some l' \<Longrightarrow> ledger_step (l, M) (l', M - {#r#})"
| start: "can_start l \<Longrightarrow> mark_started l = Some l' \<Longrightarrow> ledger_step (l, M) (l', M)"
| stop: "mark_stopped l = Some l' \<Longrightarrow> ledger_step (l, M) (l', M)"

inductive_cases ledger_stepE: "ledger_step (l, M) (l', M')"

inductive ledger_reaches ::
  "budget_ledger \<Rightarrow> budget_ledger \<Rightarrow> reservation_request multiset \<Rightarrow> bool" for base where
  begun: "ledger_reaches base base {#}"
| stepped: "ledger_reaches base l M \<Longrightarrow> ledger_step (l, M) (l', M') \<Longrightarrow> ledger_reaches base l' M'"

definition within_ceilings :: "budget_ledger \<Rightarrow> budget_ledger \<Rightarrow> bool" where
  "within_ceilings base l \<longleftrightarrow>
     (\<forall>d. unat (used d l) \<le> max (unat (used d base)) (unat (ceiling d (budget base)))) \<and>
     unat (admitted_children l) \<le>
       max (unat (admitted_children base)) (unat (max_descendants (limits (budget base)))) \<and>
     running_children l \<le> max (running_children base) (max_concurrency (limits (budget base)))"

lemma used_running [simp]: "used d (l\<lparr>running_children := n\<rparr>) = used d l"
  by (cases d) simp_all

lemma within_after_reserve:
  assumes "accounts_for base M l" and "within_ceilings base l" and "unsaturated (budget base)"
    and "snd (reserve_batch l rs) = Inr tokens"
  shows "within_ceilings base (fst (reserve_batch l rs))"
proof -
  have ok: "reserve_checks l rs = Inr ()" and b: "budget l = budget base"
    using assms(1,4) by (simp_all add: reserve_batch_Inr accounts_budget)
  have un: "unsaturated (budget l)" using assms(3) b by simp
  have "unat (used d (fst (reserve_batch l rs))) \<le>
      max (unat (used d base)) (unat (ceiling d (budget base)))" for d
    using reserve_charges(1) [OF ok un, of d] reserve_checks_charge(1) [OF ok un, of d] assms(2) b
    by (auto simp: within_ceilings_def dest!: spec [of _ d])
  moreover have "unat (admitted_children (fst (reserve_batch l rs))) \<le>
      max (unat (admitted_children base)) (unat (max_descendants (limits (budget base))))"
    using reserve_charges(2) [OF ok un] ok assms(2) b
    by (auto simp: reserve_checks_Inr within_ceilings_def)
  ultimately show ?thesis
    using assms(2) by (simp add: within_ceilings_def)
qed

lemma within_after_rollback:
  assumes "accounts_for base M l" and "within_ceilings base l"
    and "accounts_for base M' l'" and "M' \<subseteq># M" and "running_children l' = running_children l"
  shows "within_ceilings base l'"
proof -
  obtain N where N: "M = M' + N" using assms(4) by (auto simp: subset_mset.le_iff_add)
  have "unat (used d l') \<le> unat (used d l)" for d
    using assms(1,3) N by (simp add: accounts_for_def)
  moreover have "unat (admitted_children l') \<le> unat (admitted_children l)"
    using assms(1,3) N by (simp add: accounts_for_def)
  ultimately show ?thesis
    using assms(2,5) by (auto simp: within_ceilings_def intro: order_trans)
qed

lemma mark_started_running:
  assumes "mark_started l = Some l'"
  shows "l' = l\<lparr>running_children := running_children l + 1\<rparr>"
    and "running_children l' \<le> max_concurrency (limits (budget l))"
proof -
  show eq: "l' = l\<lparr>running_children := running_children l + 1\<rparr>"
    using assms by (simp add: mark_started_def split: if_splits)
  have "running_children l < max_concurrency (limits (budget l))"
    using assms by (simp add: mark_started_def can_start_def split: if_splits)
  then show "running_children l' \<le> max_concurrency (limits (budget l))"
    using eq by (simp add: inc_le)
qed

lemma mark_stopped_running:
  assumes "mark_stopped l = Some l'"
  shows "l' = l\<lparr>running_children := running_children l'\<rparr>"
    and "running_children l' \<le> running_children l"
  using assms by (auto simp: mark_stopped_def sat_simps word_le_nat_alt)

lemma accounts_running:
  "accounts_for base M (l\<lparr>running_children := n\<rparr>) \<longleftrightarrow> accounts_for base M l"
  by (simp add: accounts_for_def)

lemma within_running:
  assumes "within_ceilings base l"
    and "n \<le> max (running_children base) (max_concurrency (limits (budget base)))"
  shows "within_ceilings base (l\<lparr>running_children := n\<rparr>)"
  using assms by (simp add: within_ceilings_def)

lemma ledger_step_preserves:
  assumes "ledger_step (l, M) (l', M')" and un: "unsaturated (budget base)"
    and acc: "accounts_for base M l" and wth: "within_ceilings base l"
  shows "accounts_for base M' l' \<and> within_ceilings base l'"
proof -
  consider (reserve) rs tokens where "reserve_batch l rs = (l', Inr tokens)"
      "M' = M + image_mset request (mset tokens)"
    | (refuse) rs e where "reserve_batch l rs = (l', Inl e)" "M' = M"
    | (give_back) r where "r \<in># M" "rollback l \<lparr>request = r\<rparr> = Some l'" "M' = M - {#r#}"
    | (start) "mark_started l = Some l'" "M' = M"
    | (stop) "mark_stopped l = Some l'" "M' = M"
    using assms(1) by (elim ledger_stepE) blast+
  then show ?thesis
  proof cases
    case reserve
    then have tokens: "snd (reserve_batch l rs) = Inr tokens" and l': "l' = fst (reserve_batch l rs)"
      by simp_all
    from tokens have "image_mset request (mset tokens) = mset rs"
      by (auto simp: reserve_batch_Inr image_mset.compositionality comp_def)
    then show ?thesis
      using reserve(2) l' accounts_reserve [OF acc un tokens] within_after_reserve [OF acc wth un tokens]
      by simp
  next
    case refuse
    then show ?thesis using reserve_batch_Inl [of l rs e] acc wth by simp
  next
    case give_back
    then obtain "accounts_for base M' l'" and "running_children l' = running_children l"
      using accounts_rollback [OF acc, of r] by auto
    then show ?thesis using within_after_rollback [OF acc wth] give_back(3) by auto
  next
    case start
    note run = mark_started_running [OF start(1)]
    have "running_children l' \<le> max (running_children base) (max_concurrency (limits (budget base)))"
      using run(2) accounts_budget [OF acc] by (simp add: le_max_iff_disj)
    then show ?thesis
      using start(2) acc wth run(1) within_running [OF wth, of "running_children l'"]
      by (simp add: accounts_running)
  next
    case stop
    note run = mark_stopped_running [OF stop(1)]
    have "running_children l' \<le> max (running_children base) (max_concurrency (limits (budget base)))"
      using run(2) wth by (auto simp: within_ceilings_def intro: order_trans)
    then show ?thesis
      using stop(2) acc within_running [OF wth, of "running_children l'"]
        accounts_running [where l = l and n = "running_children l'"] run(1) by metis
  qed
qed

lemma ledger_reaches_account:
  assumes "ledger_reaches base l M" and "unsaturated (budget base)"
  shows "accounts_for base M l \<and> within_ceilings base l"
  using assms
proof (induction rule: ledger_reaches.induct)
  case begun
  show ?case by (simp add: within_ceilings_def)
next
  case (stepped l M l' M')
  then show ?case using ledger_step_preserves by blast
qed

section \<open>Properties\<close>

text \<open>
  C37: batch admission is exact against the natural-number specification and all-or-nothing.
  Under a budget built from validated limits a batch is admitted exactly when it is not empty,
  within the fan-out, and fits what is left of the descendants and of every resource (a resource
  the batch does not ask for cannot refuse it); the counters then grow by exactly the sums of the
  requests, with no wrap-around or saturation, and a refused batch changes nothing.
\<close>

theorem reserve_batch_exact:
  assumes "validate_orchestration_limits ls = Inr ()" and "unat rounds \<le> 64"
    and "budget l = new_budget ls rounds"
  shows "(is_ok (snd (reserve_batch l rs)) \<longleftrightarrow>
      rs \<noteq> [] \<and> length rs \<le> unat (max_fan_out ls) \<and>
      unat (admitted_children l) + length rs \<le> unat (max_descendants ls) \<and>
      (\<forall>d. charge d (mset rs) = 0 \<or>
         unat (used d l) + charge d (mset rs) \<le> unat (ceiling d (budget l)))) \<and>
    (if is_ok (snd (reserve_batch l rs))
     then accounts_for l (mset rs) (fst (reserve_batch l rs))
     else fst (reserve_batch l rs) = l)"
    (is "(_ \<longleftrightarrow> ?fits) \<and> ?outcome")
proof (rule conjI)
  have un: "unsaturated (budget l)"
    using validated_unsaturated [OF assms(1,2)] assms(3) by simp
  have ls: "limits (budget l) = ls" using assms(3) by (simp add: new_budget_def)
  have small: "unat (ceiling d (budget l)) < 2 ^ 64 - 1" for d
    using un by (simp add: unsaturated_def)
  have "is_ok (snd (reserve_batch l rs)) \<longleftrightarrow> reserve_checks l rs = Inr ()"
    by (auto simp: reserve_batch_def is_ok_def split: sum.split)
  also have "\<dots> \<longleftrightarrow> ?fits"
  proof -
    have "unat (request_sum (asked d) rs) \<le> unat (ceiling d (budget l)) - unat (used d l) \<longleftrightarrow>
       charge d (mset rs) = 0 \<or>
       unat (used d l) + charge d (mset rs) \<le> unat (ceiling d (budget l))" for d
      using small [of d] by (auto simp: unat_request_sum_charge min_def)
    moreover have "length rs \<le> unat (max_descendants ls) - unat (admitted_children l) \<longleftrightarrow>
       unat (admitted_children l) + length rs \<le> unat (max_descendants ls)" if "rs \<noteq> []"
      using that by (cases rs) auto
    ultimately show ?thesis by (auto simp: reserve_checks_Inr ls)
  qed
  finally show "is_ok (snd (reserve_batch l rs)) \<longleftrightarrow> ?fits" .
  show ?outcome
    using accounts_reserve [OF accounts_for_refl un, of rs]
    by (cases "snd (reserve_batch l rs)") (auto simp: reserve_batch_Inl)
qed

text \<open>A concrete configuration for the witnesses, and two children that fit it.\<close>

definition demo_limits :: orchestration_limits where
  "demo_limits = \<lparr>max_fan_out = 2, max_descendants = 2, max_concurrency = 1, deadline_seconds = 30,
     max_context_tokens = 10, max_report_bytes = 20, max_artifact_bytes = 30\<rparr>"

definition demo_request :: reservation_request where
  "demo_request = \<lparr>tool_rounds = 2, context_tokens = 10, report_bytes = 20, artifact_bytes = 30\<rparr>"

definition demo_ledger :: budget_ledger where
  "demo_ledger = with_consumed (new_budget demo_limits 2) []"

lemma demo_limits_valid: "validate_orchestration_limits demo_limits = Inr ()"
  by (simp add: validate_orchestration_limits_def demo_limits_def check_limit_def ensure_def)

lemma demo_rounds: "unat (2 :: usize) \<le> 64"
  by simp

lemma demo_ledger_budget: "budget demo_ledger = new_budget demo_limits 2"
  by (simp add: demo_ledger_def with_consumed_def)

lemmas ledger_eval = demo_ledger_def demo_limits_def demo_request_def with_consumed_def
  new_budget_def reserve_batch_def reserve_checks_def check_capacity_def request_sum_def
  sat_add_def sat_sub_def sat_mul_def rollback_def checked_sub_def mark_started_def can_start_def

theorem reserve_batch_exact_witness:
  "(is_ok (snd (reserve_batch demo_ledger [demo_request, demo_request])) \<longleftrightarrow>
      [demo_request, demo_request] \<noteq> [] \<and>
      length [demo_request, demo_request] \<le> unat (max_fan_out demo_limits) \<and>
      unat (admitted_children demo_ledger) + length [demo_request, demo_request]
        \<le> unat (max_descendants demo_limits) \<and>
      (\<forall>d. charge d (mset [demo_request, demo_request]) = 0 \<or>
         unat (used d demo_ledger) + charge d (mset [demo_request, demo_request])
           \<le> unat (ceiling d (budget demo_ledger)))) \<and>
   (if is_ok (snd (reserve_batch demo_ledger [demo_request, demo_request]))
    then accounts_for demo_ledger (mset [demo_request, demo_request])
           (fst (reserve_batch demo_ledger [demo_request, demo_request]))
    else fst (reserve_batch demo_ledger [demo_request, demo_request]) = demo_ledger)"
  by (rule reserve_batch_exact [OF demo_limits_valid demo_rounds demo_ledger_budget])

text \<open>Giving a freshly reserved batch back restores the ledger exactly. The supervisor checks a
  plan by reserving its children and rolling all of them back: no rollback of the batch panics
  and afterwards every counter is what it was, so the check consumes nothing.
\<close>

theorem probe_leaves_ledger_unchanged:
  assumes "validate_orchestration_limits ls = Inr ()" and "unat rounds \<le> 64"
    and "budget l = new_budget ls rounds"
    and "reserve_batch l rs = (l', Inr tokens)"
  shows "rollback_all l' tokens = Some l"
proof -
  have un: "unsaturated (budget l)"
    using validated_unsaturated [OF assms(1,2)] assms(3) by simp
  have ok: "snd (reserve_batch l rs) = Inr tokens" and l': "l' = fst (reserve_batch l rs)"
    using assms(4) by simp_all
  have "accounts_for l ({#} + mset rs) l'"
    using accounts_reserve [OF accounts_for_refl un ok] l' by simp
  from rollback_all_restores [OF this] obtain l2 where
    l2: "rollback_all l' tokens = Some l2" "accounts_for l {#} l2"
      "running_children l2 = running_children l'"
    using ok by (auto simp: reserve_batch_Inr)
  then show ?thesis
    using accounts_for_empty [of l l2] l' by simp
qed

theorem probe_leaves_ledger_unchanged_witness:
  "is_ok (snd (reserve_batch demo_ledger [demo_request, demo_request])) \<and>
   rollback_all (fst (reserve_batch demo_ledger [demo_request, demo_request]))
     (projr (snd (reserve_batch demo_ledger [demo_request, demo_request]))) = Some demo_ledger"
proof -
  let ?r = "reserve_batch demo_ledger [demo_request, demo_request]"
  have ok: "is_ok (snd ?r)" by (simp add: ledger_eval)
  then have "?r = (fst ?r, Inr (projr (snd ?r)))" by (metis is_okE prod.collapse sum.sel(2))
  from ok probe_leaves_ledger_unchanged [OF demo_limits_valid demo_rounds demo_ledger_budget this]
  show ?thesis by simp
qed

text \<open>
  C36: the budget holds over every run. From any restored consumption, after any sequence of
  reservations, refusals, rollbacks of outstanding reservations, starts and stops: the counters
  are the restored consumption plus exactly the outstanding charges, no resource and no child
  count exceeds the larger of its ceiling and what was restored, at most the configured number
  of children run, and rolling any outstanding reservation back cannot panic.
\<close>

theorem budget_holds_over_every_run:
  assumes "validate_orchestration_limits ls = Inr ()" and "unat rounds \<le> 64"
    and "base = with_consumed (new_budget ls rounds) consumed"
    and "ledger_reaches base l M"
  shows "accounts_for base M l \<and> within_ceilings base l \<and>
     running_children l \<le> max_concurrency ls \<and>
     (\<forall>r\<in>#M. rollback l \<lparr>request = r\<rparr> \<noteq> None)"
proof -
  have "unsaturated (budget base)"
    using validated_unsaturated [OF assms(1,2)] assms(3) by (simp add: with_consumed_def)
  from ledger_reaches_account [OF assms(4) this]
  have acc: "accounts_for base M l" and wth: "within_ceilings base l" by simp_all
  have "running_children l \<le> max_concurrency ls"
    using wth assms(3) by (simp add: within_ceilings_def with_consumed_def new_budget_def)
  moreover have "\<forall>r\<in>#M. rollback l \<lparr>request = r\<rparr> \<noteq> None"
    using accounts_rollback [OF acc] by fastforce
  ultimately show ?thesis using acc wth by simp
qed

definition demo_after :: budget_ledger where
  "demo_after = fst (reserve_batch demo_ledger [demo_request])"

theorem budget_holds_over_every_run_witness:
  "ledger_reaches demo_ledger demo_after {#demo_request#} \<and>
   rollback demo_after \<lparr>request = demo_request\<rparr> \<noteq> None"
proof -
  have "reserve_batch demo_ledger [demo_request] = (demo_after, Inr [\<lparr>request = demo_request\<rparr>])"
    by (simp add: demo_after_def ledger_eval)
  from ledger_step.reserve [OF this, of "{#}"]
  have reach: "ledger_reaches demo_ledger demo_after {#demo_request#}"
    by (auto intro: ledger_reaches.intros)
  show ?thesis
    using reach budget_holds_over_every_run [OF demo_limits_valid demo_rounds demo_ledger_def reach]
    by simp
qed

end
