(* ===== verification/Sse_Decoder.thy ===== *)
theory Sse_Decoder
  imports Prelude
begin

text \<open>
  Incremental framing of server-sent events, \<open>src/src/sse.rs\<close>. The decoder is fed chunks of any
  size; it charges every byte against a frame limit before it keeps it, finishes lines at
  newlines and emits one event per blank line. A \<open>&mut self\<close> method returns the decoder it
  leaves beside its result. Byte counts are naturals: \<open>saturating_add\<close> is only compared with the
  limit of 262144, below which it is plain addition.
\<close>

section \<open>Data and operations\<close>

definition MAX_FRAME_BYTES :: nat where
  "MAX_FRAME_BYTES = 256 * 1024"

record sse_event =
  ev_data :: "u8 list"

record sse_decoder =
  sse_line :: "u8 list"
  sse_data :: "u8 list"
  frame_bytes :: nat
  frame_active :: bool
  data_seen :: bool

datatype sse_error = FrameTooLarge nat | IncompleteFrame nat

definition default_decoder :: sse_decoder where
  "default_decoder =
     \<lparr>sse_line = [], sse_data = [], frame_bytes = 0, frame_active = False, data_seen = False\<rparr>"

abbreviation "nl \<equiv> 10 :: u8"
abbreviation "cr \<equiv> 13 :: u8"
abbreviation "sp \<equiv> 32 :: u8"
abbreviation "colon \<equiv> 58 :: u8"
abbreviation "data_field \<equiv> [100, 97, 116, 97] :: u8 list"

definition is_ascii_whitespace :: "u8 \<Rightarrow> bool" where
  "is_ascii_whitespace b = (b \<in> {9, 10, 12, 13, 32})"

definition sse_charge :: "sse_decoder \<Rightarrow> nat \<Rightarrow> sse_decoder \<times> (sse_error + unit)" where
  "sse_charge s n =
     (if frame_bytes s + n > MAX_FRAME_BYTES then (s, Inl (FrameTooLarge MAX_FRAME_BYTES))
      else (s\<lparr>frame_bytes := frame_bytes s + n\<rparr>, Inr ()))"

definition extend_line :: "sse_decoder \<Rightarrow> u8 list \<Rightarrow> sse_decoder \<times> (sse_error + unit)" where
  "extend_line s bytes =
     (case sse_charge s (length bytes) of
        (s', Inl e) \<Rightarrow> (s', Inl e)
      | (s', Inr _) \<Rightarrow> (s'\<lparr>sse_line := sse_line s' @ bytes\<rparr>, Inr ()))"

definition split_field :: "u8 list \<Rightarrow> u8 list \<times> u8 list" where
  "split_field l =
     (let (field, value) =
        (if colon \<in> set l
         then (takeWhile (\<lambda>b. b \<noteq> colon) l, drop 1 (dropWhile (\<lambda>b. b \<noteq> colon) l))
         else (l, []))
      in (field, if value \<noteq> [] \<and> hd value = sp then tl value else value))"

definition finish_line :: "sse_decoder \<Rightarrow> sse_decoder \<times> sse_event list" where
  "finish_line s =
     (let taken = sse_line s;
          s = s\<lparr>sse_line := []\<rparr>;
          l = (if taken \<noteq> [] \<and> last taken = cr then butlast taken else taken)
      in if l = [] then
           (let (s, events) =
              (if data_seen s then (s\<lparr>sse_data := []\<rparr>, [\<lparr>ev_data = sse_data s\<rparr>]) else (s, []))
            in (s\<lparr>frame_bytes := 0, frame_active := False, data_seen := False\<rparr>, events))
         else
           (let s = s\<lparr>frame_active := True\<rparr>
            in if hd l = colon then (s, [])
               else (let (field, value) = split_field l
                     in if field = data_field
                        then (s\<lparr>sse_data := sse_data s @ (if data_seen s then [nl] else []) @ value,
                                data_seen := True\<rparr>, [])
                        else (s, []))))"

lemma after_newline_shorter:
  assumes "x \<in> set xs"
  shows "length (dropWhile (\<lambda>b. b \<noteq> x) xs) - Suc 0 < length xs"
proof -
  have "dropWhile (\<lambda>b. b \<noteq> x) xs \<noteq> []" using assms by simp
  moreover have "length (dropWhile (\<lambda>b. b \<noteq> x) xs) \<le> length xs" by (rule length_dropWhile_le)
  ultimately show ?thesis by (cases "dropWhile (\<lambda>b. b \<noteq> x) xs") auto
qed

function push_loop ::
  "sse_decoder \<Rightarrow> sse_event list \<Rightarrow> u8 list \<Rightarrow> sse_decoder \<times> (sse_error + sse_event list)" where
  "push_loop s events remaining =
     (if nl \<in> set remaining then
        (case extend_line s (takeWhile (\<lambda>b. b \<noteq> nl) remaining) of
           (s1, Inl e) \<Rightarrow> (s1, Inl e)
         | (s1, Inr _) \<Rightarrow>
             (case sse_charge s1 1 of
                (s2, Inl e) \<Rightarrow> (s2, Inl e)
              | (s2, Inr _) \<Rightarrow>
                  (let (s3, later) = finish_line s2
                   in push_loop s3 (events @ later) (drop 1 (dropWhile (\<lambda>b. b \<noteq> nl) remaining)))))
      else
        (case extend_line s remaining of
           (s1, Inl e) \<Rightarrow> (s1, Inl e)
         | (s1, Inr _) \<Rightarrow> (s1, Inr events)))"
  by pat_completeness auto
termination
  by (relation "measure (\<lambda>(s, events, remaining). length remaining)")
    (simp_all add: after_newline_shorter)

declare push_loop.simps [simp del]

definition push :: "sse_decoder \<Rightarrow> u8 list \<Rightarrow> sse_decoder \<times> (sse_error + sse_event list)" where
  "push s chunk = push_loop s [] chunk"

definition finish :: "sse_decoder \<Rightarrow> sse_error + unit" where
  "finish s =
     (if \<not> data_seen s \<and> \<not> frame_active s \<and> list_all is_ascii_whitespace (sse_line s)
      then Inr () else Inl (IncompleteFrame (frame_bytes s)))"

text \<open>A transport feeds the decoder chunk by chunk and stops at the first error.\<close>

fun feed :: "sse_decoder \<Rightarrow> u8 list list \<Rightarrow> sse_error + sse_decoder \<times> sse_event list" where
  "feed s [] = Inr (s, [])"
| "feed s (chunk # chunks) =
     (case push s chunk of
        (_, Inl e) \<Rightarrow> Inl e
      | (s', Inr events) \<Rightarrow>
          (case feed s' chunks of
             Inl e \<Rightarrow> Inl e
           | Inr (s'', later) \<Rightarrow> Inr (s'', events @ later)))"

section \<open>The byte machine\<close>

text \<open>The specification of framing: one byte at a time, with no look-ahead for newlines.\<close>

definition step_byte :: "sse_decoder \<Rightarrow> u8 \<Rightarrow> sse_error + sse_decoder \<times> sse_event list" where
  "step_byte s b =
     (if frame_bytes s + 1 > MAX_FRAME_BYTES then Inl (FrameTooLarge MAX_FRAME_BYTES)
      else if b = nl then Inr (finish_line (s\<lparr>frame_bytes := frame_bytes s + 1\<rparr>))
      else Inr (s\<lparr>frame_bytes := frame_bytes s + 1, sse_line := sse_line s @ [b]\<rparr>, []))"

fun run_bytes :: "sse_decoder \<Rightarrow> u8 list \<Rightarrow> sse_error + sse_decoder \<times> sse_event list" where
  "run_bytes s [] = Inr (s, [])"
| "run_bytes s (b # bs) =
     res_bind (step_byte s b) (\<lambda>(s', events).
     res_bind (run_bytes s' bs) (\<lambda>(s'', later). Inr (s'', events @ later)))"

definition outcome ::
  "sse_decoder \<times> (sse_error + sse_event list) \<Rightarrow> sse_error + sse_decoder \<times> sse_event list" where
  "outcome r = (case snd r of Inl e \<Rightarrow> Inl e | Inr events \<Rightarrow> Inr (fst r, events))"

definition decoder_ok :: "sse_decoder \<Rightarrow> bool" where
  "decoder_ok s \<longleftrightarrow>
     length (sse_line s) + length (sse_data s) \<le> frame_bytes s \<and>
     frame_bytes s \<le> MAX_FRAME_BYTES \<and>
     (\<not> data_seen s \<longrightarrow> sse_data s = [])"

lemma run_bytes_append:
  "run_bytes s (xs @ ys) =
     res_bind (run_bytes s xs) (\<lambda>(s', events).
     res_bind (run_bytes s' ys) (\<lambda>(s'', later). Inr (s'', events @ later)))"
proof (induction xs arbitrary: s)
  case Nil
  show ?case by (cases "run_bytes s ys") auto
next
  case (Cons x xs)
  show ?case
    by (cases "step_byte s x")
      (auto simp: Cons res_bind_def split: sum.split prod.split)
qed

lemma run_bytes_plain:
  assumes "nl \<notin> set bs" and "frame_bytes s \<le> MAX_FRAME_BYTES"
  shows "run_bytes s bs =
     (if frame_bytes s + length bs > MAX_FRAME_BYTES then Inl (FrameTooLarge MAX_FRAME_BYTES)
      else Inr (s\<lparr>frame_bytes := frame_bytes s + length bs, sse_line := sse_line s @ bs\<rparr>, []))"
  using assms
proof (induction bs arbitrary: s)
  case (Cons b bs)
  show ?case
  proof (cases "frame_bytes s + 1 > MAX_FRAME_BYTES")
    case False
    with Cons.prems Cons.IH [of "s\<lparr>frame_bytes := frame_bytes s + 1, sse_line := sse_line s @ [b]\<rparr>"]
    show ?thesis by (simp add: step_byte_def)
  qed (use Cons.prems in \<open>simp add: step_byte_def\<close>)
qed simp

lemma frame_bytes_finish_line: "frame_bytes (fst (finish_line s)) \<le> frame_bytes s"
  by (simp add: finish_line_def Let_def split_beta)

lemma split_at_newline:
  assumes "nl \<in> set bs"
  shows "bs = takeWhile (\<lambda>b. b \<noteq> nl) bs @ nl # drop 1 (dropWhile (\<lambda>b. b \<noteq> nl) bs)"
proof -
  have "dropWhile (\<lambda>b. b \<noteq> nl) bs \<noteq> []"
    using assms by simp
  then have "dropWhile (\<lambda>b. b \<noteq> nl) bs = nl # drop 1 (dropWhile (\<lambda>b. b \<noteq> nl) bs)"
    using hd_dropWhile [of "\<lambda>b. b \<noteq> nl" bs] by (cases "dropWhile (\<lambda>b. b \<noteq> nl) bs") auto
  then show ?thesis using takeWhile_dropWhile_id [of "\<lambda>b. b \<noteq> nl" bs] by metis
qed

section \<open>Chunks refine bytes\<close>

lemma push_loop_run:
  "frame_bytes s \<le> MAX_FRAME_BYTES \<Longrightarrow>
     outcome (push_loop s acc bs) =
       res_bind (run_bytes s bs) (\<lambda>(s', events). Inr (s', acc @ events))"
proof (induction s acc bs rule: push_loop.induct)
  case (1 s acc bs)
  show ?case
  proof (cases "nl \<in> set bs")
    case False
    then show ?thesis
      using "1.prems" run_bytes_plain [OF False "1.prems"]
      by (subst push_loop.simps)
        (simp add: extend_line_def sse_charge_def outcome_def)
  next
    case True
    let ?seg = "takeWhile (\<lambda>b. b \<noteq> nl) bs"
    let ?rest = "drop 1 (dropWhile (\<lambda>b. b \<noteq> nl) bs)"
    let ?s1 = "s\<lparr>frame_bytes := frame_bytes s + length ?seg, sse_line := sse_line s @ ?seg\<rparr>"
    let ?s2 = "?s1\<lparr>frame_bytes := frame_bytes ?s1 + 1\<rparr>"
    have seg: "nl \<notin> set ?seg" by (auto dest: set_takeWhileD)
    have run: "run_bytes s bs = res_bind (run_bytes s ?seg) (\<lambda>(s', events).
        res_bind (run_bytes s' (nl # ?rest)) (\<lambda>(s'', later). Inr (s'', events @ later)))"
      by (subst split_at_newline [OF True]) (rule run_bytes_append)
    show ?thesis
    proof (cases "frame_bytes s + length ?seg + 1 > MAX_FRAME_BYTES")
      case over: True
      then show ?thesis
        using True run run_bytes_plain [OF seg "1.prems"]
        by (subst push_loop.simps)
          (auto simp: extend_line_def sse_charge_def outcome_def step_byte_def split: prod.split)
    next
      case False
      have "frame_bytes (fst (finish_line ?s2)) \<le> MAX_FRAME_BYTES"
        using frame_bytes_finish_line [of ?s2] False by simp
      then have IH: "outcome (push_loop (fst (finish_line ?s2)) (acc @ snd (finish_line ?s2)) ?rest) =
          res_bind (run_bytes (fst (finish_line ?s2)) ?rest)
            (\<lambda>(s', events). Inr (s', (acc @ snd (finish_line ?s2)) @ events))"
        using True False
        by (intro "1.IH" [of ?s1 "Inr ()" "()" ?s2 "Inr ()" "()" "finish_line ?s2"])
          (simp_all add: extend_line_def sse_charge_def)
      have "outcome (push_loop s acc bs) =
          outcome (push_loop (fst (finish_line ?s2)) (acc @ snd (finish_line ?s2)) ?rest)"
        using True False
        by (subst push_loop.simps) (simp add: extend_line_def sse_charge_def split_beta Let_def)
      also have "\<dots> = res_bind (run_bytes s bs) (\<lambda>(s', events). Inr (s', acc @ events))"
        using False run run_bytes_plain [OF seg "1.prems"] IH
        by (simp add: step_byte_def res_bind_def split_beta split: sum.split)
      finally show ?thesis .
    qed
  qed
qed

lemma push_run: "frame_bytes s \<le> MAX_FRAME_BYTES \<Longrightarrow> outcome (push s bs) = run_bytes s bs"
  using push_loop_run [of s "[]" bs]
  by (cases "run_bytes s bs") (simp_all add: push_def split_beta)

lemma length_split_field: "split_field l = (data_field, v) \<Longrightarrow> length v + 4 \<le> length l"
proof -
  assume "split_field l = (data_field, v)"
  then consider "colon \<in> set l" "takeWhile (\<lambda>b. b \<noteq> colon) l = data_field"
      "length v \<le> length (dropWhile (\<lambda>b. b \<noteq> colon) l)"
    | "l = data_field" "v = []"
    by (auto simp: split_field_def split_beta Let_def split: if_splits)
  then show ?thesis
  proof cases
    case 1
    have "length l = length (takeWhile (\<lambda>b. b \<noteq> colon) l) + length (dropWhile (\<lambda>b. b \<noteq> colon) l)"
      by (metis length_append takeWhile_dropWhile_id)
    with 1 show ?thesis by simp
  qed simp
qed

lemma decoder_ok_finish_line:
  assumes "decoder_ok s"
  shows "decoder_ok (fst (finish_line s))"
proof -
  let ?l = "if sse_line s \<noteq> [] \<and> last (sse_line s) = cr then butlast (sse_line s) else sse_line s"
  obtain field v where fv: "split_field ?l = (field, v)" by fastforce
  have "length ?l \<le> length (sse_line s)" by simp
  then have "field = data_field \<Longrightarrow> length v + 4 \<le> length (sse_line s)"
    using fv length_split_field by fastforce
  then show ?thesis
    using assms fv
    by (auto simp: finish_line_def decoder_ok_def Let_def split: if_splits)
qed

lemma decoder_ok_step_byte:
  "decoder_ok s \<Longrightarrow> step_byte s b = Inr (s', events) \<Longrightarrow> decoder_ok s'"
  using decoder_ok_finish_line [of "s\<lparr>frame_bytes := frame_bytes s + 1\<rparr>"]
  by (auto simp: step_byte_def decoder_ok_def split: if_splits)

lemma decoder_ok_run: "decoder_ok s \<Longrightarrow> run_bytes s bs = Inr (s', events) \<Longrightarrow> decoder_ok s'"
proof (induction bs arbitrary: s events)
  case (Cons b bs)
  then show ?case
    using decoder_ok_step_byte by (fastforce simp: res_bind_eq_Inr)
qed simp

lemma decoder_ok_default [simp]: "decoder_ok default_decoder"
  by (simp add: decoder_ok_def default_decoder_def)

lemma feed_run: "decoder_ok s \<Longrightarrow> feed s chunks = run_bytes s (concat chunks)"
proof (induction chunks arbitrary: s)
  case (Cons c cs)
  have out: "outcome (push s c) = run_bytes s c"
    using Cons.prems by (intro push_run) (simp add: decoder_ok_def)
  show ?case
  proof (cases "push s c")
    case (Pair s' r)
    show ?thesis
    proof (cases r)
      case (Inl e)
      then have "run_bytes s c = Inl e" using Pair out by (simp add: outcome_def)
      then show ?thesis using Pair Inl by (simp add: run_bytes_append)
    next
      case (Inr events)
      then have run: "run_bytes s c = Inr (s', events)" using Pair out by (simp add: outcome_def)
      then show ?thesis
        using Pair Inr Cons.IH [OF decoder_ok_run [OF Cons.prems run]]
        by (simp add: run_bytes_append res_bind_def split: sum.split)
    qed
  qed
qed simp

section \<open>Encoding events\<close>

definition encode_line :: "u8 list \<Rightarrow> u8 list" where
  "encode_line l = data_field @ [colon, sp] @ l @ [nl]"

definition encode_event :: "u8 list list \<Rightarrow> u8 list" where
  "encode_event ls = concat (map encode_line ls) @ [nl]"

definition joined :: "u8 list list \<Rightarrow> u8 list" where
  "joined ls = drop 1 (concat (map (\<lambda>l. nl # l) ls))"

definition line_ok :: "u8 list \<Rightarrow> bool" where
  "line_ok l \<longleftrightarrow> nl \<notin> set l \<and> (l \<noteq> [] \<longrightarrow> last l \<noteq> cr)"

definition event_ok :: "u8 list list \<Rightarrow> bool" where
  "event_ok ls \<longleftrightarrow> ls \<noteq> [] \<and> list_all line_ok ls \<and> length (encode_event ls) \<le> MAX_FRAME_BYTES"

lemma finish_data_line:
  assumes "line_ok l" and "sse_line s = data_field @ [colon, sp] @ l"
  shows "finish_line s =
     (s\<lparr>sse_line := [], frame_active := True,
        sse_data := sse_data s @ (if data_seen s then [nl] else []) @ l, data_seen := True\<rparr>, [])"
proof -
  have "last (data_field @ [colon, sp] @ l) \<noteq> cr"
    using assms(1) by (cases "l = []") (auto simp: line_ok_def)
  moreover have "split_field (data_field @ [colon, sp] @ l) = (data_field, l)"
    by (simp add: split_field_def)
  ultimately show ?thesis
    using assms(2) by (simp add: finish_line_def Let_def)
qed

lemma run_encode_line:
  assumes "line_ok l" and "sse_line s = []" and "frame_bytes s + length (encode_line l) \<le> MAX_FRAME_BYTES"
  shows "run_bytes s (encode_line l) =
     Inr (s\<lparr>frame_active := True, frame_bytes := frame_bytes s + length (encode_line l),
        sse_data := sse_data s @ (if data_seen s then [nl] else []) @ l, data_seen := True\<rparr>, [])"
proof -
  let ?p = "data_field @ [colon, sp] @ l"
  let ?s1 = "s\<lparr>frame_bytes := frame_bytes s + length ?p, sse_line := ?p\<rparr>"
  let ?s2 = "?s1\<lparr>frame_bytes := frame_bytes ?s1 + 1\<rparr>"
  have len: "length (encode_line l) = length ?p + 1" by (simp add: encode_line_def)
  have "nl \<notin> set ?p" using assms(1) by (simp add: line_ok_def)
  from run_bytes_plain [OF this, of s] have plain: "run_bytes s ?p = Inr (?s1, [])"
    using assms(2,3) len by simp
  have "finish_line ?s2 = (?s2\<lparr>sse_line := [], frame_active := True,
        sse_data := sse_data ?s2 @ (if data_seen ?s2 then [nl] else []) @ l, data_seen := True\<rparr>, [])"
    by (rule finish_data_line [OF assms(1)]) simp
  moreover have "step_byte ?s1 nl = Inr (finish_line ?s2)"
    using assms(3) len by (simp add: step_byte_def)
  ultimately have "run_bytes ?s1 [nl] = Inr (?s2\<lparr>sse_line := [], frame_active := True,
        sse_data := sse_data ?s2 @ (if data_seen ?s2 then [nl] else []) @ l, data_seen := True\<rparr>, [])"
    by simp
  with plain run_bytes_append [of s ?p "[nl]"] show ?thesis
    using assms(2) by (simp add: encode_line_def)
qed

lemma run_encode_lines:
  assumes "list_all line_ok ls" and "sse_line s = []" and "data_seen s" and "frame_active s"
    and "frame_bytes s + length (concat (map encode_line ls)) \<le> MAX_FRAME_BYTES"
  shows "run_bytes s (concat (map encode_line ls)) =
     Inr (s\<lparr>frame_bytes := frame_bytes s + length (concat (map encode_line ls)),
        sse_data := sse_data s @ concat (map (\<lambda>l. nl # l) ls)\<rparr>, [])"
  using assms
proof (induction ls arbitrary: s)
  case (Cons l ls)
  let ?s1 = "s\<lparr>frame_bytes := frame_bytes s + length (encode_line l),
        sse_data := sse_data s @ nl # l\<rparr>"
  have "run_bytes s (encode_line l) = Inr (?s1, [])"
    using run_encode_line [of l s] Cons.prems by simp
  then show ?case
    using Cons.IH [of ?s1] Cons.prems by (simp add: run_bytes_append add.assoc)
qed simp

lemma run_encode_event:
  assumes "event_ok ls"
  shows "run_bytes default_decoder (encode_event ls) = Inr (default_decoder, [\<lparr>ev_data = joined ls\<rparr>])"
proof -
  obtain l ls' where ls: "ls = l # ls'" using assms by (auto simp: event_ok_def neq_Nil_conv)
  have ok: "line_ok l" "list_all line_ok ls'"
    and size: "length (encode_line l) + length (concat (map encode_line ls')) + 1 \<le> MAX_FRAME_BYTES"
    using assms by (simp_all add: event_ok_def ls encode_event_def)
  let ?s1 = "default_decoder\<lparr>frame_active := True, frame_bytes := length (encode_line l),
        sse_data := l, data_seen := True\<rparr>"
  let ?s2 = "?s1\<lparr>frame_bytes := length (encode_line l) + length (concat (map encode_line ls')),
        sse_data := l @ concat (map (\<lambda>l. nl # l) ls')\<rparr>"
  have "run_bytes default_decoder (encode_line l) = Inr (?s1, [])"
    using run_encode_line [of l default_decoder] ok size by (simp add: default_decoder_def)
  moreover have "run_bytes ?s1 (concat (map encode_line ls')) = Inr (?s2, [])"
    using run_encode_lines [of ls' ?s1] ok size by (simp add: default_decoder_def)
  moreover have "run_bytes ?s2 [nl] = Inr (default_decoder, [\<lparr>ev_data = joined ls\<rparr>])"
    using size by (simp add: step_byte_def finish_line_def default_decoder_def joined_def ls)
  ultimately show ?thesis
    by (simp add: encode_event_def ls run_bytes_append)
qed

lemma run_encode_events:
  "list_all event_ok es \<Longrightarrow>
     run_bytes default_decoder (concat (map encode_event es)) =
       Inr (default_decoder, map (\<lambda>ls. \<lparr>ev_data = joined ls\<rparr>) es)"
  by (induction es) (simp_all add: run_bytes_append run_encode_event)

section \<open>Properties\<close>

text \<open>
  C39: framing does not depend on how the transport cuts the stream. Feeding the decoder a
  stream in any chunks gives what the one-byte-at-a-time machine gives on the whole stream: the
  same events and the same decoder state, or the same error.
\<close>

theorem framing_independent_of_chunks:
  "feed default_decoder chunks = run_bytes default_decoder (concat chunks)"
  by (rule feed_run) simp

text \<open>
  Decoding inverts encoding. A stream of events, each written as one \<open>data\<close> field per line
  and a blank line and cut into chunks anywhere, decodes to exactly those events with their lines
  joined by newlines, and leaves a decoder whose \<open>finish\<close> accepts the end of the stream.
\<close>

theorem decode_inverts_encode:
  assumes "list_all event_ok es" and "concat chunks = concat (map encode_event es)"
  shows "feed default_decoder chunks =
       Inr (default_decoder, map (\<lambda>ls. \<lparr>ev_data = joined ls\<rparr>) es) \<and>
     finish default_decoder = Inr ()"
proof
  show "feed default_decoder chunks = Inr (default_decoder, map (\<lambda>ls. \<lparr>ev_data = joined ls\<rparr>) es)"
    by (simp add: feed_run assms(2) run_encode_events [OF assms(1)])
  show "finish default_decoder = Inr ()"
    by (simp add: finish_def default_decoder_def)
qed

theorem decode_inverts_encode_witness:
  "feed default_decoder [[100, 97, 116], [97, 58, 32, 104, 105, 10, 100, 97, 116, 97, 58, 32, 33, 10, 10]] =
     Inr (default_decoder, [\<lparr>ev_data = [104, 105, 10, 33]\<rparr>]) \<and> finish default_decoder = Inr ()"
proof -
  have "list_all event_ok [[[104, 105], [33]]]"
    by (simp add: event_ok_def line_ok_def encode_event_def encode_line_def MAX_FRAME_BYTES_def)
  from decode_inverts_encode [OF this,
      of "[[100, 97, 116], [97, 58, 32, 104, 105, 10, 100, 97, 116, 97, 58, 32, 33, 10, 10]]"]
  show ?thesis by (simp add: encode_event_def encode_line_def joined_def)
qed

text \<open>The decoder is bounded. Whatever chunks it accepts, what it buffers (the unfinished line
  and the data of the unfinished event) is no more than the bytes charged to the current frame,
  and those never exceed the frame limit of 256 KiB.
\<close>

theorem decoder_memory_bounded:
  assumes "feed default_decoder chunks = Inr (s, events)"
  shows "length (sse_line s) + length (sse_data s) \<le> frame_bytes s \<and> frame_bytes s \<le> 262144"
proof -
  have "run_bytes default_decoder (concat chunks) = Inr (s, events)"
    using assms by (simp add: feed_run)
  from decoder_ok_run [OF decoder_ok_default this] show ?thesis
    by (simp add: decoder_ok_def MAX_FRAME_BYTES_def)
qed

theorem decoder_memory_bounded_witness:
  "(let s = fst (projr (feed default_decoder [[100, 97]]))
    in length (sse_line s) + length (sse_data s) \<le> frame_bytes s \<and> frame_bytes s \<le> 262144)"
proof -
  have "is_ok (feed default_decoder [[100, 97]])"
    by (simp only: feed_run decoder_ok_default)
      (simp add: step_byte_def default_decoder_def MAX_FRAME_BYTES_def)
  then have "feed default_decoder [[100, 97]] =
      Inr (fst (projr (feed default_decoder [[100, 97]])), snd (projr (feed default_decoder [[100, 97]])))"
    by (metis is_okE prod.collapse sum.sel(2))
  from decoder_memory_bounded [OF this] show ?thesis by (simp add: Let_def)
qed

end
