(* ===== verification/Workbench_Layout.thy ===== *)
theory Workbench_Layout
  imports Prelude
begin

text \<open>
  The Workbench layout of the desktop application, \<open>src/src/desktop/layout.rs\<close>: a bounded binary
  tree of splits and panel stacks, its validation, the editing operations, and the precedence of
  the stored layouts. A \<open>&mut self\<close> operation returns the layout it leaves beside its result.
  The TOML codec of the serde and toml crates and the digest of a Conversation name are
  parameters; the file system is what a read returns and a map from layout files to bytes.
\<close>

section \<open>Data\<close>

definition LAYOUT_VERSION :: u16 where "LAYOUT_VERSION = 1"
definition MAX_LAYOUT_BYTES :: nat where "MAX_LAYOUT_BYTES = 128 * 1024"
definition MAX_LAYOUT_DEPTH :: nat where "MAX_LAYOUT_DEPTH = 8"
definition MAX_LAYOUT_NODES :: nat where "MAX_LAYOUT_NODES = 31"
definition MAX_PANEL_OCCURRENCES :: nat where "MAX_PANEL_OCCURRENCES = 16"
definition MIN_SPLIT_PERMILLE :: u16 where "MIN_SPLIT_PERMILLE = 100"
definition MAX_SPLIT_PERMILLE :: u16 where "MAX_SPLIT_PERMILLE = 900"

datatype panel_id =
  Conversation | MessagePanel | Activity | Summary | Artifacts | Usage | Memory | Schedules
  | WorkingSet | Unavailable

datatype split_axis = Horizontal | Vertical

datatype dock_placement = Tab | DockLeft | DockRight | Above | Below

datatype layout_node =
  Split (node_id: rust_string) (axis: split_axis) (ratio_permille: u16)
    (first_node: layout_node) (second_node: layout_node)
| Stack (node_id: rust_string) (stack_panels: "panel_id list") (active_tab: nat)

record workbench_layout =
  version :: u16
  root :: layout_node
  maximized :: "panel_id option"

datatype layout_error =
  UnsupportedVersion u16
| TooManyNodes | TooManyPanels | MaximizedAbsent | NestedTooDeeply | SplitRatioOutside
| StackSize | StackActive | PanelsNotUnique | NodeIdInvalid | NodeIdsNotUnique
| UnknownSplit rust_string | MaximizeClosed | ActivateClosed | MessageStaysReachable
| LayoutEmpty | NoPanelStack | DockOnlyPanel | UnknownStack rust_string
| ImportTooLarge | Undecodable | ReadFailed | NotToml | SymbolicLink | NotRegularFile
| MetadataFailed | NoParent | ParentNotDirectory

definition recovery :: workbench_layout where
  "recovery =
     \<lparr>version = LAYOUT_VERSION,
      root = Split (rstr ''split-root'') Horizontal 720
        (Split (rstr ''split-primary'') Vertical 760
          (Stack (rstr ''stack-conversation'') [Conversation] 0)
          (Stack (rstr ''stack-message'') [MessagePanel] 0))
        (Stack (rstr ''stack-activity'') [Activity] 0),
      maximized = None\<rparr>"

section \<open>Validation\<close>

record layout_facts =
  fact_ids :: "rust_string set"
  panels_seen :: "panel_id set"
  nodes :: nat
  panel_count :: nat

definition no_facts :: layout_facts where
  "no_facts = \<lparr>fact_ids = {}, panels_seen = {}, nodes = 0, panel_count = 0\<rparr>"

fun see_panels :: "panel_id list \<Rightarrow> layout_facts \<Rightarrow> layout_error + layout_facts" where
  "see_panels [] facts = Inr facts"
| "see_panels (p # ps) facts =
     (if p \<in> panels_seen facts then Inl PanelsNotUnique
      else see_panels ps (facts\<lparr>panels_seen := insert p (panels_seen facts)\<rparr>))"

definition see_id :: "rust_string \<Rightarrow> layout_facts \<Rightarrow> layout_error + layout_facts" where
  "see_id i facts =
     (if i = [] \<or> str_len i > 96 \<or> list_ex is_control i then Inl NodeIdInvalid
      else if i \<in> fact_ids facts then Inl NodeIdsNotUnique
      else Inr (facts\<lparr>fact_ids := insert i (fact_ids facts)\<rparr>))"

definition ratio_ok :: "u16 \<Rightarrow> bool" where
  "ratio_ok r = (MIN_SPLIT_PERMILLE \<le> r \<and> r \<le> MAX_SPLIT_PERMILLE)"

fun validate_node :: "layout_node \<Rightarrow> nat \<Rightarrow> layout_facts \<Rightarrow> layout_error + layout_facts" where
  "validate_node (Split i ax r a b) depth facts =
     (if depth > MAX_LAYOUT_DEPTH then Inl NestedTooDeeply
      else let facts = facts\<lparr>nodes := nodes facts + 1\<rparr>
           in if \<not> ratio_ok r then Inl SplitRatioOutside
              else res_bind (validate_node a (depth + 1) facts)
                (\<lambda>facts. res_bind (validate_node b (depth + 1) facts) (see_id i)))"
| "validate_node (Stack i ps act) depth facts =
     (if depth > MAX_LAYOUT_DEPTH then Inl NestedTooDeeply
      else let facts = facts\<lparr>nodes := nodes facts + 1\<rparr>
           in if ps = [] \<or> length ps > MAX_PANEL_OCCURRENCES then Inl StackSize
              else if act \<ge> length ps then Inl StackActive
              else res_bind (see_panels ps facts)
                (\<lambda>facts. see_id i (facts\<lparr>panel_count := panel_count facts + length ps\<rparr>)))"

fun collect_panels :: "layout_node \<Rightarrow> panel_id list" where
  "collect_panels (Split i ax r a b) = collect_panels a @ collect_panels b"
| "collect_panels (Stack i ps act) = ps"

definition panels :: "workbench_layout \<Rightarrow> panel_id list" where
  "panels l = collect_panels (root l)"

definition validate :: "workbench_layout \<Rightarrow> layout_error + unit" where
  "validate l =
     (if version l \<noteq> LAYOUT_VERSION then Inl (UnsupportedVersion (version l))
      else res_bind (validate_node (root l) 1 no_facts)
        (\<lambda>facts. if nodes facts > MAX_LAYOUT_NODES then Inl TooManyNodes
           else if panel_count facts > MAX_PANEL_OCCURRENCES then Inl TooManyPanels
           else case maximized l of
                  Some p \<Rightarrow> if p \<in> set (panels l) then Inr () else Inl MaximizedAbsent
                | None \<Rightarrow> Inr ()))"

section \<open>Editing\<close>

text \<open>
  \<open>find_split_mut\<close> hands out a mutable reference to a ratio; writing through it is
  \<open>set_split\<close>, None where no split has the id.
\<close>

fun set_split :: "layout_node \<Rightarrow> rust_string \<Rightarrow> u16 \<Rightarrow> layout_node option" where
  "set_split (Split i ax r a b) wanted new =
     (if i = wanted then Some (Split i ax new a b)
      else case set_split a wanted new of
             Some a' \<Rightarrow> Some (Split i ax r a' b)
           | None \<Rightarrow> (case set_split b wanted new of
                 Some b' \<Rightarrow> Some (Split i ax r a b')
               | None \<Rightarrow> None))"
| "set_split (Stack i ps act) wanted new = None"

text \<open>Every tree has a first stack, so \<open>first_stack_mut\<close> and \<open>first_stack_id\<close> always answer Some.\<close>

fun push_first_stack :: "layout_node \<Rightarrow> panel_id \<Rightarrow> layout_node option" where
  "push_first_stack (Split i ax r a b) p =
     (case push_first_stack a p of
        Some a' \<Rightarrow> Some (Split i ax r a' b)
      | None \<Rightarrow> (case push_first_stack b p of
            Some b' \<Rightarrow> Some (Split i ax r a b')
          | None \<Rightarrow> None))"
| "push_first_stack (Stack i ps act) p =
     Some (Stack i (ps @ [p]) (length (ps @ [p]) - 1))"

fun first_stack_id :: "layout_node \<Rightarrow> rust_string option" where
  "first_stack_id (Split i ax r a b) =
     (case first_stack_id a of Some s \<Rightarrow> Some s | None \<Rightarrow> first_stack_id b)"
| "first_stack_id (Stack i ps act) = Some i"

fun position :: "'a \<Rightarrow> 'a list \<Rightarrow> nat option" where
  "position x [] = None"
| "position x (y # ys) = (if y = x then Some 0 else map_option Suc (position x ys))"

fun activate_in :: "layout_node \<Rightarrow> panel_id \<Rightarrow> layout_node \<times> bool" where
  "activate_in (Split i ax r a b) p =
     (case activate_in a p of
        (a', True) \<Rightarrow> (Split i ax r a' b, True)
      | (a', False) \<Rightarrow>
          (case activate_in b p of (b', found) \<Rightarrow> (Split i ax r a' b', found)))"
| "activate_in (Stack i ps act) p =
     (case position p ps of
        None \<Rightarrow> (Stack i ps act, False)
      | Some k \<Rightarrow> (Stack i ps k, True))"

fun remove_panel :: "layout_node \<Rightarrow> panel_id \<Rightarrow> layout_node option" where
  "remove_panel (Split i ax r a b) p =
     (case (remove_panel a p, remove_panel b p) of
        (Some a', Some b') \<Rightarrow> Some (Split i ax r a' b')
      | (Some rest, None) \<Rightarrow> Some rest
      | (None, Some rest) \<Rightarrow> Some rest
      | (None, None) \<Rightarrow> None)"
| "remove_panel (Stack i ps act) p =
     (let ps = filter (\<lambda>c. c \<noteq> p) ps
      in if ps = [] then None else Some (Stack i ps (min act (length ps - 1))))"

fun contains_stack :: "layout_node \<Rightarrow> rust_string \<Rightarrow> bool" where
  "contains_stack (Split i ax r a b) target = (contains_stack a target \<or> contains_stack b target)"
| "contains_stack (Stack i ps act) target = (i = target)"

definition stack_name :: "nat \<Rightarrow> rust_string" where
  "stack_name n = rstr ''stack-'' @ decimal n"

definition split_name :: "nat \<Rightarrow> rust_string" where
  "split_name n = rstr ''split-'' @ decimal n"

text \<open>The new split around an old node, on the side the placement asks for (not \<open>Tab\<close>).\<close>

definition split_beside :: "layout_node \<Rightarrow> panel_id \<Rightarrow> dock_placement \<Rightarrow> nat \<Rightarrow> layout_node" where
  "split_beside old p placement n =
     (let fresh = Stack (stack_name n) [p] 0;
          (ax, a, b) =
            (case placement of
               DockLeft \<Rightarrow> (Horizontal, fresh, old)
             | DockRight \<Rightarrow> (Horizontal, old, fresh)
             | Above \<Rightarrow> (Vertical, fresh, old)
             | Below \<Rightarrow> (Vertical, old, fresh)
             | Tab \<Rightarrow> (Vertical, old, fresh))
      in Split (split_name n) ax 500 a b)"

fun dock_into ::
  "layout_node \<Rightarrow> panel_id \<Rightarrow> rust_string \<Rightarrow> dock_placement \<Rightarrow> nat \<Rightarrow> layout_error + layout_node"
where
  "dock_into (Split i ax r a b) p target placement n =
     (if contains_stack a target then
        res_bind (dock_into a p target placement n) (\<lambda>a'. Inr (Split i ax r a' b))
      else if contains_stack b target then
        res_bind (dock_into b p target placement n) (\<lambda>b'. Inr (Split i ax r a b'))
      else Inl (UnknownStack target))"
| "dock_into (Stack i ps act) p target placement n =
     (if i = target then
        if placement = Tab then Inr (Stack i (ps @ [p]) (length (ps @ [p]) - 1))
        else Inr (split_beside (Stack i ps act) p placement n)
      else Inl (UnknownStack target))"

fun collect_ids :: "layout_node \<Rightarrow> rust_string set" where
  "collect_ids (Split i ax r a b) = insert i (collect_ids a \<union> collect_ids b)"
| "collect_ids (Stack i ps act) = {i}"

definition next_node_number :: "layout_node \<Rightarrow> nat" where
  "next_node_number t =
     (case find (\<lambda>n. stack_name n \<notin> collect_ids t \<and> split_name n \<notin> collect_ids t)
        [1..<MAX_LAYOUT_NODES + 2] of
        Some n \<Rightarrow> n | None \<Rightarrow> MAX_LAYOUT_NODES + 1)"

section \<open>Operations of the layout\<close>

type_synonym 'a layout_op = "workbench_layout \<times> (layout_error + 'a)"

text \<open>Validate a candidate and only then make it the layout.\<close>

definition commit :: "workbench_layout \<Rightarrow> workbench_layout \<Rightarrow> unit layout_op" where
  "commit l candidate =
     (case validate candidate of Inl e \<Rightarrow> (l, Inl e) | Inr _ \<Rightarrow> (candidate, Inr ()))"

definition resize_split :: "workbench_layout \<Rightarrow> rust_string \<Rightarrow> u16 \<Rightarrow> unit layout_op" where
  "resize_split l i r =
     (if \<not> ratio_ok r then (l, Inl SplitRatioOutside)
      else case set_split (root l) i r of
             None \<Rightarrow> (l, Inl (UnknownSplit i))
           | Some t \<Rightarrow> (let l' = l\<lparr>root := t\<rparr> in (l', validate l')))"

definition maximize :: "workbench_layout \<Rightarrow> panel_id \<Rightarrow> unit layout_op" where
  "maximize l p =
     (if p \<notin> set (panels l) then (l, Inl MaximizeClosed)
      else (l\<lparr>maximized := Some p\<rparr>, Inr ()))"

definition restore :: "workbench_layout \<Rightarrow> workbench_layout" where
  "restore l = l\<lparr>maximized := None\<rparr>"

definition activate_panel :: "workbench_layout \<Rightarrow> panel_id \<Rightarrow> unit layout_op" where
  "activate_panel l p =
     (case activate_in (root l) p of
        (t, True) \<Rightarrow> (l\<lparr>root := t\<rparr>, Inr ())
      | (t, False) \<Rightarrow> (l\<lparr>root := t\<rparr>, Inl ActivateClosed))"

definition close_panel :: "workbench_layout \<Rightarrow> panel_id \<Rightarrow> unit layout_op" where
  "close_panel l p =
     (if p = MessagePanel then (l, Inl MessageStaysReachable)
      else case remove_panel (root l) p of
             None \<Rightarrow> (l, Inl LayoutEmpty)
           | Some t \<Rightarrow> commit l \<lparr>version = version l, root = t,
               maximized = (if maximized l \<noteq> Some p then maximized l else None)\<rparr>)"

definition reopen_panel :: "workbench_layout \<Rightarrow> panel_id \<Rightarrow> unit layout_op" where
  "reopen_panel l p =
     (if p \<in> set (panels l) then (l, Inr ())
      else case push_first_stack (root l) p of
             None \<Rightarrow> (l, Inl NoPanelStack)
           | Some t \<Rightarrow> commit l (l\<lparr>root := t\<rparr>))"

definition dock_panel ::
  "workbench_layout \<Rightarrow> panel_id \<Rightarrow> rust_string \<Rightarrow> dock_placement \<Rightarrow> unit layout_op" where
  "dock_panel l p target placement =
     (case remove_panel (root l) p of
        None \<Rightarrow> (l, Inl DockOnlyPanel)
      | Some without \<Rightarrow>
          (case dock_into without p target placement (next_node_number without) of
             Inl e \<Rightarrow> (l, Inl e)
           | Inr t \<Rightarrow> commit l \<lparr>version = version l, root = t, maximized = maximized l\<rparr>))"

definition dock_panel_at_root ::
  "workbench_layout \<Rightarrow> panel_id \<Rightarrow> dock_placement \<Rightarrow> unit layout_op" where
  "dock_panel_at_root l p placement =
     (case remove_panel (root l) p of
        None \<Rightarrow> (l, Inl DockOnlyPanel)
      | Some without \<Rightarrow>
          (let n = next_node_number without
           in if placement = Tab then
                (case first_stack_id without of
                   None \<Rightarrow> (l, Inl NoPanelStack)
                 | Some target \<Rightarrow>
                     (case dock_into without p target Tab n of
                        Inl e \<Rightarrow> (l, Inl e)
                      | Inr t \<Rightarrow> commit l \<lparr>version = version l, root = t, maximized = None\<rparr>))
              else commit l \<lparr>version = version l, root = split_beside without p placement n,
                maximized = None\<rparr>))"

datatype layout_edit =
  ResizeSplit rust_string u16 | Maximize panel_id | Restore | ActivatePanel panel_id
| ClosePanel panel_id | ReopenPanel panel_id | DockPanel panel_id rust_string dock_placement
| DockPanelAtRoot panel_id dock_placement

fun apply_edit :: "workbench_layout \<Rightarrow> layout_edit \<Rightarrow> unit layout_op" where
  "apply_edit l (ResizeSplit i r) = resize_split l i r"
| "apply_edit l (Maximize p) = maximize l p"
| "apply_edit l Restore = (restore l, Inr ())"
| "apply_edit l (ActivatePanel p) = activate_panel l p"
| "apply_edit l (ClosePanel p) = close_panel l p"
| "apply_edit l (ReopenPanel p) = reopen_panel l p"
| "apply_edit l (DockPanel p target placement) = dock_panel l p target placement"
| "apply_edit l (DockPanelAtRoot p placement) = dock_panel_at_root l p placement"

section \<open>Stored layouts\<close>

definition to_inert_toml :: "(workbench_layout \<Rightarrow> u8 list) \<Rightarrow> workbench_layout \<Rightarrow> layout_error + u8 list"
where
  "to_inert_toml encode l = res_bind (validate l) (\<lambda>_. Inr (encode l))"

definition from_inert_toml ::
  "(u8 list \<Rightarrow> workbench_layout option) \<Rightarrow> u8 list \<Rightarrow> layout_error + workbench_layout" where
  "from_inert_toml decode input =
     (if length input > MAX_LAYOUT_BYTES then Inl ImportTooLarge
      else res_bind (ok_or (decode input) Undecodable)
        (\<lambda>l. res_bind (validate l) (\<lambda>_. Inr l)))"

text \<open>What opening a file finds, and the bounded read of it.\<close>

datatype file_state = NotFound | Unreadable | FileBytes "u8 list"

definition read_layout ::
  "(u8 list \<Rightarrow> workbench_layout option) \<Rightarrow> file_state \<Rightarrow> layout_error + workbench_layout option" where
  "read_layout decode f =
     (case f of
        NotFound \<Rightarrow> Inr None
      | Unreadable \<Rightarrow> Inl ReadFailed
      | FileBytes bytes \<Rightarrow>
          if length bytes > MAX_LAYOUT_BYTES then Inl ReadFailed
          else res_bind (from_inert_toml decode bytes) (\<lambda>l. Inr (Some l)))"

datatype layout_source = FromConversation | FromUserDefault | FromRecovery

record resolved_layout =
  layout :: workbench_layout
  source :: layout_source
  warning :: "layout_error list option"

text \<open>A warning that joins two messages is the list of both.\<close>

definition resolve_default ::
  "(u8 list \<Rightarrow> workbench_layout option) \<Rightarrow> file_state \<Rightarrow> layout_error list option \<Rightarrow> resolved_layout"
where
  "resolve_default decode default_file w =
     (case read_layout decode default_file of
        Inr (Some l) \<Rightarrow> \<lparr>layout = l, source = FromUserDefault, warning = w\<rparr>
      | Inr None \<Rightarrow> \<lparr>layout = recovery, source = FromRecovery, warning = w\<rparr>
      | Inl e \<Rightarrow> \<lparr>layout = recovery, source = FromRecovery,
          warning = Some (case w of Some previous \<Rightarrow> previous @ [e] | None \<Rightarrow> [e])\<rparr>)"

definition resolve ::
  "(u8 list \<Rightarrow> workbench_layout option) \<Rightarrow> file_state \<Rightarrow> file_state \<Rightarrow> resolved_layout" where
  "resolve decode conversation_file default_file =
     (case read_layout decode conversation_file of
        Inr (Some l) \<Rightarrow> \<lparr>layout = l, source = FromConversation, warning = None\<rparr>
      | Inl e \<Rightarrow> resolve_default decode default_file (Some [e])
      | Inr None \<Rightarrow> resolve_default decode default_file None)"

text \<open>
  The store: one file per Conversation, named by the digest of its name, and the default file.
  \<open>io_ok\<close> says whether the directory creation and the atomic write succeed; an atomic write
  that fails leaves the file as it was.
\<close>

datatype layout_file = ConversationFile rust_string | DefaultFile

type_synonym layout_disk = "layout_file \<Rightarrow> file_state"

definition write_layout ::
  "(workbench_layout \<Rightarrow> u8 list) \<Rightarrow> bool \<Rightarrow> layout_disk \<Rightarrow> layout_file \<Rightarrow> workbench_layout
    \<Rightarrow> layout_disk \<times> (layout_error + unit)" where
  "write_layout encode io_ok disk f l =
     (case to_inert_toml encode l of
        Inl e \<Rightarrow> (disk, Inl e)
      | Inr rendered \<Rightarrow>
          if io_ok then (disk(f := FileBytes rendered), Inr ()) else (disk, Inl ReadFailed))"

definition remove_optional ::
  "bool \<Rightarrow> layout_disk \<Rightarrow> layout_file \<Rightarrow> layout_disk \<times> (layout_error + unit)" where
  "remove_optional io_ok disk f =
     (if io_ok then (disk(f := NotFound), Inr ())
      else if disk f = NotFound then (disk, Inr ())
      else (disk, Inl ReadFailed))"

definition conversation_file :: "(rust_string \<Rightarrow> rust_string) \<Rightarrow> rust_string \<Rightarrow> layout_file" where
  "conversation_file digest name = ConversationFile (digest name)"

definition save_conversation where
  "save_conversation encode digest io_ok disk name l =
     write_layout encode io_ok disk (conversation_file digest name) l"

definition save_default where
  "save_default encode io_ok disk l = write_layout encode io_ok disk DefaultFile l"

definition clear_conversation where
  "clear_conversation digest io_ok disk name =
     remove_optional io_ok disk (conversation_file digest name)"

definition clear_default where
  "clear_default io_ok disk = remove_optional io_ok disk DefaultFile"

definition resolve_stored ::
  "(u8 list \<Rightarrow> workbench_layout option) \<Rightarrow> (rust_string \<Rightarrow> rust_string) \<Rightarrow> layout_disk \<Rightarrow> rust_string
    \<Rightarrow> resolved_layout" where
  "resolve_stored decode digest disk name =
     resolve decode (disk (conversation_file digest name)) (disk DefaultFile)"

section \<open>Explicitly selected layout files\<close>

datatype path_entry = RegularFile | SymLink | OtherEntry | NoEntry | EntryUnknown

datatype parent_entry = ParentMissing | ParentUnknown | ParentDirectory | ParentOther

definition validate_layout_file_path ::
  "rust_string option \<Rightarrow> path_entry \<Rightarrow> parent_entry \<Rightarrow> bool \<Rightarrow> layout_error + unit" where
  "validate_layout_file_path extension entry parent must_exist =
     (if extension \<noteq> Some (rstr ''toml'') then Inl NotToml
      else res_bind
        (case entry of
           SymLink \<Rightarrow> Inl SymbolicLink
         | OtherEntry \<Rightarrow> Inl NotRegularFile
         | RegularFile \<Rightarrow> Inr ()
         | NoEntry \<Rightarrow> if must_exist then Inl MetadataFailed else Inr ()
         | EntryUnknown \<Rightarrow> Inl MetadataFailed)
        (\<lambda>_. case parent of
           ParentMissing \<Rightarrow> Inl NoParent
         | ParentUnknown \<Rightarrow> Inl MetadataFailed
         | ParentOther \<Rightarrow> Inl ParentNotDirectory
         | ParentDirectory \<Rightarrow> Inr ()))"

definition read_inert_file ::
  "(u8 list \<Rightarrow> workbench_layout option) \<Rightarrow> rust_string option \<Rightarrow> path_entry \<Rightarrow> parent_entry
    \<Rightarrow> file_state \<Rightarrow> layout_error + workbench_layout" where
  "read_inert_file decode extension entry parent f =
     res_bind (validate_layout_file_path extension entry parent True)
       (\<lambda>_. case f of
          FileBytes bytes \<Rightarrow>
            if length bytes > MAX_LAYOUT_BYTES then Inl ReadFailed else from_inert_toml decode bytes
        | _ \<Rightarrow> Inl ReadFailed)"

definition write_inert_file ::
  "(workbench_layout \<Rightarrow> u8 list) \<Rightarrow> rust_string option \<Rightarrow> path_entry \<Rightarrow> parent_entry \<Rightarrow> bool
    \<Rightarrow> workbench_layout \<Rightarrow> layout_error + file_state" where
  "write_inert_file encode extension entry parent io_ok l =
     res_bind (validate_layout_file_path extension entry parent False)
       (\<lambda>_. res_bind (to_inert_toml encode l)
          (\<lambda>rendered. if io_ok then Inr (FileBytes rendered) else Inl ReadFailed))"

section \<open>Validation is the declarative condition\<close>

text \<open>What a valid tree is, said without the traversal and its accumulated facts.\<close>

fun tree_height :: "layout_node \<Rightarrow> nat" where
  "tree_height (Split i ax r a b) = Suc (max (tree_height a) (tree_height b))"
| "tree_height (Stack i ps act) = 1"

fun node_ids :: "layout_node \<Rightarrow> rust_string list" where
  "node_ids (Split i ax r a b) = node_ids a @ node_ids b @ [i]"
| "node_ids (Stack i ps act) = [i]"

definition id_ok :: "rust_string \<Rightarrow> bool" where
  "id_ok i = (i \<noteq> [] \<and> str_len i \<le> 96 \<and> \<not> list_ex is_control i)"

fun shape_ok :: "layout_node \<Rightarrow> bool" where
  "shape_ok (Split i ax r a b) = (ratio_ok r \<and> id_ok i \<and> shape_ok a \<and> shape_ok b)"
| "shape_ok (Stack i ps act) = (id_ok i \<and> ps \<noteq> [] \<and> act < length ps)"

definition tree_ok :: "layout_node \<Rightarrow> bool" where
  "tree_ok t = (shape_ok t \<and> distinct (node_ids t) \<and> distinct (collect_panels t))"

definition layout_ok :: "workbench_layout \<Rightarrow> bool" where
  "layout_ok l =
     (version l = LAYOUT_VERSION \<and> tree_ok (root l) \<and> tree_height (root l) \<le> MAX_LAYOUT_DEPTH
      \<and> (\<forall>p. maximized l = Some p \<longrightarrow> p \<in> set (panels l)))"

text \<open>The facts a traversal leaves behind.\<close>

definition add_facts :: "layout_node \<Rightarrow> layout_facts \<Rightarrow> layout_facts" where
  "add_facts t facts =
     \<lparr>fact_ids = fact_ids facts \<union> set (node_ids t),
      panels_seen = panels_seen facts \<union> set (collect_panels t),
      nodes = nodes facts + length (node_ids t),
      panel_count = panel_count facts + length (collect_panels t)\<rparr>"

definition fresh_for :: "layout_node \<Rightarrow> layout_facts \<Rightarrow> bool" where
  "fresh_for t facts =
     (set (node_ids t) \<inter> fact_ids facts = {} \<and> set (collect_panels t) \<inter> panels_seen facts = {})"

lemma see_panels_eq_Inr:
  "see_panels ps facts = Inr facts' \<longleftrightarrow>
     distinct ps \<and> set ps \<inter> panels_seen facts = {}
     \<and> facts' = facts\<lparr>panels_seen := panels_seen facts \<union> set ps\<rparr>"
  by (induction ps facts rule: see_panels.induct) auto

lemma see_id_eq_Inr:
  "see_id i facts = Inr facts' \<longleftrightarrow>
     id_ok i \<and> i \<notin> fact_ids facts \<and> facts' = facts\<lparr>fact_ids := insert i (fact_ids facts)\<rparr>"
  by (auto simp: see_id_def id_ok_def not_le)

lemma card_panel_ids: "card (UNIV :: panel_id set) = 10"
proof -
  have univ: "(UNIV :: panel_id set) =
     {Conversation, MessagePanel, Activity, Summary, Artifacts, Usage, Memory, Schedules,
      WorkingSet, Unavailable}"
    using panel_id.exhaust by blast
  show ?thesis by (subst univ) simp
qed

instance panel_id :: finite
proof
  have "UNIV = set [Conversation, MessagePanel, Activity, Summary, Artifacts, Usage, Memory,
      Schedules, WorkingSet, Unavailable]"
    using panel_id.exhaust by auto
  then show "finite (UNIV :: panel_id set)" by (metis List.finite_set)
qed

lemma distinct_panels_le: "distinct (ps :: panel_id list) \<Longrightarrow> length ps \<le> 10"
  using card_mono [of UNIV "set ps"] by (simp add: card_panel_ids distinct_card)

lemma validate_node_sound:
  assumes "validate_node t depth facts = Inr facts'"
  shows "shape_ok t \<and> distinct (node_ids t) \<and> distinct (collect_panels t) \<and> fresh_for t facts
    \<and> depth + tree_height t \<le> Suc MAX_LAYOUT_DEPTH \<and> facts' = add_facts t facts"
  using assms
proof (induction t arbitrary: depth facts facts')
  case (Split i ax r a b)
  let ?f = "facts\<lparr>nodes := nodes facts + 1\<rparr>"
  from Split.prems obtain f1 f2 where "ratio_ok r"
    and a: "validate_node a (depth + 1) ?f = Inr f1"
    and b: "validate_node b (depth + 1) f1 = Inr f2"
    and i: "see_id i f2 = Inr facts'"
    by (auto simp: res_simps Let_def split: if_splits)
  with Split.IH(1) [OF a] Split.IH(2) [OF b] show ?case
    by (auto simp: see_id_eq_Inr add_facts_def fresh_for_def)
next
  case (Stack i ps act)
  then show ?case
    by (auto simp: res_simps Let_def see_panels_eq_Inr see_id_eq_Inr add_facts_def fresh_for_def
        split: if_splits)
qed

lemma validate_node_complete:
  assumes "shape_ok t" and "distinct (node_ids t)" and "distinct (collect_panels t)"
    and "fresh_for t facts"
  shows "validate_node t depth facts =
     (if depth + tree_height t \<le> Suc MAX_LAYOUT_DEPTH then Inr (add_facts t facts)
      else Inl NestedTooDeeply)"
  using assms
proof (induction t arbitrary: depth facts)
  case (Split i ax r a b)
  let ?f = "facts\<lparr>nodes := nodes facts + 1\<rparr>"
  have a: "validate_node a (depth + 1) ?f =
      (if depth + 1 + tree_height a \<le> Suc MAX_LAYOUT_DEPTH then Inr (add_facts a ?f)
       else Inl NestedTooDeeply)"
    using Split.prems by (intro Split.IH) (auto simp: fresh_for_def)
  have b: "validate_node b (depth + 1) (add_facts a ?f) =
      (if depth + 1 + tree_height b \<le> Suc MAX_LAYOUT_DEPTH
       then Inr (add_facts b (add_facts a ?f)) else Inl NestedTooDeeply)"
    using Split.prems by (intro Split.IH) (auto simp: fresh_for_def add_facts_def)
  have i: "see_id i (add_facts b (add_facts a ?f)) = Inr (add_facts (Split i ax r a b) facts)"
    using Split.prems by (auto simp: see_id_eq_Inr add_facts_def fresh_for_def)
  show ?case
    using Split.prems a b i by (auto simp: Let_def)
next
  case (Stack i ps act)
  let ?f = "facts\<lparr>nodes := nodes facts + 1\<rparr>"
  let ?g = "?f\<lparr>panels_seen := panels_seen facts \<union> set ps\<rparr>"
  have size: "length ps \<le> MAX_PANEL_OCCURRENCES"
    using Stack.prems distinct_panels_le [of ps] by (simp add: MAX_PANEL_OCCURRENCES_def)
  have "see_panels ps ?f = Inr ?g"
    using Stack.prems by (simp add: see_panels_eq_Inr fresh_for_def)
  moreover have "see_id i (?g\<lparr>panel_count := panel_count ?g + length ps\<rparr>) =
      Inr (add_facts (Stack i ps act) facts)"
    using Stack.prems by (simp add: see_id_eq_Inr add_facts_def fresh_for_def)
  ultimately show ?case
    using Stack.prems size by (simp add: Let_def not_le not_less)
qed

text \<open>A tree of distinct panels is small: the ceilings on nodes and panels never decide.\<close>

lemma node_count: "shape_ok t \<Longrightarrow> length (node_ids t) + 1 \<le> 2 * length (collect_panels t)"
proof (induction t)
  case (Stack i ps act)
  then show ?case by (cases ps) auto
qed auto

lemma tree_small:
  assumes "tree_ok t"
  shows "length (node_ids t) \<le> 19" and "length (collect_panels t) \<le> 10"
  using assms node_count [of t] distinct_panels_le [of "collect_panels t"]
  by (auto simp: tree_ok_def)

lemma validate_node_root:
  assumes "tree_ok t"
  shows "validate_node t (Suc 0) no_facts =
     (if tree_height t \<le> MAX_LAYOUT_DEPTH then Inr (add_facts t no_facts)
      else Inl NestedTooDeeply)"
  using assms by (subst validate_node_complete) (auto simp: tree_ok_def fresh_for_def no_facts_def)

lemma add_no_facts [simp]:
  "nodes (add_facts t no_facts) = length (node_ids t)"
  "panel_count (add_facts t no_facts) = length (collect_panels t)"
  by (simp_all add: add_facts_def no_facts_def)

lemma validate_tree_ok:
  assumes "tree_ok (root l)" and "version l = LAYOUT_VERSION"
    and "\<And>p. maximized l = Some p \<Longrightarrow> p \<in> set (panels l)"
  shows "validate l =
     (if tree_height (root l) \<le> MAX_LAYOUT_DEPTH then Inr () else Inl NestedTooDeeply)"
  using assms tree_small [OF assms(1)]
  by (auto simp: validate_def validate_node_root MAX_LAYOUT_NODES_def
      MAX_PANEL_OCCURRENCES_def split: option.splits)

lemma validate_ok_iff: "validate l = Inr () \<longleftrightarrow> layout_ok l"
proof
  assume "validate l = Inr ()"
  then show "layout_ok l"
    by (auto simp: validate_def layout_ok_def tree_ok_def res_simps
        dest: validate_node_sound split: if_splits option.splits)
next
  assume "layout_ok l"
  then show "validate l = Inr ()"
    using validate_tree_ok [of l] by (auto simp: layout_ok_def)
qed

section \<open>What each tree operation does\<close>

lemma subseq_distinct: "subseq xs ys \<Longrightarrow> distinct ys \<Longrightarrow> distinct xs"
  using subseqs_distinctD [of xs ys] by simp

lemma remove_panel_None: "remove_panel t p = None \<longleftrightarrow> filter (\<lambda>c. c \<noteq> p) (collect_panels t) = []"
  by (induction t p rule: remove_panel.induct) (auto simp: Let_def split: option.splits)

lemma remove_panel_Some:
  "remove_panel t p = Some t' \<Longrightarrow>
     collect_panels t' = filter (\<lambda>c. c \<noteq> p) (collect_panels t)
     \<and> subseq (node_ids t') (node_ids t) \<and> tree_height t' \<le> tree_height t
     \<and> (shape_ok t \<longrightarrow> shape_ok t')"
proof (induction t p arbitrary: t' rule: remove_panel.induct)
  case (1 i ax r a b p)
  have a: "filter (\<lambda>c. c \<noteq> p) (collect_panels a) = []" if "remove_panel a p = None"
    using that by (simp add: remove_panel_None)
  have b: "filter (\<lambda>c. c \<noteq> p) (collect_panels b) = []" if "remove_panel b p = None"
    using that by (simp add: remove_panel_None)
  show ?case
  proof (cases "remove_panel a p")
    case None
    then have "remove_panel b p = Some t'" using "1.prems" by (simp split: option.splits)
    with "1.IH"(2) a [OF None] show ?thesis by (auto intro: subseq_drop_many)
  next
    case a': (Some a')
    show ?thesis
    proof (cases "remove_panel b p")
      case None
      then have "t' = a'" using "1.prems" a' by simp
      with "1.IH"(1) [OF a'] b [OF None] show ?thesis by (auto intro: subseq_rev_drop_many)
    next
      case b': (Some b')
      then have "t' = Split i ax r a' b'" using "1.prems" a' by simp
      with "1.IH"(1) [OF a'] "1.IH"(2) [OF b'] show ?thesis
        by (auto intro: list_emb_append_mono)
    qed
  qed
next
  case (2 i ps act p)
  then have "0 < length (filter (\<lambda>c. c \<noteq> p) ps)" by (simp add: Let_def split: if_splits)
  with 2 show ?case by (auto simp: Let_def min_less_iff_disj split: if_splits)
qed

lemma tree_ok_remove:
  assumes "tree_ok t" and "remove_panel t p = Some t'"
  shows "tree_ok t'"
  using assms remove_panel_Some [OF assms(2)] by (auto simp: tree_ok_def dest: subseq_distinct)

lemma set_split_Some:
  "set_split t i new = Some t' \<Longrightarrow>
     node_ids t' = node_ids t \<and> collect_panels t' = collect_panels t
     \<and> tree_height t' = tree_height t \<and> (shape_ok t \<and> ratio_ok new \<longrightarrow> shape_ok t')"
  by (induction t i new arbitrary: t' rule: set_split.induct)
    (auto split: if_splits option.splits)

lemma position_Some: "position x xs = Some k \<Longrightarrow> k < length xs \<and> xs ! k = x"
  by (induction x xs arbitrary: k rule: position.induct) (auto split: if_splits)

lemma position_None: "position x xs = None \<longleftrightarrow> x \<notin> set xs"
  by (induction x xs rule: position.induct) auto

text \<open>The tabs in front: the active panel of every stack.\<close>

fun active_panels :: "layout_node \<Rightarrow> panel_id list" where
  "active_panels (Split i ax r a b) = active_panels a @ active_panels b"
| "active_panels (Stack i ps act) = [ps ! act]"

lemma activate_in_effect:
  "activate_in t p = (t', found) \<Longrightarrow>
     node_ids t' = node_ids t \<and> collect_panels t' = collect_panels t
     \<and> tree_height t' = tree_height t \<and> (shape_ok t \<longrightarrow> shape_ok t')
     \<and> (found \<longleftrightarrow> p \<in> set (collect_panels t)) \<and> (\<not> found \<longrightarrow> t' = t)
     \<and> (found \<longrightarrow> p \<in> set (active_panels t'))"
proof (induction t p arbitrary: t' found rule: activate_in.induct)
  case (1 i ax r a b p)
  obtain a' fa where a: "activate_in a p = (a', fa)" by fastforce
  obtain b' fb where b: "activate_in b p = (b', fb)" by fastforce
  show ?case
  proof (cases fa)
    case True
    with "1.prems" a have "t' = Split i ax r a' b" "found = True" by simp_all
    with True "1.IH"(1) [OF a] show ?thesis by simp
  next
    case False
    with "1.prems" a b have "t' = Split i ax r a' b'" "found = fb" by simp_all
    with False "1.IH"(1) [OF a] "1.IH"(2) [OF a [symmetric] _ b] show ?thesis by auto
  qed
next
  case (2 i ps act p)
  then show ?case by (auto simp: position_None dest: position_Some split: option.splits)
qed

text \<open>A list with one more element somewhere.\<close>

definition inserted :: "'a \<Rightarrow> 'a list \<Rightarrow> 'a list \<Rightarrow> bool" where
  "inserted x xs ys = (\<exists>us vs. xs = us @ vs \<and> ys = us @ x # vs)"

lemma inserted_intros:
  "inserted x xs (x # xs)"
  "inserted x xs (xs @ [x])"
  "inserted x xs ys \<Longrightarrow> inserted x (xs @ zs) (ys @ zs)"
  "inserted x xs ys \<Longrightarrow> inserted x (zs @ xs) (zs @ ys)"
proof -
  show "inserted x xs (x # xs)" by (force simp: inserted_def)
  show "inserted x xs (xs @ [x])" by (force simp: inserted_def)
  assume "inserted x xs ys"
  then obtain us vs where "xs = us @ vs" "ys = us @ x # vs" by (auto simp: inserted_def)
  then have "xs @ zs = us @ (vs @ zs) \<and> ys @ zs = us @ x # (vs @ zs)"
    and "zs @ xs = (zs @ us) @ vs \<and> zs @ ys = (zs @ us) @ x # vs" by simp_all
  then show "inserted x (xs @ zs) (ys @ zs)" and "inserted x (zs @ xs) (zs @ ys)"
    unfolding inserted_def by blast+
qed

lemma inserted_distinct: "inserted x xs ys \<Longrightarrow> distinct ys \<longleftrightarrow> distinct xs \<and> x \<notin> set xs"
  by (auto simp: inserted_def)

lemma inserted_set: "inserted x xs ys \<Longrightarrow> set ys = insert x (set xs)"
  by (auto simp: inserted_def)

lemma push_first_stack_effect:
  "\<exists>t'. push_first_stack t p = Some t' \<and> inserted p (collect_panels t) (collect_panels t')
     \<and> node_ids t' = node_ids t
     \<and> tree_height t' = tree_height t \<and> (shape_ok t \<longrightarrow> shape_ok t')
     \<and> p \<in> set (active_panels t')"
proof (induction t)
  case (Split i ax r a b)
  then show ?case by (auto intro: inserted_intros)
qed (auto simp: nth_append intro: inserted_intros)

lemma first_stack_contained: "\<exists>i. first_stack_id t = Some i \<and> contains_stack t i"
  by (induction t) auto

lemma tree_height_pos [simp]: "0 < tree_height t" "Suc 0 \<le> tree_height t"
  by (induction t) auto

lemma split_beside_effect:
  assumes "placement \<noteq> Tab"
  shows "inserted p (collect_panels old) (collect_panels (split_beside old p placement n))
     \<and> mset (node_ids (split_beside old p placement n)) =
         mset (node_ids old) + {#stack_name n, split_name n#}
     \<and> tree_height (split_beside old p placement n) = Suc (tree_height old)
     \<and> (shape_ok old \<and> id_ok (stack_name n) \<and> id_ok (split_name n)
         \<longrightarrow> shape_ok (split_beside old p placement n))
     \<and> p \<in> set (active_panels (split_beside old p placement n))"
  using assms
  by (cases placement)
    (auto simp: split_beside_def ratio_ok_def MIN_SPLIT_PERMILLE_def MAX_SPLIT_PERMILLE_def
      max_def intro: le_antisym inserted_intros)

lemma dock_into_error:
  "dock_into t p target placement n = Inl e \<Longrightarrow>
     e = UnknownStack target \<and> \<not> contains_stack t target"
  by (induction t p target placement n rule: dock_into.induct)
    (auto simp: res_bind_def split: if_splits sum.splits)

text \<open>What docking adds: nothing for a tab, a numbered stack and split otherwise.\<close>

definition dock_names :: "dock_placement \<Rightarrow> nat \<Rightarrow> rust_string multiset" where
  "dock_names placement n = (if placement = Tab then {#} else {#stack_name n, split_name n#})"

lemma dock_into_effect:
  assumes "dock_into t p target placement n = Inr t'"
  shows "inserted p (collect_panels t) (collect_panels t')
     \<and> mset (node_ids t') = mset (node_ids t) + dock_names placement n
     \<and> (shape_ok t \<and> id_ok (stack_name n) \<and> id_ok (split_name n) \<longrightarrow> shape_ok t')
     \<and> p \<in> set (active_panels t')"
  using assms
proof (induction t p target placement n arbitrary: t' rule: dock_into.induct)
  case (1 i ax r a b p target placement n)
  show ?case
  proof (cases "contains_stack a target")
    case True
    with "1.prems" obtain a' where a: "dock_into a p target placement n = Inr a'"
      and t': "t' = Split i ax r a' b" by (auto simp: res_simps)
    then show ?thesis using "1.IH"(1) [OF True a] by (auto intro: inserted_intros)
  next
    case False
    with "1.prems" obtain b' where cb: "contains_stack b target"
      and b: "dock_into b p target placement n = Inr b'"
      and t': "t' = Split i ax r a b'" by (auto simp: res_simps split: if_splits)
    then show ?thesis using "1.IH"(2) [OF False cb b] by (auto intro: inserted_intros)
  qed
next
  case (2 i ps act p target placement n)
  then show ?case
    using split_beside_effect [where old = "Stack i ps act" and placement = placement
        and p = p and n = n]
    by (cases "placement = Tab") (auto simp: dock_names_def nth_append split: if_splits intro: inserted_intros)
qed

section \<open>Fresh node numbers\<close>

lemma set_collect_ids: "collect_ids t = set (node_ids t)"
  by (induction t) auto

lemma rstr_names: "rstr ''stack-'' = [115, 116, 97, 99, 107, 45]"
  "rstr ''split-'' = [115, 112, 108, 105, 116, 45]"
  by (simp_all add: rstr_def)

lemma names_inject [simp]:
  "stack_name m = stack_name n \<longleftrightarrow> m = n" "split_name m = split_name n \<longleftrightarrow> m = n"
  "stack_name m \<noteq> split_name n" "split_name n \<noteq> stack_name m"
  by (simp_all add: stack_name_def split_name_def rstr_names)

lemma decimal_two:
  assumes "n < 100"
  shows "length (decimal n) \<le> 2"
proof -
  have "n div 10 < 10" using assms by linarith
  then have "decimal (n div 10) = [48 + n div 10]" by (simp add: decimal.simps)
  then show ?thesis by (simp add: decimal.simps [of n])
qed

lemma str_len_decimal: "str_len (decimal n) = length (decimal n)"
proof -
  have "utf8_len c = 1" if "c \<in> set (decimal n)" for c
    using digits_decimal [OF that] by (simp add: utf8_len_def)
  then have "map utf8_len (decimal n) = map (\<lambda>_. 1) (decimal n)" by (intro map_cong) simp_all
  then show ?thesis unfolding str_len_def by (simp only: sum_list_triv) simp
qed

lemma str_len_append: "str_len (xs @ ys) = str_len xs + str_len ys"
  by (simp add: str_len_def)

lemma str_len_Cons: "str_len (c # cs) = utf8_len c + str_len cs" "str_len [] = 0"
  by (simp_all add: str_len_def)

lemma decimal_printable: "\<not> list_ex is_control (decimal n)"
  using digits_decimal [of _ n] by (fastforce simp: list_ex_iff is_control_def)

lemma id_ok_names:
  assumes "n < 100"
  shows "id_ok (stack_name n)" and "id_ok (split_name n)"
  using decimal_two [OF assms] decimal_printable [of n]
  by (simp_all add: id_ok_def stack_name_def split_name_def rstr_names str_len_append
      str_len_decimal is_control_def str_len_Cons utf8_len_def)

lemma next_node_number_fresh:
  assumes "length (node_ids t) \<le> MAX_LAYOUT_NODES"
  shows "stack_name (next_node_number t) \<notin> set (node_ids t)
    \<and> split_name (next_node_number t) \<notin> set (node_ids t) \<and> next_node_number t < 100"
proof -
  let ?taken = "\<lambda>n. stack_name n \<in> set (node_ids t) \<or> split_name n \<in> set (node_ids t)"
  let ?name = "\<lambda>n. if stack_name n \<in> set (node_ids t) then stack_name n else split_name n"
  let ?ns = "set [1..<MAX_LAYOUT_NODES + 2]"
  have "\<not> (\<forall>n \<in> ?ns. ?taken n)"
  proof
    assume "\<forall>n \<in> ?ns. ?taken n"
    then have "?name ` ?ns \<subseteq> set (node_ids t)" by auto
    moreover have "inj_on ?name ?ns" by (auto simp: inj_on_def)
    ultimately have "card ?ns \<le> card (set (node_ids t))"
      by (metis card_image card_mono List.finite_set)
    also have "\<dots> \<le> length (node_ids t)" by (rule card_length)
    finally show False using assms by (simp del: set_upt upt_Suc add: distinct_card)
  qed
  then obtain n where n: "find (\<lambda>n. stack_name n \<notin> collect_ids t \<and> split_name n \<notin> collect_ids t)
      [1..<MAX_LAYOUT_NODES + 2] = Some n"
    by (cases "find (\<lambda>n. stack_name n \<notin> collect_ids t \<and> split_name n \<notin> collect_ids t)
      [1..<MAX_LAYOUT_NODES + 2]") (auto simp: find_None_iff set_collect_ids)
  then have "next_node_number t = n" by (simp add: next_node_number_def)
  moreover obtain i where "i < 32" "n = Suc i" "stack_name n \<notin> collect_ids t"
    "split_name n \<notin> collect_ids t"
    using n by (auto simp: find_Some_iff MAX_LAYOUT_NODES_def simp del: upt_Suc)
  ultimately show ?thesis by (simp add: set_collect_ids)
qed

section \<open>Operations keep the layout valid\<close>

lemma commit_cases:
  assumes "commit l c = (l', r)"
  shows "(r = Inr () \<and> l' = c \<and> layout_ok c) \<or> (\<exists>e. r = Inl e \<and> l' = l \<and> validate c = Inl e)"
proof (cases "validate c")
  case (Inl e)
  then have "l' = l" "r = Inl e" using assms by (simp_all add: commit_def)
  then show ?thesis using Inl by simp
next
  case (Inr u)
  then show ?thesis using assms validate_ok_iff [of c] by (simp add: commit_def)
qed

lemma resize_split_ok:
  assumes "layout_ok l" and "resize_split l i r = (l', res)"
  shows "layout_ok l' \<and> panels l' = panels l \<and> (\<forall>e. res = Inl e \<longrightarrow> l' = l)"
proof (cases "ratio_ok r \<and> set_split (root l) i r \<noteq> None")
  case True
  then obtain t where t: "set_split (root l) i r = Some t" by blast
  have ok: "layout_ok (l\<lparr>root := t\<rparr>)"
    using assms(1) True set_split_Some [OF t] by (auto simp: layout_ok_def tree_ok_def panels_def)
  then have "validate (l\<lparr>root := t\<rparr>) = Inr ()" by (simp add: validate_ok_iff)
  then show ?thesis
    using assms(2) True t ok set_split_Some [OF t]
    by (auto simp: resize_split_def Let_def panels_def)
next
  case False
  then show ?thesis using assms by (auto simp: resize_split_def split: if_splits option.splits)
qed

lemma activate_panel_ok:
  assumes "layout_ok l" and "activate_panel l p = (l', res)"
  shows "layout_ok l' \<and> panels l' = panels l \<and> (\<forall>e. res = Inl e \<longrightarrow> l' = l)
    \<and> (res = Inr () \<longrightarrow> p \<in> set (active_panels (root l')))"
proof -
  obtain t found where t: "activate_in (root l) p = (t, found)" by fastforce
  from activate_in_effect [OF t] assms show ?thesis
    by (cases found) (auto simp: activate_panel_def t layout_ok_def tree_ok_def panels_def)
qed

lemma close_panel_cases:
  assumes "close_panel l p = (l', res)"
  shows "(\<exists>e. res = Inl e \<and> l' = l)
    \<or> (res = Inr () \<and> layout_ok l' \<and> p \<noteq> MessagePanel \<and> panels l' = filter (\<lambda>c. c \<noteq> p) (panels l))"
  using assms
  by (auto simp: close_panel_def panels_def dest!: commit_cases remove_panel_Some
      split: if_splits option.splits)

lemma reopen_panel_cases:
  assumes "reopen_panel l p = (l', res)"
  shows "(\<exists>e. res = Inl e \<and> l' = l) \<or> (res = Inr () \<and> l' = l \<and> p \<in> set (panels l))
    \<or> (res = Inr () \<and> layout_ok l' \<and> p \<notin> set (panels l) \<and> inserted p (panels l) (panels l')
       \<and> p \<in> set (active_panels (root l')))"
  using assms push_first_stack_effect [of "root l" p]
  by (auto simp: reopen_panel_def panels_def dest!: commit_cases split: if_splits)

lemma dock_panel_cases:
  assumes "dock_panel l p target placement = (l', res)"
  shows "(\<exists>e. res = Inl e \<and> l' = l)
    \<or> (res = Inr () \<and> layout_ok l' \<and> inserted p (filter (\<lambda>c. c \<noteq> p) (panels l)) (panels l')
       \<and> p \<in> set (active_panels (root l')))"
  using assms
  by (auto simp: dock_panel_def panels_def dest!: commit_cases remove_panel_Some dock_into_effect
      split: option.splits sum.splits)

lemma dock_panel_at_root_cases:
  assumes "dock_panel_at_root l p placement = (l', res)"
  shows "(\<exists>e. res = Inl e \<and> l' = l)
    \<or> (res = Inr () \<and> layout_ok l' \<and> inserted p (filter (\<lambda>c. c \<noteq> p) (panels l)) (panels l')
       \<and> p \<in> set (active_panels (root l')))"
proof (cases "remove_panel (root l) p")
  case None
  then show ?thesis using assms by (auto simp: dock_panel_at_root_def)
next
  case (Some t)
  note removed = remove_panel_Some [OF Some]
  show ?thesis
  proof (cases "placement = Tab")
    case True
    then show ?thesis
      using assms Some removed
      by (auto simp: dock_panel_at_root_def panels_def Let_def dest!: commit_cases dock_into_effect
          split: option.splits sum.splits)
  next
    case False
    then show ?thesis
      using assms Some removed split_beside_effect [OF False, of p t "next_node_number t"]
      by (auto simp: dock_panel_at_root_def panels_def Let_def dest!: commit_cases)
  qed
qed

lemma apply_edit_ok:
  assumes "layout_ok l"
  shows "layout_ok (fst (apply_edit l e))
    \<and> (MessagePanel \<in> set (panels l) \<longrightarrow> MessagePanel \<in> set (panels (fst (apply_edit l e))))"
proof (cases e)
  case (ResizeSplit i r)
  then show ?thesis
    using assms resize_split_ok [of l i r] by (cases "resize_split l i r") auto
next
  case (Maximize p)
  then show ?thesis using assms by (auto simp: maximize_def layout_ok_def panels_def)
next
  case Restore
  then show ?thesis using assms by (auto simp: restore_def layout_ok_def panels_def)
next
  case (ActivatePanel p)
  then show ?thesis
    using assms activate_panel_ok [of l p] by (cases "activate_panel l p") auto
next
  case (ClosePanel p)
  then show ?thesis
    using assms close_panel_cases [of l p] by (cases "close_panel l p") auto
next
  case (ReopenPanel p)
  then show ?thesis
    using assms reopen_panel_cases [of l p]
    by (cases "reopen_panel l p") (auto dest: inserted_set)
next
  case (DockPanel p target placement)
  then show ?thesis
    using assms dock_panel_cases [of l p target placement]
    by (cases "dock_panel l p target placement") (auto dest: inserted_set)
next
  case (DockPanelAtRoot p placement)
  then show ?thesis
    using assms dock_panel_at_root_cases [of l p placement]
    by (cases "dock_panel_at_root l p placement") (auto dest: inserted_set)
qed

lemma apply_edit_rejected:
  assumes "layout_ok l" and "apply_edit l e = (l', Inl err)"
  shows "l' = l"
  using assms resize_split_ok [OF assms(1)] activate_panel_ok [OF assms(1)] close_panel_cases
    reopen_panel_cases dock_panel_cases dock_panel_at_root_cases
  by (cases e) (fastforce simp: maximize_def restore_def split: if_splits)+

interpretation wb: machine "\<lambda>l e. fst (apply_edit l e)"
  "\<lambda>l. layout_ok l \<and> MessagePanel \<in> set (panels l)"
  by unfold_locales (simp add: apply_edit_ok)

lemma recovery_ok: "layout_ok recovery \<and> MessagePanel \<in> set (panels recovery)"
  by (simp add: recovery_def layout_ok_def tree_ok_def panels_def rstr_def id_ok_def is_control_def
      str_len_def utf8_len_def ratio_ok_def MIN_SPLIT_PERMILLE_def MAX_SPLIT_PERMILLE_def
      MAX_LAYOUT_DEPTH_def)

section \<open>Properties\<close>

text \<open>
  Validation decides the declarative condition. The traversal with its accumulated sets and
  counters accepts a layout exactly when the version is current, the tree is at most eight deep,
  node ids and panels occur once each, every id is printable and short, every ratio is within
  bounds, every stack has its active tab, and a maximized panel is in the tree; the ceilings on
  nodes and on panel occurrences are then met as well.
\<close>

theorem layout_validation_exact:
  "validate l = Inr () \<longleftrightarrow>
     layout_ok l \<and> length (node_ids (root l)) \<le> MAX_LAYOUT_NODES
     \<and> length (panels l) \<le> MAX_PANEL_OCCURRENCES"
  using tree_small [of "root l"]
  by (auto simp: validate_ok_iff layout_ok_def panels_def MAX_LAYOUT_NODES_def
      MAX_PANEL_OCCURRENCES_def)

text \<open>
  C40: every sequence of edits of the recovery layout, accepted and rejected ones alike, ends in a
  layout that validates and still has the Message panel: the composer cannot be edited away.
\<close>

theorem workbench_runs_stay_valid:
  "validate (foldl (\<lambda>l e. fst (apply_edit l e)) recovery es) = Inr ()
   \<and> MessagePanel \<in> set (panels (foldl (\<lambda>l e. fst (apply_edit l e)) recovery es))"
  using wb.run_inv [OF recovery_ok, of es] by (simp add: validate_ok_iff)

text \<open>
  Edits are transactional. On a valid layout an edit that returns an error leaves the layout
  exactly as it was, also where the code edits in place before it validates.
\<close>

theorem rejected_edit_changes_nothing:
  assumes "validate l = Inr ()" and "apply_edit l e = (l', Inl err)"
  shows "l' = l"
  using assms apply_edit_rejected by (simp add: validate_ok_iff)

theorem rejected_edit_changes_nothing_witness:
  "fst (apply_edit recovery (ClosePanel MessagePanel)) = recovery"
proof -
  have "apply_edit recovery (ClosePanel MessagePanel) = (recovery, Inl MessageStaysReachable)"
    by (simp add: close_panel_def)
  from rejected_edit_changes_nothing [OF _ this] show ?thesis
    using recovery_ok by (simp add: validate_ok_iff close_panel_def)
qed

lemma dock_panel_error:
  assumes "layout_ok l" and "dock_panel l p target placement = (l', Inl e)"
  shows "e = DockOnlyPanel \<and> set (panels l) \<subseteq> {p}
    \<or> (\<exists>t. remove_panel (root l) p = Some t \<and> \<not> contains_stack t target) \<and> e = UnknownStack target
    \<or> e = NestedTooDeeply"
proof (cases "remove_panel (root l) p")
  case None
  then have "e = DockOnlyPanel" using assms(2) by (simp add: dock_panel_def)
  moreover have "set (panels l) \<subseteq> {p}"
    using None by (auto simp: remove_panel_None panels_def filter_empty_conv)
  ultimately show ?thesis by simp
next
  case (Some t)
  note removed = remove_panel_Some [OF Some]
  have ok: "tree_ok t" using assms(1) tree_ok_remove [OF _ Some] by (simp add: layout_ok_def)
  let ?n = "next_node_number t"
  show ?thesis
  proof (cases "dock_into t p target placement ?n")
    case (Inl e')
    then show ?thesis
      using assms(2) Some dock_into_error [OF Inl] by (auto simp: dock_panel_def)
  next
    case (Inr u)
    let ?c = "\<lparr>version = version l, root = u, maximized = maximized l\<rparr>"
    note docked = dock_into_effect [OF Inr]
    have fresh: "stack_name ?n \<notin> set (node_ids t)" "split_name ?n \<notin> set (node_ids t)" "?n < 100"
      using next_node_number_fresh [of t] tree_small(1) [OF ok] by (auto simp: MAX_LAYOUT_NODES_def)
    have "distinct (node_ids u)"
    proof -
      have "distinct (stack_name ?n # split_name ?n # node_ids t)"
        using fresh ok by (simp add: tree_ok_def)
      moreover have "mset (node_ids u) = mset (node_ids t)
          \<or> mset (node_ids u) = mset (stack_name ?n # split_name ?n # node_ids t)"
        using docked by (auto simp: dock_names_def)
      ultimately show ?thesis
        using ok by (metis mset_eq_imp_distinct_iff tree_ok_def)
    qed
    moreover have "shape_ok u"
      using docked ok fresh by (simp add: id_ok_names tree_ok_def)
    moreover have "distinct (collect_panels u)"
      using docked removed ok inserted_distinct [of p "collect_panels t" "collect_panels u"]
      by (auto simp: tree_ok_def)
    ultimately have u: "tree_ok u" by (simp add: tree_ok_def)
    have "q \<in> set (panels ?c)" if "maximized l = Some q" for q
      using that assms(1) docked removed inserted_set [of p "collect_panels t" "collect_panels u"]
      by (auto simp: layout_ok_def panels_def)
    then have "validate ?c = (if tree_height u \<le> MAX_LAYOUT_DEPTH then Inr ()
        else Inl NestedTooDeeply)"
      using validate_tree_ok [of ?c] u assms(1) by (simp add: layout_ok_def)
    then show ?thesis
      using assms(2) Some Inr by (auto simp: dock_panel_def commit_def split: if_splits)
  qed
qed

text \<open>Docking moves exactly one panel. On a valid layout a dock that succeeds puts the panel at
  one place among the others, which keep their order, and brings it to the front; one that is
  refused changes nothing, and only because the panel is the only one, the target stack is not
  there once the panel is lifted out, or the tree would be too deep. It is never refused for a
  clash of the node ids it invents, nor for the number of nodes or panels.
\<close>

theorem dock_moves_one_panel:
  assumes "validate l = Inr ()" and "dock_panel l p target placement = (l', res)"
  shows "case res of
      Inr _ \<Rightarrow> (\<exists>us vs. filter (\<lambda>c. c \<noteq> p) (panels l) = us @ vs \<and> panels l' = us @ p # vs)
        \<and> p \<in> set (active_panels (root l'))
    | Inl e \<Rightarrow> l' = l \<and>
        (e = DockOnlyPanel \<and> set (panels l) \<subseteq> {p}
         \<or> e = UnknownStack target
           \<and> (\<exists>t. remove_panel (root l) p = Some t \<and> \<not> contains_stack t target)
         \<or> e = NestedTooDeeply)"
proof (cases res)
  case (Inl e)
  then show ?thesis
    using dock_panel_cases [OF assms(2)] dock_panel_error [of l p target placement l' e] assms
    by (auto simp: validate_ok_iff)
next
  case (Inr u)
  then show ?thesis
    using dock_panel_cases [OF assms(2)] by (auto simp: inserted_def)
qed

theorem dock_moves_one_panel_witness:
  "\<exists>l'. dock_panel recovery Activity (rstr ''stack-message'') DockRight = (l', Inr ())
     \<and> Activity \<in> set (active_panels (root l'))"
proof -
  let ?r = "dock_panel recovery Activity (rstr ''stack-message'') DockRight"
  obtain l' res where r: "?r = (l', res)" by fastforce
  have "res = Inr ()"
    using r by (simp add: dock_panel_def recovery_def rstr_def next_node_number_def
        MAX_LAYOUT_NODES_def stack_name_def split_name_def decimal.simps split_beside_def
        commit_def validate_def Let_def no_facts_def MAX_LAYOUT_DEPTH_def ratio_ok_def see_id_def
        MIN_SPLIT_PERMILLE_def MAX_SPLIT_PERMILLE_def MAX_PANEL_OCCURRENCES_def str_len_def
        utf8_len_def is_control_def upt_rec)
  then show ?thesis
    using r dock_moves_one_panel [of recovery, OF _ r] recovery_ok by (simp add: validate_ok_iff)
qed

text \<open>An opened panel is in front. Activating a panel, reopening a closed one and docking one,
  at a stack or at the root, leave it the active tab of its stack whenever they succeed.
\<close>

theorem opened_panel_is_shown:
  assumes "validate l = Inr ()" and "apply_edit l e = (l', Inr ())"
    and "e = ActivatePanel p \<or> (e = ReopenPanel p \<and> p \<notin> set (panels l))
      \<or> e = DockPanel p target placement \<or> e = DockPanelAtRoot p placement"
  shows "p \<in> set (active_panels (root l'))"
  using assms activate_panel_ok [of l p l' "Inr ()"] reopen_panel_cases [of l p l' "Inr ()"]
    dock_panel_cases [of l p target placement l' "Inr ()"]
    dock_panel_at_root_cases [of l p placement l' "Inr ()"]
  by (auto simp: validate_ok_iff)

theorem opened_panel_is_shown_witness:
  "Usage \<in> set (active_panels (root (fst (apply_edit recovery (ReopenPanel Usage)))))"
proof -
  have "apply_edit recovery (ReopenPanel Usage) =
      (fst (apply_edit recovery (ReopenPanel Usage)), Inr ())"
    by (simp add: reopen_panel_def panels_def recovery_def commit_def validate_def Let_def
        no_facts_def MAX_LAYOUT_DEPTH_def ratio_ok_def see_id_def MIN_SPLIT_PERMILLE_def
        MAX_SPLIT_PERMILLE_def MAX_PANEL_OCCURRENCES_def str_len_def utf8_len_def is_control_def
        rstr_def MAX_LAYOUT_NODES_def)
  from opened_panel_is_shown [OF _ this, of Usage] show ?thesis
    using recovery_ok by (simp add: validate_ok_iff) (simp add: recovery_def panels_def)
qed

lemma read_layout_valid: "read_layout decode f = Inr (Some l) \<Longrightarrow> validate l = Inr ()"
  by (auto simp: read_layout_def from_inert_toml_def res_simps split: file_state.splits if_splits)

lemma resolve_default_valid: "validate (layout (resolve_default decode f w)) = Inr ()"
  using recovery_ok
  by (auto simp: resolve_default_def validate_ok_iff dest: read_layout_valid
      split: sum.splits option.splits)

text \<open>Whatever the layout files hold, missing, unreadable, oversized, undecodable or an invalid
  tree, and whatever the decoder makes of them, the layout the application starts with validates.
\<close>

theorem resolved_layout_always_valid:
  "validate (layout (resolve decode conv_file default_file)) = Inr ()"
  using resolve_default_valid
  by (auto simp: resolve_def dest: read_layout_valid split: sum.splits option.splits)

text \<open>The precedence of stored layouts. A layout saved for a Conversation is what that
  Conversation resolves to, without a warning and whatever the default file holds; once its file
  is cleared a layout saved as default is what it resolves to. The codec is assumed to round-trip
  the two layouts within the size bound, as serde and toml document.
\<close>

theorem saved_layout_resolves:
  assumes "decode (encode l) = Some l" and "decode (encode d) = Some d"
    and "length (encode l) \<le> MAX_LAYOUT_BYTES" and "length (encode d) \<le> MAX_LAYOUT_BYTES"
    and "save_default encode True disk d = (disk1, Inr ())"
    and "save_conversation encode digest True disk1 name l = (disk2, Inr ())"
    and "clear_conversation digest True disk2 name = (disk3, Inr ())"
  shows "resolve_stored decode digest disk2 name
       = \<lparr>layout = l, source = FromConversation, warning = None\<rparr>
     \<and> resolve_stored decode digest disk3 name
       = \<lparr>layout = d, source = FromUserDefault, warning = None\<rparr>"
proof -
  from assms(5) have d: "validate d = Inr ()" "disk1 = disk(DefaultFile := FileBytes (encode d))"
    by (auto simp: save_default_def write_layout_def to_inert_toml_def res_simps split: sum.splits)
  from assms(6) have l: "validate l = Inr ()"
    "disk2 = disk1(ConversationFile (digest name) := FileBytes (encode l))"
    by (auto simp: save_conversation_def conversation_file_def write_layout_def to_inert_toml_def
        res_simps split: sum.splits)
  from assms(7) have "disk3 = disk2(ConversationFile (digest name) := NotFound)"
    by (simp add: clear_conversation_def conversation_file_def remove_optional_def)
  then show ?thesis
    using d l assms(1-4)
    by (simp add: resolve_stored_def resolve_def resolve_default_def read_layout_def
        from_inert_toml_def conversation_file_def not_less)
qed

theorem saved_layout_resolves_witness:
  "source (resolve_stored (\<lambda>b. if b = [1] then Some recovery else None) id
     (fst (save_conversation (\<lambda>_. [1]) id True (\<lambda>_. NotFound) [97] recovery)) [97])
   = FromConversation"
proof -
  let ?dec = "\<lambda>b. if b = [1 :: u8] then Some recovery else None"
  let ?enc = "\<lambda>_ :: workbench_layout. [1 :: u8]"
  have ok: "validate recovery = Inr ()" using recovery_ok by (simp add: validate_ok_iff)
  let ?d1 = "(\<lambda>_. NotFound)(DefaultFile := FileBytes [1])"
  let ?d2 = "?d1(ConversationFile [97] := FileBytes [1])"
  have "source (resolve_stored ?dec id ?d2 [97]) = FromConversation"
    using saved_layout_resolves [where decode = ?dec and encode = ?enc and l = recovery
        and d = recovery and disk = "\<lambda>_. NotFound" and ?disk1.0 = ?d1 and ?disk2.0 = ?d2
        and digest = id and name = "[97]" and ?disk3.0 = "?d2(ConversationFile [97] := NotFound)"]
    by (simp add: ok MAX_LAYOUT_BYTES_def save_default_def save_conversation_def write_layout_def
        to_inert_toml_def conversation_file_def clear_conversation_def remove_optional_def)
  then show ?thesis
    by (simp add: ok save_conversation_def write_layout_def to_inert_toml_def
        conversation_file_def resolve_stored_def resolve_def read_layout_def from_inert_toml_def
        MAX_LAYOUT_BYTES_def)
qed

end
