(* ===== verification/Outbound_Guard.thy ===== *)
theory Outbound_Guard
  imports Prelude "HOL-Library.List_Lexorder"
begin

text \<open>
  The gate for data leaving the program, \<open>src/src/outbound.rs\<close>: requests and their redacted
  reviews, the intersected policy ceilings, saved decisions per recipient and data class, and the
  dispatch that consults them before the transport sees a byte. The content hash, the origin of
  a web address, the audit sink, the private-state document I/O, the approval controller and the
  transport are parameters; \<open>outbound_world\<close> holds what the dispatch changes.
\<close>

section \<open>Data\<close>

datatype recipient_kind =
  WebSearch | McpStdio | McpHttp | ExternalAgent | FocusedService | WebFetch | Browser

fun recipient_kind_str :: "recipient_kind \<Rightarrow> rust_string" where
  "recipient_kind_str WebSearch = rstr ''web_search''"
| "recipient_kind_str McpStdio = rstr ''mcp_stdio''"
| "recipient_kind_str McpHttp = rstr ''mcp_http''"
| "recipient_kind_str ExternalAgent = rstr ''external_agent''"
| "recipient_kind_str FocusedService = rstr ''focused_service''"
| "recipient_kind_str WebFetch = rstr ''web_fetch''"
| "recipient_kind_str Browser = rstr ''browser''"

datatype data_class =
  PromptText | XanaSummary | SelectedMessages | SelectedFileContents | SelectedArtifacts
  | WorkspaceMetadata

text \<open>The derived order is the declaration order.\<close>

fun data_class_index :: "data_class \<Rightarrow> nat" where
  "data_class_index PromptText = 0"
| "data_class_index XanaSummary = 1"
| "data_class_index SelectedMessages = 2"
| "data_class_index SelectedFileContents = 3"
| "data_class_index SelectedArtifacts = 4"
| "data_class_index WorkspaceMetadata = 5"

lemma data_class_index_inject [simp]: "data_class_index a = data_class_index b \<longleftrightarrow> a = b"
  by (cases a; cases b) simp_all

instantiation data_class :: linorder
begin

definition less_eq_data_class :: "data_class \<Rightarrow> data_class \<Rightarrow> bool" where
  "less_eq_data_class a b = (data_class_index a \<le> data_class_index b)"

definition less_data_class :: "data_class \<Rightarrow> data_class \<Rightarrow> bool" where
  "less_data_class a b = (data_class_index a < data_class_index b)"

instance
  by standard (auto simp: less_eq_data_class_def less_data_class_def)

end

fun data_class_str :: "data_class \<Rightarrow> rust_string" where
  "data_class_str PromptText = rstr ''prompt_text''"
| "data_class_str XanaSummary = rstr ''xana_summary''"
| "data_class_str SelectedMessages = rstr ''selected_messages''"
| "data_class_str SelectedFileContents = rstr ''selected_file_contents''"
| "data_class_str SelectedArtifacts = rstr ''selected_artifacts''"
| "data_class_str WorkspaceMetadata = rstr ''workspace_metadata''"

text \<open>A \<open>BTreeSet\<close> of classes is the ascending list of its elements.\<close>

definition class_set :: "data_class list \<Rightarrow> data_class list" where
  "class_set xs = sort (remdups xs)"

datatype transport_failure = Unavailable | Rejected | TimedOut | TransportCancelled | Protocol

datatype decision_source =
  UserTurn | PolicyCeiling | SavedDecision | UserOnce | UserSaved | ApprovalUnavailable

datatype outbound_error =
  InvalidIdentityMaterial | InvalidIdentityDigest
| UnsafeReviewText rust_string nat
| InvalidItemCount nat nat
| ItemTooLarge nat nat
| TotalTooLarge nat nat
| OutboundDenied decision_source
| OutboundCancelled
| SavedDecisionLimit
| AuditFailed
| Clock
| StateFailed
| TransportFailed transport_failure

record recipient_identity =
  ri_kind :: recipient_kind
  ri_connection :: rust_string
  ri_destination :: rust_string
  ri_digest :: rust_string

record outbound_item =
  oi_class :: data_class
  oi_label :: rust_string
  oi_reference :: "rust_string option"
  oi_provenance :: rust_string
  oi_digest :: rust_string
  oi_bytes :: "u8 list"

record item_review =
  ir_class :: data_class
  ir_label :: rust_string
  ir_reference :: "rust_string option"
  ir_provenance :: rust_string
  ir_byte_len :: nat
  ir_digest :: rust_string

record public_web_review =
  pw_route :: rust_string
  pw_persisted_allow :: bool

record approval_request =
  ar_public_web :: "public_web_review option"
  ar_operation :: uuid
  ar_recipient :: recipient_identity
  ar_purpose :: rust_string
  ar_classes :: "data_class list"
  ar_items :: "item_review list"
  ar_total_bytes :: nat

record outbound_request =
  or_operation :: uuid
  or_recipient :: recipient_identity
  or_purpose :: rust_string
  or_items :: "outbound_item list"
  or_total_bytes :: nat

definition MAX_ITEMS :: nat where "MAX_ITEMS = 64"
definition MAX_ITEM_BYTES :: nat where "MAX_ITEM_BYTES = 4 * 1024 * 1024"
definition MAX_TOTAL_BYTES :: nat where "MAX_TOTAL_BYTES = 20 * 1024 * 1024 + 64 * 1024"
definition MAX_SAVED_DECISIONS :: nat where "MAX_SAVED_DECISIONS = 1024"
definition MAX_AUDIT_RECORDS :: nat where "MAX_AUDIT_RECORDS = 512"
definition MAX_IDENTITY_MATERIAL_BYTES :: nat where "MAX_IDENTITY_MATERIAL_BYTES = 16 * 1024"
definition MAX_CONNECTION_BYTES :: nat where "MAX_CONNECTION_BYTES = 128"
definition MAX_DESTINATION_BYTES :: nat where "MAX_DESTINATION_BYTES = 2048"
definition MAX_LABEL_BYTES :: nat where "MAX_LABEL_BYTES = 256"
definition MAX_REFERENCE_BYTES :: nat where "MAX_REFERENCE_BYTES = 1024"
definition MAX_PROVENANCE_BYTES :: nat where "MAX_PROVENANCE_BYTES = 512"
definition MAX_PURPOSE_BYTES :: nat where "MAX_PURPOSE_BYTES = 512"

section \<open>Construction and review\<close>

definition validate_review_text :: "rust_string \<Rightarrow> rust_string \<Rightarrow> nat \<Rightarrow> outbound_error + unit" where
  "validate_review_text field v limit =
     (if trim v = [] \<or> str_len v > limit \<or> list_ex is_control v
      then Inl (UnsafeReviewText field limit) else Inr ())"

definition new_recipient ::
  "(u8 list \<Rightarrow> rust_string) \<Rightarrow> recipient_kind \<Rightarrow> rust_string \<Rightarrow> rust_string \<Rightarrow> u8 list
    \<Rightarrow> outbound_error + recipient_identity" where
  "new_recipient hash kind connection destination material =
     res_bind (validate_review_text (rstr ''recipient connection'') connection MAX_CONNECTION_BYTES)
     (\<lambda>_. res_bind (validate_review_text (rstr ''recipient destination'') destination
         MAX_DESTINATION_BYTES)
     (\<lambda>_. if material = [] \<or> length material > MAX_IDENTITY_MATERIAL_BYTES
          then Inl InvalidIdentityMaterial
          else Inr \<lparr>ri_kind = kind, ri_connection = connection, ri_destination = destination,
            ri_digest = hash (utf8_bytes (recipient_kind_str kind) @ [0] @ utf8_bytes connection
              @ [0] @ utf8_bytes destination @ [0] @ material)\<rparr>))"

definition new_item ::
  "(u8 list \<Rightarrow> rust_string) \<Rightarrow> data_class \<Rightarrow> rust_string \<Rightarrow> rust_string option \<Rightarrow> rust_string
    \<Rightarrow> u8 list \<Rightarrow> outbound_error + outbound_item" where
  "new_item hash class lab reference provenance bytes =
     res_bind (validate_review_text (rstr ''outbound item label'') lab MAX_LABEL_BYTES)
     (\<lambda>_. res_bind (validate_review_text (rstr ''outbound item provenance'') provenance
         MAX_PROVENANCE_BYTES)
     (\<lambda>_. res_bind (case reference of
           Some r \<Rightarrow> validate_review_text (rstr ''outbound item reference'') r MAX_REFERENCE_BYTES
         | None \<Rightarrow> Inr ())
     (\<lambda>_. if length bytes > MAX_ITEM_BYTES then Inl (ItemTooLarge (length bytes) MAX_ITEM_BYTES)
          else Inr \<lparr>oi_class = class, oi_label = lab, oi_reference = reference,
            oi_provenance = provenance, oi_digest = hash bytes, oi_bytes = bytes\<rparr>)))"

definition item_review_of :: "outbound_item \<Rightarrow> item_review" where
  "item_review_of i =
     \<lparr>ir_class = oi_class i, ir_label = oi_label i, ir_reference = oi_reference i,
      ir_provenance = oi_provenance i, ir_byte_len = length (oi_bytes i), ir_digest = oi_digest i\<rparr>"

text \<open>The sum of the item sizes in a \<open>usize\<close>, None where the addition overflows.\<close>

fun checked_total :: "usize \<Rightarrow> nat list \<Rightarrow> usize option" where
  "checked_total acc [] = Some acc"
| "checked_total acc (n # ns) =
     (case checked_add acc (of_nat n) of None \<Rightarrow> None | Some t \<Rightarrow> checked_total t ns)"

definition new_request ::
  "uuid \<Rightarrow> recipient_identity \<Rightarrow> rust_string \<Rightarrow> outbound_item list \<Rightarrow> outbound_error + outbound_request"
where
  "new_request operation recipient purpose items =
     res_bind (validate_review_text (rstr ''outbound purpose'') purpose MAX_PURPOSE_BYTES)
     (\<lambda>_. if items = [] \<or> length items > MAX_ITEMS
          then Inl (InvalidItemCount (length items) MAX_ITEMS)
          else (case checked_total 0 (map (\<lambda>i. length (oi_bytes i)) items) of
             None \<Rightarrow> Inl (TotalTooLarge (2 ^ 64 - 1) MAX_TOTAL_BYTES)
           | Some bytes \<Rightarrow>
               if unat bytes > MAX_TOTAL_BYTES
               then Inl (TotalTooLarge (unat bytes) MAX_TOTAL_BYTES)
               else Inr \<lparr>or_operation = operation, or_recipient = recipient,
                 or_purpose = purpose, or_items = items, or_total_bytes = unat bytes\<rparr>))"

definition request_classes :: "outbound_request \<Rightarrow> data_class list" where
  "request_classes r = class_set (map oi_class (or_items r))"

definition review_of :: "outbound_request \<Rightarrow> approval_request" where
  "review_of r =
     \<lparr>ar_public_web = None, ar_operation = or_operation r, ar_recipient = or_recipient r,
      ar_purpose = or_purpose r, ar_classes = request_classes r,
      ar_items = map item_review_of (or_items r), ar_total_bytes = or_total_bytes r\<rparr>"

definition public_web_scope :: "approval_request \<Rightarrow> public_web_review option" where
  "public_web_scope r =
     (if ri_kind (ar_recipient r) \<in> {WebFetch, WebSearch} \<and> ar_classes r = [PromptText]
      then ar_public_web r else None)"

definition for_operation :: "approval_request \<Rightarrow> uuid \<Rightarrow> approval_request" where
  "for_operation r operation = r\<lparr>ar_operation := operation\<rparr>"

record policy_layers =
  connection_allowed :: "data_class set"
  user_ceiling :: "data_class set"
  profile_allowed :: "data_class set"
  conversation_allowed :: "data_class set option"

definition effective_classes :: "policy_layers \<Rightarrow> data_class set" where
  "effective_classes p =
     (let e = connection_allowed p;
          e = e \<inter> user_ceiling p;
          e = e \<inter> profile_allowed p
      in case conversation_allowed p of Some c \<Rightarrow> e \<inter> c | None \<Rightarrow> e)"

section \<open>Reviewed approvals\<close>

datatype approval_decision =
  AllowPublicWebTurn | DenyOnce | AllowOnce | SaveDeny | SaveAllow | Cancel

record reviewed_approval =
  ra_review :: approval_request
  ra_decision :: approval_decision

definition new_reviewed :: "approval_request \<Rightarrow> approval_decision \<Rightarrow> reviewed_approval" where
  "new_reviewed review decision =
     \<lparr>ra_review = review\<lparr>ar_public_web := None\<rparr>,
      ra_decision = (if decision = AllowPublicWebTurn \<and> public_web_scope review = None
        then DenyOnce else decision)\<rparr>"

definition reviewed_decide :: "reviewed_approval \<Rightarrow> approval_request \<Rightarrow> approval_decision" where
  "reviewed_decide a request = (if ra_review a = request then ra_decision a else DenyOnce)"

definition permits_public_web :: "reviewed_approval \<Rightarrow> bool" where
  "permits_public_web a = (ra_decision a = AllowPublicWebTurn)"

section \<open>Audit\<close>

datatype audit_stage =
  Requested | Allowed decision_source | Denied decision_source | CancelledStage | Sending
  | Succeeded | Failed

record audit_event =
  ae_operation :: uuid
  ae_kind :: recipient_kind
  ae_connection :: rust_string
  ae_destination :: rust_string
  ae_digest :: rust_string
  ae_classes :: "data_class list"
  ae_item_count :: nat
  ae_reference_count :: nat
  ae_total_bytes :: nat
  ae_stage :: audit_stage

definition arrow :: rust_string where "arrow = rstr '' -> ''"

text \<open>\<open>split(" -> ")\<close>.\<close>

function split_arrow :: "rust_string \<Rightarrow> rust_string list" where
  "split_arrow s =
     (if s = [] then [[]]
      else if take 4 s = arrow then [] # split_arrow (drop 4 s)
      else case split_arrow (tl s) of
             [] \<Rightarrow> [[hd s]]
           | w # ws \<Rightarrow> (hd s # w) # ws)"
  by pat_completeness auto
termination by (relation "measure length") (auto simp: neq_Nil_conv)

declare split_arrow.simps [simp del]

fun join_arrow :: "rust_string list \<Rightarrow> rust_string" where
  "join_arrow [] = []"
| "join_arrow [w] = w"
| "join_arrow (w # v # ws) = w @ arrow @ join_arrow (v # ws)"

text \<open>\<open>origin\<close> is the origin of a string that parses as an address.\<close>

definition audit_destination ::
  "(rust_string \<Rightarrow> rust_string option) \<Rightarrow> recipient_identity \<Rightarrow> rust_string" where
  "audit_destination origin r =
     (if ri_kind r \<in> {WebFetch, WebSearch}
      then join_arrow (List.map_filter origin (split_arrow (ri_destination r)))
      else ri_destination r)"

definition audit_event_of ::
  "(rust_string \<Rightarrow> rust_string option) \<Rightarrow> approval_request \<Rightarrow> audit_stage \<Rightarrow> audit_event" where
  "audit_event_of origin review stage =
     \<lparr>ae_operation = ar_operation review, ae_kind = ri_kind (ar_recipient review),
      ae_connection = ri_connection (ar_recipient review),
      ae_destination = audit_destination origin (ar_recipient review),
      ae_digest = ri_digest (ar_recipient review), ae_classes = ar_classes review,
      ae_item_count = length (ar_items review),
      ae_reference_count = length (filter (\<lambda>i. ir_reference i \<noteq> None) (ar_items review)),
      ae_total_bytes = ar_total_bytes review, ae_stage = stage\<rparr>"

text \<open>The durable journal keeps the latest \<open>MAX_AUDIT_RECORDS\<close> records.\<close>

definition journal_append :: "'r \<Rightarrow> 'r list \<Rightarrow> 'r list" where
  "journal_append record records =
     (if length records \<ge> MAX_AUDIT_RECORDS
      then drop (length records - MAX_AUDIT_RECORDS + 1) records else records) @ [record]"

section \<open>Saved decisions\<close>

datatype saved_decision = SavedAllow | SavedDeny

record decision_record =
  dr_digest :: rust_string
  dr_class :: data_class
  dr_decision :: saved_decision
  dr_updated :: u64

type_synonym decision_document = "(rust_string, decision_record) btree"

definition decision_key :: "rust_string \<Rightarrow> data_class \<Rightarrow> rust_string" where
  "decision_key digest class = digest @ rstr '':'' @ data_class_str class"

definition saved_for ::
  "decision_document \<Rightarrow> recipient_identity \<Rightarrow> data_class list \<Rightarrow> saved_decision option list" where
  "saved_for doc r classes =
     map (\<lambda>c. case bt_get doc (decision_key (ri_digest r) c) of
            Some rec \<Rightarrow>
              if dr_digest rec = ri_digest r \<and> dr_class rec = c then Some (dr_decision rec) else None
          | None \<Rightarrow> None) classes"

datatype disposition = DispSavedAllow | DispSavedDeny | ReviewRequired

definition disposition_of ::
  "decision_document \<Rightarrow> recipient_identity \<Rightarrow> data_class list \<Rightarrow> disposition" where
  "disposition_of doc r cs =
     (let saved = saved_for doc r (class_set cs)
      in if list_ex (\<lambda>d. d = Some SavedDeny) saved then DispSavedDeny
         else if list_all (\<lambda>d. d = Some SavedAllow) saved then DispSavedAllow
         else ReviewRequired)"

definition is_lower_hex :: "nat \<Rightarrow> bool" where
  "is_lower_hex c = (48 \<le> c \<and> c \<le> 57 \<or> 97 \<le> c \<and> c \<le> 102)"

definition validate_identity_digest :: "rust_string \<Rightarrow> outbound_error + unit" where
  "validate_identity_digest d =
     (if str_len d \<noteq> 64 \<or> \<not> list_all is_lower_hex d then Inl InvalidIdentityDigest else Inr ())"

definition insert_decisions ::
  "rust_string \<Rightarrow> saved_decision \<Rightarrow> u64 \<Rightarrow> data_class list \<Rightarrow> decision_document \<Rightarrow> decision_document"
where
  "insert_decisions digest d now classes doc =
     fold (\<lambda>c doc. bt_insert (decision_key digest c)
       \<lparr>dr_digest = digest, dr_class = c, dr_decision = d, dr_updated = now\<rparr> doc) classes doc"

definition save_update ::
  "recipient_identity \<Rightarrow> data_class list \<Rightarrow> saved_decision \<Rightarrow> u64 \<Rightarrow> decision_document
    \<Rightarrow> outbound_error + decision_document" where
  "save_update r classes d now doc =
     (let new = length (filter (\<lambda>c. \<not> bt_contains doc (decision_key (ri_digest r) c)) classes)
      in if length doc + new > MAX_SAVED_DECISIONS then Inl SavedDecisionLimit
         else Inr (insert_decisions (ri_digest r) d now classes doc))"

definition revoke_digest ::
  "rust_string \<Rightarrow> data_class \<Rightarrow> decision_document \<Rightarrow> outbound_error + decision_document \<times> bool"
where
  "revoke_digest digest class doc =
     res_bind (validate_identity_digest digest)
       (\<lambda>_. Inr (bt_remove (decision_key digest class) doc,
                 bt_contains doc (decision_key digest class)))"

definition list_decisions :: "decision_document \<Rightarrow> decision_record list" where
  "list_decisions doc = map snd doc"

section \<open>Dispatch\<close>

text \<open>
  The environment of one dispatch: whether the n-th audit attempt is recorded, what the clock
  gives, whether the decision document can be read and written, what another writer does to it
  while the controller decides, the controller, and the transport.
\<close>

record 'r dispatch_env =
  env_origin :: "rust_string \<Rightarrow> rust_string option"
  env_audit_ok :: "nat \<Rightarrow> bool"
  env_clock :: "u64 option"
  env_readable :: bool
  env_writable :: bool
  env_meanwhile :: "decision_document \<Rightarrow> decision_document"
  env_controller :: "(approval_request \<Rightarrow> approval_decision) option"
  env_transport :: "recipient_identity \<Rightarrow> outbound_item list \<Rightarrow> transport_failure + 'r"

record outbound_world =
  audit_log :: "audit_event list"
  audit_attempts :: nat
  decisions :: decision_document
  sent :: "(recipient_identity \<times> outbound_item list) list"

type_synonym 'a outbound = "(outbound_world, outbound_error, 'a) effect"

definition record_audit :: "'r dispatch_env \<Rightarrow> approval_request \<Rightarrow> audit_stage \<Rightarrow> unit outbound" where
  "record_audit env review stage w =
     (let ok = env_audit_ok env (audit_attempts w);
          w = w\<lparr>audit_attempts := Suc (audit_attempts w)\<rparr>
      in if ok
         then (w\<lparr>audit_log := audit_log w @ [audit_event_of (env_origin env) review stage]\<rparr>, Inr ())
         else (w, Inl AuditFailed))"

definition ignore_error :: "unit outbound \<Rightarrow> unit outbound" where
  "ignore_error m w = (fst (m w), Inr ())"

definition saved_decisions ::
  "'r dispatch_env \<Rightarrow> recipient_identity \<Rightarrow> data_class list \<Rightarrow> saved_decision option list outbound"
where
  "saved_decisions env r classes w =
     (if env_readable env then (w, Inr (saved_for (decisions w) r classes))
      else (w, Inl StateFailed))"

definition save_decisions ::
  "'r dispatch_env \<Rightarrow> recipient_identity \<Rightarrow> data_class list \<Rightarrow> saved_decision \<Rightarrow> unit outbound" where
  "save_decisions env r classes d w =
     (case env_clock env of
        None \<Rightarrow> (w, Inl Clock)
      | Some now \<Rightarrow>
          if \<not> env_readable env then (w, Inl StateFailed)
          else (case save_update r classes d now (decisions w) of
                 Inl e \<Rightarrow> (w, Inl e)
               | Inr doc \<Rightarrow>
                   if env_writable env then (w\<lparr>decisions := doc\<rparr>, Inr ()) else (w, Inl StateFailed)))"

text \<open>Saving after a decision: a failure is audited (best effort) and returned.\<close>

definition save_or_fail ::
  "'r dispatch_env \<Rightarrow> approval_request \<Rightarrow> recipient_identity \<Rightarrow> data_class list \<Rightarrow> saved_decision
    \<Rightarrow> unit outbound" where
  "save_or_fail env review r classes d w =
     (case save_decisions env r classes d w of
        (w', Inr _) \<Rightarrow> (w', Inr ())
      | (w', Inl e) \<Rightarrow> (fst (ignore_error (record_audit env review Failed) w'), Inl e))"

definition wait_for_controller :: "'r dispatch_env \<Rightarrow> unit outbound" where
  "wait_for_controller env w = (w\<lparr>decisions := env_meanwhile env (decisions w)\<rparr>, Inr ())"

text \<open>
  The choice of the decision source: the source and whether its \<open>Allowed\<close> event is recorded
  already. Every refusal is an error of this step.
\<close>

definition deny :: "'r dispatch_env \<Rightarrow> approval_request \<Rightarrow> decision_source \<Rightarrow> 'a outbound" where
  "deny env review src =
     eff_bind (record_audit env review (Denied src)) (\<lambda>_. eff_fail (OutboundDenied src))"

definition controller_source ::
  "'r dispatch_env \<Rightarrow> approval_request \<Rightarrow> recipient_identity \<Rightarrow> data_class list
    \<Rightarrow> approval_decision \<Rightarrow> (decision_source \<times> bool) outbound" where
  "controller_source env review r classes d =
     (case d of
        DenyOnce \<Rightarrow> deny env review UserOnce
      | SaveDeny \<Rightarrow>
          eff_bind (record_audit env review (Denied UserSaved))
          (\<lambda>_. eff_bind (save_or_fail env review r classes SavedDeny)
          (\<lambda>_. eff_fail (OutboundDenied UserSaved)))
      | Cancel \<Rightarrow>
          eff_bind (record_audit env review CancelledStage) (\<lambda>_. eff_fail OutboundCancelled)
      | AllowOnce \<Rightarrow> eff_return (UserOnce, False)
      | AllowPublicWebTurn \<Rightarrow> eff_return (UserTurn, False)
      | SaveAllow \<Rightarrow>
          eff_bind (record_audit env review (Allowed UserSaved))
          (\<lambda>_. eff_bind (save_or_fail env review r classes SavedAllow)
          (\<lambda>_. eff_return (UserSaved, True))))"

definition choose_source ::
  "'r dispatch_env \<Rightarrow> approval_request \<Rightarrow> recipient_identity \<Rightarrow> data_class list
    \<Rightarrow> saved_decision option list \<Rightarrow> (decision_source \<times> bool) outbound" where
  "choose_source env review r classes saved =
     (if list_ex (\<lambda>d. d = Some SavedDeny) saved then deny env review SavedDecision
      else case env_controller env of
             Some decide \<Rightarrow>
               eff_bind (wait_for_controller env)
                 (\<lambda>_. controller_source env review r classes (decide review))
           | None \<Rightarrow>
               if list_all (\<lambda>d. d = Some SavedAllow) saved then eff_return (SavedDecision, False)
               else deny env review ApprovalUnavailable)"

definition send_items :: "'r dispatch_env \<Rightarrow> approval_request \<Rightarrow> outbound_request \<Rightarrow> 'r outbound" where
  "send_items env review request w =
     (let w = w\<lparr>sent := sent w @ [(or_recipient request, or_items request)]\<rparr>
      in case env_transport env (or_recipient request) (or_items request) of
           Inr receipt \<Rightarrow>
             (fst (ignore_error (record_audit env review Succeeded) w), Inr receipt)
         | Inl failure \<Rightarrow>
             (fst (ignore_error (record_audit env review
                (if failure = TransportCancelled then CancelledStage else Failed)) w),
              Inl (TransportFailed failure)))"

text \<open>The dispatch up to the decision source, and from there to the transport.\<close>

definition authorise ::
  "'r dispatch_env \<Rightarrow> outbound_request \<Rightarrow> policy_layers \<Rightarrow> (decision_source \<times> bool) outbound" where
  "authorise env request policy =
     (let review = review_of request; classes = request_classes request
      in eff_bind (record_audit env review Requested)
      (\<lambda>_. if set classes \<subseteq> effective_classes policy
        then eff_bind (saved_decisions env (or_recipient request) classes)
          (choose_source env review (or_recipient request) classes)
        else deny env review PolicyCeiling))"

definition transmit ::
  "'r dispatch_env \<Rightarrow> outbound_request \<Rightarrow> decision_source \<times> bool \<Rightarrow> 'r outbound" where
  "transmit env request choice =
     (let review = review_of request
      in eff_bind (if snd choice then eff_return ()
            else record_audit env review (Allowed (fst choice)))
      (\<lambda>_. eff_bind (record_audit env review Sending)
      (\<lambda>_. send_items env review request)))"

definition dispatch ::
  "'r dispatch_env \<Rightarrow> outbound_request \<Rightarrow> policy_layers \<Rightarrow> 'r outbound" where
  "dispatch env request policy = eff_bind (authorise env request policy) (transmit env request)"

section \<open>What each step does to the world\<close>

lemma record_audit_cases:
  assumes "record_audit env review stage w = (w', res)"
  shows "sent w' = sent w \<and> decisions w' = decisions w \<and>
    (res = Inr () \<and> audit_log w' = audit_log w @ [audit_event_of (env_origin env) review stage]
     \<or> res = Inl AuditFailed \<and> audit_log w' = audit_log w)"
  using assms by (auto simp: record_audit_def Let_def split: if_splits)

lemma save_decisions_cases:
  assumes "save_decisions env r classes d w = (w', res)"
  shows "sent w' = sent w \<and> audit_log w' = audit_log w \<and>
    ((\<exists>e. res = Inl e \<and> e \<in> {Clock, StateFailed, SavedDecisionLimit})
       \<and> decisions w' = decisions w
     \<or> (\<exists>now. res = Inr () \<and> save_update r classes d now (decisions w) = Inr (decisions w')))"
  using assms
  by (auto simp: save_decisions_def save_update_def Let_def
      split: option.splits if_splits sum.splits)

lemma save_or_fail_cases:
  assumes "save_or_fail env review r classes d w = (w', res)"
  shows "sent w' = sent w \<and>
    ((\<exists>e. res = Inl e \<and> e \<in> {Clock, StateFailed, SavedDecisionLimit})
       \<and> decisions w' = decisions w
     \<or> (\<exists>now. res = Inr () \<and> save_update r classes d now (decisions w) = Inr (decisions w')
          \<and> audit_log w' = audit_log w))"
proof -
  obtain w1 r1 where s: "save_decisions env r classes d w = (w1, r1)" by fastforce
  obtain w2 r2 where a: "record_audit env review Failed w1 = (w2, r2)" by fastforce
  show ?thesis
    using assms save_decisions_cases [OF s] record_audit_cases [OF a]
    by (auto simp: save_or_fail_def s a ignore_error_def split: sum.splits)
qed

lemma deny_cases:
  assumes "deny env review src w = (w', res)"
  shows "sent w' = sent w \<and> decisions w' = decisions w
    \<and> (res = Inl (OutboundDenied src) \<or> res = Inl AuditFailed)"
  using assms unfolding deny_def
  by (rule eff_bind_cases) (auto dest: record_audit_cases)

text \<open>The decisions a controller can lead to a send with.\<close>

definition allows :: "approval_decision \<Rightarrow> bool" where
  "allows d = (d \<in> {AllowOnce, AllowPublicWebTurn, SaveAllow})"

lemma controller_source_cases:
  assumes "controller_source env review r classes d w = (w', res)"
  shows "sent w' = sent w"
    and "d \<notin> {SaveDeny, SaveAllow} \<Longrightarrow> decisions w' = decisions w"
    and "res = Inr (src, recorded) \<Longrightarrow> allows d \<and>
       audit_log w' = audit_log w @
         (if recorded then [audit_event_of (env_origin env) review (Allowed src)] else [])"
    and "res = Inl (OutboundDenied UserSaved) \<Longrightarrow>
       \<exists>now. save_update r classes SavedDeny now (decisions w) = Inr (decisions w')"
  using assms
  by (cases d; fastforce simp: controller_source_def allows_def
        elim!: eff_bind_cases dest!: record_audit_cases save_or_fail_cases deny_cases)+

definition may_send ::
  "'r dispatch_env \<Rightarrow> approval_request \<Rightarrow> saved_decision option list \<Rightarrow> bool" where
  "may_send env review saved =
     (\<not> list_ex (\<lambda>d. d = Some SavedDeny) saved \<and>
      (case env_controller env of
         Some decide \<Rightarrow> allows (decide review)
       | None \<Rightarrow> list_all (\<lambda>d. d = Some SavedAllow) saved))"

lemma choose_source_cases:
  assumes "choose_source env review r classes saved w = (w', res)"
  shows "sent w' = sent w"
    and "res = Inr (src, recorded) \<Longrightarrow> may_send env review saved \<and>
       audit_log w' = audit_log w @
         (if recorded then [audit_event_of (env_origin env) review (Allowed src)] else [])"
    and "res = Inl (OutboundDenied UserSaved) \<Longrightarrow>
       \<exists>doc now. save_update r classes SavedDeny now doc = Inr (decisions w')"
    and "\<lbrakk>env_controller env = Some decide; decide review \<notin> {SaveDeny, SaveAllow}\<rbrakk> \<Longrightarrow>
       decisions w' \<in> {decisions w, env_meanwhile env (decisions w)}"
proof -
  have "sent w' = sent w
    \<and> (\<forall>src recorded. res = Inr (src, recorded) \<longrightarrow> may_send env review saved \<and>
       audit_log w' = audit_log w @
         (if recorded then [audit_event_of (env_origin env) review (Allowed src)] else []))
    \<and> (res = Inl (OutboundDenied UserSaved) \<longrightarrow>
       (\<exists>doc now. save_update r classes SavedDeny now doc = Inr (decisions w')))
    \<and> (\<forall>decide. env_controller env = Some decide \<and> decide review \<notin> {SaveDeny, SaveAllow} \<longrightarrow>
       decisions w' \<in> {decisions w, env_meanwhile env (decisions w)})"
  proof (cases "list_ex (\<lambda>d. d = Some SavedDeny) saved")
    case True
    then have "deny env review SavedDecision w = (w', res)"
      using assms by (simp add: choose_source_def)
    from deny_cases [OF this] show ?thesis by auto
  next
    case ok: False
    show ?thesis
    proof (cases "env_controller env")
      case None
      then show ?thesis
        using assms ok
        by (auto simp: choose_source_def may_send_def split: if_splits dest!: deny_cases)
    next
      case (Some decide)
      let ?w = "w\<lparr>decisions := env_meanwhile env (decisions w)\<rparr>"
      have c: "controller_source env review r classes (decide review) ?w = (w', res)"
        using assms ok Some by (simp add: choose_source_def eff_bind_def wait_for_controller_def)
      show ?thesis
        using controller_source_cases [OF c] ok Some by (fastforce simp: may_send_def)
    qed
  qed
  then show "sent w' = sent w"
    and "res = Inr (src, recorded) \<Longrightarrow> may_send env review saved \<and>
       audit_log w' = audit_log w @
         (if recorded then [audit_event_of (env_origin env) review (Allowed src)] else [])"
    and "res = Inl (OutboundDenied UserSaved) \<Longrightarrow>
       \<exists>doc now. save_update r classes SavedDeny now doc = Inr (decisions w')"
    and "\<lbrakk>env_controller env = Some decide; decide review \<notin> {SaveDeny, SaveAllow}\<rbrakk> \<Longrightarrow>
       decisions w' \<in> {decisions w, env_meanwhile env (decisions w)}"
    by blast+
qed

lemma send_items_cases:
  assumes "send_items env review request w = (w', res)"
  shows "sent w' = sent w @ [(or_recipient request, or_items request)] \<and> decisions w' = decisions w
    \<and> (\<exists>rest. audit_log w' = audit_log w @ rest) \<and> res \<noteq> Inl (OutboundDenied src)"
proof -
  let ?w = "w\<lparr>sent := sent w @ [(or_recipient request, or_items request)]\<rparr>"
  have step: "sent (fst (record_audit env review st ?w)) = sent ?w
      \<and> decisions (fst (record_audit env review st ?w)) = decisions ?w
      \<and> (\<exists>rest. audit_log (fst (record_audit env review st ?w)) = audit_log ?w @ rest)" for st
    using record_audit_cases [of env review st ?w] by (cases "record_audit env review st ?w") auto
  show ?thesis
  proof (cases "env_transport env (or_recipient request) (or_items request)")
    case (Inl failure)
    then show ?thesis
      using assms step by (auto simp: send_items_def Let_def ignore_error_def)
  next
    case (Inr receipt)
    then show ?thesis
      using assms step by (auto simp: send_items_def Let_def ignore_error_def)
  qed
qed

lemma saved_decisions_cases:
  assumes "saved_decisions env r classes w = (w', res)"
  shows "w' = w \<and> (res = Inl StateFailed \<or> res = Inr (saved_for (decisions w) r classes))"
  using assms by (auto simp: saved_decisions_def split: if_splits)

lemma authorise_cases:
  assumes "authorise env request policy w = (w', res)"
  shows "sent w' = sent w"
    and "res = Inr (src, recorded) \<Longrightarrow>
       set (request_classes request) \<subseteq> effective_classes policy
       \<and> may_send env (review_of request)
           (saved_for (decisions w) (or_recipient request) (request_classes request))
       \<and> audit_log w' = audit_log w
         @ map (audit_event_of (env_origin env) (review_of request))
             (Requested # (if recorded then [Allowed src] else []))"
    and "res = Inl (OutboundDenied UserSaved) \<Longrightarrow>
       \<exists>doc now. save_update (or_recipient request) (request_classes request) SavedDeny now doc
         = Inr (decisions w')"
    and "\<lbrakk>env_controller env = Some decide; decide (review_of request) \<notin> {SaveDeny, SaveAllow}\<rbrakk>
       \<Longrightarrow> decisions w' \<in> {decisions w, env_meanwhile env (decisions w)}"
proof -
  let ?cs = "request_classes request" and ?review = "review_of request"
  let ?saved = "saved_for (decisions w) (or_recipient request) ?cs"
  have run: "eff_bind (record_audit env ?review Requested)
      (\<lambda>_. if set ?cs \<subseteq> effective_classes policy
        then eff_bind (saved_decisions env (or_recipient request) ?cs)
          (choose_source env ?review (or_recipient request) ?cs)
        else deny env ?review PolicyCeiling) w = (w', res)"
    using assms by (simp add: authorise_def Let_def)
  consider
      (early) "sent w' = sent w \<and> decisions w' = decisions w
        \<and> res \<noteq> Inl (OutboundDenied UserSaved) \<and> (\<forall>c. res \<noteq> Inr c)"
    | (chosen) w1 where "choose_source env ?review (or_recipient request) ?cs ?saved w1 = (w', res)"
        "set ?cs \<subseteq> effective_classes policy" "sent w1 = sent w" "decisions w1 = decisions w"
        "audit_log w1 = audit_log w @ [audit_event_of (env_origin env) ?review Requested]"
    using run
  proof (cases rule: eff_bind_cases)
    case (error e)
    then show thesis using early record_audit_cases [OF error(1)] by auto
  next
    case (proceeds w1 u)
    note requested = record_audit_cases [OF proceeds(1)]
    show thesis
    proof (cases "set ?cs \<subseteq> effective_classes policy")
      case False
      then have "deny env ?review PolicyCeiling w1 = (w', res)" using proceeds(2) by simp
      from deny_cases [OF this] requested show thesis using early by auto
    next
      case True
      then have "eff_bind (saved_decisions env (or_recipient request) ?cs)
          (choose_source env ?review (or_recipient request) ?cs) w1 = (w', res)"
        using proceeds(2) by simp
      then show thesis
      proof (cases rule: eff_bind_cases)
        case (error e)
        then show thesis using early requested saved_decisions_cases [OF error(1)] by auto
      next
        case (proceeds w2 saved)
        from saved_decisions_cases [OF proceeds(1)] proceeds(2) True requested
        show thesis using chosen [of w1] by auto
      qed
    qed
  qed
  note cases = this
  show "sent w' = sent w"
    by (cases rule: cases) (auto dest: choose_source_cases(1))
  show "set ?cs \<subseteq> effective_classes policy \<and> may_send env ?review ?saved
       \<and> audit_log w' = audit_log w
         @ map (audit_event_of (env_origin env) ?review)
             (Requested # (if recorded then [Allowed src] else []))"
    if "res = Inr (src, recorded)"
    by (cases rule: cases) (use that choose_source_cases(2) in fastforce)+
  show "\<exists>doc now. save_update (or_recipient request) ?cs SavedDeny now doc = Inr (decisions w')"
    if "res = Inl (OutboundDenied UserSaved)"
    by (cases rule: cases) (use that choose_source_cases(3) in blast)+
  show "decisions w' \<in> {decisions w, env_meanwhile env (decisions w)}"
    if "env_controller env = Some decide" "decide ?review \<notin> {SaveDeny, SaveAllow}"
    by (cases rule: cases) (use that choose_source_cases(4) in fastforce)+
qed

lemma transmit_cases:
  assumes "transmit env request (src, recorded) w = (w', res)"
  shows "decisions w' = decisions w \<and> res \<noteq> Inl (OutboundDenied source) \<and>
    (sent w' = sent w \<or>
     sent w' = sent w @ [(or_recipient request, or_items request)] \<and>
     (\<exists>rest. audit_log w' = audit_log w
        @ map (audit_event_of (env_origin env) (review_of request))
            ((if recorded then [] else [Allowed src]) @ [Sending]) @ rest))"
  using assms
  by (cases recorded)
    (fastforce simp: transmit_def Let_def elim!: eff_bind_cases
      dest!: record_audit_cases send_items_cases [where src = source])+

lemma dispatch_cases:
  assumes "dispatch env request policy w = (w', res)"
  shows "sent w' = sent w \<or>
     sent w' = sent w @ [(or_recipient request, or_items request)]
     \<and> set (request_classes request) \<subseteq> effective_classes policy
     \<and> may_send env (review_of request)
         (saved_for (decisions w) (or_recipient request) (request_classes request))
     \<and> (\<exists>src rest. audit_log w' = audit_log w
          @ map (audit_event_of (env_origin env) (review_of request))
              [Requested, Allowed src, Sending] @ rest)"
    and "res = Inl (OutboundDenied UserSaved) \<Longrightarrow>
       \<exists>doc now. save_update (or_recipient request) (request_classes request) SavedDeny now doc
         = Inr (decisions w')"
    and "\<lbrakk>env_controller env = Some decide; decide (review_of request) \<notin> {SaveDeny, SaveAllow}\<rbrakk>
       \<Longrightarrow> decisions w' \<in> {decisions w, env_meanwhile env (decisions w)}"
proof -
  have run: "eff_bind (authorise env request policy) (transmit env request) w = (w', res)"
    using assms by (simp add: dispatch_def)
  consider (refused) e where "authorise env request policy w = (w', Inl e)" "res = Inl e"
    | (going) w1 src recorded where "authorise env request policy w = (w1, Inr (src, recorded))"
        "transmit env request (src, recorded) w1 = (w', res)"
    using run by (cases rule: eff_bind_cases) (auto simp: split_paired_all)
  note cases = this
  show "sent w' = sent w \<or>
     sent w' = sent w @ [(or_recipient request, or_items request)]
     \<and> set (request_classes request) \<subseteq> effective_classes policy
     \<and> may_send env (review_of request)
         (saved_for (decisions w) (or_recipient request) (request_classes request))
     \<and> (\<exists>src rest. audit_log w' = audit_log w
          @ map (audit_event_of (env_origin env) (review_of request))
              [Requested, Allowed src, Sending] @ rest)"
  proof (cases rule: cases)
    case (refused e)
    then show ?thesis using authorise_cases(1) [OF refused(1)] by simp
  next
    case (going w1 src recorded)
    from authorise_cases(1) [OF going(1)] authorise_cases(2) [OF going(1) refl]
      transmit_cases [OF going(2), where source = UserOnce]
    show ?thesis by (cases recorded) auto
  qed
  show "\<exists>doc now. save_update (or_recipient request) (request_classes request) SavedDeny now doc
      = Inr (decisions w')" if "res = Inl (OutboundDenied UserSaved)"
    by (cases rule: cases) (use that authorise_cases(3) transmit_cases in blast)+
  show "decisions w' \<in> {decisions w, env_meanwhile env (decisions w)}"
    if "env_controller env = Some decide" "decide (review_of request) \<notin> {SaveDeny, SaveAllow}"
  proof (cases rule: cases)
    case (refused e)
    then show ?thesis using authorise_cases(4) [OF refused(1) that] by simp
  next
    case (going w1 src recorded)
    then show ?thesis
      using authorise_cases(4) [OF going(1) that] transmit_cases [OF going(2)] by simp
  qed
qed

section \<open>Saved decisions\<close>

lemma last_separator:
  assumes "xs @ c # ys = xs' @ c # ys'" and "c \<notin> set ys" and "c \<notin> set ys'"
  shows "xs = xs' \<and> ys = ys'"
proof -
  have take: "takeWhile (\<lambda>x. x \<noteq> c) (rev (us @ c # vs)) = rev vs" if "c \<notin> set vs" for us vs
    using that by (auto simp: takeWhile_append)
  have "rev ys = rev ys'" using take [OF assms(2), of xs] take [OF assms(3), of xs'] assms(1) by simp
  then show ?thesis using assms(1) by simp
qed

lemma data_class_str_facts:
  "58 \<notin> set (data_class_str c)" "data_class_str c = data_class_str c' \<longleftrightarrow> c = c'"
  by (cases c; simp add: rstr_def) (cases c; cases c'; simp add: rstr_def)

lemma decision_key_inject [simp]:
  "decision_key dg c = decision_key dg' c' \<longleftrightarrow> dg = dg' \<and> c = c'"
proof
  assume "decision_key dg c = decision_key dg' c'"
  then have "dg @ 58 # data_class_str c = dg' @ 58 # data_class_str c'"
    by (simp add: decision_key_def rstr_def)
  from last_separator [OF this] show "dg = dg' \<and> c = c'" by (simp add: data_class_str_facts)
qed simp

lemma set_class_set [simp]: "set (class_set cs) = set cs"
  by (simp add: class_set_def)

lemma distinct_class_set [simp]: "distinct (class_set cs)"
  by (simp add: class_set_def)

lemma insert_decisions_Cons:
  "insert_decisions dg d now (c # cs) doc = insert_decisions dg d now cs
     (bt_insert (decision_key dg c)
       \<lparr>dr_digest = dg, dr_class = c, dr_decision = d, dr_updated = now\<rparr> doc)"
  by (simp add: insert_decisions_def)

lemma get_insert_decisions:
  "bt_get (insert_decisions dg d now cs doc) (decision_key dg' c) =
     (if dg' = dg \<and> c \<in> set cs
      then Some \<lparr>dr_digest = dg, dr_class = c, dr_decision = d, dr_updated = now\<rparr>
      else bt_get doc (decision_key dg' c))"
proof (induction cs arbitrary: doc)
  case Nil
  then show ?case by (simp add: insert_decisions_def)
next
  case (Cons c' cs)
  then show ?case by (auto simp: insert_decisions_Cons bt.lookup_put)
qed

lemma insert_decisions_wf: "bt_wf doc \<Longrightarrow> bt_wf (insert_decisions dg d now cs doc)"
  by (induction cs arbitrary: doc)
    (simp_all add: insert_decisions_def bt.put_well)

lemma length_bt_keys: "length (bt_keys m) = length m"
  by (simp add: bt_keys_def)

lemma insert_decisions_length:
  "distinct cs \<Longrightarrow> bt_wf doc \<Longrightarrow>
     length (insert_decisions dg d now cs doc) =
       length doc + length (filter (\<lambda>c. \<not> bt_contains doc (decision_key dg c)) cs)"
proof (induction cs arbitrary: doc)
  case Nil
  then show ?case by (simp add: insert_decisions_def)
next
  case (Cons c cs)
  let ?doc = "bt_insert (decision_key dg c)
      \<lparr>dr_digest = dg, dr_class = c, dr_decision = d, dr_updated = now\<rparr> doc"
  have same: "filter (\<lambda>c. \<not> bt_contains ?doc (decision_key dg c)) cs =
      filter (\<lambda>c. \<not> bt_contains doc (decision_key dg c)) cs"
    using Cons.prems by (intro filter_cong) (auto simp: bt_contains_def bt.lookup_put)
  have "length ?doc = (if bt_contains doc (decision_key dg c) then length doc else Suc (length doc))"
    using bt.length_key_list_put [OF Cons.prems(2)] by (simp add: length_bt_keys bt_contains_def)
  then show ?case
    using Cons.IH [of ?doc] Cons.prems by (simp add: insert_decisions_Cons same bt.put_well)
qed

lemma saved_for_insert:
  "saved_for (insert_decisions (ri_digest r) d now cs doc) r' cs' =
     (if ri_digest r' = ri_digest r
      then map (\<lambda>c. if c \<in> set cs then Some d else saved_for doc r' [c] ! 0) cs'
      else saved_for doc r' cs')"
  by (auto simp: saved_for_def get_insert_decisions)

section \<open>Properties\<close>

text \<open>
  C24: nothing leaves without authority. A dispatch hands the transport at most this request's own
  recipient and items, once, and only if every data class is within the intersection of the
  policy ceilings, no class is saved as denied for the recipient, and either the attached
  controller allowed this very review or, with none attached, every class is saved as allowed;
  and the request, the allowance and the sending are in the audit log before anything else.
\<close>

theorem nothing_sent_without_authority:
  assumes "dispatch env request policy w = (w', res)" and "sent w' \<noteq> sent w"
  shows "sent w' = sent w @ [(or_recipient request, or_items request)]
    \<and> set (request_classes request) \<subseteq> effective_classes policy
    \<and> (\<forall>d \<in> set (saved_for (decisions w) (or_recipient request) (request_classes request)).
         d \<noteq> Some SavedDeny)
    \<and> (case env_controller env of
         Some decide \<Rightarrow> decide (review_of request) \<in> {AllowOnce, AllowPublicWebTurn, SaveAllow}
       | None \<Rightarrow> disposition_of (decisions w) (or_recipient request)
           (map oi_class (or_items request)) = DispSavedAllow)
    \<and> (\<exists>src rest. audit_log w' = audit_log w
         @ map (audit_event_of (env_origin env) (review_of request))
             [Requested, Allowed src, Sending] @ rest)"
  using dispatch_cases(1) [OF assms(1)] assms(2)
  by (auto simp: may_send_def allows_def list_ex_iff disposition_of_def request_classes_def Let_def
      split: option.splits)

definition sample_request :: outbound_request where
  "sample_request =
     \<lparr>or_operation = 1,
      or_recipient = \<lparr>ri_kind = FocusedService, ri_connection = [97], ri_destination = [98],
        ri_digest = [99]\<rparr>,
      or_purpose = [100],
      or_items = [\<lparr>oi_class = PromptText, oi_label = [97], oi_reference = None,
        oi_provenance = [97], oi_digest = [97], oi_bytes = [1]\<rparr>],
      or_total_bytes = 1\<rparr>"

definition sample_layers :: policy_layers where
  "sample_layers =
     \<lparr>connection_allowed = {PromptText}, user_ceiling = {PromptText},
      profile_allowed = {PromptText}, conversation_allowed = None\<rparr>"

definition sample_env :: "approval_decision \<Rightarrow> nat dispatch_env" where
  "sample_env d =
     \<lparr>env_origin = \<lambda>_. None, env_audit_ok = \<lambda>_. True, env_clock = Some 0, env_readable = True,
      env_writable = True, env_meanwhile = id, env_controller = Some (\<lambda>_. d),
      env_transport = \<lambda>_ _. Inr 7\<rparr>"

definition sample_world :: outbound_world where
  "sample_world = \<lparr>audit_log = [], audit_attempts = 0, decisions = [], sent = []\<rparr>"

lemmas dispatch_run =
  dispatch_def authorise_def transmit_def Let_def eff_bind_def eff_return_def eff_fail_def
  record_audit_def saved_decisions_def choose_source_def controller_source_def deny_def
  wait_for_controller_def send_items_def ignore_error_def save_or_fail_def save_decisions_def
  save_update_def sample_request_def sample_layers_def sample_env_def sample_world_def
  request_classes_def class_set_def review_of_def effective_classes_def saved_for_def

theorem nothing_sent_without_authority_witness:
  "audit_log (fst (dispatch (sample_env AllowOnce) sample_request sample_layers sample_world)) \<noteq> []"
proof -
  obtain w' res where
    d: "dispatch (sample_env AllowOnce) sample_request sample_layers sample_world = (w', res)"
    by fastforce
  then have "sent w' \<noteq> sent sample_world"
    by (auto simp: dispatch_run)
  from nothing_sent_without_authority [OF d this] d show ?thesis by auto
qed

text \<open>
  An approval is bound to what was reviewed. When the controller is the user's decision on a
  review that differs from the request's own (another recipient, purpose, class, item, size or
  digest), nothing is sent and no decision is saved, whatever the user had chosen.
\<close>

theorem approval_bound_to_review:
  assumes "dispatch env request policy w = (w', res)"
    and "env_controller env = Some (reviewed_decide (new_reviewed reviewed decision))"
    and "reviewed\<lparr>ar_public_web := None\<rparr> \<noteq> review_of request"
  shows "sent w' = sent w \<and> decisions w' \<in> {decisions w, env_meanwhile env (decisions w)}"
proof -
  have "reviewed_decide (new_reviewed reviewed decision) (review_of request) = DenyOnce"
    using assms(3) by (simp add: reviewed_decide_def new_reviewed_def)
  then show ?thesis
    using dispatch_cases(1) [OF assms(1)] dispatch_cases(3) [OF assms(1,2)] assms(2)
    by (auto simp: may_send_def allows_def)
qed

theorem approval_bound_to_review_witness:
  "sent (fst (dispatch ((sample_env AllowOnce)\<lparr>env_controller := Some (reviewed_decide
       (new_reviewed ((review_of sample_request)\<lparr>ar_purpose := [1]\<rparr>) SaveAllow))\<rparr>)
     sample_request sample_layers sample_world)) = []"
  (is "sent (fst (dispatch ?env _ _ _)) = []")
proof -
  obtain w' res where d: "dispatch ?env sample_request sample_layers sample_world = (w', res)"
    by fastforce
  have "sent w' = sent sample_world"
    using approval_bound_to_review [OF d, of "(review_of sample_request)\<lparr>ar_purpose := [1]\<rparr>" SaveAllow]
    by (simp add: review_of_def sample_request_def)
  then have "sent w' = []" by (simp add: sample_world_def)
  then show ?thesis by (simp only: d fst_conv)
qed

text \<open>A saved choice is what the guard remembers. After a successful save the recipient's
  disposition for those classes is the saved one, every other recipient's is unchanged, and the
  document stays an ordered map of at most 1024 decisions.
\<close>

theorem saved_choice_is_remembered:
  assumes "save_update r (class_set cs) d now doc = Inr doc'" and "cs \<noteq> []"
    and "bt_wf doc"
  shows "disposition_of doc' r cs = (if d = SavedDeny then DispSavedDeny else DispSavedAllow)
    \<and> (\<forall>r' cs'. ri_digest r' \<noteq> ri_digest r \<longrightarrow>
         disposition_of doc' r' cs' = disposition_of doc r' cs')
    \<and> bt_wf doc' \<and> length doc' \<le> MAX_SAVED_DECISIONS"
proof -
  have doc': "doc' = insert_decisions (ri_digest r) d now (class_set cs) doc"
    and fits: "length doc + length (filter (\<lambda>c. \<not> bt_contains doc (decision_key (ri_digest r) c))
      (class_set cs)) \<le> MAX_SAVED_DECISIONS"
    using assms(1) by (auto simp: save_update_def Let_def not_less split: if_splits)
  have "saved_for doc' r (class_set cs) = map (\<lambda>_. Some d) (class_set cs)"
    by (simp add: doc' saved_for_insert)
  moreover have "class_set cs \<noteq> []" using assms(2) set_class_set [of cs] by (metis set_empty)
  ultimately have "disposition_of doc' r cs =
      (if d = SavedDeny then DispSavedDeny else DispSavedAllow)"
    by (cases d; cases "class_set cs")
      (auto simp: disposition_of_def Let_def list_all_iff list_ex_iff)
  moreover have "\<forall>r' cs'. ri_digest r' \<noteq> ri_digest r \<longrightarrow>
      disposition_of doc' r' cs' = disposition_of doc r' cs'"
    by (simp add: disposition_of_def doc' saved_for_insert)
  ultimately show ?thesis
    using fits assms(3) by (simp add: doc' insert_decisions_wf insert_decisions_length)
qed

theorem saved_choice_is_remembered_witness:
  "disposition_of (insert_decisions [99] SavedDeny 0 [PromptText] []) (or_recipient sample_request)
     [PromptText] = DispSavedDeny"
  using saved_choice_is_remembered [of "or_recipient sample_request" "[PromptText]" SavedDeny 0 "[]"
      "insert_decisions [99] SavedDeny 0 [PromptText] []"]
  by (simp add: save_update_def class_set_def sample_request_def MAX_SAVED_DECISIONS_def)

text \<open>
  A saved denial holds. Once a dispatch ended in a saved denial, no later dispatch to a
  recipient of the same identity that shares a data class sends anything, whatever its policy, its
  controller and its saved allowances, until the decisions change.
\<close>

theorem saved_denial_blocks_later_sends:
  assumes "dispatch env request policy w = (w1, Inl (OutboundDenied UserSaved))"
    and "decisions w2 = decisions w1"
    and "ri_digest (or_recipient request2) = ri_digest (or_recipient request)"
    and "c \<in> set (request_classes request)" and "c \<in> set (request_classes request2)"
    and "dispatch env2 request2 policy2 w2 = (w3, res)"
  shows "sent w3 = sent w2"
proof -
  from dispatch_cases(2) [OF assms(1) refl] obtain doc now where
    "save_update (or_recipient request) (request_classes request) SavedDeny now doc
      = Inr (decisions w2)" using assms(2) by auto
  then have "decisions w2 =
      insert_decisions (ri_digest (or_recipient request)) SavedDeny now (request_classes request) doc"
    by (auto simp: save_update_def Let_def split: if_splits)
  then have "Some SavedDeny \<in>
      set (saved_for (decisions w2) (or_recipient request2) (request_classes request2))"
    using assms(3-5) by (force simp: saved_for_insert)
  then show ?thesis
    using dispatch_cases(1) [OF assms(6)] by (auto simp: may_send_def list_ex_iff)
qed

theorem saved_denial_blocks_later_sends_witness:
  "sent (fst (dispatch (sample_env AllowOnce) sample_request sample_layers
      (fst (dispatch (sample_env SaveDeny) sample_request sample_layers sample_world)))) = []"
proof -
  obtain w1 res1 where
    d1: "dispatch (sample_env SaveDeny) sample_request sample_layers sample_world = (w1, res1)"
    by fastforce
  obtain w3 res where d2: "dispatch (sample_env AllowOnce) sample_request sample_layers w1 = (w3, res)"
    by fastforce
  have first: "res1 = Inl (OutboundDenied UserSaved) \<and> sent w1 = []"
    using d1 by (auto simp: dispatch_run bt_contains_def MAX_SAVED_DECISIONS_def)
  have "sent w3 = sent w1"
    by (rule saved_denial_blocks_later_sends [OF _ refl refl _ _ d2, where c = PromptText])
      (use d1 first in \<open>auto simp: request_classes_def class_set_def sample_request_def\<close>)
  then show ?thesis using first by (simp add: d1 d2)
qed

end
