(* ===== verification/Permission_Policy.thy ===== *)
theory Permission_Policy
  imports Outbound_Guard
begin

text \<open>
  The permission policy, \<open>src/src/permission.rs\<close>, \<open>src/src/permission/policy.rs\<close> and
  \<open>src/src/permission/scope.rs\<close>: rule validation and resolution against the workspace, rule
  matching, the decision with its floors and ceilings, and the session grants. Canonicalization
  of a path by the operating system is a parameter.
\<close>

section \<open>Data\<close>

datatype policy_decision = Deny | Ask | Allow

text \<open>The strictness order of decisions, \<open>Deny\<close> the strictest.\<close>

fun decision_rank :: "policy_decision \<Rightarrow> nat" where
  "decision_rank Deny = 0"
| "decision_rank Ask = 1"
| "decision_rank Allow = 2"

lemma decision_rank_inject [simp]: "decision_rank a = decision_rank b \<longleftrightarrow> a = b"
  by (cases a; cases b) simp_all

instantiation policy_decision :: linorder
begin

definition less_eq_policy_decision :: "policy_decision \<Rightarrow> policy_decision \<Rightarrow> bool" where
  "less_eq_policy_decision a b = (decision_rank a \<le> decision_rank b)"

definition less_policy_decision :: "policy_decision \<Rightarrow> policy_decision \<Rightarrow> bool" where
  "less_policy_decision a b = (decision_rank a < decision_rank b)"

instance
  by standard (auto simp: less_eq_policy_decision_def less_policy_decision_def)

end

lemma decision_order [simp]:
  "Deny \<le> d" "d \<le> Allow" "Allow \<le> d \<longleftrightarrow> d = Allow" "d \<le> Deny \<longleftrightarrow> d = Deny"
  "Deny < Ask" "Ask < Allow" "Deny < Allow"
  by (cases d; simp add: less_eq_policy_decision_def less_policy_decision_def)+

datatype effect_class = Read | Write | Execute | Network | ExternalEffect

datatype json =
  JNull | JBool bool | JNumber rust_string | JString rust_string
| JArray "json list" | JObject "(rust_string \<times> json) list"

text \<open>Indexing by a string gives Null on anything but an object with that key.\<close>

fun json_index :: "json \<Rightarrow> rust_string \<Rightarrow> json" where
  "json_index (JObject kvs) k = (case map_of kvs k of Some v \<Rightarrow> v | None \<Rightarrow> JNull)"
| "json_index _ k = JNull"

fun json_str :: "json \<Rightarrow> rust_string option" where
  "json_str (JString s) = Some s"
| "json_str _ = None"

datatype permission_scope =
  WorkspacePath path
| ExternalPath path
| CommandScope (cmd_shell: rust_string) (cmd_cwd: path) (cmd_text: rust_string)
| ExternalScope (ext_recipient: rust_string) (ext_operation: rust_string)
| BuiltInResource rust_string
| PersonalMemory rust_string bool
| Unscoped

record permission_request =
  rq_operation :: uuid
  rq_invocation :: uuid
  rq_tool :: rust_string
  rq_effect :: effect_class
  rq_arguments :: json
  rq_scope :: permission_scope
  rq_outbound :: "approval_request option"

record permission_rule =
  ru_id :: rust_string
  ru_decision :: policy_decision
  ru_tool :: "rust_string option"
  ru_effect :: "effect_class option"
  ru_workspace :: "path option"
  ru_command :: "rust_string option"

datatype policy_error =
  BlankRuleId
| DuplicateRuleId rust_string
| NoMatchers rust_string
| UnknownTool rust_string rust_string
| InvalidWorkspace rust_string
| BlankCommand rust_string

record permission_policy =
  po_default :: policy_decision
  po_rules :: "permission_rule list"
  po_reads_only :: bool

definition builtin_tool_names :: "rust_string list" where
  "builtin_tool_names = map rstr
     [''read_file'', ''list_files'', ''find_files'', ''grep_files'', ''write_file'', ''edit_file'',
      ''run_command'', ''web_fetch'', ''read_document'', ''xana_docs'']"

definition is_mutation :: "rust_string \<Rightarrow> bool" where
  "is_mutation name =
     (name \<in> {rstr ''memory_update'', rstr ''memory_remember'', rstr ''memory_correct'',
        rstr ''memory_forget''})"

fun is_personal_memory :: "permission_scope \<Rightarrow> bool" where
  "is_personal_memory (PersonalMemory s review) = True"
| "is_personal_memory _ = False"

fun is_direct_memory_scope :: "permission_scope \<Rightarrow> bool" where
  "is_direct_memory_scope (PersonalMemory s review) = (\<not> review)"
| "is_direct_memory_scope _ = False"

section \<open>Scopes\<close>

datatype scope_error = InvalidLexicalPath | Canonicalize | EscapesWorkspace

fun escapes_lexically :: "path_component \<Rightarrow> bool" where
  "escapes_lexically ParentDir = True"
| "escapes_lexically RootDir = True"
| "escapes_lexically (Prefix p) = True"
| "escapes_lexically CurDir = False"
| "escapes_lexically (Normal n) = False"

definition resolve_rule_workspace ::
  "(path \<Rightarrow> path option) \<Rightarrow> path \<Rightarrow> path \<Rightarrow> scope_error + path" where
  "resolve_rule_workspace canonicalize configured workspace_root =
     (if configured = [] \<or> is_absolute configured then Inl InvalidLexicalPath
      else if list_ex escapes_lexically configured
      then Inl InvalidLexicalPath
      else res_bind (ok_or (canonicalize workspace_root) Canonicalize)
        (\<lambda>root. res_bind (ok_or (canonicalize (path_join root configured)) Canonicalize)
           (\<lambda>canonical. if path_starts_with canonical root then Inr canonical
             else Inl EscapesWorkspace)))"

fun scope_contains :: "permission_scope \<Rightarrow> permission_scope \<Rightarrow> bool" where
  "scope_contains (WorkspacePath g) (WorkspacePath r) = path_starts_with r g"
| "scope_contains (ExternalPath g) (ExternalPath r) = (g = r)"
| "scope_contains (CommandScope gs gd gc) (CommandScope rs rd rc) = (gs = rs \<and> gd = rd \<and> gc = rc)"
| "scope_contains (ExternalScope gr go) (ExternalScope rr ro) = (gr = rr \<and> go = ro)"
| "scope_contains (BuiltInResource g) (BuiltInResource r) = (g = r)"
| "scope_contains Unscoped Unscoped = True"
| "scope_contains _ _ = False"

section \<open>Rules\<close>

definition check_rule :: "permission_rule \<Rightarrow> policy_error + unit" where
  "check_rule rule =
     (let i = trim (ru_id rule)
      in res_bind (ensure (\<not> (ru_tool rule = None \<and> ru_effect rule = None
             \<and> ru_workspace rule = None \<and> ru_command rule = None)) (NoMatchers i))
      (\<lambda>_. res_bind (case ru_tool rule of
             Some tool \<Rightarrow> ensure (tool \<in> set builtin_tool_names \<or> tool = rstr ''memory_lookup''
                 \<or> tool = rstr ''web_search'' \<or> is_mutation tool) (UnknownTool i tool)
           | None \<Rightarrow> Inr ())
      (\<lambda>_. res_bind (case ru_workspace rule of
             Some w \<Rightarrow> ensure (w \<noteq> [] \<and> \<not> is_absolute w) (InvalidWorkspace i)
           | None \<Rightarrow> Inr ())
      (\<lambda>_. case ru_command rule of
             Some c \<Rightarrow> ensure (trim c \<noteq> []) (BlankCommand i)
           | None \<Rightarrow> Inr ()))))"

fun validate_rules_from :: "rust_string set \<Rightarrow> permission_rule list \<Rightarrow> policy_error + unit" where
  "validate_rules_from ids [] = Inr ()"
| "validate_rules_from ids (rule # rules) =
     (let i = trim (ru_id rule)
      in if i = [] then Inl BlankRuleId
         else if i \<in> ids then Inl (DuplicateRuleId i)
         else res_bind (check_rule rule) (\<lambda>_. validate_rules_from (insert i ids) rules))"

definition validate_rules :: "permission_rule list \<Rightarrow> policy_error + unit" where
  "validate_rules rules = validate_rules_from {} rules"

fun resolve_rules ::
  "(path \<Rightarrow> path option) \<Rightarrow> path \<Rightarrow> permission_rule list \<Rightarrow> policy_error + permission_rule list" where
  "resolve_rules canonicalize root [] = Inr []"
| "resolve_rules canonicalize root (rule # rules) =
     res_bind (case ru_workspace rule of
         Some w \<Rightarrow> (case resolve_rule_workspace canonicalize w root of
             Inl e \<Rightarrow> Inl (InvalidWorkspace (ru_id rule))
           | Inr p \<Rightarrow> Inr (rule\<lparr>ru_workspace := Some p\<rparr>))
       | None \<Rightarrow> Inr rule)
     (\<lambda>rule. res_bind (resolve_rules canonicalize root rules) (\<lambda>rules. Inr (rule # rules)))"

definition new_policy ::
  "(path \<Rightarrow> path option) \<Rightarrow> policy_decision \<Rightarrow> permission_rule list \<Rightarrow> path
    \<Rightarrow> policy_error + permission_policy" where
  "new_policy canonicalize fallback rules root =
     res_bind (validate_rules rules)
       (\<lambda>_. res_bind (resolve_rules canonicalize root rules)
          (\<lambda>rules. Inr \<lparr>po_default = fallback, po_rules = rules, po_reads_only = False\<rparr>))"

definition workspace_reads_only :: "permission_policy \<Rightarrow> permission_policy" where
  "workspace_reads_only p = p\<lparr>po_reads_only := True\<rparr>"

text \<open>Historical umbrella rules and the host-normalized name of a memory plan.\<close>

definition canonical_memory_name :: "permission_request \<Rightarrow> rust_string" where
  "canonical_memory_name r =
     (if rq_tool r = rstr ''memory_update'' \<and> is_personal_memory (rq_scope r) then
        (let action = json_str (json_index (rq_arguments r) (rstr ''action''))
         in if action = Some (rstr ''remember'') then rstr ''memory_remember''
            else if action = Some (rstr ''correct'') then rstr ''memory_correct''
            else if action = Some (rstr ''forget'') then rstr ''memory_forget''
            else rstr ''memory_update'')
      else rq_tool r)"

fun scope_path :: "permission_scope \<Rightarrow> path option" where
  "scope_path (WorkspacePath p) = Some p"
| "scope_path (CommandScope s d c) = Some d"
| "scope_path _ = None"

fun scope_command :: "permission_scope \<Rightarrow> rust_string option" where
  "scope_command (CommandScope s d c) = Some c"
| "scope_command _ = None"

definition rule_matches :: "permission_rule \<Rightarrow> permission_request \<Rightarrow> bool" where
  "rule_matches rule r =
     (let name = canonical_memory_name r
      in (case ru_tool rule of
            Some tool \<Rightarrow> tool = name \<or> tool = rstr ''memory_update'' \<and> is_mutation name
          | None \<Rightarrow> True)
       \<and> (case ru_effect rule of Some e \<Rightarrow> e = rq_effect r | None \<Rightarrow> True)
       \<and> (case ru_workspace rule of
            Some w \<Rightarrow> (case scope_path (rq_scope r) of
                Some p \<Rightarrow> path_starts_with p w | None \<Rightarrow> False)
          | None \<Rightarrow> True)
       \<and> (case ru_command rule of
            Some c \<Rightarrow> scope_command (rq_scope r) = Some c
          | None \<Rightarrow> True))"

section \<open>Decision\<close>

definition is_direct_memory_request :: "permission_request \<Rightarrow> bool" where
  "is_direct_memory_request r =
     ((rq_tool r = rstr ''memory_lookup'' \<and> rq_effect r = Read
       \<or> is_mutation (rq_tool r) \<and> rq_effect r = Write)
      \<and> is_direct_memory_scope (rq_scope r))"

definition is_safe_built_in_read :: "permission_request \<Rightarrow> bool" where
  "is_safe_built_in_read r =
     (rq_tool r = rstr ''xana_docs'' \<and> rq_effect r = Read
      \<and> rq_scope r = BuiltInResource (rstr ''xana-documentation''))"

record policy_explanation =
  matched_rule_ids :: "rust_string list"
  winning_decision :: policy_decision

fun within_read_ceiling :: "permission_scope \<Rightarrow> bool" where
  "within_read_ceiling (WorkspacePath p) = True"
| "within_read_ceiling (BuiltInResource i) = True"
| "within_read_ceiling _ = False"

fun never_auto_allowed :: "permission_scope \<Rightarrow> bool" where
  "never_auto_allowed (ExternalPath p) = True"
| "never_auto_allowed (ExternalScope r x) = True"
| "never_auto_allowed (PersonalMemory s review) = review"
| "never_auto_allowed _ = False"

definition explain :: "permission_policy \<Rightarrow> permission_request \<Rightarrow> policy_explanation" where
  "explain p r =
     (if po_reads_only p \<and> (rq_effect r \<noteq> Read \<or> \<not> within_read_ceiling (rq_scope r))
      then \<lparr>matched_rule_ids = [rstr ''unattended-workspace-read-ceiling''],
            winning_decision = Deny\<rparr>
      else
        let matching = filter (\<lambda>rule. rule_matches rule r) (po_rules p);
            winning =
              (if list_ex (\<lambda>rule. ru_decision rule = Deny) matching then Deny
               else if list_ex (\<lambda>rule. ru_decision rule = Ask) matching then Ask
               else if list_ex (\<lambda>rule. ru_decision rule = Allow) matching then Allow
               else if po_default p = Ask \<and> (is_safe_built_in_read r \<or> is_direct_memory_request r)
               then Allow
               else po_default p);
            winning = (if never_auto_allowed (rq_scope r) \<and> winning = Allow then Ask else winning)
        in \<lparr>matched_rule_ids = map ru_id matching, winning_decision = winning\<rparr>)"

section \<open>Session grants\<close>

record session_grant =
  sg_id :: rust_string
  sg_tool :: rust_string
  sg_effect :: effect_class
  sg_scope :: permission_scope

record session_grants =
  sgs_grants :: "session_grant list"
  sgs_next :: nat

definition no_grants :: session_grants where
  "no_grants = \<lparr>sgs_grants = [], sgs_next = 0\<rparr>"

definition MAX_SESSION_GRANTS :: nat where "MAX_SESSION_GRANTS = 256"

definition grant_name :: "nat \<Rightarrow> rust_string" where
  "grant_name n = rstr ''session-grant-'' @ decimal n"

definition insert_grant ::
  "session_grants \<Rightarrow> permission_request \<Rightarrow> permission_scope \<Rightarrow> session_grants \<times> (unit + rust_string)"
where
  "insert_grant gs r scope =
     (if is_personal_memory scope then (gs, Inl ())
      else case find (\<lambda>g. sg_tool g = rq_tool r \<and> sg_effect g = rq_effect r \<and> sg_scope g = scope)
            (sgs_grants gs) of
             Some g \<Rightarrow> (gs, Inr (sg_id g))
           | None \<Rightarrow>
               if length (sgs_grants gs) \<ge> MAX_SESSION_GRANTS then (gs, Inl ())
               else (let n = sgs_next gs + 1
                     in (\<lparr>sgs_grants = sgs_grants gs @ [\<lparr>sg_id = grant_name n, sg_tool = rq_tool r,
                            sg_effect = rq_effect r, sg_scope = scope\<rparr>], sgs_next = n\<rparr>,
                         Inr (grant_name n))))"

definition matching_grant :: "session_grants \<Rightarrow> permission_request \<Rightarrow> session_grant option" where
  "matching_grant gs r =
     find (\<lambda>g. sg_tool g = rq_tool r \<and> sg_effect g = rq_effect r
             \<and> scope_contains (sg_scope g) (rq_scope r)) (sgs_grants gs)"

datatype evaluation =
  EvDenied "rust_string list" | EvAsk "rust_string list" | AllowedByPolicy "rust_string list"
| AllowedBySessionGrant rust_string

fun evaluation_decision :: "evaluation \<Rightarrow> policy_decision" where
  "evaluation_decision (EvDenied _) = Deny"
| "evaluation_decision (EvAsk _) = Ask"
| "evaluation_decision (AllowedBySessionGrant _) = Ask"
| "evaluation_decision (AllowedByPolicy _) = Allow"

definition evaluate :: "permission_policy \<Rightarrow> permission_request \<Rightarrow> session_grants \<Rightarrow> evaluation" where
  "evaluate p r gs =
     (let x = explain p r
      in case winning_decision x of
           Deny \<Rightarrow> EvDenied (matched_rule_ids x)
         | Ask \<Rightarrow> (case matching_grant gs r of
               None \<Rightarrow> EvAsk (matched_rule_ids x)
             | Some g \<Rightarrow> AllowedBySessionGrant (sg_id g))
         | Allow \<Rightarrow> AllowedByPolicy (matched_rule_ids x))"

section \<open>The decision against its specification\<close>

text \<open>
  The strictest decision of the matching rules; without one, the default or the exemption of
  immutable reads and direct memory; and the scope's ceiling on top.
\<close>

definition matching_decisions :: "permission_policy \<Rightarrow> permission_request \<Rightarrow> policy_decision set" where
  "matching_decisions p r = ru_decision ` set (filter (\<lambda>rule. rule_matches rule r) (po_rules p))"

definition unmatched_decision :: "permission_policy \<Rightarrow> permission_request \<Rightarrow> policy_decision" where
  "unmatched_decision p r =
     (if po_default p = Ask \<and> (is_safe_built_in_read r \<or> is_direct_memory_request r)
      then Allow else po_default p)"

definition rule_floor :: "permission_policy \<Rightarrow> permission_request \<Rightarrow> policy_decision" where
  "rule_floor p r =
     (if matching_decisions p r = {} then unmatched_decision p r
      else Min (matching_decisions p r))"

definition scope_ceiling :: "permission_policy \<Rightarrow> permission_request \<Rightarrow> policy_decision" where
  "scope_ceiling p r =
     (if po_reads_only p \<and> (rq_effect r \<noteq> Read \<or> \<not> within_read_ceiling (rq_scope r)) then Deny
      else if never_auto_allowed (rq_scope r) then Ask else Allow)"

lemma decision_cases: "d = Deny \<or> d = Ask \<or> d = (Allow :: policy_decision)"
  by (cases d) simp_all

lemma Min_decisions:
  assumes "finite ds" and "ds \<noteq> {}"
  shows "Min ds = (if Deny \<in> ds then Deny else if Ask \<in> ds then Ask else Allow)"
proof -
  have in_ds: "Min ds \<in> ds" and least: "\<And>d. d \<in> ds \<Longrightarrow> Min ds \<le> d"
    using assms by simp_all
  show ?thesis
    using in_ds least [of Deny] least [of Ask] decision_cases [of "Min ds"] by auto
qed

lemma min_decision: "min d Allow = d" "min Deny d = Deny"
  "min d Ask = (if d = Allow then Ask else d)" "min d Deny = Deny"
  by (cases d; simp add: min_def)+

lemma finite_matching_decisions [simp]: "finite (matching_decisions p r)"
  by (simp add: matching_decisions_def)

lemma rule_floor_cascade:
  "rule_floor p r =
     (if Deny \<in> matching_decisions p r then Deny
      else if Ask \<in> matching_decisions p r then Ask
      else if Allow \<in> matching_decisions p r then Allow else unmatched_decision p r)"
proof (cases "matching_decisions p r = {}")
  case False
  then have "Deny \<in> matching_decisions p r \<or> Ask \<in> matching_decisions p r
      \<or> Allow \<in> matching_decisions p r"
    by (metis decision_cases all_not_in_conv)
  then show ?thesis
    using False Min_decisions [OF finite_matching_decisions False] by (auto simp: rule_floor_def)
qed (simp add: rule_floor_def)

lemma list_ex_decision:
  "list_ex (\<lambda>rule. ru_decision rule = d) (filter (\<lambda>rule. rule_matches rule r) (po_rules p))
   \<longleftrightarrow> d \<in> matching_decisions p r"
  by (auto simp: list_ex_iff matching_decisions_def)

lemma winning_decision_eq: "winning_decision (explain p r) = min (rule_floor p r) (scope_ceiling p r)"
proof (cases "po_reads_only p \<and> (rq_effect r \<noteq> Read \<or> \<not> within_read_ceiling (rq_scope r))")
  case True
  then show ?thesis by (simp add: explain_def scope_ceiling_def min_decision)
next
  case False
  have "winning_decision (explain p r) =
      (if never_auto_allowed (rq_scope r) \<and> rule_floor p r = Allow then Ask else rule_floor p r)"
    unfolding explain_def Let_def list_ex_decision if_not_P [OF False]
      rule_floor_cascade unmatched_decision_def
    by (simp only: policy_explanation.select_convs)
  also have "\<dots> = min (rule_floor p r) (scope_ceiling p r)"
    unfolding scope_ceiling_def if_not_P [OF False] by (simp add: min_decision)
  finally show ?thesis .
qed

section \<open>Session grants\<close>

text \<open>
  The grants of a session: bounded, numbered apart, one per tool, effect and scope, and never on
  personal memory.
\<close>

definition grant_key :: "session_grant \<Rightarrow> rust_string \<times> effect_class \<times> permission_scope" where
  "grant_key g = (sg_tool g, sg_effect g, sg_scope g)"

definition grants_ok :: "session_grants \<Rightarrow> bool" where
  "grants_ok gs =
     (length (sgs_grants gs) \<le> MAX_SESSION_GRANTS
      \<and> distinct (map sg_id (sgs_grants gs)) \<and> distinct (map grant_key (sgs_grants gs))
      \<and> (\<forall>g \<in> set (sgs_grants gs). \<not> is_personal_memory (sg_scope g)
            \<and> (\<exists>n \<le> sgs_next gs. sg_id g = grant_name n)))"

definition grant_step ::
  "session_grants \<Rightarrow> permission_request \<times> permission_scope \<Rightarrow> session_grants" where
  "grant_step gs rs = fst (insert_grant gs (fst rs) (snd rs))"

lemma grant_name_inject [simp]: "grant_name m = grant_name n \<longleftrightarrow> m = n"
  by (simp add: grant_name_def)

lemma insert_grant_cases:
  obtains (same) "fst (insert_grant gs r scope) = gs"
  | (new) "\<not> is_personal_memory scope" "length (sgs_grants gs) < MAX_SESSION_GRANTS"
      "(rq_tool r, rq_effect r, scope) \<notin> grant_key ` set (sgs_grants gs)"
      "insert_grant gs r scope =
        (\<lparr>sgs_grants = sgs_grants gs @ [\<lparr>sg_id = grant_name (sgs_next gs + 1), sg_tool = rq_tool r,
            sg_effect = rq_effect r, sg_scope = scope\<rparr>], sgs_next = sgs_next gs + 1\<rparr>,
         Inr (grant_name (sgs_next gs + 1)))"
proof (cases "is_personal_memory scope \<or> length (sgs_grants gs) \<ge> MAX_SESSION_GRANTS
    \<or> find (\<lambda>g. sg_tool g = rq_tool r \<and> sg_effect g = rq_effect r \<and> sg_scope g = scope)
        (sgs_grants gs) \<noteq> None")
  case True
  then have "fst (insert_grant gs r scope) = gs"
    by (auto simp: insert_grant_def split: option.splits)
  then show thesis by (rule same)
next
  case False
  then have none: "find (\<lambda>g. sg_tool g = rq_tool r \<and> sg_effect g = rq_effect r \<and> sg_scope g = scope)
        (sgs_grants gs) = None" by simp
  then have "(rq_tool r, rq_effect r, scope) \<notin> grant_key ` set (sgs_grants gs)"
    by (auto simp: find_None_iff grant_key_def)
  with False none show thesis by (intro new) (simp_all add: insert_grant_def Let_def)
qed

lemma grant_step_ok:
  assumes "grants_ok gs"
  shows "grants_ok (grant_step gs rs)"
proof (cases rule: insert_grant_cases [of gs "fst rs" "snd rs"])
  case same
  then show ?thesis using assms by (simp add: grant_step_def)
next
  case new
  have "sg_id g \<noteq> grant_name (sgs_next gs + 1)" if "g \<in> set (sgs_grants gs)" for g
    using that assms by (auto simp: grants_ok_def)
  then have fresh: "grant_name (sgs_next gs + 1) \<notin> sg_id ` set (sgs_grants gs)" by force
  have "\<exists>n \<le> Suc (sgs_next gs). sg_id g = grant_name n" if "g \<in> set (sgs_grants gs)" for g
    using that assms by (force simp: grants_ok_def)
  then show ?thesis
    using assms new fresh by (auto simp: grant_step_def grants_ok_def grant_key_def)
qed

definition grants_stem_from ::
  "(permission_request \<times> permission_scope) set \<Rightarrow> session_grants \<Rightarrow> bool" where
  "grants_stem_from given gs =
     (\<forall>g \<in> set (sgs_grants gs). \<exists>(r, scope) \<in> given.
        sg_tool g = rq_tool r \<and> sg_effect g = rq_effect r \<and> sg_scope g = scope)"

lemma grants_stem_from_step:
  assumes "grants_stem_from given gs"
  shows "grants_stem_from (insert rs given) (grant_step gs rs)"
proof (cases rule: insert_grant_cases [of gs "fst rs" "snd rs"])
  case same
  then show ?thesis using assms by (auto simp: grants_stem_from_def grant_step_def)
next
  case new
  then have "grant_step gs rs = \<lparr>sgs_grants = sgs_grants gs @ [\<lparr>sg_id = grant_name (sgs_next gs + 1),
      sg_tool = rq_tool (fst rs), sg_effect = rq_effect (fst rs), sg_scope = snd rs\<rparr>],
      sgs_next = sgs_next gs + 1\<rparr>" by (simp add: grant_step_def)
  then show ?thesis using assms by (cases rs) (auto simp: grants_stem_from_def)
qed

lemma grants_stem_from_run: "grants_stem_from (set rss) (foldl grant_step no_grants rss)"
proof (induction rss rule: rev_induct)
  case Nil
  then show ?case by (simp add: grants_stem_from_def no_grants_def)
next
  case (snoc rs rss)
  then show ?case using grants_stem_from_step [OF snoc.IH, of rs] by simp
qed

interpretation sg: machine grant_step grants_ok
  by unfold_locales (rule grant_step_ok)

lemma no_grants_ok: "grants_ok no_grants"
  by (simp add: grants_ok_def no_grants_def)

lemma matching_grant_Some:
  "matching_grant gs r = Some g \<Longrightarrow>
     g \<in> set (sgs_grants gs) \<and> sg_tool g = rq_tool r \<and> sg_effect g = rq_effect r
     \<and> scope_contains (sg_scope g) (rq_scope r)"
  by (auto simp: matching_grant_def find_Some_iff dest: nth_mem)

lemma scope_contains_memory [simp]: "\<not> scope_contains g (PersonalMemory s v)"
  by (cases g) simp_all

lemma scope_contains_personal: "scope_contains g s \<Longrightarrow> \<not> is_personal_memory s"
  by (cases s) simp_all

lemma scope_contains_trans: "scope_contains a b \<Longrightarrow> scope_contains b c \<Longrightarrow> scope_contains a c"
  by (cases a; cases b; cases c) (auto intro: path_starts_with_trans)

section \<open>Properties\<close>

text \<open>
  C22: the decision is the strictest applicable one. The winning decision of the code's cascade is
  the minimum, in the order Deny, Ask, Allow, of the rule floor (the minimum over the matching
  rules, or the default with its two exemptions when none matches) and the scope's ceiling; it
  depends on the set of rules only, not on their order or repetition.
\<close>

theorem decision_is_strictest: "winning_decision (explain p r) = min (rule_floor p r) (scope_ceiling p r)"
  by (rule winning_decision_eq)

text \<open>
  What the policy alone allows is justified. If a request is allowed without a session grant,
  no matching rule denies or asks, its scope is not an external path, an external recipient or
  reviewed personal memory, and either a matching rule allows it, or no rule matches and the
  default allows, or the request is one of the two exemptions under an asking default.
\<close>

theorem policy_allowance_justified:
  assumes "evaluate p r gs = AllowedByPolicy ids"
  shows "(\<forall>rule \<in> set (po_rules p). rule_matches rule r \<longrightarrow> ru_decision rule = Allow)
    \<and> \<not> never_auto_allowed (rq_scope r)
    \<and> ((\<exists>rule \<in> set (po_rules p). rule_matches rule r)
       \<or> po_default p = Allow
       \<or> po_default p = Ask \<and> (is_safe_built_in_read r \<or> is_direct_memory_request r))"
proof -
  have "winning_decision (explain p r) = Allow"
    using assms by (auto simp: evaluate_def Let_def split: policy_decision.splits option.splits)
  then have floor: "rule_floor p r = Allow" and ceiling: "scope_ceiling p r = Allow"
    by (auto simp: winning_decision_eq min_def split: if_splits)
  have "ru_decision rule = Allow" if "rule \<in> set (po_rules p)" "rule_matches rule r" for rule
  proof -
    have "ru_decision rule \<in> matching_decisions p r" using that by (simp add: matching_decisions_def)
    then show ?thesis
      using floor by (cases "ru_decision rule") (auto simp: rule_floor_cascade split: if_splits)
  qed
  moreover have "matching_decisions p r = {} \<longleftrightarrow> \<not> (\<exists>rule \<in> set (po_rules p). rule_matches rule r)"
    by (auto simp: matching_decisions_def)
  ultimately show ?thesis
    using floor ceiling
    by (auto simp: rule_floor_def unmatched_decision_def scope_ceiling_def split: if_splits)
qed

definition sample_policy :: permission_policy where
  "sample_policy =
     \<lparr>po_default = Ask,
      po_rules = [\<lparr>ru_id = [97], ru_decision = Allow, ru_tool = Some (rstr ''read_file''),
        ru_effect = None, ru_workspace = None, ru_command = None\<rparr>],
      po_reads_only = False\<rparr>"

definition sample_read :: "permission_scope \<Rightarrow> permission_request" where
  "sample_read scope =
     \<lparr>rq_operation = 1, rq_invocation = 2, rq_tool = rstr ''read_file'', rq_effect = Read,
      rq_arguments = JNull, rq_scope = scope, rq_outbound = None\<rparr>"

lemmas policy_run =
  evaluate_def explain_def Let_def sample_policy_def sample_read_def rule_matches_def
  canonical_memory_name_def rstr_def

theorem policy_allowance_justified_witness:
  "evaluate sample_policy (sample_read (WorkspacePath [RootDir])) no_grants = AllowedByPolicy [[97]]
   \<and> \<not> never_auto_allowed (rq_scope (sample_read (WorkspacePath [RootDir])))"
proof -
  have "evaluate sample_policy (sample_read (WorkspacePath [RootDir])) no_grants
      = AllowedByPolicy [[97]]"
    by (simp add: policy_run)
  with policy_allowance_justified [OF this] show ?thesis by blast
qed

text \<open>The unattended ceiling. Under \<open>workspace_reads_only\<close> whatever is not denied, by policy or
  through a session grant, is a read of a workspace path or of a built-in resource.
\<close>

theorem unattended_reads_only:
  assumes "evaluate (workspace_reads_only p) r gs = ev" and "evaluation_decision ev \<noteq> Deny"
  shows "rq_effect r = Read \<and>
    ((\<exists>path. rq_scope r = WorkspacePath path) \<or> (\<exists>i. rq_scope r = BuiltInResource i))"
proof -
  have "winning_decision (explain (workspace_reads_only p) r) \<noteq> Deny"
    using assms by (auto simp: evaluate_def Let_def)
  then have "scope_ceiling (workspace_reads_only p) r \<noteq> Deny"
    by (auto simp: winning_decision_eq min_decision)
  then show ?thesis
    by (cases "rq_scope r") (auto simp: scope_ceiling_def workspace_reads_only_def split: if_splits)
qed

theorem unattended_reads_only_witness:
  "rq_effect (sample_read (WorkspacePath [RootDir])) = Read"
proof -
  have "evaluate (workspace_reads_only sample_policy) (sample_read (WorkspacePath [RootDir])) no_grants
      = AllowedByPolicy [[97]]"
    by (simp add: policy_run workspace_reads_only_def)
  from unattended_reads_only [OF this] show ?thesis by simp
qed

text \<open>Denying rules never loosen a policy. A policy that has all rules of another, in any order,
  and besides them only denying ones never decides more permissively; in particular the order of
  the rules does not matter.
\<close>

theorem deny_rules_never_loosen:
  assumes "po_default p' = po_default p" and "po_reads_only p' = po_reads_only p"
    and "set (po_rules p) \<subseteq> set (po_rules p')"
    and "\<forall>rule \<in> set (po_rules p') - set (po_rules p). ru_decision rule = Deny"
  shows "winning_decision (explain p' r) \<le> winning_decision (explain p r)"
proof -
  have sub: "matching_decisions p r \<subseteq> matching_decisions p' r"
    and extra: "matching_decisions p' r \<subseteq> insert Deny (matching_decisions p r)"
    using assms(3,4) by (auto simp: matching_decisions_def)
  have "rule_floor p' r \<le> rule_floor p r"
  proof (cases "Deny \<in> matching_decisions p' r")
    case True
    then show ?thesis by (simp add: rule_floor_cascade)
  next
    case False
    then have "matching_decisions p' r = matching_decisions p r" using sub extra by blast
    then have "rule_floor p' r = rule_floor p r"
      using assms(1) by (simp only: rule_floor_def unmatched_decision_def)
    then show ?thesis by simp
  qed
  moreover have "scope_ceiling p' r = scope_ceiling p r"
    using assms(2) by (simp add: scope_ceiling_def)
  ultimately show ?thesis by (simp add: winning_decision_eq min.coboundedI1)
qed

theorem deny_rules_never_loosen_witness:
  "winning_decision (explain (sample_policy\<lparr>po_rules := po_rules sample_policy
      @ [\<lparr>ru_id = [98], ru_decision = Deny, ru_tool = None, ru_effect = Some Read,
          ru_workspace = None, ru_command = None\<rparr>]\<rparr>) (sample_read Unscoped))
   \<le> winning_decision (explain sample_policy (sample_read Unscoped))"
  by (rule deny_rules_never_loosen) auto

text \<open>
  Session grants are sound and bounded. After any sequence of insertions there are at most 256
  grants with distinct ids; a request allowed by one was asked about by the policy, has the tool
  and effect of a request the user granted a scope containing its own, and never concerns
  personal memory.
\<close>

theorem session_grants_sound:
  assumes "gs = foldl grant_step no_grants given"
    and "evaluate p r gs = AllowedBySessionGrant i"
  shows "winning_decision (explain p r) = Ask \<and> \<not> is_personal_memory (rq_scope r)
    \<and> (\<exists>(r', scope) \<in> set given. rq_tool r' = rq_tool r \<and> rq_effect r' = rq_effect r
         \<and> scope_contains scope (rq_scope r))
    \<and> length (sgs_grants gs) \<le> 256 \<and> distinct (map sg_id (sgs_grants gs))"
proof -
  from assms(2) obtain g where ask: "winning_decision (explain p r) = Ask"
    and g: "matching_grant gs r = Some g"
    by (auto simp: evaluate_def Let_def split: policy_decision.splits option.splits)
  note m = matching_grant_Some [OF g]
  have "grants_ok gs" using sg.run_inv [OF no_grants_ok] assms(1) by simp
  then have bounded: "length (sgs_grants gs) \<le> 256 \<and> distinct (map sg_id (sgs_grants gs))"
    by (simp add: grants_ok_def MAX_SESSION_GRANTS_def)
  from grants_stem_from_run [of given] m obtain r' scope where "(r', scope) \<in> set given"
    "sg_tool g = rq_tool r'" "sg_effect g = rq_effect r'" "sg_scope g = scope"
    by (auto simp: grants_stem_from_def assms(1))
  then have "\<exists>(r', scope) \<in> set given. rq_tool r' = rq_tool r \<and> rq_effect r' = rq_effect r
      \<and> scope_contains scope (rq_scope r)" using m by auto
  then show ?thesis using ask bounded m scope_contains_personal by blast
qed

theorem session_grants_sound_witness:
  "\<not> is_personal_memory (rq_scope (sample_read (ExternalPath [RootDir])))"
proof -
  let ?r = "sample_read (ExternalPath [RootDir])"
  have "evaluate sample_policy ?r (foldl grant_step no_grants [(?r, ExternalPath [RootDir])])
      = AllowedBySessionGrant (grant_name 1)"
    by (simp add: policy_run grant_step_def insert_grant_def no_grants_def MAX_SESSION_GRANTS_def
        matching_grant_def)
  from session_grants_sound [OF refl this] show ?thesis by blast
qed

text \<open>A memory action has one spelling for the rules. The umbrella call \<open>memory_update\<close> whose
  host-normalized action is \<open>remember\<close>, \<open>correct\<close> or \<open>forget\<close> matches exactly the rules that the
  action-specific call with the same effect and scope matches, so that neither spelling gets
  around a rule written for the other.
\<close>

theorem memory_spelling_does_not_matter:
  assumes "(action, name) \<in> {(''remember'', ''memory_remember''), (''correct'', ''memory_correct''),
      (''forget'', ''memory_forget'')}"
    and "is_personal_memory (rq_scope r)" and "rq_tool r = rstr ''memory_update''"
    and "json_index (rq_arguments r) (rstr ''action'') = JString (rstr action)"
  shows "rule_matches rule r \<longleftrightarrow> rule_matches rule (r\<lparr>rq_tool := rstr name\<rparr>)"
proof -
  have "canonical_memory_name r = rstr name"
    using assms by (auto simp: canonical_memory_name_def Let_def rstr_def)
  moreover have "canonical_memory_name (r\<lparr>rq_tool := rstr name\<rparr>) = rstr name"
    using assms(1) by (auto simp: canonical_memory_name_def Let_def rstr_def)
  ultimately show ?thesis by (simp add: rule_matches_def Let_def cong: option.case_cong)
qed

theorem memory_spelling_does_not_matter_witness:
  "rule_matches \<lparr>ru_id = [97], ru_decision = Deny, ru_tool = Some (rstr ''memory_forget''),
      ru_effect = None, ru_workspace = None, ru_command = None\<rparr>
     \<lparr>rq_operation = 1, rq_invocation = 2, rq_tool = rstr ''memory_update'', rq_effect = Write,
      rq_arguments = JObject [(rstr ''action'', JString (rstr ''forget''))],
      rq_scope = PersonalMemory [97] False, rq_outbound = None\<rparr>"
  by (subst memory_spelling_does_not_matter [where action = "''forget''" and name = "''memory_forget''"])
    (simp_all add: rule_matches_def canonical_memory_name_def rstr_def)

lemma resolve_rules_confined:
  assumes "resolve_rules canonicalize root rules = Inr rules'" and "canonicalize root = Some base"
    and "rule \<in> set rules'" and "ru_workspace rule = Some w"
  shows "path_starts_with w base"
  using assms
proof (induction canonicalize root rules arbitrary: rules' rule: resolve_rules.induct)
  case (2 canonicalize root r rs)
  from "2.prems"(1) obtain r' rs' where rest: "resolve_rules canonicalize root rs = Inr rs'"
    and rules': "rules' = r' # rs'"
    and first: "(case ru_workspace r of
         Some w \<Rightarrow> (case resolve_rule_workspace canonicalize w root of
             Inl e \<Rightarrow> Inl (InvalidWorkspace (ru_id r))
           | Inr p \<Rightarrow> Inr (r\<lparr>ru_workspace := Some p\<rparr>))
       | None \<Rightarrow> Inr r) = Inr r'"
    by (auto simp: res_simps)
  show ?case
  proof (cases "rule \<in> set rs'")
    case True
    then show ?thesis using "2.IH" [OF rest "2.prems"(2) True "2.prems"(4)] by blast
  next
    case False
    then have "rule = r'" using rules' "2.prems"(3) by simp
    then show ?thesis
      using first "2.prems"(2,4)
      by (auto simp: resolve_rule_workspace_def res_simps split: option.splits sum.splits if_splits)
  qed
qed simp

text \<open>Workspace rules stay in the workspace. Whatever the file system's canonicalization, a rule
  that names a workspace in an accepted policy matches only requests whose path or working
  directory lies under the canonical workspace root.
\<close>

theorem workspace_rules_confined:
  assumes "new_policy canonicalize fallback rules root = Inr p" and "canonicalize root = Some base"
    and "rule \<in> set (po_rules p)" and "ru_workspace rule \<noteq> None" and "rule_matches rule r"
  shows "\<exists>q. scope_path (rq_scope r) = Some q \<and> path_starts_with q base"
proof -
  from assms(4) obtain w where w: "ru_workspace rule = Some w" by blast
  from assms(1) have "resolve_rules canonicalize root rules = Inr (po_rules p)"
    by (auto simp: new_policy_def res_simps)
  from resolve_rules_confined [OF this assms(2,3) w] have "path_starts_with w base" .
  moreover obtain q where "scope_path (rq_scope r) = Some q" "path_starts_with q w"
    using assms(5) w by (cases "scope_path (rq_scope r)") (simp_all add: rule_matches_def Let_def)
  ultimately show ?thesis using path_starts_with_trans by blast
qed

theorem workspace_rules_confined_witness:
  "path_starts_with [RootDir, Normal [119], Normal [115], Normal [116]] [RootDir, Normal [119]]"
proof -
  let ?rule = "\<lambda>w. \<lparr>ru_id = [97], ru_decision = Allow, ru_tool = None, ru_effect = None,
      ru_workspace = Some w, ru_command = None\<rparr>"
  let ?base = "[RootDir, Normal [119]]"
  have "new_policy Some Ask [?rule [Normal [115]]] ?base
      = Inr \<lparr>po_default = Ask, po_rules = [?rule (?base @ [Normal [115]])], po_reads_only = False\<rparr>"
    by (simp add: new_policy_def validate_rules_def check_rule_def ensure_def trim_def
        is_whitespace_def resolve_rule_workspace_def is_absolute_def path_join_def
        path_starts_with_def)
  from workspace_rules_confined [OF this refl, of "?rule (?base @ [Normal [115]])"
      "sample_read (WorkspacePath [RootDir, Normal [119], Normal [115], Normal [116]])"]
  show ?thesis
    by (simp add: rule_matches_def canonical_memory_name_def sample_read_def path_starts_with_def
        rstr_def)
qed

end
