(* ===== verification/Permission_Broker.thy ===== *)
theory Permission_Broker
  imports Permission_Policy "HOL-Library.Product_Lexorder"
begin

text \<open>
  The permission broker, \<open>src/src/permission/broker.rs\<close>: one task that owns the policy, the
  session grants, the remembered denials and the pending requests, and handles one command at a
  time. A oneshot sender is a ticket; what is sent through it is appended to \<open>answers\<close>. The
  digest of a request is a parameter, with what it covers written out; so are the iteration
  order of the pending map (a rank of the keys, any order being one) and which events the channel
  accepts.
\<close>

section \<open>Data\<close>

datatype controller_decision =
  AllowWebTurn | DenyRequest | AllowRequestOnce | AllowSession permission_scope
| SaveOutboundAllow | SaveOutboundDeny

record audit_fact =
  af_request :: permission_request
  af_policy :: policy_decision
  af_controller :: "controller_decision option"
  af_effective :: policy_decision

datatype authorization = AuthAllowed audit_fact | AuthDenied audit_fact

type_synonym permission_key = "uuid \<times> uuid"

record pending_request =
  pe_request :: permission_request
  pe_policy :: policy_decision
  pe_ticket :: nat

datatype broker_event =
  OperationSuspended uuid | OperationRunning uuid
| PermissionRequested permission_request | PermissionAudited audit_fact

datatype decision_error =
  UnknownDecision uuid uuid | ScopeMismatch uuid uuid | BrokerUnavailable | GrantLimit

definition MAX_DENIALS :: nat where "MAX_DENIALS = 1024"

text \<open>What the digest of a denial covers: everything but the invocation.\<close>

type_synonym denial_material =
  "uuid \<times> rust_string \<times> effect_class \<times> permission_scope \<times> json \<times> approval_request option"

definition denial_material :: "permission_request \<Rightarrow> denial_material" where
  "denial_material r =
     (rq_operation r, rq_tool r, rq_effect r, rq_scope r, rq_arguments r, rq_outbound r)"

record 'h broker =
  br_policy :: permission_policy
  br_grants :: session_grants
  br_web_turns :: "(uuid, rust_string) btree"
  br_denials :: "'h list"
  br_pending :: "(permission_key, pending_request) btree"
  br_controller :: bool
  br_emit_audit :: bool
  br_running :: bool
  br_events :: "broker_event list"
  br_answers :: "(nat \<times> authorization) list"

text \<open>The environment of one command: the digest, the map's iteration order, the event channel.\<close>

record 'h broker_env =
  en_hash :: "denial_material \<Rightarrow> 'h"
  en_rank :: "permission_key \<Rightarrow> nat"
  en_accepts :: "broker_event \<Rightarrow> bool"

definition denial_key :: "'h broker_env \<Rightarrow> permission_request \<Rightarrow> 'h" where
  "denial_key env r = en_hash env (denial_material r)"

definition emit :: "'h broker_env \<Rightarrow> broker_event \<Rightarrow> 'h broker \<Rightarrow> 'h broker" where
  "emit env e s = (if en_accepts env e then s\<lparr>br_events := br_events s @ [e]\<rparr> else s)"

section \<open>Startup\<close>

fun restore_denials :: "'h broker_env \<Rightarrow> audit_fact list \<Rightarrow> 'h list \<Rightarrow> 'h list" where
  "restore_denials env [] ds = ds"
| "restore_denials env (f # fs) ds =
     (if af_effective f = Deny \<and> af_controller f = Some DenyRequest then
        (let ds = List.insert (denial_key env (af_request f)) ds
         in if length ds = MAX_DENIALS then ds else restore_denials env fs ds)
      else restore_denials env fs ds)"

definition spawn_broker ::
  "'h broker_env \<Rightarrow> permission_policy \<Rightarrow> bool \<Rightarrow> bool \<Rightarrow> audit_fact list \<Rightarrow> 'h broker" where
  "spawn_broker env p controller_present emit_audit committed =
     \<lparr>br_policy = p, br_grants = no_grants, br_web_turns = [],
      br_denials = restore_denials env committed [], br_pending = [],
      br_controller = controller_present, br_emit_audit = emit_audit, br_running = True,
      br_events = [], br_answers = []\<rparr>"

section \<open>Handlers\<close>

definition finish_immediate ::
  "'h broker_env \<Rightarrow> permission_request \<Rightarrow> policy_decision \<Rightarrow> controller_decision option
    \<Rightarrow> policy_decision \<Rightarrow> nat \<Rightarrow> 'h broker \<Rightarrow> 'h broker" where
  "finish_immediate env r policy controller eff ticket s =
     (let fact = \<lparr>af_request = r, af_policy = policy, af_controller = controller,
            af_effective = eff\<rparr>;
          authorization = (if eff = Allow then AuthAllowed fact else AuthDenied fact);
          s = (if br_emit_audit s then emit env (PermissionAudited fact) s else s)
      in s\<lparr>br_answers := br_answers s @ [(ticket, authorization)]\<rparr>)"

definition web_review :: "permission_request \<Rightarrow> public_web_review option" where
  "web_review r = (case rq_outbound r of Some review \<Rightarrow> public_web_scope review | None \<Rightarrow> None)"

definition public_web_decision :: "'h broker \<Rightarrow> permission_request \<Rightarrow> controller_decision option" where
  "public_web_decision s r =
     (case web_review r of
        Some web \<Rightarrow>
          if pw_persisted_allow web \<or> bt_get (br_web_turns s) (rq_operation r) = Some (pw_route web)
          then Some AllowWebTurn else None
      | None \<Rightarrow> None)"

definition cancel_pending :: "'h broker_env \<Rightarrow> permission_key \<Rightarrow> 'h broker \<Rightarrow> 'h broker" where
  "cancel_pending env k s =
     (case bt_get (br_pending s) k of
        None \<Rightarrow> s
      | Some p \<Rightarrow> finish_immediate env (pe_request p) (pe_policy p) None Deny (pe_ticket p)
          (s\<lparr>br_pending := bt_remove k (br_pending s)\<rparr>))"

fun is_ask :: "evaluation \<Rightarrow> bool" where
  "is_ask (EvAsk ids) = True"
| "is_ask (EvDenied ids) = False"
| "is_ask (AllowedByPolicy ids) = False"
| "is_ask (AllowedBySessionGrant i) = False"

text \<open>The last arm of \<open>authorize\<close>: put the request before the controller.\<close>

definition suspend_request ::
  "'h broker_env \<Rightarrow> permission_request \<Rightarrow> policy_decision \<Rightarrow> nat \<Rightarrow> 'h broker \<Rightarrow> 'h broker" where
  "suspend_request env r policy ticket s =
     (let key = (rq_operation r, rq_invocation r)
      in if bt_contains (br_pending s) key
         then finish_immediate env r policy None Deny ticket s
         else
           let s = s\<lparr>br_pending := bt_insert key
                 \<lparr>pe_request = r, pe_policy = policy, pe_ticket = ticket\<rparr> (br_pending s)\<rparr>;
               s = emit env (OperationSuspended (rq_operation r)) s;
               s = emit env (PermissionRequested r) s
           in if en_accepts env (PermissionRequested r) then s
              else cancel_pending env key (s\<lparr>br_controller := False\<rparr>))"

definition authorize ::
  "'h broker_env \<Rightarrow> permission_request \<Rightarrow> nat \<Rightarrow> 'h broker \<Rightarrow> 'h broker" where
  "authorize env r ticket s =
     (let ev = evaluate (br_policy s) r (br_grants s);
          policy = evaluation_decision ev
      in if denial_key env r \<in> set (br_denials s)
            \<or> is_ask ev \<and> length (br_denials s) \<ge> MAX_DENIALS
         then finish_immediate env r policy None Deny ticket s
         else case ev of
           EvDenied ids \<Rightarrow> finish_immediate env r policy None Deny ticket s
         | AllowedByPolicy ids \<Rightarrow>
             finish_immediate env r policy (public_web_decision s r) Allow ticket s
         | AllowedBySessionGrant i \<Rightarrow>
             finish_immediate env r policy (public_web_decision s r) Allow ticket s
         | EvAsk ids \<Rightarrow>
             if \<not> br_controller s then finish_immediate env r policy None Deny ticket s
             else if public_web_decision s r \<noteq> None
             then finish_immediate env r policy (Some AllowWebTurn) Allow ticket s
             else suspend_request env r policy ticket s)"

definition deny_all_pending :: "'h broker_env \<Rightarrow> 'h broker \<Rightarrow> 'h broker" where
  "deny_all_pending env s =
     fold (\<lambda>p s. finish_immediate env (pe_request p) (pe_policy p) None Deny (pe_ticket p) s)
       (map (\<lambda>k. the (bt_get (br_pending s) k)) (sort_key (en_rank env) (bt_keys (br_pending s))))
       (s\<lparr>br_pending := []\<rparr>)"

text \<open>The checks of \<open>decide\<close> and its two insertions, which come before the pending request goes.\<close>

definition check_decision ::
  "permission_request \<Rightarrow> controller_decision \<Rightarrow> uuid \<Rightarrow> uuid \<Rightarrow> decision_error + unit" where
  "check_decision r d operation invocation =
     (case d of
        AllowSession scope \<Rightarrow>
          if scope \<noteq> rq_scope r \<or> is_personal_memory scope
          then Inl (ScopeMismatch operation invocation) else Inr ()
      | SaveOutboundAllow \<Rightarrow>
          (case rq_scope r of ExternalScope x y \<Rightarrow> Inr ()
           | _ \<Rightarrow> Inl (ScopeMismatch operation invocation))
      | SaveOutboundDeny \<Rightarrow>
          (case rq_scope r of ExternalScope x y \<Rightarrow> Inr ()
           | _ \<Rightarrow> Inl (ScopeMismatch operation invocation))
      | _ \<Rightarrow> Inr ())"

definition record_choice ::
  "permission_request \<Rightarrow> controller_decision \<Rightarrow> uuid \<Rightarrow> uuid \<Rightarrow> 'h broker
    \<Rightarrow> 'h broker \<times> (decision_error + unit)" where
  "record_choice r d operation invocation s =
     (case d of
        AllowWebTurn \<Rightarrow>
          (case web_review r of
             None \<Rightarrow> (s, Inl (ScopeMismatch operation invocation))
           | Some web \<Rightarrow>
               if length (br_web_turns s) \<ge> MAX_DENIALS \<and> \<not> bt_contains (br_web_turns s) operation
               then (s, Inl GrantLimit)
               else (s\<lparr>br_web_turns := bt_insert operation (pw_route web) (br_web_turns s)\<rparr>, Inr ()))
      | AllowSession scope \<Rightarrow>
          (case insert_grant (br_grants s) r scope of
             (gs, Inl _) \<Rightarrow> (s\<lparr>br_grants := gs\<rparr>, Inl GrantLimit)
           | (gs, Inr _) \<Rightarrow> (s\<lparr>br_grants := gs\<rparr>, Inr ()))
      | _ \<Rightarrow> (s, Inr ()))"

text \<open>Pending web requests of the operation that the new web turn covers, authorized again.\<close>

definition web_turn_keys :: "'h broker_env \<Rightarrow> uuid \<Rightarrow> 'h broker \<Rightarrow> permission_key list" where
  "web_turn_keys env operation s =
     filter (\<lambda>k. fst k = operation \<and>
         (case bt_get (br_pending s) k of
            Some p \<Rightarrow> (case web_review (pe_request p) of
                Some web \<Rightarrow> bt_get (br_web_turns s) operation = Some (pw_route web)
              | None \<Rightarrow> False)
          | None \<Rightarrow> False))
       (sort_key (en_rank env) (bt_keys (br_pending s)))"

definition reauthorize :: "'h broker_env \<Rightarrow> permission_key \<Rightarrow> 'h broker \<Rightarrow> 'h broker" where
  "reauthorize env k s =
     (case bt_get (br_pending s) k of
        None \<Rightarrow> s
      | Some p \<Rightarrow> authorize env (pe_request p) (pe_ticket p)
          (s\<lparr>br_pending := bt_remove k (br_pending s)\<rparr>))"

definition settle_decision ::
  "'h broker_env \<Rightarrow> permission_key \<Rightarrow> pending_request \<Rightarrow> controller_decision \<Rightarrow> 'h broker \<Rightarrow> 'h broker"
where
  "settle_decision env key p d s =
     (let s = s\<lparr>br_pending := bt_remove key (br_pending s)\<rparr>;
          eff = (if d = DenyRequest then Deny else Allow);
          s = (if eff = Deny \<and> length (br_denials s) < MAX_DENIALS
               then s\<lparr>br_denials := List.insert (denial_key env (pe_request p)) (br_denials s)\<rparr>
               else s);
          s = emit env (OperationRunning (fst key)) s;
          s = finish_immediate env (pe_request p) (pe_policy p) (Some d) eff (pe_ticket p) s
      in if d = AllowWebTurn then fold (reauthorize env) (web_turn_keys env (fst key) s) s else s)"

definition decide ::
  "'h broker_env \<Rightarrow> uuid \<Rightarrow> uuid \<Rightarrow> controller_decision \<Rightarrow> 'h broker
    \<Rightarrow> 'h broker \<times> (decision_error + unit)" where
  "decide env operation invocation d s =
     (let key = (operation, invocation)
      in case bt_get (br_pending s) key of
           None \<Rightarrow> (s, Inl (UnknownDecision operation invocation))
         | Some p \<Rightarrow>
             (case check_decision (pe_request p) d operation invocation of
                Inl e \<Rightarrow> (s, Inl e)
              | Inr _ \<Rightarrow>
                  (case record_choice (pe_request p) d operation invocation s of
                     (s, Inl e) \<Rightarrow> (s, Inl e)
                   | (s, Inr _) \<Rightarrow> (settle_decision env key p d s, Inr ()))))"

section \<open>The task\<close>

datatype broker_command =
  ReplacePolicy permission_policy
| Authorize permission_request nat
| Decide uuid uuid controller_decision
| CancelRequest uuid uuid
| ControllerLost
| OperationFinished uuid
| Shutdown

text \<open>After \<open>Shutdown\<close> the task has returned: later commands reach nobody.\<close>

definition broker_step :: "'h broker \<Rightarrow> 'h broker_env \<times> broker_command \<Rightarrow> 'h broker" where
  "broker_step s ec =
     (let env = fst ec
      in if \<not> br_running s then s
         else case snd ec of
           ReplacePolicy p \<Rightarrow>
             if br_pending s = []
             then s\<lparr>br_policy := p, br_grants := no_grants, br_web_turns := []\<rparr> else s
         | OperationFinished operation \<Rightarrow>
             s\<lparr>br_web_turns := bt_remove operation (br_web_turns s)\<rparr>
         | Authorize r ticket \<Rightarrow> authorize env r ticket s
         | Decide operation invocation d \<Rightarrow> fst (decide env operation invocation d s)
         | CancelRequest operation invocation \<Rightarrow> cancel_pending env (operation, invocation) s
         | ControllerLost \<Rightarrow> deny_all_pending env (s\<lparr>br_controller := False\<rparr>)
         | Shutdown \<Rightarrow> (deny_all_pending env (s\<lparr>br_controller := False\<rparr>))\<lparr>br_running := False\<rparr>)"

lemma stopped_step [simp]: "\<not> br_running s \<Longrightarrow> broker_step s ec = s"
  by (simp add: broker_step_def)

section \<open>Accounting and justification of answers\<close>

definition pending_tickets :: "'h broker \<Rightarrow> nat list" where
  "pending_tickets s = map (pe_ticket \<circ> snd) (br_pending s)"

text \<open>Every ticket a command brought is answered or pending.\<close>

definition accounted :: "'h broker \<Rightarrow> nat multiset" where
  "accounted s = mset (map fst (br_answers s)) + mset (pending_tickets s)"

text \<open>Pending requests are the asked-about ones, filed under their own identifiers.\<close>

definition broker_ok :: "'h broker \<Rightarrow> bool" where
  "broker_ok s =
     (bt_wf (br_pending s) \<and>
      (\<forall>(k, p) \<in> set (br_pending s). k = (rq_operation (pe_request p), rq_invocation (pe_request p))
         \<and> pe_policy p = Ask \<and> winning_decision (explain (br_policy s) (pe_request p)) = Ask))"

text \<open>
  What an allowance rests on: the policy, or a consent, which is a parameter: \<open>K t f\<close> says that the
  request of the fact \<open>f\<close>, asked under the ticket \<open>t\<close>, was consented to; and never against a denying
  policy.
\<close>

type_synonym consent = "nat \<Rightarrow> audit_fact \<Rightarrow> bool"

fun justified :: "permission_policy \<Rightarrow> consent \<Rightarrow> nat \<times> authorization \<Rightarrow> bool" where
  "justified p K (t, AuthDenied f) = True"
| "justified p K (t, AuthAllowed f) =
     (af_policy f = winning_decision (explain p (af_request f))
      \<and> (case af_policy f of Deny \<Rightarrow> False | Allow \<Rightarrow> True | Ask \<Rightarrow> K t f))"

text \<open>
  What the state itself consents to without asking: a session grant, and, before a controller, a
  web turn or a persisted choice for the route. A request allowed on the latter says so.
\<close>

definition web_allowed :: "'h broker \<Rightarrow> audit_fact \<Rightarrow> bool" where
  "web_allowed s f =
     (br_controller s \<and> public_web_decision s (af_request f) \<noteq> None \<and> af_controller f = Some AllowWebTurn)"

definition covers :: "consent \<Rightarrow> 'h broker \<Rightarrow> bool" where
  "covers K s =
     (\<forall>t f. matching_grant (br_grants s) (af_request f) \<noteq> None \<or> web_allowed s f \<longrightarrow> K t f)"

definition advances :: "consent \<Rightarrow> nat multiset \<Rightarrow> 'h broker \<Rightarrow> 'h broker \<Rightarrow> bool" where
  "advances K ts s s' =
     (broker_ok s' \<and> br_policy s' = br_policy s \<and> br_running s' = br_running s
      \<and> br_grants s' = br_grants s \<and> br_web_turns s' = br_web_turns s
      \<and> (br_controller s' \<longrightarrow> br_controller s) \<and> accounted s' = accounted s + ts
      \<and> set (br_denials s) \<subseteq> set (br_denials s')
      \<and> (\<exists>new. br_answers s' = br_answers s @ new
           \<and> (\<forall>a \<in> set new. justified (br_policy s) K a)))"

lemma advances_refl: "broker_ok s \<Longrightarrow> advances K {#} s s"
  by (simp add: advances_def)

lemma web_decision_cong:
  "br_web_turns s' = br_web_turns s \<Longrightarrow> public_web_decision s' r = public_web_decision s r"
  by (simp add: public_web_decision_def cong: option.case_cong)

lemma advances_covers:
  assumes "covers K s" and "advances K ts s s'"
  shows "covers K s'"
proof -
  have "br_grants s' = br_grants s" "br_controller s' \<longrightarrow> br_controller s" "br_web_turns s' = br_web_turns s"
    using assms(2) by (simp_all add: advances_def)
  moreover from web_decision_cong [OF this(3)] have "public_web_decision s' r = public_web_decision s r" for r .
  moreover note assms(1)
  ultimately show ?thesis unfolding covers_def web_allowed_def by metis
qed

lemma advances_trans:
  assumes "advances K ts s s'" and "advances K us s' s''"
  shows "advances K (ts + us) s s''"
proof -
  obtain new new' where "br_answers s' = br_answers s @ new"
    "\<forall>a \<in> set new. justified (br_policy s) K a"
    "br_answers s'' = br_answers s' @ new'"
    "\<forall>a \<in> set new'. justified (br_policy s') K a"
    using assms by (auto simp: advances_def)
  then have "br_answers s'' = br_answers s @ (new @ new')
      \<and> (\<forall>a \<in> set (new @ new'). justified (br_policy s) K a)"
    using assms(1) by (auto simp: advances_def)
  then show ?thesis using assms unfolding advances_def by auto
qed

lemma emit_fields [simp]:
  "br_policy (emit env e s) = br_policy s" "br_grants (emit env e s) = br_grants s"
  "br_web_turns (emit env e s) = br_web_turns s" "br_denials (emit env e s) = br_denials s"
  "br_pending (emit env e s) = br_pending s" "br_controller (emit env e s) = br_controller s"
  "br_emit_audit (emit env e s) = br_emit_audit s" "br_running (emit env e s) = br_running s"
  "br_answers (emit env e s) = br_answers s"
  by (simp_all add: emit_def)

definition answer_of ::
  "permission_request \<Rightarrow> policy_decision \<Rightarrow> controller_decision option \<Rightarrow> policy_decision
    \<Rightarrow> authorization" where
  "answer_of r policy controller eff =
     (let fact = \<lparr>af_request = r, af_policy = policy, af_controller = controller,
            af_effective = eff\<rparr>
      in if eff = Allow then AuthAllowed fact else AuthDenied fact)"

lemma finish_immediate_fields [simp]:
  "br_policy (finish_immediate env r pd c e t s) = br_policy s"
  "br_grants (finish_immediate env r pd c e t s) = br_grants s"
  "br_web_turns (finish_immediate env r pd c e t s) = br_web_turns s"
  "br_denials (finish_immediate env r pd c e t s) = br_denials s"
  "br_pending (finish_immediate env r pd c e t s) = br_pending s"
  "br_controller (finish_immediate env r pd c e t s) = br_controller s"
  "br_running (finish_immediate env r pd c e t s) = br_running s"
  "br_answers (finish_immediate env r pd c e t s) = br_answers s @ [(t, answer_of r pd c e)]"
  by (simp_all add: finish_immediate_def answer_of_def Let_def)

lemma finish_immediate_advances:
  assumes "broker_ok s" and "justified (br_policy s) K (t, answer_of r pd c e)"
  shows "advances K {#t#} s (finish_immediate env r pd c e t s)"
  using assms by (auto simp: advances_def broker_ok_def accounted_def pending_tickets_def)

lemma justified_denied [simp]: "justified p K (t, answer_of r pd c Deny)"
  by (simp add: answer_of_def)

lemma broker_ok_remove:
  "broker_ok s \<Longrightarrow> broker_ok (s\<lparr>br_pending := bt_remove k (br_pending s)\<rparr>)"
  by (auto simp: broker_ok_def bt_wf_remove set_bt_remove)

lemma accounted_remove:
  assumes "broker_ok s" and "bt_get (br_pending s) k = Some p"
  shows "accounted s = accounted (s\<lparr>br_pending := bt_remove k (br_pending s)\<rparr>) + {#pe_ticket p#}"
  using mset_bt_remove [OF _ assms(2)] assms(1)
  by (simp add: accounted_def pending_tickets_def broker_ok_def)

text \<open>Removing a pending request and then answering it (one way or another) conserves tickets.\<close>

lemma remove_then_answer:
  assumes "broker_ok s" and "bt_get (br_pending s) k = Some p"
    and "advances K {#pe_ticket p#} (s\<lparr>br_pending := bt_remove k (br_pending s)\<rparr>) s'"
  shows "advances K {#} s s'"
  using assms(3) accounted_remove [OF assms(1,2)] by (auto simp: advances_def)

lemma cancel_pending_advances:
  assumes "broker_ok s"
  shows "advances K {#} s (cancel_pending env k s)"
proof (cases "bt_get (br_pending s) k")
  case None
  then show ?thesis using assms by (simp add: cancel_pending_def advances_refl)
next
  case (Some p)
  show ?thesis
    unfolding cancel_pending_def Some option.case
    by (rule remove_then_answer [OF assms Some])
      (intro finish_immediate_advances broker_ok_remove assms, simp)
qed

lemma suspend_request_advances:
  assumes "broker_ok s" and "winning_decision (explain (br_policy s) r) = Ask"
  shows "advances K {#t#} s (suspend_request env r Ask t s)"
proof (cases "bt_contains (br_pending s) (rq_operation r, rq_invocation r)")
  case True
  then show ?thesis
    using assms(1) by (simp add: suspend_request_def Let_def finish_immediate_advances)
next
  case False
  let ?k = "(rq_operation r, rq_invocation r)"
  let ?p = "\<lparr>pe_request = r, pe_policy = Ask, pe_ticket = t\<rparr>"
  let ?s = "emit env (PermissionRequested r) (emit env (OperationSuspended (rq_operation r))
      (s\<lparr>br_pending := bt_insert ?k ?p (br_pending s)\<rparr>))"
  have none: "bt_get (br_pending s) ?k = None" using False by (simp add: bt_contains_def)
  have fresh: "mset (bt_insert ?k ?p (br_pending s)) = add_mset (?k, ?p) (mset (br_pending s))"
    by (rule mset_bt_insert [OF none])
  then have "set (bt_insert ?k ?p (br_pending s)) = insert (?k, ?p) (set (br_pending s))"
    by (metis set_mset_add_mset_insert set_mset_mset)
  then have ok: "broker_ok ?s"
    using assms by (auto simp: broker_ok_def bt_wf_insert)
  then have put: "advances K {#t#} s ?s" "advances K {#t#} s (?s\<lparr>br_controller := False\<rparr>)"
    using fresh by (auto simp: advances_def accounted_def pending_tickets_def broker_ok_def)
  have "advances K {#} (?s\<lparr>br_controller := False\<rparr>)
      (cancel_pending env ?k (?s\<lparr>br_controller := False\<rparr>))"
    using ok by (intro cancel_pending_advances) (simp add: broker_ok_def)
  from advances_trans [OF put(2) this] put(1) False show ?thesis
    by (simp add: suspend_request_def Let_def)
qed

lemma evaluation_decision_winning:
  "evaluation_decision (evaluate p r gs) = winning_decision (explain p r)"
  by (cases "winning_decision (explain p r)")
    (simp_all add: evaluate_def Let_def split: option.splits)

lemma evaluate_granted:
  "evaluate p r gs = AllowedBySessionGrant i \<Longrightarrow>
     winning_decision (explain p r) = Ask \<and> matching_grant gs r \<noteq> None"
  by (auto simp: evaluate_def Let_def split: policy_decision.splits option.splits)

lemma authorize_advances:
  assumes "broker_ok s" and "covers K s"
  shows "advances K {#t#} s (authorize env r t s)"
proof -
  let ?ev = "evaluate (br_policy s) r (br_grants s)"
  have win: "winning_decision (explain (br_policy s) r) = evaluation_decision ?ev"
    by (simp add: evaluation_decision_winning)
  show ?thesis
  proof (cases "denial_key env r \<in> set (br_denials s)
      \<or> is_ask ?ev \<and> length (br_denials s) \<ge> MAX_DENIALS")
    case True
    then show ?thesis using assms(1) by (simp add: authorize_def Let_def finish_immediate_advances)
  next
    case False
    then have eq: "authorize env r t s = (case ?ev of
           EvDenied ids \<Rightarrow> finish_immediate env r (evaluation_decision ?ev) None Deny t s
         | AllowedByPolicy ids \<Rightarrow>
             finish_immediate env r (evaluation_decision ?ev) (public_web_decision s r) Allow t s
         | AllowedBySessionGrant i \<Rightarrow>
             finish_immediate env r (evaluation_decision ?ev) (public_web_decision s r) Allow t s
         | EvAsk ids \<Rightarrow>
             if \<not> br_controller s
             then finish_immediate env r (evaluation_decision ?ev) None Deny t s
             else if public_web_decision s r \<noteq> None
             then finish_immediate env r (evaluation_decision ?ev) (Some AllowWebTurn) Allow t s
             else suspend_request env r (evaluation_decision ?ev) t s)"
      unfolding authorize_def Let_def by (simp only: if_False)
    show ?thesis
    proof (cases ?ev)
      case (EvAsk ids)
      then show ?thesis
        using eq win assms
        by (auto simp: answer_of_def covers_def web_allowed_def
            intro!: finish_immediate_advances suspend_request_advances)
    next
      case (AllowedBySessionGrant i)
      then show ?thesis
        using eq win assms evaluate_granted [OF AllowedBySessionGrant]
        by (auto simp: answer_of_def covers_def intro!: finish_immediate_advances)
    qed (use eq win assms in \<open>auto simp: answer_of_def intro!: finish_immediate_advances\<close>)
  qed
qed

lemma reauthorize_advances:
  assumes "broker_ok s" and "covers K s"
  shows "advances K {#} s (reauthorize env k s)"
proof (cases "bt_get (br_pending s) k")
  case None
  then show ?thesis using assms by (simp add: reauthorize_def advances_refl)
next
  case (Some p)
  show ?thesis
    unfolding reauthorize_def Some option.case
    by (rule remove_then_answer [OF assms(1) Some])
      (intro authorize_advances broker_ok_remove assms(1),
        use assms(2) web_decision_cong [of "s\<lparr>br_pending := bt_remove k (br_pending s)\<rparr>" s]
        in \<open>simp add: covers_def web_allowed_def\<close>)
qed

lemma fold_reauthorize_advances:
  "broker_ok s \<Longrightarrow> covers K s \<Longrightarrow> advances K {#} s (fold (reauthorize env) ks s)"
proof (induction ks arbitrary: s)
  case Nil
  then show ?case by (simp add: advances_refl)
next
  case (Cons k ks)
  have first: "advances K {#} s (reauthorize env k s)"
    using Cons.prems by (rule reauthorize_advances)
  then have "advances K {#} (reauthorize env k s) (fold (reauthorize env) ks (reauthorize env k s))"
    using advances_covers [OF Cons.prems(2) first] by (intro Cons.IH) (simp_all add: advances_def)
  from advances_trans [OF first this] show ?case by simp
qed

lemma fold_finish_advances:
  "broker_ok s \<Longrightarrow>
     advances K (mset (map pe_ticket ps)) s
       (fold (\<lambda>p s. finish_immediate env (pe_request p) (pe_policy p) None Deny (pe_ticket p) s) ps s)
     \<and> br_pending (fold (\<lambda>p s. finish_immediate env (pe_request p) (pe_policy p) None Deny
         (pe_ticket p) s) ps s) = br_pending s
     \<and> br_controller (fold (\<lambda>p s. finish_immediate env (pe_request p) (pe_policy p) None Deny
         (pe_ticket p) s) ps s) = br_controller s"
proof (induction ps arbitrary: s)
  case Nil
  then show ?case by (simp add: advances_refl)
next
  case (Cons p ps)
  let ?s = "finish_immediate env (pe_request p) (pe_policy p) None Deny (pe_ticket p) s"
  have first: "advances K {#pe_ticket p#} s ?s"
    using Cons.prems by (simp add: finish_immediate_advances)
  then have "broker_ok ?s" by (simp add: advances_def)
  note rest = Cons.IH [OF this]
  show ?case using advances_trans [OF first conjunct1 [OF rest]] rest by simp
qed

lemma deny_all_pending_advances:
  assumes "broker_ok s"
  shows "advances K {#} s (deny_all_pending env s) \<and> br_pending (deny_all_pending env s) = []
    \<and> br_controller (deny_all_pending env s) = br_controller s"
proof -
  let ?ps = "map (\<lambda>k. the (bt_get (br_pending s) k)) (sort_key (en_rank env) (bt_keys (br_pending s)))"
  have ok: "broker_ok (s\<lparr>br_pending := []\<rparr>)" by (simp add: broker_ok_def)
  have "mset ?ps = mset (map snd (br_pending s))"
    by (rule bt_values) (use assms in \<open>simp_all add: broker_ok_def\<close>)
  then have "mset (map pe_ticket ?ps) = mset (pending_tickets s)"
    by (simp only: mset_map pending_tickets_def image_mset.compositionality comp_def)
  then have "accounted s = accounted (s\<lparr>br_pending := []\<rparr>) + mset (map pe_ticket ?ps)"
    by (simp add: accounted_def pending_tickets_def)
  then show ?thesis
    using fold_finish_advances [OF ok, of K ?ps env]
    by (auto simp: deny_all_pending_def advances_def)
qed

text \<open>What \<open>record_choice\<close> leaves alone.\<close>

lemma record_choice_cases:
  assumes "record_choice r d x y s = (s', res)"
  shows "br_policy s' = br_policy s \<and> br_pending s' = br_pending s \<and> br_answers s' = br_answers s
    \<and> br_running s' = br_running s \<and> br_denials s' = br_denials s
    \<and> br_controller s' = br_controller s
    \<and> (d = AllowWebTurn \<longrightarrow> br_grants s' = br_grants s) \<and> (\<forall>e. res = Inl e \<longrightarrow> s' = s)"
proof (cases d)
  case (AllowSession scope)
  show ?thesis
  proof (cases rule: insert_grant_cases [of "br_grants s" r scope])
    case same
    then show ?thesis
      using assms AllowSession
      by (cases "insert_grant (br_grants s) r scope")
        (auto simp: record_choice_def split: sum.splits)
  next
    case new
    then show ?thesis using assms AllowSession by (auto simp: record_choice_def)
  qed
qed (use assms in \<open>auto simp: record_choice_def split: option.splits if_splits\<close>)

lemma settle_decision_advances:
  assumes "broker_ok s" and "bt_get (br_pending s) key = Some p"
    and "d = AllowWebTurn \<Longrightarrow> covers K s"
    and told: "\<And>f. d \<noteq> DenyRequest \<Longrightarrow> af_request f = pe_request p \<Longrightarrow> af_controller f = Some d \<Longrightarrow>
      K (pe_ticket p) f"
  shows "advances K {#} s (settle_decision env key p d s)
    \<and> (d = DenyRequest \<and> length (br_denials s) < MAX_DENIALS \<longrightarrow>
         denial_key env (pe_request p) \<in> set (br_denials (settle_decision env key p d s)))"
proof -
  let ?eff = "if d = DenyRequest then Deny else Allow"
  let ?s1 = "s\<lparr>br_pending := bt_remove key (br_pending s)\<rparr>"
  let ?s2 = "if ?eff = Deny \<and> length (br_denials ?s1) < MAX_DENIALS
      then ?s1\<lparr>br_denials := List.insert (denial_key env (pe_request p)) (br_denials ?s1)\<rparr> else ?s1"
  let ?s3 = "finish_immediate env (pe_request p) (pe_policy p) (Some d) ?eff (pe_ticket p)
      (emit env (OperationRunning (fst key)) ?s2)"
  have eq: "settle_decision env key p d s =
      (if d = AllowWebTurn then fold (reauthorize env) (web_turn_keys env (fst key) ?s3) ?s3
       else ?s3)"
    by (simp add: settle_decision_def Let_def)
  have p: "pe_policy p = Ask" "winning_decision (explain (br_policy s) (pe_request p)) = Ask"
    using assms(1) bt_get_in_set [OF assms(2)] by (auto simp: broker_ok_def)
  have ok1: "broker_ok ?s1" by (rule broker_ok_remove [OF assms(1)])
  have "advances K {#pe_ticket p#} ?s1 ?s3"
    using ok1 p
    by (auto simp: advances_def broker_ok_def accounted_def pending_tickets_def answer_of_def
        intro!: told)
  from remove_then_answer [OF assms(1,2) this] have s3: "advances K {#} s ?s3" .
  have denied: "d = DenyRequest \<and> length (br_denials s) < MAX_DENIALS \<longrightarrow>
      denial_key env (pe_request p) \<in> set (br_denials ?s3)" by simp
  show ?thesis
  proof (cases "d = AllowWebTurn")
    case True
    have "advances K {#} ?s3 (settle_decision env key p d s)"
      unfolding eq if_P [OF True]
      by (rule fold_reauthorize_advances)
        (use s3 advances_covers [OF assms(3) [OF True] s3] in \<open>simp_all add: advances_def\<close>)
    from advances_trans [OF s3 this] show ?thesis using True by simp
  next
    case False
    then show ?thesis using s3 denied by (simp only: eq if_False)
  qed
qed

text \<open>
  A step of the running task: every command but \<open>Authorize\<close> conserves the tickets, the answers it
  gives are justified by the policy and the grants before it, and the invariant is kept.
\<close>

definition brought :: "broker_command \<Rightarrow> nat multiset" where
  "brought c = (case c of Authorize r t \<Rightarrow> {#t#} | _ \<Rightarrow> {#})"

text \<open>
  The consents of a step: those of the state before it, and for a decision what it says of its own
  pending request and, for a web turn, of the requests of that operation on that route.
\<close>

definition consent :: "'h broker \<Rightarrow> broker_command \<Rightarrow> consent" where
  "consent s c t f =
     (let r = af_request f in
      matching_grant (br_grants s) r \<noteq> None
      \<or> web_allowed s f
      \<or> (\<exists>x y d p. c = Decide x y d \<and> bt_get (br_pending s) (x, y) = Some p \<and> d \<noteq> DenyRequest
           \<and> af_controller f = Some d
           \<and> (pe_request p = r \<and> pe_ticket p = t
              \<or> d = AllowWebTurn \<and> br_controller s \<and> rq_operation r = x \<and> web_review r \<noteq> None
                \<and> map_option pw_route (web_review r) = map_option pw_route (web_review (pe_request p)))))"

lemma consent_covers: "covers (consent s c) s"
  by (simp add: covers_def consent_def Let_def)

definition step_sound :: "'h broker \<Rightarrow> broker_command \<Rightarrow> 'h broker \<Rightarrow> bool" where
  "step_sound s c s' =
     (broker_ok s' \<and> accounted s' = accounted s + brought c
      \<and> set (br_denials s) \<subseteq> set (br_denials s')
      \<and> (\<exists>new. br_answers s' = br_answers s @ new
           \<and> (\<forall>a \<in> set new. justified (br_policy s) (consent s c) a)))"

lemma advances_step_sound:
  "advances (consent s c) (brought c) s s' \<Longrightarrow> step_sound s c s'"
  by (auto simp: advances_def step_sound_def)

text \<open>A web turn that was just recorded consents to what the decision says.\<close>

lemma web_turn_covers:
  assumes r: "record_choice (pe_request p) AllowWebTurn x y s = (s1, Inr v)"
    and p: "bt_get (br_pending s) (x, y) = Some p"
  shows "covers (consent s (Decide x y AllowWebTurn)) s1"
  unfolding covers_def
proof (intro allI impI)
  fix t f
  assume given: "matching_grant (br_grants s1) (af_request f) \<noteq> None \<or> web_allowed s1 f"
  obtain web where web: "web_review (pe_request p) = Some web"
    and s1: "s1 = s\<lparr>br_web_turns := bt_insert x (pw_route web) (br_web_turns s)\<rparr>"
    using r by (auto simp: record_choice_def split: option.splits if_splits)
  show "consent s (Decide x y AllowWebTurn) t f"
    using given p web
    by (cases "rq_operation (af_request f) = x")
      (auto simp: s1 consent_def Let_def web_allowed_def public_web_decision_def bt_get_insert
        split: option.splits if_splits)
qed

lemma decide_accepted:
  assumes "broker_ok s" and p: "bt_get (br_pending s) (x, y) = Some p"
    and r: "record_choice (pe_request p) d x y s = (s1, Inr v)"
  shows "advances (consent s (Decide x y d)) {#} s1 (settle_decision env (x, y) p d s1)"
proof -
  note rc = record_choice_cases [OF r]
  have told: "consent s (Decide x y d) (pe_ticket p) f"
    if "d \<noteq> DenyRequest" "af_request f = pe_request p" "af_controller f = Some d" for f
    using that p by (simp add: consent_def Let_def)
  have "broker_ok s1" using assms(1) rc by (simp add: broker_ok_def)
  moreover have "bt_get (br_pending s1) (x, y) = Some p" using rc p by simp
  ultimately show ?thesis
    using settle_decision_advances [of s1 "(x, y)" p d "consent s (Decide x y d)" env] told
      web_turn_covers [of p x y s s1 v] r p by blast
qed

lemma decide_sound:
  assumes "broker_ok s"
  shows "step_sound s (Decide x y d) (fst (decide env x y d s))
    \<and> br_running (fst (decide env x y d s)) = br_running s"
proof -
  have idle: "step_sound s (Decide x y d) s"
    using assms by (intro advances_step_sound) (simp add: brought_def advances_refl)
  show ?thesis
  proof (cases "bt_get (br_pending s) (x, y)")
    case None
    then show ?thesis using idle by (simp add: decide_def)
  next
    case (Some p)
    show ?thesis
    proof (cases "check_decision (pe_request p) d x y")
      case (Inl e)
      then show ?thesis using Some idle by (simp add: decide_def)
    next
      case (Inr u)
      obtain s1 res where r: "record_choice (pe_request p) d x y s = (s1, res)" by fastforce
      note rc = record_choice_cases [OF r]
      show ?thesis
      proof (cases res)
        case (Inl e)
        then show ?thesis using Some Inr r rc idle by (simp add: decide_def)
      next
        case ok: (Inr v)
        have eq: "fst (decide env x y d s) = settle_decision env (x, y) p d s1"
          using Some Inr r ok by (simp add: decide_def)
        show ?thesis
          using rc decide_accepted [OF assms Some, of d s1 v env] r ok unfolding eq
          by (auto simp: advances_def step_sound_def brought_def accounted_def pending_tickets_def)
      qed
    qed
  qed
qed

lemma broker_step_sound:
  assumes "broker_ok s" and "br_running s"
  shows "step_sound s (snd ec) (broker_step s ec)"
proof -
  obtain env c where ec: "ec = (env, c)" by fastforce
  show ?thesis
  proof (cases c)
    case (ReplacePolicy p)
    then show ?thesis
      using assms ec
      by (auto simp: broker_step_def step_sound_def broker_ok_def brought_def accounted_def
          pending_tickets_def)
  next
    case (Authorize r t)
    then show ?thesis
      using assms ec authorize_advances [OF assms(1) consent_covers, of c t env r]
      by (intro advances_step_sound) (simp add: broker_step_def brought_def)
  next
    case (Decide x y d)
    then show ?thesis using assms ec decide_sound [OF assms(1)] by (simp add: broker_step_def)
  next
    case (CancelRequest x y)
    then show ?thesis
      using assms ec cancel_pending_advances [OF assms(1)]
      by (intro advances_step_sound) (simp add: broker_step_def brought_def)
  next
    case ControllerLost
    have "broker_ok (s\<lparr>br_controller := False\<rparr>)" using assms(1) by (simp add: broker_ok_def)
    from deny_all_pending_advances [OF this, of "consent s c" env]
    show ?thesis
      using assms ec ControllerLost
      by (auto simp: broker_step_def step_sound_def advances_def brought_def accounted_def
          pending_tickets_def)
  next
    case (OperationFinished x)
    then show ?thesis
      using assms ec
      by (auto simp: broker_step_def step_sound_def broker_ok_def brought_def accounted_def
          pending_tickets_def)
  next
    case Shutdown
    have "broker_ok (s\<lparr>br_controller := False\<rparr>)" using assms(1) by (simp add: broker_ok_def)
    from deny_all_pending_advances [OF this, of "consent s c" env]
    show ?thesis
      using assms ec Shutdown
      by (auto simp: broker_step_def step_sound_def advances_def brought_def accounted_def
          pending_tickets_def broker_ok_def)
  qed
qed

lemma broker_step_running: "br_running (broker_step s ec) \<longleftrightarrow> br_running s \<and> snd ec \<noteq> Shutdown"
  if "broker_ok s"
proof (cases "br_running s")
  case True
  obtain env c where ec: "ec = (env, c)" by fastforce
  have lost: "broker_ok (s\<lparr>br_controller := False\<rparr>)" using that by (simp add: broker_ok_def)
  show ?thesis
    using True ec decide_sound [OF that] authorize_advances [OF that consent_covers]
      cancel_pending_advances [OF that, of "consent s c"] deny_all_pending_advances [OF lost]
    by (cases c) (auto simp: broker_step_def advances_def)
qed (simp add: broker_step_def)

lemma broker_step_ok: "broker_ok s \<Longrightarrow> broker_ok (broker_step s ec)"
  by (cases "br_running s") (use broker_step_sound [of s ec] in \<open>auto simp: step_sound_def\<close>)

definition denials_grow :: "'h broker \<Rightarrow> 'h broker \<Rightarrow> bool" where
  "denials_grow s s' = (set (br_denials s) \<subseteq> set (br_denials s'))"

interpretation bk: monotone_machine broker_step broker_ok denials_grow
proof unfold_locales
  fix s :: "'h broker" and c
  assume ok: "broker_ok s"
  show "broker_ok (broker_step s c)" by (rule broker_step_ok [OF ok])
  show "denials_grow s (broker_step s c)"
    by (cases "br_running s")
      (use broker_step_sound [OF ok] in \<open>auto simp: step_sound_def denials_grow_def\<close>)
qed (auto simp: denials_grow_def)

lemma spawn_broker_ok: "broker_ok (spawn_broker env p present ea committed)"
  by (simp add: broker_ok_def spawn_broker_def)

text \<open>The tickets of the requests that reach the task before it shuts down.\<close>

fun asked_of :: "('h broker_env \<times> broker_command) list \<Rightarrow> nat list" where
  "asked_of [] = []"
| "asked_of (ec # cs) =
     (case snd ec of Authorize r t \<Rightarrow> t # asked_of cs | Shutdown \<Rightarrow> [] | _ \<Rightarrow> asked_of cs)"

lemma run_accounted:
  "broker_ok s \<Longrightarrow>
     accounted (foldl broker_step s cs) =
       accounted s + (if br_running s then mset (asked_of cs) else {#})"
proof (induction cs arbitrary: s)
  case (Cons ec cs)
  have rest: "accounted (foldl broker_step (broker_step s ec) cs) =
      accounted (broker_step s ec)
        + (if br_running (broker_step s ec) then mset (asked_of cs) else {#})"
    by (rule Cons.IH [OF broker_step_ok [OF Cons.prems]])
  show ?case
  proof (cases "br_running s")
    case True
    then have "accounted (broker_step s ec) = accounted s + brought (snd ec)"
      using broker_step_sound [OF Cons.prems True] by (simp add: step_sound_def)
    then show ?thesis
      using rest True by (cases "snd ec") (simp_all add: broker_step_running [OF Cons.prems] brought_def)
  next
    case False
    then have "broker_step s ec = s" by (simp add: broker_step_def)
    then show ?thesis using rest False by simp
  qed
qed simp

lemma stopped_without_pending:
  assumes "broker_ok s" and "br_running s \<or> br_pending s = []"
  shows "br_running (foldl broker_step s cs) \<or> br_pending (foldl broker_step s cs) = []"
  using assms
proof (induction cs arbitrary: s)
  case (Cons ec cs)
  have "br_running (broker_step s ec) \<or> br_pending (broker_step s ec) = []"
  proof (cases "br_running s \<and> snd ec = Shutdown")
    case True
    have "broker_ok (s\<lparr>br_controller := False\<rparr>)" using Cons.prems(1) by (simp add: broker_ok_def)
    from deny_all_pending_advances [OF this] True show ?thesis by (simp add: broker_step_def)
  next
    case False
    then show ?thesis
      using Cons.prems broker_step_running [OF Cons.prems(1)] by (cases "br_running s") auto
  qed
  with Cons.IH [OF broker_step_ok [OF Cons.prems(1)]] show ?case by simp
qed simp

section \<open>Without a controller\<close>

text \<open>A task that has stopped, or whose controller is gone and left nothing pending.\<close>

definition orphaned :: "'h broker \<Rightarrow> bool" where
  "orphaned s = (br_pending s = [] \<and> \<not> (br_running s \<and> br_controller s))"

definition new_answers :: "'h broker \<Rightarrow> 'h broker \<Rightarrow> (nat \<times> authorization) list" where
  "new_answers s s' = drop (length (br_answers s)) (br_answers s')"

lemma orphaned_authorize:
  assumes "\<not> br_controller s" and "br_pending s = []"
  shows "\<not> br_controller (authorize env r t s) \<and> br_pending (authorize env r t s) = []
    \<and> (\<exists>a. br_answers (authorize env r t s) = br_answers s @ [(t, a)]
         \<and> (\<forall>f. a = AuthAllowed f \<longrightarrow> af_request f = r
              \<and> evaluation_decision (evaluate (br_policy s) r (br_grants s)) \<noteq> Deny
              \<and> \<not> is_ask (evaluate (br_policy s) r (br_grants s))))"
  using assms
  by (cases "evaluate (br_policy s) r (br_grants s)")
    (auto simp: authorize_def Let_def answer_of_def)

lemma orphaned_step:
  assumes "orphaned s"
  shows "orphaned (broker_step s ec)
    \<and> (\<forall>(t, a) \<in> set (new_answers s (broker_step s ec)). \<forall>f. a = AuthAllowed f \<longrightarrow>
         evaluation_decision (evaluate (br_policy s) (af_request f) (br_grants s)) \<noteq> Deny
         \<and> \<not> is_ask (evaluate (br_policy s) (af_request f) (br_grants s)))"
proof (cases "br_running s")
  case True
  obtain env c where ec: "ec = (env, c)" by fastforce
  have gone: "\<not> br_controller s" "br_pending s = []" using True assms by (simp_all add: orphaned_def)
  then have deny: "deny_all_pending env (s\<lparr>br_controller := False\<rparr>) = s\<lparr>br_controller := False, br_pending := []\<rparr>"
    by (simp add: deny_all_pending_def bt_keys_def)
  show ?thesis
  proof (cases c)
    case (Authorize r t)
    then show ?thesis
      using ec True orphaned_authorize [OF gone, of env r t]
      by (auto simp: broker_step_def orphaned_def new_answers_def)
  qed (use ec True gone deny in \<open>auto simp: broker_step_def orphaned_def new_answers_def decide_def
      cancel_pending_def\<close>)
next
  case False
  then show ?thesis using assms by (simp add: new_answers_def)
qed

lemma orphaned_run: "orphaned s \<Longrightarrow> orphaned (foldl broker_step s cs)"
  by (induction cs arbitrary: s) (auto simp: orphaned_step)

lemma controller_lost_orphans:
  assumes "broker_ok s" and "br_running s \<or> br_pending s = []"
  shows "orphaned (broker_step s (env, ControllerLost))"
proof (cases "br_running s")
  case True
  have "broker_ok (s\<lparr>br_controller := False\<rparr>)" using assms(1) by (simp add: broker_ok_def)
  from deny_all_pending_advances [OF this] True show ?thesis
    by (simp add: broker_step_def orphaned_def)
qed (use assms(2) in \<open>simp add: orphaned_def\<close>)

section \<open>Properties\<close>

text \<open>
  C20: every request is answered exactly once. After any commands in any order, with any event
  channel and any iteration order of the pending map, the tickets answered and the tickets still
  pending are together exactly the tickets of the requests that reached the task; and once the
  task has shut down nothing is pending.
\<close>

theorem every_request_answered_once:
  "let s = foldl broker_step (spawn_broker env0 p present ea committed) cs
   in mset (map fst (br_answers s)) + mset (map (pe_ticket \<circ> snd) (br_pending s)) = mset (asked_of cs)
      \<and> (br_running s \<or> br_pending s = [])"
proof -
  let ?s = "foldl broker_step (spawn_broker env0 p present ea committed) cs"
  have "accounted ?s = mset (asked_of cs)"
    using run_accounted [OF spawn_broker_ok, of env0 p present ea committed cs]
    by (simp add: spawn_broker_def accounted_def pending_tickets_def)
  moreover have "br_running ?s \<or> br_pending ?s = []"
    by (rule stopped_without_pending [OF spawn_broker_ok]) (simp add: spawn_broker_def)
  ultimately show ?thesis by (simp only: Let_def accounted_def pending_tickets_def)
qed

section \<open>Where consent comes from\<close>

text \<open>
  In the run of \<open>cs\<close> the controller decided \<open>d\<close> on the pending request \<open>p\<close>, under the policy that
  is still in force, and when it was a web turn, its operation has not finished since.
\<close>

definition decided ::
  "'h broker \<Rightarrow> ('h broker_env \<times> broker_command) list \<Rightarrow> controller_decision \<Rightarrow> pending_request \<Rightarrow> bool"
where
  "decided s0 cs d p =
     (\<exists>earlier env x y later. cs = earlier @ (env, Decide x y d) # later
        \<and> bt_get (br_pending (foldl broker_step s0 earlier)) (x, y) = Some p
        \<and> br_policy (foldl broker_step s0 earlier) = br_policy (foldl broker_step s0 cs)
        \<and> (d = AllowWebTurn \<longrightarrow> OperationFinished (rq_operation (pe_request p)) \<notin> snd ` set later))"

lemma decided_later:
  assumes "decided s0 cs d p"
    and "br_policy (broker_step (foldl broker_step s0 cs) ec) = br_policy (foldl broker_step s0 cs)"
    and "d = AllowWebTurn \<Longrightarrow> snd ec \<noteq> OperationFinished (rq_operation (pe_request p))"
  shows "decided s0 (cs @ [ec]) d p"
proof -
  obtain earlier env x y later where d: "cs = earlier @ (env, Decide x y d) # later"
    "bt_get (br_pending (foldl broker_step s0 earlier)) (x, y) = Some p"
    "br_policy (foldl broker_step s0 earlier) = br_policy (foldl broker_step s0 cs)"
    "d = AllowWebTurn \<longrightarrow> OperationFinished (rq_operation (pe_request p)) \<notin> snd ` set later"
    using assms(1) unfolding decided_def by blast
  show ?thesis
    unfolding decided_def
    by (intro exI [of _ earlier] exI [of _ env] exI [of _ x] exI [of _ y] exI [of _ "later @ [ec]"])
      (use d assms(2,3) in auto)
qed

lemma decided_now:
  assumes "bt_get (br_pending (foldl broker_step s0 cs)) (x, y) = Some p"
    and "br_policy (broker_step (foldl broker_step s0 cs) (env, Decide x y d))
      = br_policy (foldl broker_step s0 cs)"
  shows "decided s0 (cs @ [(env, Decide x y d)]) d p"
  unfolding decided_def
  by (intro exI [of _ cs] exI [of _ env] exI [of _ x] exI [of _ y] exI [of _ "[]"]) (use assms in simp)

text \<open>Every grant and every web turn of a running task stems from such a decision.\<close>

definition consents_stem :: "'h broker \<Rightarrow> ('h broker_env \<times> broker_command) list \<Rightarrow> bool" where
  "consents_stem s0 cs =
     (let s = foldl broker_step s0 cs in
      (\<forall>g \<in> set (sgs_grants (br_grants s)). \<exists>p. decided s0 cs (AllowSession (sg_scope g)) p
         \<and> sg_tool g = rq_tool (pe_request p) \<and> sg_effect g = rq_effect (pe_request p)
         \<and> sg_scope g = rq_scope (pe_request p))
      \<and> (\<forall>x route. bt_get (br_web_turns s) x = Some route \<longrightarrow> (\<exists>p. decided s0 cs AllowWebTurn p
         \<and> rq_operation (pe_request p) = x \<and> map_option pw_route (web_review (pe_request p)) = Some route)))"

text \<open>What one command of a running task does to the policy, the grants and the web turns.\<close>

lemma decide_consents:
  assumes ok: "broker_ok s" and s': "s' = fst (decide env x y d s)"
  shows "br_policy s' = br_policy s
    \<and> (\<forall>g \<in> set (sgs_grants (br_grants s')). g \<in> set (sgs_grants (br_grants s))
         \<or> (\<exists>p. d = AllowSession (sg_scope g) \<and> bt_get (br_pending s) (x, y) = Some p
             \<and> sg_tool g = rq_tool (pe_request p) \<and> sg_effect g = rq_effect (pe_request p)
             \<and> sg_scope g = rq_scope (pe_request p)))
    \<and> (\<forall>i route. bt_get (br_web_turns s') i = Some route \<longrightarrow> bt_get (br_web_turns s) i = Some route
         \<or> (\<exists>p. d = AllowWebTurn \<and> i = x \<and> bt_get (br_pending s) (x, y) = Some p
             \<and> map_option pw_route (web_review (pe_request p)) = Some route))"
proof (cases "bt_get (br_pending s) (x, y)")
  case None
  then show ?thesis using s' by (simp add: decide_def)
next
  case (Some p)
  show ?thesis
  proof (cases "check_decision (pe_request p) d x y")
    case (Inl e)
    then show ?thesis using Some s' by (simp add: decide_def)
  next
    case (Inr u)
    obtain s1 res where r: "record_choice (pe_request p) d x y s = (s1, res)" by fastforce
    note rc = record_choice_cases [OF r]
    show ?thesis
    proof (cases res)
      case (Inl e)
      then show ?thesis using Some Inr r rc s' by (simp add: decide_def)
    next
      case accepted: (Inr v)
      have eq: "s' = settle_decision env (x, y) p d s1" using Some Inr r accepted s' by (simp add: decide_def)
      have kept: "br_policy s' = br_policy s" "br_grants s' = br_grants s1" "br_web_turns s' = br_web_turns s1"
        using decide_accepted [OF ok Some, of d s1 v env] r accepted rc by (simp_all add: eq advances_def)
      show ?thesis
      proof (cases d)
        case AllowWebTurn
        then show ?thesis using r accepted kept Some
          by (auto simp: record_choice_def bt_get_insert split: option.splits if_splits)
      next
        case (AllowSession scope)
        then have scope: "scope = rq_scope (pe_request p)" and gs: "br_web_turns s1 = br_web_turns s"
          "br_grants s1 = fst (insert_grant (br_grants s) (pe_request p) scope)"
          using Inr r by (auto simp: check_decision_def record_choice_def split: if_splits prod.splits sum.splits)
        show ?thesis
          by (cases rule: insert_grant_cases [of "br_grants s" "pe_request p" scope])
            (use kept gs scope AllowSession Some in auto)
      qed (use r kept in \<open>auto simp: record_choice_def\<close>)
    qed
  qed
qed

lemma step_consents:
  assumes ok: "broker_ok s" and up: "br_running s"
  shows "(br_policy (broker_step s ec) = br_policy s
      \<or> sgs_grants (br_grants (broker_step s ec)) = [] \<and> br_web_turns (broker_step s ec) = [])
    \<and> (\<forall>g \<in> set (sgs_grants (br_grants (broker_step s ec))). g \<in> set (sgs_grants (br_grants s))
         \<or> (\<exists>x y p. snd ec = Decide x y (AllowSession (sg_scope g)) \<and> bt_get (br_pending s) (x, y) = Some p
             \<and> sg_tool g = rq_tool (pe_request p) \<and> sg_effect g = rq_effect (pe_request p)
             \<and> sg_scope g = rq_scope (pe_request p)))
    \<and> (\<forall>i route. bt_get (br_web_turns (broker_step s ec)) i = Some route \<longrightarrow>
         snd ec \<noteq> OperationFinished i \<and> bt_get (br_web_turns s) i = Some route
         \<or> (\<exists>y p. snd ec = Decide i y AllowWebTurn \<and> bt_get (br_pending s) (i, y) = Some p
             \<and> map_option pw_route (web_review (pe_request p)) = Some route))"
proof -
  obtain env c where ec: "ec = (env, c)" by fastforce
  have lost: "broker_ok (s\<lparr>br_controller := False\<rparr>)" using ok by (simp add: broker_ok_def)
  show ?thesis
  proof (cases c)
    case (ReplacePolicy p)
    then show ?thesis using ec up by (simp add: broker_step_def no_grants_def)
  next
    case (Authorize r t)
    then show ?thesis
      using ec up authorize_advances [OF ok consent_covers, of c t env r]
      by (simp add: broker_step_def advances_def)
  next
    case (Decide x y d)
    then show ?thesis
      using ec up decide_consents [OF ok refl, of env x y d] by (auto simp: broker_step_def)
  next
    case (CancelRequest x y)
    then show ?thesis
      using ec up cancel_pending_advances [OF ok, of "consent s c" env "(x, y)"]
      by (simp add: broker_step_def advances_def)
  next
    case (OperationFinished x)
    then show ?thesis using ec up by (auto simp: broker_step_def bt_get_remove split: if_splits)
  qed (use ec up deny_all_pending_advances [OF lost, of "consent s c" env] in
      \<open>simp_all add: broker_step_def advances_def\<close>)
qed

lemma consents_stem_run:
  assumes ok: "broker_ok s0" and up: "br_running (foldl broker_step s0 cs)"
    and "br_grants s0 = no_grants" and "br_web_turns s0 = []"
  shows "consents_stem s0 cs"
  using up
proof (induction cs rule: rev_induct)
  case Nil
  then show ?case using assms(3,4) by (simp add: consents_stem_def no_grants_def bt_get_def)
next
  case (snoc ec cs)
  define s where "s = foldl broker_step s0 cs"
  have s_ok: "broker_ok s" using bk.run_inv [OF ok] by (simp add: s_def)
  have running: "br_running s" using snoc.prems broker_step_running [OF s_ok, of ec] by (simp add: s_def)
  then have stem: "consents_stem s0 cs" using snoc.IH by (simp add: s_def)
  note step = step_consents [OF s_ok running, of ec]
  show ?case
  proof (cases "br_policy (broker_step s ec) = br_policy s")
    case False
    then have "sgs_grants (br_grants (broker_step s ec)) = []" "br_web_turns (broker_step s ec) = []"
      using step by blast+
    then show ?thesis by (simp add: consents_stem_def s_def bt_get_def)
  next
    case True
    note later = decided_later [OF _ True [unfolded s_def]]
    have now: "decided s0 (cs @ [ec]) d p"
      if "snd ec = Decide x y d" "bt_get (br_pending s) (x, y) = Some p" for x y d p
      using decided_now [of s0 cs x y p "fst ec" d] that True by (cases ec) (simp add: s_def)
    have grants: "\<exists>p. decided s0 (cs @ [ec]) (AllowSession (sg_scope g)) p
         \<and> sg_tool g = rq_tool (pe_request p) \<and> sg_effect g = rq_effect (pe_request p)
         \<and> sg_scope g = rq_scope (pe_request p)"
      if g: "g \<in> set (sgs_grants (br_grants (broker_step s ec)))" for g
    proof (cases "g \<in> set (sgs_grants (br_grants s))")
      case True
      then show ?thesis using stem later by (fastforce simp: consents_stem_def Let_def s_def)
    next
      case False
      then show ?thesis using step g now by blast
    qed
    have webs: "\<exists>p. decided s0 (cs @ [ec]) AllowWebTurn p \<and> rq_operation (pe_request p) = x
        \<and> map_option pw_route (web_review (pe_request p)) = Some route"
      if web: "bt_get (br_web_turns (broker_step s ec)) x = Some route" for x route
    proof (cases "snd ec \<noteq> OperationFinished x \<and> bt_get (br_web_turns s) x = Some route")
      case True
      then show ?thesis using stem later by (fastforce simp: consents_stem_def Let_def s_def)
    next
      case False
      then obtain y p where p: "snd ec = Decide x y AllowWebTurn" "bt_get (br_pending s) (x, y) = Some p"
        "map_option pw_route (web_review (pe_request p)) = Some route" using step web by blast
      moreover have "rq_operation (pe_request p) = x"
        using s_ok bt_get_in_set [OF p(2)] by (auto simp: broker_ok_def)
      ultimately show ?thesis using now by blast
    qed
    show ?thesis using grants webs by (simp add: consents_stem_def s_def [symmetric])
  qed
qed

lemma consent_cases:
  assumes "consent s c t f"
  obtains (granted) "matching_grant (br_grants s) (af_request f) \<noteq> None"
  | (web) "web_allowed s f"
  | (told) x y d q where "c = Decide x y d" "bt_get (br_pending s) (x, y) = Some q" "d \<noteq> DenyRequest"
      "af_controller f = Some d" "pe_request q = af_request f" "pe_ticket q = t"
  | (turn) x y q web where "c = Decide x y AllowWebTurn" "bt_get (br_pending s) (x, y) = Some q"
      "af_controller f = Some AllowWebTurn" "br_controller s" "rq_operation (af_request f) = x"
      "web_review (af_request f) = Some web"
      "map_option pw_route (web_review (pe_request q)) = Some (pw_route web)"
proof -
  from assms consider "matching_grant (br_grants s) (af_request f) \<noteq> None \<or> web_allowed s f"
    | x y d p where "c = Decide x y d" "bt_get (br_pending s) (x, y) = Some p" "d \<noteq> DenyRequest"
        "af_controller f = Some d" "pe_request p = af_request f" "pe_ticket p = t"
    | x y d p where "c = Decide x y d" "bt_get (br_pending s) (x, y) = Some p"
        "af_controller f = Some d" "d = AllowWebTurn" "br_controller s" "rq_operation (af_request f) = x"
        "web_review (af_request f) \<noteq> None"
        "map_option pw_route (web_review (af_request f)) = map_option pw_route (web_review (pe_request p))"
    unfolding consent_def Let_def by blast
  then show thesis
  proof cases
    case 1
    then show thesis using granted web by blast
  next
    case (2 x y d p)
    then show thesis by (rule told)
  next
    case (3 x y d p)
    obtain w where "web_review (af_request f) = Some w" using 3(7) by blast
    moreover from this 3(8) have "map_option pw_route (web_review (pe_request p)) = Some (pw_route w)" by simp
    ultimately show thesis using turn [of x y p w] 3 by blast
  qed
qed

lemma answers_nonempty: "(t, AuthAllowed f) \<in> set (new_answers s s') \<Longrightarrow> new_answers s s' \<noteq> []"
  by auto

text \<open>The three consents of a step, traced to the run.\<close>

lemma granted_origin:
  assumes "consents_stem s0 cs" and "matching_grant (br_grants (foldl broker_step s0 cs)) r \<noteq> None"
  shows "\<exists>q. decided s0 cs (AllowSession (rq_scope (pe_request q))) q
    \<and> rq_tool (pe_request q) = rq_tool r \<and> rq_effect (pe_request q) = rq_effect r
    \<and> scope_contains (rq_scope (pe_request q)) (rq_scope r)"
proof -
  obtain g where "matching_grant (br_grants (foldl broker_step s0 cs)) r = Some g" using assms(2) by blast
  note g = matching_grant_Some [OF this]
  then obtain q where "decided s0 cs (AllowSession (sg_scope g)) q" "sg_tool g = rq_tool (pe_request q)"
    "sg_effect g = rq_effect (pe_request q)" "sg_scope g = rq_scope (pe_request q)"
    using assms(1) by (auto simp: consents_stem_def Let_def)
  then show ?thesis using g by (intro exI [of _ q]) simp
qed

lemma web_turn_origin:
  assumes stem: "consents_stem s0 cs" and s: "s = foldl broker_step s0 cs"
    and "web_allowed s f" and same: "br_policy (broker_step s ec) = br_policy s"
    and live: "snd ec \<noteq> OperationFinished (rq_operation (af_request f))"
  shows "\<exists>web. web_review (af_request f) = Some web
    \<and> (pw_persisted_allow web
       \<or> (\<exists>q. decided s0 (cs @ [ec]) AllowWebTurn q \<and> rq_operation (pe_request q) = rq_operation (af_request f)
            \<and> map_option pw_route (web_review (pe_request q)) = Some (pw_route web)))"
proof -
  let ?x = "rq_operation (af_request f)"
  obtain web where web: "web_review (af_request f) = Some web"
    and turn: "pw_persisted_allow web \<or> bt_get (br_web_turns s) ?x = Some (pw_route web)"
    using assms(3) by (auto simp: web_allowed_def public_web_decision_def split: option.splits if_splits)
  show ?thesis
  proof (cases "pw_persisted_allow web")
    case False
    then have "bt_get (br_web_turns s) ?x = Some (pw_route web)" using turn by simp
    then obtain q where q: "decided s0 cs AllowWebTurn q" "rq_operation (pe_request q) = ?x"
      "map_option pw_route (web_review (pe_request q)) = Some (pw_route web)"
      using stem unfolding consents_stem_def Let_def s by blast
    have "decided s0 (cs @ [ec]) AllowWebTurn q"
      using decided_later [OF q(1)] same live q(2) s by simp
    then show ?thesis using web q by blast
  qed (use web in simp)
qed

text \<open>An answer comes of an authorization or a decision: the policy stays, no operation finishes.\<close>

lemma allowing_step:
  assumes ok: "broker_ok s" and up: "br_running s" and "new_answers s (broker_step s ec) \<noteq> []"
  shows "br_policy (broker_step s ec) = br_policy s \<and> snd ec \<noteq> OperationFinished x"
proof -
  have "br_answers (broker_step s ec) \<noteq> br_answers s" using assms(3) by (auto simp: new_answers_def)
  then have "snd ec \<noteq> OperationFinished x \<and> (\<forall>p. snd ec \<noteq> ReplacePolicy p)"
    using up by (auto simp: broker_step_def split: if_splits)
  moreover have "broker_ok (s\<lparr>br_controller := False\<rparr>)" using ok by (simp add: broker_ok_def)
  note deny_all_pending_advances [OF this, of "\<lambda>t f. True" "fst ec"]
  moreover note authorize_advances [OF ok consent_covers, of "snd ec"] cancel_pending_advances [OF ok]
    decide_consents [OF ok refl]
  ultimately show ?thesis
    using up by (cases "snd ec") (auto simp: broker_step_def advances_def)
qed

lemma decision_origin:
  assumes ok: "broker_ok s" and "bt_get (br_pending s) (x, y) = Some p"
  shows "p = \<lparr>pe_request = pe_request p, pe_policy = Ask, pe_ticket = pe_ticket p\<rparr>
    \<and> x = rq_operation (pe_request p) \<and> y = rq_invocation (pe_request p)"
  using ok bt_get_in_set [OF assms(2)] by (auto simp: broker_ok_def)

text \<open>
  C19: nothing is allowed against the policy or without consent, and every consent is one that the
  controller gave. In every state the task can reach, whatever command comes next, an allowance it
  gives is for a request its current policy does not deny; and if the policy asks about it, then
  one of these holds. The command is the controller's decision, other than a denial, on this very
  request, which was pending under this ticket. Or earlier in the run, under the policy still in
  force, the controller allowed for the session the scope of a pending request of the same tool and
  effect, and that scope contains this one. Or the request is a public web request before a live
  controller, whose route is allowed by a persisted choice, or by a web turn that the controller
  decided on a pending request of the same operation and route, under the policy still in force and
  with the operation not finished since.
\<close>

theorem allowance_needs_policy_and_consent:
  assumes s0: "s0 = spawn_broker env0 p present ea committed" and s: "s = foldl broker_step s0 cs"
    and allowed: "(t, AuthAllowed f) \<in> set (new_answers s (broker_step s ec))"
    and r: "r = af_request f"
  shows "winning_decision (explain (br_policy s) r) = Allow
    \<or> winning_decision (explain (br_policy s) r) = Ask
      \<and> ((\<exists>d. snd ec = Decide (rq_operation r) (rq_invocation r) d \<and> d \<noteq> DenyRequest
            \<and> af_controller f = Some d
            \<and> bt_get (br_pending s) (rq_operation r, rq_invocation r)
                = Some \<lparr>pe_request = r, pe_policy = Ask, pe_ticket = t\<rparr>)
         \<or> (\<exists>q. decided s0 cs (AllowSession (rq_scope (pe_request q))) q
            \<and> rq_tool (pe_request q) = rq_tool r \<and> rq_effect (pe_request q) = rq_effect r
            \<and> scope_contains (rq_scope (pe_request q)) (rq_scope r))
         \<or> (br_controller s \<and> af_controller f = Some AllowWebTurn
            \<and> (\<exists>web. web_review r = Some web
               \<and> (pw_persisted_allow web
                  \<or> (\<exists>q. decided s0 (cs @ [ec]) AllowWebTurn q \<and> rq_operation (pe_request q) = rq_operation r
                       \<and> map_option pw_route (web_review (pe_request q)) = Some (pw_route web))))))"
proof -
  have ok0: "broker_ok s0" unfolding s0 by (rule spawn_broker_ok)
  have ok: "broker_ok s" using bk.run_inv [OF ok0] s by simp
  have up: "br_running s" using allowed by (cases "br_running s") (simp_all add: new_answers_def)
  have stem: "consents_stem s0 cs"
    using consents_stem_run [OF ok0] up s by (simp add: s0 spawn_broker_def)
  have "justified (br_policy s) (consent s (snd ec)) (t, AuthAllowed f)"
    using broker_step_sound [OF ok up, of ec] allowed by (force simp: step_sound_def new_answers_def)
  then consider "winning_decision (explain (br_policy s) r) = Allow"
    | "winning_decision (explain (br_policy s) r) = Ask" "consent s (snd ec) t f"
    by (auto simp: r split: policy_decision.splits)
  then show ?thesis
  proof cases
    case 2
    have same: "br_policy (broker_step s ec) = br_policy s" "snd ec \<noteq> OperationFinished (rq_operation r)"
      using allowing_step [OF ok up answers_nonempty [OF allowed]] by simp_all
    from 2(2) show ?thesis
    proof (cases rule: consent_cases)
      case granted
      then show ?thesis using granted_origin [OF stem, of r] 2(1) s r by blast
    next
      case web
      then show ?thesis
        using web_turn_origin [OF stem s, of f ec] same 2(1) by (auto simp: r web_allowed_def)
    next
      case (told x y d q)
      then show ?thesis using decision_origin [OF ok told(2)] 2(1) r by auto
    next
      case (turn x y q route)
      then have "decided s0 (cs @ [ec]) AllowWebTurn q"
        using decided_now [of s0 cs x y q "fst ec" AllowWebTurn] same(1) s by (cases ec) simp
      moreover have "rq_operation (pe_request q) = rq_operation r" using decision_origin [OF ok turn(2)] turn(5) r by simp
      ultimately show ?thesis using turn 2(1) r by blast
    qed
  qed simp
qed

definition sample_broker_env :: "denial_material broker_env" where
  "sample_broker_env = \<lparr>en_hash = id, en_rank = (\<lambda>k. 0), en_accepts = (\<lambda>e. True)\<rparr>"

definition sample_broker :: "denial_material broker" where
  "sample_broker = spawn_broker sample_broker_env sample_policy True True []"

definition external_read :: permission_request where
  "external_read = sample_read (ExternalPath [RootDir])"

lemmas broker_run =
  broker_step_def authorize_def decide_def sample_broker_def spawn_broker_def
  sample_broker_env_def external_read_def denial_key_def denial_material_def MAX_DENIALS_def
  public_web_decision_def web_review_def suspend_request_def bt_contains_def emit_def
  check_decision_def record_choice_def settle_decision_def finish_immediate_def bt_remove_def
  bt_get_def new_answers_def no_grants_def matching_grant_def deny_all_pending_def bt_keys_def
  cancel_pending_def

theorem allowance_needs_policy_and_consent_witness:
  "\<exists>t f. (t, AuthAllowed f) \<in> set (new_answers
      (foldl broker_step sample_broker [(sample_broker_env, Authorize external_read 7)])
      (broker_step (foldl broker_step sample_broker [(sample_broker_env, Authorize external_read 7)])
        (sample_broker_env, Decide 1 2 AllowRequestOnce)))
     \<and> winning_decision (explain sample_policy (af_request f)) = Ask"
proof -
  let ?cs = "[(sample_broker_env, Authorize external_read 7)]"
  let ?s = "foldl broker_step (spawn_broker sample_broker_env sample_policy True True []) ?cs"
  let ?f = "\<lparr>af_request = external_read, af_policy = Ask, af_controller = Some AllowRequestOnce,
      af_effective = Allow\<rparr>"
  have mem: "(7, AuthAllowed ?f) \<in> set (new_answers ?s
      (broker_step ?s (sample_broker_env, Decide 1 2 AllowRequestOnce)))"
    by (simp add: broker_run policy_run)
  have "winning_decision (explain sample_policy external_read) = Ask"
    using allowance_needs_policy_and_consent [OF refl refl mem refl]
    by (simp add: broker_run policy_run)
  then show ?thesis using mem by (auto simp: sample_broker_def intro!: exI [of _ 7] exI [of _ ?f])
qed

text \<open>
  C23: a denial is remembered. Once the controller denied a pending request, then after any further
  commands every request of the same operation, tool, effect, scope, arguments and outbound
  review, under whatever invocation and however the policy was replaced meanwhile, is answered at
  once with a denial, as long as the table of denials was not full.
\<close>

theorem denial_is_remembered:
  fixes s0 s2 :: "'h broker"
  assumes "s0 = foldl broker_step (spawn_broker env0 p present ea committed) cs"
    and "bt_get (br_pending s0) (x, y) = Some pending" and "length (br_denials s0) < MAX_DENIALS"
    and "br_running s0"
    and "s2 = foldl broker_step (broker_step s0 (env, Decide x y DenyRequest)) ds"
    and "en_hash env2 = en_hash env" and "denial_material r = denial_material (pe_request pending)"
    and "br_running s2"
  shows "\<exists>f. new_answers s2 (broker_step s2 (env2, Authorize r t)) = [(t, AuthDenied f)]
    \<and> br_pending (broker_step s2 (env2, Authorize r t)) = br_pending s2"
proof -
  have ok: "broker_ok s0" using bk.run_inv [OF spawn_broker_ok] assms(1) by simp
  have step: "broker_step s0 (env, Decide x y DenyRequest) =
      settle_decision env (x, y) pending DenyRequest s0"
    using assms(2,4) by (simp add: broker_step_def decide_def check_decision_def record_choice_def)
  have "denial_key env (pe_request pending) \<in>
      set (br_denials (broker_step s0 (env, Decide x y DenyRequest)))"
    unfolding step
    using settle_decision_advances [OF ok assms(2), of DenyRequest "\<lambda>t f. True" env] assms(3)
    by simp
  moreover have "denials_grow (broker_step s0 (env, Decide x y DenyRequest)) s2"
    unfolding assms(5) by (rule bk.run_below [OF broker_step_ok [OF ok]])
  ultimately have "denial_key env2 r \<in> set (br_denials s2)"
    using assms(6,7) by (auto simp: denial_key_def denials_grow_def)
  then show ?thesis
    using assms(8)
    by (auto simp: broker_step_def authorize_def Let_def new_answers_def answer_of_def)
qed

theorem denial_is_remembered_witness:
  "\<exists>f. new_answers
      (broker_step (foldl broker_step sample_broker [(sample_broker_env, Authorize external_read 7)])
        (sample_broker_env, Decide 1 2 DenyRequest))
      (broker_step
        (broker_step (foldl broker_step sample_broker [(sample_broker_env, Authorize external_read 7)])
          (sample_broker_env, Decide 1 2 DenyRequest))
        (sample_broker_env, Authorize (external_read\<lparr>rq_invocation := 3\<rparr>) 8)) = [(8, AuthDenied f)]"
  (is "\<exists>f. new_answers ?s2 (broker_step ?s2 (_, Authorize ?r 8)) = _")
proof -
  let ?cs = "[(sample_broker_env, Authorize external_read 7)]"
  let ?s0 = "foldl broker_step (spawn_broker sample_broker_env sample_policy True True []) ?cs"
  have pending: "bt_get (br_pending ?s0) (1, 2)
      = Some \<lparr>pe_request = external_read, pe_policy = Ask, pe_ticket = 7\<rparr>"
    by (simp add: broker_run policy_run)
  have facts: "length (br_denials ?s0) < MAX_DENIALS" "br_running ?s0"
    "br_running (broker_step ?s0 (sample_broker_env, Decide 1 2 DenyRequest))"
    by (simp_all add: broker_run policy_run)
  have "?s2 = foldl broker_step (broker_step ?s0 (sample_broker_env, Decide 1 2 DenyRequest)) []"
    by (simp add: sample_broker_def)
  moreover have "br_running ?s2" using facts(3) by (simp add: sample_broker_def)
  moreover have "denial_material ?r = denial_material external_read"
    by (simp add: denial_material_def)
  ultimately show ?thesis
    using denial_is_remembered [OF refl pending facts(1,2), of ?s2 sample_broker_env "[]"
        sample_broker_env ?r 8]
    by simp
qed

text \<open>
  No consent without a controller. Once the controller is lost, whatever commands follow, late
  decisions included, nothing is pending and every allowance is one the policy or an existing
  session grant gives by itself: no request that asks for consent is allowed any more.
\<close>

theorem no_consent_after_controller_lost:
  assumes "s0 = foldl broker_step (spawn_broker env0 p present ea committed) cs"
    and "s = foldl broker_step (broker_step s0 (env, ControllerLost)) ds"
    and "(t, AuthAllowed f) \<in> set (new_answers s (broker_step s ec))"
  shows "br_pending (broker_step s ec) = []
    \<and> ((\<exists>ids. evaluate (br_policy s) (af_request f) (br_grants s) = AllowedByPolicy ids)
       \<or> (\<exists>i. evaluate (br_policy s) (af_request f) (br_grants s) = AllowedBySessionGrant i))"
proof -
  have "broker_ok s0" using bk.run_inv [OF spawn_broker_ok] assms(1) by simp
  moreover have "br_running s0 \<or> br_pending s0 = []"
    unfolding assms(1) by (rule stopped_without_pending [OF spawn_broker_ok]) (simp add: spawn_broker_def)
  ultimately have orphan: "orphaned s"
    unfolding assms(2) by (intro orphaned_run controller_lost_orphans)
  then have "br_pending (broker_step s ec) = []"
    using orphaned_step [OF orphan, of ec] by (simp add: orphaned_def)
  then show ?thesis
    using orphaned_step [OF orphan, of ec] assms(3)
    by (cases "evaluate (br_policy s) (af_request f) (br_grants s)") auto
qed

theorem no_consent_after_controller_lost_witness:
  "\<exists>t f. (t, AuthAllowed f) \<in> set (new_answers
      (broker_step sample_broker (sample_broker_env, ControllerLost))
      (broker_step (broker_step sample_broker (sample_broker_env, ControllerLost))
        (sample_broker_env, Authorize (sample_read (WorkspacePath [RootDir])) 7)))
     \<and> (\<exists>ids. evaluate sample_policy (af_request f) no_grants = AllowedByPolicy ids)"
proof -
  let ?r = "sample_read (WorkspacePath [RootDir])"
  let ?s0 = "foldl broker_step (spawn_broker sample_broker_env sample_policy True True []) []"
  let ?s = "foldl broker_step (broker_step ?s0 (sample_broker_env, ControllerLost)) []"
  let ?f = "\<lparr>af_request = ?r, af_policy = Allow, af_controller = None, af_effective = Allow\<rparr>"
  have mem: "(7, AuthAllowed ?f) \<in> set (new_answers ?s
      (broker_step ?s (sample_broker_env, Authorize ?r 7)))"
    by (simp add: broker_run policy_run)
  have "\<exists>ids. evaluate sample_policy ?r no_grants = AllowedByPolicy ids"
    using no_consent_after_controller_lost [OF refl refl mem]
    by (auto simp: broker_run policy_run)
  then show ?thesis
    using mem by (auto simp: sample_broker_def intro!: exI [of _ 7] exI [of _ ?f])
qed

text \<open>A decision takes effect only on its pending request and within what was asked. A rejected
  decision changes nothing; an accepted one names a pending request, and a session choice carries
  exactly the scope that was asked about, which is not personal memory, while a saved outbound
  choice needs an outbound request.
\<close>

theorem decision_fits_request:
  assumes "decide env x y d s = (s', res)"
  shows "case res of
      Inl e \<Rightarrow> s' = s
    | Inr _ \<Rightarrow> \<exists>p. bt_get (br_pending s) (x, y) = Some p
        \<and> (\<forall>scope. d = AllowSession scope \<longrightarrow>
             scope = rq_scope (pe_request p) \<and> \<not> is_personal_memory scope)
        \<and> (d \<in> {SaveOutboundAllow, SaveOutboundDeny} \<longrightarrow>
             (\<exists>a b. rq_scope (pe_request p) = ExternalScope a b))
        \<and> (d = AllowWebTurn \<longrightarrow> web_review (pe_request p) \<noteq> None)"
proof (cases "bt_get (br_pending s) (x, y)")
  case None
  then show ?thesis using assms by (auto simp: decide_def)
next
  case (Some p)
  show ?thesis
  proof (cases "check_decision (pe_request p) d x y")
    case (Inl e)
    then have "s' = s" "res = Inl e" using assms Some by (simp_all add: decide_def)
    then show ?thesis by simp
  next
    case (Inr u)
    obtain s1 r1 where r: "record_choice (pe_request p) d x y s = (s1, r1)" by fastforce
    show ?thesis
    proof (cases r1)
      case (Inl e)
      then have "s' = s" "res = Inl e"
        using assms Some Inr r record_choice_cases [OF r] by (simp_all add: decide_def)
      then show ?thesis by simp
    next
      case ok: (Inr v)
      have "res = Inr ()" using assms Some Inr r ok by (auto simp: decide_def)
      moreover have "web_review (pe_request p) \<noteq> None" if "d = AllowWebTurn"
        using that r ok by (auto simp: record_choice_def split: option.splits)
      ultimately show ?thesis
        using Some Inr
        by (auto simp: check_decision_def split: if_splits permission_scope.splits)
    qed
  qed
qed

theorem decision_fits_request_witness:
  "fst (decide sample_broker_env 1 2 AllowRequestOnce sample_broker) = sample_broker"
proof -
  obtain s' res where d: "decide sample_broker_env 1 2 AllowRequestOnce sample_broker = (s', res)"
    by fastforce
  then have "res = Inl (UnknownDecision 1 2)"
    by (auto simp: decide_def sample_broker_def spawn_broker_def)
  with decision_fits_request [OF d] have "s' = sample_broker" by simp
  then show ?thesis using d by simp
qed

end
