(* ===== verification/Usage_Ledger.thy ===== *)
theory Usage_Ledger
  imports Prelude
begin

text \<open>
  Durable usage admission and settlement, \<open>src/src/usage_budget.rs\<close> and
  \<open>src/src/storage/usage.rs\<close>. The two SQL tables are the list of request rows in sequence order
  and the map of counters; a transaction returns the store it commits, or the old one with an
  error. JSON bodies are the values they encode. Counts are naturals with the 64-bit overflow of
  \<open>checked_add\<close> written out; a counter that a settlement would make negative violates its CHECK
  and aborts the transaction.
\<close>

section \<open>Policy and admission\<close>

record budget_policy =
  daily_requests :: nat
  root_requests :: nat
  foreground_request_reserve :: nat
  daily_tokens :: "nat option"
  root_tokens :: "nat option"
  background_daily_tokens :: nat
  background_job_tokens :: nat

definition default_policy :: budget_policy where
  "default_policy =
     \<lparr>daily_requests = 10000, root_requests = 10000, foreground_request_reserve = 32,
      daily_tokens = None, root_tokens = None, background_daily_tokens = 32768,
      background_job_tokens = 8192\<rparr>"

datatype usage_error =
  RequestAllowanceRange | ReserveExceedsDaily | TokenAllowanceRange | InvalidDispatchFacts
| InvalidAttribution | InvalidRoute | InvalidReservation | InvalidIdentity
| RestoreReviewRequired | BadPolicyDocument | RequestsExhausted | TokensExhausted
| ForegroundHeadroom | BackgroundExhausted | BackgroundReviewRequired | NotAnInteger
| UniqueViolation | InvalidCumulative | ConflatedUsage | ReportedUsageBound | NoSuchRow
| SettledDifferently | CheckViolation

definition validate_budget :: "budget_policy \<Rightarrow> usage_error + unit" where
  "validate_budget p =
     res_bind (ensure (1 \<le> daily_requests p \<and> daily_requests p \<le> 100000
         \<and> 1 \<le> root_requests p \<and> root_requests p \<le> 1000000) RequestAllowanceRange)
     (\<lambda>_. res_bind (ensure (foreground_request_reserve p \<le> daily_requests p) ReserveExceedsDaily)
     (\<lambda>_. ensure (list_all (\<lambda>limit. case limit of
              None \<Rightarrow> True | Some n \<Rightarrow> 1 \<le> n \<and> n \<le> 1000000000)
            [daily_tokens p, root_tokens p, Some (background_daily_tokens p),
             Some (background_job_tokens p)]) TokenAllowanceRange))"

datatype work_class = Foreground | Background

record dispatch_facts =
  df_project :: "rust_string option"
  df_profile :: "rust_string option"
  df_owner :: "rust_string option"
  df_connection :: "rust_string option"
  df_model :: "rust_string option"
  df_reasoning :: "rust_string option"

record admission =
  ad_facts :: dispatch_facts
  ad_id :: rust_string
  ad_operation :: rust_string
  ad_root :: rust_string
  ad_job :: rust_string
  ad_route :: rust_string
  ad_class :: work_class
  ad_reserved :: nat

definition clean_text :: "nat \<Rightarrow> rust_string \<Rightarrow> bool" where
  "clean_text limit s = (str_len s \<le> limit \<and> \<not> list_ex is_control s)"

definition validate_admission :: "admission \<Rightarrow> usage_error + unit" where
  "validate_admission a =
     (let f = ad_facts a
      in res_bind (ensure (list_all (\<lambda>v. case v of None \<Rightarrow> True | Some s \<Rightarrow> clean_text 512 s)
            [df_project f, df_profile f, df_owner f, df_connection f, df_model f, df_reasoning f])
            InvalidDispatchFacts)
      (\<lambda>_. res_bind (ensure (list_all (\<lambda>s. s \<noteq> [] \<and> clean_text 128 s)
            [ad_id a, ad_operation a, ad_root a, ad_job a]) InvalidAttribution)
      (\<lambda>_. res_bind (ensure (ad_route a \<noteq> [] \<and> clean_text 1024 (ad_route a)) InvalidRoute)
      (\<lambda>_. ensure (1 \<le> ad_reserved a \<and> ad_reserved a \<le> 1000000000) InvalidReservation))))"

datatype request_outcome = Completed | OutcomeFailed | Interrupted

record cumulative_usage =
  cu_counter :: rust_string
  cu_total_tokens :: nat

record receipt =
  rc_cumulative :: "cumulative_usage option"
  rc_total_tokens :: "nat option"
  rc_cost :: "nat option"
  rc_outcome :: request_outcome

definition validate_receipt :: "receipt \<Rightarrow> usage_error + unit" where
  "validate_receipt r =
     res_bind (case rc_cumulative r of
         None \<Rightarrow> Inr ()
       | Some c \<Rightarrow>
           res_bind (ensure (clean_text 4096 (cu_counter c) \<and> cu_total_tokens c \<le> 1000000000000)
             InvalidCumulative)
           (\<lambda>_. ensure (rc_total_tokens r = None) ConflatedUsage))
     (\<lambda>_. ensure (list_all (\<lambda>v. case v of None \<Rightarrow> True | Some n \<Rightarrow> n \<le> 1000000000000)
        [rc_total_tokens r, rc_cost r]) ReportedUsageBound)"

section \<open>The tables\<close>

record usage_row =
  ur_sequence :: nat
  ur_day :: nat
  ur_background :: bool
  ur_charge :: nat
  ur_admission :: admission
  ur_receipt :: "receipt option"

datatype counter_key =
  DayCounter nat | RootCounter rust_string | JobCounter rust_string | BackgroundDayCounter nat

datatype policy_document = NoPolicy | StoredPolicy budget_policy | CorruptPolicy

record usage_store =
  us_rows :: "usage_row list"
  us_counters :: "counter_key \<Rightarrow> (nat \<times> nat) option"
  us_policy :: policy_document
  us_usage_review :: bool
  us_restore_review :: bool

definition empty_store :: usage_store where
  "empty_store =
     \<lparr>us_rows = [], us_counters = (\<lambda>k. None), us_policy = NoPolicy, us_usage_review = False,
      us_restore_review = False\<rparr>"

definition usage_policy :: "usage_store \<Rightarrow> usage_error + budget_policy" where
  "usage_policy s =
     (case us_policy s of
        NoPolicy \<Rightarrow> res_bind (validate_budget default_policy) (\<lambda>_. Inr default_policy)
      | StoredPolicy p \<Rightarrow> res_bind (validate_budget p) (\<lambda>_. Inr p)
      | CorruptPolicy \<Rightarrow> Inl BadPolicyDocument)"

definition update_usage_policy ::
  "(budget_policy \<Rightarrow> budget_policy) \<Rightarrow> usage_store \<Rightarrow> usage_store \<times> (usage_error + budget_policy)"
where
  "update_usage_policy edit s =
     (case usage_policy s of
        Inl e \<Rightarrow> (s, Inl e)
      | Inr previous \<Rightarrow>
          (case validate_budget (edit previous) of
             Inl e \<Rightarrow> (s, Inl e)
           | Inr _ \<Rightarrow>
               (if edit previous \<noteq> previous then s\<lparr>us_policy := StoredPolicy (edit previous)\<rparr> else s,
                Inr (edit previous))))"

definition counter :: "usage_store \<Rightarrow> counter_key \<Rightarrow> nat \<times> nat" where
  "counter s k = (case us_counters s k of Some c \<Rightarrow> c | None \<Rightarrow> (0, 0))"

definition last_day :: "usage_store \<Rightarrow> nat" where
  "last_day s = fold max (map ur_day (us_rows s)) 0"

definition JOB_TOKENS :: nat where "JOB_TOKENS = 8192"

definition counter_keys :: "admission \<Rightarrow> nat \<Rightarrow> counter_key list" where
  "counter_keys a day =
     [DayCounter day, RootCounter (ad_root a), JobCounter (ad_job a)]
     @ (if ad_class a = Background then [BackgroundDayCounter day] else [])"

text \<open>Adding to a counter: the token delta may be negative, the CHECK forbids a negative result.\<close>

definition bump ::
  "nat \<Rightarrow> int \<Rightarrow> counter_key \<Rightarrow> (counter_key \<Rightarrow> (nat \<times> nat) option)
    \<Rightarrow> (counter_key \<Rightarrow> (nat \<times> nat) option) option" where
  "bump requests tokens k cs =
     (let (r, t) = (case cs k of Some c \<Rightarrow> c | None \<Rightarrow> (0, 0))
      in if int t + tokens < 0 then None else Some (cs(k \<mapsto> (r + requests, nat (int t + tokens)))))"

fun bump_all ::
  "nat \<Rightarrow> int \<Rightarrow> counter_key list \<Rightarrow> (counter_key \<Rightarrow> (nat \<times> nat) option)
    \<Rightarrow> (counter_key \<Rightarrow> (nat \<times> nat) option) option" where
  "bump_all requests tokens [] cs = Some cs"
| "bump_all requests tokens (k # ks) cs =
     (case bump requests tokens k cs of
        None \<Rightarrow> None | Some cs' \<Rightarrow> bump_all requests tokens ks cs')"

definition update_counters ::
  "admission \<Rightarrow> nat \<Rightarrow> nat \<Rightarrow> int \<Rightarrow> (counter_key \<Rightarrow> (nat \<times> nat) option)
    \<Rightarrow> (counter_key \<Rightarrow> (nat \<times> nat) option) option" where
  "update_counters a day requests tokens cs = bump_all requests tokens (counter_keys a day) cs"

section \<open>Admission\<close>

definition fits :: "nat \<Rightarrow> nat \<Rightarrow> nat option \<Rightarrow> bool" where
  "fits reserved used cap =
     (case cap of None \<Rightarrow> True | Some c \<Rightarrow> used + reserved < 2 ^ 64 \<and> used + reserved \<le> c)"

definition background_checks ::
  "usage_store \<Rightarrow> budget_policy \<Rightarrow> admission \<Rightarrow> nat \<Rightarrow> usage_error + unit" where
  "background_checks s p a day =
     res_bind (ensure (fst (counter s (DayCounter day)) < daily_requests p - foreground_request_reserve p)
       ForegroundHeadroom)
     (\<lambda>_. res_bind (ensure
         (fits (ad_reserved a) (snd (counter s (BackgroundDayCounter day)))
            (Some (min (background_daily_tokens p) 32768))
          \<and> fits (ad_reserved a) (snd (counter s (JobCounter (ad_job a))))
            (Some (min (background_job_tokens p) JOB_TOKENS))) BackgroundExhausted)
     (\<lambda>_. ensure (\<not> us_restore_review s) BackgroundReviewRequired))"

definition admission_checks ::
  "usage_store \<Rightarrow> budget_policy \<Rightarrow> admission \<Rightarrow> nat \<Rightarrow> usage_error + unit" where
  "admission_checks s p a day =
     res_bind (ensure (fst (counter s (DayCounter day)) < daily_requests p
         \<and> fst (counter s (RootCounter (ad_root a))) < root_requests p) RequestsExhausted)
     (\<lambda>_. res_bind (ensure
         (fits (ad_reserved a) (snd (counter s (DayCounter day))) (daily_tokens p)
          \<and> fits (ad_reserved a) (snd (counter s (RootCounter (ad_root a)))) (root_tokens p))
         TokensExhausted)
     (\<lambda>_. if ad_class a = Background then background_checks s p a day else Inr ()))"

definition insert_row :: "usage_store \<Rightarrow> admission \<Rightarrow> nat \<Rightarrow> usage_error + usage_store" where
  "insert_row s a day =
     (if day \<ge> 2 ^ 63 then Inl NotAnInteger
      else if list_ex (\<lambda>r. ad_id (ur_admission r) = ad_id a) (us_rows s) then Inl UniqueViolation
      else case update_counters a day 1 (int (ad_reserved a)) (us_counters s) of
             None \<Rightarrow> Inl CheckViolation
           | Some cs \<Rightarrow>
               Inr (s\<lparr>us_rows := us_rows s @ [\<lparr>ur_sequence = Suc (length (us_rows s)), ur_day = day,
                        ur_background = (ad_class a = Background), ur_charge = ad_reserved a,
                        ur_admission = a, ur_receipt = None\<rparr>],
                      us_counters := cs\<rparr>))"

definition reserve_usage ::
  "admission \<Rightarrow> nat \<Rightarrow> usage_store \<Rightarrow> usage_store \<times> (usage_error + unit)" where
  "reserve_usage a now_day s =
     (let day = max now_day (last_day s);
          outcome =
            res_bind (validate_admission a)
            (\<lambda>_. res_bind (ensure (\<not> us_usage_review s) RestoreReviewRequired)
            (\<lambda>_. res_bind (usage_policy s)
            (\<lambda>p. res_bind (admission_checks s p a day)
            (\<lambda>_. insert_row s a day))))
      in case outcome of Inl e \<Rightarrow> (s, Inl e) | Inr s' \<Rightarrow> (s', Inr ()))"

section \<open>Settlement and reading\<close>

definition settle_row :: "rust_string \<Rightarrow> receipt \<Rightarrow> usage_row \<Rightarrow> usage_row" where
  "settle_row i r row =
     (if ad_id (ur_admission row) = i
      then row\<lparr>ur_charge := (case rc_total_tokens r of Some t \<Rightarrow> t | None \<Rightarrow> ur_charge row),
               ur_receipt := Some r\<rparr>
      else row)"

definition settle_usage ::
  "rust_string \<Rightarrow> receipt \<Rightarrow> usage_store \<Rightarrow> usage_store \<times> (usage_error + unit)" where
  "settle_usage i r s =
     (case validate_receipt r of
        Inl e \<Rightarrow> (s, Inl e)
      | Inr _ \<Rightarrow>
          (case find (\<lambda>row. ad_id (ur_admission row) = i) (us_rows s) of
             None \<Rightarrow> (s, Inl NoSuchRow)
           | Some row \<Rightarrow>
               (case ur_receipt row of
                  Some existing \<Rightarrow>
                    if existing = r then (s, Inr ()) else (s, Inl SettledDifferently)
                | None \<Rightarrow>
                    (let total = (case rc_total_tokens r of Some t \<Rightarrow> t | None \<Rightarrow> ur_charge row)
                     in case update_counters (ur_admission row) (ur_day row) 0
                           (int total - int (ur_charge row)) (us_counters s) of
                          None \<Rightarrow> (s, Inl CheckViolation)
                        | Some cs \<Rightarrow>
                            (s\<lparr>us_rows := map (settle_row i r) (us_rows s), us_counters := cs\<rparr>,
                             Inr ())))))"

record remaining_allowance =
  ra_requests :: nat
  ra_tokens :: "nat option"
  ra_exceeded :: bool

text \<open>\<open>flatten().min()\<close> of optional bounds.\<close>

fun min_of :: "nat option list \<Rightarrow> nat option" where
  "min_of [] = None"
| "min_of (None # xs) = min_of xs"
| "min_of (Some n # xs) = (case min_of xs of None \<Rightarrow> Some n | Some m \<Rightarrow> Some (min n m))"

definition usage_remaining ::
  "rust_string \<Rightarrow> rust_string \<Rightarrow> work_class \<Rightarrow> nat \<Rightarrow> usage_store
    \<Rightarrow> usage_error + remaining_allowance" where
  "usage_remaining rt job cls now_day s =
     res_bind (ensure (rt \<noteq> [] \<and> str_len rt \<le> 128 \<and> job \<noteq> [] \<and> str_len job \<le> 128) InvalidIdentity)
     (\<lambda>_. res_bind (usage_policy s)
     (\<lambda>p.
        let day = max now_day (last_day s);
            (day_requests, day_tokens) = counter s (DayCounter day);
            (rt_requests, rt_tokens) = counter s (RootCounter rt);
            request_cap = (if cls = Background then daily_requests p - foreground_request_reserve p
              else daily_requests p);
            requests = min (request_cap - day_requests) (root_requests p - rt_requests);
            tokens = min_of [map_option (\<lambda>cap. cap - day_tokens) (daily_tokens p),
              map_option (\<lambda>cap. cap - rt_tokens) (root_tokens p)];
            exceeded = (day_requests > request_cap \<or> rt_requests > root_requests p
              \<or> (case daily_tokens p of Some cap \<Rightarrow> day_tokens > cap | None \<Rightarrow> False)
              \<or> (case root_tokens p of Some cap \<Rightarrow> rt_tokens > cap | None \<Rightarrow> False))
        in if cls = Background then
             let background_tokens = snd (counter s (BackgroundDayCounter day));
                 job_tokens = snd (counter s (JobCounter job));
                 daily_cap = min (background_daily_tokens p) 32768;
                 job_cap = min (background_job_tokens p) JOB_TOKENS
             in Inr \<lparr>ra_requests = requests,
                  ra_tokens = min_of [tokens, Some (daily_cap - background_tokens),
                    Some (job_cap - job_tokens)],
                  ra_exceeded = exceeded \<or> background_tokens > daily_cap \<or> job_tokens > job_cap\<rparr>
           else Inr \<lparr>ra_requests = requests, ra_tokens = tokens, ra_exceeded = exceeded\<rparr>))"

definition usage_attribution :: "rust_string \<Rightarrow> usage_store \<Rightarrow> admission option" where
  "usage_attribution operation s =
     map_option ur_admission (find (\<lambda>r. ad_operation (ur_admission r) = operation) (us_rows s))"

definition usage_page ::
  "rust_string option \<Rightarrow> rust_string option \<Rightarrow> nat option \<Rightarrow> usage_store
    \<Rightarrow> usage_error + usage_row list" where
  "usage_page rt job after s =
     (let start = (case after of Some n \<Rightarrow> n | None \<Rightarrow> 0)
      in res_bind (ensure (start < 2 ^ 63) NotAnInteger)
      (\<lambda>_. Inr (take 128 (filter (\<lambda>r. ur_sequence r > start
         \<and> (case rt of Some x \<Rightarrow> ad_root (ur_admission r) = x | None \<Rightarrow> True)
         \<and> (case job of Some x \<Rightarrow> ad_job (ur_admission r) = x | None \<Rightarrow> True)) (us_rows s)))))"

section \<open>The caller's budget\<close>

record usage_budget =
  ub_root :: rust_string
  ub_route :: rust_string
  ub_output_reserve :: nat
  ub_job :: "rust_string option"
  ub_class :: work_class
  ub_facts :: dispatch_facts

definition no_dispatch_facts :: dispatch_facts where
  "no_dispatch_facts =
     \<lparr>df_project = None, df_profile = None, df_owner = None, df_connection = None, df_model = None,
      df_reasoning = None\<rparr>"

definition new_usage_budget :: "rust_string \<Rightarrow> rust_string \<Rightarrow> nat \<Rightarrow> usage_budget" where
  "new_usage_budget rt route output_reserve =
     \<lparr>ub_root = rt, ub_route = route, ub_output_reserve = output_reserve, ub_job = None,
      ub_class = Foreground, ub_facts = no_dispatch_facts\<rparr>"

definition reroute :: "rust_string \<Rightarrow> nat \<Rightarrow> usage_budget \<Rightarrow> usage_budget" where
  "reroute route output_reserve b = b\<lparr>ub_route := route, ub_output_reserve := output_reserve\<rparr>"

definition with_facts :: "dispatch_facts \<Rightarrow> usage_budget \<Rightarrow> usage_budget" where
  "with_facts f b = b\<lparr>ub_facts := f\<rparr>"

definition background :: "rust_string \<Rightarrow> usage_budget \<Rightarrow> usage_budget" where
  "background job b = b\<lparr>ub_class := Background, ub_job := Some job\<rparr>"

definition child_route ::
  "rust_string \<Rightarrow> rust_string \<Rightarrow> rust_string \<Rightarrow> rust_string \<Rightarrow> rust_string \<Rightarrow> rust_string option
    \<Rightarrow> usage_budget \<Rightarrow> usage_budget" where
  "child_route route owner connection model profile reasoning b =
     with_facts ((ub_facts b)\<lparr>df_owner := Some owner, df_connection := Some connection,
         df_model := Some model, df_profile := Some profile, df_reasoning := reasoning\<rparr>)
       (reroute (rstr ''child/'' @ route) (ub_output_reserve b) b)"

definition inherit_operation :: "rust_string \<Rightarrow> usage_store \<Rightarrow> usage_budget \<Rightarrow> usage_budget" where
  "inherit_operation parent s b =
     (case usage_attribution parent s of
        None \<Rightarrow> b
      | Some a \<Rightarrow> b\<lparr>ub_root := ad_root a, ub_job := Some (ad_job a), ub_class := ad_class a,
          ub_facts := (ub_facts b)\<lparr>df_project := df_project (ad_facts a)\<rparr>\<rparr>)"

definition rebind_root :: "rust_string \<Rightarrow> usage_budget \<Rightarrow> usage_budget" where
  "rebind_root rt b = b\<lparr>ub_root := rt\<rparr>"

definition with_model :: "rust_string \<Rightarrow> usage_budget \<Rightarrow> usage_budget" where
  "with_model model b = b\<lparr>ub_facts := (ub_facts b)\<lparr>df_model := Some model\<rparr>\<rparr>"

definition with_reasoning :: "rust_string option \<Rightarrow> usage_budget \<Rightarrow> usage_budget" where
  "with_reasoning reasoning b = b\<lparr>ub_facts := (ub_facts b)\<lparr>df_reasoning := reasoning\<rparr>\<rparr>"

definition admission_of ::
  "usage_budget \<Rightarrow> rust_string \<Rightarrow> rust_string \<Rightarrow> nat \<Rightarrow> admission" where
  "admission_of b operation i input_tokens =
     \<lparr>ad_facts = ub_facts b, ad_id = i, ad_operation = operation, ad_root = ub_root b,
      ad_job = (case ub_job b of Some j \<Rightarrow> j | None \<Rightarrow> operation), ad_route = ub_route b,
      ad_class = ub_class b,
      ad_reserved = max 1 (min (2 ^ 64 - 1) (input_tokens + ub_output_reserve b))\<rparr>"

definition admit ::
  "usage_budget \<Rightarrow> rust_string \<Rightarrow> rust_string \<Rightarrow> nat \<Rightarrow> nat \<Rightarrow> usage_store
    \<Rightarrow> usage_store \<times> (usage_error + rust_string)" where
  "admit b operation i input_tokens now_day s =
     (case reserve_usage (admission_of b operation i input_tokens) now_day s of
        (s', Inl e) \<Rightarrow> (s', Inl e)
      | (s', Inr _) \<Rightarrow> (s', Inr i))"

definition remaining_for ::
  "usage_budget \<Rightarrow> rust_string \<Rightarrow> nat \<Rightarrow> usage_store \<Rightarrow> usage_error + remaining_allowance" where
  "remaining_for b operation day s =
     usage_remaining (ub_root b) (case ub_job b of Some j \<Rightarrow> j | None \<Rightarrow> operation) (ub_class b) day s"

section \<open>Counters are the books of the rows\<close>

definition row_keys :: "usage_row \<Rightarrow> counter_key list" where
  "row_keys r = counter_keys (ur_admission r) (ur_day r)"

definition booked :: "counter_key \<Rightarrow> usage_row list \<Rightarrow> nat \<times> nat" where
  "booked k rows =
     (let own = filter (\<lambda>r. k \<in> set (row_keys r)) rows
      in (length own, sum_list (map ur_charge own)))"

definition store_ok :: "usage_store \<Rightarrow> bool" where
  "store_ok s =
     ((\<forall>k. counter s k = booked k (us_rows s))
      \<and> distinct (map (ad_id \<circ> ur_admission) (us_rows s))
      \<and> map ur_sequence (us_rows s) = [1..<Suc (length (us_rows s))])"

definition count_in :: "(counter_key \<Rightarrow> (nat \<times> nat) option) \<Rightarrow> counter_key \<Rightarrow> nat \<times> nat" where
  "count_in cs k = (case cs k of Some c \<Rightarrow> c | None \<Rightarrow> (0, 0))"

lemma distinct_counter_keys: "distinct (counter_keys a day)"
  by (simp add: counter_keys_def)

lemma bump_eq:
  "bump n d k cs =
     (if int (snd (count_in cs k)) + d < 0 then None
      else Some (cs(k \<mapsto> (fst (count_in cs k) + n, nat (int (snd (count_in cs k)) + d)))))"
  by (cases "count_in cs k") (simp add: bump_def count_in_def)

lemma bump_all_Some:
  assumes "distinct ks" and "\<forall>k \<in> set ks. 0 \<le> int (snd (count_in cs k)) + d"
  shows "\<exists>cs'. bump_all n d ks cs = Some cs' \<and>
     (\<forall>k. count_in cs' k =
       (if k \<in> set ks then (fst (count_in cs k) + n, nat (int (snd (count_in cs k)) + d))
        else count_in cs k))"
  using assms
proof (induction ks arbitrary: cs)
  case (Cons k ks)
  let ?cs = "cs(k \<mapsto> (fst (count_in cs k) + n, nat (int (snd (count_in cs k)) + d)))"
  have other: "count_in ?cs k' = count_in cs k'" if "k' \<noteq> k" for k'
    using that by (simp add: count_in_def)
  have "\<forall>k' \<in> set ks. 0 \<le> int (snd (count_in ?cs k')) + d"
    using Cons.prems other by (metis distinct.simps(2) list.set_intros(2))
  moreover have "distinct ks" using Cons.prems(1) by simp
  ultimately obtain cs' where
    cs': "bump_all n d ks ?cs = Some cs'"
    "\<forall>k'. count_in cs' k' = (if k' \<in> set ks
      then (fst (count_in ?cs k') + n, nat (int (snd (count_in ?cs k')) + d))
      else count_in ?cs k')" using Cons.IH [of ?cs] by blast
  have "count_in cs' k' = (if k' \<in> set (k # ks)
      then (fst (count_in cs k') + n, nat (int (snd (count_in cs k')) + d)) else count_in cs k')" for k'
    using cs'(2) Cons.prems(1) other [of k'] by (cases "k' = k") (auto simp: count_in_def)
  then show ?case using cs'(1) Cons.prems(2) by (auto simp: bump_eq)
qed simp

lemma counter_count_in: "counter s k = count_in (us_counters s) k"
  by (simp add: counter_def count_in_def)

lemma insert_row_ok:
  assumes "store_ok s" and "insert_row s a day = Inr s'"
  shows "store_ok s' \<and> us_policy s' = us_policy s \<and>
    (\<forall>k. counter s' k = (if k \<in> set (counter_keys a day)
       then (fst (counter s k) + 1, snd (counter s k) + ad_reserved a) else counter s k))"
proof -
  let ?row = "\<lparr>ur_sequence = Suc (length (us_rows s)), ur_day = day,
      ur_background = (ad_class a = Background), ur_charge = ad_reserved a,
      ur_admission = a, ur_receipt = None\<rparr>"
  from assms(2) obtain cs where fresh: "\<forall>r \<in> set (us_rows s). ad_id (ur_admission r) \<noteq> ad_id a"
    and cs: "bump_all 1 (int (ad_reserved a)) (counter_keys a day) (us_counters s) = Some cs"
    and s': "s' = s\<lparr>us_rows := us_rows s @ [?row], us_counters := cs\<rparr>"
    by (auto simp: insert_row_def update_counters_def list_ex_iff split: if_splits option.splits)
  have counts: "\<forall>k. count_in cs k = (if k \<in> set (counter_keys a day)
      then (fst (counter s k) + 1, snd (counter s k) + ad_reserved a) else counter s k)"
    using bump_all_Some [OF distinct_counter_keys, of a day "us_counters s" "int (ad_reserved a)" 1]
      cs by (auto simp: counter_count_in nat_int_add)
  moreover have "booked k (us_rows s @ [?row]) = (if k \<in> set (counter_keys a day)
      then (fst (booked k (us_rows s)) + 1, snd (booked k (us_rows s)) + ad_reserved a)
      else booked k (us_rows s))" for k
    by (simp add: booked_def row_keys_def Let_def)
  ultimately show ?thesis
    using assms(1) fresh
    by (auto simp: store_ok_def s' counter_count_in [of "s\<lparr>us_rows := _, us_counters := _\<rparr>"])
qed

lemma reserve_usage_cases:
  "fst (reserve_usage a now s) = s \<and> (\<exists>e. snd (reserve_usage a now s) = Inl e) \<or>
   (\<exists>p. validate_admission a = Inr () \<and> usage_policy s = Inr p \<and> \<not> us_usage_review s
      \<and> admission_checks s p a (max now (last_day s)) = Inr ()
      \<and> insert_row s a (max now (last_day s)) = Inr (fst (reserve_usage a now s))
      \<and> snd (reserve_usage a now s) = Inr ())"
  by (auto simp: reserve_usage_def Let_def res_bind_def ensure_def split: sum.splits if_splits)

lemma booked_append: "booked k (xs @ ys) =
    (fst (booked k xs) + fst (booked k ys), snd (booked k xs) + snd (booked k ys))"
  by (simp add: booked_def Let_def)

lemma booked_Cons: "booked k (r # rows) =
    (if k \<in> set (row_keys r) then (Suc (fst (booked k rows)), ur_charge r + snd (booked k rows))
     else booked k rows)"
  by (simp add: booked_def Let_def)

lemma settle_row_other: "ad_id (ur_admission row) \<noteq> i \<Longrightarrow> settle_row i r row = row"
  by (simp add: settle_row_def)

lemma settle_row_keeps [simp]:
  "ur_admission (settle_row i r row) = ur_admission row"
  "ur_day (settle_row i r row) = ur_day row"
  "ur_sequence (settle_row i r row) = ur_sequence row"
  "row_keys (settle_row i r row) = row_keys row"
  by (simp_all add: settle_row_def row_keys_def)

lemma find_unique:
  assumes "distinct (map (ad_id \<circ> ur_admission) rows)" and "row \<in> set rows"
    and "ad_id (ur_admission row) = i"
  shows "find (\<lambda>row. ad_id (ur_admission row) = i) rows = Some row"
    and "\<exists>xs ys. rows = xs @ row # ys \<and> map (settle_row i r) rows = xs @ settle_row i r row # ys"
proof -
  obtain xs ys where split: "rows = xs @ row # ys" using assms(2) by (meson split_list)
  with assms have others: "\<forall>x \<in> set xs \<union> set ys. ad_id (ur_admission x) \<noteq> i"
    by (force simp: image_iff)
  then have "map (settle_row i r) xs = xs" and "map (settle_row i r) ys = ys"
    by (auto simp: settle_row_other intro!: map_idI)
  then show "\<exists>xs ys. rows = xs @ row # ys \<and> map (settle_row i r) rows = xs @ settle_row i r row # ys"
    using split by auto
  from others have "find (\<lambda>row. ad_id (ur_admission row) = i) xs = None"
    by (auto simp: find_None_iff)
  with split assms(3) show "find (\<lambda>row. ad_id (ur_admission row) = i) rows = Some row"
    by (induction xs arbitrary: rows) (auto split: if_splits)
qed

definition final_charge :: "receipt \<Rightarrow> usage_row \<Rightarrow> nat" where
  "final_charge r row = (case rc_total_tokens r of Some t \<Rightarrow> t | None \<Rightarrow> ur_charge row)"

lemma settle_unsettled:
  assumes ok: "store_ok s" and row: "row \<in> set (us_rows s)" and i: "ad_id (ur_admission row) = i"
    and open_row: "ur_receipt row = None" and valid: "validate_receipt r = Inr ()"
  shows "\<exists>cs. settle_usage i r s =
      (s\<lparr>us_rows := map (settle_row i r) (us_rows s), us_counters := cs\<rparr>, Inr ())
    \<and> store_ok (s\<lparr>us_rows := map (settle_row i r) (us_rows s), us_counters := cs\<rparr>)"
proof -
  let ?rows = "us_rows s" and ?rows' = "map (settle_row i r) (us_rows s)"
  let ?d = "int (final_charge r row) - int (ur_charge row)"
  have dist: "distinct (map (ad_id \<circ> ur_admission) ?rows)"
    and sums: "\<And>k. counter s k = booked k ?rows" using ok by (auto simp: store_ok_def)
  note found = find_unique [OF dist row i]
  obtain xs ys where split: "?rows = xs @ row # ys" "?rows' = xs @ settle_row i r row # ys"
    using found(2) by blast
  have row': "ur_charge (settle_row i r row) = final_charge r row"
    using i by (simp add: settle_row_def final_charge_def)
  have enough: "\<forall>k \<in> set (row_keys row). 0 \<le> int (snd (count_in (us_counters s) k)) + ?d"
    by (simp add: counter_count_in [symmetric] sums split booked_append booked_Cons)
  from bump_all_Some [OF distinct_counter_keys, of "ur_admission row" "ur_day row" "us_counters s" ?d 0]
    enough obtain cs where
    cs: "bump_all 0 ?d (row_keys row) (us_counters s) = Some cs"
    and after: "\<forall>k. count_in cs k = (if k \<in> set (row_keys row)
       then (fst (count_in (us_counters s) k) + 0, nat (int (snd (count_in (us_counters s) k)) + ?d))
       else count_in (us_counters s) k)"
    unfolding row_keys_def by blast
  have "count_in cs k = booked k ?rows'" for k
  proof -
    have "booked k ?rows = booked k (xs @ row # ys)" by (simp add: split(1))
    then have "count_in (us_counters s) k = booked k (xs @ row # ys)"
      using sums [of k] by (simp add: counter_count_in)
    then have "count_in cs k = booked k (xs @ settle_row i r row # ys)"
      using after by (simp add: booked_append booked_Cons row' nat_eq_iff)
    then show ?thesis by (simp only: split(2))
  qed
  then have "store_ok (s\<lparr>us_rows := ?rows', us_counters := cs\<rparr>)"
    using ok by (simp add: store_ok_def counter_count_in comp_def)
  moreover have "settle_usage i r s = (s\<lparr>us_rows := ?rows', us_counters := cs\<rparr>, Inr ())"
    using found(1) open_row valid cs
    by (simp add: settle_usage_def update_counters_def row_keys_def final_charge_def)
  ultimately show ?thesis by blast
qed

lemma settle_usage_cases:
  assumes "store_ok s"
  shows "fst (settle_usage i r s) = s \<or>
    (\<exists>row \<in> set (us_rows s). ad_id (ur_admission row) = i \<and> ur_receipt row = None
       \<and> validate_receipt r = Inr ()
       \<and> us_rows (fst (settle_usage i r s)) = map (settle_row i r) (us_rows s)
       \<and> snd (settle_usage i r s) = Inr () \<and> store_ok (fst (settle_usage i r s)))"
proof (cases "\<exists>row \<in> set (us_rows s). ad_id (ur_admission row) = i \<and> ur_receipt row = None
    \<and> validate_receipt r = Inr ()")
  case True
  then show ?thesis using settle_unsettled [OF assms, of _ i r] by fastforce
next
  case False
  then show ?thesis
    by (auto simp: settle_usage_def Let_def find_Some_iff split: sum.splits option.splits)
qed

section \<open>Runs\<close>

datatype usage_op =
  ReserveOp admission nat
| SettleOp rust_string receipt
| PolicyOp "budget_policy \<Rightarrow> budget_policy"
| DocumentsOp policy_document bool bool

text \<open>The last operation stands for what the rest of the store does to the three documents.\<close>

fun usage_step :: "usage_store \<Rightarrow> usage_op \<Rightarrow> usage_store" where
  "usage_step s (ReserveOp a now_day) = fst (reserve_usage a now_day s)"
| "usage_step s (SettleOp i r) = fst (settle_usage i r s)"
| "usage_step s (PolicyOp edit) = fst (update_usage_policy edit s)"
| "usage_step s (DocumentsOp p usage_review restore_review) =
     s\<lparr>us_policy := p, us_usage_review := usage_review, us_restore_review := restore_review\<rparr>"

lemma update_usage_policy_books:
  "us_rows (fst (update_usage_policy f s)) = us_rows s"
  "us_counters (fst (update_usage_policy f s)) = us_counters s"
  by (auto simp: update_usage_policy_def split: sum.splits)

interpretation usage: machine usage_step store_ok
proof
  fix s and c :: usage_op
  assume ok: "store_ok s"
  show "store_ok (usage_step s c)"
  proof (cases c)
    case (ReserveOp a now)
    then show ?thesis
      using reserve_usage_cases [of a now s] insert_row_ok [OF ok, of a "max now (last_day s)"] ok
      by auto
  next
    case (SettleOp i r)
    then show ?thesis using settle_usage_cases [OF ok, of i r] ok by auto
  next
    case (PolicyOp f)
    then show ?thesis
      using ok by (simp add: store_ok_def counter_count_in update_usage_policy_books)
  next
    case (DocumentsOp p u r)
    then show ?thesis using ok by (simp add: store_ok_def counter_count_in)
  qed
qed

lemma empty_store_ok: "store_ok empty_store"
  by (simp add: store_ok_def empty_store_def counter_def booked_def)

lemma run_store_ok: "store_ok (foldl usage_step empty_store ops)"
  by (rule usage.run_inv [OF empty_store_ok])

lemma validate_budget_bounds:
  assumes "usage_policy s = Inr p"
  shows "foreground_request_reserve p \<le> daily_requests p"
    and "daily_tokens p = Some c \<Longrightarrow> c < 2 ^ 32" and "root_tokens p = Some c \<Longrightarrow> c < 2 ^ 32"
proof -
  have "validate_budget p = Inr ()"
    using assms by (auto simp: usage_policy_def res_bind_def split: policy_document.splits sum.splits)
  then show "foreground_request_reserve p \<le> daily_requests p"
    and "daily_tokens p = Some c \<Longrightarrow> c < 2 ^ 32" and "root_tokens p = Some c \<Longrightarrow> c < 2 ^ 32"
    by (auto simp: validate_budget_def res_bind_def ensure_def split: if_splits)
qed

lemma settle_settled:
  assumes "store_ok s" and "row \<in> set (us_rows s)" and "ad_id (ur_admission row) = i"
    and "ur_receipt row = Some r"
  shows "settle_usage i r' s = (s, (case validate_receipt r' of Inl e \<Rightarrow> Inl e
    | Inr _ \<Rightarrow> if r' = r then Inr () else Inl SettledDifferently))"
  using assms find_unique(1) [of "us_rows s" row i]
  by (auto simp: settle_usage_def store_ok_def split: sum.splits)

lemma insert_row_extends: "insert_row s a day = Inr s' \<Longrightarrow> set (us_rows s) \<subseteq> set (us_rows s')"
  by (auto simp: insert_row_def split: if_splits option.splits)

lemma settled_row_stays:
  assumes ok: "store_ok s" and row: "row \<in> set (us_rows s)" and settled: "ur_receipt row = Some r"
  shows "row \<in> set (us_rows (usage_step s c))"
proof (cases c)
  case (ReserveOp a now)
  then show ?thesis
    using reserve_usage_cases [of a now s] row insert_row_extends by fastforce
next
  case (SettleOp j r')
  show ?thesis
  proof (cases "ad_id (ur_admission row) = j")
    case True
    then show ?thesis using settle_settled [OF ok row True settled] SettleOp row by simp
  next
    case False
    then have "settle_row j r' row = row" by (simp add: settle_row_def)
    then show ?thesis using settle_usage_cases [OF ok, of j r'] SettleOp row by force
  qed
qed (use row in \<open>simp_all add: update_usage_policy_books\<close>)

lemma settled_row_stays_run:
  "store_ok s \<Longrightarrow> row \<in> set (us_rows s) \<Longrightarrow> ur_receipt row = Some r
    \<Longrightarrow> row \<in> set (us_rows (foldl usage_step s ops))"
  by (induction ops arbitrary: s) (auto intro: usage.step_inv settled_row_stays)

definition within :: "nat \<Rightarrow> nat option \<Rightarrow> bool" where
  "within n bound = (case bound of None \<Rightarrow> True | Some t \<Rightarrow> n \<le> t)"

lemma within_simps [simp]:
  "within n None" "within n (Some t) \<longleftrightarrow> n \<le> t" "within n (min_of [])"
  by (simp_all add: within_def)

lemma within_min_of [simp]: "within n (min_of (x # xs)) \<longleftrightarrow> within n x \<and> within n (min_of xs)"
  by (cases x) (auto simp: within_def split: option.splits)

lemma within_left:
  assumes "1 \<le> n" and "n < 2 ^ 32" and "\<And>c. cap = Some c \<Longrightarrow> c < 2 ^ 32"
  shows "within n (map_option (\<lambda>c. c - used) cap) \<longleftrightarrow> fits n used cap"
  using assms by (cases cap) (auto simp: fits_def)

lemma insert_row_succeeds:
  assumes "day < 2 ^ 63" and "\<forall>row \<in> set (us_rows s). ad_id (ur_admission row) \<noteq> ad_id a"
  shows "\<exists>s'. insert_row s a day = Inr s'"
proof -
  obtain cs where "bump_all 1 (int (ad_reserved a)) (counter_keys a day) (us_counters s) = Some cs"
    using bump_all_Some [OF distinct_counter_keys, of a day "us_counters s" "int (ad_reserved a)" 1]
    by auto
  then show ?thesis
    using assms by (auto simp: insert_row_def update_counters_def list_ex_iff)
qed

lemma usage_remaining_shape:
  assumes "usage_remaining rt job cls now_day s = Inr left" and p: "usage_policy s = Inr p"
  defines "day \<equiv> max now_day (last_day s)"
  shows "ra_requests left =
      min ((if cls = Background then daily_requests p - foreground_request_reserve p
            else daily_requests p) - fst (counter s (DayCounter day)))
          (root_requests p - fst (counter s (RootCounter rt)))"
    and "within n (ra_tokens left) \<longleftrightarrow>
      within n (map_option (\<lambda>c. c - snd (counter s (DayCounter day))) (daily_tokens p))
      \<and> within n (map_option (\<lambda>c. c - snd (counter s (RootCounter rt))) (root_tokens p))
      \<and> (cls = Background \<longrightarrow>
          n \<le> min (background_daily_tokens p) 32768 - snd (counter s (BackgroundDayCounter day))
          \<and> n \<le> min (background_job_tokens p) JOB_TOKENS - snd (counter s (JobCounter job)))"
  using assms(1) p
  by (auto simp: usage_remaining_def res_bind_def ensure_def Let_def day_def case_prod_beta
      split: if_splits)

lemma admission_checks_ok:
  assumes p: "usage_policy s = Inr p" and "1 \<le> ad_reserved a" and "ad_reserved a \<le> 1000000000"
    and "ad_class a = Background \<longrightarrow> \<not> us_restore_review s"
  shows "admission_checks s p a day = Inr () \<longleftrightarrow>
     fst (counter s (DayCounter day)) < daily_requests p
     \<and> fst (counter s (RootCounter (ad_root a))) < root_requests p
     \<and> within (ad_reserved a) (map_option (\<lambda>c. c - snd (counter s (DayCounter day))) (daily_tokens p))
     \<and> within (ad_reserved a)
         (map_option (\<lambda>c. c - snd (counter s (RootCounter (ad_root a)))) (root_tokens p))
     \<and> (ad_class a = Background \<longrightarrow>
         fst (counter s (DayCounter day)) < daily_requests p - foreground_request_reserve p
         \<and> ad_reserved a \<le> min (background_daily_tokens p) 32768
              - snd (counter s (BackgroundDayCounter day))
         \<and> ad_reserved a \<le> min (background_job_tokens p) JOB_TOKENS
              - snd (counter s (JobCounter (ad_job a))))"
proof -
  have left: "fits (ad_reserved a) used (Some (min c d)) \<longleftrightarrow> ad_reserved a \<le> min c d - used"
    if "d \<le> 32768" for used c d
    using that assms(2,3) by (auto simp: fits_def min_def)
  have day: "fits (ad_reserved a) used (daily_tokens p) \<longleftrightarrow>
      within (ad_reserved a) (map_option (\<lambda>c. c - used) (daily_tokens p))" for used
    using within_left assms(2,3) validate_budget_bounds(2) [OF p] by (simp add: less_le_not_le)
  have rt: "fits (ad_reserved a) used (root_tokens p) \<longleftrightarrow>
      within (ad_reserved a) (map_option (\<lambda>c. c - used) (root_tokens p))" for used
    using within_left assms(2,3) validate_budget_bounds(3) [OF p] by (simp add: less_le_not_le)
  show ?thesis
    using assms(4)
    by (auto simp: admission_checks_def background_checks_def res_bind_def ensure_def day rt left
        JOB_TOKENS_def simp del: min.bounded_iff)
qed

text \<open>A background request used as an example by the concrete instances below.\<close>

definition usage_sample :: admission where
  "usage_sample =
     \<lparr>ad_facts = no_dispatch_facts, ad_id = rstr ''r1'', ad_operation = rstr ''op'',
      ad_root = rstr ''root'', ad_job = rstr ''job'', ad_route = rstr ''main'',
      ad_class = Background, ad_reserved = 100\<rparr>"

definition sample_receipt :: receipt where
  "sample_receipt = \<lparr>rc_cumulative = None, rc_total_tokens = Some 40, rc_cost = None,
      rc_outcome = Completed\<rparr>"

definition sample_row :: usage_row where
  "sample_row = \<lparr>ur_sequence = 1, ur_day = 5, ur_background = True, ur_charge = 100,
      ur_admission = usage_sample, ur_receipt = None\<rparr>"

lemma sample_valid: "validate_admission usage_sample = Inr ()"
  by (simp add: validate_admission_def usage_sample_def no_dispatch_facts_def clean_text_def
      rstr_def str_len_def utf8_len_def is_control_def res_bind_def ensure_def Let_def)

lemma sample_day: "last_day empty_store = 0" and sample_review: "\<not> us_usage_review empty_store"
  by (simp_all add: last_day_def empty_store_def)

lemma sample_counter: "counter empty_store k = (0, 0)"
  by (simp add: counter_def empty_store_def)

lemma default_policy_used: "usage_policy empty_store = Inr default_policy"
  by (simp add: usage_policy_def empty_store_def validate_budget_def default_policy_def
      res_bind_def ensure_def)

lemma sample_insert: "\<exists>cs. insert_row empty_store usage_sample 5 =
    Inr (empty_store\<lparr>us_rows := [sample_row], us_counters := cs\<rparr>)"
  by (simp add: insert_row_def empty_store_def update_counters_def counter_keys_def bump_def
      usage_sample_def sample_row_def)

lemma sample_checks: "admission_checks empty_store default_policy usage_sample 5 = Inr ()"
  by (simp add: admission_checks_def background_checks_def counter_def empty_store_def
      default_policy_def usage_sample_def fits_def JOB_TOKENS_def res_bind_def ensure_def)

lemma sample_accepted: "snd (reserve_usage usage_sample 5 empty_store) = Inr ()"
  and sample_rows: "us_rows (fst (reserve_usage usage_sample 5 empty_store)) = [sample_row]"
  using sample_insert
  by (auto simp: reserve_usage_def sample_valid default_policy_used sample_checks Let_def
      res_bind_def ensure_def sample_day sample_review)

section \<open>Properties\<close>

text \<open>After any sequence of reservations, settlements, policy edits and document changes from the
  empty store, every counter holds exactly the number and the total charge of the request rows it is
  about, request ids are unique and rows are numbered consecutively from one.\<close>

theorem counters_are_sums:
  "(let s = foldl usage_step empty_store ops
    in (\<forall>k. counter s k = booked k (us_rows s))
       \<and> distinct (map (ad_id \<circ> ur_admission) (us_rows s))
       \<and> map ur_sequence (us_rows s) = [1..<Suc (length (us_rows s))])"
  using run_store_ok [of ops] by (simp add: store_ok_def Let_def)

text \<open>C38: once a reservation is accepted, the rows recorded for its day and root, the new one included,
  respect every request and token cap of the policy in force; background work also stays inside the
  fixed ceilings of 32768 tokens a day and 8192 a job and leaves the foreground its reserved
  requests.\<close>

theorem admission_within_caps:
  assumes "s = foldl usage_step empty_store ops"
    and "reserve_usage a now_day s = (s', Inr ())"
  shows "\<exists>p. usage_policy s = Inr p \<and>
    (let day = max now_day (last_day s); used = (\<lambda>k. booked k (us_rows s'))
     in fst (used (DayCounter day)) \<le> daily_requests p
      \<and> fst (used (RootCounter (ad_root a))) \<le> root_requests p
      \<and> (case daily_tokens p of None \<Rightarrow> True | Some cap \<Rightarrow> snd (used (DayCounter day)) \<le> cap)
      \<and> (case root_tokens p of None \<Rightarrow> True
          | Some cap \<Rightarrow> snd (used (RootCounter (ad_root a))) \<le> cap)
      \<and> (ad_class a = Background \<longrightarrow>
           fst (used (DayCounter day)) + foreground_request_reserve p \<le> daily_requests p
           \<and> snd (used (BackgroundDayCounter day)) \<le> min (background_daily_tokens p) 32768
           \<and> snd (used (JobCounter (ad_job a))) \<le> min (background_job_tokens p) 8192))"
proof -
  let ?day = "max now_day (last_day s)"
  have ok: "store_ok s" using assms(1) run_store_ok by simp
  from reserve_usage_cases [of a now_day s] assms(2) obtain p where p: "usage_policy s = Inr p"
    and checks: "admission_checks s p a ?day = Inr ()" and row: "insert_row s a ?day = Inr s'"
    by auto
  note new = insert_row_ok [OF ok row]
  have "booked k (us_rows s') = (if k \<in> set (counter_keys a ?day)
      then (fst (counter s k) + 1, snd (counter s k) + ad_reserved a) else counter s k)" for k
    using new by (metis store_ok_def)
  then show ?thesis
    using p checks validate_budget_bounds(1) [OF p]
    by (intro exI [of _ p])
      (auto simp: Let_def admission_checks_def background_checks_def res_bind_def ensure_def fits_def
        counter_keys_def JOB_TOKENS_def split: if_splits option.splits)
qed

theorem admission_within_caps_witness:
  "\<exists>p. usage_policy empty_store = Inr p \<and>
     snd (booked (JobCounter (rstr ''job''))
       (us_rows (fst (reserve_usage usage_sample 5 empty_store)))) \<le> min (background_job_tokens p) 8192"
proof -
  have accepted: "reserve_usage usage_sample 5 empty_store =
      (fst (reserve_usage usage_sample 5 empty_store), Inr ())"
    using sample_accepted by (simp add: prod_eq_iff)
  have "ad_class usage_sample = Background" "ad_job usage_sample = rstr ''job''"
    by (simp_all add: usage_sample_def)
  then obtain p where "usage_policy empty_store = Inr p"
    and "snd (booked (JobCounter (rstr ''job''))
      (us_rows (fst (reserve_usage usage_sample 5 empty_store)))) \<le> min (background_job_tokens p) 8192"
    using admission_within_caps [OF _ accepted, of "[]"] by (auto simp: Let_def)
  then show ?thesis by blast
qed

text \<open>An open request accepts any valid receipt and is then charged what the receipt reports, or
  its reservation when it reports nothing; whatever runs afterwards, the row stays as settled, the
  same receipt is accepted again without effect and every other receipt is refused.\<close>

theorem settlement_is_final:
  assumes "s = foldl usage_step empty_store before"
    and "row \<in> set (us_rows s)" and "ad_id (ur_admission row) = i" and "ur_receipt row = None"
    and "validate_receipt r = Inr ()"
    and "later = foldl usage_step (usage_step s (SettleOp i r)) after"
  shows "snd (settle_usage i r s) = Inr ()
    \<and> row\<lparr>ur_charge := (case rc_total_tokens r of Some t \<Rightarrow> t | None \<Rightarrow> ur_charge row),
          ur_receipt := Some r\<rparr> \<in> set (us_rows later)
    \<and> settle_usage i r later = (later, Inr ())
    \<and> (r' \<noteq> r \<longrightarrow> fst (settle_usage i r' later) = later
        \<and> (\<exists>e. snd (settle_usage i r' later) = Inl e))"
proof -
  have ok: "store_ok s" using assms(1) run_store_ok by simp
  obtain cs where
    now: "settle_usage i r s = (s\<lparr>us_rows := map (settle_row i r) (us_rows s), us_counters := cs\<rparr>, Inr ())"
    and ok': "store_ok (usage_step s (SettleOp i r))"
    using settle_unsettled [OF ok assms(2-5)] by auto
  let ?row = "settle_row i r row"
  have "?row \<in> set (us_rows (usage_step s (SettleOp i r)))" using now assms(2) by simp
  moreover have "ur_receipt ?row = Some r" using assms(3) by (simp add: settle_row_def)
  ultimately have "?row \<in> set (us_rows later)" and "ur_receipt ?row = Some r"
    using settled_row_stays_run [OF ok'] assms(6) by auto
  moreover have "store_ok later" using usage.run_inv [OF ok'] assms(6) by simp
  ultimately show ?thesis
    using settle_settled [of later ?row i r] assms(3,5) now
    by (auto simp: settle_row_def split: sum.splits)
qed

theorem settlement_is_final_witness:
  "let s = fst (reserve_usage usage_sample 5 empty_store);
       later = usage_step (usage_step s (SettleOp (rstr ''r1'') sample_receipt))
         (SettleOp (rstr ''r1'') (sample_receipt\<lparr>rc_total_tokens := None\<rparr>))
   in settle_usage (rstr ''r1'') sample_receipt later = (later, Inr ())"
proof -
  let ?s = "foldl usage_step empty_store [ReserveOp usage_sample 5]"
  have rows: "us_rows ?s = [sample_row]" using sample_rows by simp
  have "ad_id (ur_admission sample_row) = rstr ''r1''" and "ur_receipt sample_row = None"
    by (simp_all add: sample_row_def usage_sample_def)
  moreover have "validate_receipt sample_receipt = Inr ()"
    by (simp add: validate_receipt_def sample_receipt_def res_bind_def ensure_def)
  ultimately show ?thesis
    using settlement_is_final [of ?s "[ReserveOp usage_sample 5]" sample_row "rstr ''r1''"
        sample_receipt _ "[SettleOp (rstr ''r1'') (sample_receipt\<lparr>rc_total_tokens := None\<rparr>)]"] rows
    by (simp add: Let_def)
qed

text \<open>The remaining allowance shown to a caller is the admission rule: a valid, fresh request is
  admitted exactly when at least one request remains and its reservation fits the tokens that
  remain.\<close>

theorem remaining_predicts_admission:
  assumes "validate_admission a = Inr ()"
    and "usage_remaining (ad_root a) (ad_job a) (ad_class a) now_day s = Inr left"
    and "\<not> us_usage_review s" and "ad_class a = Background \<longrightarrow> \<not> us_restore_review s"
    and "max now_day (last_day s) < 2 ^ 63"
    and "\<forall>row \<in> set (us_rows s). ad_id (ur_admission row) \<noteq> ad_id a"
  shows "snd (reserve_usage a now_day s) = Inr () \<longleftrightarrow>
    1 \<le> ra_requests left
    \<and> (case ra_tokens left of None \<Rightarrow> True | Some tokens \<Rightarrow> ad_reserved a \<le> tokens)"
proof -
  let ?day = "max now_day (last_day s)"
  obtain p where p: "usage_policy s = Inr p"
    using assms(2) by (auto simp: usage_remaining_def res_bind_def ensure_def split: sum.splits if_splits)
  have reserved: "1 \<le> ad_reserved a" "ad_reserved a \<le> 1000000000"
    using assms(1) by (auto simp: validate_admission_def res_bind_def ensure_def Let_def
        split: sum.splits if_splits)
  have "snd (reserve_usage a now_day s) = Inr () \<longleftrightarrow> admission_checks s p a ?day = Inr ()"
    using insert_row_succeeds [OF assms(5,6)] assms(1,3) p
    by (auto simp: reserve_usage_def res_bind_def ensure_def Let_def split: sum.splits)
  also have "\<dots> \<longleftrightarrow> 1 \<le> ra_requests left \<and> within (ad_reserved a) (ra_tokens left)"
  proof -
    have left: "1 \<le> min (m - u) (n - v) \<longleftrightarrow> u < m \<and> v < n" for m n u v :: nat by auto
    have "fst (counter s (DayCounter ?day)) < daily_requests p"
      if "fst (counter s (DayCounter ?day)) < daily_requests p - foreground_request_reserve p"
      using that by simp
    then show ?thesis
      unfolding admission_checks_ok [OF p reserved assms(4)] usage_remaining_shape [OF assms(2) p] left
      by (cases "ad_class a") (simp_all del: min.bounded_iff, blast)
  qed
  finally show ?thesis by (simp add: within_def)
qed

theorem remaining_predicts_admission_witness:
  "snd (reserve_usage (usage_sample\<lparr>ad_reserved := 9000\<rparr>) 5 empty_store) \<noteq> Inr ()"
proof -
  let ?a = "usage_sample\<lparr>ad_reserved := 9000\<rparr>"
  have "validate_admission ?a = Inr ()"
    by (simp add: validate_admission_def usage_sample_def no_dispatch_facts_def clean_text_def
        rstr_def str_len_def utf8_len_def is_control_def res_bind_def ensure_def Let_def)
  moreover obtain left where
    left: "usage_remaining (ad_root ?a) (ad_job ?a) (ad_class ?a) 5 empty_store = Inr left"
    and "ra_tokens left = Some 8192"
    by (simp add: usage_remaining_def default_policy_used res_bind_def ensure_def usage_sample_def
        rstr_def str_len_def utf8_len_def sample_counter default_policy_def
        JOB_TOKENS_def Let_def)
  ultimately show ?thesis
    using remaining_predicts_admission [OF _ left]
    by (simp add: sample_day sample_review) (simp add: empty_store_def)
qed

end
