(* ===== verification/Bounded_Text.thy ===== *)
theory Bounded_Text
  imports Prelude
begin

text \<open>
  Text that is cut to a bound: the standard string operations the program uses for it, the token
  estimate and the selectors of \<open>src/src/context/preview.rs\<close>, and \<open>truncate_utf8\<close> of
  \<open>src/src/orchestration/types.rs\<close>. A slice at the largest character boundary within \<open>n\<close> bytes is
  \<open>floor_prefix n\<close>, whether the source finds the boundary with \<open>floor_char_boundary\<close>, with a loop
  that steps back, or by pushing characters while they fit.
\<close>

section \<open>Standard string operations\<close>

fun floor_prefix :: "nat \<Rightarrow> rust_string \<Rightarrow> rust_string" where
  "floor_prefix n [] = []"
| "floor_prefix n (c # cs) = (if utf8_len c \<le> n then c # floor_prefix (n - utf8_len c) cs else [])"

text \<open>\<open>str::lines\<close>: lines end at a newline, a carriage return before it goes too, and there is no
  empty last line.\<close>

definition strip_cr :: "rust_string \<Rightarrow> rust_string" where
  "strip_cr l = (if l \<noteq> [] \<and> last l = 13 then butlast l else l)"

lemma length_tl_dropWhile: "s \<noteq> [] \<Longrightarrow> length (dropWhile P s) - Suc 0 < length s"
  using length_dropWhile_le [of P s] by (cases s) auto

function str_lines :: "rust_string \<Rightarrow> rust_string list" where
  "str_lines s =
     (if s = [] then []
      else if 10 \<in> set s then
        strip_cr (takeWhile (\<lambda>c. c \<noteq> 10) s) # str_lines (tl (dropWhile (\<lambda>c. c \<noteq> 10) s))
      else [s])"
  by pat_completeness auto
termination by (relation "measure length") (simp_all add: length_tl_dropWhile)

declare str_lines.simps [simp del]

function split_whitespace :: "rust_string \<Rightarrow> rust_string list" where
  "split_whitespace s =
     (let s = dropWhile is_whitespace s
      in if s = [] then []
         else takeWhile (\<lambda>c. \<not> is_whitespace c) s
           # split_whitespace (dropWhile (\<lambda>c. \<not> is_whitespace c) s))"
  by pat_completeness auto
termination
proof (relation "measure length")
  fix s x :: rust_string
  assume x: "x = dropWhile is_whitespace s" and "x \<noteq> []"
  then have "\<not> is_whitespace (hd x)" by (simp add: hd_dropWhile)
  with \<open>x \<noteq> []\<close> have "length (dropWhile (\<lambda>c. \<not> is_whitespace c) x) < length x"
    by (cases x) (auto intro: le_imp_less_Suc length_dropWhile_le)
  also have "\<dots> \<le> length s" by (simp add: x length_dropWhile_le)
  finally show "(dropWhile (\<lambda>c. \<not> is_whitespace c) x, s) \<in> measure length" by simp
qed simp

declare split_whitespace.simps [simp del]

definition trim_matches :: "(nat \<Rightarrow> bool) \<Rightarrow> rust_string \<Rightarrow> rust_string" where
  "trim_matches P s = rev (dropWhile P (rev (dropWhile P s)))"

fun str_contains :: "rust_string \<Rightarrow> rust_string \<Rightarrow> bool" where
  "str_contains [] needle = (needle = [])"
| "str_contains (c # cs) needle = (take (length needle) (c # cs) = needle \<or> str_contains cs needle)"

definition str_starts_with :: "rust_string \<Rightarrow> rust_string \<Rightarrow> bool" where
  "str_starts_with s p = (take (length p) s = p)"

definition str_ends_with :: "rust_string \<Rightarrow> rust_string \<Rightarrow> bool" where
  "str_ends_with s p = str_starts_with (rev s) (rev p)"

definition ascii_lower :: "nat \<Rightarrow> nat" where
  "ascii_lower c = (if 65 \<le> c \<and> c \<le> 90 then c + 32 else c)"

definition to_ascii_lowercase :: "rust_string \<Rightarrow> rust_string" where
  "to_ascii_lowercase s = map ascii_lower s"

fun join_with :: "rust_string \<Rightarrow> rust_string list \<Rightarrow> rust_string" where
  "join_with sep [] = []"
| "join_with sep [x] = x"
| "join_with sep (x # y # ys) = x @ sep @ join_with sep (y # ys)"

section \<open>Bounds\<close>

definition truncate_utf8 :: "rust_string \<Rightarrow> nat \<Rightarrow> rust_string" where
  "truncate_utf8 s n = (if str_len s \<le> n then s else floor_prefix n s)"

definition CHARS_PER_ESTIMATED_TOKEN :: nat where "CHARS_PER_ESTIMATED_TOKEN = 3"

definition token_units :: "nat \<Rightarrow> nat" where
  "token_units c = (if c < 128 then 1 else utf8_len c * CHARS_PER_ESTIMATED_TOKEN)"

definition estimate_tokens :: "rust_string \<Rightarrow> nat" where
  "estimate_tokens s =
     (sum_list (map token_units s) + (CHARS_PER_ESTIMATED_TOKEN - 1)) div CHARS_PER_ESTIMATED_TOKEN"

fun unit_prefix :: "nat \<Rightarrow> nat \<Rightarrow> rust_string \<Rightarrow> rust_string" where
  "unit_prefix limit used [] = []"
| "unit_prefix limit used (c # cs) =
     (if used + token_units c > limit then []
      else c # unit_prefix limit (used + token_units c) cs)"

definition bounded_text :: "rust_string \<Rightarrow> nat \<Rightarrow> nat \<Rightarrow> rust_string" where
  "bounded_text s max_bytes max_tokens =
     unit_prefix (max_tokens * CHARS_PER_ESTIMATED_TOKEN) 0
       (floor_prefix (min (str_len s) max_bytes) s)"

fun canonical_text :: "rust_string \<Rightarrow> rust_string" where
  "canonical_text [] = []"
| "canonical_text (c # cs) =
     (if c = 13 then 10 # canonical_text (if cs \<noteq> [] \<and> hd cs = 10 then tl cs else cs)
      else c # canonical_text cs)"

datatype preview_selector = PreviewHead | PreviewLines nat nat | PreviewSearch rust_string nat

datatype preview_error = InvalidSourceBudget | InvalidLineRange nat nat | EmptyQuery | ZeroMatches

record context_preview =
  cp_text :: rust_string
  cp_estimated_tokens :: nat
  cp_truncated :: bool

definition select_preview ::
  "rust_string \<Rightarrow> preview_selector \<Rightarrow> preview_error + (rust_string \<times> bool)" where
  "select_preview canonical sel =
     (case sel of
        PreviewHead \<Rightarrow> Inr (canonical, False)
      | PreviewLines start stop \<Rightarrow>
          if start = 0 \<or> stop < start then Inl (InvalidLineRange start stop)
          else Inr (join_with [10] (map snd (filter (\<lambda>(i, line). start \<le> i + 1 \<and> i + 1 \<le> stop)
              (enumerate 0 (str_lines canonical)))), False)
      | PreviewSearch query max_matches \<Rightarrow>
          if query = [] then Inl EmptyQuery
          else if max_matches = 0 then Inl ZeroMatches
          else let matching = filter (\<lambda>line. str_contains line query) (str_lines canonical)
               in Inr (join_with [10] (take max_matches matching), length matching > max_matches))"

definition preview ::
  "rust_string \<Rightarrow> nat \<Rightarrow> preview_selector \<Rightarrow> preview_error + context_preview" where
  "preview content max_tokens sel =
     res_bind (ensure (max_tokens \<noteq> 0) InvalidSourceBudget)
     (\<lambda>_. res_bind (select_preview (canonical_text content) sel)
     (\<lambda>(selected, selector_truncated).
        let t = bounded_text selected (str_len selected) max_tokens
        in Inr \<lparr>cp_text = t, cp_estimated_tokens = estimate_tokens t,
             cp_truncated = (selector_truncated \<or> str_len t < str_len selected)\<rparr>))"

section \<open>Lemmas\<close>

lemma utf8_len_pos [simp]: "0 < utf8_len c" "Suc 0 \<le> utf8_len c"
  by (simp_all add: utf8_len_def)

lemma str_len_simps [simp]:
  "str_len [] = 0" "str_len (c # s) = utf8_len c + str_len s"
  "str_len (s @ t) = str_len s + str_len t"
  by (simp_all add: str_len_def)

lemma length_le_str_len: "length s \<le> str_len s"
proof (induction s)
  case (Cons c s)
  then show ?case using utf8_len_pos(2) [of c] by (simp del: utf8_len_pos)
qed simp

lemma str_len_eq_0 [simp]: "str_len s = 0 \<longleftrightarrow> s = []"
  by (cases s) simp_all

lemma floor_prefix_bound: "str_len (floor_prefix n s) \<le> n"
  by (induction n s rule: floor_prefix.induct) auto

lemma floor_prefix_prefix: "prefix (floor_prefix n s) s"
  by (induction n s rule: floor_prefix.induct) auto

lemma floor_prefix_all: "str_len s \<le> n \<Longrightarrow> floor_prefix n s = s"
  by (induction n s rule: floor_prefix.induct) auto

lemma truncate_utf8_bound: "str_len (truncate_utf8 s n) \<le> n"
  by (simp add: truncate_utf8_def floor_prefix_bound)

lemma truncate_utf8_eq: "truncate_utf8 s n = floor_prefix n s"
  by (simp add: truncate_utf8_def floor_prefix_all)

text \<open>The cut is maximal: the next character would not fit.\<close>

lemma floor_prefix_maximal:
  "prefix p s \<Longrightarrow> str_len p \<le> n \<Longrightarrow> prefix p (floor_prefix n s)"
  by (induction n s arbitrary: p rule: floor_prefix.induct)
    (auto simp: prefix_Cons split: if_splits)

lemma unit_prefix_prefix: "prefix (unit_prefix limit used s) s"
  by (induction limit used s rule: unit_prefix.induct) auto

lemma unit_prefix_bound:
  "used \<le> limit \<Longrightarrow> used + sum_list (map token_units (unit_prefix limit used s)) \<le> limit"
  by (induction limit used s rule: unit_prefix.induct) (auto simp: not_less)

lemma prefix_str_len: "prefix p s \<Longrightarrow> str_len p \<le> str_len s"
  by (auto simp: prefix_def)

lemma bounded_text_bounds:
  "str_len (bounded_text s b t) \<le> b" "estimate_tokens (bounded_text s b t) \<le> t"
  "prefix (bounded_text s b t) s"
proof -
  let ?f = "floor_prefix (min (str_len s) b) s"
  have "str_len (bounded_text s b t) \<le> str_len ?f"
    unfolding bounded_text_def by (rule prefix_str_len [OF unit_prefix_prefix])
  then show "str_len (bounded_text s b t) \<le> b"
    using floor_prefix_bound [of "min (str_len s) b" s] by linarith
  have "sum_list (map token_units (bounded_text s b t)) \<le> t * 3"
    using unit_prefix_bound [of 0 "t * 3" ?f]
    by (simp add: bounded_text_def CHARS_PER_ESTIMATED_TOKEN_def)
  then have "(sum_list (map token_units (bounded_text s b t)) + 2) div 3 \<le> (t * 3 + 2) div 3"
    by (intro div_le_mono) simp
  then show "estimate_tokens (bounded_text s b t) \<le> t"
    by (simp add: estimate_tokens_def CHARS_PER_ESTIMATED_TOKEN_def)
  show "prefix (bounded_text s b t) s"
    unfolding bounded_text_def
    by (rule prefix_order.trans [OF unit_prefix_prefix floor_prefix_prefix])
qed

lemma canonical_text_no_cr: "13 \<notin> set (canonical_text s)"
  by (induction s rule: canonical_text.induct) auto

lemma canonical_text_id: "13 \<notin> set s \<Longrightarrow> canonical_text s = s"
  by (induction s rule: canonical_text.induct) auto

lemma trim_eq_Nil: "trim s = [] \<longleftrightarrow> (\<forall>c \<in> set s. is_whitespace c)"
proof -
  have "trim s = [] \<longleftrightarrow> (\<forall>c \<in> set (dropWhile is_whitespace s). is_whitespace c)"
    unfolding trim_def by (simp only: rev_is_Nil_conv dropWhile_eq_Nil_conv set_rev)
  also have "\<dots> \<longleftrightarrow> dropWhile is_whitespace s = []"
    using hd_dropWhile [of is_whitespace s] by (cases "dropWhile is_whitespace s") (auto dest: set_dropWhileD)
  also have "\<dots> \<longleftrightarrow> (\<forall>c \<in> set s. is_whitespace c)" by (rule dropWhile_eq_Nil_conv)
  finally show ?thesis .
qed

lemma split_whitespace_words:
  "w \<in> set (split_whitespace s) \<Longrightarrow> w \<noteq> [] \<and> (\<forall>c \<in> set w. \<not> is_whitespace c)"
proof (induction s rule: split_whitespace.induct)
  case (1 s)
  let ?s = "dropWhile is_whitespace s"
  from 1(2) have ne: "?s \<noteq> []" and
    "w = takeWhile (\<lambda>c. \<not> is_whitespace c) ?s
     \<or> w \<in> set (split_whitespace (dropWhile (\<lambda>c. \<not> is_whitespace c) ?s))"
    by (auto simp: split_whitespace.simps [of s] Let_def split: if_splits)
  moreover have "takeWhile (\<lambda>c. \<not> is_whitespace c) ?s \<noteq> []"
    using ne hd_dropWhile [of is_whitespace s] by (cases ?s) auto
  moreover have "c \<in> set (takeWhile (\<lambda>c. \<not> is_whitespace c) ?s) \<Longrightarrow> \<not> is_whitespace c" for c
    by (rule set_takeWhileD [THEN conjunct2])
  ultimately show ?case using 1(1) [OF refl ne] by metis
qed

end
