(* ===== verification/Conversation_Data.thy ===== *)
theory Conversation_Data
  imports Permission_Broker Bounded_Text
begin

text \<open>
  The data that Conversations, operations and their durable records share: artifacts
  (\<open>src/src/artifact.rs\<close>), messages (\<open>src/src/message.rs\<close>), operation states
  (\<open>src/src/native_runtime/protocol.rs\<close>), invocations and their results (\<open>src/src/operation.rs\<close>),
  the binding of an operation to a desktop command (\<open>src/src/operation/adapter.rs\<close>) and durable
  context versions (\<open>src/src/context/persisted.rs\<close>). Identifiers are opaque, digests are their
  hexadecimal strings.
\<close>

section \<open>Digests\<close>

definition is_ascii_digit :: "nat \<Rightarrow> bool" where
  "is_ascii_digit c = (48 \<le> c \<and> c \<le> 57)"

definition is_ascii_hexdigit :: "nat \<Rightarrow> bool" where
  "is_ascii_hexdigit c = (is_ascii_digit c \<or> 97 \<le> c \<and> c \<le> 102 \<or> 65 \<le> c \<and> c \<le> 70)"

text \<open>
  Sixty-four hexadecimal digits, in either case or in lower case only. \<open>str_len\<close> is 64 exactly
  when there are 64 characters, since each is one byte.
\<close>

definition hex_digest :: "rust_string \<Rightarrow> bool" where
  "hex_digest s = (str_len s = 64 \<and> list_all is_ascii_hexdigit s)"

definition lower_hex_digest :: "rust_string \<Rightarrow> bool" where
  "lower_hex_digest s =
     (str_len s = 64 \<and> list_all (\<lambda>c. is_ascii_digit c \<or> 97 \<le> c \<and> c \<le> 102) s)"

section \<open>Artifacts and messages\<close>

record artifact_ref =
  arf_id :: uuid
  arf_hash :: rust_string

record artifact_record =
  art_reference :: artifact_ref
  art_media_type :: rust_string
  art_byte_len :: nat
  art_owner :: uuid

datatype role = SystemRole | UserRole | AssistantRole | ToolRole

record tool_call =
  tc_id :: rust_string
  tc_name :: rust_string
  tc_arguments :: json

datatype tool_result_status = ResultSuccess | ResultError

datatype tool_failure =
  PermissionDenied | ToolUnavailable | InvalidMemoryArguments | InvalidMemorySource

record command_status =
  cs_success :: bool
  cs_exit_code :: "int option"

record tool_result =
  tr_call_id :: rust_string
  tr_output :: rust_string
  tr_status :: tool_result_status
  tr_failure :: "tool_failure option"
  tr_artifact :: "artifact_record option"
  tr_command_status :: "command_status option"

record image_ref =
  im_artifact :: artifact_record
  im_media_type :: rust_string
  im_byte_len :: nat
  im_width :: "nat option"
  im_height :: "nat option"

datatype content_block =
  TextBlock rust_string | ImageBlock image_ref | ToolCallBlock tool_call | ToolResultBlock tool_result

record message =
  msg_role :: role
  msg_content :: "content_block list"

definition is_memory_rejection :: "tool_failure \<Rightarrow> bool" where
  "is_memory_rejection f = (f \<in> {InvalidMemoryArguments, InvalidMemorySource})"

definition success_result :: "rust_string \<Rightarrow> rust_string \<Rightarrow> tool_result" where
  "success_result call output =
     \<lparr>tr_call_id = call, tr_output = output, tr_status = ResultSuccess, tr_failure = None,
      tr_artifact = None, tr_command_status = None\<rparr>"

definition error_result :: "rust_string \<Rightarrow> rust_string \<Rightarrow> tool_result" where
  "error_result call output =
     \<lparr>tr_call_id = call, tr_output = output, tr_status = ResultError, tr_failure = None,
      tr_artifact = None, tr_command_status = None\<rparr>"

definition denied_result :: "rust_string \<Rightarrow> rust_string \<Rightarrow> tool_result" where
  "denied_result call output = (error_result call output)\<lparr>tr_failure := Some PermissionDenied\<rparr>"

definition unavailable_result :: "rust_string \<Rightarrow> rust_string \<Rightarrow> tool_result" where
  "unavailable_result call output = (error_result call output)\<lparr>tr_failure := Some ToolUnavailable\<rparr>"

fun block_artifact :: "content_block \<Rightarrow> artifact_record option" where
  "block_artifact (ImageBlock img) = Some (im_artifact img)"
| "block_artifact (ToolResultBlock result) = tr_artifact result"
| "block_artifact _ = None"

definition message_artifacts :: "message \<Rightarrow> artifact_record list" where
  "message_artifacts m = List.map_filter block_artifact (msg_content m)"

definition text_message :: "role \<Rightarrow> rust_string \<Rightarrow> message" where
  "text_message r t = \<lparr>msg_role = r, msg_content = [TextBlock t]\<rparr>"

definition tool_result_message :: "tool_result \<Rightarrow> message" where
  "tool_result_message r = \<lparr>msg_role = ToolRole, msg_content = [ToolResultBlock r]\<rparr>"

section \<open>Operations and invocations\<close>

datatype operation_outcome = OpCompleted | OpFailed | OpDeclined | OpInterrupted

datatype operation_state = Running | Suspended | Finished operation_outcome

datatype round_budget_action = ContinueRounds | StopRounds

record round_budget_commit_facts =
  rf_steps :: nat
  rf_invocations :: nat
  rf_results :: nat

record agent_turn_usage =
  tu_input_tokens :: "nat option"
  tu_cached_input_tokens :: "nat option"
  tu_cache_write_input_tokens :: "nat option"
  tu_output_tokens :: "nat option"
  tu_reasoning_tokens :: "nat option"
  tu_tool_tokens :: "nat option"
  tu_total_tokens :: "nat option"
  tu_cost_microunits :: "nat option"
  tu_prompt_bytes :: "nat option"
  tu_tool_schema_bytes :: "nat option"
  tu_requests :: nat
  tu_request_affinities :: "u8 list list"

record round_budget_suspension =
  rs_id :: uuid
  rs_operation :: uuid
  rs_soft_round_limit :: nat
  rs_last_tranche_rounds :: nat
  rs_rounds_consumed :: nat
  rs_hard_round_limit :: nat
  rs_remaining_rounds :: nat
  rs_continuations_used :: nat
  rs_committed :: round_budget_commit_facts
  rs_repeated_tool_patterns :: nat
  rs_usage :: agent_turn_usage
  rs_allowed_actions :: "round_budget_action list"

record round_budget_decision =
  rd_operation :: uuid
  rd_suspension :: uuid
  rd_action :: round_budget_action

datatype suspension_reason =
  PermissionSuspension | ProcessInterrupted | RoundBudgetReached round_budget_suspension

datatype interruption_reason =
  SavedReplayUnsafe | CurrentReplayUnsafe | MissingTool | ContractChanged | ScopeChanged
| ReauthorizationDenied | UnknownOutcome

datatype recovery_decision =
  ReplayInvocation | InterruptInvocation interruption_reason | DeclineInvocation

datatype replay_safety = ReplaySafe | ReplayNever

datatype invocation_target = ToolTarget rust_string nat | ContextTransform rust_string

record invocation_intent =
  ii_operation :: uuid
  ii_step :: uuid
  ii_invocation :: uuid
  ii_result :: uuid
  ii_model_call :: rust_string
  ii_target :: invocation_target
  ii_arguments :: json
  ii_permission :: audit_fact
  ii_replay_safety :: replay_safety

datatype durable_value_ref =
  InlineJson json | ArtifactValue artifact_ref | ContextValue uuid nat

datatype invocation_outcome =
  InvocationCompleted durable_value_ref
| InvocationFailed rust_string
| InvocationDeclined rust_string
| InvocationInterrupted interruption_reason

record invocation_result =
  ir_operation :: uuid
  ir_invocation :: uuid
  ir_result :: uuid
  ir_outcome :: invocation_outcome
  ir_command_status :: "command_status option"

record named_value =
  nv_id :: uuid
  nv_operation :: uuid
  nv_name :: rust_string
  nv_value :: durable_value_ref

definition MAX_INLINE_VALUE_BYTES :: nat where "MAX_INLINE_VALUE_BYTES = 32 * 1024"

definition MAX_OPERATION_DIAGNOSTIC_BYTES :: nat where
  "MAX_OPERATION_DIAGNOSTIC_BYTES = 4 * 1024"

definition bounded_diagnostic :: "rust_string \<Rightarrow> rust_string" where
  "bounded_diagnostic s = floor_prefix MAX_OPERATION_DIAGNOSTIC_BYTES s"

section \<open>Desktop commands\<close>

text \<open>An operation admitted for the desktop carries the command that asked for it.\<close>

record desktop_command_key =
  dk_version :: nat
  dk_command :: uuid
  dk_conversation :: uuid
  dk_namespace :: uuid
  dk_store :: "uuid option"
  dk_profile :: rust_string
  dk_payload :: rust_string

definition nil_uuid :: uuid where "nil_uuid = 0"

datatype binding_error = BindingVersion | BindingIdentity | BindingDigest

definition validate_binding :: "desktop_command_key \<Rightarrow> binding_error + unit" where
  "validate_binding k =
     res_bind (ensure (dk_version k = 1) BindingVersion)
     (\<lambda>_. res_bind (ensure (dk_command k \<noteq> nil_uuid \<and> dk_conversation k \<noteq> nil_uuid
         \<and> dk_namespace k \<noteq> nil_uuid) BindingIdentity)
     (\<lambda>_. ensure (lower_hex_digest (dk_profile k) \<and> lower_hex_digest (dk_payload k)) BindingDigest))"

definition matches_owner :: "desktop_command_key \<Rightarrow> uuid \<Rightarrow> uuid option \<Rightarrow> rust_string \<Rightarrow> bool" where
  "matches_owner k session store profile =
     (dk_conversation k = session \<and> dk_store k = store \<and> dk_profile k = profile)"

definition matches_scope ::
  "desktop_command_key \<Rightarrow> uuid \<Rightarrow> uuid \<Rightarrow> uuid option \<Rightarrow> rust_string \<Rightarrow> bool" where
  "matches_scope k namespace session store profile =
     (dk_namespace k = namespace \<and> dk_conversation k = session \<and> dk_store k = store
      \<and> dk_profile k = profile)"

record command_result_ref =
  cr_entry :: uuid
  cr_digest :: rust_string

section \<open>Durable context\<close>

datatype context_kind = ProjectInstructions | ToolOutput | DerivedContext

datatype trust_class = XanaTrust | UserTrust | ProjectTrust | ToolTrust

datatype view_selector =
  FullView | LinesView nat nat | LiteralSearch rust_string nat

datatype provenance = ProjectFile path | DerivedFrom uuid nat view_selector

record context_record =
  cx_id :: uuid
  cx_version :: nat
  cx_artifact :: artifact_ref
  cx_kind :: context_kind
  cx_hash :: rust_string
  cx_size :: nat
  cx_provenance :: provenance
  cx_trust :: trust_class
  cx_owner :: uuid

record materialization_budget =
  mb_max_bytes :: nat
  mb_max_tokens :: nat

record context_view =
  vw_id :: uuid
  vw_source :: uuid
  vw_source_version :: nat
  vw_selector :: view_selector
  vw_hash :: rust_string
  vw_budget :: materialization_budget

section \<open>Lemmas\<close>

lemma bounded_diagnostic_bound: "str_len (bounded_diagnostic s) \<le> MAX_OPERATION_DIAGNOSTIC_BYTES"
  by (simp add: bounded_diagnostic_def floor_prefix_bound)

lemma is_ascii_hexdigit_one_byte: "is_ascii_hexdigit c \<Longrightarrow> utf8_len c = 1"
  by (auto simp: is_ascii_hexdigit_def is_ascii_digit_def utf8_len_def)

end
