(* ===== verification/Completion_Evidence.thy ===== *)
theory Completion_Evidence
  imports Conversation_Data
begin

text \<open>
  Completion evidence, \<open>src/src/completion_evidence.rs\<close>: what an operation promised to deliver,
  the receipts collected while it ran, the verdict they support and the three revisions a
  durable receipt may go through. BLAKE3 and the JSON encoder are parameters.
\<close>

section \<open>Data\<close>

definition MAX_EVIDENCE_ITEMS :: nat where "MAX_EVIDENCE_ITEMS = 64"
definition MAX_EVIDENCE_BYTES :: nat where "MAX_EVIDENCE_BYTES = 64 * 1024"
definition MAX_VERIFY_BYTES :: nat where "MAX_VERIFY_BYTES = 16 * 1024 * 1024"

datatype acceptance_condition =
  CommandSucceeded rust_string rust_string
| ArtifactPresent artifact_ref
| Declared rust_string rust_string

record completion_contract =
  co_conditions :: "acceptance_condition list"

datatype work_kind = RootWork | ChildWork | ScheduledWork | RetainedWork | ContextWork

datatype evidence_owner = NativeOwner | ManagedOwner

datatype completion_claim = ClaimCompleted | ClaimFailed | ClaimCancelled | ClaimInterrupted

datatype evidence_outcome = DeliveryVerified | ConditionsVerified | Incomplete | NeedsAttention

datatype check_outcome = CheckPassed | CheckFailed | CheckUnavailable

record check_evidence =
  ck_invocation :: uuid
  ck_generation :: uuid
  ck_command_digest :: rust_string
  ck_work_revision :: nat
  ck_outcome :: check_outcome
  ck_exit_code :: "int option"

datatype effect_outcome = Acknowledged | EffectFailed | EffectDeclined | EffectUnknown

record effect_evidence =
  ef_invocation :: uuid
  ef_generation :: uuid
  ef_outcome :: effect_outcome
  ef_replay_safe :: bool

record artifact_evidence =
  ae_generation :: uuid
  ae_artifact :: artifact_record
  ae_verified :: bool

record budget_evidence =
  be_remaining_requests :: "nat option"
  be_remaining_tokens :: "nat option"
  be_remaining_actions :: "nat option"
  be_remaining_millis :: "nat option"
  be_remaining_cost :: "nat option"
  be_exhausted :: bool
  be_exceeded :: bool
  be_verification_bytes :: nat

datatype verification_state =
  NotNeeded | VerUnavailable | VerReserved | VerPassed | VerFailed | VerCancelled

record child_evidence_ref =
  ce_generation :: uuid
  ce_receipt_digest :: "rust_string option"
  ce_outcome :: evidence_outcome

record completion_evidence =
  cv_child_reports :: "child_evidence_ref list"
  cv_version :: nat
  cv_generation :: uuid
  cv_revision :: nat
  cv_kind :: work_kind
  cv_owner :: evidence_owner
  cv_claim :: completion_claim
  cv_contract :: completion_contract
  cv_contract_digest :: rust_string
  cv_delivered_hash :: "rust_string option"
  cv_delivered_bytes :: nat
  cv_work_revision :: nat
  cv_checks :: "check_evidence list"
  cv_artifacts :: "artifact_evidence list"
  cv_effects :: "effect_evidence list"
  cv_omitted :: bool
  cv_budget :: budget_evidence
  cv_verification :: verification_state
  cv_outcome :: evidence_outcome

text \<open>The third-party codec: the hexadecimal BLAKE3 digest of bytes and \<open>serde_json::to_vec\<close>.\<close>

record evidence_codec =
  ec_blake3 :: "u8 list \<Rightarrow> rust_string"
  ec_contract_json :: "completion_contract \<Rightarrow> u8 list"
  ec_command_json :: "rust_string \<times> rust_string \<Rightarrow> u8 list"
  ec_evidence_json :: "completion_evidence \<Rightarrow> u8 list"

datatype evidence_error =
  TooManyConditions | InvalidCommand | InvalidDirectory | InvalidConditionId | ContractBytes
| InvalidRevision | ContractChangedDigest | ItemBound | GenerationMismatch | DuplicateReceipt
| VerifyBytes | InvalidChildReferences | EvidenceBytes | OutcomeContradicts

section \<open>The contract\<close>

fun check_condition :: "acceptance_condition \<Rightarrow> evidence_error + unit" where
  "check_condition (CommandSucceeded command cwd) =
     res_bind (ensure (trim command \<noteq> [] \<and> str_len command \<le> 4096 \<and> 0 \<notin> set command) InvalidCommand)
     (\<lambda>_. ensure (cwd \<noteq> [] \<and> str_len cwd \<le> 4096 \<and> 0 \<notin> set cwd) InvalidDirectory)"
| "check_condition (Declared i revision) =
     ensure (i \<noteq> [] \<and> str_len i \<le> 128 \<and> \<not> list_ex is_control i) InvalidConditionId"
| "check_condition (ArtifactPresent a) = Inr ()"

fun check_conditions :: "acceptance_condition list \<Rightarrow> evidence_error + unit" where
  "check_conditions [] = Inr ()"
| "check_conditions (c # cs) = res_bind (check_condition c) (\<lambda>_. check_conditions cs)"

definition validate_contract ::
  "'x evidence_codec_scheme \<Rightarrow> completion_contract \<Rightarrow> evidence_error + unit" where
  "validate_contract codec c =
     res_bind (ensure (length (co_conditions c) \<le> MAX_EVIDENCE_ITEMS) TooManyConditions)
     (\<lambda>_. res_bind (check_conditions (co_conditions c))
     (\<lambda>_. ensure (length (ec_contract_json codec c) \<le> 16 * 1024) ContractBytes))"

definition contract_digest :: "'x evidence_codec_scheme \<Rightarrow> completion_contract \<Rightarrow> rust_string" where
  "contract_digest codec c = ec_blake3 codec (ec_contract_json codec c)"

definition command_digest ::
  "'x evidence_codec_scheme \<Rightarrow> rust_string \<Rightarrow> rust_string \<Rightarrow> rust_string" where
  "command_digest codec command cwd = ec_blake3 codec (ec_command_json codec (command, cwd))"

section \<open>The verdict\<close>

definition no_budget_evidence :: budget_evidence where
  "no_budget_evidence =
     \<lparr>be_remaining_requests = None, be_remaining_tokens = None, be_remaining_actions = None,
      be_remaining_millis = None, be_remaining_cost = None, be_exhausted = False,
      be_exceeded = False, be_verification_bytes = 0\<rparr>"

definition new_evidence ::
  "'x evidence_codec_scheme \<Rightarrow> uuid \<Rightarrow> work_kind \<Rightarrow> evidence_owner \<Rightarrow> completion_claim
    \<Rightarrow> completion_contract \<Rightarrow> evidence_error + completion_evidence" where
  "new_evidence codec generation kind owner claim contract =
     res_bind (validate_contract codec contract) (\<lambda>_. Inr
       \<lparr>cv_child_reports = [], cv_version = 1, cv_generation = generation, cv_revision = 1,
        cv_kind = kind, cv_owner = owner, cv_claim = claim, cv_contract = contract,
        cv_contract_digest = contract_digest codec contract, cv_delivered_hash = None,
        cv_delivered_bytes = 0, cv_work_revision = 0, cv_checks = [], cv_artifacts = [],
        cv_effects = [], cv_omitted = False, cv_budget = no_budget_evidence,
        cv_verification = NotNeeded, cv_outcome = Incomplete\<rparr>)"

definition delivered ::
  "'x evidence_codec_scheme \<Rightarrow> u8 list \<Rightarrow> completion_evidence \<Rightarrow> completion_evidence" where
  "delivered codec bytes e =
     e\<lparr>cv_delivered_hash := Some (ec_blake3 codec bytes), cv_delivered_bytes := length bytes\<rparr>"

definition check_superseded :: "completion_evidence \<Rightarrow> check_evidence \<Rightarrow> bool" where
  "check_superseded e check =
     (ck_outcome check = CheckFailed
      \<and> list_ex (\<lambda>later. ck_generation later = cv_generation e
           \<and> ck_command_digest later = ck_command_digest check
           \<and> ck_work_revision later > ck_work_revision check
           \<and> ck_work_revision later = cv_work_revision e
           \<and> ck_outcome later = CheckPassed \<and> ck_exit_code later = Some 0) (cv_checks e))"

fun satisfies ::
  "'x evidence_codec_scheme \<Rightarrow> completion_evidence \<Rightarrow> acceptance_condition \<Rightarrow> bool" where
  "satisfies codec e (CommandSucceeded command cwd) =
     list_ex (\<lambda>check. ck_generation check = cv_generation e
        \<and> ck_command_digest check = command_digest codec command cwd
        \<and> ck_work_revision check = cv_work_revision e
        \<and> ck_outcome check = CheckPassed) (cv_checks e)"
| "satisfies codec e (ArtifactPresent a) =
     list_ex (\<lambda>fact. ae_generation fact = cv_generation e
        \<and> art_reference (ae_artifact fact) = a \<and> ae_verified fact) (cv_artifacts e)"
| "satisfies codec e (Declared i revision) = False"

text \<open>The three groups of facts that \<open>evaluate\<close> looks at, in its order.\<close>

definition needs_attention :: "completion_evidence \<Rightarrow> bool" where
  "needs_attention e =
     (cv_omitted e
      \<or> list_ex (\<lambda>f. ef_outcome f = EffectUnknown) (cv_effects e)
      \<or> list_ex (\<lambda>c. ce_outcome c = NeedsAttention) (cv_child_reports e)
      \<or> cv_verification e \<in> {VerReserved, VerUnavailable, VerFailed, VerCancelled})"

definition effect_unresolved :: "completion_evidence \<Rightarrow> effect_evidence \<Rightarrow> bool" where
  "effect_unresolved e f =
     (ef_outcome f = EffectDeclined
      \<or> ef_outcome f = EffectFailed
        \<and> \<not> list_ex (\<lambda>check. ck_invocation check = ef_invocation f
              \<and> ck_outcome check = CheckFailed \<and> check_superseded e check) (cv_checks e))"

definition missing_work :: "completion_evidence \<Rightarrow> bool" where
  "missing_work e =
     (cv_delivered_hash e = None \<or> cv_delivered_bytes e = 0
      \<or> list_ex (\<lambda>c. ce_outcome c = Incomplete) (cv_child_reports e)
      \<or> list_ex (effect_unresolved e) (cv_effects e)
      \<or> list_ex (\<lambda>check. ck_outcome check \<noteq> CheckPassed \<and> \<not> check_superseded e check) (cv_checks e)
      \<or> list_ex (\<lambda>a. \<not> ae_verified a \<or> ae_generation a \<noteq> cv_generation e) (cv_artifacts e))"

definition verdict :: "'x evidence_codec_scheme \<Rightarrow> completion_evidence \<Rightarrow> evidence_outcome" where
  "verdict codec e =
     (if cv_claim e \<noteq> ClaimCompleted \<or> be_exceeded (cv_budget e) then Incomplete
      else if needs_attention e then NeedsAttention
      else if missing_work e then Incomplete
      else if list_ex (\<lambda>c. \<not> satisfies codec e c) (co_conditions (cv_contract e)) then NeedsAttention
      else if co_conditions (cv_contract e) = [] then DeliveryVerified
      else ConditionsVerified)"

definition evaluate_evidence ::
  "'x evidence_codec_scheme \<Rightarrow> completion_evidence \<Rightarrow> completion_evidence" where
  "evaluate_evidence codec e = e\<lparr>cv_outcome := verdict codec e\<rparr>"

section \<open>Validation\<close>

definition validate_evidence ::
  "'x evidence_codec_scheme \<Rightarrow> completion_evidence \<Rightarrow> evidence_error + unit" where
  "validate_evidence codec e =
     res_bind (validate_contract codec (cv_contract e))
     (\<lambda>_. res_bind (ensure (cv_version e = 1 \<and> cv_revision e > 0 \<and> cv_revision e \<le> 3) InvalidRevision)
     (\<lambda>_. res_bind (ensure (contract_digest codec (cv_contract e) = cv_contract_digest e)
         ContractChangedDigest)
     (\<lambda>_. res_bind (ensure (list_all (\<lambda>n. n \<le> MAX_EVIDENCE_ITEMS)
         [length (cv_checks e), length (cv_artifacts e), length (cv_effects e),
          length (cv_child_reports e)]) ItemBound)
     (\<lambda>_. res_bind (ensure (
         list_all (\<lambda>f. ck_generation f = cv_generation e \<and> ck_work_revision f \<le> cv_work_revision e)
           (cv_checks e)
         \<and> list_all (\<lambda>f. ef_generation f = cv_generation e) (cv_effects e)
         \<and> list_all (\<lambda>f. ae_generation f = cv_generation e) (cv_artifacts e)) GenerationMismatch)
     (\<lambda>_. res_bind (ensure (distinct (map ck_invocation (cv_checks e))
         \<and> distinct (map ef_invocation (cv_effects e))) DuplicateReceipt)
     (\<lambda>_. res_bind (ensure (be_verification_bytes (cv_budget e) \<le> MAX_VERIFY_BYTES) VerifyBytes)
     (\<lambda>_. res_bind (ensure (
         list_all (\<lambda>c. ce_generation c \<noteq> cv_generation e) (cv_child_reports e)
         \<and> distinct (map ce_generation (cv_child_reports e))) InvalidChildReferences)
     (\<lambda>_. ensure (length (ec_evidence_json codec e) \<le> MAX_EVIDENCE_BYTES) EvidenceBytes))))))))"

definition evidence_supported :: "completion_evidence \<Rightarrow> bool" where
  "evidence_supported e = (cv_outcome e \<in> {DeliveryVerified, ConditionsVerified})"

definition validate_outcome ::
  "'x evidence_codec_scheme \<Rightarrow> completion_evidence \<Rightarrow> evidence_error + unit" where
  "validate_outcome codec e =
     res_bind (validate_evidence codec e)
     (\<lambda>_. ensure (cv_outcome (evaluate_evidence codec e) = cv_outcome e) OutcomeContradicts)"

text \<open>What the third revision may not change: \<open>next\<close> with the two fields of the verdict put back
  and every artifact unverified.\<close>

definition frozen :: "completion_evidence \<Rightarrow> completion_evidence \<Rightarrow> completion_evidence" where
  "frozen previous e =
     e\<lparr>cv_revision := cv_revision previous, cv_verification := cv_verification previous,
       cv_outcome := cv_outcome previous,
       cv_artifacts := map (\<lambda>a. a\<lparr>ae_verified := False\<rparr>) (cv_artifacts e)\<rparr>"

definition first_revision :: "completion_evidence \<Rightarrow> bool" where
  "first_revision e =
     (cv_revision e = 1 \<and> cv_claim e = ClaimInterrupted \<and> cv_delivered_hash e = None
      \<and> cv_checks e = [] \<and> cv_effects e = [] \<and> cv_artifacts e = [] \<and> cv_child_reports e = []
      \<and> cv_verification e = NotNeeded)"

definition next_revision :: "completion_evidence \<Rightarrow> completion_evidence \<Rightarrow> bool" where
  "next_revision p e =
     (if cv_generation p \<noteq> cv_generation e \<or> cv_contract p \<noteq> cv_contract e \<or> cv_kind p \<noteq> cv_kind e
         \<or> cv_owner p \<noteq> cv_owner e \<or> cv_revision e \<noteq> cv_revision p + 1 then False
      else if cv_revision p = 1 then
        cv_revision e = 2 \<and> cv_verification e \<notin> {VerPassed, VerFailed}
        \<and> list_all (\<lambda>a. \<not> ae_verified a) (cv_artifacts e)
      else if cv_revision p \<noteq> 2 \<or> cv_verification p \<noteq> VerReserved then False
      else frozen p e = p \<and> cv_verification e \<in> {VerPassed, VerFailed, VerCancelled})"

definition valid_transition ::
  "'x evidence_codec_scheme \<Rightarrow> completion_evidence option \<Rightarrow> completion_evidence \<Rightarrow> bool" where
  "valid_transition codec previous e =
     (is_ok (validate_evidence codec e) \<and> cv_outcome (evaluate_evidence codec e) = cv_outcome e
      \<and> (case previous of None \<Rightarrow> first_revision e | Some p \<Rightarrow> next_revision p e))"

end
