(* ===== verification/Prompt_Budget.thy ===== *)
theory Prompt_Budget
  imports Prelude
begin

text \<open>
  Model-aware prompt budgets, \<open>src/src/prompt/budget.rs\<close>: how a window of context tokens is
  divided, and the check that a persisted division is one the program could have made. Every
  count is below one million, so the saturating arithmetic of the source is exact on naturals;
  \<open>saturating_sub\<close> is subtraction on naturals.
\<close>

definition HARD_CONTEXT_CEILING_TOKENS :: nat where "HARD_CONTEXT_CEILING_TOKENS = 1000000"
definition MIN_USABLE_CONTEXT_TOKENS :: nat where "MIN_USABLE_CONTEXT_TOKENS = 2048"

record prompt_budget_policy =
  pp_max_context_tokens :: "nat option"
  pp_fallback_context_tokens :: nat
  pp_output_reserve_tokens :: nat
  pp_reasoning_reserve_tokens :: nat
  pp_tool_reserve_tokens :: nat
  pp_threshold_percent :: nat
  pp_retained_tail_tokens :: nat
  pp_summary_max_bytes :: nat

definition default_prompt_policy :: prompt_budget_policy where
  "default_prompt_policy =
     \<lparr>pp_max_context_tokens = None, pp_fallback_context_tokens = 32768,
      pp_output_reserve_tokens = 4096, pp_reasoning_reserve_tokens = 2048,
      pp_tool_reserve_tokens = 4096, pp_threshold_percent = 80, pp_retained_tail_tokens = 8192,
      pp_summary_max_bytes = 16 * 1024\<rparr>"

datatype prompt_budget_error =
  InvalidMaxContext | InvalidFallback | InvalidReserves | InvalidThreshold | InvalidSummaryBytes
| UnusableModelLimit nat | ReservesExhaustWindow nat nat nat

definition usable_window :: "nat \<Rightarrow> bool" where
  "usable_window n = (MIN_USABLE_CONTEXT_TOKENS \<le> n \<and> n \<le> HARD_CONTEXT_CEILING_TOKENS)"

definition validate_prompt_policy :: "prompt_budget_policy \<Rightarrow> prompt_budget_error + unit" where
  "validate_prompt_policy p =
     res_bind (ensure (case pp_max_context_tokens p of None \<Rightarrow> True | Some n \<Rightarrow> usable_window n)
       InvalidMaxContext)
     (\<lambda>_. res_bind (ensure (usable_window (pp_fallback_context_tokens p)) InvalidFallback)
     (\<lambda>_. res_bind (ensure (\<not> (pp_output_reserve_tokens p = 0
           \<or> pp_output_reserve_tokens p > HARD_CONTEXT_CEILING_TOKENS
           \<or> pp_reasoning_reserve_tokens p > HARD_CONTEXT_CEILING_TOKENS
           \<or> pp_tool_reserve_tokens p = 0
           \<or> pp_tool_reserve_tokens p > HARD_CONTEXT_CEILING_TOKENS
           \<or> pp_retained_tail_tokens p = 0
           \<or> pp_retained_tail_tokens p > HARD_CONTEXT_CEILING_TOKENS)) InvalidReserves)
     (\<lambda>_. res_bind (ensure (50 \<le> pp_threshold_percent p \<and> pp_threshold_percent p \<le> 95)
         InvalidThreshold)
     (\<lambda>_. ensure (1024 \<le> pp_summary_max_bytes p \<and> pp_summary_max_bytes p \<le> 256 * 1024)
         InvalidSummaryBytes))))"

record model_budget_facts =
  mf_connection :: rust_string
  mf_model :: rust_string
  mf_context_tokens :: "nat option"
  mf_max_output_tokens :: "nat option"
  mf_reasoning :: bool

datatype context_window_source = ModelCatalog | ConservativeFallback | ContradictoryCatalog

record prompt_budget_plan =
  pb_connection :: rust_string
  pb_model :: rust_string
  pb_context_window :: nat
  pb_window_source :: context_window_source
  pb_route_ceiling :: "nat option"
  pb_input_budget :: nat
  pb_output_reserve :: nat
  pb_reasoning_reserve :: nat
  pb_tool_reserve :: nat
  pb_conversation_reserve :: nat
  pb_threshold :: nat
  pb_retained_tail :: nat
  pb_summary_max_bytes :: nat

definition advertised_window ::
  "prompt_budget_policy \<Rightarrow> model_budget_facts \<Rightarrow> nat \<times> context_window_source" where
  "advertised_window p f =
     (case mf_context_tokens f of
        Some tokens \<Rightarrow>
          (tokens, if tokens \<ge> MIN_USABLE_CONTEXT_TOKENS then ModelCatalog else ContradictoryCatalog)
      | None \<Rightarrow> (pp_fallback_context_tokens p, ConservativeFallback))"

definition output_reserve :: "prompt_budget_policy \<Rightarrow> model_budget_facts \<Rightarrow> nat \<Rightarrow> nat" where
  "output_reserve p f window =
     max 1 (min (window div 2)
       (case mf_max_output_tokens f of
          Some tokens \<Rightarrow>
            if tokens > 0 \<and> tokens < window then tokens else pp_output_reserve_tokens p
        | None \<Rightarrow> pp_output_reserve_tokens p))"

definition context_window :: "prompt_budget_policy \<Rightarrow> model_budget_facts \<Rightarrow> nat" where
  "context_window p f =
     min (min (fst (advertised_window p f))
         (case pp_max_context_tokens p of Some n \<Rightarrow> n | None \<Rightarrow> HARD_CONTEXT_CEILING_TOKENS))
       HARD_CONTEXT_CEILING_TOKENS"

definition reasoning_reserve :: "prompt_budget_policy \<Rightarrow> model_budget_facts \<Rightarrow> nat \<Rightarrow> nat" where
  "reasoning_reserve p f window =
     (if mf_reasoning f then min (pp_reasoning_reserve_tokens p) (window div 4) else 0)"

definition compaction_threshold :: "prompt_budget_policy \<Rightarrow> nat \<Rightarrow> nat" where
  "compaction_threshold p input =
     max (input * pp_threshold_percent p div 100 - pp_tool_reserve_tokens p) MIN_USABLE_CONTEXT_TOKENS"

definition retained_tail :: "prompt_budget_policy \<Rightarrow> nat \<Rightarrow> nat" where
  "retained_tail p threshold = max (min (pp_retained_tail_tokens p) (threshold div 2)) 1"

definition conversation_reserve :: "nat \<Rightarrow> nat \<Rightarrow> nat" where
  "conversation_reserve tail input = max (min tail (input div 2)) 1"

definition derive_plan ::
  "prompt_budget_policy \<Rightarrow> model_budget_facts \<Rightarrow> prompt_budget_error + prompt_budget_plan" where
  "derive_plan p f =
     res_bind (validate_prompt_policy p) (\<lambda>_.
       let window = context_window p f;
           out = output_reserve p f window;
           reasoning = reasoning_reserve p f window;
           input = window - out - reasoning;
           threshold = compaction_threshold p input;
           tail = retained_tail p threshold
       in res_bind (ensure (\<not> window < MIN_USABLE_CONTEXT_TOKENS) (UnusableModelLimit window))
       (\<lambda>_. res_bind (ensure (\<not> input < MIN_USABLE_CONTEXT_TOKENS)
           (ReservesExhaustWindow window out reasoning))
       (\<lambda>_. Inr \<lparr>pb_connection = mf_connection f, pb_model = mf_model f, pb_context_window = window,
            pb_window_source = snd (advertised_window p f), pb_route_ceiling = pp_max_context_tokens p,
            pb_input_budget = input, pb_output_reserve = out, pb_reasoning_reserve = reasoning,
            pb_tool_reserve = pp_tool_reserve_tokens p,
            pb_conversation_reserve = conversation_reserve tail input, pb_threshold = threshold,
            pb_retained_tail = tail, pb_summary_max_bytes = pp_summary_max_bytes p\<rparr>)))"

definition route_is_valid :: "prompt_budget_plan \<Rightarrow> bool" where
  "route_is_valid b =
     (case pb_route_ceiling b of None \<Rightarrow> True
      | Some c \<Rightarrow> usable_window c \<and> pb_context_window b \<le> c)"

definition is_valid_checkpoint_plan :: "prompt_budget_plan \<Rightarrow> bool" where
  "is_valid_checkpoint_plan b =
     (trim (pb_connection b) \<noteq> [] \<and> str_len (pb_connection b) \<le> 256
      \<and> trim (pb_model b) \<noteq> [] \<and> str_len (pb_model b) \<le> 256
      \<and> usable_window (pb_context_window b)
      \<and> route_is_valid b
      \<and> pb_output_reserve b > 0 \<and> pb_output_reserve b \<le> pb_context_window b div 2
      \<and> pb_reasoning_reserve b \<le> pb_context_window b div 4
      \<and> pb_input_budget b = pb_context_window b - pb_output_reserve b - pb_reasoning_reserve b
      \<and> pb_input_budget b \<ge> MIN_USABLE_CONTEXT_TOKENS
      \<and> pb_tool_reserve b > 0 \<and> pb_tool_reserve b \<le> HARD_CONTEXT_CEILING_TOKENS
      \<and> MIN_USABLE_CONTEXT_TOKENS \<le> pb_threshold b \<and> pb_threshold b \<le> pb_input_budget b
      \<and> pb_retained_tail b > 0 \<and> pb_retained_tail b \<le> pb_threshold b div 2
      \<and> pb_conversation_reserve b = conversation_reserve (pb_retained_tail b) (pb_input_budget b)
      \<and> 1024 \<le> pb_summary_max_bytes b \<and> pb_summary_max_bytes b \<le> 256 * 1024)"

section \<open>Lemmas\<close>

lemma validate_prompt_policy_ok:
  "validate_prompt_policy p = Inr () \<longleftrightarrow>
     (\<forall>n. pp_max_context_tokens p = Some n \<longrightarrow> usable_window n)
     \<and> usable_window (pp_fallback_context_tokens p)
     \<and> 0 < pp_output_reserve_tokens p \<and> pp_output_reserve_tokens p \<le> HARD_CONTEXT_CEILING_TOKENS
     \<and> pp_reasoning_reserve_tokens p \<le> HARD_CONTEXT_CEILING_TOKENS
     \<and> 0 < pp_tool_reserve_tokens p \<and> pp_tool_reserve_tokens p \<le> HARD_CONTEXT_CEILING_TOKENS
     \<and> 0 < pp_retained_tail_tokens p \<and> pp_retained_tail_tokens p \<le> HARD_CONTEXT_CEILING_TOKENS
     \<and> 50 \<le> pp_threshold_percent p \<and> pp_threshold_percent p \<le> 95
     \<and> 1024 \<le> pp_summary_max_bytes p \<and> pp_summary_max_bytes p \<le> 256 * 1024"
  by (auto simp: validate_prompt_policy_def res_simps not_less split: option.splits)

lemma output_reserve_bounds:
  assumes "MIN_USABLE_CONTEXT_TOKENS \<le> window"
  shows "0 < output_reserve p f window" and "output_reserve p f window \<le> window div 2"
  using assms by (auto simp: output_reserve_def MIN_USABLE_CONTEXT_TOKENS_def)

lemma compaction_threshold_bounds:
  assumes "validate_prompt_policy p = Inr ()" and "MIN_USABLE_CONTEXT_TOKENS \<le> input"
  shows "MIN_USABLE_CONTEXT_TOKENS \<le> compaction_threshold p input"
    and "compaction_threshold p input \<le> input"
proof -
  have "pp_threshold_percent p \<le> 100" using assms(1) by (simp add: validate_prompt_policy_ok)
  then have "input * pp_threshold_percent p div 100 \<le> input * 100 div 100"
    by (intro div_le_mono mult_le_mono) auto
  then have "input * pp_threshold_percent p div 100 - pp_tool_reserve_tokens p \<le> input" by simp
  then show "MIN_USABLE_CONTEXT_TOKENS \<le> compaction_threshold p input"
    and "compaction_threshold p input \<le> input"
    using assms(2) by (simp_all add: compaction_threshold_def)
qed

lemma retained_tail_bounds:
  assumes "MIN_USABLE_CONTEXT_TOKENS \<le> threshold"
  shows "0 < retained_tail p threshold" and "retained_tail p threshold \<le> threshold div 2"
  using assms by (auto simp: retained_tail_def MIN_USABLE_CONTEXT_TOKENS_def)

lemma context_window_bounds:
  "context_window p f \<le> HARD_CONTEXT_CEILING_TOKENS"
  "pp_max_context_tokens p = Some c \<Longrightarrow> context_window p f \<le> c"
  by (auto simp: context_window_def)

lemma derive_plan_eq:
  assumes "derive_plan p f = Inr b"
  defines "window \<equiv> context_window p f"
  defines "input \<equiv> window - output_reserve p f window - reasoning_reserve p f window"
  shows "validate_prompt_policy p = Inr ()" and "MIN_USABLE_CONTEXT_TOKENS \<le> window"
    and "MIN_USABLE_CONTEXT_TOKENS \<le> input"
    and "b = \<lparr>pb_connection = mf_connection f, pb_model = mf_model f, pb_context_window = window,
            pb_window_source = snd (advertised_window p f), pb_route_ceiling = pp_max_context_tokens p,
            pb_input_budget = input, pb_output_reserve = output_reserve p f window,
            pb_reasoning_reserve = reasoning_reserve p f window,
            pb_tool_reserve = pp_tool_reserve_tokens p,
            pb_conversation_reserve =
              conversation_reserve (retained_tail p (compaction_threshold p input)) input,
            pb_threshold = compaction_threshold p input,
            pb_retained_tail = retained_tail p (compaction_threshold p input),
            pb_summary_max_bytes = pp_summary_max_bytes p\<rparr>"
  using assms(1) unfolding derive_plan_def Let_def res_simps not_less window_def input_def by simp_all

section \<open>Properties\<close>

text \<open>A budget derived from a policy and model facts always passes the check made on persisted
  budgets, and the input budget and the reserves together never exceed the window, which is at most
  the configured ceiling and what the model catalogue advertises.\<close>

theorem derived_plan_valid:
  assumes "derive_plan p f = Inr b"
    and "trim (mf_connection f) \<noteq> []" and "str_len (mf_connection f) \<le> 256"
    and "trim (mf_model f) \<noteq> []" and "str_len (mf_model f) \<le> 256"
  shows "is_valid_checkpoint_plan b
    \<and> pb_input_budget b + pb_output_reserve b + pb_reasoning_reserve b = pb_context_window b
    \<and> pb_context_window b \<le> fst (advertised_window p f)
    \<and> (case pp_max_context_tokens p of None \<Rightarrow> True | Some c \<Rightarrow> pb_context_window b \<le> c)"
proof -
  let ?w = "context_window p f"
  let ?input = "?w - output_reserve p f ?w - reasoning_reserve p f ?w"
  note b = derive_plan_eq [OF assms(1)]
  note ok = b(1) [unfolded validate_prompt_policy_ok]
  have route: "usable_window ?w" "route_is_valid b"
    using ok context_window_bounds b(2) b(4)
    by (auto simp: usable_window_def route_is_valid_def split: option.splits)
  have reasoning: "reasoning_reserve p f ?w \<le> ?w div 4" by (simp add: reasoning_reserve_def)
  have "is_valid_checkpoint_plan b"
    using ok assms(2-5) route output_reserve_bounds [OF b(2)] reasoning b(3)
      compaction_threshold_bounds [OF b(1,3)] retained_tail_bounds [OF compaction_threshold_bounds(1)
        [OF b(1,3)]]
    by (simp add: is_valid_checkpoint_plan_def b(4))
  moreover have "?w \<le> fst (advertised_window p f)" by (simp add: context_window_def)
  ultimately show ?thesis
    using b(3) context_window_bounds(2) [of p _ f]
    by (auto simp: b(4) MIN_USABLE_CONTEXT_TOKENS_def split: option.splits)
qed

definition sample_model :: model_budget_facts where
  "sample_model =
     \<lparr>mf_connection = rstr ''c'', mf_model = rstr ''m'', mf_context_tokens = Some 16384,
      mf_max_output_tokens = Some 4096, mf_reasoning = True\<rparr>"

theorem derived_plan_valid_witness:
  "\<exists>b. derive_plan default_prompt_policy sample_model = Inr b \<and> pb_input_budget b = 10240
     \<and> is_valid_checkpoint_plan b"
proof -
  have "\<exists>b. derive_plan default_prompt_policy sample_model = Inr b \<and> pb_input_budget b = 10240"
    by (simp add: derive_plan_def validate_prompt_policy_def default_prompt_policy_def
        sample_model_def context_window_def advertised_window_def output_reserve_def
        reasoning_reserve_def usable_window_def MIN_USABLE_CONTEXT_TOKENS_def
        HARD_CONTEXT_CEILING_TOKENS_def ensure_def Let_def)
  then obtain b where "derive_plan default_prompt_policy sample_model = Inr b"
    and "pb_input_budget b = 10240" by blast
  moreover have "trim (mf_connection sample_model) \<noteq> []" "str_len (mf_connection sample_model) \<le> 256"
    "trim (mf_model sample_model) \<noteq> []" "str_len (mf_model sample_model) \<le> 256"
    by (simp_all add: sample_model_def rstr_def trim_def is_whitespace_def str_len_def utf8_len_def)
  ultimately show ?thesis using derived_plan_valid by blast
qed

end
