(* ===== verification/Compaction.thy ===== *)
theory Compaction
  imports Completion_Evidence Prompt_Budget "HOL-Library.List_Lexorder"
begin

text \<open>
  Continuation checkpoints, \<open>src/src/session/compaction.rs\<close> with the provenance check of
  \<open>src/src/session/compaction/semantic.rs\<close> and the message estimate of
  \<open>src/src/prompt/render.rs\<close>: the summary extracted from older messages and its bounds, the choice
  of the retained tail and the proof object that hashes the source entries, also incrementally.
  JSON encoders, the rendering of identifiers and BLAKE3 are parameters.
\<close>

section \<open>The summary\<close>

definition MAX_SUMMARY_ITEMS :: nat where "MAX_SUMMARY_ITEMS = 16"
definition MAX_SUMMARY_ITEM_BYTES :: nat where "MAX_SUMMARY_ITEM_BYTES = 512"
definition COMPACTION_CHECKPOINT_VERSION :: nat where "COMPACTION_CHECKPOINT_VERSION = 1"

record compaction_summary =
  sm_goal :: "rust_string option"
  sm_constraints :: "rust_string list"
  sm_progress :: "rust_string list"
  sm_decisions :: "rust_string list"
  sm_unresolved :: "rust_string list"
  sm_references :: "rust_string list"

definition empty_summary :: compaction_summary where
  "empty_summary =
     \<lparr>sm_goal = None, sm_constraints = [], sm_progress = [], sm_decisions = [], sm_unresolved = [],
      sm_references = []\<rparr>"

record compaction_codec = evidence_codec +
  cc_show_uuid :: "uuid \<Rightarrow> rust_string"
  cc_json_text :: "json \<Rightarrow> rust_string"
  cc_message_json :: "message \<Rightarrow> u8 list"
  cc_summary_json :: "compaction_summary \<Rightarrow> u8 list"

definition ellipsis_text :: "rust_string \<Rightarrow> nat \<Rightarrow> rust_string" where
  "ellipsis_text s n =
     (if str_len s \<le> n then s
      else if n \<le> 3 then replicate n 46
      else floor_prefix (min (n - 3) (str_len s)) s @ [46, 46, 46])"

definition push_unique :: "rust_string \<Rightarrow> rust_string list \<Rightarrow> rust_string list" where
  "push_unique v items =
     (if length items < MAX_SUMMARY_ITEMS \<and> v \<notin> set items then items @ [v] else items)"

definition contains_any :: "rust_string \<Rightarrow> string list \<Rightarrow> bool" where
  "contains_any s needles = list_ex (\<lambda>n. str_contains s (rstr n)) needles"

text \<open>A \<open>BTreeSet\<close> of strings, read back in order: bytewise order is code point order.\<close>

definition btree_set :: "rust_string list \<Rightarrow> rust_string list" where
  "btree_set xs = remdups (sort xs)"

definition reference_punctuation :: "nat \<Rightarrow> bool" where
  "reference_punctuation c = (c \<in> set (rstr '',.;:()[]`'') \<or> c = 34)"

definition looks_like_reference :: "rust_string \<Rightarrow> bool" where
  "looks_like_reference w =
     (str_starts_with w (rstr ''http://'') \<or> str_starts_with w (rstr ''https://'')
      \<or> 47 \<in> set w \<or> 92 \<in> set w
      \<or> list_ex (\<lambda>x. str_ends_with w (rstr x))
          [''.rs'', ''.toml'', ''.md'', ''.json'', ''.yaml'', ''.yml''])"

definition extract_references :: "rust_string \<Rightarrow> rust_string list" where
  "extract_references line =
     btree_set (map (\<lambda>w. ellipsis_text w MAX_SUMMARY_ITEM_BYTES)
       (filter (\<lambda>w. w \<noteq> [])
         (filter looks_like_reference
           (map (trim_matches reference_punctuation) (split_whitespace line)))))"

definition text_references :: "rust_string \<Rightarrow> rust_string list" where
  "text_references s = concat (map extract_references (str_lines s))"

fun json_references :: "json \<Rightarrow> rust_string list" where
  "json_references (JString s) = text_references s"
| "json_references (JArray vs) = concat (map json_references vs)"
| "json_references (JObject kvs) = concat (map (\<lambda>kv. json_references (snd kv)) kvs)"
| "json_references _ = []"

definition artifact_mention :: "'x compaction_codec_scheme \<Rightarrow> artifact_record \<Rightarrow> rust_string" where
  "artifact_mention codec a =
     rstr ''artifact:'' @ cc_show_uuid codec (arf_id (art_reference a)) @ rstr ''@''
       @ arf_hash (art_reference a)"

fun block_references :: "'x compaction_codec_scheme \<Rightarrow> content_block \<Rightarrow> rust_string list" where
  "block_references codec (TextBlock t) = text_references t"
| "block_references codec (ToolResultBlock r) =
     text_references (tr_output r)
     @ (case tr_artifact r of None \<Rightarrow> [] | Some a \<Rightarrow> [artifact_mention codec a])"
| "block_references codec (ToolCallBlock c) = json_references (tc_arguments c)"
| "block_references codec (ImageBlock img) =
     [rstr ''artifact:'' @ cc_show_uuid codec (arf_id (art_reference (im_artifact img)))]"

definition message_references :: "'x compaction_codec_scheme \<Rightarrow> message \<Rightarrow> rust_string list" where
  "message_references codec m = btree_set (concat (map (block_references codec) (msg_content m)))"

fun block_texts :: "content_block \<Rightarrow> rust_string list" where
  "block_texts (TextBlock t) = [t]"
| "block_texts (ToolResultBlock r) = [tr_output r]"
| "block_texts _ = []"

definition message_texts :: "message \<Rightarrow> rust_string list" where
  "message_texts m = concat (map block_texts (msg_content m))"

definition observe_line :: "role \<Rightarrow> rust_string \<Rightarrow> compaction_summary \<Rightarrow> compaction_summary" where
  "observe_line r full sm =
     (let line = ellipsis_text full MAX_SUMMARY_ITEM_BYTES;
          lower = to_ascii_lowercase line;
          sm = (if sm_goal sm = None \<and> r = UserRole then sm\<lparr>sm_goal := Some line\<rparr> else sm);
          sm = (if contains_any lower
                  [''must'', ''should'', ''do not'', ''don'' @ [CHR 39] @ ''t'', ''require'', ''constraint'']
                then sm\<lparr>sm_constraints := push_unique line (sm_constraints sm)\<rparr> else sm);
          sm = (if contains_any lower
                  [''decided'', ''decision'', ''approved'', ''we will'', ''use '', ''choose'']
                then sm\<lparr>sm_decisions := push_unique line (sm_decisions sm)\<rparr> else sm);
          sm = (if str_ends_with line [63]
                  \<or> contains_any lower
                    [''todo'', ''remaining'', ''unresolved'', ''blocked'', ''failed'', ''error'']
                then sm\<lparr>sm_unresolved := push_unique line (sm_unresolved sm)\<rparr> else sm);
          sm = (if r \<in> {AssistantRole, ToolRole}
                then sm\<lparr>sm_progress := push_unique line (sm_progress sm)\<rparr> else sm)
      in sm\<lparr>sm_references := fold push_unique (extract_references line) (sm_references sm)\<rparr>)"

definition message_lines :: "message \<Rightarrow> rust_string list" where
  "message_lines m =
     filter (\<lambda>l. l \<noteq> []) (map trim (concat (map str_lines (message_texts m))))"

definition observe_message ::
  "'x compaction_codec_scheme \<Rightarrow> message \<Rightarrow> compaction_summary \<Rightarrow> compaction_summary" where
  "observe_message codec m sm =
     (let sm = fold (observe_line (msg_role m)) (message_lines m) sm
      in sm\<lparr>sm_references := fold push_unique (message_references codec m) (sm_references sm)\<rparr>)"

definition append_section :: "string \<Rightarrow> rust_string list \<Rightarrow> rust_string list" where
  "append_section title items =
     (if items = [] then []
      else [rstr title @ [58, 10] @ join_with [10] (map (\<lambda>i. [45, 32] @ i) items)])"

definition render_summary :: "compaction_summary \<Rightarrow> rust_string" where
  "render_summary sm =
     (let sections =
        (case sm_goal sm of None \<Rightarrow> [] | Some g \<Rightarrow> [rstr ''Goal:'' @ [10, 45, 32] @ g])
        @ append_section ''Constraints'' (sm_constraints sm)
        @ append_section ''Progress'' (sm_progress sm)
        @ append_section ''Decisions'' (sm_decisions sm)
        @ append_section ''Unresolved work'' (sm_unresolved sm)
        @ append_section ''File and artifact references'' (sm_references sm)
      in if sections = []
         then rstr ''No textual continuation facts were recoverable from the compacted span.''
         else join_with [10, 10] sections)"

datatype summary_field = FProgress | FReferences | FUnresolved | FDecisions | FConstraints

fun field_items :: "summary_field \<Rightarrow> compaction_summary \<Rightarrow> rust_string list" where
  "field_items FProgress sm = sm_progress sm"
| "field_items FReferences sm = sm_references sm"
| "field_items FUnresolved sm = sm_unresolved sm"
| "field_items FDecisions sm = sm_decisions sm"
| "field_items FConstraints sm = sm_constraints sm"

fun set_field :: "summary_field \<Rightarrow> rust_string list \<Rightarrow> compaction_summary \<Rightarrow> compaction_summary" where
  "set_field FProgress xs sm = sm\<lparr>sm_progress := xs\<rparr>"
| "set_field FReferences xs sm = sm\<lparr>sm_references := xs\<rparr>"
| "set_field FUnresolved xs sm = sm\<lparr>sm_unresolved := xs\<rparr>"
| "set_field FDecisions xs sm = sm\<lparr>sm_decisions := xs\<rparr>"
| "set_field FConstraints xs sm = sm\<lparr>sm_constraints := xs\<rparr>"

text \<open>\<open>max_by_key\<close> answers the last of several longest.\<close>

definition longest_field :: "compaction_summary \<Rightarrow> summary_field" where
  "longest_field sm =
     fold (\<lambda>f best. if length (field_items best sm) \<le> length (field_items f sm) then f else best)
       [FReferences, FUnresolved, FDecisions, FConstraints] FProgress"

definition item_count :: "compaction_summary \<Rightarrow> nat" where
  "item_count sm =
     length (sm_progress sm) + length (sm_references sm) + length (sm_unresolved sm)
     + length (sm_decisions sm) + length (sm_constraints sm)"

definition pop_field :: "summary_field \<Rightarrow> compaction_summary \<Rightarrow> compaction_summary" where
  "pop_field f sm = set_field f (butlast (field_items f sm)) sm"

lemma item_count_pop: "field_items f sm \<noteq> [] \<Longrightarrow> item_count (pop_field f sm) < item_count sm"
  by (cases f) (auto simp: item_count_def pop_field_def)

function shrink_summary :: "nat \<Rightarrow> compaction_summary \<Rightarrow> compaction_summary" where
  "shrink_summary n sm =
     (if str_len (render_summary sm) \<le> n then sm
      else if field_items (longest_field sm) sm = []
      then sm\<lparr>sm_goal := map_option (\<lambda>g. ellipsis_text g (n - 16)) (sm_goal sm)\<rparr>
      else shrink_summary n (pop_field (longest_field sm) sm))"
  by pat_completeness auto
termination by (relation "measure (\<lambda>(n, sm). item_count sm)") (simp_all add: item_count_pop)

declare shrink_summary.simps [simp del]

definition truncate_items :: "compaction_summary \<Rightarrow> compaction_summary" where
  "truncate_items sm =
     sm\<lparr>sm_constraints := take MAX_SUMMARY_ITEMS (sm_constraints sm),
        sm_progress := take MAX_SUMMARY_ITEMS (sm_progress sm),
        sm_decisions := take MAX_SUMMARY_ITEMS (sm_decisions sm),
        sm_unresolved := take MAX_SUMMARY_ITEMS (sm_unresolved sm),
        sm_references := take MAX_SUMMARY_ITEMS (sm_references sm)\<rparr>"

definition enforce_bounds :: "nat \<Rightarrow> compaction_summary \<Rightarrow> compaction_summary" where
  "enforce_bounds n sm = shrink_summary n (truncate_items sm)"

definition derive_summary ::
  "'x compaction_codec_scheme \<Rightarrow> compaction_summary option \<Rightarrow> message list \<Rightarrow> nat
    \<Rightarrow> compaction_summary" where
  "derive_summary codec previous messages n =
     enforce_bounds n (fold (observe_message codec) messages
       (case previous of None \<Rightarrow> empty_summary | Some sm \<Rightarrow> sm))"

definition item_ok :: "rust_string \<Rightarrow> bool" where
  "item_ok s = (trim s \<noteq> [] \<and> str_len s \<le> MAX_SUMMARY_ITEM_BYTES)"

definition validate_summary :: "compaction_summary \<Rightarrow> nat \<Rightarrow> bool" where
  "validate_summary sm n =
     (str_len (render_summary sm) \<le> n
      \<and> list_all (\<lambda>items. length items \<le> MAX_SUMMARY_ITEMS \<and> list_all item_ok items)
          [sm_constraints sm, sm_progress sm, sm_decisions sm, sm_unresolved sm, sm_references sm]
      \<and> (case sm_goal sm of None \<Rightarrow> True | Some g \<Rightarrow> item_ok g))"

section \<open>The retained tail\<close>

definition estimate_image_tokens :: "image_ref \<Rightarrow> nat" where
  "estimate_image_tokens img =
     (let units = (case (im_width img, im_height img) of
          (Some w, Some h) \<Rightarrow> min (2 ^ 64 - 1) (w * h) | _ \<Rightarrow> im_byte_len img)
      in max 256 (min (2 ^ 64 - 1) (units + 749) div 750))"

fun estimate_block_tokens :: "'x compaction_codec_scheme \<Rightarrow> content_block \<Rightarrow> nat" where
  "estimate_block_tokens codec (TextBlock t) = estimate_tokens t"
| "estimate_block_tokens codec (ImageBlock img) = estimate_image_tokens img"
| "estimate_block_tokens codec (ToolCallBlock c) =
     estimate_tokens (tc_id c) + estimate_tokens (tc_name c)
     + estimate_tokens (cc_json_text codec (tc_arguments c))"
| "estimate_block_tokens codec (ToolResultBlock r) =
     estimate_tokens (tr_call_id r)
     + estimate_tokens (case tr_status r of ResultSuccess \<Rightarrow> rstr ''success'' | ResultError \<Rightarrow> rstr ''error'')
     + estimate_tokens (tr_output r)"

definition role_name :: "role \<Rightarrow> rust_string" where
  "role_name r =
     rstr (case r of SystemRole \<Rightarrow> ''system'' | UserRole \<Rightarrow> ''user'' | AssistantRole \<Rightarrow> ''assistant''
       | ToolRole \<Rightarrow> ''tool'')"

definition estimate_message_tokens :: "'x compaction_codec_scheme \<Rightarrow> message \<Rightarrow> nat" where
  "estimate_message_tokens codec m =
     estimate_tokens (role_name (msg_role m))
     + sum_list (map (estimate_block_tokens codec) (msg_content m))"

definition tail_tokens :: "'x compaction_codec_scheme \<Rightarrow> message list \<Rightarrow> nat \<Rightarrow> nat" where
  "tail_tokens codec messages start =
     fold (\<lambda>m total. min (2 ^ 64 - 1) (total + estimate_message_tokens codec m))
       (drop start messages) 0"

definition turn_starts :: "message list \<Rightarrow> nat list" where
  "turn_starts messages =
     (let users = filter (\<lambda>i. msg_role (messages ! i) = UserRole) [0..<length messages]
      in if users = [] then [length messages - 1] else users)"

fun extend_tail :: "'x compaction_codec_scheme \<Rightarrow> message list \<Rightarrow> nat \<Rightarrow> nat \<Rightarrow> nat list \<Rightarrow> nat" where
  "extend_tail codec messages limit selected [] = selected"
| "extend_tail codec messages limit selected (start # earlier) =
     (if tail_tokens codec messages start > limit \<and> start \<noteq> selected then selected
      else extend_tail codec messages limit start earlier)"

definition select_retained_start :: "'x compaction_codec_scheme \<Rightarrow> message list \<Rightarrow> nat \<Rightarrow> nat" where
  "select_retained_start codec messages limit =
     (if length messages < 2 then 0
      else extend_tail codec messages limit (last (turn_starts messages)) (rev (turn_starts messages)))"

section \<open>Checkpoints and source proofs\<close>

datatype compaction_reason = AutomaticThreshold | ManualCompaction

record semantic_provenance =
  sp_helper_version :: nat
  sp_route_digest :: rust_string
  sp_evaluation_digest :: rust_string
  sp_summary_digest :: rust_string

definition HELPER_VERSION :: nat where "HELPER_VERSION = 3"

definition summary_digest :: "'x compaction_codec_scheme \<Rightarrow> compaction_summary \<Rightarrow> rust_string" where
  "summary_digest codec sm = ec_blake3 codec (cc_summary_json codec sm)"

definition semantic_valid_for ::
  "'x compaction_codec_scheme \<Rightarrow> semantic_provenance \<Rightarrow> compaction_summary \<Rightarrow> bool" where
  "semantic_valid_for codec p sm =
     (1 \<le> sp_helper_version p \<and> sp_helper_version p \<le> HELPER_VERSION
      \<and> list_all lower_hex_digest [sp_route_digest p, sp_evaluation_digest p, sp_summary_digest p]
      \<and> sp_summary_digest p = summary_digest codec sm)"

record compaction_checkpoint =
  kp_version :: nat
  kp_id :: uuid
  kp_operation :: uuid
  kp_previous :: "uuid option"
  kp_reason :: compaction_reason
  kp_start :: uuid
  kp_end :: uuid
  kp_count :: nat
  kp_digest :: rust_string
  kp_tail :: uuid
  kp_summary :: compaction_summary
  kp_budget :: prompt_budget_plan
  kp_semantic :: "semantic_provenance option"

text \<open>The hasher is the bytes fed to it so far; \<open>finalize\<close> digests them.\<close>

definition le64 :: "nat \<Rightarrow> u8 list" where
  "le64 n = map (\<lambda>i. of_nat (n div 256 ^ i)) [0..<8]"

definition entry_bytes :: "'x compaction_codec_scheme \<Rightarrow> uuid \<times> message \<Rightarrow> u8 list" where
  "entry_bytes codec e =
     (let i = utf8_bytes (cc_show_uuid codec (fst e)); body = cc_message_json codec (snd e)
      in le64 (length i) @ i @ le64 (length body) @ body)"

definition source_bytes :: "'x compaction_codec_scheme \<Rightarrow> (uuid \<times> message) list \<Rightarrow> u8 list" where
  "source_bytes codec es = concat (map (entry_bytes codec) es)"

definition source_digest :: "'x compaction_codec_scheme \<Rightarrow> (uuid \<times> message) list \<Rightarrow> rust_string" where
  "source_digest codec es = ec_blake3 codec (source_bytes codec es)"

record source_proof =
  pf_session :: uuid
  pf_count :: nat
  pf_start :: uuid
  pf_end :: uuid
  pf_tail :: uuid
  pf_digest :: rust_string
  pf_hasher :: "u8 list"

record prefix_accumulator =
  pa_session :: uuid
  pa_count :: nat
  pa_start :: uuid
  pa_end :: uuid
  pa_digest :: rust_string
  pa_hasher :: "u8 list"

record proof_builder =
  bd_session :: uuid
  bd_count :: nat
  bd_seen :: nat
  bd_start :: "uuid option"
  bd_end :: "uuid option"
  bd_tail :: "uuid option"
  bd_hasher :: "u8 list"

definition accumulator :: "source_proof \<Rightarrow> prefix_accumulator" where
  "accumulator p =
     \<lparr>pa_session = pf_session p, pa_count = pf_count p, pa_start = pf_start p, pa_end = pf_end p,
      pa_digest = pf_digest p, pa_hasher = pf_hasher p\<rparr>"

definition proof_matches :: "source_proof \<Rightarrow> uuid \<Rightarrow> compaction_checkpoint \<Rightarrow> bool" where
  "proof_matches p session k =
     (pf_session p = session \<and> pf_count p = kp_count k \<and> pf_start p = kp_start k
      \<and> pf_end p = kp_end k \<and> pf_tail p = kp_tail k \<and> pf_digest p = kp_digest k)"

definition accumulator_matches :: "prefix_accumulator \<Rightarrow> uuid \<Rightarrow> compaction_checkpoint \<Rightarrow> bool" where
  "accumulator_matches a session k =
     (pa_session a = session \<and> pa_count a = kp_count k \<and> pa_start a = kp_start k
      \<and> pa_end a = kp_end k \<and> pa_digest a = kp_digest k)"

datatype source_error =
  PrefixMustAdvance | SourceRangeExceeded | SourceCountOverflow | SourceIncomplete | MissingStart
| MissingEnd | MissingTail

definition new_builder :: "uuid \<Rightarrow> nat \<Rightarrow> proof_builder" where
  "new_builder session n =
     \<lparr>bd_session = session, bd_count = n, bd_seen = 0, bd_start = None, bd_end = None,
      bd_tail = None, bd_hasher = []\<rparr>"

definition builder_from_prefix :: "prefix_accumulator \<Rightarrow> nat \<Rightarrow> source_error + proof_builder" where
  "builder_from_prefix a n =
     res_bind (ensure (n > pa_count a) PrefixMustAdvance)
     (\<lambda>_. Inr \<lparr>bd_session = pa_session a, bd_count = n, bd_seen = pa_count a,
        bd_start = Some (pa_start a), bd_end = Some (pa_end a), bd_tail = None,
        bd_hasher = pa_hasher a\<rparr>)"

definition push_entry ::
  "'x compaction_codec_scheme \<Rightarrow> uuid \<times> message \<Rightarrow> proof_builder \<Rightarrow> source_error + proof_builder"
where
  "push_entry codec e b =
     res_bind (ensure (bd_count b > 0 \<and> bd_seen b \<le> bd_count b) SourceRangeExceeded)
     (\<lambda>_. let b = (if bd_seen b = bd_count b then b\<lparr>bd_tail := Some (fst e)\<rparr>
            else b\<lparr>bd_start := (case bd_start b of None \<Rightarrow> Some (fst e) | Some s \<Rightarrow> Some s),
                   bd_end := Some (fst e), bd_hasher := bd_hasher b @ entry_bytes codec e\<rparr>)
       in res_bind (ensure (bd_seen b + 1 < 2 ^ 64) SourceCountOverflow)
          (\<lambda>_. Inr (b\<lparr>bd_seen := bd_seen b + 1\<rparr>)))"

fun push_entries ::
  "'x compaction_codec_scheme \<Rightarrow> (uuid \<times> message) list \<Rightarrow> proof_builder
    \<Rightarrow> source_error + proof_builder" where
  "push_entries codec [] b = Inr b"
| "push_entries codec (e # es) b = res_bind (push_entry codec e b) (push_entries codec es)"

definition finish_proof ::
  "'x compaction_codec_scheme \<Rightarrow> proof_builder \<Rightarrow> source_error + source_proof" where
  "finish_proof codec b =
     res_bind (ensure (bd_count b > 0 \<and> bd_seen b \<ge> 1 \<and> bd_seen b - 1 = bd_count b) SourceIncomplete)
     (\<lambda>_. res_bind (ok_or (bd_start b) MissingStart)
     (\<lambda>s. res_bind (ok_or (bd_end b) MissingEnd)
     (\<lambda>e. res_bind (ok_or (bd_tail b) MissingTail)
     (\<lambda>t. Inr \<lparr>pf_session = bd_session b, pf_count = bd_count b, pf_start = s, pf_end = e,
        pf_tail = t, pf_digest = ec_blake3 codec (bd_hasher b), pf_hasher = bd_hasher b\<rparr>))))"

text \<open>How the store proves a source range: every entry up to the retained tail, then the tail.\<close>

definition prove_source ::
  "'x compaction_codec_scheme \<Rightarrow> uuid \<Rightarrow> nat \<Rightarrow> (uuid \<times> message) list \<Rightarrow> source_error + source_proof"
where
  "prove_source codec session n es =
     res_bind (push_entries codec es (new_builder session n)) (finish_proof codec)"

definition prove_further ::
  "'x compaction_codec_scheme \<Rightarrow> prefix_accumulator \<Rightarrow> nat \<Rightarrow> (uuid \<times> message) list
    \<Rightarrow> source_error + source_proof" where
  "prove_further codec a n es =
     res_bind (builder_from_prefix a n)
       (\<lambda>b. res_bind (push_entries codec es b) (finish_proof codec))"

section \<open>Lemmas on the summary\<close>

definition summary_items :: "compaction_summary \<Rightarrow> rust_string set" where
  "summary_items sm =
     set_option (sm_goal sm) \<union> set (sm_constraints sm) \<union> set (sm_progress sm)
     \<union> set (sm_decisions sm) \<union> set (sm_unresolved sm) \<union> set (sm_references sm)"

definition summary_ok :: "compaction_summary \<Rightarrow> bool" where
  "summary_ok sm = (\<forall>i \<in> summary_items sm. item_ok i)"

lemma validate_summary_iff:
  "validate_summary sm n \<longleftrightarrow> summary_ok sm \<and> str_len (render_summary sm) \<le> n
     \<and> (\<forall>f. length (field_items f sm) \<le> MAX_SUMMARY_ITEMS)"
proof -
  have fields: "(\<forall>f. P f) \<longleftrightarrow> P FProgress \<and> P FReferences \<and> P FUnresolved \<and> P FDecisions
      \<and> P FConstraints" for P by (metis summary_field.exhaust)
  show ?thesis
    by (auto simp: validate_summary_def summary_ok_def summary_items_def fields list_all_iff
        split: option.splits)
qed

lemma not_blank:
  "c \<in> set s \<Longrightarrow> \<not> is_whitespace c \<Longrightarrow> trim s \<noteq> []"
  by (auto simp: trim_eq_Nil)

lemma ellipsis_text_ok:
  assumes "trim s \<noteq> []"
  shows "item_ok (ellipsis_text s MAX_SUMMARY_ITEM_BYTES)"
proof (cases "str_len s \<le> MAX_SUMMARY_ITEM_BYTES")
  case True
  then show ?thesis using assms by (simp add: ellipsis_text_def item_ok_def)
next
  case False
  let ?f = "floor_prefix (min (MAX_SUMMARY_ITEM_BYTES - 3) (str_len s)) s"
  have cut: "ellipsis_text s MAX_SUMMARY_ITEM_BYTES = ?f @ [46, 46, 46]"
    using False by (simp add: ellipsis_text_def MAX_SUMMARY_ITEM_BYTES_def)
  have "str_len ?f \<le> MAX_SUMMARY_ITEM_BYTES - 3" by (rule order.trans [OF floor_prefix_bound]) simp
  moreover have "str_len [46, 46, 46] = 3" by (simp add: utf8_len_def)
  ultimately have "str_len (ellipsis_text s MAX_SUMMARY_ITEM_BYTES) \<le> MAX_SUMMARY_ITEM_BYTES"
    unfolding cut str_len_simps by (simp add: MAX_SUMMARY_ITEM_BYTES_def)
  moreover have "trim (ellipsis_text s MAX_SUMMARY_ITEM_BYTES) \<noteq> []"
    by (rule not_blank [of 46]) (simp_all add: cut is_whitespace_def)
  ultimately show ?thesis by (simp add: item_ok_def)
qed

lemma set_trim_matches: "set (trim_matches P s) \<subseteq> set s"
  unfolding trim_matches_def by (auto dest!: set_dropWhileD)

lemma extract_references_ok: "r \<in> set (extract_references line) \<Longrightarrow> item_ok r"
proof -
  assume "r \<in> set (extract_references line)"
  then obtain w where w: "w \<in> set (split_whitespace line)"
    and ne: "trim_matches reference_punctuation w \<noteq> []"
    and r: "r = ellipsis_text (trim_matches reference_punctuation w) MAX_SUMMARY_ITEM_BYTES"
    by (auto simp: extract_references_def btree_set_def)
  obtain c where "c \<in> set (trim_matches reference_punctuation w)"
    using ne by (meson list.set_sel(1))
  then have "trim (trim_matches reference_punctuation w) \<noteq> []"
    using not_blank split_whitespace_words [OF w] set_trim_matches by blast
  then show "item_ok r" unfolding r by (rule ellipsis_text_ok)
qed

lemma text_references_ok: "r \<in> set (text_references s) \<Longrightarrow> item_ok r"
  by (auto simp: text_references_def extract_references_ok)

lemma json_references_ok: "r \<in> set (json_references v) \<Longrightarrow> item_ok r"
  by (induction v rule: json_references.induct) (auto simp: text_references_ok)

text \<open>What the renderings of identifiers and digests have to satisfy: they are short.\<close>

definition short_names :: "'x compaction_codec_scheme \<Rightarrow> message list \<Rightarrow> bool" where
  "short_names codec ms =
     ((\<forall>i. str_len (cc_show_uuid codec i) = 36)
      \<and> (\<forall>m \<in> set ms. \<forall>a \<in> set (message_artifacts m). hex_digest (arf_hash (art_reference a))))"

lemma artifact_text_ok: "str_len t \<le> 400 \<Longrightarrow> item_ok (rstr ''artifact:'' @ t)"
proof -
  assume short: "str_len t \<le> 400"
  have "trim (rstr ''artifact:'' @ t) \<noteq> []"
    by (rule not_blank [of 97]) (simp_all add: rstr_def is_whitespace_def)
  moreover have "str_len (rstr ''artifact:'') = 9" by (simp add: rstr_def str_len_def utf8_len_def)
  ultimately show ?thesis using short by (simp add: item_ok_def MAX_SUMMARY_ITEM_BYTES_def)
qed

lemma message_references_ok:
  assumes "short_names codec ms" and "m \<in> set ms" and "r \<in> set (message_references codec m)"
  shows "item_ok r"
proof -
  obtain b where b: "b \<in> set (msg_content m)" and r: "r \<in> set (block_references codec b)"
    using assms(3) by (auto simp: message_references_def btree_set_def)
  have uuid: "str_len (cc_show_uuid codec i) = 36" for i using assms(1) by (simp add: short_names_def)
  have hash: "block_artifact b = Some a \<Longrightarrow> str_len (arf_hash (art_reference a)) = 64" for a
    using assms(1,2) b by (force simp: short_names_def message_artifacts_def hex_digest_def
        List.map_filter_def)
  have at: "str_len (rstr ''@'') = 1" by (simp add: rstr_def str_len_def utf8_len_def)
  show ?thesis
    using r uuid hash at
    by (cases b) (auto simp: text_references_ok json_references_ok artifact_mention_def
        simp del: append.simps split: option.splits intro!: artifact_text_ok)
qed

section \<open>Derivation keeps the bounds\<close>

lemma summary_ok_step:
  assumes "summary_ok sm" and "\<And>i. i \<in> summary_items sm' \<Longrightarrow> i \<in> summary_items sm \<or> item_ok i"
  shows "summary_ok sm'"
  using assms by (auto simp: summary_ok_def)

lemma set_push_unique: "set (push_unique v items) \<subseteq> insert v (set items)"
  by (auto simp: push_unique_def)

lemma set_fold_push_unique: "set (fold push_unique vs items) \<subseteq> set vs \<union> set items"
  by (induction vs arbitrary: items) (use set_push_unique in \<open>fastforce\<close>)+

lemma summary_items_update:
  "summary_items (sm\<lparr>sm_goal := Some line\<rparr>) \<subseteq> insert line (summary_items sm)"
  "summary_items (sm\<lparr>sm_constraints := push_unique line (sm_constraints sm)\<rparr>)
     \<subseteq> insert line (summary_items sm)"
  "summary_items (sm\<lparr>sm_decisions := push_unique line (sm_decisions sm)\<rparr>)
     \<subseteq> insert line (summary_items sm)"
  "summary_items (sm\<lparr>sm_unresolved := push_unique line (sm_unresolved sm)\<rparr>)
     \<subseteq> insert line (summary_items sm)"
  "summary_items (sm\<lparr>sm_progress := push_unique line (sm_progress sm)\<rparr>)
     \<subseteq> insert line (summary_items sm)"
  "summary_items (sm\<lparr>sm_references := fold push_unique refs (sm_references sm)\<rparr>)
     \<subseteq> set refs \<union> summary_items sm"
  using set_push_unique [of line] set_fold_push_unique [of refs]
  by (fastforce simp: summary_items_def)+

lemma items_if:
  "(\<And>sm. summary_items (f sm) \<subseteq> A \<union> summary_items sm) \<Longrightarrow>
     summary_items sm \<subseteq> A \<union> B \<Longrightarrow> summary_items (if b then f sm else sm) \<subseteq> A \<union> B"
  by (cases b) fastforce+

lemma observe_line_items:
  fixes full
  defines "line \<equiv> ellipsis_text full MAX_SUMMARY_ITEM_BYTES"
  shows "summary_items (observe_line r full sm)
     \<subseteq> insert line (set (extract_references line)) \<union> summary_items sm"
  unfolding observe_line_def Let_def line_def [symmetric]
  by (rule order.trans [OF summary_items_update(6)], rule Un_least, blast)
    (rule items_if, rule order.trans [OF summary_items_update(5)], blast,
     rule items_if, rule order.trans [OF summary_items_update(4)], blast,
     rule items_if, rule order.trans [OF summary_items_update(3)], blast,
     rule items_if, rule order.trans [OF summary_items_update(2)], blast,
     rule items_if, rule order.trans [OF summary_items_update(1)], blast, blast)

lemma observe_line_ok:
  assumes "summary_ok sm" and "trim full \<noteq> []"
  shows "summary_ok (observe_line r full sm)"
proof (rule summary_ok_step [OF assms(1)])
  fix i assume "i \<in> summary_items (observe_line r full sm)"
  then show "i \<in> summary_items sm \<or> item_ok i"
    using observe_line_items ellipsis_text_ok [OF assms(2)] extract_references_ok by blast
qed

lemma trim_trim: "trim s \<noteq> [] \<Longrightarrow> trim (trim s) \<noteq> []"
proof -
  assume ne: "trim s \<noteq> []"
  have "\<not> is_whitespace (last (trim s))"
    using ne hd_dropWhile [of is_whitespace "rev (dropWhile is_whitespace s)"]
    by (simp add: trim_def last_rev)
  then show ?thesis using ne by (intro not_blank [of "last (trim s)"]) simp_all
qed

lemma fold_ok:
  assumes "P x" and "\<And>y z. y \<in> set ys \<Longrightarrow> P z \<Longrightarrow> P (f y z)"
  shows "P (fold f ys x)"
  using assms by (induction ys arbitrary: x) auto

lemma observe_message_ok:
  assumes "summary_ok sm" and "short_names codec ms" and "m \<in> set ms"
  shows "summary_ok (observe_message codec m sm)"
proof -
  let ?sm = "fold (observe_line (msg_role m)) (message_lines m) sm"
  have ok: "summary_ok ?sm"
    by (rule fold_ok [of summary_ok, OF assms(1)])
      (auto simp: message_lines_def intro!: observe_line_ok trim_trim)
  show ?thesis
    unfolding observe_message_def Let_def
  proof (rule summary_ok_step [OF ok])
    fix i assume "i \<in> summary_items (?sm\<lparr>sm_references :=
        fold push_unique (message_references codec m) (sm_references ?sm)\<rparr>)"
    then have "i \<in> summary_items ?sm \<or> i \<in> set (message_references codec m)"
      using set_fold_push_unique by (fastforce simp: summary_items_def)
    then show "i \<in> summary_items ?sm \<or> item_ok i"
      using message_references_ok [OF assms(2,3)] by blast
  qed
qed

lemma longest_field_max: "length (field_items f sm) \<le> length (field_items (longest_field sm) sm)"
  by (cases f) (auto simp: longest_field_def)

lemma pop_field_items:
  "summary_items (pop_field f sm) \<subseteq> summary_items sm"
  "length (field_items g (pop_field f sm)) \<le> length (field_items g sm)"
  by (cases f; cases g; auto simp: pop_field_def summary_items_def dest: in_set_butlastD)+

lemma empty_render:
  assumes "\<And>f. field_items f sm = []" and "summary_ok sm"
  shows "str_len (render_summary sm) \<le> 1024"
proof -
  have lists: "sm_constraints sm = []" "sm_progress sm = []" "sm_decisions sm = []"
    "sm_unresolved sm = []" "sm_references sm = []"
    using assms(1) [of FProgress] assms(1) [of FReferences] assms(1) [of FUnresolved]
      assms(1) [of FDecisions] assms(1) [of FConstraints] by simp_all
  show ?thesis
  proof (cases "sm_goal sm")
    case None
    then show ?thesis
      by (simp add: render_summary_def append_section_def lists rstr_def str_len_def utf8_len_def)
  next
    case (Some g)
    then have "str_len g \<le> 512"
      using assms(2) by (simp add: summary_ok_def summary_items_def item_ok_def
          MAX_SUMMARY_ITEM_BYTES_def)
    then show ?thesis using Some
      by (simp add: render_summary_def append_section_def lists rstr_def utf8_len_def)
  qed
qed

lemma shrink_summary_valid:
  assumes "summary_ok sm" and "\<And>f. length (field_items f sm) \<le> MAX_SUMMARY_ITEMS" and "1024 \<le> n"
  shows "validate_summary (shrink_summary n sm) n"
  using assms
proof (induction n sm rule: shrink_summary.induct)
  case (1 n sm)
  let ?f = "longest_field sm"
  show ?case
  proof (cases "str_len (render_summary sm) \<le> n")
    case True
    then show ?thesis using 1 by (simp add: shrink_summary.simps [of n sm] validate_summary_iff)
  next
    case False
    then have "field_items ?f sm \<noteq> []"
      using empty_render [of sm] longest_field_max [of _ sm] 1(2,4) by fastforce
    moreover have "summary_ok (pop_field ?f sm)"
      using 1(2) pop_field_items(1) by (auto simp: summary_ok_def)
    moreover have "length (field_items g (pop_field ?f sm)) \<le> MAX_SUMMARY_ITEMS" for g
      using 1(3) pop_field_items(2) order.trans by blast
    ultimately show ?thesis
      using 1(1) [OF False] 1(4) False by (simp add: shrink_summary.simps [of n sm])
  qed
qed

lemma truncate_items_ok:
  "summary_ok sm \<Longrightarrow> summary_ok (truncate_items sm)"
  "length (field_items f (truncate_items sm)) \<le> MAX_SUMMARY_ITEMS"
  by (auto simp: summary_ok_def summary_items_def truncate_items_def dest: in_set_takeD)
    (cases f; simp add: truncate_items_def)

text \<open>Whatever messages are compacted, the summary derived from them is one the store
  accepts: its rendering fits the byte limit, every list has at most sixteen items and no item is
  blank or longer than 512 bytes, provided the limit is the smallest a budget allows and the
  summary it starts from was accepted.\<close>

theorem derived_summary_valid:
  assumes "1024 \<le> n" and "short_names codec ms"
    and "case previous of None \<Rightarrow> True | Some sm \<Rightarrow> validate_summary sm k"
  shows "validate_summary (derive_summary codec previous ms n) n"
proof -
  let ?start = "case previous of None \<Rightarrow> empty_summary | Some sm \<Rightarrow> sm"
  have "summary_ok ?start"
    using assms(3) by (auto simp: validate_summary_iff summary_ok_def summary_items_def
        empty_summary_def split: option.splits)
  then have "summary_ok (fold (observe_message codec) ms ?start)"
    by (rule fold_ok [of summary_ok]) (rule observe_message_ok [OF _ assms(2)])
  then show ?thesis
    unfolding derive_summary_def enforce_bounds_def
    by (intro shrink_summary_valid truncate_items_ok assms(1))
qed

definition sample_blake3 :: "u8 list \<Rightarrow> rust_string" where
  "sample_blake3 bytes =
     (let n = sum_list (map unat bytes) in map (\<lambda>i. 48 + n div 2 ^ i mod 2) [0..<64])"

definition sample_codec :: compaction_codec where
  "sample_codec =
     \<lparr>ec_blake3 = sample_blake3,
      ec_contract_json = (\<lambda>c. replicate (length (co_conditions c)) 1),
      ec_command_json = (\<lambda>(command, cwd). utf8_bytes command @ [0] @ utf8_bytes cwd),
      ec_evidence_json = (\<lambda>e. replicate (length (cv_artifacts e)) 2),
      cc_show_uuid = (\<lambda>i. replicate 35 48 @ [48 + i mod 10]),
      cc_json_text = (\<lambda>v. rstr ''json''),
      cc_message_json = (\<lambda>m. concat (map utf8_bytes (message_texts m))),
      cc_summary_json = (\<lambda>sm. utf8_bytes (render_summary sm))\<rparr>"

theorem derived_summary_valid_witness:
  "validate_summary
     (derive_summary sample_codec None [text_message UserRole (rstr ''fix a/b?'')] 1024) 1024
   \<and> item_ok (rstr ''fix a/b?'')"
proof -
  have "i mod 10 < 80" for i :: nat by (rule order.strict_trans [of _ 10]) simp_all
  then have "short_names sample_codec [text_message UserRole (rstr ''fix a/b?'')]"
    by (simp add: short_names_def sample_codec_def text_message_def message_artifacts_def
        List.map_filter_def str_len_def utf8_len_def sum_list_replicate)
  then show ?thesis
    using derived_summary_valid [of 1024 sample_codec "[text_message UserRole (rstr ''fix a/b?'')]"
        0 None]
    by (simp add: item_ok_def rstr_def trim_def is_whitespace_def utf8_len_def
        MAX_SUMMARY_ITEM_BYTES_def)
qed

section \<open>Proofs of a source range\<close>

lemma push_entries_append:
  "push_entries codec (es @ es') b = res_bind (push_entries codec es b) (push_entries codec es')"
  by (induction es arbitrary: b) (auto simp: res_bind_def split: sum.splits)

lemma source_bytes_append: "source_bytes codec (es @ es') = source_bytes codec es @ source_bytes codec es'"
  by (simp add: source_bytes_def)

text \<open>Inside the range every entry is hashed; the first is kept as the start, the last as the end.\<close>

lemma push_entries_inside:
  assumes "bd_seen b + length es \<le> bd_count b" and "bd_seen b + length es < 2 ^ 64"
    and "bd_tail b = None"
  shows "push_entries codec es b = Inr (b\<lparr>bd_seen := bd_seen b + length es,
     bd_start := (case bd_start b of None \<Rightarrow> (if es = [] then None else Some (fst (hd es))) | Some s \<Rightarrow> Some s),
     bd_end := (if es = [] then bd_end b else Some (fst (last es))),
     bd_hasher := bd_hasher b @ source_bytes codec es\<rparr>)"
  using assms
proof (induction es arbitrary: b)
  case Nil
  then show ?case by (cases b) (auto simp: source_bytes_def split: option.splits)
next
  case (Cons e es)
  let ?b = "b\<lparr>bd_start := (case bd_start b of None \<Rightarrow> Some (fst e) | Some s \<Rightarrow> Some s),
      bd_end := Some (fst e), bd_hasher := bd_hasher b @ entry_bytes codec e,
      bd_seen := bd_seen b + 1\<rparr>"
  have "push_entry codec e b = Inr ?b"
    using Cons.prems by (simp add: push_entry_def Let_def ensure_def)
  then show ?case
    using Cons.IH [of ?b] Cons.prems
    by (cases b) (auto simp: source_bytes_def split: option.splits)
qed

lemma new_builder_prefix:
  assumes "0 < k" and "k \<le> n" and "k < 2 ^ 64" and "length es = k"
  shows "push_entries codec es (new_builder session n) =
     Inr \<lparr>bd_session = session, bd_count = n, bd_seen = k, bd_start = Some (fst (hd es)),
       bd_end = Some (fst (last es)), bd_tail = None, bd_hasher = source_bytes codec es\<rparr>"
  using assms push_entries_inside [of "new_builder session n" es codec]
  by (cases es) (auto simp: new_builder_def)

text \<open>The proof an exact range yields.\<close>

definition exact_proof ::
  "'x compaction_codec_scheme \<Rightarrow> uuid \<Rightarrow> (uuid \<times> message) list \<Rightarrow> uuid \<Rightarrow> source_proof" where
  "exact_proof codec session es tail =
     \<lparr>pf_session = session, pf_count = length es, pf_start = fst (hd es),
      pf_end = fst (last es), pf_tail = tail, pf_digest = source_digest codec es,
      pf_hasher = source_bytes codec es\<rparr>"

lemma push_entry_bounds:
  "push_entry codec e b = Inr b' \<Longrightarrow>
     bd_seen b' = bd_seen b + 1 \<and> bd_count b' = bd_count b \<and> bd_count b > 0
     \<and> bd_seen b \<le> bd_count b \<and> bd_seen b' < 2 ^ 64"
  by (auto simp: push_entry_def Let_def ensure_def simp del: power_numeral split: if_splits)

lemma push_entries_bounds:
  "push_entries codec es b = Inr b' \<Longrightarrow>
     bd_seen b' = bd_seen b + length es \<and> bd_count b' = bd_count b \<and>
     (es \<noteq> [] \<longrightarrow> bd_seen b' < 2 ^ 64)"
proof (induction es arbitrary: b)
  case (Cons e es)
  then obtain b1 where b1: "push_entry codec e b = Inr b1" and es: "push_entries codec es b1 = Inr b'"
    by (auto simp: res_simps)
  note step = push_entry_bounds [OF b1]
  show ?case
  proof (cases "es = []")
    case True
    then have "b' = b1" using es by simp
    then show ?thesis using step True by (simp del: power_numeral)
  next
    case False
    then show ?thesis using step Cons.IH [OF es] by (simp del: power_numeral)
  qed
qed simp

lemma prove_source_eq:
  assumes "0 < n" and "n + 1 < 2 ^ 64" and "length es = n + 1"
  shows "prove_source codec session n es =
     Inr (exact_proof codec session (take n es) (fst (es ! n)))"
proof -
  have split: "es = take n es @ [es ! n]"
    using assms by (metis Suc_eq_plus1 lessI order.refl take_Suc_conv_app_nth take_all)
  have "push_entries codec es (new_builder session n) =
      res_bind (push_entries codec (take n es) (new_builder session n)) (push_entries codec [es ! n])"
    by (subst split) (rule push_entries_append)
  then show ?thesis
    using assms new_builder_prefix [of n n "take n es" codec session]
    by (simp add: prove_source_def push_entry_def ensure_def finish_proof_def exact_proof_def
        source_digest_def Let_def)
qed

lemma prove_source_Inr:
  assumes "prove_source codec session n es = Inr p"
  shows "0 < n \<and> n + 1 < 2 ^ 64 \<and> length es = n + 1"
proof -
  obtain b where b: "push_entries codec es (new_builder session n) = Inr b"
    and fin: "finish_proof codec b = Inr p"
    using assms by (auto simp: prove_source_def res_simps)
  then show ?thesis
    using push_entries_bounds [OF b] by (auto simp: finish_proof_def res_simps new_builder_def)
qed

text \<open>A source proof exists exactly for a range of the declared count followed by the retained
  tail, and then it names the first, the last and the tail entry and carries the digest of the
  entries of the range.\<close>

theorem source_proof_exact:
  "prove_source codec session n es = Inr p \<longleftrightarrow>
     0 < n \<and> n + 1 < 2 ^ 64 \<and> length es = n + 1
     \<and> p = exact_proof codec session (take n es) (fst (es ! n))"
  using prove_source_eq prove_source_Inr by (metis Inr_inject)

text \<open>C31: hashing only what was appended since the previous checkpoint gives the result, proof or
  error, of hashing the whole source again, so an incremental compaction is the full one.\<close>

theorem incremental_proof_exact:
  assumes "prove_source codec session n0 es0 = Inr p" and "n0 < n" and "take n0 es = take n0 es0"
  shows "prove_further codec (accumulator p) n (drop n0 es) = prove_source codec session n es"
proof -
  note n0 = prove_source_Inr [OF assms(1)]
  have p: "p = exact_proof codec session (take n0 es0) (fst (es0 ! n0))"
    using assms(1) n0 prove_source_eq by (metis Inr_inject)
  have len: "length (take n0 es) = n0" using assms(3) n0 by simp
  have "push_entries codec es (new_builder session n) =
      res_bind (push_entries codec (take n0 es) (new_builder session n))
        (push_entries codec (drop n0 es))"
    by (metis append_take_drop_id push_entries_append)
  then show ?thesis
    using new_builder_prefix [OF _ _ _ len, of n codec session] n0 assms(2) len
    unfolding prove_source_def prove_further_def p assms(3)
    by (simp add: exact_proof_def accumulator_def builder_from_prefix_def ensure_def)
qed

definition sample_entries :: "(uuid \<times> message) list" where
  "sample_entries =
     [(1, text_message UserRole (rstr ''a'')), (2, text_message AssistantRole (rstr ''b'')),
      (3, text_message UserRole (rstr ''c'')), (4, text_message AssistantRole (rstr ''d''))]"

theorem incremental_proof_exact_witness:
  "\<exists>p. prove_source sample_codec 9 1 (take 2 sample_entries) = Inr p \<and> pf_end p = 1
     \<and> prove_further sample_codec (accumulator p) 3 (drop 1 sample_entries)
         = Inr (exact_proof sample_codec 9 (take 3 sample_entries) 4)"
proof -
  let ?p = "exact_proof sample_codec 9 (take 1 sample_entries) 2"
  have first: "prove_source sample_codec 9 1 (take 2 sample_entries) = Inr ?p"
    by (subst prove_source_eq) (simp_all add: sample_entries_def)
  have "prove_further sample_codec (accumulator ?p) 3 (drop 1 sample_entries)
      = prove_source sample_codec 9 3 sample_entries"
    by (rule incremental_proof_exact [OF first]) (simp_all add: sample_entries_def)
  also have "\<dots> = Inr (exact_proof sample_codec 9 (take 3 sample_entries) 4)"
    by (subst prove_source_eq) (simp_all add: sample_entries_def)
  finally show ?thesis using first by (auto simp: exact_proof_def sample_entries_def)
qed

section \<open>The retained tail\<close>

definition sat_sum :: "nat list \<Rightarrow> nat \<Rightarrow> nat" where
  "sat_sum ns start = fold (\<lambda>n total. min (2 ^ 64 - 1) (total + n)) ns start"

lemma sat_sum_eq: "start \<le> 2 ^ 64 - 1 \<Longrightarrow> sat_sum ns start = min (2 ^ 64 - 1) (start + sum_list ns)"
  unfolding sat_sum_def by (induction ns arbitrary: start) (simp_all add: min_def)

lemma tail_tokens_eq:
  "tail_tokens codec messages start =
     min (2 ^ 64 - 1) (sum_list (map (estimate_message_tokens codec) (drop start messages)))"
proof -
  have "tail_tokens codec messages start =
      sat_sum (map (estimate_message_tokens codec) (drop start messages)) 0"
    by (simp add: tail_tokens_def sat_sum_def fold_map comp_def)
  then show ?thesis by (simp add: sat_sum_eq)
qed

lemma tail_tokens_antimono:
  assumes "i \<le> j"
  shows "tail_tokens codec messages j \<le> tail_tokens codec messages i"
proof -
  let ?e = "estimate_message_tokens codec"
  have "drop i messages = take (j - i) (drop i messages) @ drop j messages"
    using assms by (metis append_take_drop_id drop_drop le_add_diff_inverse2)
  then have "sum_list (map ?e (drop i messages)) =
      sum_list (map ?e (take (j - i) (drop i messages))) + sum_list (map ?e (drop j messages))"
    by (metis map_append sum_list_append)
  then show ?thesis by (simp add: tail_tokens_eq)
qed

lemma turn_starts_sorted: "sorted_wrt (<) (turn_starts messages)" "turn_starts messages \<noteq> []"
  by (auto simp: turn_starts_def sorted_wrt_filter Let_def)

lemma Min_insert_greater:
  fixes t :: nat
  assumes "finite S" and "\<exists>s \<in> S. P s" and "\<forall>s \<in> S. s < t"
  shows "Min (insert t {s \<in> S. P s}) = Min {s \<in> S. P s}"
proof -
  have fin: "finite {s \<in> S. P s}" and ne: "{s \<in> S. P s} \<noteq> {}" using assms by auto
  have "Min {s \<in> S. P s} < t" using fin ne assms(3) by (subst Min_less_iff) auto
  then show ?thesis by (simp add: Min_insert [OF fin ne])
qed

text \<open>Walking back from a start that is kept, the least start within the limit is reached.\<close>

lemma extend_tail_cases:
  assumes "sorted_wrt (>) (sel # starts)"
  shows "extend_tail codec messages limit sel starts =
     (if \<exists>t \<in> set starts. tail_tokens codec messages t \<le> limit
      then Min {t \<in> set starts. tail_tokens codec messages t \<le> limit} else sel)"
  using assms
proof (induction starts arbitrary: sel)
  case (Cons t starts)
  let ?ok = "\<lambda>t. tail_tokens codec messages t \<le> limit"
  have sorted: "sorted_wrt (>) (t # starts)" and less: "t < sel" "\<forall>s \<in> set starts. s < t"
    using Cons.prems by auto
  show ?case
  proof (cases "?ok t")
    case False
    have "\<not> ?ok s" if "s \<in> set starts" for s
      using False tail_tokens_antimono [of s t codec messages] less that
      by (meson less_imp_le order.trans)
    then show ?thesis using False less by (simp add: not_le) fastforce
  next
    case True
    have "Min {s \<in> set (t # starts). ?ok s} = Min {s \<in> set starts. ?ok s}"
      if "\<exists>s \<in> set starts. ?ok s"
    proof -
      have "{s \<in> set (t # starts). ?ok s} = insert t {s \<in> set starts. ?ok s}" using True by auto
      then show ?thesis using that less by (simp add: Min_insert_greater)
    qed
    moreover have "{s \<in> set (t # starts). ?ok s} = {t}" if "\<not> (\<exists>s \<in> set starts. ?ok s)"
      using that True by auto
    ultimately show ?thesis using True Cons.IH [OF sorted] by (auto simp: not_less)
  qed
qed simp

text \<open>The retained tail starts at a turn boundary: it is the longest suffix of whole turns whose
  estimate fits the limit, or the last turn alone when not even that fits.\<close>

theorem retained_tail_is_longest_fitting:
  assumes "2 \<le> length messages"
  shows "select_retained_start codec messages limit =
     (if \<exists>t \<in> set (turn_starts messages). tail_tokens codec messages t \<le> limit
      then Min {t \<in> set (turn_starts messages). tail_tokens codec messages t \<le> limit}
      else Max (set (turn_starts messages)))"
proof -
  let ?ts = "turn_starts messages"
  let ?ok = "\<lambda>t. tail_tokens codec messages t \<le> limit"
  obtain front t where ts: "?ts = front @ [t]" using turn_starts_sorted(2) by (metis rev_exhaust)
  have less: "\<forall>s \<in> set front. s < t" and sorted: "sorted_wrt (>) (t # rev front)"
    using turn_starts_sorted(1) [of messages] by (auto simp: ts sorted_wrt_append sorted_wrt_rev)
  have max: "Max (set ?ts) = t" using less by (intro Max_eqI) (auto simp: ts)
  have start: "select_retained_start codec messages limit =
      extend_tail codec messages limit t (rev front)"
    using assms by (simp add: select_retained_start_def ts)
  show ?thesis
  proof (cases "\<exists>s \<in> set front. ?ok s")
    case True
    then have "?ok t" using tail_tokens_antimono less by (meson less_imp_le order.trans)
    then have "{s \<in> set ?ts. ?ok s} = insert t {s \<in> set front. ?ok s}" by (auto simp: ts)
    then have "Min {s \<in> set ?ts. ?ok s} = Min {s \<in> set front. ?ok s}"
      using True less by (simp add: Min_insert_greater)
    then show ?thesis using True by (simp add: start extend_tail_cases [OF sorted]) (auto simp: ts)
  next
    case False
    then have "{s \<in> set ?ts. ?ok s} = (if ?ok t then {t} else {})" by (auto simp: ts)
    then show ?thesis using False by (simp add: start extend_tail_cases [OF sorted] max) (auto simp: ts)
  qed
qed

theorem retained_tail_is_longest_fitting_witness:
  "select_retained_start sample_codec (map snd sample_entries) 0 = 2"
proof -
  have starts: "turn_starts (map snd sample_entries) = [0, 2]"
    by (simp add: turn_starts_def sample_entries_def text_message_def upt_rec)
  have "\<not> tail_tokens sample_codec (map snd sample_entries) t \<le> 0" if "t \<in> {0, 2}" for t
    using that by (auto simp: tail_tokens_eq sample_entries_def text_message_def
        estimate_message_tokens_def role_name_def rstr_def estimate_tokens_def token_units_def
        CHARS_PER_ESTIMATED_TOKEN_def)
  then have none: "\<not> (\<exists>t \<in> {0, 2}. tail_tokens sample_codec (map snd sample_entries) t \<le> 0)"
    by blast
  have long: "2 \<le> length (map snd sample_entries)" by (simp add: sample_entries_def)
  have "select_retained_start sample_codec (map snd sample_entries) 0 = Max (set [0, 2])"
    using retained_tail_is_longest_fitting [OF long, of sample_codec 0] none
    unfolding starts by (simp del: map_map)
  then show ?thesis by simp
qed

end
