(* ===== verification/Vision_Receipt.thy ===== *)
theory Vision_Receipt
  imports Compaction
begin

text \<open>
  Vision receipts, \<open>src/src/vision/receipt.rs\<close>: the evidence of one attempted image turn, its
  validation and the single revision an attempt may make. The bounds come from
  \<open>src/src/vision.rs\<close>, \<open>src/src/resource.rs\<close> and \<open>src/src/artifact.rs\<close>; parsing an identifier is
  the \<open>uuid\<close> crate's.
\<close>

definition MAX_IMAGES_PER_TURN :: nat where "MAX_IMAGES_PER_TURN = 8"
definition MAX_IMAGE_BYTES_PER_TURN :: nat where "MAX_IMAGE_BYTES_PER_TURN = 20 * 1024 * 1024"
definition MAX_ARTIFACT_BYTES :: nat where "MAX_ARTIFACT_BYTES = 4 * 1024 * 1024"

datatype vision_status =
  VsDispatching | VsNativeSubmitted | VsAnalysisReady | VsDenied | VsCancelled | VsControllerLost
| VsUnsupported | VsUnavailable | VsFailed | VsUnknown

record vision_source =
  vs_artifact :: rust_string
  vs_digest :: rust_string
  vs_media_type :: rust_string
  vs_byte_len :: nat

record vision_destination =
  vd_route :: "rust_string option"
  vd_connection :: rust_string
  vd_model :: rust_string
  vd_adapter :: rust_string
  vd_recipient :: rust_string
  vd_recipient_digest :: rust_string

record vision_usage =
  vu_input_tokens :: "nat option"
  vu_output_tokens :: "nat option"
  vu_cost_microusd :: "nat option"

definition no_vision_usage :: vision_usage where
  "no_vision_usage = \<lparr>vu_input_tokens = None, vu_output_tokens = None, vu_cost_microusd = None\<rparr>"

record vision_receipt =
  vr_version :: nat
  vr_conversation :: rust_string
  vr_operation :: rust_string
  vr_revision :: nat
  vr_plan_digest :: rust_string
  vr_prompt_digest :: rust_string
  vr_destination :: vision_destination
  vr_sources :: "vision_source list"
  vr_status :: vision_status
  vr_usage :: vision_usage
  vr_derivative :: "vision_source option"
  vr_untrusted :: bool

record vision_codec = compaction_codec +
  vc_parse_uuid :: "rust_string \<Rightarrow> uuid option"

definition receipt_operation :: "'x vision_codec_scheme \<Rightarrow> vision_receipt \<Rightarrow> uuid option" where
  "receipt_operation codec r = vc_parse_uuid codec (vr_operation r)"

definition text_plain :: rust_string where "text_plain = rstr ''text/plain''"

definition valid_source :: "'x vision_codec_scheme \<Rightarrow> vision_source \<Rightarrow> bool" where
  "valid_source codec s =
     (vc_parse_uuid codec (vs_artifact s) \<noteq> None \<and> hex_digest (vs_digest s)
      \<and> vs_byte_len s \<le> MAX_ARTIFACT_BYTES
      \<and> vs_media_type s \<in> {rstr ''image/png'', rstr ''image/jpeg'', rstr ''image/gif'', text_plain})"

definition label_ok :: "rust_string \<Rightarrow> bool" where
  "label_ok t = (t \<noteq> [] \<and> str_len t \<le> 256 \<and> \<not> list_ex is_control t)"

definition status_consistent :: "vision_receipt \<Rightarrow> bool" where
  "status_consistent r =
     (case vr_status r of
        VsAnalysisReady \<Rightarrow>
          vr_revision r = 2 \<and> vd_route (vr_destination r) \<noteq> None \<and> vr_derivative r \<noteq> None
      | VsNativeSubmitted \<Rightarrow>
          vr_revision r = 2 \<and> vd_route (vr_destination r) = None \<and> vr_derivative r = None
          \<and> vr_usage r = no_vision_usage
      | VsDispatching \<Rightarrow>
          vr_revision r = 1 \<and> vr_derivative r = None \<and> vr_usage r = no_vision_usage
      | VsUnknown \<Rightarrow> False
      | _ \<Rightarrow> vr_derivative r = None \<and> vr_usage r = no_vision_usage)"

text \<open>Eight sources of at most 4 MiB each: the sum of their lengths cannot overflow.\<close>

definition receipt_valid_for :: "'x vision_codec_scheme \<Rightarrow> uuid \<Rightarrow> vision_receipt \<Rightarrow> bool" where
  "receipt_valid_for codec session r =
     (vr_version r = 1
      \<and> vr_conversation r = cc_show_uuid codec session
      \<and> receipt_operation codec r \<noteq> None
      \<and> 1 \<le> vr_revision r \<and> vr_revision r \<le> 2
      \<and> hex_digest (vr_plan_digest r) \<and> hex_digest (vr_prompt_digest r)
      \<and> 1 \<le> length (vr_sources r) \<and> length (vr_sources r) \<le> MAX_IMAGES_PER_TURN
      \<and> list_all (\<lambda>s. valid_source codec s \<and> vs_media_type s \<noteq> text_plain) (vr_sources r)
      \<and> distinct (map vs_artifact (vr_sources r))
      \<and> sum_list (map vs_byte_len (vr_sources r)) \<le> MAX_IMAGE_BYTES_PER_TURN
      \<and> (case vr_derivative r of None \<Rightarrow> True
         | Some s \<Rightarrow> valid_source codec s \<and> vs_media_type s = text_plain
             \<and> vs_byte_len s \<le> 64 * 1024)
      \<and> list_all label_ok [vd_connection (vr_destination r), vd_model (vr_destination r),
          vd_adapter (vr_destination r)]
      \<and> (case vd_route (vr_destination r) of None \<Rightarrow> True | Some route \<Rightarrow> label_ok route)
      \<and> str_len (vd_recipient (vr_destination r)) \<le> 2048
      \<and> \<not> list_ex is_control (vd_recipient (vr_destination r))
      \<and> hex_digest (vd_recipient_digest (vr_destination r))
      \<and> vr_untrusted r
      \<and> status_consistent r)"

definition receipt_transition ::
  "'x vision_codec_scheme \<Rightarrow> vision_receipt option \<Rightarrow> vision_receipt \<Rightarrow> uuid \<Rightarrow> bool" where
  "receipt_transition codec previous r session =
     (receipt_valid_for codec session r
      \<and> (case previous of
           None \<Rightarrow> vr_revision r = 1 \<and> vr_status r \<in> {VsDispatching, VsDenied, VsCancelled}
         | Some p \<Rightarrow>
             receipt_valid_for codec session p \<and> vr_revision p = 1 \<and> vr_status p = VsDispatching
             \<and> vr_revision r = 2 \<and> vr_status r \<noteq> VsDispatching
             \<and> r\<lparr>vr_revision := vr_revision p, vr_status := vr_status p, vr_usage := vr_usage p,
                 vr_derivative := vr_derivative p\<rparr> = p))"

section \<open>Histories of an attempt\<close>

text \<open>The receipts the store keeps for one attempt, oldest first.\<close>

inductive receipt_history ::
  "'x vision_codec_scheme \<Rightarrow> uuid \<Rightarrow> vision_receipt list \<Rightarrow> bool"
  for codec session where
  opened: "receipt_transition codec None r session \<Longrightarrow> receipt_history codec session [r]"
| revised: "receipt_history codec session (rs @ [p]) \<Longrightarrow> receipt_transition codec (Some p) r session
    \<Longrightarrow> receipt_history codec session (rs @ [p, r])"

lemma receipt_history_shape:
  assumes "receipt_history codec session rs"
  shows "(\<exists>r. rs = [r] \<and> vr_revision r = 1) \<or> (\<exists>p r. rs = [p, r] \<and> vr_revision p = 1
     \<and> vr_revision r = 2 \<and> receipt_transition codec (Some p) r session)"
  using assms
proof (induction rule: receipt_history.induct)
  case (opened r)
  then show ?case by (simp add: receipt_transition_def)
next
  case (revised rs p r)
  then have "vr_revision p = 1" by (simp add: receipt_transition_def)
  then have "rs = []" using revised.IH by (auto simp: append_eq_Cons_conv)
  moreover have "vr_revision r = 2" using revised.hyps(2) by (simp add: receipt_transition_def)
  ultimately show ?case using revised.hyps(2) \<open>vr_revision p = 1\<close> by simp
qed

text \<open>An image attempt leaves at most two receipts, the second of which says what became of the
  first: same operation, plan, prompt, destination and ordered sources, never an instruction. An
  analysis is only ready for a routed destination and carries its derivative.\<close>

theorem vision_attempt_two_receipts:
  assumes "receipt_history codec session rs"
  shows "length rs \<le> 2
    \<and> (\<forall>r \<in> set rs. vr_untrusted r \<and> vr_operation r = vr_operation (hd rs)
         \<and> vr_plan_digest r = vr_plan_digest (hd rs) \<and> vr_sources r = vr_sources (hd rs)
         \<and> vr_destination r = vr_destination (hd rs)
         \<and> (vr_status r = VsAnalysisReady \<longrightarrow>
              vd_route (vr_destination r) \<noteq> None \<and> vr_derivative r \<noteq> None))"
proof -
  have sound: "vr_untrusted r \<and> (vr_status r = VsAnalysisReady \<longrightarrow>
      vd_route (vr_destination r) \<noteq> None \<and> vr_derivative r \<noteq> None)"
    if "receipt_transition codec q r session" for q r
    using that by (auto simp: receipt_transition_def receipt_valid_for_def status_consistent_def)
  have same: "vr_operation r = vr_operation p \<and> vr_plan_digest r = vr_plan_digest p
      \<and> vr_sources r = vr_sources p \<and> vr_destination r = vr_destination p"
    if "receipt_transition codec (Some p) r session" for p r
  proof -
    have "r\<lparr>vr_revision := vr_revision p, vr_status := vr_status p, vr_usage := vr_usage p,
        vr_derivative := vr_derivative p\<rparr> = p"
      using that unfolding receipt_transition_def option.case by blast
    from this [symmetric] show ?thesis by (cases r, cases p) simp
  qed
  show ?thesis using assms
  proof (cases rule: receipt_history.cases)
    case (opened r)
    then show ?thesis using sound by auto
  next
    case (revised qs p r)
    then have "qs = []" using receipt_history_shape [OF assms] by (auto simp: append_eq_Cons_conv)
    then have "receipt_transition codec None p session"
      using revised(2) by (auto elim: receipt_history.cases simp: append_eq_Cons_conv)
    from sound [OF this] sound [OF revised(3)] same [OF revised(3)] show ?thesis
      using \<open>qs = []\<close> revised(1) by auto
  qed
qed

definition sample_vision_codec :: vision_codec where
  "sample_vision_codec =
     compaction_codec.extend sample_codec
       (vision_codec.fields (\<lambda>s. if str_len s = 36 then Some (last s - 48) else None))"

definition sample_receipt :: vision_receipt where
  "sample_receipt =
     \<lparr>vr_version = 1, vr_conversation = replicate 35 48 @ [55], vr_operation = replicate 35 48 @ [53],
      vr_revision = 1, vr_plan_digest = replicate 64 48, vr_prompt_digest = replicate 64 48,
      vr_destination = \<lparr>vd_route = Some (rstr ''eyes''), vd_connection = rstr ''c'',
        vd_model = rstr ''m'', vd_adapter = rstr ''a'', vd_recipient = [],
        vd_recipient_digest = replicate 64 48\<rparr>,
      vr_sources = [\<lparr>vs_artifact = replicate 35 48 @ [49], vs_digest = replicate 64 48,
        vs_media_type = rstr ''image/png'', vs_byte_len = 5\<rparr>],
      vr_status = VsDispatching, vr_usage = no_vision_usage, vr_derivative = None,
      vr_untrusted = True\<rparr>"

definition sample_analysis :: vision_receipt where
  "sample_analysis =
     sample_receipt\<lparr>vr_revision := 2, vr_status := VsAnalysisReady, vr_derivative :=
       Some \<lparr>vs_artifact = replicate 35 48 @ [50], vs_digest = replicate 64 48,
         vs_media_type = text_plain, vs_byte_len = 9\<rparr>\<rparr>"

lemma str_len_replicate: "str_len (replicate n c) = n * utf8_len c"
  by (induction n) simp_all

lemma all_replicate: "list_all P (replicate n c) \<longleftrightarrow> n = 0 \<or> P c"
  by (auto simp: list_all_iff)

lemma sample_receipts_valid:
  "receipt_transition sample_vision_codec None sample_receipt 7"
  "receipt_transition sample_vision_codec (Some sample_receipt) sample_analysis 7"
  by (simp_all add: receipt_transition_def receipt_valid_for_def sample_receipt_def
      sample_analysis_def sample_vision_codec_def sample_codec_def compaction_codec.defs
      vision_codec.defs receipt_operation_def valid_source_def hex_digest_def str_len_replicate
      utf8_len_def is_ascii_hexdigit_def is_ascii_digit_def all_replicate text_plain_def rstr_def
      MAX_IMAGES_PER_TURN_def MAX_IMAGE_BYTES_PER_TURN_def MAX_ARTIFACT_BYTES_def label_ok_def
      is_control_def status_consistent_def)

theorem vision_attempt_two_receipts_witness:
  "receipt_history sample_vision_codec 7 [sample_receipt, sample_analysis]
   \<and> vr_status sample_analysis = VsAnalysisReady
   \<and> vr_sources sample_analysis = vr_sources sample_receipt"
proof -
  have "receipt_history sample_vision_codec 7 [sample_receipt, sample_analysis]"
    using receipt_history.revised [of sample_vision_codec 7 "[]" sample_receipt sample_analysis]
      receipt_history.opened [OF sample_receipts_valid(1)] sample_receipts_valid(2) by simp
  moreover from vision_attempt_two_receipts [OF this]
  have "vr_sources sample_analysis = vr_sources sample_receipt" by simp
  ultimately show ?thesis by (simp add: sample_analysis_def)
qed

end
