(* ===== verification/Child_Records.thy ===== *)
theory Child_Records
  imports Completion_Evidence Budget_Ledger
begin

text \<open>
  Durable records of child agents, \<open>src/src/orchestration/types.rs\<close>: the attribution and the
  admission of a child, its lifecycle, the terminal report with its bounded error text, and the
  validation of a request to spawn one.
\<close>

section \<open>Identity and lifecycle\<close>

datatype execution_owner = OwnerNative | OwnerCodex

record child_attribution =
  ca_agent :: uuid
  ca_parent_agent :: uuid
  ca_operation :: uuid
  ca_parent_operation :: uuid
  ca_thread :: uuid
  ca_route :: rust_string
  ca_profile :: rust_string
  ca_owner :: execution_owner
  ca_connection :: rust_string
  ca_model :: rust_string

datatype child_lifecycle =
  ChildAdmittedState | ChildQueued | ChildRunning | ChildSuspended | ChildCompleted | ChildFailed
| ChildCancelled | ChildInterrupted

definition lifecycle_is_terminal :: "child_lifecycle \<Rightarrow> bool" where
  "lifecycle_is_terminal l =
     (l \<in> {ChildCompleted, ChildFailed, ChildCancelled, ChildInterrupted})"

datatype child_terminal_status = EndCompleted | EndFailed | EndCancelled | EndInterrupted

fun terminal_lifecycle :: "child_terminal_status \<Rightarrow> child_lifecycle" where
  "terminal_lifecycle EndCompleted = ChildCompleted"
| "terminal_lifecycle EndFailed = ChildFailed"
| "terminal_lifecycle EndCancelled = ChildCancelled"
| "terminal_lifecycle EndInterrupted = ChildInterrupted"

datatype child_usage =
  UsageUnknown
| UsageMeasured "nat option" "nat option" "nat option" nat "nat option"
| UsageEstimated "nat option" "nat option" "nat option" "nat option" "nat option"

datatype child_result_schema = SchemaSummary | SchemaJson

section \<open>Reports\<close>

definition CHILD_REPORT_VERSION :: nat where "CHILD_REPORT_VERSION = 1"
definition MAX_CHILD_TASK_PREVIEW_BYTES :: nat where "MAX_CHILD_TASK_PREVIEW_BYTES = 512"

datatype child_report_reference = InlineReport nat | ArtifactReport artifact_ref nat nat

record child_report =
  re_evidence :: "completion_evidence option"
  re_version :: nat
  re_attribution :: child_attribution
  re_status :: child_terminal_status
  re_schema :: child_result_schema
  re_output :: "rust_string option"
  re_error :: "rust_string option"
  re_usage :: child_usage
  re_reference :: child_report_reference

definition completed_with_reference ::
  "child_attribution \<Rightarrow> child_result_schema \<Rightarrow> rust_string \<Rightarrow> child_usage
    \<Rightarrow> child_report_reference \<Rightarrow> child_report" where
  "completed_with_reference a schema output usage reference =
     \<lparr>re_evidence = None, re_version = CHILD_REPORT_VERSION, re_attribution = a,
      re_status = EndCompleted, re_schema = schema, re_output = Some output, re_error = None,
      re_usage = usage, re_reference = reference\<rparr>"

definition terminal_error ::
  "child_attribution \<Rightarrow> child_terminal_status \<Rightarrow> child_result_schema \<Rightarrow> rust_string \<Rightarrow> nat
    \<Rightarrow> child_report" where
  "terminal_error a status schema reason n =
     (let error = truncate_utf8 reason n in
      \<lparr>re_evidence = None, re_version = CHILD_REPORT_VERSION, re_attribution = a,
       re_status = status, re_schema = schema, re_output = None, re_error = Some error,
       re_usage = UsageUnknown, re_reference = InlineReport (str_len error)\<rparr>)"

definition failed_with_schema where
  "failed_with_schema a schema reason n = terminal_error a EndFailed schema reason n"

definition cancelled_with_schema where
  "cancelled_with_schema a schema reason n = terminal_error a EndCancelled schema reason n"

definition interrupted_with_schema where
  "interrupted_with_schema a schema reason n = terminal_error a EndInterrupted schema reason n"

text \<open>A completion whose evidence does not support it becomes a failure that keeps its output; the
  text of the verdict is rendered by \<open>CompletionEvidence::summary\<close>, here an argument.\<close>

definition apply_completion_evidence ::
  "rust_string \<Rightarrow> completion_evidence \<Rightarrow> nat \<Rightarrow> child_report \<Rightarrow> child_report" where
  "apply_completion_evidence shown evidence n report =
     (let report =
        (if re_status report = EndCompleted \<and> \<not> evidence_supported evidence
         then report\<lparr>re_status := EndFailed, re_error := Some (truncate_utf8 shown n)\<rparr>
         else report)
      in report\<lparr>re_evidence := Some evidence\<rparr>)"

definition completion_supported :: "child_report \<Rightarrow> bool" where
  "completion_supported report =
     (re_status report = EndCompleted
      \<and> (case re_evidence report of None \<Rightarrow> True | Some e \<Rightarrow> evidence_supported e))"

section \<open>Admissions and handles\<close>

datatype permission_mode = ModeDeny | ModeAsk | ModeAllow

record plan_child_attribution =
  pc_plan :: uuid
  pc_step :: rust_string
  pc_output_index :: nat

record child_admission =
  cm_completion :: completion_contract
  cm_attribution :: child_attribution
  cm_plan :: "plan_child_attribution option"
  cm_task_preview :: rust_string
  cm_task_hash :: rust_string
  cm_result_schema :: child_result_schema
  cm_capabilities :: "rust_string list"
  cm_permission_mode :: permission_mode
  cm_max_tool_rounds :: nat
  cm_limits :: orchestration_limits
  cm_hard_token_limit :: "nat option"
  cm_hard_spend :: "nat option"

record agent_handle =
  hs_admission :: child_admission
  hs_lifecycle :: child_lifecycle
  hs_usage :: child_usage
  hs_report :: "child_report_reference option"

definition admitted_handle :: "child_admission \<Rightarrow> agent_handle" where
  "admitted_handle a =
     \<lparr>hs_admission = a, hs_lifecycle = ChildAdmittedState, hs_usage = UsageUnknown, hs_report = None\<rparr>"

definition apply_lifecycle :: "child_lifecycle \<Rightarrow> agent_handle \<Rightarrow> agent_handle" where
  "apply_lifecycle l h = h\<lparr>hs_lifecycle := l\<rparr>"

definition apply_report :: "child_report \<Rightarrow> agent_handle \<Rightarrow> agent_handle" where
  "apply_report report h =
     h\<lparr>hs_lifecycle := terminal_lifecycle (re_status report), hs_usage := re_usage report,
       hs_report := Some (re_reference report)\<rparr>"

section \<open>Spawn requests\<close>

definition MAX_CHILD_TASK_BYTES :: nat where "MAX_CHILD_TASK_BYTES = 256 * 1024"
definition MAX_CHILD_CONTEXT_PREVIEWS :: nat where "MAX_CHILD_CONTEXT_PREVIEWS = 8"
definition MAX_CHILD_CONTEXT_PREVIEW_BYTES :: nat where
  "MAX_CHILD_CONTEXT_PREVIEW_BYTES = 16 * 1024"
definition MAX_CHILD_CONTEXT_HANDOFF_BYTES :: nat where
  "MAX_CHILD_CONTEXT_HANDOFF_BYTES = 64 * 1024"
definition MAX_CHILD_ARTIFACT_REFS :: nat where "MAX_CHILD_ARTIFACT_REFS = 16"

record child_restrictions =
  cs_completion :: completion_contract
  cs_permission_mode :: "permission_mode option"
  cs_max_tool_rounds :: "nat option"
  cs_deadline_seconds :: "nat option"
  cs_max_context_tokens :: "nat option"
  cs_max_report_bytes :: "nat option"
  cs_max_artifact_bytes :: "nat option"
  cs_hard_token_limit :: "nat option"
  cs_hard_spend :: "nat option"

record child_context_preview =
  pv_label :: rust_string
  pv_content :: rust_string

record child_context_handoff =
  hf_previews :: "child_context_preview list"
  hf_artifacts :: "artifact_ref list"

record spawn_request =
  sw_route :: "rust_string option"
  sw_task :: rust_string
  sw_result_schema :: child_result_schema
  sw_restrictions :: child_restrictions
  sw_handoff :: child_context_handoff

datatype spawn_error =
  SpawnConditions | TaskBlank | TaskTooLarge | RouteBlank | TooManyPreviews | TooManyArtifacts
| PreviewLabel | PreviewBlank | PreviewTooLarge | HandoffTooLarge | DuplicatePreviewLabel
| DuplicateArtifactReference | ZeroRestriction

fun check_previews ::
  "nat \<Rightarrow> rust_string set \<Rightarrow> child_context_preview list \<Rightarrow> spawn_error + unit" where
  "check_previews bytes labels [] = Inr ()"
| "check_previews bytes labels (p # ps) =
     res_bind (ensure (\<not> (trim (pv_label p) = [] \<or> str_len (pv_label p) > 128)) PreviewLabel)
     (\<lambda>_. res_bind (ensure (trim (pv_content p) \<noteq> []) PreviewBlank)
     (\<lambda>_. res_bind (ensure (\<not> str_len (pv_content p) > MAX_CHILD_CONTEXT_PREVIEW_BYTES) PreviewTooLarge)
     (\<lambda>_. res_bind (ensure (bytes + str_len (pv_content p) < 2 ^ 64) HandoffTooLarge)
     (\<lambda>_. res_bind (ensure (\<not> bytes + str_len (pv_content p) > MAX_CHILD_CONTEXT_HANDOFF_BYTES)
         HandoffTooLarge)
     (\<lambda>_. res_bind (ensure (trim (pv_label p) \<notin> labels) DuplicatePreviewLabel)
     (\<lambda>_. check_previews (bytes + str_len (pv_content p)) (insert (trim (pv_label p)) labels) ps))))))"

definition validate_spawn_request ::
  "'x evidence_codec_scheme \<Rightarrow> spawn_request \<Rightarrow> spawn_error + unit" where
  "validate_spawn_request codec r =
     res_bind (ensure (is_ok (validate_contract codec (cs_completion (sw_restrictions r)))) SpawnConditions)
     (\<lambda>_. res_bind (ensure (trim (sw_task r) \<noteq> []) TaskBlank)
     (\<lambda>_. res_bind (ensure (\<not> str_len (sw_task r) > MAX_CHILD_TASK_BYTES) TaskTooLarge)
     (\<lambda>_. res_bind (ensure (case sw_route r of None \<Rightarrow> True | Some route \<Rightarrow> trim route \<noteq> []) RouteBlank)
     (\<lambda>_. res_bind (ensure (\<not> length (hf_previews (sw_handoff r)) > MAX_CHILD_CONTEXT_PREVIEWS) TooManyPreviews)
     (\<lambda>_. res_bind (ensure (\<not> length (hf_artifacts (sw_handoff r)) > MAX_CHILD_ARTIFACT_REFS) TooManyArtifacts)
     (\<lambda>_. res_bind (check_previews 0 {} (hf_previews (sw_handoff r)))
     (\<lambda>_. res_bind (ensure (distinct (hf_artifacts (sw_handoff r))) DuplicateArtifactReference)
     (\<lambda>_. ensure (let s = sw_restrictions r in
           Some 0 \<notin> {cs_max_tool_rounds s, cs_deadline_seconds s, cs_max_context_tokens s,
             cs_max_report_bytes s, cs_max_artifact_bytes s, cs_hard_token_limit s,
             cs_hard_spend s}) ZeroRestriction))))))))"

end
