(* ===== verification/Session_State.thy ===== *)
theory Session_State
  imports Vision_Receipt Child_Records "HOL-Library.Product_Lexorder"
begin

text \<open>
  The durable Conversation, \<open>src/src/session/record.rs\<close> and the state types of
  \<open>src/src/session/reduce.rs\<close>: the records of the journal, the state they reduce to, and the
  errors of reduction; with the execution configuration of \<open>src/src/profile/execution.rs\<close> and the
  walk along the conversation from its head.
\<close>

section \<open>Execution configuration\<close>

datatype profile_scope = GlobalScope | ProjectScope uuid

datatype profile_provenance =
  CoreDefault | UserPolicy | GlobalProfile rust_string | ProjectProfile uuid rust_string
| LocalBinding rust_string

record 'a resolved_field =
  rv_value :: 'a
  rv_provenance :: profile_provenance

datatype profile_use = PrimaryUse | ChildUse

record mcp_primitive_selection =
  mc_tools :: "rust_string list"
  mc_resources :: "rust_string list"
  mc_resource_templates :: "rust_string list"
  mc_prompts :: "rust_string list"

record resolved_profile =
  ro_profile_id :: uuid
  ro_name :: rust_string
  ro_scope :: profile_scope
  ro_applies_to :: "profile_use list resolved_field"
  ro_connection :: "rust_string resolved_field"
  ro_model :: "rust_string resolved_field"
  ro_reasoning_effort :: "rust_string option resolved_field"
  ro_reasoning_summary :: "rust_string option resolved_field"
  ro_identity :: "rust_string option resolved_field"
  ro_capabilities :: "rust_string list option resolved_field"
  ro_permission_mode :: "permission_mode resolved_field"
  ro_max_tool_rounds :: "nat resolved_field"
  ro_orchestration :: "orchestration_limits resolved_field"
  ro_skills :: "rust_string list resolved_field"
  ro_plugins :: "rust_string list resolved_field"
  ro_plugin_revisions :: "(rust_string, rust_string) btree"
  ro_mcp_servers :: "rust_string list resolved_field"
  ro_mcp_allowlists :: "(rust_string, mcp_primitive_selection) btree resolved_field"
  ro_external_agents :: "rust_string list resolved_field"
  ro_service_routes :: "rust_string list resolved_field"
  ro_egress :: "data_class list resolved_field"
  ro_readiness :: "rust_string list"

definition profile_is_ready :: "resolved_profile \<Rightarrow> bool" where
  "profile_is_ready p = (ro_readiness p = [])"

record execution_configuration =
  xc_version :: nat
  xc_profile :: resolved_profile
  xc_inputs_digest :: rust_string

definition validate_configuration :: "execution_configuration \<Rightarrow> bool" where
  "validate_configuration c =
     (xc_version c = 1 \<and> hex_digest (xc_inputs_digest c) \<and> profile_is_ready (xc_profile c))"

section \<open>Records\<close>

record conversation_entry =
  et_id :: uuid
  et_parent :: "uuid option"
  et_agent :: uuid
  et_message :: message

record native_branch_lineage =
  ln_source_session :: uuid
  ln_source_entry :: uuid
  ln_shared_entry_count :: nat

record orchestration_plan_start =
  ps_plan :: uuid
  ps_operation :: uuid
  ps_fingerprint :: rust_string
  ps_step_ids :: "rust_string list"

datatype session_record =
  ExecutionConfigured execution_configuration
| OperationConfigurationBound uuid rust_string
| VisionReceiptRecorded vision_receipt
| SessionCreated uuid path
| ConversationBranched native_branch_lineage
| ConversationEntryAppended conversation_entry
| ThreadHeadMoved uuid "uuid option"
| OperationStateChanged uuid operation_state
| PermissionAudited audit_fact
| ArtifactRegistered artifact_record
| ContextRegistered context_record
| ContextViewRegistered context_view
| NamedContextSet rust_string uuid nat
| OperationAccepted uuid uuid uuid
| AdapterOperationAccepted uuid uuid uuid desktop_command_key
| AdapterOperationFinished uuid operation_outcome "command_result_ref option"
| CompletionEvidenceRecorded completion_evidence
| FiniteOperationAccepted uuid uuid uuid completion_evidence
| StepStarted uuid uuid uuid
| InvocationIntentAppended invocation_intent
| InvocationResultAppended invocation_result
| OperationSuspended uuid suspension_reason
| RoundBudgetDecisionAppended round_budget_decision
| OperationFinished uuid operation_outcome
| RecoveryDecisionAppended uuid uuid recovery_decision
| NamedValueSet named_value
| OrchestrationPlanStarted orchestration_plan_start
| ChildAdmitted agent_handle
| ChildrenBatchAdmitted "agent_handle list"
| ChildLifecycleChanged uuid child_lifecycle
| ChildReportCommitted child_report
| ConversationCompacted compaction_checkpoint

record record_envelope =
  rn_version :: nat
  rn_record_id :: uuid
  rn_session :: uuid
  rn_record :: session_record

definition SESSION_RECORD_VERSION :: nat where "SESSION_RECORD_VERSION = 1"

definition new_envelope :: "uuid \<Rightarrow> uuid \<Rightarrow> session_record \<Rightarrow> record_envelope" where
  "new_envelope fresh session r =
     \<lparr>rn_version = SESSION_RECORD_VERSION, rn_record_id = fresh, rn_session = session, rn_record = r\<rparr>"

section \<open>The restored state\<close>

record restored_operation =
  op_configuration_digest :: "rust_string option"
  op_id :: uuid
  op_thread :: uuid
  op_input :: uuid
  op_step_order :: "uuid list"
  op_steps :: "(uuid, uuid) btree"
  op_invocation_order :: "uuid list"
  op_intents :: "(uuid, invocation_intent) btree"
  op_results :: "(uuid, invocation_result) btree"
  op_recovery_decisions :: "(uuid \<times> recovery_decision) list"
  op_suspensions :: "suspension_reason list"
  op_round_budget_decisions :: "round_budget_decision list"
  op_finished :: "operation_outcome option"
  op_adapter :: "desktop_command_key option"
  op_adapter_result :: "command_result_ref option"

record restored_child =
  kc_handle :: agent_handle
  kc_report :: "child_report option"

record restored_session =
  ss_configuration :: "execution_configuration option"
  ss_id :: uuid
  ss_thread :: uuid
  ss_workspace :: path
  ss_branch :: "native_branch_lineage option"
  ss_head :: "uuid option"
  ss_entries :: "(uuid, conversation_entry) btree"
  ss_operations :: "(uuid, operation_state) btree"
  ss_audits :: "audit_fact list"
  ss_artifacts :: "(uuid, artifact_record) btree"
  ss_contexts :: "(uuid \<times> nat, context_record) btree"
  ss_views :: "(uuid, context_view) btree"
  ss_named_context :: "(rust_string, uuid \<times> nat) btree"
  ss_details :: "(uuid, restored_operation) btree"
  ss_evidence :: "completion_evidence list"
  ss_named_values :: "(uuid, named_value) btree"
  ss_plans :: "(uuid, orchestration_plan_start) btree"
  ss_children :: "(uuid, restored_child) btree"
  ss_compactions :: "compaction_checkpoint list"
  ss_archived :: "compaction_checkpoint option"

definition empty_session :: "uuid \<Rightarrow> uuid \<Rightarrow> path \<Rightarrow> restored_session" where
  "empty_session session thread workspace =
     \<lparr>ss_configuration = None, ss_id = session, ss_thread = thread, ss_workspace = workspace,
      ss_branch = None, ss_head = None, ss_entries = [], ss_operations = [], ss_audits = [],
      ss_artifacts = [], ss_contexts = [], ss_views = [], ss_named_context = [], ss_details = [],
      ss_evidence = [], ss_named_values = [], ss_plans = [], ss_children = [], ss_compactions = [],
      ss_archived = None\<rparr>"

definition fresh_operation ::
  "uuid \<Rightarrow> uuid \<Rightarrow> uuid \<Rightarrow> desktop_command_key option \<Rightarrow> restored_operation" where
  "fresh_operation operation thread input adapter =
     \<lparr>op_configuration_digest = None, op_id = operation, op_thread = thread, op_input = input,
      op_step_order = [], op_steps = [], op_invocation_order = [], op_intents = [], op_results = [],
      op_recovery_decisions = [], op_suspensions = [], op_round_budget_decisions = [],
      op_finished = None, op_adapter = adapter, op_adapter_result = None\<rparr>"

section \<open>Errors\<close>

datatype reduction_error =
  InvalidExecutionConfiguration | InvalidVisionReceipt | InvalidCompletionEvidence uuid
| MissingCreation | UnsupportedVersion nat | WrongSession nat | DuplicateRecord nat
| SecondCreation nat | InvalidBranchLineage nat | InvalidBranchHistory | DuplicateEntry uuid
| UnknownParent uuid | UnknownThread uuid | UnknownHead "uuid option" | CyclicConversation uuid
| InvalidOperationTransition uuid "operation_state option" operation_state
| DuplicateArtifact uuid | UnknownArtifact uuid | ContextArtifactMismatch uuid
| DuplicateContext uuid nat | NonMonotonicContext uuid nat nat | UnknownContextVersion uuid nat
| DuplicateView uuid | InvalidContextName | UnknownOperationInput uuid | DuplicateOperation uuid
| UnknownOperation uuid | UnknownStepEntry uuid | DuplicateOrFinishedStep uuid | UnknownStep uuid
| IntentPermissionMismatch uuid | DuplicateInvocationIdentity uuid | UnknownInvocation uuid
| ResultMismatch uuid | DuplicateResult uuid | OperationAlreadyFinished uuid
| PendingInvocationAtFinish uuid | InvalidRecoveryDecision uuid | InvalidRoundBudgetDecision uuid
| InvalidNamedValue uuid | DuplicateNamedValue uuid | InvalidOrchestrationPlan uuid
| InvalidChildAdmission uuid | InvalidChildBatch nat | DuplicateChild uuid | UnknownChild uuid
| InvalidChildTransition uuid child_lifecycle child_lifecycle | DuplicateChildReport uuid
| InvalidChildReport uuid | InvalidCompaction uuid

section \<open>The codec\<close>

text \<open>
  What reduction asks of code outside the repository beside the compaction codec: the parser of
  JSON text, the encoder of a configuration and the version 5 identifier of a session's root agent.
\<close>

record session_codec = vision_codec +
  sc_parse_json :: "rust_string \<Rightarrow> json option"
  sc_config_json :: "execution_configuration \<Rightarrow> u8 list"
  sc_root_agent :: "uuid \<Rightarrow> uuid"

definition configuration_digest :: "'x session_codec_scheme \<Rightarrow> execution_configuration \<Rightarrow> rust_string"
where
  "configuration_digest codec c = ec_blake3 codec (sc_config_json codec c)"

definition message_digest :: "'x compaction_codec_scheme \<Rightarrow> message \<Rightarrow> rust_string" where
  "message_digest codec m = ec_blake3 codec (cc_message_json codec m)"

section \<open>The conversation\<close>

definition archived_end :: "restored_session \<Rightarrow> uuid option" where
  "archived_end st = map_option kp_end (ss_archived st)"

text \<open>From the head along the parents, newest first, until the root or the archived prefix.\<close>

function walk_path ::
  "restored_session \<Rightarrow> uuid option \<Rightarrow> uuid list \<Rightarrow> reduction_error + conversation_entry list" where
  "walk_path st None seen = Inr []"
| "walk_path st (Some i) seen =
     (if archived_end st = Some i then Inr []
      else if i \<in> set seen then Inl (CyclicConversation i)
      else case bt_get (ss_entries st) i of
        None \<Rightarrow> Inl (UnknownHead (Some i))
      | Some e \<Rightarrow> res_bind (walk_path st (et_parent e) (i # seen)) (\<lambda>es. Inr (e # es)))"
  by pat_completeness auto
termination
proof (relation "measure (\<lambda>(st, cursor, seen).
      card (set (bt_keys (ss_entries st)) - set seen)
)", simp)
  fix st :: restored_session and i :: uuid and seen :: "uuid list" and e
  assume "i \<notin> set seen" and "bt_get (ss_entries st) i = Some e"
  then have "i \<in> set (bt_keys (ss_entries st)) - set seen" by (simp add: set_bt_keys)
  then have "card (set (bt_keys (ss_entries st)) - set (i # seen))
      < card (set (bt_keys (ss_entries st)) - set seen)"
    by (intro psubset_card_mono) auto
  then show "((st, et_parent e, i # seen), st, Some i, seen) \<in> measure (\<lambda>(st, cursor, seen).
      card (set (bt_keys (ss_entries st)) - set seen)
)" by (simp split: option.splits)
qed

declare walk_path.simps(2) [simp del]

definition entry_path :: "restored_session \<Rightarrow> reduction_error + conversation_entry list" where
  "entry_path st = res_bind (walk_path st (ss_head st) []) (\<lambda>es. Inr (rev es))"

definition conversation_path :: "restored_session \<Rightarrow> reduction_error + message list" where
  "conversation_path st = res_bind (entry_path st) (\<lambda>es. Inr (map et_message es))"

definition retained_offset :: "restored_session \<Rightarrow> nat" where
  "retained_offset st =
     (case ss_archived st of
        None \<Rightarrow> 0
      | Some p \<Rightarrow>
          (case entry_path st of
             Inr (e # _) \<Rightarrow> if et_parent e = Some (kp_end p) then kp_count p else 0
           | _ \<Rightarrow> 0))"

text \<open>Whether a checkpoint names the path it was made of: its range and the retained tail.\<close>

definition checkpoint_active ::
  "restored_session \<Rightarrow> conversation_entry list \<Rightarrow> nat \<Rightarrow> compaction_checkpoint \<Rightarrow> bool" where
  "checkpoint_active st path offset k =
     (if kp_count k < offset then False
      else let i = kp_count k - offset in
        i < length path
        \<and> (if offset = 0 then path \<noteq> [] \<and> et_id (hd path) = kp_start k
           else case ss_archived st of None \<Rightarrow> False | Some p \<Rightarrow> kp_start p = kp_start k)
        \<and> (if i = 0 then (case ss_archived st of None \<Rightarrow> False | Some p \<Rightarrow> kp_end p = kp_end k)
           else et_id (path ! (i - 1)) = kp_end k)
        \<and> et_id (path ! i) = kp_tail k)"

definition active_compaction :: "restored_session \<Rightarrow> reduction_error + compaction_checkpoint option"
where
  "active_compaction st =
     res_bind (entry_path st) (\<lambda>path.
       Inr (find (checkpoint_active st path (retained_offset st)) (rev (ss_compactions st))))"

definition validate_branch_history :: "restored_session \<Rightarrow> reduction_error + unit" where
  "validate_branch_history st =
     (case ss_branch st of
        None \<Rightarrow> Inr ()
      | Some branch \<Rightarrow>
          res_bind (entry_path st) (\<lambda>path.
            let offset = retained_offset st in
            if ln_shared_entry_count branch \<le> offset then Inr ()
            else let shared = ln_shared_entry_count branch - offset in
              ensure (\<not> (length path < shared \<or> et_id (path ! (shared - 1)) \<noteq> ln_source_entry branch))
                InvalidBranchHistory))"

definition unfinished_operations :: "restored_session \<Rightarrow> (uuid \<times> operation_state) list" where
  "unfinished_operations st =
     filter (\<lambda>(i, s). case s of Finished _ \<Rightarrow> False | _ \<Rightarrow> True) (ss_operations st)"

end
