(* ===== verification/Session_Reducer.thy ===== *)
theory Session_Reducer
  imports Session_State
begin

text \<open>
  The reducer of the durable journal, \<open>src/src/session/reduce.rs\<close>: the validation of every record
  against the state, its application, and the reduction of a whole journal. One definition models
  each arm of the two matches; an \<open>expect\<close> of the application that fails is \<open>None\<close>.
\<close>

section \<open>Shared checks\<close>

fun valid_operation_transition :: "operation_state option \<Rightarrow> operation_state \<Rightarrow> bool" where
  "valid_operation_transition None Running = True"
| "valid_operation_transition (Some Running) Suspended = True"
| "valid_operation_transition (Some Running) (Finished _) = True"
| "valid_operation_transition (Some Suspended) Running = True"
| "valid_operation_transition (Some Suspended) (Finished _) = True"
| "valid_operation_transition _ _ = False"

definition check_transition ::
  "restored_session \<Rightarrow> uuid \<Rightarrow> operation_state \<Rightarrow> reduction_error + unit" where
  "check_transition st i next =
     (let previous = bt_get (ss_operations st) i
      in ensure (valid_operation_transition previous next) (InvalidOperationTransition i previous next))"

definition completion_inflight :: "restored_session \<Rightarrow> uuid \<Rightarrow> bool" where
  "completion_inflight st generation =
     ((case bt_get (ss_details st) generation of None \<Rightarrow> False | Some d \<Rightarrow> op_finished d = None)
      \<or> list_ex (\<lambda>c. ca_operation (cm_attribution (hs_admission (kc_handle c))) = generation
          \<and> kc_report c = None) (map snd (ss_children st)))"

definition MAX_RECEIPTS :: nat where "MAX_RECEIPTS = 128"

definition completion_capacity :: "restored_session \<Rightarrow> uuid \<Rightarrow> bool" where
  "completion_capacity st generation =
     (length (ss_evidence st) < MAX_RECEIPTS
      \<or> list_ex (\<lambda>item. cv_generation item = generation \<or> \<not> completion_inflight st (cv_generation item))
          (ss_evidence st))"

fun remove_first :: "('a \<Rightarrow> bool) \<Rightarrow> 'a list \<Rightarrow> 'a list option" where
  "remove_first P [] = None"
| "remove_first P (x # xs) = (if P x then Some xs else map_option ((#) x) (remove_first P xs))"

definition retain_completion ::
  "completion_evidence \<Rightarrow> restored_session \<Rightarrow> restored_session option" where
  "retain_completion e st =
     (let kept = filter (\<lambda>p. cv_generation p \<noteq> cv_generation e) (ss_evidence st) in
      if length kept \<ge> MAX_RECEIPTS
      then map_option (\<lambda>rest. st\<lparr>ss_evidence := rest @ [e]\<rparr>)
        (remove_first (\<lambda>item. \<not> completion_inflight st (cv_generation item)) kept)
      else Some (st\<lparr>ss_evidence := kept @ [e]\<rparr>))"

definition durable_value_exists ::
  "'x session_codec_scheme \<Rightarrow> restored_session \<Rightarrow> durable_value_ref \<Rightarrow> bool" where
  "durable_value_exists codec st v =
     (case v of
        InlineJson j \<Rightarrow> str_len (cc_json_text codec j) \<le> MAX_INLINE_VALUE_BYTES
      | ArtifactValue a \<Rightarrow>
          (case bt_get (ss_artifacts st) (arf_id a) of None \<Rightarrow> False | Some r \<Rightarrow> art_reference r = a)
      | ContextValue i version \<Rightarrow> bt_contains (ss_contexts st) (i, version))"

fun descends_from :: "nat \<Rightarrow> restored_session \<Rightarrow> uuid option \<Rightarrow> uuid \<Rightarrow> bool" where
  "descends_from 0 st cursor input = False"
| "descends_from (Suc n) st None input = False"
| "descends_from (Suc n) st (Some i) input =
     (if i = input then True
      else case bt_get (ss_entries st) i of
        None \<Rightarrow> False
      | Some e \<Rightarrow>
          if msg_role (et_message e) = UserRole then False
          else descends_from n st (et_parent e) input)"

definition adapter_output_descends_from_input :: "restored_session \<Rightarrow> uuid \<Rightarrow> uuid \<Rightarrow> bool" where
  "adapter_output_descends_from_input st output input = descends_from 4096 st (Some output) input"

definition find_operation ::
  "restored_session \<Rightarrow> uuid \<Rightarrow> reduction_error + restored_operation" where
  "find_operation st i = ok_or (bt_get (ss_details st) i) (UnknownOperation i)"

definition has_pending_invocation :: "restored_operation \<Rightarrow> bool" where
  "has_pending_invocation d =
     list_ex (\<lambda>i. \<not> bt_contains (op_results d) i) (op_invocation_order d)"

section \<open>Validation: conversation and configuration\<close>

definition validate_configuration_bound ::
  "'x session_codec_scheme \<Rightarrow> restored_session \<Rightarrow> uuid \<Rightarrow> rust_string \<Rightarrow> reduction_error + unit" where
  "validate_configuration_bound codec st i digest =
     ensure (hex_digest digest
       \<and> (case ss_configuration st of None \<Rightarrow> True | Some c \<Rightarrow> configuration_digest codec c = digest)
       \<and> (case bt_get (ss_details st) i of
            None \<Rightarrow> False
          | Some d \<Rightarrow> op_finished d = None \<and> op_configuration_digest d = None \<and> op_step_order d = []))
       InvalidExecutionConfiguration"

definition is_finished :: "operation_state \<Rightarrow> bool" where
  "is_finished s = (case s of Finished _ \<Rightarrow> True | _ \<Rightarrow> False)"

definition validate_execution_configured ::
  "restored_session \<Rightarrow> execution_configuration \<Rightarrow> reduction_error + unit" where
  "validate_execution_configured st c =
     ensure (\<not> (\<not> validate_configuration c \<or> list_ex (\<lambda>s. \<not> is_finished s) (map snd (ss_operations st))))
       InvalidExecutionConfiguration"

definition validate_branched ::
  "restored_session \<Rightarrow> nat \<Rightarrow> native_branch_lineage \<Rightarrow> reduction_error + unit" where
  "validate_branched st index l =
     ensure (\<not> (index \<noteq> 1 \<or> ss_branch st \<noteq> None \<or> ss_entries st \<noteq> [] \<or> ln_source_session l = ss_id st
         \<or> ln_shared_entry_count l = 0)) (InvalidBranchLineage index)"

fun check_block_artifacts :: "restored_session \<Rightarrow> content_block list \<Rightarrow> reduction_error + unit" where
  "check_block_artifacts st [] = Inr ()"
| "check_block_artifacts st (b # bs) =
     (case b of
        ToolResultBlock r \<Rightarrow>
          (case tr_artifact r of
             Some a \<Rightarrow>
               if bt_get (ss_artifacts st) (arf_id (art_reference a)) \<noteq> Some a
               then Inl (UnknownArtifact (arf_id (art_reference a)))
               else check_block_artifacts st bs
           | None \<Rightarrow> check_block_artifacts st bs)
      | _ \<Rightarrow> check_block_artifacts st bs)"

definition validate_entry ::
  "restored_session \<Rightarrow> conversation_entry \<Rightarrow> reduction_error + unit" where
  "validate_entry st e =
     res_bind (check_block_artifacts st (msg_content (et_message e)))
     (\<lambda>_. if bt_contains (ss_entries st) (et_id e) then Inl (DuplicateEntry (et_id e))
       else if (case et_parent e of None \<Rightarrow> False | Some p \<Rightarrow> \<not> bt_contains (ss_entries st) p)
       then Inl (UnknownParent (et_id e))
       else Inr ())"

definition validate_head ::
  "restored_session \<Rightarrow> uuid \<Rightarrow> uuid option \<Rightarrow> reduction_error + unit" where
  "validate_head st thread head =
     (if thread \<noteq> ss_thread st then Inl (UnknownThread thread)
      else if (case head of None \<Rightarrow> False | Some h \<Rightarrow> \<not> bt_contains (ss_entries st) h)
      then Inl (UnknownHead head)
      else Inr ())"

section \<open>Validation: artifacts and context\<close>

definition validate_artifact ::
  "restored_session \<Rightarrow> artifact_record \<Rightarrow> reduction_error + unit" where
  "validate_artifact st a =
     ensure (\<not> bt_contains (ss_artifacts st) (arf_id (art_reference a)))
       (DuplicateArtifact (arf_id (art_reference a)))"

text \<open>The newest version of a context: the last key of its range.\<close>

definition latest_version :: "restored_session \<Rightarrow> uuid \<Rightarrow> nat option" where
  "latest_version st i =
     (let versions = map snd (filter (\<lambda>k. fst k = i) (bt_keys (ss_contexts st)))
      in if versions = [] then None else Some (last versions))"

definition validate_context ::
  "restored_session \<Rightarrow> context_record \<Rightarrow> reduction_error + unit" where
  "validate_context st c =
     res_bind (ok_or (bt_get (ss_artifacts st) (arf_id (cx_artifact c)))
       (UnknownArtifact (arf_id (cx_artifact c))))
     (\<lambda>a. res_bind (ensure (\<not> (arf_hash (art_reference a) \<noteq> cx_hash c \<or> arf_hash (cx_artifact c) \<noteq> cx_hash c
           \<or> art_byte_len a \<noteq> cx_size c)) (ContextArtifactMismatch (cx_id c)))
     (\<lambda>_. let expected = (case latest_version st (cx_id c) of None \<Rightarrow> 1 | Some v \<Rightarrow> v + 1) in
       if cx_version c \<noteq> expected then Inl (NonMonotonicContext (cx_id c) expected (cx_version c))
       else if bt_contains (ss_contexts st) (cx_id c, cx_version c)
       then Inl (DuplicateContext (cx_id c) (cx_version c))
       else Inr ()))"

definition validate_view :: "restored_session \<Rightarrow> context_view \<Rightarrow> reduction_error + unit" where
  "validate_view st v =
     (if \<not> bt_contains (ss_contexts st) (vw_source v, vw_source_version v)
      then Inl (UnknownContextVersion (vw_source v) (vw_source_version v))
      else if bt_contains (ss_views st) (vw_id v) then Inl (DuplicateView (vw_id v))
      else Inr ())"

definition validate_named_context ::
  "restored_session \<Rightarrow> rust_string \<Rightarrow> uuid \<Rightarrow> nat \<Rightarrow> reduction_error + unit" where
  "validate_named_context st name i version =
     (if trim name = [] then Inl InvalidContextName
      else if \<not> bt_contains (ss_contexts st) (i, version) then Inl (UnknownContextVersion i version)
      else Inr ())"

definition validate_named_value ::
  "'x session_codec_scheme \<Rightarrow> restored_session \<Rightarrow> named_value \<Rightarrow> reduction_error + unit" where
  "validate_named_value codec st v =
     (if trim (nv_name v) = [] \<or> \<not> bt_contains (ss_details st) (nv_operation v)
         \<or> \<not> durable_value_exists codec st (nv_value v)
      then Inl (InvalidNamedValue (nv_id v))
      else if bt_contains (ss_named_values st) (nv_id v) then Inl (DuplicateNamedValue (nv_id v))
      else Inr ())"

section \<open>Validation: operations\<close>

definition validate_acceptance ::
  "restored_session \<Rightarrow> uuid \<Rightarrow> uuid \<Rightarrow> uuid \<Rightarrow> reduction_error + unit" where
  "validate_acceptance st i thread input =
     (if thread \<noteq> ss_thread st then Inl (UnknownThread thread)
      else if \<not> bt_contains (ss_entries st) input then Inl (UnknownOperationInput input)
      else if bt_contains (ss_operations st) i \<or> bt_contains (ss_details st) i
      then Inl (DuplicateOperation i)
      else Inr ())"

text \<open>A command key names its operation and session by the same identifiers.\<close>

definition validate_adapter_acceptance ::
  "'x session_codec_scheme \<Rightarrow> restored_session \<Rightarrow> uuid \<Rightarrow> uuid \<Rightarrow> uuid \<Rightarrow> desktop_command_key
    \<Rightarrow> reduction_error + unit" where
  "validate_adapter_acceptance codec st i thread input binding =
     (if \<not> is_ok (validate_binding binding) \<or> dk_command binding \<noteq> i \<or> dk_conversation binding \<noteq> ss_id st
         \<or> \<not> (case bt_get (ss_entries st) input of None \<Rightarrow> False
             | Some e \<Rightarrow> dk_payload binding = message_digest codec (et_message e))
      then Inl (UnknownOperationInput input)
      else validate_acceptance st i thread input)"

definition validate_finite_acceptance ::
  "'x session_codec_scheme \<Rightarrow> restored_session \<Rightarrow> uuid \<Rightarrow> uuid \<Rightarrow> uuid \<Rightarrow> completion_evidence
    \<Rightarrow> reduction_error + unit" where
  "validate_finite_acceptance codec st i thread input completion =
     (if cv_generation completion \<noteq> i \<or> \<not> valid_transition codec None completion
         \<or> \<not> completion_capacity st i
      then Inl (InvalidCompletionEvidence i)
      else validate_acceptance st i thread input)"

definition validate_step ::
  "restored_session \<Rightarrow> uuid \<Rightarrow> uuid \<Rightarrow> uuid \<Rightarrow> reduction_error + unit" where
  "validate_step st i s entry =
     res_bind (ensure (bt_contains (ss_entries st) entry) (UnknownStepEntry entry))
     (\<lambda>_. res_bind (find_operation st i)
     (\<lambda>d. ensure (\<not> (op_finished d \<noteq> None \<or> bt_contains (op_steps d) s)) (DuplicateOrFinishedStep s)))"

definition validate_intent ::
  "restored_session \<Rightarrow> invocation_intent \<Rightarrow> reduction_error + unit" where
  "validate_intent st n =
     res_bind (ensure (\<not> (rq_operation (af_request (ii_permission n)) \<noteq> ii_operation n
         \<or> rq_invocation (af_request (ii_permission n)) \<noteq> ii_invocation n
         \<or> rq_arguments (af_request (ii_permission n)) \<noteq> ii_arguments n))
       (IntentPermissionMismatch (ii_invocation n)))
     (\<lambda>_. res_bind (ensure (\<not> list_ex (\<lambda>d. bt_contains (op_intents d) (ii_invocation n)
           \<or> list_ex (\<lambda>existing. ii_result existing = ii_result n) (map snd (op_intents d)))
           (map snd (ss_details st)))
         (DuplicateInvocationIdentity (ii_invocation n)))
     (\<lambda>_. res_bind (find_operation st (ii_operation n))
     (\<lambda>d. ensure (\<not> (op_finished d \<noteq> None \<or> \<not> bt_contains (op_steps d) (ii_step n)))
         (UnknownStep (ii_step n)))))"

definition validate_result ::
  "restored_session \<Rightarrow> invocation_result \<Rightarrow> reduction_error + unit" where
  "validate_result st r =
     res_bind (find_operation st (ir_operation r))
     (\<lambda>d. res_bind (ok_or (bt_get (op_intents d) (ir_invocation r)) (UnknownInvocation (ir_invocation r)))
     (\<lambda>n. if ii_result n \<noteq> ir_result r \<or> op_finished d \<noteq> None then Inl (ResultMismatch (ir_invocation r))
       else if bt_contains (op_results d) (ir_invocation r) then Inl (DuplicateResult (ir_invocation r))
       else Inr ()))"

definition validate_suspended :: "restored_session \<Rightarrow> uuid \<Rightarrow> reduction_error + unit" where
  "validate_suspended st i =
     res_bind (find_operation st i)
     (\<lambda>d. res_bind (ensure (op_finished d = None) (OperationAlreadyFinished i))
     (\<lambda>_. check_transition st i Suspended))"

fun round_budget_of :: "suspension_reason \<Rightarrow> round_budget_suspension option" where
  "round_budget_of (RoundBudgetReached s) = Some s"
| "round_budget_of _ = None"

definition last_round_budget :: "restored_operation \<Rightarrow> round_budget_suspension option" where
  "last_round_budget d =
     (case List.map_filter round_budget_of (rev (op_suspensions d)) of [] \<Rightarrow> None | s # _ \<Rightarrow> Some s)"

definition validate_round_decision ::
  "restored_session \<Rightarrow> round_budget_decision \<Rightarrow> reduction_error + unit" where
  "validate_round_decision st c =
     (let i = rd_operation c in
      res_bind (find_operation st i)
      (\<lambda>d. if op_finished d \<noteq> None \<or> bt_get (ss_operations st) i \<noteq> Some Suspended
          \<or> (case last_round_budget d of None \<Rightarrow> True | Some s \<Rightarrow> rs_id s \<noteq> rd_suspension c)
          \<or> list_ex (\<lambda>x. rd_suspension x = rd_suspension c) (op_round_budget_decisions d)
        then Inl (InvalidRoundBudgetDecision i)
        else if (case last_round_budget d of None \<Rightarrow> True
             | Some s \<Rightarrow> rd_action c \<notin> set (rs_allowed_actions s))
        then Inl (InvalidRoundBudgetDecision i)
        else if rd_action c = StopRounds \<and> has_pending_invocation d
        then Inl (PendingInvocationAtFinish i)
        else Inr ()))"

definition validate_finish_tail ::
  "restored_session \<Rightarrow> uuid \<Rightarrow> operation_outcome \<Rightarrow> restored_operation \<Rightarrow> reduction_error + unit"
where
  "validate_finish_tail st i outcome d =
     res_bind (ensure (op_finished d = None) (OperationAlreadyFinished i))
     (\<lambda>_. res_bind (ensure (\<not> has_pending_invocation d) (PendingInvocationAtFinish i))
     (\<lambda>_. check_transition st i (Finished outcome)))"

definition validate_finished ::
  "restored_session \<Rightarrow> uuid \<Rightarrow> operation_outcome \<Rightarrow> reduction_error + unit" where
  "validate_finished st i outcome =
     res_bind (find_operation st i)
     (\<lambda>d. res_bind (ensure (op_adapter d = None) (UnknownOperation i))
     (\<lambda>_. validate_finish_tail st i outcome d))"

definition adapter_result_valid ::
  "'x session_codec_scheme \<Rightarrow> restored_session \<Rightarrow> restored_operation \<Rightarrow> command_result_ref \<Rightarrow> bool"
where
  "adapter_result_valid codec st d r =
     (ss_head st = Some (cr_entry r)
      \<and> adapter_output_descends_from_input st (cr_entry r) (op_input d)
      \<and> (case bt_get (ss_entries st) (cr_entry r) of None \<Rightarrow> False
         | Some e \<Rightarrow> msg_role (et_message e) = AssistantRole
             \<and> message_digest codec (et_message e) = cr_digest r))"

definition validate_adapter_finished ::
  "'x session_codec_scheme \<Rightarrow> restored_session \<Rightarrow> uuid \<Rightarrow> operation_outcome
    \<Rightarrow> command_result_ref option \<Rightarrow> reduction_error + unit" where
  "validate_adapter_finished codec st i outcome result =
     res_bind (find_operation st i)
     (\<lambda>d. res_bind (ensure (op_adapter d \<noteq> None
           \<and> (case result of None \<Rightarrow> True | Some r \<Rightarrow> adapter_result_valid codec st d r)
           \<and> (outcome \<noteq> OpCompleted \<or> result \<noteq> None)) (UnknownOperation i))
     (\<lambda>_. validate_finish_tail st i outcome d))"

definition validate_recovery_decision ::
  "restored_session \<Rightarrow> uuid \<Rightarrow> uuid \<Rightarrow> reduction_error + unit" where
  "validate_recovery_decision st i invocation =
     res_bind (find_operation st i)
     (\<lambda>d. ensure (\<not> (\<not> bt_contains (op_intents d) invocation \<or> bt_contains (op_results d) invocation
         \<or> op_finished d \<noteq> None)) (InvalidRecoveryDecision invocation))"

section \<open>Validation: children\<close>

fun valid_child_transition :: "child_lifecycle \<Rightarrow> child_lifecycle \<Rightarrow> bool" where
  "valid_child_transition ChildAdmittedState ChildQueued = True"
| "valid_child_transition ChildQueued ChildRunning = True"
| "valid_child_transition ChildRunning ChildSuspended = True"
| "valid_child_transition ChildSuspended ChildRunning = True"
| "valid_child_transition _ _ = False"

definition valid_child_terminal_source :: "child_lifecycle \<Rightarrow> bool" where
  "valid_child_terminal_source l = (l \<in> {ChildAdmittedState, ChildQueued, ChildRunning, ChildSuspended})"

abbreviation child_attribution_of :: "restored_child \<Rightarrow> child_attribution" where
  "child_attribution_of c \<equiv> cm_attribution (hs_admission (kc_handle c))"

definition admission_plan_known :: "restored_session \<Rightarrow> child_admission \<Rightarrow> bool" where
  "admission_plan_known st m =
     (case cm_plan m of None \<Rightarrow> True
      | Some p \<Rightarrow>
          (case bt_get (ss_plans st) (pc_plan p) of None \<Rightarrow> False
           | Some start \<Rightarrow> ps_operation start = ca_parent_operation (cm_attribution m)
               \<and> pc_step p \<in> set (ps_step_ids start)))"

definition parent_operation_is_valid :: "restored_session \<Rightarrow> child_attribution \<Rightarrow> bool" where
  "parent_operation_is_valid st a =
     (case bt_get (ss_details st) (ca_parent_operation a) of None \<Rightarrow> False
      | Some d \<Rightarrow> op_thread d = ca_thread a \<and> op_finished d = None)"

definition child_operation_is_unique :: "restored_session \<Rightarrow> child_attribution \<Rightarrow> bool" where
  "child_operation_is_unique st a =
     (ca_operation a \<noteq> ca_parent_operation a \<and> \<not> bt_contains (ss_details st) (ca_operation a)
      \<and> list_all (\<lambda>c. ca_operation (child_attribution_of c) \<noteq> ca_operation a) (map snd (ss_children st)))"

definition validate_child_admission ::
  "'x session_codec_scheme \<Rightarrow> restored_session \<Rightarrow> agent_handle \<Rightarrow> child_lifecycle
    \<Rightarrow> reduction_error + unit" where
  "validate_child_admission codec st h required =
     (let m = hs_admission h; a = cm_attribution m in
      if hs_lifecycle h \<noteq> required \<or> hs_report h \<noteq> None \<or> hs_usage h \<noteq> UsageUnknown
         \<or> ca_agent a = ca_parent_agent a
         \<or> ca_parent_agent a \<noteq> sc_root_agent codec (ss_id st)
         \<or> ca_thread a \<noteq> ss_thread st
         \<or> \<not> parent_operation_is_valid st a
         \<or> \<not> child_operation_is_unique st a
         \<or> trim (ca_route a) = [] \<or> trim (ca_profile a) = [] \<or> trim (ca_connection a) = []
         \<or> trim (ca_model a) = []
         \<or> str_len (cm_task_hash m) \<noteq> 64
         \<or> str_len (cm_task_preview m) > MAX_CHILD_TASK_PREVIEW_BYTES
         \<or> \<not> admission_plan_known st m
      then Inl (InvalidChildAdmission (ca_agent a))
      else if bt_contains (ss_children st) (ca_agent a) then Inl (DuplicateChild (ca_agent a))
      else Inr ())"

fun validate_batch_members ::
  "'x session_codec_scheme \<Rightarrow> restored_session \<Rightarrow> uuid list \<Rightarrow> uuid list \<Rightarrow> agent_handle list
    \<Rightarrow> reduction_error + unit" where
  "validate_batch_members codec st agents operations [] = Inr ()"
| "validate_batch_members codec st agents operations (h # hs) =
     (let a = cm_attribution (hs_admission h) in
      if ca_agent a \<in> set agents then Inl (DuplicateChild (ca_agent a))
      else if ca_operation a \<in> set operations then Inl (InvalidChildAdmission (ca_agent a))
      else res_bind (validate_child_admission codec st h ChildQueued)
        (\<lambda>_. validate_batch_members codec st (ca_agent a # agents) (ca_operation a # operations) hs))"

definition validate_child_batch ::
  "'x session_codec_scheme \<Rightarrow> restored_session \<Rightarrow> agent_handle list \<Rightarrow> reduction_error + unit" where
  "validate_child_batch codec st hs =
     res_bind (ensure (\<not> (hs = [] \<or> length hs > 64)) (InvalidChildBatch (length hs)))
     (\<lambda>_. validate_batch_members codec st [] [] hs)"

definition MAX_PLAN_STEPS :: nat where "MAX_PLAN_STEPS = 64"

definition validate_plan_start ::
  "restored_session \<Rightarrow> orchestration_plan_start \<Rightarrow> reduction_error + unit" where
  "validate_plan_start st p =
     ensure (\<not> (\<not> bt_contains (ss_details st) (ps_operation p) \<or> bt_contains (ss_plans st) (ps_plan p)
         \<or> \<not> lower_hex_digest (ps_fingerprint p)
         \<or> ps_step_ids p = [] \<or> length (ps_step_ids p) > MAX_PLAN_STEPS
         \<or> [] \<in> set (ps_step_ids p) \<or> \<not> distinct (ps_step_ids p)))
       (InvalidOrchestrationPlan (ps_plan p))"

definition validate_child_lifecycle ::
  "restored_session \<Rightarrow> uuid \<Rightarrow> child_lifecycle \<Rightarrow> reduction_error + unit" where
  "validate_child_lifecycle st agent l =
     res_bind (ok_or (bt_get (ss_children st) agent) (UnknownChild agent))
     (\<lambda>c. if lifecycle_is_terminal l \<or> \<not> valid_child_transition (hs_lifecycle (kc_handle c)) l
       then Inl (InvalidChildTransition agent (hs_lifecycle (kc_handle c)) l)
       else Inr ())"

definition valid_result_schema :: "'x session_codec_scheme \<Rightarrow> child_report \<Rightarrow> rust_string \<Rightarrow> bool" where
  "valid_result_schema codec r content =
     (re_status r \<noteq> EndCompleted
      \<or> (case re_schema r of SchemaSummary \<Rightarrow> True
         | SchemaJson \<Rightarrow> (case sc_parse_json codec content of None \<Rightarrow> False
             | Some v \<Rightarrow> cc_json_text codec v = content)))"

definition rejected_completion :: "child_report \<Rightarrow> nat \<Rightarrow> bool" where
  "rejected_completion r inline =
     (re_status r = EndFailed \<and> re_output r \<noteq> None
      \<and> (case re_error r of None \<Rightarrow> False | Some e \<Rightarrow> e \<noteq> [] \<and> str_len e \<le> inline)
      \<and> (case re_evidence r of None \<Rightarrow> False
         | Some e \<Rightarrow> cv_claim e = ClaimCompleted \<and> \<not> evidence_supported e))"

definition report_content :: "child_report \<Rightarrow> nat \<Rightarrow> rust_string option" where
  "report_content r inline =
     (if re_status r = EndFailed \<and> rejected_completion r inline then re_output r
      else if re_status r = EndCompleted \<and> re_error r = None then re_output r
      else if re_status r \<in> {EndFailed, EndCancelled, EndInterrupted} \<and> re_output r = None
      then re_error r
      else None)"

definition report_evidence_known ::
  "'x session_codec_scheme \<Rightarrow> restored_session \<Rightarrow> child_report \<Rightarrow> bool" where
  "report_evidence_known codec st r =
     (case re_evidence r of None \<Rightarrow> True
      | Some e \<Rightarrow> cv_generation e = ca_operation (re_attribution r) \<and> is_ok (validate_evidence codec e)
          \<and> e \<in> set (ss_evidence st))"

definition valid_child_report ::
  "'x session_codec_scheme \<Rightarrow> restored_session \<Rightarrow> child_report \<Rightarrow> nat \<Rightarrow> nat \<Rightarrow> bool" where
  "valid_child_report codec st r inline limit =
     (report_evidence_known codec st r
      \<and> (case report_content r inline of
           None \<Rightarrow> False
         | Some content \<Rightarrow>
             (case re_reference r of
                InlineReport byte_len \<Rightarrow>
                  byte_len = str_len content \<and> byte_len \<le> inline \<and> valid_result_schema codec r content
              | ArtifactReport a byte_len shown \<Rightarrow>
                  (re_status r = EndCompleted \<or> rejected_completion r inline)
                  \<and> shown = str_len content \<and> shown \<le> inline
                  \<and> byte_len > inline \<and> byte_len \<le> limit
                  \<and> (case bt_get (ss_artifacts st) (arf_id a) of None \<Rightarrow> False
                     | Some x \<Rightarrow> art_reference x = a \<and> art_byte_len x = byte_len))))"

definition validate_report_committed ::
  "'x session_codec_scheme \<Rightarrow> restored_session \<Rightarrow> child_report \<Rightarrow> reduction_error + unit" where
  "validate_report_committed codec st r =
     (let agent = ca_agent (re_attribution r) in
      res_bind (ok_or (bt_get (ss_children st) agent) (UnknownChild agent))
      (\<lambda>c. let m = hs_admission (kc_handle c) in
        res_bind (ensure (kc_report c = None) (DuplicateChildReport agent))
        (\<lambda>_. ensure (\<not> (re_version r \<noteq> CHILD_REPORT_VERSION \<or> re_attribution r \<noteq> cm_attribution m
             \<or> re_schema r \<noteq> cm_result_schema m
             \<or> \<not> valid_child_terminal_source (hs_lifecycle (kc_handle c))
             \<or> \<not> valid_child_report codec st r (unat (max_report_bytes (cm_limits m)))
                 (unat (max_artifact_bytes (cm_limits m)))))
           (InvalidChildReport agent))))"

section \<open>Validation: compaction and evidence\<close>

definition checkpoint_shape ::
  "'x session_codec_scheme \<Rightarrow> restored_session \<Rightarrow> compaction_checkpoint option \<Rightarrow> compaction_checkpoint
    \<Rightarrow> bool" where
  "checkpoint_shape codec st previous k =
     (kp_version k = COMPACTION_CHECKPOINT_VERSION
      \<and> (case kp_semantic k of None \<Rightarrow> True | Some p \<Rightarrow> semantic_valid_for codec p (kp_summary k))
      \<and> kp_count k \<noteq> 0
      \<and> lower_hex_digest (kp_digest k)
      \<and> is_valid_checkpoint_plan (kp_budget k)
      \<and> kp_previous k = map_option kp_id previous
      \<and> (case previous of None \<Rightarrow> True | Some p \<Rightarrow> kp_count k > kp_count p)
      \<and> \<not> list_ex (\<lambda>x. kp_id x = kp_id k \<or> kp_operation x = kp_operation k) (ss_compactions st))"

definition checkpoint_source_valid ::
  "'x session_codec_scheme \<Rightarrow> restored_session \<Rightarrow> source_proof option \<Rightarrow> conversation_entry list
    \<Rightarrow> nat \<Rightarrow> nat \<Rightarrow> compaction_checkpoint \<Rightarrow> bool" where
  "checkpoint_source_valid codec st evidence path offset retained k =
     (let source = take retained path in
      if offset = 0 then
        source \<noteq> [] \<and> et_id (hd source) = kp_start k \<and> et_id (last source) = kp_end k
        \<and> et_id (path ! retained) = kp_tail k
        \<and> source_digest codec (map (\<lambda>e. (et_id e, et_message e)) source) = kp_digest k
      else
        (case evidence of None \<Rightarrow> False | Some p \<Rightarrow> proof_matches p (ss_id st) k)
        \<and> (case ss_archived st of None \<Rightarrow> False | Some p \<Rightarrow> kp_start p = kp_start k)
        \<and> source \<noteq> [] \<and> et_id (last source) = kp_end k
        \<and> et_id (path ! retained) = kp_tail k)"

definition validate_compaction_checkpoint ::
  "'x session_codec_scheme \<Rightarrow> restored_session \<Rightarrow> compaction_checkpoint \<Rightarrow> source_proof option
    \<Rightarrow> reduction_error + unit" where
  "validate_compaction_checkpoint codec st k evidence =
     (let bad = InvalidCompaction (kp_id k) in
      case active_compaction st of
        Inl _ \<Rightarrow> Inl bad
      | Inr previous \<Rightarrow>
          res_bind (ensure (checkpoint_shape codec st previous k) bad)
          (\<lambda>_. case entry_path st of
               Inl _ \<Rightarrow> Inl bad
             | Inr path \<Rightarrow>
                 let offset = retained_offset st in
                 if kp_count k < offset then Inl bad
                 else let retained = kp_count k - offset in
                   if retained = 0 \<or> retained \<ge> length path then Inl bad
                   else ensure (checkpoint_source_valid codec st evidence path offset retained k
                       \<and> validate_summary (kp_summary k) (pb_summary_max_bytes (kp_budget k))) bad))"

definition validate_vision_receipt ::
  "'x session_codec_scheme \<Rightarrow> uuid \<Rightarrow> vision_receipt \<Rightarrow> reduction_error + unit" where
  "validate_vision_receipt codec session r = ensure (receipt_valid_for codec session r) InvalidVisionReceipt"

definition validate_evidence_recorded ::
  "'x session_codec_scheme \<Rightarrow> restored_session \<Rightarrow> completion_evidence \<Rightarrow> reduction_error + unit" where
  "validate_evidence_recorded codec st e =
     (let g = cv_generation e;
          known = bt_contains (ss_details st) g
            \<or> list_ex (\<lambda>c. ca_operation (child_attribution_of c) = g) (map snd (ss_children st));
          previous = find (\<lambda>p. cv_generation p = g) (ss_evidence st)
      in ensure (\<not> (\<not> known \<or> \<not> valid_transition codec previous e \<or> \<not> completion_capacity st g))
           (InvalidCompletionEvidence g))"

section \<open>Validation of an envelope\<close>

fun validate_record ::
  "'x session_codec_scheme \<Rightarrow> restored_session \<Rightarrow> nat \<Rightarrow> source_proof option \<Rightarrow> uuid \<Rightarrow> session_record
    \<Rightarrow> reduction_error + unit" where
  "validate_record codec st index pf session (OperationConfigurationBound i d) =
     validate_configuration_bound codec st i d"
| "validate_record codec st index pf session (ExecutionConfigured c) = validate_execution_configured st c"
| "validate_record codec st index pf session (SessionCreated t w) = Inl (SecondCreation index)"
| "validate_record codec st index pf session (ConversationBranched l) = validate_branched st index l"
| "validate_record codec st index pf session (ConversationEntryAppended e) = validate_entry st e"
| "validate_record codec st index pf session (ThreadHeadMoved t h) = validate_head st t h"
| "validate_record codec st index pf session (OperationStateChanged i s) = check_transition st i s"
| "validate_record codec st index pf session (PermissionAudited f) = Inr ()"
| "validate_record codec st index pf session (ArtifactRegistered a) = validate_artifact st a"
| "validate_record codec st index pf session (ContextRegistered c) = validate_context st c"
| "validate_record codec st index pf session (ContextViewRegistered v) = validate_view st v"
| "validate_record codec st index pf session (NamedContextSet n i v) = validate_named_context st n i v"
| "validate_record codec st index pf session (OperationAccepted i t n) = validate_acceptance st i t n"
| "validate_record codec st index pf session (AdapterOperationAccepted i t n b) =
     validate_adapter_acceptance codec st i t n b"
| "validate_record codec st index pf session (FiniteOperationAccepted i t n c) =
     validate_finite_acceptance codec st i t n c"
| "validate_record codec st index pf session (StepStarted i s e) = validate_step st i s e"
| "validate_record codec st index pf session (InvocationIntentAppended n) = validate_intent st n"
| "validate_record codec st index pf session (InvocationResultAppended r) = validate_result st r"
| "validate_record codec st index pf session (OperationSuspended i r) = validate_suspended st i"
| "validate_record codec st index pf session (RoundBudgetDecisionAppended d) = validate_round_decision st d"
| "validate_record codec st index pf session (OperationFinished i out) = validate_finished st i out"
| "validate_record codec st index pf session (AdapterOperationFinished i out r) =
     validate_adapter_finished codec st i out r"
| "validate_record codec st index pf session (RecoveryDecisionAppended i n d) =
     validate_recovery_decision st i n"
| "validate_record codec st index pf session (NamedValueSet v) = validate_named_value codec st v"
| "validate_record codec st index pf session (ChildAdmitted h) =
     validate_child_admission codec st h ChildAdmittedState"
| "validate_record codec st index pf session (ChildrenBatchAdmitted hs) = validate_child_batch codec st hs"
| "validate_record codec st index pf session (OrchestrationPlanStarted p) = validate_plan_start st p"
| "validate_record codec st index pf session (ChildLifecycleChanged a l) = validate_child_lifecycle st a l"
| "validate_record codec st index pf session (ChildReportCommitted r) =
     validate_report_committed codec st r"
| "validate_record codec st index pf session (ConversationCompacted k) =
     validate_compaction_checkpoint codec st k pf"
| "validate_record codec st index pf session (VisionReceiptRecorded r) = validate_vision_receipt codec session r"
| "validate_record codec st index pf session (CompletionEvidenceRecorded e) =
     validate_evidence_recorded codec st e"

definition validate_envelope ::
  "'x session_codec_scheme \<Rightarrow> restored_session \<Rightarrow> uuid list \<Rightarrow> record_envelope \<Rightarrow> nat
    \<Rightarrow> source_proof option \<Rightarrow> reduction_error + unit" where
  "validate_envelope codec st seen env index evidence =
     (if rn_version env \<noteq> SESSION_RECORD_VERSION then Inl (UnsupportedVersion (rn_version env))
      else if rn_session env \<noteq> ss_id st then Inl (WrongSession index)
      else if rn_record_id env \<in> set seen then Inl (DuplicateRecord index)
      else if index = 0 then Inr ()
      else validate_record codec st index evidence (rn_session env) (rn_record env))"

section \<open>Application\<close>

text \<open>\<open>get_mut\<close> with its \<open>expect\<close>: no entry means a panic.\<close>

definition update_operation ::
  "restored_session \<Rightarrow> uuid \<Rightarrow> (restored_operation \<Rightarrow> restored_operation) \<Rightarrow> restored_session option"
where
  "update_operation st i f =
     map_option (\<lambda>d. st\<lparr>ss_details := bt_insert i (f d) (ss_details st)\<rparr>) (bt_get (ss_details st) i)"

definition set_operation_state :: "uuid \<Rightarrow> operation_state \<Rightarrow> restored_session \<Rightarrow> restored_session"
where
  "set_operation_state i s st = st\<lparr>ss_operations := bt_insert i s (ss_operations st)\<rparr>"

definition update_child ::
  "restored_session \<Rightarrow> uuid \<Rightarrow> (restored_child \<Rightarrow> restored_child) \<Rightarrow> restored_session option" where
  "update_child st agent f =
     map_option (\<lambda>c. st\<lparr>ss_children := bt_insert agent (f c) (ss_children st)\<rparr>)
       (bt_get (ss_children st) agent)"

definition accept_operation ::
  "uuid \<Rightarrow> uuid \<Rightarrow> uuid \<Rightarrow> desktop_command_key option \<Rightarrow> restored_session \<Rightarrow> restored_session" where
  "accept_operation i thread input adapter st =
     set_operation_state i Running
       (st\<lparr>ss_details := bt_insert i (fresh_operation i thread input adapter) (ss_details st)\<rparr>)"

definition admit_child :: "agent_handle \<Rightarrow> restored_session \<Rightarrow> restored_session" where
  "admit_child h st =
     st\<lparr>ss_children := bt_insert (ca_agent (cm_attribution (hs_admission h)))
       \<lparr>kc_handle = h, kc_report = None\<rparr> (ss_children st)\<rparr>"

definition decide_round_budget :: "round_budget_decision \<Rightarrow> restored_session \<Rightarrow> restored_session option"
where
  "decide_round_budget c st =
     (let i = rd_operation c in
      case rd_action c of
        ContinueRounds \<Rightarrow>
          map_option (set_operation_state i Running) (update_operation st i
            (\<lambda>d. d\<lparr>op_round_budget_decisions := op_round_budget_decisions d @ [c]\<rparr>))
      | StopRounds \<Rightarrow>
          map_option (set_operation_state i (Finished OpDeclined)) (update_operation st i
            (\<lambda>d. d\<lparr>op_round_budget_decisions := op_round_budget_decisions d @ [c],
                   op_finished := Some OpDeclined\<rparr>)))"

fun apply_validated :: "session_record \<Rightarrow> restored_session \<Rightarrow> restored_session option" where
  "apply_validated (OperationConfigurationBound i digest) st =
     update_operation st i (\<lambda>d. d\<lparr>op_configuration_digest := Some digest\<rparr>)"
| "apply_validated (ExecutionConfigured c) st = Some (st\<lparr>ss_configuration := Some c\<rparr>)"
| "apply_validated (VisionReceiptRecorded r) st = Some st"
| "apply_validated (SessionCreated t w) st = None"
| "apply_validated (ConversationBranched l) st = Some (st\<lparr>ss_branch := Some l\<rparr>)"
| "apply_validated (ConversationEntryAppended e) st =
     Some (st\<lparr>ss_entries := bt_insert (et_id e) e (ss_entries st)\<rparr>)"
| "apply_validated (ThreadHeadMoved t h) st = Some (st\<lparr>ss_head := h\<rparr>)"
| "apply_validated (OperationStateChanged i s) st = Some (set_operation_state i s st)"
| "apply_validated (PermissionAudited f) st = Some (st\<lparr>ss_audits := ss_audits st @ [f]\<rparr>)"
| "apply_validated (CompletionEvidenceRecorded e) st = retain_completion e st"
| "apply_validated (ArtifactRegistered a) st =
     Some (st\<lparr>ss_artifacts := bt_insert (arf_id (art_reference a)) a (ss_artifacts st)\<rparr>)"
| "apply_validated (ContextRegistered c) st =
     Some (st\<lparr>ss_contexts := bt_insert (cx_id c, cx_version c) c (ss_contexts st)\<rparr>)"
| "apply_validated (ContextViewRegistered v) st =
     Some (st\<lparr>ss_views := bt_insert (vw_id v) v (ss_views st)\<rparr>)"
| "apply_validated (NamedContextSet n i v) st =
     Some (st\<lparr>ss_named_context := bt_insert n (i, v) (ss_named_context st)\<rparr>)"
| "apply_validated (OperationAccepted i t n) st = Some (accept_operation i t n None st)"
| "apply_validated (FiniteOperationAccepted i t n e) st =
     retain_completion e (accept_operation i t n None st)"
| "apply_validated (AdapterOperationAccepted i t n b) st = Some (accept_operation i t n (Some b) st)"
| "apply_validated (StepStarted i s e) st =
     update_operation st i (\<lambda>d. d\<lparr>op_steps := bt_insert s e (op_steps d),
       op_step_order := op_step_order d @ [s]\<rparr>)"
| "apply_validated (InvocationIntentAppended n) st =
     update_operation st (ii_operation n)
       (\<lambda>d. d\<lparr>op_invocation_order := op_invocation_order d @ [ii_invocation n],
         op_intents := bt_insert (ii_invocation n) n (op_intents d)\<rparr>)"
| "apply_validated (InvocationResultAppended r) st =
     update_operation st (ir_operation r)
       (\<lambda>d. d\<lparr>op_results := bt_insert (ir_invocation r) r (op_results d)\<rparr>)"
| "apply_validated (OperationSuspended i r) st =
     map_option (set_operation_state i Suspended)
       (update_operation st i (\<lambda>d. d\<lparr>op_suspensions := op_suspensions d @ [r]\<rparr>))"
| "apply_validated (RoundBudgetDecisionAppended d) st = decide_round_budget d st"
| "apply_validated (OperationFinished i out) st =
     map_option (set_operation_state i (Finished out))
       (update_operation st i (\<lambda>d. d\<lparr>op_finished := Some out\<rparr>))"
| "apply_validated (AdapterOperationFinished i out r) st =
     map_option (set_operation_state i (Finished out))
       (update_operation st i (\<lambda>d. d\<lparr>op_finished := Some out, op_adapter_result := r\<rparr>))"
| "apply_validated (RecoveryDecisionAppended i n c) st =
     update_operation st i (\<lambda>d. d\<lparr>op_recovery_decisions := op_recovery_decisions d @ [(n, c)]\<rparr>)"
| "apply_validated (NamedValueSet v) st =
     Some (st\<lparr>ss_named_values := bt_insert (nv_id v) v (ss_named_values st)\<rparr>)"
| "apply_validated (OrchestrationPlanStarted p) st =
     Some (st\<lparr>ss_plans := bt_insert (ps_plan p) p (ss_plans st)\<rparr>)"
| "apply_validated (ChildAdmitted h) st = Some (admit_child h st)"
| "apply_validated (ChildrenBatchAdmitted hs) st = Some (fold admit_child hs st)"
| "apply_validated (ChildLifecycleChanged a l) st =
     update_child st a (\<lambda>c. c\<lparr>kc_handle := apply_lifecycle l (kc_handle c)\<rparr>)"
| "apply_validated (ChildReportCommitted r) st =
     update_child st (ca_agent (re_attribution r))
       (\<lambda>c. c\<lparr>kc_handle := apply_report r (kc_handle c), kc_report := Some r\<rparr>)"
| "apply_validated (ConversationCompacted k) st = Some (st\<lparr>ss_compactions := ss_compactions st @ [k]\<rparr>)"

section \<open>Reduction\<close>

text \<open>\<open>None\<close> is a panic of the application, \<open>Some (Inl e)\<close> a rejected journal.\<close>

fun reduce_from ::
  "'x session_codec_scheme \<Rightarrow> restored_session \<Rightarrow> uuid list \<Rightarrow> nat \<Rightarrow> record_envelope list
    \<Rightarrow> (reduction_error + restored_session) option" where
  "reduce_from codec st seen index [] = Some (Inr st)"
| "reduce_from codec st seen index (env # envs) =
     (case validate_envelope codec st seen env index None of
        Inl e \<Rightarrow> Some (Inl e)
      | Inr _ \<Rightarrow>
          (case (if index = 0 then Some st else apply_validated (rn_record env) st) of
             None \<Rightarrow> None
           | Some st' \<Rightarrow> reduce_from codec st' (rn_record_id env # seen) (index + 1) envs))"

definition check_reduced :: "restored_session \<Rightarrow> reduction_error + restored_session" where
  "check_reduced st =
     res_bind (conversation_path st)
     (\<lambda>_. res_bind (validate_branch_history st) (\<lambda>_. Inr st))"

definition reduce ::
  "'x session_codec_scheme \<Rightarrow> record_envelope list \<Rightarrow> (reduction_error + restored_session) option" where
  "reduce codec records =
     (case records of
        [] \<Rightarrow> Some (Inl MissingCreation)
      | first # _ \<Rightarrow>
          (case rn_record first of
             SessionCreated thread workspace \<Rightarrow>
               if rn_version first \<noteq> SESSION_RECORD_VERSION
               then Some (Inl (UnsupportedVersion (rn_version first)))
               else map_option (\<lambda>r. res_bind r check_reduced)
                 (reduce_from codec (empty_session (rn_session first) thread workspace) [] 0 records)
           | _ \<Rightarrow> Some (Inl MissingCreation)))"

definition child_inspection :: "restored_child \<Rightarrow> agent_handle \<times> child_report option \<times> bool" where
  "child_inspection c =
     (if lifecycle_is_terminal (hs_lifecycle (kc_handle c)) then (kc_handle c, kc_report c, False)
      else let m = hs_admission (kc_handle c);
               report = interrupted_with_schema (cm_attribution m) (cm_result_schema m)
                 (rstr ''child work was interrupted when its owning Xana runtime stopped'')
                 (unat (max_report_bytes (cm_limits m)))
        in (apply_report report (kc_handle c), Some report, True))"

end
