(* ===== verification/Session_Invariants.thy ===== *)
theory Session_Invariants
  imports Session_Reducer
begin

text \<open>
  What the reducer guarantees: the effect of a record on each part of the state, the step relation
  of validated records, the interface \<open>journal_invariant\<close> through which an invariant reaches every
  reduced journal, and the properties of operations, invocations, children, receipts, contexts and
  of the conversation path.
\<close>

section \<open>The effect of a record\<close>

lemma update_operation_Some:
  "update_operation st i f = Some st' \<longleftrightarrow>
     (\<exists>d. bt_get (ss_details st) i = Some d \<and> st' = st\<lparr>ss_details := bt_insert i (f d) (ss_details st)\<rparr>)"
  by (auto simp: update_operation_def)

lemma update_child_Some:
  "update_child st i f = Some st' \<longleftrightarrow>
     (\<exists>c. bt_get (ss_children st) i = Some c \<and> st' = st\<lparr>ss_children := bt_insert i (f c) (ss_children st)\<rparr>)"
  by (auto simp: update_child_def)

lemma decide_round_budget_Some:
  "decide_round_budget c st = Some st' \<longleftrightarrow>
     (\<exists>d. bt_get (ss_details st) (rd_operation c) = Some d
        \<and> st' = set_operation_state (rd_operation c)
              (case rd_action c of ContinueRounds \<Rightarrow> Running | StopRounds \<Rightarrow> Finished OpDeclined)
              (st\<lparr>ss_details := bt_insert (rd_operation c)
                (d\<lparr>op_round_budget_decisions := op_round_budget_decisions d @ [c],
                   op_finished := (case rd_action c of ContinueRounds \<Rightarrow> op_finished d
                     | StopRounds \<Rightarrow> Some OpDeclined)\<rparr>) (ss_details st)\<rparr>))"
  by (auto simp: decide_round_budget_def Let_def update_operation_def split: round_budget_action.splits)

lemma retain_completion_Some:
  assumes "retain_completion e st = Some st'"
  shows "st' = st\<lparr>ss_evidence := ss_evidence st'\<rparr>"
  using assms by (auto simp: retain_completion_def Let_def split: if_splits)

lemma fold_admit_child:
  "fold admit_child hs st = st\<lparr>ss_children := fold (\<lambda>h. bt_insert
     (ca_agent (cm_attribution (hs_admission h))) \<lparr>kc_handle = h, kc_report = None\<rparr>) hs (ss_children st)\<rparr>"
  by (induction hs arbitrary: st) (simp_all add: admit_child_def)

lemmas apply_simps =
  update_operation_Some update_child_Some decide_round_budget_Some fold_admit_child
  set_operation_state_def accept_operation_def admit_child_def

text \<open>Receipts are the only state that \<open>retain_completion\<close> touches.\<close>

lemma retain_completion_frame:
  assumes "retain_completion e st = Some st'"
  shows "ss_details st' = ss_details st" "ss_operations st' = ss_operations st"
    "ss_entries st' = ss_entries st" "ss_head st' = ss_head st" "ss_id st' = ss_id st"
    "ss_thread st' = ss_thread st" "ss_children st' = ss_children st"
    "ss_artifacts st' = ss_artifacts st" "ss_contexts st' = ss_contexts st"
    "ss_views st' = ss_views st" "ss_named_context st' = ss_named_context st"
    "ss_compactions st' = ss_compactions st" "ss_archived st' = ss_archived st"
    "ss_named_values st' = ss_named_values st" "ss_plans st' = ss_plans st"
    "ss_branch st' = ss_branch st"
  by (subst retain_completion_Some [OF assms], simp)+

lemmas frame_simps = apply_simps retain_completion_frame

lemma entries_after:
  "apply_validated r st = Some st' \<Longrightarrow> ss_entries st' =
     (case r of ConversationEntryAppended e \<Rightarrow> bt_insert (et_id e) e (ss_entries st) | _ \<Rightarrow> ss_entries st)"
  by (cases r) (auto simp: frame_simps)

lemma head_after:
  "apply_validated r st = Some st' \<Longrightarrow>
     ss_head st' = (case r of ThreadHeadMoved t h \<Rightarrow> h | _ \<Rightarrow> ss_head st)"
  by (cases r) (auto simp: frame_simps)

lemma identity_after:
  "apply_validated r st = Some st' \<Longrightarrow> ss_id st' = ss_id st \<and> ss_thread st' = ss_thread st
     \<and> ss_archived st' = ss_archived st"
  by (cases r) (auto simp: frame_simps)

lemma artifacts_after:
  "apply_validated r st = Some st' \<Longrightarrow> ss_artifacts st' =
     (case r of ArtifactRegistered a \<Rightarrow> bt_insert (arf_id (art_reference a)) a (ss_artifacts st)
      | _ \<Rightarrow> ss_artifacts st)"
  by (cases r) (auto simp: frame_simps)

lemma contexts_after:
  "apply_validated r st = Some st' \<Longrightarrow> ss_contexts st' =
     (case r of ContextRegistered c \<Rightarrow> bt_insert (cx_id c, cx_version c) c (ss_contexts st)
      | _ \<Rightarrow> ss_contexts st)"
  by (cases r) (auto simp: frame_simps)

lemma views_after:
  "apply_validated r st = Some st' \<Longrightarrow> ss_views st' =
     (case r of ContextViewRegistered v \<Rightarrow> bt_insert (vw_id v) v (ss_views st) | _ \<Rightarrow> ss_views st)"
  by (cases r) (auto simp: frame_simps)

lemma named_context_after:
  "apply_validated r st = Some st' \<Longrightarrow> ss_named_context st' =
     (case r of NamedContextSet n i v \<Rightarrow> bt_insert n (i, v) (ss_named_context st)
      | _ \<Rightarrow> ss_named_context st)"
  by (cases r) (auto simp: frame_simps)

lemma compactions_after:
  "apply_validated r st = Some st' \<Longrightarrow> ss_compactions st' =
     (case r of ConversationCompacted k \<Rightarrow> ss_compactions st @ [k] | _ \<Rightarrow> ss_compactions st)"
  by (cases r) (auto simp: frame_simps)

lemma evidence_after:
  "apply_validated r st = Some st' \<Longrightarrow>
     (case r of CompletionEvidenceRecorded e \<Rightarrow> retain_completion e st = Some st'
      | FiniteOperationAccepted i t n e \<Rightarrow>
          retain_completion e (accept_operation i t n None st) = Some st'
      | _ \<Rightarrow> ss_evidence st' = ss_evidence st)"
  by (cases r) (auto simp: apply_simps)

text \<open>The operation a record edits, and how.\<close>

fun edited_operation :: "session_record \<Rightarrow> uuid option" where
  "edited_operation (OperationConfigurationBound i _) = Some i"
| "edited_operation (StepStarted i _ _) = Some i"
| "edited_operation (InvocationIntentAppended n) = Some (ii_operation n)"
| "edited_operation (InvocationResultAppended r) = Some (ir_operation r)"
| "edited_operation (OperationSuspended i _) = Some i"
| "edited_operation (RoundBudgetDecisionAppended c) = Some (rd_operation c)"
| "edited_operation (OperationFinished i _) = Some i"
| "edited_operation (AdapterOperationFinished i _ _) = Some i"
| "edited_operation (RecoveryDecisionAppended i _ _) = Some i"
| "edited_operation _ = None"

fun operation_edit :: "session_record \<Rightarrow> restored_operation \<Rightarrow> restored_operation" where
  "operation_edit (OperationConfigurationBound _ x) d = d\<lparr>op_configuration_digest := Some x\<rparr>"
| "operation_edit (StepStarted _ s e) d =
     d\<lparr>op_steps := bt_insert s e (op_steps d), op_step_order := op_step_order d @ [s]\<rparr>"
| "operation_edit (InvocationIntentAppended n) d =
     d\<lparr>op_invocation_order := op_invocation_order d @ [ii_invocation n],
       op_intents := bt_insert (ii_invocation n) n (op_intents d)\<rparr>"
| "operation_edit (InvocationResultAppended r) d =
     d\<lparr>op_results := bt_insert (ir_invocation r) r (op_results d)\<rparr>"
| "operation_edit (OperationSuspended _ x) d = d\<lparr>op_suspensions := op_suspensions d @ [x]\<rparr>"
| "operation_edit (RoundBudgetDecisionAppended c) d =
     d\<lparr>op_round_budget_decisions := op_round_budget_decisions d @ [c],
       op_finished := (case rd_action c of ContinueRounds \<Rightarrow> op_finished d
         | StopRounds \<Rightarrow> Some OpDeclined)\<rparr>"
| "operation_edit (OperationFinished _ out) d = d\<lparr>op_finished := Some out\<rparr>"
| "operation_edit (AdapterOperationFinished _ out r) d =
     d\<lparr>op_finished := Some out, op_adapter_result := r\<rparr>"
| "operation_edit (RecoveryDecisionAppended _ n c) d =
     d\<lparr>op_recovery_decisions := op_recovery_decisions d @ [(n, c)]\<rparr>"
| "operation_edit _ d = d"

fun accepted_operation :: "session_record \<Rightarrow> (uuid \<times> restored_operation) option" where
  "accepted_operation (OperationAccepted i t n) = Some (i, fresh_operation i t n None)"
| "accepted_operation (FiniteOperationAccepted i t n _) = Some (i, fresh_operation i t n None)"
| "accepted_operation (AdapterOperationAccepted i t n b) = Some (i, fresh_operation i t n (Some b))"
| "accepted_operation _ = None"

lemma details_after:
  "apply_validated r st = Some st' \<Longrightarrow>
     (case edited_operation r of
        Some i \<Rightarrow> \<exists>d. bt_get (ss_details st) i = Some d
          \<and> ss_details st' = bt_insert i (operation_edit r d) (ss_details st)
      | None \<Rightarrow> ss_details st' =
          (case accepted_operation r of Some (i, d) \<Rightarrow> bt_insert i d (ss_details st)
           | None \<Rightarrow> ss_details st))"
  by (cases r) (auto simp: frame_simps)

text \<open>The entry of the operation table a record writes.\<close>

fun written_state :: "session_record \<Rightarrow> (uuid \<times> operation_state) option" where
  "written_state (OperationStateChanged i s) = Some (i, s)"
| "written_state (OperationAccepted i _ _) = Some (i, Running)"
| "written_state (FiniteOperationAccepted i _ _ _) = Some (i, Running)"
| "written_state (AdapterOperationAccepted i _ _ _) = Some (i, Running)"
| "written_state (OperationSuspended i _) = Some (i, Suspended)"
| "written_state (RoundBudgetDecisionAppended c) =
     Some (rd_operation c, case rd_action c of ContinueRounds \<Rightarrow> Running
       | StopRounds \<Rightarrow> Finished OpDeclined)"
| "written_state (OperationFinished i out) = Some (i, Finished out)"
| "written_state (AdapterOperationFinished i out _) = Some (i, Finished out)"
| "written_state _ = None"

lemma operations_after:
  "apply_validated r st = Some st' \<Longrightarrow> ss_operations st' =
     (case written_state r of Some (i, s) \<Rightarrow> bt_insert i s (ss_operations st) | None \<Rightarrow> ss_operations st)"
  by (cases r) (auto simp: frame_simps)

fun admitted_children :: "session_record \<Rightarrow> agent_handle list" where
  "admitted_children (ChildAdmitted h) = [h]"
| "admitted_children (ChildrenBatchAdmitted hs) = hs"
| "admitted_children _ = []"

fun edited_child :: "session_record \<Rightarrow> (uuid \<times> (restored_child \<Rightarrow> restored_child)) option" where
  "edited_child (ChildLifecycleChanged a l) =
     Some (a, \<lambda>c. c\<lparr>kc_handle := apply_lifecycle l (kc_handle c)\<rparr>)"
| "edited_child (ChildReportCommitted r) =
     Some (ca_agent (re_attribution r),
       \<lambda>c. c\<lparr>kc_handle := apply_report r (kc_handle c), kc_report := Some r\<rparr>)"
| "edited_child _ = None"

lemma children_after:
  "apply_validated r st = Some st' \<Longrightarrow>
     (case edited_child r of
        Some (a, f) \<Rightarrow> \<exists>c. bt_get (ss_children st) a = Some c
          \<and> ss_children st' = bt_insert a (f c) (ss_children st)
      | None \<Rightarrow> ss_children st' = fold (\<lambda>h. bt_insert (ca_agent (cm_attribution (hs_admission h)))
          \<lparr>kc_handle = h, kc_report = None\<rparr>) (admitted_children r) (ss_children st))"
  by (cases r) (auto simp: frame_simps)

section \<open>Validated steps\<close>

inductive session_step ::
  "'x session_codec_scheme \<Rightarrow> restored_session \<Rightarrow> session_record \<Rightarrow> restored_session \<Rightarrow> bool"
  for codec where
  validated:
    "0 < index \<Longrightarrow> validate_record codec st index pf (ss_id st) r = Inr () \<Longrightarrow>
     apply_validated r st = Some st' \<Longrightarrow> session_step codec st r st'"

inductive reachable_session :: "'x session_codec_scheme \<Rightarrow> restored_session \<Rightarrow> bool"
  for codec where
  created: "reachable_session codec (empty_session s t w)"
| continued: "reachable_session codec st \<Longrightarrow> session_step codec st r st' \<Longrightarrow> reachable_session codec st'"

inductive_cases session_stepE: "session_step codec st r st'"

lemma reduce_from_reachable:
  assumes "reachable_session codec st" and "0 < index"
    and "reduce_from codec st seen index envs = Some (Inr st')"
  shows "reachable_session codec st'"
  using assms
proof (induction envs arbitrary: st seen index)
  case (Cons env envs)
  obtain st1 where valid: "validate_envelope codec st seen env index None = Inr ()"
    and applied: "apply_validated (rn_record env) st = Some st1"
    and rest: "reduce_from codec st1 (rn_record_id env # seen) (index + 1) envs = Some (Inr st')"
    using Cons.prems(2,3) by (auto split: sum.splits option.splits)
  have "validate_record codec st index None (ss_id st) (rn_record env) = Inr ()"
    using valid Cons.prems(2) by (auto simp: validate_envelope_def split: if_splits)
  then have "session_step codec st (rn_record env) st1"
    using applied Cons.prems(2) by (auto intro: session_step.validated)
  then show ?case using Cons.IH [OF _ _ rest] Cons.prems(1) reachable_session.continued by auto
qed simp

text \<open>A reduced journal: its first record creates the session, the rest is validated in order.\<close>

lemma reduce_cases:
  assumes "reduce codec records = x"
  obtains (rejected) e where "x = Some (Inl e)"
    | (ran) first rest thread workspace where "records = first # rest"
        and "rn_record first = SessionCreated thread workspace"
        and "x = map_option (\<lambda>r. res_bind r check_reduced)
          (reduce_from codec (empty_session (rn_session first) thread workspace) [rn_record_id first] 1 rest)"
proof (cases records)
  case Nil
  then show ?thesis using assms by (intro rejected [of MissingCreation]) (simp add: reduce_def)
next
  case (Cons first rest)
  show ?thesis
  proof (cases "\<exists>thread workspace. rn_record first = SessionCreated thread workspace
      \<and> rn_version first = SESSION_RECORD_VERSION")
    case True
    then obtain thread workspace where created: "rn_record first = SessionCreated thread workspace"
      "rn_version first = SESSION_RECORD_VERSION" by blast
    then have "validate_envelope codec (empty_session (rn_session first) thread workspace) [] first 0 None
        = Inr ()" by (simp add: validate_envelope_def empty_session_def)
    then show ?thesis
      using assms created Cons by (intro ran [OF Cons created(1)]) (simp add: reduce_def)
  next
    case False
    then show ?thesis using assms Cons
      by (cases "rn_record first") (auto simp: reduce_def intro: rejected split: if_splits)
  qed
qed

lemma reduce_reachable:
  assumes "reduce codec records = Some (Inr st)"
  shows "reachable_session codec st \<and> check_reduced st = Inr st"
  using assms
proof (cases rule: reduce_cases)
  case (ran first rest thread workspace)
  obtain st1 where run: "reduce_from codec (empty_session (rn_session first) thread workspace)
      [rn_record_id first] 1 rest = Some (Inr st1)" and check: "check_reduced st1 = Inr st"
    using ran(3) [symmetric] by (auto simp: res_simps)
  have "st1 = st" using check by (auto simp: check_reduced_def res_simps)
  then show ?thesis
    using reduce_from_reachable [OF reachable_session.created _ run] check by simp
qed simp

text \<open>The interface between one validated record and the whole journal.\<close>

locale journal_invariant =
  fixes codec :: "'x session_codec_scheme" and inv :: "restored_session \<Rightarrow> bool"
  assumes created_inv: "inv (empty_session s t w)"
    and step_inv: "inv st \<Longrightarrow> session_step codec st r st' \<Longrightarrow> inv st'"
begin

lemma reachable_inv: "reachable_session codec st \<Longrightarrow> inv st"
  by (induction rule: reachable_session.induct) (auto intro: created_inv step_inv)

lemma reduced_inv: "reduce codec records = Some (Inr st) \<Longrightarrow> inv st"
  using reduce_reachable reachable_inv by blast

end

section \<open>Application never panics\<close>

definition receipts_bounded :: "restored_session \<Rightarrow> bool" where
  "receipts_bounded st = (length (ss_evidence st) \<le> MAX_RECEIPTS)"

lemma remove_first_Some: "list_ex P xs \<Longrightarrow> \<exists>ys. remove_first P xs = Some ys"
  by (induction xs) auto

lemma length_remove_first: "remove_first P xs = Some ys \<Longrightarrow> length xs = Suc (length ys)"
  by (induction xs arbitrary: ys) (auto split: if_splits)

lemma retain_completion_bounded:
  assumes "receipts_bounded st" and "retain_completion e st = Some st'"
  shows "receipts_bounded st'"
proof -
  let ?kept = "filter (\<lambda>p. cv_generation p \<noteq> cv_generation e) (ss_evidence st)"
  have "length ?kept \<le> MAX_RECEIPTS"
    using assms(1) length_filter_le order.trans unfolding receipts_bounded_def by blast
  then show ?thesis
    using assms(2)
    by (auto simp: retain_completion_def receipts_bounded_def Let_def dest: length_remove_first
        split: if_splits)
qed

lemma retain_completion_defined:
  assumes "receipts_bounded st" and "completion_capacity st (cv_generation e)"
  shows "\<exists>st'. retain_completion e st = Some st'"
proof -
  let ?g = "cv_generation e"
  let ?kept = "filter (\<lambda>p. cv_generation p \<noteq> ?g) (ss_evidence st)"
  show ?thesis
  proof (cases "\<exists>item \<in> set (ss_evidence st). cv_generation item = ?g")
    case True
    then have "length ?kept < length (ss_evidence st)" by (auto intro: length_filter_less)
    then show ?thesis
      using assms(1) by (simp add: retain_completion_def receipts_bounded_def)
  next
    case False
    then have kept: "?kept = ss_evidence st" by (simp add: filter_id_conv)
    consider "length (ss_evidence st) < MAX_RECEIPTS"
      | "list_ex (\<lambda>item. \<not> completion_inflight st (cv_generation item)) (ss_evidence st)"
      using assms(2) False by (auto simp: completion_capacity_def list_ex_iff)
    then show ?thesis
      by cases (auto simp: retain_completion_def kept Let_def dest!: remove_first_Some)
  qed
qed

text \<open>Accepting an operation does not make another one's receipt stick.\<close>

lemma capacity_after_acceptance:
  assumes "completion_capacity st i"
  shows "completion_capacity (accept_operation i t n a st) i"
proof -
  have "completion_inflight (accept_operation i t n a st) g = completion_inflight st g" if "g \<noteq> i" for g
    using that by (simp add: completion_inflight_def accept_operation_def set_operation_state_def
        bt_get_insert)
  moreover have "ss_evidence (accept_operation i t n a st) = ss_evidence st"
    by (simp add: accept_operation_def set_operation_state_def)
  ultimately show ?thesis using assms by (force simp: completion_capacity_def list_ex_iff)
qed

lemma find_operation_Inr: "find_operation st i = Inr d \<longleftrightarrow> bt_get (ss_details st) i = Some d"
  by (simp add: find_operation_def res_simps)

lemma validated_applies:
  assumes "receipts_bounded st" and "validate_record codec st index pf session r = Inr ()"
  shows "\<exists>st'. apply_validated r st = Some st'"
proof (cases r)
  case (FiniteOperationAccepted i t n e)
  let ?st = "accept_operation i t n None st"
  have "cv_generation e = i" and "completion_capacity st i"
    using assms(2) FiniteOperationAccepted
    by (auto simp: validate_finite_acceptance_def split: if_splits)
  moreover have "receipts_bounded ?st"
    using assms(1) by (simp add: receipts_bounded_def accept_operation_def set_operation_state_def)
  ultimately show ?thesis
    using retain_completion_defined [of ?st e] capacity_after_acceptance FiniteOperationAccepted by simp
next
  case (CompletionEvidenceRecorded e)
  then have "completion_capacity st (cv_generation e)"
    using assms(2) by (simp add: validate_evidence_recorded_def Let_def res_simps)
  then show ?thesis
    using retain_completion_defined [OF assms(1)] CompletionEvidenceRecorded by simp
next
  case (OperationConfigurationBound i x)
  then show ?thesis
    using assms(2) by (auto simp: validate_configuration_bound_def res_simps update_operation_def
        split: option.splits)
next
  case (RoundBudgetDecisionAppended c)
  then show ?thesis
    using assms(2)
    by (auto simp: validate_round_decision_def res_simps find_operation_Inr decide_round_budget_def
        update_operation_def Let_def split: round_budget_action.splits)
next
  case (ChildReportCommitted x)
  then show ?thesis
    using assms(2) by (auto simp: validate_report_committed_def Let_def res_simps update_child_def)
next
  case (ChildLifecycleChanged a l)
  then show ?thesis
    using assms(2) by (auto simp: validate_child_lifecycle_def res_simps update_child_def)
qed (use assms(2) in \<open>auto simp: update_operation_def res_simps find_operation_Inr validate_step_def
    validate_intent_def validate_result_def validate_suspended_def validate_finished_def
    validate_adapter_finished_def validate_recovery_decision_def\<close>)

lemma receipts_step:
  assumes "receipts_bounded st" and "session_step codec st r st'"
  shows "receipts_bounded st'"
  using assms(2)
proof cases
  case (validated index pf)
  have acc: "receipts_bounded (accept_operation i t n a st)" for i t n a
    using assms(1) by (simp add: receipts_bounded_def accept_operation_def set_operation_state_def)
  from evidence_after [OF validated(3)] show ?thesis
    using assms(1) acc retain_completion_bounded [OF assms(1)] retain_completion_bounded [OF acc]
    by (cases r) (simp_all add: receipts_bounded_def)
qed

interpretation receipts: journal_invariant codec receipts_bounded for codec
  by unfold_locales (auto simp: receipts_bounded_def empty_session_def intro: receipts_step
      [unfolded receipts_bounded_def])

lemma reduce_from_defined:
  assumes "receipts_bounded st" and "0 < index"
  shows "reduce_from codec st seen index envs \<noteq> None"
  using assms
proof (induction envs arbitrary: st seen index)
  case (Cons env envs)
  show ?case
  proof (cases "validate_envelope codec st seen env index None")
    case (Inr u)
    then have ok: "validate_record codec st index None (ss_id st) (rn_record env) = Inr ()"
      using Cons.prems(2) by (auto simp: validate_envelope_def split: if_splits)
    then obtain st1 where st1: "apply_validated (rn_record env) st = Some st1"
      using validated_applies [OF Cons.prems(1)] by blast
    then have "receipts_bounded st1"
      using receipts_step [OF Cons.prems(1) session_step.validated [OF Cons.prems(2) ok]] by blast
    then show ?thesis using Cons.IH Cons.prems(2) Inr st1 by simp
  qed simp
qed simp

section \<open>The conversation is a forest\<close>

text \<open>How many entries lie before one on its path, up to the root or the archived prefix.\<close>

inductive depth ::
  "(uuid, conversation_entry) btree \<Rightarrow> uuid option \<Rightarrow> uuid \<Rightarrow> nat \<Rightarrow> bool" for m stop where
  root: "bt_get m i = Some e \<Longrightarrow> et_parent e = None \<or> et_parent e = stop \<Longrightarrow> depth m stop i 0"
| child: "bt_get m i = Some e \<Longrightarrow> et_parent e = Some p \<Longrightarrow> Some p \<noteq> stop \<Longrightarrow> depth m stop p n \<Longrightarrow>
    depth m stop i (Suc n)"

inductive_cases depthE: "depth m stop i n"

lemma depth_unique: "depth m stop i n \<Longrightarrow> depth m stop i k \<Longrightarrow> n = k"
proof (induction arbitrary: k rule: depth.induct)
  case (root i e)
  from root(3) show ?case by cases (use root in auto)
next
  case (child i e p n)
  from child(6) show ?case
  proof cases
    case (root e')
    then show ?thesis using child(1-3) by simp
  next
    case (child e' p' k')
    then have "depth m stop p k'" using child.hyps(1,2) by simp
    then show ?thesis using child.IH child(1) by simp
  qed
qed

lemma depth_insert:
  "depth m stop j n \<Longrightarrow> bt_get m i = None \<Longrightarrow> depth (bt_insert i e m) stop j n"
proof (induction rule: depth.induct)
  case (root j e')
  then show ?case by (intro depth.root [of _ j e']) (auto simp: bt_get_insert)
next
  case (child j e' p n)
  then show ?case by (intro depth.child [of _ j e' p]) (auto simp: bt_get_insert)
qed

definition conversation_ok :: "restored_session \<Rightarrow> bool" where
  "conversation_ok st =
     ((\<forall>i e. bt_get (ss_entries st) i = Some e \<longrightarrow>
         et_id e = i \<and> (\<exists>n. depth (ss_entries st) (archived_end st) i n))
      \<and> (\<forall>h. ss_head st = Some h \<longrightarrow> Some h = archived_end st \<or> bt_contains (ss_entries st) h))"

lemma conversation_okD:
  "conversation_ok st \<Longrightarrow> bt_get (ss_entries st) i = Some e \<Longrightarrow>
     et_id e = i \<and> (\<exists>n. depth (ss_entries st) (archived_end st) i n)"
  by (simp add: conversation_ok_def)

lemma conversation_insert:
  assumes "conversation_ok st" and "bt_get (ss_entries st) (et_id e) = None"
    and "\<forall>p. et_parent e = Some p \<longrightarrow> bt_contains (ss_entries st) p"
  shows "conversation_ok (st\<lparr>ss_entries := bt_insert (et_id e) e (ss_entries st)\<rparr>)"
proof -
  let ?m = "ss_entries st" and ?stop = "archived_end st"
  let ?m' = "bt_insert (et_id e) e ?m"
  have old: "\<exists>n. depth ?m' ?stop i n" if known: "bt_contains ?m i" for i
  proof -
    obtain x n where "bt_get ?m i = Some x" and "depth ?m ?stop i n"
      using known conversation_okD [OF assms(1)] unfolding bt_contains_def by blast
    then show ?thesis using depth_insert assms(2) by blast
  qed
  have new: "\<exists>n. depth ?m' ?stop (et_id e) n"
  proof (cases "et_parent e = None \<or> et_parent e = ?stop")
    case True
    then show ?thesis using depth.root [of ?m' "et_id e" e ?stop] by (auto simp: bt_get_insert)
  next
    case False
    then obtain p where p: "et_parent e = Some p" "Some p \<noteq> ?stop" by auto
    then obtain n where "depth ?m' ?stop p n" using old assms(3) by blast
    then show ?thesis using depth.child [of ?m' "et_id e" e p ?stop n] p by (auto simp: bt_get_insert)
  qed
  have ids: "bt_get ?m' i = Some x \<Longrightarrow> et_id x = i \<and> (i = et_id e \<or> bt_contains ?m i)" for i x
    using conversation_okD [OF assms(1)] by (auto simp: bt_get_insert bt_contains_def split: if_splits)
  have all: "\<exists>n. depth ?m' ?stop i n" if present: "bt_get ?m' i = Some x" for i x
  proof (cases "i = et_id e")
    case True
    then show ?thesis using new by simp
  next
    case False
    then show ?thesis using ids [OF present] by (intro old) simp
  qed
  have stop: "archived_end (st\<lparr>ss_entries := ?m'\<rparr>) = ?stop" by (simp add: archived_end_def)
  have head: "ss_head st = Some h \<Longrightarrow> Some h = ?stop \<or> bt_contains ?m' h" for h
    using assms(1) by (auto simp: conversation_ok_def bt_contains_def bt_get_insert)
  show ?thesis
    unfolding conversation_ok_def stop using ids head all by simp
qed

text \<open>A walk from an entry passes only entries of strictly smaller depth, so it ends.\<close>

fun parent_chain :: "restored_session \<Rightarrow> uuid option \<Rightarrow> conversation_entry list \<Rightarrow> bool" where
  "parent_chain st cursor [] = (cursor = None \<or> cursor = archived_end st)"
| "parent_chain st cursor (e # es) =
     (cursor \<noteq> archived_end st \<and> cursor = Some (et_id e) \<and> bt_get (ss_entries st) (et_id e) = Some e
      \<and> parent_chain st (et_parent e) es)"

lemma walk_path_stop: "walk_path st (archived_end st) seen = Inr []"
  by (cases "archived_end st") (simp_all add: walk_path.simps(2))

lemma walk_from_depth:
  assumes "conversation_ok st" and "depth (ss_entries st) (archived_end st) i n"
    and "\<forall>s \<in> set seen. \<exists>k > n. depth (ss_entries st) (archived_end st) s k"
    and "Some i \<noteq> archived_end st"
  shows "\<exists>es. walk_path st (Some i) seen = Inr es \<and> parent_chain st (Some i) es \<and> length es = Suc n
    \<and> (\<forall>e \<in> set es. \<exists>k \<le> n. depth (ss_entries st) (archived_end st) (et_id e) k)
    \<and> distinct (map et_id es)"
  using assms(2-)
proof (induction arbitrary: seen rule: depth.induct)
  case (root i e)
  have fresh: "i \<notin> set seen"
    using root(3) depth_unique [OF depth.root [OF root(1,2)]] by fastforce
  have eid: "et_id e = i" using conversation_okD [OF assms(1) root(1)] by simp
  have stop: "walk_path st (et_parent e) seen' = Inr []" for seen'
    using root(2) walk_path_stop by auto
  show ?case
    using root fresh eid stop depth.root [OF root(1,2)]
    by (auto simp: walk_path.simps(2) [of st i])
next
  case (child i e p n)
  have here: "depth (ss_entries st) (archived_end st) i (Suc n)" by (rule depth.child [OF child(1-4)])
  have fresh: "i \<notin> set seen" using child(6) depth_unique [OF here] by fastforce
  have eid: "et_id e = i" using conversation_okD [OF assms(1) child(1)] by simp
  have "\<forall>s \<in> set (i # seen). \<exists>k > n. depth (ss_entries st) (archived_end st) s k"
    using here child(6) by (auto intro: Suc_lessD)
  from child(5) [OF this child(3)] obtain es where es: "walk_path st (Some p) (i # seen) = Inr es"
    "parent_chain st (Some p) es" "length es = Suc n" "distinct (map et_id es)"
    "\<forall>e \<in> set es. \<exists>k \<le> n. depth (ss_entries st) (archived_end st) (et_id e) k" by blast
  have "i \<notin> et_id ` set es"
  proof
    assume "i \<in> et_id ` set es"
    then obtain k where "k \<le> n" and "depth (ss_entries st) (archived_end st) i k" using es(5) by blast
    then show False using depth_unique [OF here] by fastforce
  qed
  moreover have "\<forall>x \<in> set es. \<exists>k \<le> Suc n. depth (ss_entries st) (archived_end st) (et_id x) k"
    using es(5) le_SucI by blast
  ultimately show ?case
    using child(1-3) child.prems(2) fresh eid es here
    by (intro exI [of _ "e # es"]) (auto simp: walk_path.simps(2) [of st i])
qed

lemma entry_path_total:
  assumes "conversation_ok st"
  shows "\<exists>es. entry_path st = Inr (rev es) \<and> parent_chain st (ss_head st) es \<and> distinct (map et_id es)"
proof (cases "ss_head st = None \<or> ss_head st = archived_end st")
  case True
  then have "walk_path st (ss_head st) [] = Inr []"
    using walk_path_stop by auto
  then show ?thesis using True by (simp add: entry_path_def)
next
  case False
  then obtain h where h: "ss_head st = Some h" "Some h \<noteq> archived_end st" by auto
  then obtain n where "depth (ss_entries st) (archived_end st) h n"
    using assms by (auto simp: conversation_ok_def bt_contains_def)
  from walk_from_depth [OF assms this _ h(2), of "[]"] show ?thesis
    using h(1) by (auto simp: entry_path_def)
qed

lemma conversation_step:
  assumes "conversation_ok st" and "session_step codec st r st'"
  shows "conversation_ok st'"
  using assms(2)
proof cases
  case (validated index pf)
  note after = entries_after [OF validated(3)] head_after [OF validated(3)]
    identity_after [OF validated(3)]
  show ?thesis
  proof (cases "\<exists>e. r = ConversationEntryAppended e")
    case True
    then obtain e where r: "r = ConversationEntryAppended e" by blast
    have "conversation_ok (st\<lparr>ss_entries := bt_insert (et_id e) e (ss_entries st)\<rparr>)"
      using validated(2) r by (intro conversation_insert assms(1))
        (auto simp: validate_entry_def res_simps bt_contains_def split: if_splits option.splits)
    then show ?thesis using validated(3) r by simp
  next
    case False
    then have entries: "ss_entries st' = ss_entries st" and stop: "archived_end st' = archived_end st"
      using after by (auto simp: archived_end_def split: session_record.splits)
    have "ss_head st' = Some h \<Longrightarrow> Some h = archived_end st \<or> bt_contains (ss_entries st) h" for h
      using assms(1) after(2) validated(2)
      by (cases r) (auto simp: conversation_ok_def validate_head_def split: if_splits option.splits)
    then show ?thesis using assms(1) by (auto simp: conversation_ok_def entries stop)
  qed
qed

interpretation forest: journal_invariant codec conversation_ok for codec
  by unfold_locales (simp add: conversation_ok_def empty_session_def, rule conversation_step)

section \<open>Operations and invocations\<close>

definition operation_ok :: "uuid \<Rightarrow> restored_operation \<Rightarrow> bool" where
  "operation_ok i d =
     (op_id d = i
      \<and> distinct (op_step_order d) \<and> (\<forall>s. s \<in> set (op_step_order d) \<longleftrightarrow> bt_contains (op_steps d) s)
      \<and> distinct (op_invocation_order d)
      \<and> (\<forall>n. n \<in> set (op_invocation_order d) \<longleftrightarrow> bt_contains (op_intents d) n)
      \<and> (\<forall>n x. bt_get (op_intents d) n = Some x \<longrightarrow>
           ii_invocation x = n \<and> ii_operation x = i \<and> bt_contains (op_steps d) (ii_step x)
           \<and> rq_arguments (af_request (ii_permission x)) = ii_arguments x)
      \<and> (\<forall>n y. bt_get (op_results d) n = Some y \<longrightarrow>
           ir_invocation y = n \<and> ir_operation y = i
           \<and> (\<exists>x. bt_get (op_intents d) n = Some x \<and> ii_result x = ir_result y))
      \<and> (op_finished d \<noteq> None \<longrightarrow> (\<forall>n \<in> set (op_invocation_order d). bt_contains (op_results d) n))
      \<and> (\<forall>(n, c) \<in> set (op_recovery_decisions d). bt_contains (op_intents d) n))"

text \<open>What validation establishes about the operation a record edits.\<close>

fun edit_allowed :: "session_record \<Rightarrow> restored_operation \<Rightarrow> bool" where
  "edit_allowed (StepStarted i s e) d = (op_finished d = None \<and> \<not> bt_contains (op_steps d) s)"
| "edit_allowed (InvocationIntentAppended n) d =
     (op_finished d = None \<and> bt_contains (op_steps d) (ii_step n)
      \<and> \<not> bt_contains (op_intents d) (ii_invocation n)
      \<and> rq_arguments (af_request (ii_permission n)) = ii_arguments n)"
| "edit_allowed (InvocationResultAppended y) d =
     (op_finished d = None \<and> \<not> bt_contains (op_results d) (ir_invocation y)
      \<and> (\<exists>x. bt_get (op_intents d) (ir_invocation y) = Some x \<and> ii_result x = ir_result y))"
| "edit_allowed (RoundBudgetDecisionAppended c) d =
     (op_finished d = None \<and> (rd_action c = StopRounds \<longrightarrow> \<not> has_pending_invocation d))"
| "edit_allowed (OperationFinished i out) d = (op_finished d = None \<and> \<not> has_pending_invocation d)"
| "edit_allowed (AdapterOperationFinished i out r) d =
     (op_finished d = None \<and> \<not> has_pending_invocation d)"
| "edit_allowed (RecoveryDecisionAppended i n c) d =
     (op_finished d = None \<and> bt_contains (op_intents d) n \<and> \<not> bt_contains (op_results d) n)"
| "edit_allowed (OperationSuspended i x) d = (op_finished d = None)"
| "edit_allowed (OperationConfigurationBound i x) d = (op_finished d = None)"
| "edit_allowed _ d = True"

lemma edit_is_allowed:
  assumes "validate_record codec st index pf session r = Inr ()" and "edited_operation r = Some i"
    and "bt_get (ss_details st) i = Some d"
  shows "edit_allowed r d"
proof (cases r)
  case (InvocationIntentAppended n)
  then have "d \<in> snd ` set (ss_details st)"
    using assms(3) bt_get_in_set by force
  then have "\<not> bt_contains (op_intents d) (ii_invocation n)"
    using assms(1) InvocationIntentAppended
    by (auto simp: validate_intent_def res_simps list_ex_iff)
  then show ?thesis
    using assms InvocationIntentAppended
    by (auto simp: validate_intent_def res_simps find_operation_Inr)
next
  case (RoundBudgetDecisionAppended c)
  then show ?thesis
    using assms by (auto simp: validate_round_decision_def Let_def res_simps find_operation_Inr
        split: if_splits)
qed (use assms in \<open>auto simp: validate_step_def validate_result_def validate_suspended_def
    validate_finished_def validate_adapter_finished_def validate_finish_tail_def
    validate_recovery_decision_def validate_configuration_bound_def res_simps find_operation_Inr
    split: if_splits option.splits\<close>)

lemma has_pending_iff:
  "has_pending_invocation d \<longleftrightarrow> (\<exists>n \<in> set (op_invocation_order d). \<not> bt_contains (op_results d) n)"
  by (auto simp: has_pending_invocation_def list_ex_iff)

lemma bt_contains_insert: "bt_contains (bt_insert k v m) k' \<longleftrightarrow> k' = k \<or> bt_contains m k'"
  by (simp add: bt_contains_def bt_get_insert)

lemma bt_contains_get: "bt_get m k = Some v \<Longrightarrow> bt_contains m k"
  by (simp add: bt_contains_def)

lemma operation_ok_result:
  "operation_ok i d \<Longrightarrow> bt_get (op_results d) n = Some y \<Longrightarrow>
     ir_invocation y = n \<and> ir_operation y = i
     \<and> (\<exists>x. bt_get (op_intents d) n = Some x \<and> ii_result x = ir_result y)"
  by (simp add: operation_ok_def)

lemma operation_edit_ok:
  assumes "operation_ok i d" and "edited_operation r = Some i" and "edit_allowed r d"
  shows "operation_ok i (operation_edit r d)"
proof (cases r)
  case (StepStarted j s e)
  then show ?thesis using assms by (auto simp: operation_ok_def bt_contains_insert)
next
  case (InvocationIntentAppended x)
  then have "\<not> bt_contains (op_intents d) (ii_invocation x)" using assms(3) by simp
  then have "bt_get (op_results d) (ii_invocation x) = None"
    using operation_ok_result [OF assms(1)] by (cases "bt_get (op_results d) (ii_invocation x)")
      (fastforce simp: bt_contains_def)+
  then show ?thesis using assms InvocationIntentAppended
    by (auto simp: operation_ok_def bt_contains_insert bt_get_insert)
next
  case (InvocationResultAppended y)
  then show ?thesis using assms
    by (auto simp: operation_ok_def bt_contains_insert bt_get_insert)
next
  case (RoundBudgetDecisionAppended c)
  then show ?thesis using assms
    by (auto simp: operation_ok_def has_pending_iff split: round_budget_action.splits)
qed (use assms in \<open>auto simp: operation_ok_def has_pending_iff\<close>)

lemma fresh_operation_ok: "operation_ok i (fresh_operation i t n a)"
  by (simp add: operation_ok_def fresh_operation_def bt_contains_def)

definition operations_ok :: "restored_session \<Rightarrow> bool" where
  "operations_ok st =
     ((\<forall>i d. bt_get (ss_details st) i = Some d \<longrightarrow> operation_ok i d)
      \<and> (\<forall>i d out. bt_get (ss_details st) i = Some d \<longrightarrow> op_finished d = Some out \<longrightarrow>
           bt_get (ss_operations st) i = Some (Finished out))
      \<and> (\<forall>i. bt_contains (ss_details st) i \<longrightarrow> bt_contains (ss_operations st) i))"

lemma accepted_record:
  assumes "validate_record codec st index pf session r = Inr ()" and "accepted_operation r = Some (i, d)"
  shows "\<exists>t n a. d = fresh_operation i t n a \<and> t = ss_thread st \<and> bt_contains (ss_entries st) n
    \<and> written_state r = Some (i, Running) \<and> edited_operation r = None
    \<and> \<not> bt_contains (ss_operations st) i \<and> \<not> bt_contains (ss_details st) i"
  using assms
  by (cases r) (auto simp: validate_acceptance_def validate_finite_acceptance_def
      validate_adapter_acceptance_def split: if_splits)

text \<open>A record that writes a state respects the transitions; one that finishes the details writes
  the same outcome.\<close>

lemma written_state_allowed:
  assumes "validate_record codec st index pf session r = Inr ()" and "written_state r = Some (i, s)"
  shows "valid_operation_transition (bt_get (ss_operations st) i) s"
proof (cases r)
  case (RoundBudgetDecisionAppended c)
  then have "bt_get (ss_operations st) (rd_operation c) = Some Suspended"
    using assms(1) by (auto simp: validate_round_decision_def Let_def res_simps split: if_splits)
  then show ?thesis using assms(2) RoundBudgetDecisionAppended
    by (auto split: round_budget_action.splits)
qed (use assms in \<open>auto simp: check_transition_def validate_suspended_def validate_finished_def
    validate_adapter_finished_def validate_finish_tail_def validate_acceptance_def
    validate_finite_acceptance_def validate_adapter_acceptance_def Let_def res_simps bt_contains_def
    split: if_splits\<close>)

lemma edit_finished:
  assumes "edited_operation r = Some i"
  shows "op_finished (operation_edit r d) = op_finished d \<or>
     (\<exists>out. op_finished (operation_edit r d) = Some out \<and> written_state r = Some (i, Finished out))"
  using assms by (cases r) (auto split: round_budget_action.splits)

lemma written_by_edit:
  "written_state r = Some (i, s) \<Longrightarrow> edited_operation r = Some i
     \<or> (\<exists>d. accepted_operation r = Some (i, d)) \<or> r = OperationStateChanged i s"
  by (cases r) auto

lemma finished_is_final:
  "valid_operation_transition (Some (Finished out)) s = False"
  by (cases s) simp_all

lemma operations_step:
  assumes "operations_ok st" and "session_step codec st r st'"
  shows "operations_ok st'"
  using assms(2)
proof cases
  case (validated index pf)
  note details = details_after [OF validated(3)] and states = operations_after [OF validated(3)]
  have kept: "bt_get (ss_operations st') i = Some (Finished out)"
    if "bt_get (ss_operations st) i = Some (Finished out)" for i out
    using that states written_state_allowed [OF validated(2)] finished_is_final
    by (auto simp: bt_get_insert split: option.splits)
  have contains: "bt_contains (ss_operations st') i" if "bt_contains (ss_operations st) i" for i
    using that states by (auto simp: bt_contains_insert split: option.splits)
  have one: "operation_ok i d \<and> (\<forall>out. op_finished d = Some out \<longrightarrow>
      bt_get (ss_operations st') i = Some (Finished out)) \<and> bt_contains (ss_operations st') i"
    if present: "bt_get (ss_details st') i = Some d" for i d
  proof (cases "bt_get (ss_details st) i = Some d")
    case True
    then show ?thesis
      using assms(1) kept contains by (auto simp: operations_ok_def bt_contains_def)
  next
    case changed: False
    show ?thesis
    proof (cases "edited_operation r")
      case None
      then obtain d' where new: "accepted_operation r = Some (i, d')" and "d = d'"
        using details changed present by (auto simp: bt_get_insert split: option.splits if_splits)
      then show ?thesis
        using accepted_record [OF validated(2) new] fresh_operation_ok states
        by (auto simp: fresh_operation_def bt_contains_insert)
    next
      case (Some j)
      then obtain d0 where d0: "bt_get (ss_details st) j = Some d0"
        and new: "ss_details st' = bt_insert j (operation_edit r d0) (ss_details st)"
        using details by auto
      then have i: "i = j" "d = operation_edit r d0"
        using present changed by (auto simp: bt_get_insert split: if_splits)
      have allowed: "edit_allowed r d0" by (rule edit_is_allowed [OF validated(2) Some d0])
      have "operation_ok i d"
        using operation_edit_ok [OF _ Some allowed] assms(1) d0 i by (simp add: operations_ok_def)
      moreover have "bt_get (ss_operations st') i = Some (Finished out)" if "op_finished d = Some out" for out
        using edit_finished [OF Some, of d0] that i d0 assms(1) kept states
        by (auto simp: operations_ok_def bt_get_insert)
      moreover have "bt_contains (ss_operations st') i"
        using contains assms(1) d0 i by (auto simp: operations_ok_def bt_contains_def)
      ultimately show ?thesis by blast
    qed
  qed
  then show ?thesis by (auto simp: operations_ok_def bt_contains_def)
qed

interpretation operations: journal_invariant codec operations_ok for codec
  by unfold_locales (simp add: operations_ok_def empty_session_def bt_contains_def, rule operations_step)

section \<open>Invocation identities\<close>

definition all_intents :: "restored_session \<Rightarrow> invocation_intent set" where
  "all_intents st =
     {x. \<exists>i d n. bt_get (ss_details st) i = Some d \<and> bt_get (op_intents d) n = Some x}"

definition identities_ok :: "restored_session \<Rightarrow> bool" where
  "identities_ok st =
     (operations_ok st
      \<and> (\<forall>x \<in> all_intents st. \<forall>y \<in> all_intents st.
           ii_invocation x = ii_invocation y \<or> ii_result x = ii_result y \<longrightarrow> x = y))"

lemma all_intents_after:
  assumes "session_step codec st r st'"
  shows "all_intents st' \<subseteq> (case r of InvocationIntentAppended n \<Rightarrow> insert n (all_intents st)
     | _ \<Rightarrow> all_intents st)"
  using assms
proof cases
  case (validated index pf)
  note details = details_after [OF validated(3)]
  show ?thesis
  proof
    fix x assume "x \<in> all_intents st'"
    then obtain i d n where d: "bt_get (ss_details st') i = Some d" and x: "bt_get (op_intents d) n = Some x"
      by (auto simp: all_intents_def)
    show "x \<in> (case r of InvocationIntentAppended n \<Rightarrow> insert n (all_intents st) | _ \<Rightarrow> all_intents st)"
    proof (cases "bt_get (ss_details st) i = Some d")
      case True
      then have "x \<in> all_intents st" using x by (auto simp: all_intents_def)
      then show ?thesis by (cases r) auto
    next
      case changed: False
      show ?thesis
      proof (cases "edited_operation r")
        case None
        then have "accepted_operation r = Some (i, d)"
          using details changed d by (auto simp: bt_get_insert split: option.splits if_splits)
        then have "op_intents d = []" by (cases r) (auto simp: fresh_operation_def)
        then show ?thesis using x by simp
      next
        case (Some j)
        then obtain d0 where d0: "bt_get (ss_details st) j = Some d0"
          and "ss_details st' = bt_insert j (operation_edit r d0) (ss_details st)"
          using details by auto
        then have "d = operation_edit r d0"
          using d changed by (auto simp: bt_get_insert split: if_splits)
        moreover have "bt_get (op_intents d0) n = Some x \<Longrightarrow> x \<in> all_intents st"
          using d0 by (auto simp: all_intents_def)
        ultimately show ?thesis
          using x by (cases r) (auto simp: bt_get_insert split: if_splits)
      qed
    qed
  qed
qed

lemma intent_is_fresh:
  assumes "validate_intent st n = Inr ()" and "operations_ok st" and "x \<in> all_intents st"
  shows "ii_invocation x \<noteq> ii_invocation n \<and> ii_result x \<noteq> ii_result n"
proof -
  obtain i d k where d: "bt_get (ss_details st) i = Some d" and k: "bt_get (op_intents d) k = Some x"
    using assms(3) by (auto simp: all_intents_def)
  then have "k = ii_invocation x" using assms(2) by (auto simp: operations_ok_def operation_ok_def)
  moreover have "\<not> bt_contains (op_intents d) (ii_invocation n)"
    and "\<forall>e \<in> snd ` set (op_intents d). ii_result e \<noteq> ii_result n"
    using assms(1) bt_get_in_set [OF d] by (auto simp: validate_intent_def res_simps list_ex_iff)
  ultimately show ?thesis using k bt_get_in_set [OF k] by (auto simp: bt_contains_def)
qed

lemma identities_step:
  assumes "identities_ok st" and "session_step codec st r st'"
  shows "identities_ok st'"
proof -
  have ok: "operations_ok st" using assms(1) by (simp add: identities_ok_def)
  have unique: "x = y" if "x \<in> all_intents st'" "y \<in> all_intents st'"
    "ii_invocation x = ii_invocation y \<or> ii_result x = ii_result y" for x y
  proof (cases "\<exists>n. r = InvocationIntentAppended n")
    case True
    then obtain n where r: "r = InvocationIntentAppended n" by blast
    have valid: "validate_intent st n = Inr ()" using assms(2) by cases (simp add: r)
    then show ?thesis
      using that all_intents_after [OF assms(2)] intent_is_fresh [OF valid ok] assms(1)
      unfolding r identities_ok_def session_record.case by (metis insertE subsetD)
  next
    case False
    then have "all_intents st' \<subseteq> all_intents st"
      using all_intents_after [OF assms(2)] by (cases r) auto
    then show ?thesis using that assms(1) unfolding identities_ok_def by blast
  qed
  then show ?thesis using operations_step [OF ok assms(2)] by (simp add: identities_ok_def)
qed

interpretation identities: journal_invariant codec identities_ok for codec
proof unfold_locales
  fix s t w
  have "operations_ok (empty_session s t w)" by (rule operations.created_inv)
  then show "identities_ok (empty_session s t w)"
    by (simp add: identities_ok_def all_intents_def empty_session_def)
qed (rule identities_step)

section \<open>Children\<close>

abbreviation child_lifecycle_of :: "restored_child \<Rightarrow> child_lifecycle" where
  "child_lifecycle_of c \<equiv> hs_lifecycle (kc_handle c)"

definition child_ok :: "uuid \<Rightarrow> restored_child \<Rightarrow> bool" where
  "child_ok a c =
     (ca_agent (child_attribution_of c) = a
      \<and> ca_agent (child_attribution_of c) \<noteq> ca_parent_agent (child_attribution_of c)
      \<and> ca_operation (child_attribution_of c) \<noteq> ca_parent_operation (child_attribution_of c)
      \<and> (case kc_report c of
           None \<Rightarrow> \<not> lifecycle_is_terminal (child_lifecycle_of c) \<and> hs_report (kc_handle c) = None
         | Some r \<Rightarrow> re_attribution r = child_attribution_of c
             \<and> child_lifecycle_of c = terminal_lifecycle (re_status r)
             \<and> hs_report (kc_handle c) = Some (re_reference r)))"

definition children_ok :: "restored_session \<Rightarrow> bool" where
  "children_ok st =
     (bt_wf (ss_children st)
      \<and> (\<forall>a c. bt_get (ss_children st) a = Some c \<longrightarrow> child_ok a c)
      \<and> (\<forall>a b c d. bt_get (ss_children st) a = Some c \<longrightarrow> bt_get (ss_children st) b = Some d \<longrightarrow>
           ca_operation (child_attribution_of c) = ca_operation (child_attribution_of d) \<longrightarrow> a = b))"

lemma terminal_lifecycle_terminal [simp]: "lifecycle_is_terminal (terminal_lifecycle s)"
  by (cases s) (simp_all add: lifecycle_is_terminal_def)

text \<open>One admission of a handle that validation let through.\<close>

definition fresh_child :: "restored_session \<Rightarrow> agent_handle \<Rightarrow> bool" where
  "fresh_child st h =
     (\<not> bt_contains (ss_children st) (ca_agent (cm_attribution (hs_admission h)))
      \<and> \<not> lifecycle_is_terminal (hs_lifecycle h) \<and> hs_report h = None
      \<and> ca_agent (cm_attribution (hs_admission h)) \<noteq> ca_parent_agent (cm_attribution (hs_admission h))
      \<and> ca_operation (cm_attribution (hs_admission h)) \<noteq> ca_parent_operation (cm_attribution (hs_admission h))
      \<and> (\<forall>a c. bt_get (ss_children st) a = Some c \<longrightarrow>
           ca_operation (child_attribution_of c) \<noteq> ca_operation (cm_attribution (hs_admission h))))"

lemma admit_child_ok:
  assumes "children_ok st" and "fresh_child st h"
  shows "children_ok (admit_child h st)"
  using assms
  by (auto simp: children_ok_def fresh_child_def admit_child_def child_ok_def bt_get_insert
      bt_wf_insert bt_contains_def split: if_splits) blast

lemma admission_is_fresh:
  assumes "validate_child_admission codec st h l = Inr ()" and "\<not> lifecycle_is_terminal l"
  shows "fresh_child st h"
proof -
  have "list_all (\<lambda>c. ca_operation (child_attribution_of c) \<noteq> ca_operation (cm_attribution (hs_admission h)))
      (map snd (ss_children st))"
    using assms(1) by (auto simp: validate_child_admission_def Let_def child_operation_is_unique_def
        split: if_splits)
  then have "bt_get (ss_children st) a = Some c \<Longrightarrow>
      ca_operation (child_attribution_of c) \<noteq> ca_operation (cm_attribution (hs_admission h))" for a c
    using bt_get_in_set by (fastforce simp: list_all_iff)
  then show ?thesis
    using assms by (auto simp: fresh_child_def validate_child_admission_def Let_def
        child_operation_is_unique_def split: if_splits)
qed

lemma fresh_child_admit:
  assumes "fresh_child st h" and "ca_agent (cm_attribution (hs_admission g)) \<noteq> ca_agent (cm_attribution (hs_admission h))"
    and "ca_operation (cm_attribution (hs_admission g)) \<noteq> ca_operation (cm_attribution (hs_admission h))"
  shows "fresh_child (admit_child g st) h"
  using assms by (auto simp: fresh_child_def admit_child_def bt_get_insert bt_contains_def split: if_splits)

lemma batch_members:
  assumes "validate_batch_members codec st agents operations hs = Inr ()"
  shows "(\<forall>h \<in> set hs. fresh_child st h
       \<and> ca_agent (cm_attribution (hs_admission h)) \<notin> set agents
       \<and> ca_operation (cm_attribution (hs_admission h)) \<notin> set operations)
     \<and> distinct (map (\<lambda>h. ca_agent (cm_attribution (hs_admission h))) hs)
     \<and> distinct (map (\<lambda>h. ca_operation (cm_attribution (hs_admission h))) hs)"
  using assms
proof (induction hs arbitrary: agents operations)
  case (Cons h hs)
  let ?a = "cm_attribution (hs_admission h)"
  have rest: "validate_batch_members codec st (ca_agent ?a # agents) (ca_operation ?a # operations) hs = Inr ()"
    and first: "validate_child_admission codec st h ChildQueued = Inr ()"
    and "ca_agent ?a \<notin> set agents" "ca_operation ?a \<notin> set operations"
    using Cons.prems by (auto simp: Let_def res_simps split: if_splits)
  moreover have "fresh_child st h"
    using admission_is_fresh [OF first] by (simp add: lifecycle_is_terminal_def)
  ultimately show ?case using Cons.IH [OF rest] by auto
qed simp

lemma admit_batch_ok:
  assumes "children_ok st" and "\<forall>h \<in> set hs. fresh_child st h"
    and "distinct (map (\<lambda>h. ca_agent (cm_attribution (hs_admission h))) hs)"
    and "distinct (map (\<lambda>h. ca_operation (cm_attribution (hs_admission h))) hs)"
  shows "children_ok (fold admit_child hs st)"
  using assms
proof (induction hs arbitrary: st)
  case (Cons h hs)
  have "\<forall>g \<in> set hs. fresh_child (admit_child h st) g"
    using Cons.prems by (auto intro!: fresh_child_admit)
  then show ?case using Cons admit_child_ok by simp
qed simp

lemma edit_child_ok:
  assumes "children_ok st" and "bt_get (ss_children st) a = Some c"
    and "child_ok a (f c)" and "child_attribution_of (f c) = child_attribution_of c"
  shows "children_ok (st\<lparr>ss_children := bt_insert a (f c) (ss_children st)\<rparr>)"
  using assms
  by (auto simp: children_ok_def bt_get_insert bt_wf_insert split: if_splits)

lemma children_step:
  assumes "children_ok st" and "session_step codec st r st'"
  shows "children_ok st'"
  using assms(2)
proof cases
  case (validated index pf)
  have same: "ss_children st' = ss_children st \<Longrightarrow> children_ok st'"
    using assms(1) by (simp add: children_ok_def)
  show ?thesis
  proof (cases r)
    case (ChildAdmitted h)
    then have "fresh_child st h" using validated(2)
      by (intro admission_is_fresh [of codec st h ChildAdmittedState])
        (simp_all add: lifecycle_is_terminal_def)
    then show ?thesis using admit_child_ok [OF assms(1)] validated(3) ChildAdmitted by auto
  next
    case (ChildrenBatchAdmitted hs)
    then have "validate_batch_members codec st [] [] hs = Inr ()"
      using validated(2) by (simp add: validate_child_batch_def res_simps)
    then show ?thesis
      using admit_batch_ok [OF assms(1)] batch_members validated(3) ChildrenBatchAdmitted by force
  next
    case (ChildLifecycleChanged a l)
    then obtain c where c: "bt_get (ss_children st) a = Some c"
      "st' = st\<lparr>ss_children := bt_insert a (c\<lparr>kc_handle := apply_lifecycle l (kc_handle c)\<rparr>) (ss_children st)\<rparr>"
      using validated(3) by (auto simp: update_child_Some)
    have ok: "child_ok a c" using assms(1) c(1) by (simp add: children_ok_def)
    moreover have "\<not> lifecycle_is_terminal l \<and> \<not> lifecycle_is_terminal (child_lifecycle_of c)"
      using validated(2) ChildLifecycleChanged c(1)
      by (cases "child_lifecycle_of c"; cases l)
        (auto simp: validate_child_lifecycle_def lifecycle_is_terminal_def split: if_splits)
    ultimately show ?thesis
      unfolding c(2) using c(1)
      by (intro edit_child_ok [OF assms(1)]) (auto simp: child_ok_def apply_lifecycle_def split: option.splits)
  next
    case (ChildReportCommitted x)
    let ?a = "ca_agent (re_attribution x)"
    obtain c where c: "bt_get (ss_children st) ?a = Some c"
      "st' = st\<lparr>ss_children := bt_insert ?a
        (c\<lparr>kc_handle := apply_report x (kc_handle c), kc_report := Some x\<rparr>) (ss_children st)\<rparr>"
      using validated(3) ChildReportCommitted by (auto simp: update_child_Some)
    have ok: "child_ok ?a c" using assms(1) c(1) by (simp add: children_ok_def)
    have "re_attribution x = child_attribution_of c"
      using validated(2) ChildReportCommitted c(1)
      by (simp add: validate_report_committed_def Let_def res_simps)
    with ok have "child_ok ?a (c\<lparr>kc_handle := apply_report x (kc_handle c), kc_report := Some x\<rparr>)"
      by (simp add: child_ok_def apply_report_def)
    then show ?thesis
      unfolding c(2) by (rule edit_child_ok [OF assms(1) c(1)]) (simp add: apply_report_def)
  qed (use children_after [OF validated(3)] same in simp_all)
qed

interpretation children: journal_invariant codec children_ok for codec
  by unfold_locales (simp add: children_ok_def empty_session_def, rule children_step)

end
