(* ===== verification/Session_Properties.thy ===== *)
theory Session_Properties
  imports Session_Invariants
begin

text \<open>
  Properties of the reduced Conversation: contexts and receipts, what later records can never change,
  and the theorems on whole journals, with a small concrete journal that shows they apply.
\<close>

section \<open>Contexts and artifacts\<close>

definition contexts_ok :: "restored_session \<Rightarrow> bool" where
  "contexts_ok st =
     (bt_wf (ss_contexts st)
      \<and> (\<forall>i. \<exists>n. \<forall>v. bt_contains (ss_contexts st) (i, v) \<longleftrightarrow> 1 \<le> v \<and> v \<le> n)
      \<and> (\<forall>i v c. bt_get (ss_contexts st) (i, v) = Some c \<longrightarrow> cx_id c = i \<and> cx_version c = v
           \<and> (\<exists>a. bt_get (ss_artifacts st) (arf_id (cx_artifact c)) = Some a
                \<and> arf_hash (art_reference a) = cx_hash c \<and> art_byte_len a = cx_size c))
      \<and> (\<forall>k w. bt_get (ss_views st) k = Some w \<longrightarrow>
           bt_contains (ss_contexts st) (vw_source w, vw_source_version w))
      \<and> (\<forall>name i v. bt_get (ss_named_context st) name = Some (i, v) \<longrightarrow>
           bt_contains (ss_contexts st) (i, v)))"

text \<open>The last key of a context's range is its greatest version.\<close>

lemma last_sorted: "sorted_wrt (<) xs \<Longrightarrow> xs \<noteq> [] \<Longrightarrow> last xs = Max (set (xs :: nat list))"
  by (induction xs rule: rev_induct) (auto simp: sorted_wrt_append intro!: Max_eqI [symmetric])

lemma latest_version_eq:
  assumes "bt_wf (ss_contexts st)"
    and range: "\<forall>v. bt_contains (ss_contexts st) (i, v) \<longleftrightarrow> 1 \<le> v \<and> v \<le> n"
  shows "latest_version st i = (if n = 0 then None else Some n)"
proof -
  let ?ks = "filter (\<lambda>k. fst k = i) (bt_keys (ss_contexts st))"
  let ?vs = "map snd ?ks"
  have "sorted_wrt (<) ?ks" using assms(1) by (simp add: bt_wf_def bt_keys_def sorted_wrt_filter)
  then have "sorted_wrt (\<lambda>a b. snd a < snd b) ?ks"
    by (rule sorted_wrt_mono_rel [rotated]) (auto simp: less_prod_def)
  then have sorted: "sorted_wrt (<) ?vs" by (simp add: sorted_wrt_map)
  have "v \<in> set ?vs \<longleftrightarrow> bt_contains (ss_contexts st) (i, v)" for v
    using set_bt_keys [of "ss_contexts st"] by (force simp: bt_contains_def)
  then have set: "set ?vs = {1..n}" using range by (intro set_eqI) (simp only: atLeastAtMost_iff)
  show ?thesis
  proof (cases "n = 0")
    case True
    then have "?vs = []" using set by (metis atLeastatMost_empty less_one set_empty)
    then show ?thesis using True by (simp add: latest_version_def del: map_is_Nil_conv)
  next
    case False
    then have "?vs \<noteq> []" using set by (metis atLeastatMost_empty_iff empty_set not_less_eq_eq One_nat_def le_0_eq)
    moreover have "Max {1..n} = n" using False by (intro Max_eqI) auto
    ultimately show ?thesis
      using last_sorted [OF sorted] False set unfolding latest_version_def Let_def
      by (simp del: map_is_Nil_conv set_map)
  qed
qed

lemma contexts_frame:
  assumes "contexts_ok st" and "ss_contexts st' = ss_contexts st"
    and "\<And>i a. bt_get (ss_artifacts st) i = Some a \<Longrightarrow> bt_get (ss_artifacts st') i = Some a"
    and "\<And>k w. bt_get (ss_views st') k = Some w \<Longrightarrow> bt_get (ss_views st) k = Some w
      \<or> bt_contains (ss_contexts st) (vw_source w, vw_source_version w)"
    and "\<And>name i v. bt_get (ss_named_context st') name = Some (i, v) \<Longrightarrow>
      bt_get (ss_named_context st) name = Some (i, v) \<or> bt_contains (ss_contexts st) (i, v)"
  shows "contexts_ok st'"
  using assms(1) unfolding contexts_ok_def assms(2) using assms(3-5) by meson

lemma contexts_step:
  assumes "contexts_ok st" and "session_step codec st r st'"
  shows "contexts_ok st'"
  using assms(2)
proof cases
  case (validated index pf)
  note after = contexts_after [OF validated(3)] artifacts_after [OF validated(3)]
    views_after [OF validated(3)] named_context_after [OF validated(3)]
  show ?thesis
  proof (cases "\<exists>c. r = ContextRegistered c")
    case True
    then obtain c where r: "r = ContextRegistered c" by blast
    have vers: "\<exists>n. \<forall>v. bt_contains (ss_contexts st) (i, v) \<longleftrightarrow> 1 \<le> v \<and> v \<le> n" for i
      using assms(1) unfolding contexts_ok_def by blast
    then obtain n where n: "\<forall>v. bt_contains (ss_contexts st) (cx_id c, v) \<longleftrightarrow> 1 \<le> v \<and> v \<le> n"
      by blast
    have olds: "bt_get (ss_contexts st) (i, v) = Some x \<Longrightarrow> cx_id x = i \<and> cx_version x = v
        \<and> (\<exists>a. bt_get (ss_artifacts st) (arf_id (cx_artifact x)) = Some a
           \<and> arf_hash (art_reference a) = cx_hash x \<and> art_byte_len a = cx_size x)" for i v x
      using assms(1) unfolding contexts_ok_def by blast
    have wf: "bt_wf (ss_contexts st)" using assms(1) by (simp add: contexts_ok_def)
    have version: "cx_version c = Suc n"
      using validated(2) latest_version_eq [OF wf n]
      by (auto simp: r validate_context_def res_simps Let_def split: if_splits)
    have artifact: "\<exists>a. bt_get (ss_artifacts st) (arf_id (cx_artifact c)) = Some a
        \<and> arf_hash (art_reference a) = cx_hash c \<and> art_byte_len a = cx_size c"
      using validated(2) by (auto simp: r validate_context_def res_simps)
    let ?m = "bt_insert (cx_id c, cx_version c) c (ss_contexts st)"
    have same: "ss_contexts st' = ?m" "ss_artifacts st' = ss_artifacts st" "ss_views st' = ss_views st"
      "ss_named_context st' = ss_named_context st" using after by (simp_all add: r)
    have versions: "\<exists>n. \<forall>v. bt_contains ?m (i, v) \<longleftrightarrow> 1 \<le> v \<and> v \<le> n" for i
    proof (cases "i = cx_id c")
      case True
      have "bt_contains ?m (i, v) \<longleftrightarrow> 1 \<le> v \<and> v \<le> Suc n" for v
      proof -
        have "bt_contains ?m (i, v) \<longleftrightarrow> v = Suc n \<or> bt_contains (ss_contexts st) (cx_id c, v)"
          using True version by (simp add: bt_contains_insert)
        then show ?thesis unfolding n [rule_format] by auto
      qed
      then show ?thesis by blast
    next
      case False
      then show ?thesis using vers [of i] by (simp add: bt_contains_insert)
    qed
    have old: "bt_contains (ss_contexts st) k \<Longrightarrow> bt_contains ?m k" for k
      by (simp add: bt_contains_insert)
    have entries: "bt_get ?m (i, v) = Some x \<Longrightarrow> cx_id x = i \<and> cx_version x = v
        \<and> (\<exists>a. bt_get (ss_artifacts st) (arf_id (cx_artifact x)) = Some a
           \<and> arf_hash (art_reference a) = cx_hash x \<and> art_byte_len a = cx_size x)" for i v x
      using olds [of i v x] artifact by (auto simp: bt_get_insert split: if_splits)
    have views: "bt_get (ss_views st) k = Some w \<Longrightarrow> bt_contains ?m (vw_source w, vw_source_version w)"
      and names: "bt_get (ss_named_context st) name = Some (i, v) \<Longrightarrow> bt_contains ?m (i, v)"
      for k w name i v using assms(1) old unfolding contexts_ok_def by blast+
    show ?thesis
      unfolding contexts_ok_def same
      by (intro conjI allI impI) (rule bt_wf_insert [OF wf], rule versions, (drule entries, simp)+,
        erule views, erule names)
  next
    case False
    then have "ss_contexts st' = ss_contexts st" using after(1) by (cases r) auto
    then show ?thesis
    proof (rule contexts_frame [OF assms(1)])
      fix i a assume "bt_get (ss_artifacts st) i = Some a"
      then show "bt_get (ss_artifacts st') i = Some a"
        using after(2) validated(2)
        by (cases r) (auto simp: bt_get_insert validate_artifact_def res_simps bt_contains_def)
    next
      fix k w assume "bt_get (ss_views st') k = Some w"
      then show "bt_get (ss_views st) k = Some w
          \<or> bt_contains (ss_contexts st) (vw_source w, vw_source_version w)"
        using after(3) validated(2)
        by (cases r) (auto simp: bt_get_insert validate_view_def split: if_splits)
    next
      fix name i v assume "bt_get (ss_named_context st') name = Some (i, v)"
      then show "bt_get (ss_named_context st) name = Some (i, v) \<or> bt_contains (ss_contexts st) (i, v)"
        using after(4) validated(2)
        by (cases r) (auto simp: bt_get_insert validate_named_context_def split: if_splits)
    qed
  qed
qed

interpretation contexts: journal_invariant codec contexts_ok for codec
proof unfold_locales
  show "contexts_ok (empty_session s t w)" for s t w
    by (auto simp: contexts_ok_def empty_session_def bt_contains_def intro: exI [of _ 0])
qed (rule contexts_step)

section \<open>Receipts\<close>

text \<open>At most one receipt is kept per generation, and every kept one is valid with the verdict its
  facts support.\<close>

definition receipts_ok :: "'x evidence_codec_scheme \<Rightarrow> restored_session \<Rightarrow> bool" where
  "receipts_ok codec st =
     (receipts_bounded st \<and> distinct (map cv_generation (ss_evidence st))
      \<and> (\<forall>e \<in> set (ss_evidence st). validate_evidence codec e = Inr ()
           \<and> cv_outcome e = verdict codec e))"

lemma set_remove_first: "remove_first P xs = Some ys \<Longrightarrow> set ys \<subseteq> set xs"
  by (induction xs arbitrary: ys) (auto split: if_splits)

lemma distinct_remove_first:
  "remove_first P xs = Some ys \<Longrightarrow> distinct (map f xs) \<Longrightarrow> distinct (map f ys)"
proof (induction xs arbitrary: ys)
  case (Cons x xs)
  show ?case
  proof (cases "P x")
    case False
    then obtain zs where zs: "remove_first P xs = Some zs" and "ys = x # zs"
      using Cons.prems(1) by auto
    then show ?thesis using Cons.IH [OF zs] Cons.prems(2) set_remove_first [OF zs] by auto
  qed (use Cons.prems in simp)
qed simp

lemma retain_completion_evidence:
  assumes "retain_completion e st = Some st'"
  obtains kept where "ss_evidence st' = kept @ [e]" and "set kept \<subseteq> set (ss_evidence st)"
    and "\<forall>p \<in> set kept. cv_generation p \<noteq> cv_generation e"
    and "distinct (map cv_generation (ss_evidence st)) \<Longrightarrow> distinct (map cv_generation kept)"
proof -
  let ?kept = "filter (\<lambda>p. cv_generation p \<noteq> cv_generation e) (ss_evidence st)"
  show ?thesis
  proof (cases "length ?kept \<ge> MAX_RECEIPTS")
    case True
    then obtain rest where rest: "remove_first (\<lambda>i. \<not> completion_inflight st (cv_generation i)) ?kept = Some rest"
      and "ss_evidence st' = rest @ [e]"
      using assms by (auto simp: retain_completion_def Let_def)
    then show ?thesis
      using set_remove_first [OF rest] distinct_remove_first [OF rest, of cv_generation]
      by (intro that [of rest]) (auto simp: distinct_map_filter)
  next
    case False
    then show ?thesis using assms
      by (intro that [of ?kept]) (auto simp: retain_completion_def Let_def distinct_map_filter)
  qed
qed

lemma retain_completion_ok:
  assumes "receipts_ok codec st" and "retain_completion e st = Some st'"
    and "validate_evidence codec e = Inr ()" and "cv_outcome e = verdict codec e"
  shows "receipts_ok codec st'"
  using retain_completion_evidence [OF assms(2)]
proof cases
  case (1 kept)
  have "receipts_bounded st'"
    using retain_completion_bounded [OF _ assms(2)] assms(1) by (simp add: receipts_ok_def)
  then show ?thesis using 1 assms(1,3,4) by (auto simp: receipts_ok_def)
qed

lemma valid_transition_checked:
  "valid_transition codec p e \<Longrightarrow> validate_evidence codec e = Inr () \<and> cv_outcome e = verdict codec e"
  by (auto simp: valid_transition_def evaluate_evidence_def elim: is_okE)

lemma receipts_ok_step:
  assumes "receipts_ok codec st" and "session_step codec st r st'"
  shows "receipts_ok codec st'"
  using assms(2)
proof cases
  case (validated index pf)
  have same: "ss_evidence s = ss_evidence st \<Longrightarrow> receipts_ok codec s" for s
    using assms(1) by (simp add: receipts_ok_def receipts_bounded_def)
  note after = evidence_after [OF validated(3)]
  show ?thesis
  proof (cases r)
    case (CompletionEvidenceRecorded e)
    then have "\<exists>p. valid_transition codec p e"
      using validated(2) by (auto simp: validate_evidence_recorded_def Let_def res_simps)
    then show ?thesis
      using after CompletionEvidenceRecorded valid_transition_checked
      by (auto intro: retain_completion_ok [OF assms(1)])
  next
    case (FiniteOperationAccepted i t n e)
    then have "valid_transition codec None e"
      using validated(2) by (auto simp: validate_finite_acceptance_def split: if_splits)
    moreover have "receipts_ok codec (accept_operation i t n None st)"
      by (rule same) (simp add: accept_operation_def set_operation_state_def)
    ultimately show ?thesis
      using after FiniteOperationAccepted valid_transition_checked by (auto intro: retain_completion_ok)
  qed (use after same in simp_all)
qed

interpretation kept_receipts: journal_invariant codec "receipts_ok codec" for codec
  by unfold_locales (simp add: receipts_ok_def receipts_bounded_def empty_session_def, rule receipts_ok_step)

section \<open>What later records never change\<close>

inductive session_run :: "'x session_codec_scheme \<Rightarrow> restored_session \<Rightarrow> restored_session \<Rightarrow> bool"
  for codec where
  start: "session_run codec st st"
| further: "session_run codec st st1 \<Longrightarrow> session_step codec st1 r st2 \<Longrightarrow> session_run codec st st2"

locale journal_monotone = journal_invariant +
  fixes below :: "restored_session \<Rightarrow> restored_session \<Rightarrow> bool"
  assumes below_refl: "below st st"
    and below_trans: "below st st1 \<Longrightarrow> below st1 st2 \<Longrightarrow> below st st2"
    and step_below: "inv st \<Longrightarrow> session_step codec st r st' \<Longrightarrow> below st st'"
begin

lemma run_below: "session_run codec st st' \<Longrightarrow> inv st \<Longrightarrow> inv st' \<and> below st st'"
  by (induction rule: session_run.induct) (auto intro: below_refl below_trans step_below step_inv)

end

definition history_kept :: "restored_session \<Rightarrow> restored_session \<Rightarrow> bool" where
  "history_kept st st' =
     ((\<forall>i e. bt_get (ss_entries st) i = Some e \<longrightarrow> bt_get (ss_entries st') i = Some e)
      \<and> (\<forall>i a. bt_get (ss_artifacts st) i = Some a \<longrightarrow> bt_get (ss_artifacts st') i = Some a)
      \<and> (\<forall>k c. bt_get (ss_contexts st) k = Some c \<longrightarrow> bt_get (ss_contexts st') k = Some c)
      \<and> (\<forall>i d. bt_get (ss_details st) i = Some d \<longrightarrow> op_finished d \<noteq> None \<longrightarrow>
           bt_get (ss_details st') i = Some d
           \<and> bt_get (ss_operations st') i = bt_get (ss_operations st) i)
      \<and> (\<forall>a c. bt_get (ss_children st) a = Some c \<longrightarrow> kc_report c \<noteq> None \<longrightarrow>
           bt_get (ss_children st') a = Some c)
      \<and> prefix (ss_compactions st) (ss_compactions st'))"

lemma history_kept_trans: "history_kept a b \<Longrightarrow> history_kept b c \<Longrightarrow> history_kept a c"
  unfolding history_kept_def by (auto intro: prefix_order.trans)

lemma edited_unfinished:
  assumes "validate_record codec st index pf session r = Inr ()" and "edited_operation r = Some i"
    and "bt_get (ss_details st) i = Some d"
  shows "op_finished d = None"
  using edit_is_allowed [OF assms] assms(2) by (cases r) auto

lemma finished_kept:
  assumes "operations_ok st" and "session_step codec st r st'"
    and "bt_get (ss_details st) i = Some d" and "op_finished d = Some out"
  shows "bt_get (ss_details st') i = Some d \<and> bt_get (ss_operations st') i = bt_get (ss_operations st) i"
  using assms(2)
proof cases
  case (validated index pf)
  have state: "bt_get (ss_operations st) i = Some (Finished out)"
    using assms by (simp add: operations_ok_def)
  have "edited_operation r \<noteq> Some i"
    using edited_unfinished [OF validated(2) _ assms(3)] assms(4) by auto
  moreover have "accepted_operation r \<noteq> Some (i, d')" for d'
    using accepted_record [OF validated(2), of i d'] assms(3) by (auto simp: bt_contains_def)
  ultimately have "bt_get (ss_details st') i = Some d"
    using details_after [OF validated(3)] assms(3) by (auto simp: bt_get_insert split: option.splits)
  moreover have "written_state r \<noteq> Some (i, s)" for s
    using written_state_allowed [OF validated(2), of i s] state finished_is_final by auto
  ultimately show ?thesis
    using operations_after [OF validated(3)] by (auto simp: bt_get_insert split: option.splits)
qed

lemma fold_admit_lookup:
  "\<forall>h \<in> set hs. ca_agent (cm_attribution (hs_admission h)) \<noteq> a \<Longrightarrow>
   bt_get (fold (\<lambda>h. bt_insert (ca_agent (cm_attribution (hs_admission h)))
      \<lparr>kc_handle = h, kc_report = None\<rparr>) hs m) a = bt_get m a"
  by (induction hs arbitrary: m) (auto simp: bt_get_insert)

lemma admitted_fresh:
  assumes "validate_record codec st index pf session r = Inr ()" and "h \<in> set (admitted_children r)"
  shows "\<not> bt_contains (ss_children st) (ca_agent (cm_attribution (hs_admission h)))"
proof (cases r)
  case (ChildAdmitted g)
  then show ?thesis using assms
    by (auto simp: validate_child_admission_def Let_def split: if_splits)
next
  case (ChildrenBatchAdmitted hs)
  then have "validate_batch_members codec st [] [] hs = Inr ()"
    using assms(1) by (simp add: validate_child_batch_def res_simps)
  from batch_members [OF this] show ?thesis
    using assms(2) ChildrenBatchAdmitted by (simp add: fresh_child_def)
qed (use assms in simp_all)

lemma reported_kept:
  assumes "session_step codec st r st'" and "children_ok st"
    and "bt_get (ss_children st) a = Some c" and "kc_report c = Some x"
  shows "bt_get (ss_children st') a = Some c"
  using assms(1)
proof cases
  case (validated index pf)
  have terminal: "lifecycle_is_terminal (child_lifecycle_of c)"
    using assms(2-4) by (fastforce simp: children_ok_def child_ok_def)
  have no_edit: "b \<noteq> a" if "edited_child r = Some (b, f)" for b f
    using that validated(2) assms(3,4) terminal
    by (cases r) (auto simp: validate_report_committed_def validate_child_lifecycle_def Let_def
        res_simps lifecycle_is_terminal_def split: if_splits)
  moreover have "\<forall>h \<in> set (admitted_children r). ca_agent (cm_attribution (hs_admission h)) \<noteq> a"
    using admitted_fresh [OF validated(2)] assms(3) by (auto simp: bt_contains_def)
  ultimately show ?thesis
    using children_after [OF validated(3)] assms(3)
    by (cases "edited_child r") (auto simp: bt_get_insert fold_admit_lookup)
qed

lemma history_step:
  assumes "operations_ok st \<and> children_ok st" and "session_step codec st r st'"
  shows "history_kept st st'"
  using assms(2)
proof cases
  case (validated index pf)
  have entries: "bt_get (ss_entries st') i = Some e" if "bt_get (ss_entries st) i = Some e" for i e
    using entries_after [OF validated(3)] validated(2) that
    by (cases r) (auto simp: bt_get_insert validate_entry_def res_simps bt_contains_def split: if_splits)
  have artifacts: "bt_get (ss_artifacts st') i = Some e" if "bt_get (ss_artifacts st) i = Some e" for i e
    using artifacts_after [OF validated(3)] validated(2) that
    by (cases r) (auto simp: bt_get_insert validate_artifact_def res_simps bt_contains_def)
  have contexts: "bt_get (ss_contexts st') k = Some c" if "bt_get (ss_contexts st) k = Some c" for k c
    using contexts_after [OF validated(3)] validated(2) that
    by (cases r) (auto simp: bt_get_insert validate_context_def res_simps bt_contains_def Let_def
        split: if_splits)
  have compactions: "prefix (ss_compactions st) (ss_compactions st')"
    using compactions_after [OF validated(3)] by (cases r) auto
  show ?thesis
    using entries artifacts contexts compactions finished_kept [OF _ assms(2)] reported_kept [OF assms(2)]
      assms(1) unfolding history_kept_def by blast
qed

interpretation history: journal_monotone codec "\<lambda>st. operations_ok st \<and> children_ok st" history_kept for codec
proof unfold_locales
  show "operations_ok (empty_session s t w) \<and> children_ok (empty_session s t w)" for s t w
    by (intro conjI operations.created_inv children.created_inv)
  show "history_kept st st" for st by (simp add: history_kept_def)
qed (auto intro: operations_step children_step history_step history_kept_trans)

section \<open>A concrete journal\<close>

text \<open>One user turn: an operation whose single tool call is answered before it completes.\<close>

definition sample_session_codec :: session_codec where
  "sample_session_codec =
     vision_codec.extend sample_vision_codec
       (session_codec.fields (\<lambda>s. None) (\<lambda>c. utf8_bytes (xc_inputs_digest c)) (\<lambda>i. i + 1000))"

definition sample_audit :: audit_fact where
  "sample_audit =
     \<lparr>af_request = \<lparr>rq_operation = 20, rq_invocation = 40, rq_tool = rstr ''read_file'', rq_effect = Read,
        rq_arguments = JNull, rq_scope = Unscoped, rq_outbound = None\<rparr>,
      af_policy = Allow, af_controller = None, af_effective = Allow\<rparr>"

definition sample_intent :: invocation_intent where
  "sample_intent =
     \<lparr>ii_operation = 20, ii_step = 30, ii_invocation = 40, ii_result = 41, ii_model_call = rstr ''c'',
      ii_target = ToolTarget (rstr ''read_file'') 1, ii_arguments = JNull, ii_permission = sample_audit,
      ii_replay_safety = ReplaySafe\<rparr>"

definition sample_result :: invocation_result where
  "sample_result =
     \<lparr>ir_operation = 20, ir_invocation = 40, ir_result = 41,
      ir_outcome = InvocationCompleted (InlineJson JNull), ir_command_status = None\<rparr>"

definition sample_entry :: "uuid \<Rightarrow> uuid option \<Rightarrow> role \<Rightarrow> conversation_entry" where
  "sample_entry i p r =
     \<lparr>et_id = i, et_parent = p, et_agent = 5, et_message = text_message r (rstr ''hi'')\<rparr>"

definition sample_records :: "session_record list" where
  "sample_records =
     [SessionCreated 2 [RootDir], ConversationEntryAppended (sample_entry 10 None UserRole),
      ThreadHeadMoved 2 (Some 10), OperationAccepted 20 2 10,
      ConversationEntryAppended (sample_entry 11 (Some 10) AssistantRole),
      ThreadHeadMoved 2 (Some 11), StepStarted 20 30 11, InvocationIntentAppended sample_intent,
      InvocationResultAppended sample_result, OperationFinished 20 OpCompleted]"

definition sample_journal :: "record_envelope list" where
  "sample_journal =
     map (\<lambda>(i, r). \<lparr>rn_version = 1, rn_record_id = 100 + i, rn_session = 1, rn_record = r\<rparr>)
       (enumerate 0 sample_records)"

definition sample_state :: restored_session where
  "sample_state = (case reduce sample_session_codec sample_journal of Some (Inr st) \<Rightarrow> st
     | _ \<Rightarrow> empty_session 0 0 [])"

lemma sample_reduced:
  "reduce sample_session_codec sample_journal = Some (Inr sample_state)"
  "bt_get (ss_operations sample_state) 20 = Some (Finished OpCompleted)"
  by code_simp+

section \<open>Properties of reduction\<close>

lemma walk_path_cong:
  assumes "ss_entries st' = ss_entries st" and "ss_archived st' = ss_archived st"
  shows "walk_path st' c seen = walk_path st c seen"
proof -
  have "archived_end st' = archived_end st" by (simp add: archived_end_def assms)
  with assms(1) show ?thesis
    by (induction st c seen rule: walk_path.induct) (auto simp: walk_path.simps(2) split: option.splits)
qed

lemma entry_path_cong:
  assumes "ss_entries st' = ss_entries st" and "ss_head st' = ss_head st"
    and "ss_archived st' = ss_archived st"
  shows "entry_path st' = entry_path st"
  by (simp add: entry_path_def walk_path_cong [OF assms(1,3)] assms(2))

lemma retained_offset_cong:
  assumes "ss_entries st' = ss_entries st" and "ss_head st' = ss_head st"
    and "ss_archived st' = ss_archived st"
  shows "retained_offset st' = retained_offset st"
  unfolding retained_offset_def entry_path_cong [OF assms] assms(3) ..

text \<open>C25: reading a journal never panics: every record that validation lets through can be applied,
  and the retained receipts always have room, so that the reduction is a state or an error.\<close>

theorem reduction_never_panics: "reduce codec records \<noteq> None"
proof -
  have "x \<noteq> None" if "reduce codec records = x" for x
    using that
  proof (cases rule: reduce_cases)
    case (ran first rest thread workspace)
    have "receipts_bounded (empty_session (rn_session first) thread workspace)"
      by (rule receipts.created_inv)
    from reduce_from_defined [OF this, of 1] show ?thesis using ran(3) by simp
  qed simp
  then show ?thesis by blast
qed

text \<open>C28: in every reachable session the conversation is a path from the head back to a root: the
  walk ends without meeting an entry twice or a missing one, and yields distinct stored entries
  linked by their parents, oldest first.\<close>

theorem conversation_path_sound:
  assumes "reachable_session codec st" and "ss_archived st = None"
  shows "\<exists>path. entry_path st = Inr path \<and> distinct (map et_id path)
     \<and> (\<forall>e \<in> set path. bt_get (ss_entries st) (et_id e) = Some e)
     \<and> (if path = [] then ss_head st = None
        else ss_head st = Some (et_id (last path)) \<and> et_parent (hd path) = None)
     \<and> (\<forall>k. Suc k < length path \<longrightarrow> et_parent (path ! Suc k) = Some (et_id (path ! k)))"
proof -
  have ok: "conversation_ok st" by (rule forest.reachable_inv [OF assms(1)])
  have stop: "archived_end st = None" using assms(2) by (simp add: archived_end_def)
  obtain es where es: "entry_path st = Inr (rev es)" "parent_chain st (ss_head st) es"
    "distinct (map et_id es)" using entry_path_total [OF ok] by blast
  have chain: "(\<forall>e \<in> set xs. bt_get (ss_entries st) (et_id e) = Some e)
      \<and> (if xs = [] then c = None else c = Some (et_id (hd xs)) \<and> et_parent (last xs) = None)
      \<and> (\<forall>k. Suc k < length xs \<longrightarrow> et_parent (xs ! k) = Some (et_id (xs ! Suc k)))"
    if "parent_chain st c xs" for c xs
    using that
  proof (induction xs arbitrary: c)
    case (Cons x xs)
    then have "parent_chain st (et_parent x) xs" by simp
    from Cons.IH [OF this] Cons.prems show ?case
      by (auto simp: nth_Cons hd_conv_nth split: nat.splits if_splits)
  qed (simp add: stop)
  have linked: "et_parent (rev es ! Suc k) = Some (et_id (rev es ! k))" if "Suc k < length es" for k
  proof -
    let ?j = "length es - Suc (Suc k)"
    have "rev es ! Suc k = es ! ?j" "rev es ! k = es ! Suc ?j"
      using that by (simp_all add: rev_nth Suc_diff_Suc)
    moreover have "Suc ?j < length es" using that by simp
    ultimately show ?thesis using chain [OF es(2)] by simp
  qed
  show ?thesis
    using chain [OF es(2)] es(1,3) linked
    by (intro exI [of _ "rev es"]) (auto simp: rev_map [symmetric] hd_rev last_rev)
qed

text \<open>C26: in a reduced journal an operation's results answer its own intents, each intent at most
  once; a finished operation has answered all of them and its outcome is the one in the operation
  table; and no two intents of the session share an invocation or a result identifier.\<close>

theorem operations_consistent:
  assumes "reduce codec records = Some (Inr st)"
  shows "(\<forall>i d. bt_get (ss_details st) i = Some d \<longrightarrow>
        (\<forall>n y. bt_get (op_results d) n = Some y \<longrightarrow> ir_operation y = i \<and> ir_invocation y = n
           \<and> (\<exists>x. bt_get (op_intents d) n = Some x \<and> ii_operation x = i \<and> ii_result x = ir_result y))
        \<and> (\<forall>out. op_finished d = Some out \<longrightarrow> bt_get (ss_operations st) i = Some (Finished out)
             \<and> (\<forall>n. bt_contains (op_intents d) n \<longrightarrow> bt_contains (op_results d) n)))
    \<and> (\<forall>x \<in> all_intents st. \<forall>y \<in> all_intents st.
         ii_invocation x = ii_invocation y \<or> ii_result x = ii_result y \<longrightarrow> x = y)"
proof -
  have ok: "operations_ok st" "identities_ok st"
    using operations.reduced_inv [OF assms] identities.reduced_inv [OF assms] by simp_all
  show ?thesis
  proof (intro conjI allI impI)
    fix i d out assume d: "bt_get (ss_details st) i = Some d" and fin: "op_finished d = Some out"
    then show "bt_get (ss_operations st) i = Some (Finished out)" using ok(1) by (simp add: operations_ok_def)
    fix n assume "bt_contains (op_intents d) n"
    then show "bt_contains (op_results d) n"
      using ok(1) d fin by (simp add: operations_ok_def operation_ok_def)
  next
    fix i d n y assume d: "bt_get (ss_details st) i = Some d" and y: "bt_get (op_results d) n = Some y"
    then have op: "operation_ok i d" using ok(1) by (simp add: operations_ok_def)
    show "ir_operation y = i" "ir_invocation y = n" using operation_ok_result [OF op y] by simp_all
    show "\<exists>x. bt_get (op_intents d) n = Some x \<and> ii_operation x = i \<and> ii_result x = ir_result y"
      using operation_ok_result [OF op y] op by (auto simp: operation_ok_def)
  qed (use ok(2) in \<open>simp add: identities_ok_def\<close>)
qed

text \<open>C29: a child is terminal exactly when its one report is committed; the report carries the
  child's own attribution and its status is the child's lifecycle; and no two children share an
  operation.\<close>

theorem children_consistent:
  assumes "reduce codec records = Some (Inr st)" and "bt_get (ss_children st) a = Some c"
  shows "ca_agent (child_attribution_of c) = a
    \<and> (lifecycle_is_terminal (child_lifecycle_of c) \<longleftrightarrow> kc_report c \<noteq> None)
    \<and> (\<forall>x. kc_report c = Some x \<longrightarrow> re_attribution x = child_attribution_of c
         \<and> child_lifecycle_of c = terminal_lifecycle (re_status x)
         \<and> hs_report (kc_handle c) = Some (re_reference x))
    \<and> (\<forall>b d. bt_get (ss_children st) b = Some d \<longrightarrow> b \<noteq> a \<longrightarrow>
         ca_operation (child_attribution_of d) \<noteq> ca_operation (child_attribution_of c))"
proof -
  have ok: "children_ok st" by (rule children.reduced_inv [OF assms(1)])
  then have "child_ok a c" using assms(2) by (simp add: children_ok_def)
  then show ?thesis using ok assms(2)
    unfolding children_ok_def child_ok_def by (cases "kc_report c") auto
qed

text \<open>C27: whatever is recorded later, committed history stays: entries, artifacts, contexts,
  checkpoints, finished operations with their outcome and reported children are never changed.\<close>

theorem history_is_immutable:
  assumes "reachable_session codec st" and "session_run codec st st'"
  shows "history_kept st st'"
  using history.run_below [OF assms(2)] operations.reachable_inv [OF assms(1)]
    children.reachable_inv [OF assms(1)] by blast

text \<open>The versions of a context are numbered from one without a gap, every version is backed by
  a registered artifact of its hash and length, and views and named contexts never dangle.\<close>

theorem contexts_consistent:
  assumes "reduce codec records = Some (Inr st)"
  shows "(\<exists>n. \<forall>v. bt_contains (ss_contexts st) (i, v) \<longleftrightarrow> 1 \<le> v \<and> v \<le> n)
    \<and> (\<forall>v c. bt_get (ss_contexts st) (i, v) = Some c \<longrightarrow>
         (\<exists>a. bt_get (ss_artifacts st) (arf_id (cx_artifact c)) = Some a
            \<and> arf_hash (art_reference a) = cx_hash c \<and> art_byte_len a = cx_size c))
    \<and> (\<forall>k w. bt_get (ss_views st) k = Some w \<longrightarrow>
         bt_contains (ss_contexts st) (vw_source w, vw_source_version w))
    \<and> (\<forall>name k v. bt_get (ss_named_context st) name = Some (k, v) \<longrightarrow> bt_contains (ss_contexts st) (k, v))"
  using contexts.reduced_inv [OF assms] unfolding contexts_ok_def by blast

text \<open>A session keeps at most 128 completion receipts, one per piece of work, and each is
  structurally valid and claims exactly the verdict its facts support.\<close>

theorem receipts_consistent:
  assumes "reachable_session codec st"
  shows "length (ss_evidence st) \<le> 128 \<and> distinct (map cv_generation (ss_evidence st))
    \<and> (\<forall>e \<in> set (ss_evidence st). validate_evidence codec e = Inr () \<and> cv_outcome e = verdict codec e)"
  using kept_receipts.reachable_inv [OF assms]
  by (simp add: receipts_ok_def receipts_bounded_def MAX_RECEIPTS_def)

text \<open>A checkpoint that validation accepts becomes the active one, and the prompt is continued
  from its retained tail.\<close>

theorem accepted_checkpoint_is_active:
  assumes "validate_compaction_checkpoint codec st k pf = Inr ()"
    and "apply_validated (ConversationCompacted k) st = Some st'"
  shows "active_compaction st' = Inr (Some k)
    \<and> (\<exists>path. entry_path st' = Inr path \<and> kp_count k - retained_offset st' < length path
         \<and> et_id (path ! (kp_count k - retained_offset st')) = kp_tail k)"
proof -
  have st': "st' = st\<lparr>ss_compactions := ss_compactions st @ [k]\<rparr>" using assms(2) by auto
  have head: "ss_head st' = ss_head st" "ss_archived st' = ss_archived st"
    "ss_entries st' = ss_entries st" "ss_compactions st' = ss_compactions st @ [k]"
    by (simp_all add: st')
  note path_eq = entry_path_cong [OF head(3,1,2)]
    and offset_eq = retained_offset_cong [OF head(3,1,2)]
  obtain path where path: "entry_path st = Inr path"
    and range: "retained_offset st \<le> kp_count k" "kp_count k - retained_offset st \<noteq> 0"
      "kp_count k - retained_offset st < length path"
    and source: "checkpoint_source_valid codec st pf path (retained_offset st)
      (kp_count k - retained_offset st) k"
    using assms(1) by (auto simp: validate_compaction_checkpoint_def Let_def res_simps
        split: sum.splits if_splits)
  let ?n = "kp_count k - retained_offset st"
  have ne: "take ?n path \<noteq> []" using range by auto
  have last: "last (take ?n path) = path ! (?n - 1)" and hd: "hd (take ?n path) = hd path" "path \<noteq> []"
    using range by (simp add: last_conv_nth [OF ne]) (use range in auto)
  have "checkpoint_active st path (retained_offset st) k"
    using source range hd last
    by (auto simp: checkpoint_active_def checkpoint_source_valid_def Let_def split: if_splits option.splits)
  then have "checkpoint_active st' path (retained_offset st) k" by (simp only: checkpoint_active_def head)
  then have "active_compaction st' = Inr (Some k)"
    by (simp add: active_compaction_def path_eq offset_eq path head)
  moreover have "et_id (path ! ?n) = kp_tail k"
    using source by (auto simp: checkpoint_source_valid_def Let_def split: if_splits)
  ultimately show ?thesis using range path by (simp add: path_eq offset_eq)
qed

section \<open>Witnesses\<close>

lemma sample_reachable: "reachable_session sample_session_codec sample_state"
  using reduce_reachable [OF sample_reduced(1)] by simp

lemma sample_facts:
  "ss_archived sample_state = None" "ss_head sample_state = Some 11"
  "map_option op_finished (bt_get (ss_details sample_state) 20) = Some (Some OpCompleted)"
  "map_option (\<lambda>d. map_option ir_result (bt_get (op_results d) 40)) (bt_get (ss_details sample_state) 20)
    = Some (Some 41)"
  by code_simp+

theorem conversation_path_sound_witness:
  "\<exists>path. entry_path sample_state = Inr path \<and> path \<noteq> [] \<and> et_id (last path) = 11
     \<and> distinct (map et_id path)"
proof -
  obtain path where "entry_path sample_state = Inr path" and "distinct (map et_id path)"
    and "if path = [] then ss_head sample_state = None
      else ss_head sample_state = Some (et_id (last path)) \<and> et_parent (hd path) = None"
    using conversation_path_sound [OF sample_reachable sample_facts(1)] by blast
  then show ?thesis using sample_facts(2) by (auto split: if_splits)
qed

theorem operations_consistent_witness:
  "\<exists>d x. bt_get (ss_details sample_state) 20 = Some d \<and> bt_get (op_intents d) 40 = Some x
     \<and> ii_result x = 41 \<and> bt_get (ss_operations sample_state) 20 = Some (Finished OpCompleted)"
proof -
  obtain d y where "bt_get (ss_details sample_state) 20 = Some d" and "op_finished d = Some OpCompleted"
    and "bt_get (op_results d) 40 = Some y" and "ir_result y = 41"
    using sample_facts(3,4) by auto
  then show ?thesis using operations_consistent [OF sample_reduced(1)] by force
qed

definition sample_handle :: agent_handle where
  "sample_handle =
     admitted_handle
       \<lparr>cm_completion = \<lparr>co_conditions = []\<rparr>,
        cm_attribution = \<lparr>ca_agent = 60, ca_parent_agent = 1001, ca_operation = 61,
          ca_parent_operation = 21, ca_thread = 2, ca_route = rstr ''r'', ca_profile = rstr ''p'',
          ca_owner = OwnerNative, ca_connection = rstr ''c'', ca_model = rstr ''m''\<rparr>,
        cm_plan = None, cm_task_preview = rstr ''t'', cm_task_hash = replicate 64 48,
        cm_result_schema = SchemaSummary, cm_capabilities = [], cm_permission_mode = ModeAsk,
        cm_max_tool_rounds = 4, cm_limits = \<lparr>max_fan_out = 1, max_descendants = 1,
          max_concurrency = 1, deadline_seconds = 60, max_context_tokens = 1000,
          max_report_bytes = 100, max_artifact_bytes = 1000\<rparr>,
        cm_hard_token_limit = None, cm_hard_spend = None\<rparr>"

definition child_records :: "session_record list" where
  "child_records =
     [SessionCreated 2 [RootDir], ConversationEntryAppended (sample_entry 10 None UserRole),
      OperationAccepted 21 2 10, ChildAdmitted sample_handle, ChildLifecycleChanged 60 ChildQueued,
      ChildReportCommitted (failed_with_schema (cm_attribution (hs_admission sample_handle))
        SchemaSummary (rstr ''no'') 100)]"

definition child_journal :: "record_envelope list" where
  "child_journal =
     map (\<lambda>(i, r). \<lparr>rn_version = 1, rn_record_id = 100 + i, rn_session = 1, rn_record = r\<rparr>)
       (enumerate 0 child_records)"

lemmas child_journal_simps =
  child_journal_def child_records_def sample_handle_def admitted_handle_def sample_entry_def
  text_message_def reduce_def validate_envelope_def SESSION_RECORD_VERSION_def empty_session_def
  validate_entry_def bt_contains_def bt_get_def validate_acceptance_def accept_operation_def
  set_operation_state_def fresh_operation_def validate_child_admission_def
  parent_operation_is_valid_def child_operation_is_unique_def admission_plan_known_def
  sample_session_codec_def vision_codec.defs session_codec.defs trim_def rstr_def is_whitespace_def
  str_len_replicate utf8_len_def MAX_CHILD_TASK_PREVIEW_BYTES_def admit_child_def
  validate_child_lifecycle_def lifecycle_is_terminal_def update_child_def apply_lifecycle_def
  validate_report_committed_def failed_with_schema_def terminal_error_def truncate_utf8_def
  CHILD_REPORT_VERSION_def valid_child_terminal_source_def valid_child_report_def
  report_evidence_known_def report_content_def rejected_completion_def valid_result_schema_def
  ensure_def apply_report_def check_reduced_def conversation_path_def entry_path_def
  validate_branch_history_def

lemma child_reduced:
  "\<exists>st c. reduce sample_session_codec child_journal = Some (Inr st)
     \<and> bt_get (ss_children st) 60 = Some c \<and> child_lifecycle_of c = ChildFailed"
  by (simp add: child_journal_simps)

theorem children_consistent_witness:
  "\<exists>st c. reduce sample_session_codec child_journal = Some (Inr st)
     \<and> bt_get (ss_children st) 60 = Some c \<and> kc_report c \<noteq> None"
proof -
  obtain st c where c: "reduce sample_session_codec child_journal = Some (Inr st)"
    "bt_get (ss_children st) 60 = Some c" "child_lifecycle_of c = ChildFailed"
    using child_reduced by blast
  then have "kc_report c \<noteq> None"
    using children_consistent [OF c(1,2)] by (simp add: lifecycle_is_terminal_def)
  then show ?thesis using c by blast
qed

theorem history_is_immutable_witness:
  "\<exists>st'. session_run sample_session_codec sample_state st' \<and> ss_head st' = Some 10
     \<and> history_kept sample_state st'"
proof -
  let ?st = "sample_state\<lparr>ss_head := Some 10\<rparr>"
  have "validate_head sample_state 2 (Some 10) = Inr ()" by code_simp
  then have "session_step sample_session_codec sample_state (ThreadHeadMoved 2 (Some 10)) ?st"
    by (intro session_step.validated [of 1 _ _ None]) simp_all
  then have run: "session_run sample_session_codec sample_state ?st"
    by (rule session_run.further [OF session_run.start])
  then show ?thesis using history_is_immutable [OF sample_reachable run] by auto
qed

definition context_records :: "session_record list" where
  "context_records =
     [ArtifactRegistered \<lparr>art_reference = \<lparr>arf_id = 70, arf_hash = rstr ''h''\<rparr>,
        art_media_type = rstr ''text/plain'', art_byte_len = 3, art_owner = 5\<rparr>,
      ContextRegistered \<lparr>cx_id = 71, cx_version = 1,
        cx_artifact = \<lparr>arf_id = 70, arf_hash = rstr ''h''\<rparr>, cx_kind = ToolOutput,
        cx_hash = rstr ''h'', cx_size = 3, cx_provenance = ProjectFile [RootDir],
        cx_trust = ToolTrust, cx_owner = 5\<rparr>,
      NamedContextSet (rstr ''n'') 71 1]"

definition context_journal :: "record_envelope list" where
  "context_journal =
     map (\<lambda>(i, r). \<lparr>rn_version = 1, rn_record_id = 100 + i, rn_session = 1, rn_record = r\<rparr>)
       (enumerate 0 (SessionCreated 2 [RootDir] # context_records))"

lemma context_reduced:
  "\<exists>st. reduce sample_session_codec context_journal = Some (Inr st)
     \<and> bt_contains (ss_contexts st) (71, 1)"
  by (simp add: context_journal_def context_records_def validate_artifact_def validate_context_def
      latest_version_def bt_keys_def validate_named_context_def child_journal_simps)

theorem contexts_consistent_witness:
  "\<exists>st c a. reduce sample_session_codec context_journal = Some (Inr st)
     \<and> bt_get (ss_contexts st) (71, 1) = Some c
     \<and> bt_get (ss_artifacts st) (arf_id (cx_artifact c)) = Some a \<and> art_byte_len a = cx_size c"
proof -
  obtain st c where st: "reduce sample_session_codec context_journal = Some (Inr st)"
    and c: "bt_get (ss_contexts st) (71, 1) = Some c"
    using context_reduced by (auto simp: bt_contains_def)
  from contexts_consistent [OF st, of 71] st c show ?thesis by blast
qed

theorem receipts_consistent_witness:
  "length (ss_evidence sample_state) \<le> 128"
  using receipts_consistent [OF sample_reachable] by simp

lemma sample_blake3_hex: "lower_hex_digest (sample_blake3 bytes)"
proof -
  let ?n = "sum_list (map unat bytes)"
  have one: "utf8_len (48 + m mod 2) = 1 \<and> 48 + m mod 2 \<le> 57" for m :: nat
  proof -
    have "m mod 2 < 2" by simp
    then have "m mod 2 < 80" "m mod 2 \<le> 9" by linarith+
    then show ?thesis by (simp add: utf8_len_def)
  qed
  have "str_len (map (\<lambda>i. 48 + ?n div 2 ^ i mod 2) [0..<64]) = sum_list (map (\<lambda>i. 1) [0..<64])"
    unfolding str_len_def map_map comp_def using one by presburger
  then show ?thesis
    using one by (simp add: lower_hex_digest_def sample_blake3_def Let_def is_ascii_digit_def list_all_iff
        sum_list_triv)
qed

definition turn_state :: restored_session where
  "turn_state =
     (empty_session 1 2 [RootDir])\<lparr>ss_entries := [(10, sample_entry 10 None UserRole),
        (11, sample_entry 11 (Some 10) AssistantRole), (12, sample_entry 12 (Some 11) UserRole)],
      ss_head := Some 12\<rparr>"

definition turn_budget :: prompt_budget_plan where
  "turn_budget =
     \<lparr>pb_connection = rstr ''c'', pb_model = rstr ''m'', pb_context_window = 8192,
      pb_window_source = ModelCatalog, pb_route_ceiling = None, pb_input_budget = 4096,
      pb_output_reserve = 4096, pb_reasoning_reserve = 0, pb_tool_reserve = 10,
      pb_conversation_reserve = 10, pb_threshold = 2048, pb_retained_tail = 10,
      pb_summary_max_bytes = 1024\<rparr>"

definition turn_checkpoint :: compaction_checkpoint where
  "turn_checkpoint =
     \<lparr>kp_version = 1, kp_id = 90, kp_operation = 91, kp_previous = None, kp_reason = ManualCompaction,
      kp_start = 10, kp_end = 11, kp_count = 2,
      kp_digest = source_digest sample_session_codec
        [(10, text_message UserRole (rstr ''hi'')), (11, text_message AssistantRole (rstr ''hi''))],
      kp_tail = 12, kp_summary = empty_summary, kp_budget = turn_budget, kp_semantic = None\<rparr>"

lemma turn_path:
  "entry_path turn_state = Inr [sample_entry 10 None UserRole, sample_entry 11 (Some 10) AssistantRole,
     sample_entry 12 (Some 11) UserRole]"
  by (simp add: entry_path_def turn_state_def walk_path.simps(2) archived_end_def empty_session_def
      bt_get_def sample_entry_def)

lemma turn_budget_valid: "is_valid_checkpoint_plan turn_budget"
  by (simp add: is_valid_checkpoint_plan_def turn_budget_def trim_def rstr_def is_whitespace_def
      utf8_len_def usable_window_def MIN_USABLE_CONTEXT_TOKENS_def HARD_CONTEXT_CEILING_TOKENS_def
      route_is_valid_def conversation_reserve_def)

lemma empty_summary_valid: "1024 \<le> n \<Longrightarrow> validate_summary empty_summary n"
proof -
  assume n: "1024 \<le> n"
  have fields: "field_items f empty_summary = []" for f by (cases f) (simp_all add: empty_summary_def)
  have ok: "summary_ok empty_summary"
    by (simp add: summary_ok_def summary_items_def empty_summary_def)
  show ?thesis
    using empty_render [OF fields ok] fields ok n by (simp add: validate_summary_iff)
qed

lemma turn_checkpoint_valid:
  "validate_compaction_checkpoint sample_session_codec turn_state turn_checkpoint None = Inr ()"
proof -
  have codec: "ec_blake3 sample_session_codec = sample_blake3"
    by (simp add: sample_session_codec_def sample_vision_codec_def sample_codec_def
        vision_codec.defs session_codec.defs compaction_codec.defs)
  have offset: "retained_offset turn_state = 0"
    by (simp add: retained_offset_def turn_state_def empty_session_def)
  have none: "active_compaction turn_state = Inr None"
    unfolding active_compaction_def turn_path by (simp add: turn_state_def empty_session_def)
  have shape: "checkpoint_shape sample_session_codec turn_state None turn_checkpoint"
    using sample_blake3_hex turn_budget_valid
    by (simp add: checkpoint_shape_def turn_checkpoint_def COMPACTION_CHECKPOINT_VERSION_def
        source_digest_def codec turn_state_def empty_session_def)
  have source: "checkpoint_source_valid sample_session_codec turn_state None
      [sample_entry 10 None UserRole, sample_entry 11 (Some 10) AssistantRole,
       sample_entry 12 (Some 11) UserRole] 0 2 turn_checkpoint"
    by (simp add: checkpoint_source_valid_def turn_checkpoint_def sample_entry_def)
  have "validate_summary empty_summary 1024" by (rule empty_summary_valid) simp
  then show ?thesis
    using shape source
    by (simp add: validate_compaction_checkpoint_def none turn_path offset ensure_def)
      (simp add: turn_checkpoint_def turn_budget_def ensure_def)
qed

theorem accepted_checkpoint_is_active_witness:
  "\<exists>st'. apply_validated (ConversationCompacted turn_checkpoint) turn_state = Some st'
     \<and> active_compaction st' = Inr (Some turn_checkpoint)"
  using accepted_checkpoint_is_active [OF turn_checkpoint_valid] by simp

section \<open>Closing a child\<close>

text \<open>C30: whatever state a child without a report is in, its owner can end it: the bounded error
  report that the supervisor builds is accepted, whatever the reason's length, and leaves the child
  in the matching terminal state; for an interruption it is what inspection shows of the child
  beforehand.\<close>

theorem child_can_always_be_closed:
  fixes reason :: rust_string
  assumes "reachable_session codec st" and "bt_get (ss_children st) a = Some c" and "kc_report c = None"
    and "status \<in> {EndFailed, EndCancelled, EndInterrupted}"
  defines "rep \<equiv> terminal_error (child_attribution_of c) status
      (cm_result_schema (hs_admission (kc_handle c))) reason
      (unat (max_report_bytes (cm_limits (hs_admission (kc_handle c)))))"
  shows "\<exists>st' c'. session_step codec st (ChildReportCommitted rep) st'
    \<and> bt_get (ss_children st') a = Some c' \<and> child_lifecycle_of c' = terminal_lifecycle status
    \<and> kc_report c' = Some rep
    \<and> (status = EndInterrupted
       \<and> reason = rstr ''child work was interrupted when its owning Xana runtime stopped'' \<longrightarrow>
         child_inspection c = (kc_handle c', Some rep, True))"
proof -
  let ?m = "hs_admission (kc_handle c)"
  let ?n = "unat (max_report_bytes (cm_limits ?m))"
  have ok: "child_ok a c" using children.reachable_inv [OF assms(1)] assms(2) by (simp add: children_ok_def)
  have open_child: "\<not> lifecycle_is_terminal (child_lifecycle_of c)" and agent: "ca_agent (child_attribution_of c) = a"
    using ok assms(3) by (simp_all add: child_ok_def)
  have source: "valid_child_terminal_source (child_lifecycle_of c)"
    using open_child
    by (cases "child_lifecycle_of c") (simp_all add: valid_child_terminal_source_def lifecycle_is_terminal_def)
  have "valid_child_report codec st rep ?n limit" for limit
    using assms(4) truncate_utf8_bound [of reason ?n]
    by (auto simp: rep_def terminal_error_def Let_def valid_child_report_def report_evidence_known_def
        report_content_def rejected_completion_def valid_result_schema_def)
  then have valid: "validate_record codec st 1 None (ss_id st) (ChildReportCommitted rep) = Inr ()"
    using assms(2,3) source agent
    by (simp add: validate_report_committed_def rep_def terminal_error_def Let_def ensure_def)
  let ?c = "c\<lparr>kc_handle := apply_report rep (kc_handle c), kc_report := Some rep\<rparr>"
  have "apply_validated (ChildReportCommitted rep) st
      = Some (st\<lparr>ss_children := bt_insert a ?c (ss_children st)\<rparr>)"
    using assms(2) agent by (simp add: update_child_def rep_def terminal_error_def Let_def)
  from session_step.validated [OF _ valid this]
  have "session_step codec st (ChildReportCommitted rep)
      (st\<lparr>ss_children := bt_insert a ?c (ss_children st)\<rparr>)" by simp
  moreover have "child_lifecycle_of ?c = terminal_lifecycle status"
    by (simp add: apply_report_def rep_def terminal_error_def Let_def)
  ultimately show ?thesis
    using open_child
    by (intro exI [of _ "st\<lparr>ss_children := bt_insert a ?c (ss_children st)\<rparr>"] exI [of _ ?c])
      (auto simp: bt_get_insert child_inspection_def rep_def interrupted_with_schema_def Let_def)
qed

lemma open_child_reduced:
  "\<exists>st c. reduce sample_session_codec (take 5 child_journal) = Some (Inr st)
     \<and> bt_get (ss_children st) 60 = Some c \<and> kc_report c = None"
  by (simp add: child_journal_simps)

theorem child_can_always_be_closed_witness:
  "\<exists>st st' c' x. reduce sample_session_codec (take 5 child_journal) = Some (Inr st)
     \<and> session_step sample_session_codec st (ChildReportCommitted x) st'
     \<and> bt_get (ss_children st') 60 = Some c' \<and> child_lifecycle_of c' = ChildCancelled"
proof -
  obtain st c where st: "reduce sample_session_codec (take 5 child_journal) = Some (Inr st)"
    and c: "bt_get (ss_children st) 60 = Some c" "kc_report c = None" using open_child_reduced by blast
  have "reachable_session sample_session_codec st" using reduce_reachable [OF st] by simp
  from child_can_always_be_closed [OF this c, of EndCancelled "[]"] st show ?thesis by auto
qed

end
