(* ===== verification/Evidence_Lifecycle.thy ===== *)
theory Evidence_Lifecycle
  imports Completion_Evidence
begin

text \<open>
  Properties of completion evidence: what a supported verdict takes, and the at most three revisions
  of a receipt, as the transitions of \<open>src/src/completion_evidence.rs\<close> allow them.
\<close>

section \<open>Verdicts\<close>

text \<open>C32: a verdict is fail-closed: work counts as delivered exactly when it claims completion within
  its budget, nothing was omitted or left unknown, something was delivered, every effect, check and
  artifact is accounted for, every child is, verification is not pending or failed, and every
  acceptance condition is met; a condition that is only declared is never met.\<close>

theorem verdict_fail_closed:
  "verdict codec e \<in> {DeliveryVerified, ConditionsVerified} \<longleftrightarrow>
     cv_claim e = ClaimCompleted \<and> \<not> be_exceeded (cv_budget e) \<and> \<not> cv_omitted e
     \<and> cv_verification e \<in> {NotNeeded, VerPassed}
     \<and> cv_delivered_hash e \<noteq> None \<and> cv_delivered_bytes e > 0
     \<and> (\<forall>f \<in> set (cv_effects e). ef_outcome f = Acknowledged
          \<or> ef_outcome f = EffectFailed \<and> (\<exists>c \<in> set (cv_checks e). ck_invocation c = ef_invocation f
               \<and> ck_outcome c = CheckFailed \<and> check_superseded e c))
     \<and> (\<forall>c \<in> set (cv_checks e). ck_outcome c = CheckPassed \<or> check_superseded e c)
     \<and> (\<forall>a \<in> set (cv_artifacts e). ae_verified a \<and> ae_generation a = cv_generation e)
     \<and> (\<forall>c \<in> set (cv_child_reports e). ce_outcome c \<in> {DeliveryVerified, ConditionsVerified})
     \<and> (\<forall>c \<in> set (co_conditions (cv_contract e)). satisfies codec e c \<and> \<not> (\<exists>i r. c = Declared i r))"
proof -
  have effects: "(ef_outcome f = EffectUnknown \<or> effect_unresolved e f) \<longleftrightarrow>
      \<not> (ef_outcome f = Acknowledged \<or> ef_outcome f = EffectFailed
         \<and> (\<exists>c \<in> set (cv_checks e). ck_invocation c = ef_invocation f
               \<and> ck_outcome c = CheckFailed \<and> check_superseded e c))" for f
    by (cases "ef_outcome f") (auto simp: effect_unresolved_def list_ex_iff)
  have outcome: "x \<in> {DeliveryVerified, ConditionsVerified} \<longleftrightarrow> x \<noteq> NeedsAttention \<and> x \<noteq> Incomplete" for x
    by (cases x) simp_all
  have state: "x \<in> {NotNeeded, VerPassed} \<longleftrightarrow> x \<notin> {VerReserved, VerUnavailable, VerFailed, VerCancelled}" for x
    by (cases x) simp_all
  have declared: "satisfies codec e c \<Longrightarrow> \<not> (\<exists>i r. c = Declared i r)" for c by (cases c) auto
  have split: "verdict codec e \<in> {DeliveryVerified, ConditionsVerified} \<longleftrightarrow>
      cv_claim e = ClaimCompleted \<and> \<not> be_exceeded (cv_budget e) \<and> \<not> needs_attention e
      \<and> \<not> missing_work e \<and> list_all (satisfies codec e) (co_conditions (cv_contract e))"
    by (simp add: verdict_def list_ex_iff list_all_iff)
  have work: "\<not> needs_attention e \<and> \<not> missing_work e \<longleftrightarrow>
      \<not> cv_omitted e \<and> cv_verification e \<in> {NotNeeded, VerPassed}
      \<and> cv_delivered_hash e \<noteq> None \<and> cv_delivered_bytes e > 0
      \<and> (\<forall>f \<in> set (cv_effects e). \<not> (ef_outcome f = EffectUnknown \<or> effect_unresolved e f))
      \<and> (\<forall>c \<in> set (cv_checks e). ck_outcome c = CheckPassed \<or> check_superseded e c)
      \<and> (\<forall>a \<in> set (cv_artifacts e). ae_verified a \<and> ae_generation a = cv_generation e)
      \<and> (\<forall>c \<in> set (cv_child_reports e). ce_outcome c \<in> {DeliveryVerified, ConditionsVerified})"
    unfolding needs_attention_def missing_work_def list_ex_iff outcome state by auto
  show ?thesis
    unfolding split using work declared unfolding effects list_all_iff by auto
qed

section \<open>Revisions\<close>

inductive evidence_history :: "'x evidence_codec_scheme \<Rightarrow> completion_evidence list \<Rightarrow> bool"
  for codec where
  opened: "valid_transition codec None e \<Longrightarrow> evidence_history codec [e]"
| revised: "evidence_history codec (es @ [p]) \<Longrightarrow> valid_transition codec (Some p) e \<Longrightarrow>
    evidence_history codec (es @ [p, e])"

definition same_work :: "completion_evidence \<Rightarrow> completion_evidence \<Rightarrow> bool" where
  "same_work p e =
     (cv_generation e = cv_generation p \<and> cv_contract e = cv_contract p \<and> cv_kind e = cv_kind p
      \<and> cv_owner e = cv_owner p)"

lemma next_revision_same:
  assumes "next_revision p e"
  shows "same_work p e" and "cv_revision e = Suc (cv_revision p)"
    and "cv_revision p = 1 \<or> cv_revision p = 2"
  using assms by (auto simp: next_revision_def same_work_def split: if_splits)

lemma history_shape:
  "evidence_history codec es \<Longrightarrow>
     es \<noteq> [] \<and> map cv_revision es = [1..<Suc (length es)] \<and> length es \<le> 3
     \<and> (\<forall>e \<in> set es. same_work (hd es) e \<and> validate_evidence codec e = Inr ()
          \<and> cv_outcome e = verdict codec e)
     \<and> first_revision (hd es) \<and> (\<forall>k. Suc k < length es \<longrightarrow> next_revision (es ! k) (es ! Suc k))"
proof (induction rule: evidence_history.induct)
  case (opened e)
  then show ?case
    by (auto simp: valid_transition_def first_revision_def same_work_def evaluate_evidence_def
        elim: is_okE)
next
  case (revised es p e)
  let ?n = "length es"
  have step: "next_revision p e" and valid: "validate_evidence codec e = Inr ()" "cv_outcome e = verdict codec e"
    using revised.hyps(2) by (auto simp: valid_transition_def evaluate_evidence_def elim: is_okE)
  have rev_p: "cv_revision p = Suc ?n" using revised.IH by (simp add: upt_rec_numeral)
  have short: "?n \<le> 1" using next_revision_same(3) [OF step] rev_p by auto
  have links: "next_revision ((es @ [p, e]) ! k) ((es @ [p, e]) ! Suc k)" if "Suc k < length (es @ [p, e])" for k
  proof (cases "k = ?n")
    case True
    then show ?thesis using step by (simp add: nth_append)
  next
    case False
    then have "Suc k < length (es @ [p])" using that by simp
    then have "next_revision ((es @ [p]) ! k) ((es @ [p]) ! Suc k)" using revised.IH by blast
    then show ?thesis using False that by (simp add: nth_append split: if_splits)
  qed
  have same: "same_work (hd (es @ [p])) e"
    using revised.IH next_revision_same(1) [OF step] by (auto simp: same_work_def)
  show ?case
    using revised.IH same valid links short rev_p next_revision_same(2) [OF step]
    by (cases es) auto
qed

text \<open>C33: a receipt goes through at most three revisions, numbered from one, of the same work under
  the same contract; the first supports nothing, only the third can support work with artifacts, and
  it differs from the second only in its number, in the result of verifying the artifacts and in the
  outcome that follows from it.\<close>

theorem evidence_lifecycle:
  assumes "evidence_history codec es"
  shows "length es \<le> 3 \<and> map cv_revision es = [1..<Suc (length es)]
    \<and> (\<forall>e \<in> set es. same_work (hd es) e)
    \<and> \<not> evidence_supported (hd es)
    \<and> (\<forall>e \<in> set es. evidence_supported e \<and> cv_artifacts e \<noteq> [] \<longrightarrow>
         cv_revision e = 3 \<and> cv_verification e = VerPassed)
    \<and> (\<forall>p e. es = [hd es, p, e] \<longrightarrow> cv_verification p = VerReserved
         \<and> cv_claim e = cv_claim p \<and> cv_checks e = cv_checks p \<and> cv_effects e = cv_effects p
         \<and> cv_delivered_hash e = cv_delivered_hash p \<and> cv_budget e = cv_budget p
         \<and> map ae_artifact (cv_artifacts e) = map ae_artifact (cv_artifacts p)
         \<and> p = e\<lparr>cv_revision := 2, cv_verification := VerReserved, cv_outcome := cv_outcome p,
             cv_artifacts := map (\<lambda>a. a\<lparr>ae_verified := False\<rparr>) (cv_artifacts e)\<rparr>)"
proof -
  note shape = history_shape [OF assms]
  have supported: "cv_claim e = ClaimCompleted \<and> cv_verification e \<in> {NotNeeded, VerPassed}
      \<and> (\<forall>a \<in> set (cv_artifacts e). ae_verified a)" if "e \<in> set es" "evidence_supported e" for e
    using that shape verdict_fail_closed [of codec e] by (simp add: evidence_supported_def)
  have first: "\<not> evidence_supported (hd es)"
    using supported [of "hd es"] shape by (auto simp: first_revision_def)
  have frozen: "cv_verification p = VerReserved \<and> cv_claim e = cv_claim p \<and> cv_checks e = cv_checks p
      \<and> cv_effects e = cv_effects p \<and> cv_delivered_hash e = cv_delivered_hash p
      \<and> cv_budget e = cv_budget p \<and> map ae_artifact (cv_artifacts e) = map ae_artifact (cv_artifacts p)
      \<and> cv_verification e \<in> {VerPassed, VerFailed, VerCancelled}
      \<and> p = e\<lparr>cv_revision := 2, cv_verification := VerReserved, cv_outcome := cv_outcome p,
          cv_artifacts := map (\<lambda>a. a\<lparr>ae_verified := False\<rparr>) (cv_artifacts e)\<rparr>"
    if "next_revision p e" "cv_revision p = 2" for p e
  proof -
    have same: "p = frozen p e" and rest: "cv_verification p = VerReserved"
      "cv_verification e \<in> {VerPassed, VerFailed, VerCancelled}"
      using that by (auto simp: next_revision_def split: if_splits)
    have "cv_claim (frozen p e) = cv_claim e" "cv_checks (frozen p e) = cv_checks e"
      "cv_effects (frozen p e) = cv_effects e" "cv_delivered_hash (frozen p e) = cv_delivered_hash e"
      "cv_budget (frozen p e) = cv_budget e"
      "map ae_artifact (cv_artifacts (frozen p e)) = map ae_artifact (cv_artifacts e)"
      by (simp_all add: frozen_def comp_def)
    then have kept: "cv_claim e = cv_claim p \<and> cv_checks e = cv_checks p \<and> cv_effects e = cv_effects p
        \<and> cv_delivered_hash e = cv_delivered_hash p \<and> cv_budget e = cv_budget p
        \<and> map ae_artifact (cv_artifacts e) = map ae_artifact (cv_artifacts p)"
      unfolding same [symmetric] by simp
    have "p = e\<lparr>cv_revision := 2, cv_verification := VerReserved, cv_outcome := cv_outcome p,
        cv_artifacts := map (\<lambda>a. a\<lparr>ae_verified := False\<rparr>) (cv_artifacts e)\<rparr>"
      by (rule same [unfolded frozen_def that(2) rest(1)])
    with rest kept show ?thesis by blast
  qed
  have revision: "cv_revision (es ! k) = Suc k" if "k < length es" for k
  proof -
    have "map cv_revision es ! k = [1..<Suc (length es)] ! k" using shape by simp
    then show ?thesis using that by (simp del: upt_Suc)
  qed
  have third: "cv_revision e = 3 \<and> cv_verification e = VerPassed"
    if e: "e \<in> set es" "evidence_supported e" "cv_artifacts e \<noteq> []" for e
  proof -
    obtain k where k: "k < length es" "e = es ! k" using e(1) by (metis in_set_conv_nth)
    have "hd es = es ! 0" using shape by (simp add: hd_conv_nth)
    then have "k \<noteq> 0" using first e(2) k by (cases k) auto
    then obtain j where j: "k = Suc j" by (cases k) auto
    have step: "next_revision (es ! j) e" using shape k j by blast
    have "j \<noteq> 0"
    proof
      assume "j = 0"
      moreover have "0 < length es" using k(1) by (cases es) auto
      then have "cv_revision (es ! 0) = 1" using revision [of 0] by simp
      ultimately have "list_all (\<lambda>a. \<not> ae_verified a) (cv_artifacts e)"
        using step by (auto simp: next_revision_def split: if_splits)
      then show False using supported [OF e(1,2)] e(3) by (cases "cv_artifacts e") auto
    qed
    then have "j = 1" using shape k j by auto
    then have "cv_verification e \<in> {VerPassed, VerFailed, VerCancelled}"
      using frozen [OF step] revision [of j] k j by simp
    then show ?thesis using supported [OF e(1,2)] revision [OF k(1)] k j \<open>j = 1\<close> by auto
  qed
  have last: "es = [hd es, p, e] \<Longrightarrow> next_revision p e \<and> cv_revision p = 2" for p e
    using shape revision [of 1] by (metis Suc_1 Suc_less_eq length_Cons less_Suc_eq list.size(3)
        nth_Cons_0 nth_Cons_Suc numeral_2_eq_2 One_nat_def)
  show ?thesis using shape first third last frozen by blast
qed

section \<open>Witness\<close>

definition sample_evidence_codec :: evidence_codec where
  "sample_evidence_codec =
     \<lparr>ec_blake3 = (\<lambda>bytes. replicate 64 48), ec_contract_json = (\<lambda>c. replicate (length (co_conditions c)) 1),
      ec_command_json = (\<lambda>(command, cwd). utf8_bytes command @ [0] @ utf8_bytes cwd),
      ec_evidence_json = (\<lambda>e. replicate (length (cv_artifacts e)) 2)\<rparr>"

definition sample_opening :: completion_evidence where
  "sample_opening =
     \<lparr>cv_child_reports = [], cv_version = 1, cv_generation = 20, cv_revision = 1, cv_kind = RootWork,
      cv_owner = NativeOwner, cv_claim = ClaimInterrupted, cv_contract = \<lparr>co_conditions = []\<rparr>,
      cv_contract_digest = replicate 64 48, cv_delivered_hash = None, cv_delivered_bytes = 0,
      cv_work_revision = 0, cv_checks = [], cv_artifacts = [], cv_effects = [], cv_omitted = False,
      cv_budget = no_budget_evidence, cv_verification = NotNeeded, cv_outcome = Incomplete\<rparr>"

definition sample_artifact_fact :: artifact_evidence where
  "sample_artifact_fact =
     \<lparr>ae_generation = 20, ae_artifact = \<lparr>art_reference = \<lparr>arf_id = 7, arf_hash = replicate 64 48\<rparr>,
        art_media_type = [], art_byte_len = 3, art_owner = 1\<rparr>, ae_verified = False\<rparr>"

definition sample_collected :: completion_evidence where
  "sample_collected =
     sample_opening\<lparr>cv_revision := 2, cv_claim := ClaimCompleted, cv_delivered_hash := Some [],
       cv_delivered_bytes := 3, cv_artifacts := [sample_artifact_fact],
       cv_verification := VerReserved, cv_outcome := NeedsAttention\<rparr>"

definition sample_verified :: completion_evidence where
  "sample_verified =
     sample_collected\<lparr>cv_revision := 3, cv_artifacts := [sample_artifact_fact\<lparr>ae_verified := True\<rparr>],
       cv_verification := VerPassed, cv_outcome := DeliveryVerified\<rparr>"

lemmas sample_evidence_defs =
  sample_verified_def sample_collected_def sample_opening_def sample_artifact_fact_def
  sample_evidence_codec_def no_budget_evidence_def valid_transition_def validate_evidence_def
  validate_contract_def contract_digest_def ensure_def evaluate_evidence_def verdict_def
  needs_attention_def missing_work_def first_revision_def next_revision_def frozen_def
  MAX_EVIDENCE_ITEMS_def MAX_EVIDENCE_BYTES_def MAX_VERIFY_BYTES_def

lemma sample_history: "evidence_history sample_evidence_codec [sample_opening, sample_collected, sample_verified]"
proof -
  have "valid_transition sample_evidence_codec None sample_opening"
    and "valid_transition sample_evidence_codec (Some sample_opening) sample_collected"
    and "valid_transition sample_evidence_codec (Some sample_collected) sample_verified"
    by (simp_all add: sample_evidence_defs)
  then show ?thesis
    using evidence_history.opened evidence_history.revised [of _ "[]"] evidence_history.revised [of _ "[a]" for a]
    by (metis append_Cons append_Nil)
qed

theorem verdict_fail_closed_witness:
  "verdict sample_evidence_codec sample_verified = DeliveryVerified
   \<and> map ae_verified (cv_artifacts sample_verified) = [True]"
proof -
  have "verdict sample_evidence_codec sample_verified = DeliveryVerified"
    by (simp add: sample_evidence_defs)
  then show ?thesis
    using verdict_fail_closed [of sample_evidence_codec sample_verified]
    by (simp add: sample_verified_def)
qed

theorem evidence_lifecycle_witness:
  "evidence_history sample_evidence_codec [sample_opening, sample_collected, sample_verified]
   \<and> cv_outcome sample_verified = DeliveryVerified \<and> cv_checks sample_verified = cv_checks sample_collected"
  using evidence_lifecycle [OF sample_history] sample_history by (simp add: sample_verified_def)

end
