(* ===== verification/Journal_Store.thy ===== *)
theory Journal_Store
  imports Session_State "HOL-Library.Sublist"
begin

text \<open>
  The file that keeps a journal (\<open>src/src/session/store/legacy.rs\<close>): one line of JSON per record,
  appended under size limits, read back in full, and reopened after a crash by cutting off a torn
  last line. The lemmas give the contents of the file after any appends, failed ones included, and
  what reopening makes of them.

  A file is its bytes. A write may fail after any number of bytes have reached the file; opening,
  locking and reading are taken to succeed except for the writer lock, which is an argument.
\<close>

section \<open>Limits, errors and the codec\<close>

definition MAX_RECORD_BYTES :: nat where "MAX_RECORD_BYTES = 256 * 1024"
definition MAX_SESSION_BYTES :: nat where "MAX_SESSION_BYTES = 16 * 1024 * 1024"
definition MAX_SESSION_RECORDS :: nat where "MAX_SESSION_RECORDS = 10000"

text \<open>The reason text of a corrupt record and the paths in errors are left out.\<close>

datatype store_error =
  InvalidCreationRecord | MissingCreationRecord | StoreUnsupportedVersion nat | WrongSessionId
| DuplicateRecordId uuid | CorruptRecord nat | RecordTooLarge nat nat nat | SessionTooLarge nat nat
| TooManyRecords nat | ChangedAfterInspection | WriterBusy | WriterPoisoned | EncodeFailed | StoreIo

text \<open>
  \<open>serde_json\<close> and the file hash: encoding of a record, parsing of bytes to a JSON value, a number
  read as \<open>u64\<close>, and the typed reading of a value.
\<close>

record journal_codec =
  jc_encode :: "record_envelope \<Rightarrow> u8 list option"
  jc_parse :: "u8 list \<Rightarrow> json option"
  jc_as_u64 :: "json \<Rightarrow> nat option"
  jc_from_value :: "json \<Rightarrow> record_envelope option"
  jc_hash :: "u8 list \<Rightarrow> rust_string"

fun json_get :: "json \<Rightarrow> rust_string \<Rightarrow> json option" where
  "json_get (JObject kvs) k = map_of kvs k"
| "json_get _ k = None"

definition decode_record :: "journal_codec \<Rightarrow> u8 list \<Rightarrow> nat \<Rightarrow> store_error + record_envelope" where
  "decode_record jc bytes offset =
     (if length bytes > MAX_RECORD_BYTES
      then Inl (RecordTooLarge offset (length bytes) MAX_RECORD_BYTES)
      else res_bind (ok_or (jc_parse jc bytes) (CorruptRecord offset))
        (\<lambda>v. res_bind (ok_or (Option.bind (json_get v (rstr ''version'')) (jc_as_u64 jc))
            (CorruptRecord offset))
        (\<lambda>version.
          if version \<noteq> SESSION_RECORD_VERSION
          then Inl (StoreUnsupportedVersion (if version < 2 ^ 32 then version else 2 ^ 32 - 1))
          else ok_or (jc_from_value jc v) (CorruptRecord offset))))"

section \<open>Reading a file\<close>

definition split_line :: "u8 list \<Rightarrow> (u8 list \<times> u8 list) option" where
  "split_line bytes =
     (if 10 \<in> set bytes
      then Some (takeWhile (\<lambda>b. b \<noteq> 10) bytes, tl (dropWhile (\<lambda>b. b \<noteq> 10) bytes))
      else None)"

lemma split_line_length:
  assumes "split_line bytes = Some (line, rest)"
  shows "length bytes = Suc (length line + length rest)"
proof -
  have ne: "dropWhile (\<lambda>b. b \<noteq> 10) bytes \<noteq> []"
    using assms by (auto simp: split_line_def dropWhile_eq_Nil_conv split: if_splits)
  have "length bytes = length (takeWhile (\<lambda>b. b \<noteq> 10) bytes) + length (dropWhile (\<lambda>b. b \<noteq> 10) bytes)"
    by (metis length_append takeWhile_dropWhile_id)
  then show ?thesis using assms ne by (auto simp: split_line_def split: if_splits)
qed

function inspect_lines ::
  "journal_codec \<Rightarrow> u8 list \<Rightarrow> nat \<Rightarrow> record_envelope list \<Rightarrow> store_error + (record_envelope list \<times> nat)"
where
  "inspect_lines jc bytes offset records =
     (case split_line bytes of
        None \<Rightarrow> Inr (records, offset)
      | Some (line, rest) \<Rightarrow>
          if line = [] then Inl (CorruptRecord offset)
          else res_bind (decode_record jc line offset)
            (\<lambda>e. if rn_record_id e \<in> set (map rn_record_id records)
              then Inl (DuplicateRecordId (rn_record_id e))
              else if length records + 1 > MAX_SESSION_RECORDS
              then Inl (TooManyRecords MAX_SESSION_RECORDS)
              else inspect_lines jc rest (offset + length line + 1) (records @ [e])))"
  by pat_completeness auto
termination
  by (relation "measure (\<lambda>(jc, bytes, offset, records). length bytes)")
    (auto dest: split_line_length)

declare inspect_lines.simps [simp del]

record loaded_session =
  ld_records :: "record_envelope list"
  ld_repair :: "nat option"
  ld_len :: nat
  ld_hash :: rust_string

definition torn_tail :: "nat \<Rightarrow> nat \<Rightarrow> store_error + nat option" where
  "torn_tail offset len =
     (if offset < len
      then if len - offset > MAX_RECORD_BYTES
           then Inl (RecordTooLarge offset (len - offset) MAX_RECORD_BYTES)
           else Inr (Some offset)
      else Inr None)"

definition inspect_bytes :: "journal_codec \<Rightarrow> u8 list \<Rightarrow> store_error + loaded_session" where
  "inspect_bytes jc bytes =
     res_bind (inspect_lines jc bytes 0 [])
     (\<lambda>(records, offset). res_bind (torn_tail offset (length bytes))
     (\<lambda>repair. res_bind (ensure (records \<noteq> []) MissingCreationRecord)
     (\<lambda>_. Inr \<lparr>ld_records = records, ld_repair = repair, ld_len = length bytes,
        ld_hash = jc_hash jc bytes\<rparr>)))"

definition read_session :: "u8 list \<Rightarrow> store_error + u8 list" where
  "read_session disk =
     (if length disk > MAX_SESSION_BYTES then Inl (SessionTooLarge (length disk) MAX_SESSION_BYTES)
      else Inr disk)"

definition inspect :: "journal_codec \<Rightarrow> u8 list \<Rightarrow> store_error + loaded_session" where
  "inspect jc disk = res_bind (read_session disk) (inspect_bytes jc)"

section \<open>Writing\<close>

record legacy_store =
  ls_session :: uuid
  ls_disk :: "u8 list"
  ls_committed_bytes :: nat
  ls_committed_records :: nat
  ls_writable :: bool

text \<open>\<open>fault = Some k\<close>: the write fails after \<open>k\<close> bytes of the line.\<close>

definition store_append ::
  "journal_codec \<Rightarrow> nat option \<Rightarrow> record_envelope \<Rightarrow> (legacy_store, store_error, unit) effect" where
  "store_append jc fault e st =
     (if \<not> ls_writable st then (st, Inl WriterPoisoned)
      else if rn_version e \<noteq> SESSION_RECORD_VERSION
      then (st, Inl (StoreUnsupportedVersion (rn_version e)))
      else if rn_session e \<noteq> ls_session st then (st, Inl WrongSessionId)
      else case jc_encode jc e of
        None \<Rightarrow> (st, Inl EncodeFailed)
      | Some encoded \<Rightarrow>
          if length encoded > MAX_RECORD_BYTES
          then (st, Inl (RecordTooLarge (length (ls_disk st)) (length encoded) MAX_RECORD_BYTES))
          else if ls_committed_records st + 1 > MAX_SESSION_RECORDS
          then (st, Inl (TooManyRecords MAX_SESSION_RECORDS))
          else let line = encoded @ [10];
                   next_bytes = ls_committed_bytes st + length line in
            if next_bytes > MAX_SESSION_BYTES
            then (st, Inl (SessionTooLarge next_bytes MAX_SESSION_BYTES))
            else case fault of
              Some k \<Rightarrow> (st\<lparr>ls_disk := ls_disk st @ take k line, ls_writable := False\<rparr>, Inl StoreIo)
            | None \<Rightarrow> (st\<lparr>ls_disk := ls_disk st @ line, ls_committed_bytes := next_bytes,
                ls_committed_records := ls_committed_records st + 1\<rparr>, Inr ()))"

fun is_creation :: "session_record \<Rightarrow> bool" where
  "is_creation (SessionCreated t w) = True"
| "is_creation _ = False"

text \<open>A new file holds nothing until the creation record is appended; the file stays when that fails.\<close>

definition store_create ::
  "journal_codec \<Rightarrow> nat option \<Rightarrow> record_envelope \<Rightarrow> u8 list option \<times> (store_error + legacy_store)" where
  "store_create jc fault created =
     (if \<not> is_creation (rn_record created) then (None, Inl InvalidCreationRecord)
      else case store_append jc fault created
          \<lparr>ls_session = rn_session created, ls_disk = [], ls_committed_bytes = 0,
           ls_committed_records = 0, ls_writable = True\<rparr> of
        (st, Inl e) \<Rightarrow> (Some (ls_disk st), Inl e)
      | (st, Inr _) \<Rightarrow> (Some (ls_disk st), Inr st))"

fun encode_batch ::
  "journal_codec \<Rightarrow> uuid \<Rightarrow> record_envelope list \<Rightarrow> uuid list \<Rightarrow> u8 list \<Rightarrow> store_error + u8 list" where
  "encode_batch jc session [] seen encoded = Inr encoded"
| "encode_batch jc session (e # es) seen encoded =
     (if rn_version e \<noteq> SESSION_RECORD_VERSION then Inl (StoreUnsupportedVersion (rn_version e))
      else if rn_session e \<noteq> session then Inl WrongSessionId
      else if rn_record_id e \<in> set seen then Inl (DuplicateRecordId (rn_record_id e))
      else case jc_encode jc e of
        None \<Rightarrow> Inl EncodeFailed
      | Some line \<Rightarrow>
          if length line > MAX_RECORD_BYTES
          then Inl (RecordTooLarge (length encoded) (length line) MAX_RECORD_BYTES)
          else if length encoded + length line + 1 > MAX_SESSION_BYTES
          then Inl (SessionTooLarge (length encoded + length line + 1) MAX_SESSION_BYTES)
          else encode_batch jc session es (rn_record_id e # seen) (encoded @ line @ [10]))"

text \<open>
  A batch is staged in a second file and linked under its name in one step, so that the named file
  holds all of it or does not exist. \<open>io_ok\<close>: none of these steps failed.
\<close>

definition create_batch ::
  "journal_codec \<Rightarrow> bool \<Rightarrow> record_envelope list \<Rightarrow> store_error + legacy_store" where
  "create_batch jc io_ok records =
     (case records of
        [] \<Rightarrow> Inl MissingCreationRecord
      | created # _ \<Rightarrow>
          res_bind (ensure (is_creation (rn_record created)) InvalidCreationRecord)
          (\<lambda>_. res_bind (ensure (\<not> length records > MAX_SESSION_RECORDS)
              (TooManyRecords MAX_SESSION_RECORDS))
          (\<lambda>_. res_bind (encode_batch jc (rn_session created) records [] [])
          (\<lambda>encoded. res_bind (ensure io_ok StoreIo)
          (\<lambda>_. Inr \<lparr>ls_session = rn_session created, ls_disk = encoded,
             ls_committed_bytes = length encoded, ls_committed_records = length records,
             ls_writable = True\<rparr>)))))"

text \<open>Reopening: under the writer lock the file must still be the inspected one.\<close>

definition open_for_resume ::
  "journal_codec \<Rightarrow> bool \<Rightarrow> u8 list \<Rightarrow> loaded_session \<Rightarrow> store_error + legacy_store" where
  "open_for_resume jc lock_free disk loaded =
     res_bind (ensure lock_free WriterBusy)
     (\<lambda>_. res_bind (read_session disk)
     (\<lambda>bytes. res_bind (ensure (\<not> (length bytes \<noteq> ld_len loaded \<or> jc_hash jc bytes \<noteq> ld_hash loaded))
         ChangedAfterInspection)
     (\<lambda>_. case ld_records loaded of
        [] \<Rightarrow> Inl MissingCreationRecord
      | first # _ \<Rightarrow>
          let committed = (case ld_repair loaded of Some n \<Rightarrow> n | None \<Rightarrow> ld_len loaded)
          in Inr \<lparr>ls_session = rn_session first, ls_disk = take committed disk,
               ls_committed_bytes = committed, ls_committed_records = length (ld_records loaded),
               ls_writable = True\<rparr>)))"


section \<open>The file as a log of records\<close>

definition line_of :: "journal_codec \<Rightarrow> record_envelope \<Rightarrow> u8 list" where
  "line_of jc e = the (jc_encode jc e) @ [10]"

definition journal_bytes :: "journal_codec \<Rightarrow> record_envelope list \<Rightarrow> u8 list" where
  "journal_bytes jc es = concat (map (line_of jc) es)"

text \<open>What \<open>serde_json\<close> documents: compact JSON on one line, read back as the value written.\<close>

definition codec_keeps :: "journal_codec \<Rightarrow> record_envelope \<Rightarrow> bool" where
  "codec_keeps jc e =
     (case jc_encode jc e of
        None \<Rightarrow> True
      | Some bytes \<Rightarrow> bytes \<noteq> [] \<and> 10 \<notin> set bytes
          \<and> (case jc_parse jc bytes of
               None \<Rightarrow> False
             | Some v \<Rightarrow> Option.bind (json_get v (rstr ''version'')) (jc_as_u64 jc) = Some (rn_version e)
                 \<and> jc_from_value jc v = Some e))"

definition line_ok :: "journal_codec \<Rightarrow> uuid \<Rightarrow> record_envelope \<Rightarrow> bool" where
  "line_ok jc session e =
     (codec_keeps jc e \<and> jc_encode jc e \<noteq> None \<and> length (the (jc_encode jc e)) \<le> MAX_RECORD_BYTES
      \<and> rn_version e = SESSION_RECORD_VERSION \<and> rn_session e = session)"

definition log_ok :: "journal_codec \<Rightarrow> uuid \<Rightarrow> record_envelope list \<Rightarrow> bool" where
  "log_ok jc session es =
     ((\<forall>e \<in> set es. line_ok jc session e) \<and> length es \<le> MAX_SESSION_RECORDS
      \<and> length (journal_bytes jc es) \<le> MAX_SESSION_BYTES)"

lemma line_of_split:
  assumes "line_ok jc session e"
  obtains bytes where "line_of jc e = bytes @ [10]" "bytes \<noteq> []" "10 \<notin> set bytes"
    "length bytes \<le> MAX_RECORD_BYTES" "\<And>offset. decode_record jc bytes offset = Inr e"
proof -
  obtain bytes where enc: "jc_encode jc e = Some bytes" using assms by (auto simp: line_ok_def)
  then have "decode_record jc bytes offset = Inr e" for offset
    using assms by (auto simp: line_ok_def codec_keeps_def decode_record_def split: option.splits)
  then show thesis
    using that [of bytes] enc assms by (simp add: line_of_def line_ok_def codec_keeps_def split: option.splits)
qed

lemma split_line_terminated:
  "10 \<notin> set line \<Longrightarrow> split_line (line @ 10 # rest) = Some (line, rest)"
  by (auto simp: split_line_def takeWhile_append dropWhile_append)

lemma split_line_torn: "10 \<notin> set torn \<Longrightarrow> split_line torn = None"
  by (simp add: split_line_def)

lemma journal_bytes_simps [simp]:
  "journal_bytes jc [] = []" "journal_bytes jc (e # es) = line_of jc e @ journal_bytes jc es"
  "journal_bytes jc (es @ es') = journal_bytes jc es @ journal_bytes jc es'"
  by (simp_all add: journal_bytes_def)

lemma inspect_lines_journal:
  assumes "\<forall>e \<in> set es. line_ok jc session e" and "10 \<notin> set torn"
    and "distinct (map rn_record_id (acc @ es))" and "length (acc @ es) \<le> MAX_SESSION_RECORDS"
  shows "inspect_lines jc (journal_bytes jc es @ torn) offset acc
    = Inr (acc @ es, offset + length (journal_bytes jc es))"
  using assms
proof (induction es arbitrary: offset acc)
  case Nil
  then show ?case by (simp add: inspect_lines.simps split_line_torn)
next
  case (Cons e es)
  obtain bytes where bytes: "line_of jc e = bytes @ [10]" "bytes \<noteq> []" "10 \<notin> set bytes"
    "\<And>offset. decode_record jc bytes offset = Inr e" using Cons.prems(1) line_of_split by (metis list.set_intros(1))
  have "inspect_lines jc (journal_bytes jc es @ torn) (offset + length bytes + 1) (acc @ [e])
      = Inr ((acc @ [e]) @ es, (offset + length bytes + 1) + length (journal_bytes jc es))"
    using Cons.prems by (intro Cons.IH) simp_all
  moreover have "rn_record_id e \<notin> rn_record_id ` set acc" "Suc (length acc) \<le> MAX_SESSION_RECORDS"
    using Cons.prems by auto
  ultimately show ?case
    by (subst inspect_lines.simps) (simp add: bytes split_line_terminated ac_simps)
qed

lemma subseq_records_distinct: "subseq xs ys \<Longrightarrow> distinct (map f ys) \<Longrightarrow> distinct (map f xs) \<and> set xs \<subseteq> set ys"
  by (induction rule: list_emb.induct) auto

section \<open>A log that survives failures\<close>

fun log_run ::
  "('f \<Rightarrow> 'e \<Rightarrow> 's \<Rightarrow> 's \<times> ('err + unit)) \<Rightarrow> ('f \<times> 'e) list \<Rightarrow> 's \<Rightarrow> 's \<times> 'e list" where
  "log_run app [] s = (s, [])"
| "log_run app ((f, e) # ops) s =
     (case app f e s of
        (s', Inl _) \<Rightarrow> log_run app ops s'
      | (s', Inr _) \<Rightarrow> (let (s'', acked) = log_run app ops s' in (s'', e # acked)))"

text \<open>
  What a writer relies on: an acknowledged append is held, one that failed is not held or is held
  and seals the log, and a sealed log takes nothing more.
\<close>

locale record_log =
  fixes app :: "'f \<Rightarrow> 'e \<Rightarrow> 's \<Rightarrow> 's \<times> ('err + unit)"
    and holds :: "'e list \<Rightarrow> 's \<Rightarrow> bool"
    and is_sealed :: "'s \<Rightarrow> bool"
    and admissible :: "'e \<Rightarrow> bool"
  assumes acknowledged: "holds es s \<Longrightarrow> admissible e \<Longrightarrow> app f e s = (s', Inr u) \<Longrightarrow> holds (es @ [e]) s'"
    and refused: "holds es s \<Longrightarrow> admissible e \<Longrightarrow> app f e s = (s', Inl err) \<Longrightarrow>
      holds es s' \<or> holds (es @ [e]) s' \<and> is_sealed s'"
    and closed: "is_sealed s \<Longrightarrow> \<exists>err. app f e s = (s, Inl err)"
begin

lemma sealed_run: "is_sealed s \<Longrightarrow> log_run app ops s = (s, [])"
proof (induction ops)
  case (Cons op ops)
  obtain f e where "op = (f, e)" by (cases op)
  then show ?case using Cons closed [of s f e] by auto
qed simp

lemma run_holds:
  assumes "holds es s" and "\<forall>op \<in> set ops. admissible (snd op)" and "log_run app ops s = (s', acked)"
  shows "\<exists>extra. holds (es @ acked @ extra) s' \<and> subseq (acked @ extra) (map snd ops)
    \<and> length extra \<le> 1 \<and> (extra = [] \<or> is_sealed s')"
  using assms
proof (induction ops arbitrary: es s acked)
  case Nil
  then show ?case by (intro exI [of _ "[]"]) simp
next
  case (Cons op ops)
  obtain f e where op: "op = (f, e)" by (cases op)
  then have e: "admissible e" and ops: "\<forall>op \<in> set ops. admissible (snd op)" using Cons.prems(2) by simp_all
  obtain s1 r where step: "app f e s = (s1, r)" by (cases "app f e s")
  show ?case
  proof (cases r)
    case (Inr u)
    obtain acked' where acked: "acked = e # acked'" "log_run app ops s1 = (s', acked')"
      using Cons.prems(3) step Inr by (auto simp: op split: prod.splits)
    have "holds (es @ [e]) s1" using acknowledged [OF Cons.prems(1) e] step Inr by simp
    from Cons.IH [OF this ops acked(2)] show ?thesis unfolding acked(1) op by auto
  next
    case (Inl err)
    then have rest: "log_run app ops s1 = (s', acked)" using Cons.prems(3) step by (simp add: op)
    from refused [OF Cons.prems(1) e] step Inl consider
      "holds es s1" | "holds (es @ [e]) s1" "is_sealed s1" by blast
    then show ?thesis
    proof cases
      case 1
      from Cons.IH [OF this ops rest] show ?thesis unfolding op by auto
    next
      case 2
      then show ?thesis using sealed_run [OF 2(2), of ops] rest
        by (intro exI [of _ "[e]"]) (auto simp: op)
    qed
  qed
qed

end

definition store_holds :: "journal_codec \<Rightarrow> uuid \<Rightarrow> record_envelope list \<Rightarrow> legacy_store \<Rightarrow> bool" where
  "store_holds jc session es st =
     (log_ok jc session es \<and> ls_session st = session \<and> length (ls_disk st) \<le> MAX_SESSION_BYTES
      \<and> (if ls_writable st
         then ls_disk st = journal_bytes jc es \<and> ls_committed_bytes st = length (ls_disk st)
           \<and> ls_committed_records st = length es
         else \<exists>torn. ls_disk st = journal_bytes jc es @ torn \<and> 10 \<notin> set torn
           \<and> length torn \<le> MAX_RECORD_BYTES))"

lemma store_append_cases:
  assumes "store_append jc fault e st = (st', r)" and "store_holds jc session es st"
    and "codec_keeps jc e"
  shows "(case r of Inr _ \<Rightarrow> store_holds jc session (es @ [e]) st' \<and> ls_writable st'
    | Inl err \<Rightarrow> st' = st \<or> \<not> ls_writable st'
        \<and> (store_holds jc session es st' \<or> store_holds jc session (es @ [e]) st'))"
proof (cases "st' = st \<and> is_ok r = False")
  case True
  then show ?thesis by (cases r) auto
next
  case False
  let ?line = "line_of jc e"
  have w: "ls_writable st" and line: "line_ok jc session e"
    and r1: "length es + 1 \<le> MAX_SESSION_RECORDS"
    and b1: "length (journal_bytes jc es) + length ?line \<le> MAX_SESSION_BYTES"
    and upd: "case fault of
        Some k \<Rightarrow> st' = st\<lparr>ls_disk := ls_disk st @ take k ?line, ls_writable := False\<rparr> \<and> r = Inl StoreIo
      | None \<Rightarrow> st' = st\<lparr>ls_disk := ls_disk st @ ?line,
          ls_committed_bytes := ls_committed_bytes st + length ?line,
          ls_committed_records := ls_committed_records st + 1\<rparr> \<and> r = Inr ()"
    using assms False
    by (auto simp: store_append_def Let_def store_holds_def line_ok_def line_of_def
        split: if_splits option.splits)
  have old: "log_ok jc session es" "ls_session st = session" "ls_disk st = journal_bytes jc es"
    "ls_committed_bytes st = length (journal_bytes jc es)" "ls_committed_records st = length es"
    using assms(2) w by (auto simp: store_holds_def)
  have new: "log_ok jc session (es @ [e])" using old(1) line r1 b1 by (simp add: log_ok_def)
  show ?thesis
  proof (cases fault)
    case None
    then show ?thesis using upd new old w b1 by (simp add: store_holds_def)
  next
    case (Some k)
    obtain bytes where bytes: "?line = bytes @ [10]" "10 \<notin> set bytes" "length bytes \<le> MAX_RECORD_BYTES"
      using line_of_split [OF line] by metis
    show ?thesis
    proof (cases "k \<le> length bytes")
      case True
      then have torn: "take k ?line = take k bytes" "10 \<notin> set (take k bytes)"
        using bytes by (auto dest: in_set_takeD)
      have "length (take k bytes) \<le> length ?line" using bytes(1) by simp
      then have "store_holds jc session es st'"
        using upd old torn b1 bytes(3) by (auto simp: store_holds_def Some)
      then show ?thesis using upd Some by simp
    next
      case False
      then have "take k ?line = ?line" using bytes(1) by simp
      then have "store_holds jc session (es @ [e]) st'"
        using upd old new b1 by (simp add: store_holds_def Some)
      then show ?thesis using upd Some by simp
    qed
  qed
qed

lemma poisoned_append: "\<not> ls_writable st \<Longrightarrow> store_append jc fault e st = (st, Inl WriterPoisoned)"
  by (simp add: store_append_def)

interpretation journal: record_log "store_append jc" "store_holds jc session"
  "\<lambda>st. \<not> ls_writable st" "codec_keeps jc" for jc session
proof unfold_locales
  fix es s e f s' and u :: unit
  assume "store_holds jc session es s" "codec_keeps jc e" "store_append jc f e s = (s', Inr u)"
  from store_append_cases [OF this(3,1,2)] show "store_holds jc session (es @ [e]) s'" by simp
next
  fix es s e f s' err
  assume "store_holds jc session es s" "codec_keeps jc e" "store_append jc f e s = (s', Inl err)"
  from store_append_cases [OF this(3,1,2)] this(1)
  show "store_holds jc session es s' \<or> store_holds jc session (es @ [e]) s' \<and> \<not> ls_writable s'" by auto
qed (use poisoned_append in blast)


lemma store_create_holds:
  assumes "store_create jc None created = (file, Inr st)" and "codec_keeps jc created"
  shows "store_holds jc (rn_session created) [created] st \<and> ls_writable st \<and> file = Some (ls_disk st)
    \<and> is_creation (rn_record created)"
proof -
  let ?st = "\<lparr>ls_session = rn_session created, ls_disk = [], ls_committed_bytes = 0,
    ls_committed_records = 0, ls_writable = True\<rparr>"
  have "store_holds jc (rn_session created) [] ?st"
    by (simp add: store_holds_def log_ok_def)
  moreover have "store_append jc None created ?st = (st, Inr ())" "file = Some (ls_disk st)"
    "is_creation (rn_record created)"
    using assms(1) by (auto simp: store_create_def split: if_splits prod.splits sum.splits)
  ultimately show ?thesis using store_append_cases [OF _ _ assms(2)] by fastforce
qed

lemma encode_batch_holds:
  assumes "encode_batch jc session es seen acc = Inr bytes" and "\<forall>e \<in> set es. codec_keeps jc e"
    and "length acc \<le> MAX_SESSION_BYTES"
  shows "bytes = acc @ journal_bytes jc es \<and> (\<forall>e \<in> set es. line_ok jc session e)
    \<and> length bytes \<le> MAX_SESSION_BYTES \<and> distinct (map rn_record_id es)
    \<and> set seen \<inter> rn_record_id ` set es = {}"
  using assms
proof (induction es arbitrary: seen acc)
  case (Cons e es)
  then obtain line where line: "jc_encode jc e = Some line" "length line \<le> MAX_RECORD_BYTES"
    "length (acc @ line @ [10]) \<le> MAX_SESSION_BYTES" "rn_version e = SESSION_RECORD_VERSION"
    "rn_session e = session" "rn_record_id e \<notin> set seen"
    and rest: "encode_batch jc session es (rn_record_id e # seen) (acc @ line @ [10]) = Inr bytes"
    by (auto split: if_splits option.splits)
  have "line_ok jc session e" using line Cons.prems(2) by (simp add: line_ok_def)
  then show ?case using Cons.IH [OF rest _ line(3)] Cons.prems(2) line by (auto simp: line_of_def)
qed simp

lemma create_batch_holds:
  assumes "create_batch jc io_ok records = Inr st" and "\<forall>e \<in> set records. codec_keeps jc e"
  shows "store_holds jc (ls_session st) records st \<and> ls_writable st \<and> distinct (map rn_record_id records)
    \<and> records \<noteq> []"
proof -
  obtain created rest where records: "records = created # rest"
    using assms(1) by (cases records) (simp_all add: create_batch_def)
  then obtain bytes where bytes: "encode_batch jc (rn_session created) records [] [] = Inr bytes"
    and st: "st = \<lparr>ls_session = rn_session created, ls_disk = bytes, ls_committed_bytes = length bytes,
      ls_committed_records = length records, ls_writable = True\<rparr>"
    and few: "length records \<le> MAX_SESSION_RECORDS"
    using assms(1) by (auto simp: create_batch_def res_simps)
  from encode_batch_holds [OF bytes assms(2)] show ?thesis
    using few by (auto simp: st store_holds_def log_ok_def records)
qed

lemma reopened:
  assumes "store_holds jc session es st" and "distinct (map rn_record_id es)" and "es \<noteq> []"
  shows "\<exists>loaded st'. inspect jc (ls_disk st) = Inr loaded \<and> ld_records loaded = es
    \<and> open_for_resume jc True (ls_disk st) loaded = Inr st' \<and> store_holds jc session es st' \<and> ls_writable st'"
proof -
  let ?n = "length (journal_bytes jc es)"
  have ok: "log_ok jc session es" "ls_session st = session" "length (ls_disk st) \<le> MAX_SESSION_BYTES"
    using assms(1) by (simp_all add: store_holds_def)
  obtain torn where torn: "ls_disk st = journal_bytes jc es @ torn" "10 \<notin> set torn"
    "length torn \<le> MAX_RECORD_BYTES"
    using assms(1) by (fastforce simp: store_holds_def split: if_splits)
  have lines: "inspect_lines jc (ls_disk st) 0 [] = Inr (es, ?n)"
    using inspect_lines_journal [of es jc session torn "[]" 0] ok(1) assms(2) torn
    by (simp add: log_ok_def)
  define loaded where "loaded = \<lparr>ld_records = es, ld_repair = (if torn = [] then None else Some ?n),
    ld_len = length (ls_disk st), ld_hash = jc_hash jc (ls_disk st)\<rparr>"
  have inspected: "inspect jc (ls_disk st) = Inr loaded"
    using lines ok(3) torn assms(3)
    by (auto simp: inspect_def read_session_def inspect_bytes_def torn_tail_def ensure_def loaded_def)
  obtain first rest where es: "es = first # rest" using assms(3) by (cases es) auto
  have session: "rn_session first = session" using ok(1) es by (simp add: log_ok_def line_ok_def)
  define st' where "st' = \<lparr>ls_session = session, ls_disk = journal_bytes jc es,
    ls_committed_bytes = ?n, ls_committed_records = length es, ls_writable = True\<rparr>"
  have "open_for_resume jc True (ls_disk st) loaded = Inr st'"
    using ok(3) session torn(1)
    by (simp add: open_for_resume_def read_session_def ensure_def loaded_def es st'_def)
  moreover have "store_holds jc session es st'" using ok(1) by (simp add: store_holds_def st'_def log_ok_def)
  ultimately show ?thesis using inspected by (auto simp: loaded_def st'_def)
qed

section \<open>Crash recovery\<close>

text \<open>C34: whatever appends fail, and after however many of their bytes, the file can be inspected
  and reopened; it then holds the creation record, every acknowledged record in order and at most
  one more, whose write was reported as failed although all of it had reached the file; nothing of a
  torn line is left.\<close>

theorem crash_recovery:
  assumes "store_create jc None created = (file, Inr st0)"
    and "log_run (store_append jc) ops st0 = (st, acked)"
    and "\<forall>e \<in> set (created # map snd ops). codec_keeps jc e"
    and "distinct (map rn_record_id (created # map snd ops))"
  shows "\<exists>loaded st' extra. inspect jc (ls_disk st) = Inr loaded
    \<and> ld_records loaded = created # acked @ extra
    \<and> length extra \<le> 1 \<and> (extra = [] \<or> \<not> ls_writable st) \<and> subseq (acked @ extra) (map snd ops)
    \<and> open_for_resume jc True (ls_disk st) loaded = Inr st' \<and> ls_writable st'
    \<and> ls_disk st' = journal_bytes jc (created # acked @ extra)"
proof -
  have "store_holds jc (rn_session created) [created] st0"
    using store_create_holds [OF assms(1)] assms(3) by simp
  moreover have "\<forall>op \<in> set ops. codec_keeps jc (snd op)" using assms(3) by simp
  ultimately obtain extra where
    extra: "store_holds jc (rn_session created) (created # acked @ extra) st"
      "subseq (acked @ extra) (map snd ops)" "length extra \<le> 1" "extra = [] \<or> \<not> ls_writable st"
    using journal.run_holds [OF _ _ assms(2)] by (metis append_Cons append_Nil)
  have "distinct (map rn_record_id (created # acked @ extra))"
    using assms(4) subseq_records_distinct [OF extra(2), of rn_record_id] by auto
  from reopened [OF extra(1) this] obtain loaded st' where reopen:
    "inspect jc (ls_disk st) = Inr loaded" "ld_records loaded = created # acked @ extra"
    "open_for_resume jc True (ls_disk st) loaded = Inr st'"
    "store_holds jc (rn_session created) (created # acked @ extra) st'" "ls_writable st'" by blast
  then have "ls_disk st' = journal_bytes jc (created # acked @ extra)" by (simp add: store_holds_def)
  then show ?thesis using reopen(1-3,5) extra(2-4) by blast
qed


section \<open>Witness\<close>

definition sample_line :: "uuid \<Rightarrow> record_envelope" where
  "sample_line i =
     \<lparr>rn_version = 1, rn_record_id = i, rn_session = 9,
      rn_record = (if i = 1 then SessionCreated 7 [] else ThreadHeadMoved 7 None)\<rparr>"

text \<open>A codec for a few given records: each is its identifier and a closing brace.\<close>

definition sample_codec_for :: "record_envelope list \<Rightarrow> journal_codec" where
  "sample_codec_for es =
     \<lparr>jc_encode = (\<lambda>e. Some [word_of_nat (rn_record_id e + 48), 125]),
      jc_parse = (\<lambda>bytes. Some (JObject [(rstr ''version'', JNumber (map unat bytes))])),
      jc_as_u64 = (\<lambda>_. Some 1),
      jc_from_value = (\<lambda>v. case v of
         JObject [(_, JNumber (c # _))] \<Rightarrow> find (\<lambda>e. rn_record_id e + 48 = c) es | _ \<Rightarrow> None),
      jc_hash = (\<lambda>bytes. map unat bytes)\<rparr>"

definition sample_journal_codec :: journal_codec where
  "sample_journal_codec = sample_codec_for (map sample_line [1, 2, 3, 4])"

lemmas sample_line_simps =
  sample_line_def sample_journal_codec_def sample_codec_for_def store_create_def store_append_def Let_def
  SESSION_RECORD_VERSION_def MAX_RECORD_BYTES_def MAX_SESSION_BYTES_def MAX_SESSION_RECORDS_def

theorem crash_recovery_witness:
  "\<exists>file st0 st loaded extra.
     store_create sample_journal_codec None (sample_line 1) = (file, Inr st0)
     \<and> log_run (store_append sample_journal_codec)
         [(None, sample_line 2), (Some 2, sample_line 3), (None, sample_line 4)] st0 = (st, [sample_line 2])
     \<and> ls_disk st = [49, 125, 10, 50, 125, 10, 51, 125]
     \<and> inspect sample_journal_codec (ls_disk st) = Inr loaded
     \<and> ld_records loaded = sample_line 1 # sample_line 2 # extra \<and> length extra \<le> 1"
proof -
  have "\<exists>file st0. store_create sample_journal_codec None (sample_line 1) = (file, Inr st0)
      \<and> log_run (store_append sample_journal_codec)
         [(None, sample_line 2), (Some 2, sample_line 3), (None, sample_line 4)] st0
       = (\<lparr>ls_session = 9, ls_disk = [49, 125, 10, 50, 125, 10, 51, 125], ls_committed_bytes = 6,
           ls_committed_records = 2, ls_writable = False\<rparr>, [sample_line 2])"
    by (simp add: sample_line_simps)
  then obtain f0 st0 st where run:
    "store_create sample_journal_codec None (sample_line 1) = (f0, Inr st0)"
    "log_run (store_append sample_journal_codec)
       [(None, sample_line 2), (Some 2, sample_line 3), (None, sample_line 4)] st0 = (st, [sample_line 2])"
    "ls_disk st = [49, 125, 10, 50, 125, 10, 51, 125]" by auto
  have "codec_keeps sample_journal_codec (sample_line i)" if "i \<in> {1, 2, 3, 4}" for i
    using that by (auto simp: codec_keeps_def sample_line_simps rstr_def)
  then have "\<forall>e \<in> set (sample_line 1 # map snd [(None :: nat option, sample_line 2),
      (Some 2, sample_line 3), (None, sample_line 4)]). codec_keeps sample_journal_codec e" by simp
  from crash_recovery [OF run(1,2) this] run show ?thesis
    by (auto simp: sample_line_def)
qed

end
