(* ===== verification/Journal_Paging.thy ===== *)
theory Journal_Paging
  imports Journal_Store Session_Invariants
begin

text \<open>
  Paging through a Conversation without restoring its session (the page reader of
  \<open>src/src/session/store/legacy.rs\<close>): one pass over the file indexes where each entry's line lies,
  the head is followed to the root over the index, and only the lines of the page are read again.
  The result is a slice of the conversation path that reducing the same file yields.
\<close>

section \<open>Indexing a file\<close>

definition MAX_PAGE_MESSAGES :: nat where "MAX_PAGE_MESSAGES = 128"
definition MAX_PAGE_BYTES :: nat where "MAX_PAGE_BYTES = 2 * 1024 * 1024"

datatype page_anchor = Before "nat option" | From nat

record message_page =
  cg_messages :: "message list"
  cg_start :: nat
  cg_total :: nat
  cg_has_older :: bool

record entry_index =
  ix_parent :: "uuid option"
  ix_offset :: nat
  ix_len :: nat

record page_scan =
  sc_entries :: "(uuid, entry_index) btree"
  sc_ids :: "uuid list"
  sc_thread :: "uuid option"
  sc_head :: "uuid option"
  sc_session :: "uuid option"
  sc_records :: nat

definition empty_scan :: page_scan where
  "empty_scan = \<lparr>sc_entries = [], sc_ids = [], sc_thread = None, sc_head = None, sc_session = None,
     sc_records = 0\<rparr>"

text \<open>\<open>read_until\<close> on a reader limited to one byte more than a line may have.\<close>

definition read_line :: "u8 list \<Rightarrow> u8 list" where
  "read_line bytes =
     (let window = take (MAX_RECORD_BYTES + 2) bytes;
          n = length (takeWhile (\<lambda>b. b \<noteq> 10) window)
      in take (n + 1) window)"

definition index_record :: "record_envelope \<Rightarrow> nat \<Rightarrow> nat \<Rightarrow> page_scan \<Rightarrow> page_scan" where
  "index_record e offset len sc =
     (case rn_record e of
        SessionCreated thread _ \<Rightarrow>
          sc\<lparr>sc_thread := (case sc_thread sc of None \<Rightarrow> Some thread | Some t \<Rightarrow> Some t)\<rparr>
      | ConversationEntryAppended entry \<Rightarrow>
          sc\<lparr>sc_entries := bt_insert (et_id entry)
            \<lparr>ix_parent = et_parent entry, ix_offset = offset, ix_len = len\<rparr> (sc_entries sc)\<rparr>
      | ThreadHeadMoved thread head \<Rightarrow>
          if Some thread = sc_thread sc then sc\<lparr>sc_head := head\<rparr> else sc
      | _ \<Rightarrow> sc)"

definition scan_record ::
  "record_envelope \<Rightarrow> nat \<Rightarrow> nat \<Rightarrow> page_scan \<Rightarrow> store_error + page_scan" where
  "scan_record e offset len sc =
     (if rn_record_id e \<in> set (sc_ids sc) then Inl (DuplicateRecordId (rn_record_id e))
      else let records = sc_records sc + 1 in
        if records > MAX_SESSION_RECORDS then Inl (TooManyRecords MAX_SESSION_RECORDS)
        else if records = 1 \<and> \<not> is_creation (rn_record e) then Inl InvalidCreationRecord
        else if (case sc_session sc of None \<Rightarrow> False | Some expected \<Rightarrow> rn_session e \<noteq> expected)
        then Inl WrongSessionId
        else Inr (index_record e offset len
          (sc\<lparr>sc_ids := rn_record_id e # sc_ids sc, sc_records := records,
             sc_session := Some (rn_session e)\<rparr>)))"

lemma read_line_nonempty: "read_line bytes \<noteq> [] \<longleftrightarrow> bytes \<noteq> []"
  by (cases bytes) (simp_all add: read_line_def Let_def)

lemma read_line_prefix: "read_line bytes = take (length (read_line bytes)) bytes"
  by (simp add: read_line_def Let_def min_def)

function scan_lines ::
  "journal_codec \<Rightarrow> u8 list \<Rightarrow> nat \<Rightarrow> page_scan \<Rightarrow> store_error + page_scan" where
  "scan_lines jc bytes offset sc =
     (let line = read_line bytes; next = offset + length line in
      if line = [] then Inr sc
      else if length line > MAX_RECORD_BYTES + 1
      then Inl (RecordTooLarge offset (length line - 1) MAX_RECORD_BYTES)
      else if next > MAX_SESSION_BYTES then Inl (SessionTooLarge next MAX_SESSION_BYTES)
      else if last line \<noteq> 10 then Inr sc
      else res_bind (decode_record jc (butlast line) offset)
        (\<lambda>e. res_bind (scan_record e offset (length line) sc)
          (\<lambda>sc'. scan_lines jc (drop (length line) bytes) next sc')))"
  by pat_completeness auto
termination
proof (relation "measure (\<lambda>(jc, bytes, offset, sc). length bytes)", simp)
  fix bytes line :: "u8 list" and jc nxt offset sc e sc'
  assume "line = read_line bytes" "line \<noteq> []"
  then show "((jc, drop (length line) bytes, nxt, sc'), jc, bytes, offset, sc)
      \<in> measure (\<lambda>(jc, bytes, offset, sc). length bytes)"
    using read_line_nonempty [of bytes] by simp
qed

declare scan_lines.simps [simp del]

section \<open>Following the head\<close>

function chain_from ::
  "(uuid, entry_index) btree \<Rightarrow> uuid option \<Rightarrow> uuid list \<Rightarrow> store_error + entry_index list" where
  "chain_from m None seen = Inr []"
| "chain_from m (Some i) seen =
     (if i \<in> set seen then Inl (CorruptRecord 0)
      else case bt_get m i of
        None \<Rightarrow> Inl (CorruptRecord 0)
      | Some ix \<Rightarrow> res_bind (chain_from m (ix_parent ix) (i # seen)) (\<lambda>ixs. Inr (ix # ixs)))"
  by pat_completeness auto
termination
proof (relation "measure (\<lambda>(m, cursor, seen). card (set (bt_keys m) - set seen))", simp)
  fix m :: "(uuid, entry_index) btree" and i :: uuid and seen :: "uuid list" and ix
  assume "i \<notin> set seen" and "bt_get m i = Some ix"
  then have "i \<in> set (bt_keys m) - set seen" by (simp add: set_bt_keys)
  then have "card (set (bt_keys m) - set (i # seen)) < card (set (bt_keys m) - set seen)"
    by (intro psubset_card_mono) auto
  then show "((m, ix_parent ix, i # seen), m, Some i, seen)
      \<in> measure (\<lambda>(m, cursor, seen). card (set (bt_keys m) - set seen))" by simp
qed

declare chain_from.simps(2) [simp del]

section \<open>Choosing and reading a page\<close>

fun page_back :: "nat list \<Rightarrow> nat \<Rightarrow> nat \<Rightarrow> nat \<Rightarrow> nat" where
  "page_back lens limit_start 0 bytes = 0"
| "page_back lens limit_start (Suc s) bytes =
     (if Suc s > limit_start \<and> \<not> bytes + lens ! s > MAX_PAGE_BYTES
      then page_back lens limit_start s (bytes + lens ! s) else Suc s)"

function page_forward :: "nat list \<Rightarrow> nat \<Rightarrow> nat \<Rightarrow> nat \<Rightarrow> nat" where
  "page_forward lens stop e bytes =
     (if e < stop \<and> \<not> bytes + lens ! e > MAX_PAGE_BYTES
      then page_forward lens stop (e + 1) (bytes + lens ! e) else e)"
  by pat_completeness auto
termination by (relation "measure (\<lambda>(lens, stop, e, bytes). stop - e)") auto

declare page_forward.simps [simp del]

definition page_range :: "nat list \<Rightarrow> page_anchor \<Rightarrow> nat \<Rightarrow> nat \<times> nat" where
  "page_range lens anchor limit =
     (let total = length lens in
      case anchor of
        Before before \<Rightarrow>
          let stop = min (case before of None \<Rightarrow> total | Some b \<Rightarrow> b) total
          in (page_back lens (stop - limit) stop 0, stop)
      | From start \<Rightarrow>
          let start = min start total
          in (start, page_forward lens (min (start + limit) total) start 0))"

definition read_entry :: "journal_codec \<Rightarrow> u8 list \<Rightarrow> entry_index \<Rightarrow> store_error + message" where
  "read_entry jc disk ix =
     (let line = take (ix_len ix) (drop (ix_offset ix) disk) in
      if length line < ix_len ix then Inl StoreIo
      else let line = (if line \<noteq> [] \<and> last line = 10 then butlast line else line) in
        res_bind (decode_record jc line (ix_offset ix))
        (\<lambda>e. case rn_record e of
             ConversationEntryAppended entry \<Rightarrow> Inr (et_message entry)
           | _ \<Rightarrow> Inl (CorruptRecord (ix_offset ix))))"

fun read_entries :: "journal_codec \<Rightarrow> u8 list \<Rightarrow> entry_index list \<Rightarrow> store_error + message list" where
  "read_entries jc disk [] = Inr []"
| "read_entries jc disk (ix # ixs) =
     res_bind (read_entry jc disk ix)
     (\<lambda>m. res_bind (read_entries jc disk ixs) (\<lambda>ms. Inr (m # ms)))"

definition read_conversation_page ::
  "journal_codec \<Rightarrow> u8 list \<Rightarrow> page_anchor \<Rightarrow> nat \<Rightarrow> store_error + message_page" where
  "read_conversation_page jc disk anchor limit =
     (let limit = min (max limit 1) MAX_PAGE_MESSAGES in
      res_bind (scan_lines jc disk 0 empty_scan)
      (\<lambda>sc. res_bind (ensure (sc_thread sc \<noteq> None) MissingCreationRecord)
      (\<lambda>_. res_bind (chain_from (sc_entries sc) (sc_head sc) [])
      (\<lambda>newest_first.
        let chain = rev newest_first;
            (start, stop) = page_range (map ix_len chain) anchor limit
        in res_bind (read_entries jc disk (take (stop - start) (drop start chain)))
          (\<lambda>messages. Inr \<lparr>cg_messages = messages, cg_start = start, cg_total = length chain,
             cg_has_older = (start > 0)\<rparr>)))))"

definition conversation_page ::
  "journal_codec \<Rightarrow> u8 list \<Rightarrow> nat option \<Rightarrow> nat \<Rightarrow> store_error + message_page" where
  "conversation_page jc disk before limit = read_conversation_page jc disk (Before before) limit"

definition conversation_page_from ::
  "journal_codec \<Rightarrow> u8 list \<Rightarrow> nat \<Rightarrow> nat \<Rightarrow> store_error + message_page" where
  "conversation_page_from jc disk start limit = read_conversation_page jc disk (From start) limit"

section \<open>Page ranges\<close>

lemma page_back_bounds:
  "page_back lens low n bytes \<le> n \<and> (low \<le> n \<longrightarrow> low \<le> page_back lens low n bytes)"
  by (induction lens low n bytes rule: page_back.induct) auto

lemma page_back_progress: "low < n \<Longrightarrow> lens ! (n - 1) \<le> MAX_PAGE_BYTES \<Longrightarrow> page_back lens low n 0 < n"
  using page_back_bounds [of lens low "n - 1"] by (cases n) (auto simp: less_Suc_eq_le)

lemma page_forward_bounds:
  "e \<le> stop \<Longrightarrow> e \<le> page_forward lens stop e bytes \<and> page_forward lens stop e bytes \<le> stop"
proof (induction lens stop e bytes rule: page_forward.induct)
  case (1 lens stop e bytes)
  then show ?case by (subst (1 2) page_forward.simps) auto
qed

lemma page_forward_progress:
  "e < stop \<Longrightarrow> lens ! e \<le> MAX_PAGE_BYTES \<Longrightarrow> e < page_forward lens stop e 0"
  using page_forward_bounds [of "e + 1" stop lens "lens ! e"]
  by (subst page_forward.simps) simp

lemma page_range_bounds:
  assumes "page_range lens anchor limit = (start, stop)" and "1 \<le> limit"
    and "\<forall>n \<in> set lens. n \<le> MAX_PAGE_BYTES"
  shows "start \<le> stop \<and> stop \<le> length lens \<and> stop - start \<le> limit
    \<and> (case anchor of
         Before before \<Rightarrow> stop = min (case before of None \<Rightarrow> length lens | Some b \<Rightarrow> b) (length lens)
           \<and> (0 < stop \<longrightarrow> start < stop)
       | From a \<Rightarrow> start = min a (length lens) \<and> (start < length lens \<longrightarrow> start < stop))"
proof (cases anchor)
  case (Before before)
  define s where "s = min (case before of None \<Rightarrow> length lens | Some b \<Rightarrow> b) (length lens)"
  have s: "s \<le> length lens" by (simp add: s_def)
  have progress: "page_back lens (s - limit) s 0 < s" if "0 < s"
  proof (rule page_back_progress)
    show "s - limit < s" using assms(2) that by linarith
    have "s - 1 < length lens" using that s by linarith
    then show "lens ! (s - 1) \<le> MAX_PAGE_BYTES" using assms(3) nth_mem by blast
  qed
  have "start = page_back lens (s - limit) s 0" "stop = s"
    using assms(1) by (auto simp: page_range_def Before Let_def s_def)
  then show ?thesis
    using progress s page_back_bounds [of lens "s - limit" s 0] by (auto simp: Before s_def [symmetric])
next
  case (From a)
  define b where "b = min a (length lens)"
  define e where "e = min (b + limit) (length lens)"
  have be: "b \<le> e" "e \<le> length lens" "e \<le> b + limit" by (auto simp: b_def e_def)
  have progress: "b < page_forward lens e b 0" if "b < length lens"
    using assms(2,3) that by (intro page_forward_progress) (auto simp: e_def)
  have "start = b" "stop = page_forward lens e b 0"
    using assms(1) by (auto simp: page_range_def From Let_def b_def e_def)
  then show ?thesis
    using progress be page_forward_bounds [of b e lens 0] by (auto simp: From b_def [symmetric])
qed

section \<open>The index and the reduced session\<close>

lemma read_line_of:
  assumes "line_ok jc session e"
  shows "read_line (line_of jc e @ rest) = line_of jc e" and "length (line_of jc e) \<le> MAX_RECORD_BYTES + 1"
    and "last (line_of jc e) = 10" and "line_of jc e \<noteq> []"
    and "decode_record jc (butlast (line_of jc e)) offset = Inr e"
proof -
  obtain bytes where bytes: "line_of jc e = bytes @ [10]" "10 \<notin> set bytes"
    "length bytes \<le> MAX_RECORD_BYTES" "\<And>offset. decode_record jc bytes offset = Inr e"
    using line_of_split [OF assms] by metis
  have window: "take (MAX_RECORD_BYTES + 2) (line_of jc e @ rest)
      = bytes @ 10 # take (MAX_RECORD_BYTES + 1 - length bytes) rest"
    using bytes(1,3) by (simp add: take_Cons' Suc_diff_le)
  have "takeWhile (\<lambda>b. b \<noteq> 10) (bytes @ 10 # more) = bytes" for more
    using bytes(2) by (induction bytes) auto
  then show "read_line (line_of jc e @ rest) = line_of jc e"
    unfolding read_line_def Let_def window by (simp add: bytes(1))
qed (use line_of_split [OF assms] in \<open>metis append_is_Nil_conv last_snoc list.distinct(1) length_append_singleton
    Suc_eq_plus1 add_le_mono1 butlast_snoc\<close>)+

text \<open>Where the line of an entry lies.\<close>

definition indexed :: "journal_codec \<Rightarrow> record_envelope list \<Rightarrow> conversation_entry \<Rightarrow> entry_index \<Rightarrow> bool"
where
  "indexed jc es e ix =
     (ix_parent ix = et_parent e \<and> (\<exists>before env after. es = before @ env # after
        \<and> rn_record env = ConversationEntryAppended e \<and> ix_offset ix = length (journal_bytes jc before)
        \<and> ix_len ix = length (line_of jc env)))"

lemma indexed_more: "indexed jc es e ix \<Longrightarrow> indexed jc (es @ es') e ix"
  unfolding indexed_def by (metis append_Cons append_assoc)

definition slot_agrees ::
  "journal_codec \<Rightarrow> record_envelope list \<Rightarrow> conversation_entry option \<Rightarrow> entry_index option \<Rightarrow> bool" where
  "slot_agrees jc es x y =
     (case x of None \<Rightarrow> y = None | Some e \<Rightarrow> \<exists>ix. y = Some ix \<and> indexed jc es e ix)"

lemma slot_agrees_simps [simp]:
  "slot_agrees jc es None y \<longleftrightarrow> y = None"
  "slot_agrees jc es (Some e) y \<longleftrightarrow> (\<exists>ix. y = Some ix \<and> indexed jc es e ix)"
  by (simp_all add: slot_agrees_def)

lemma slot_agrees_more: "slot_agrees jc es x y \<Longrightarrow> slot_agrees jc (es @ es') x y"
  by (cases x) (auto intro: indexed_more)

definition index_agrees ::
  "journal_codec \<Rightarrow> record_envelope list \<Rightarrow> restored_session \<Rightarrow> page_scan \<Rightarrow> bool" where
  "index_agrees jc es st sc =
     (sc_records sc = length es \<and> set (sc_ids sc) = set (map rn_record_id es)
      \<and> sc_thread sc = Some (ss_thread st) \<and> sc_session sc = Some (ss_id st) \<and> sc_head sc = ss_head st
      \<and> ss_archived st = None
      \<and> (\<forall>i. slot_agrees jc es (bt_get (ss_entries st) i) (bt_get (sc_entries sc) i)))"

lemma index_step:
  assumes "index_agrees jc es st sc" and "validate_envelope codec st seen env (length es) None = Inr ()"
    and "apply_validated (rn_record env) st = Some st'" and "set seen = set (map rn_record_id es)"
    and "es \<noteq> []" and "length es + 1 \<le> MAX_SESSION_RECORDS"
  shows "\<exists>sc'. scan_record env (length (journal_bytes jc es)) (length (line_of jc env)) sc = Inr sc'
    \<and> index_agrees jc (es @ [env]) st' sc'"
proof -
  let ?off = "length (journal_bytes jc es)" and ?len = "length (line_of jc env)"
  have fresh: "rn_record_id env \<notin> set (sc_ids sc)" and session: "rn_session env = ss_id st"
    and valid: "validate_record codec st (length es) None (ss_id st) (rn_record env) = Inr ()"
    using assms(1,2,4,5) by (auto simp: validate_envelope_def index_agrees_def split: if_splits)
  let ?sc = "sc\<lparr>sc_ids := rn_record_id env # sc_ids sc, sc_records := sc_records sc + 1,
    sc_session := Some (rn_session env)\<rparr>"
  have scan: "scan_record env ?off ?len sc = Inr (index_record env ?off ?len ?sc)"
    using fresh session assms(1,5,6) by (simp add: scan_record_def index_agrees_def)
  note after = entries_after [OF assms(3)] head_after [OF assms(3)] identity_after [OF assms(3)]
  have old: "\<forall>i. slot_agrees jc (es @ [env]) (bt_get (ss_entries st) i) (bt_get (sc_entries sc) i)"
    using assms(1) by (simp add: index_agrees_def slot_agrees_more)
  have "index_agrees jc (es @ [env]) st' (index_record env ?off ?len ?sc)"
  proof (cases "rn_record env")
    case (ConversationEntryAppended e)
    have "indexed jc (es @ [env]) e \<lparr>ix_parent = et_parent e, ix_offset = ?off, ix_len = ?len\<rparr>"
      unfolding indexed_def using ConversationEntryAppended
      by (intro conjI exI [of _ es] exI [of _ env] exI [of _ "[]"]) simp_all
    then show ?thesis
      using ConversationEntryAppended assms(1) after old session
      by (simp add: index_agrees_def index_record_def bt_get_insert)
  next
    case (SessionCreated t w)
    then show ?thesis using valid by simp
  next
    case (ThreadHeadMoved t h)
    then have "t = ss_thread st" using valid by (auto simp: validate_head_def split: if_splits)
    then show ?thesis
      using ThreadHeadMoved assms(1) after old session by (simp add: index_agrees_def index_record_def)
  qed (use assms(1) after old session in \<open>simp_all add: index_agrees_def index_record_def\<close>)
  then show ?thesis using scan by blast
qed

lemma scan_journal:
  assumes "reduce_from codec st seen (length done) es = Some (Inr st')"
    and "index_agrees jc done st sc" and "set seen = set (map rn_record_id done)" and "done \<noteq> []"
    and "\<forall>e \<in> set es. line_ok jc session e" and "length (done @ es) \<le> MAX_SESSION_RECORDS"
    and "length (journal_bytes jc (done @ es)) \<le> MAX_SESSION_BYTES" and "10 \<notin> set torn"
    and "length torn \<le> MAX_RECORD_BYTES"
    and "length (journal_bytes jc (done @ es)) + length torn \<le> MAX_SESSION_BYTES"
  shows "\<exists>sc'. scan_lines jc (journal_bytes jc es @ torn) (length (journal_bytes jc done)) sc = Inr sc'
    \<and> index_agrees jc (done @ es) st' sc'"
  using assms
proof (induction es arbitrary: st seen "done" sc)
  case Nil
  have whole: "takeWhile (\<lambda>b. b \<noteq> 10) torn = torn" using Nil.prems(8) by (induction torn) auto
  have "read_line torn = torn" using Nil.prems(9) by (simp add: read_line_def Let_def whole)
  moreover have "torn \<noteq> [] \<Longrightarrow> last torn \<noteq> 10" using Nil.prems(8) last_in_set by metis
  ultimately have "scan_lines jc torn (length (journal_bytes jc done)) sc = Inr sc"
    using Nil.prems(9,10) by (subst scan_lines.simps) (auto simp: Let_def)
  then show ?case using Nil.prems(1,2) by simp
next
  case (Cons e es)
  obtain st1 where step: "validate_envelope codec st seen e (length done) None = Inr ()"
    "apply_validated (rn_record e) st = Some st1"
    "reduce_from codec st1 (rn_record_id e # seen) (length (done @ [e])) es = Some (Inr st')"
    using Cons.prems(1,4) by (auto split: sum.splits option.splits if_splits)
  obtain sc1 where sc1: "scan_record e (length (journal_bytes jc done)) (length (line_of jc e)) sc = Inr sc1"
    "index_agrees jc (done @ [e]) st1 sc1"
    using index_step [OF Cons.prems(2) step(1,2) Cons.prems(3,4)] Cons.prems(6) by fastforce
  note line = read_line_of [OF Cons.prems(5) [rule_format, of e, simplified]]
  have "\<exists>sc'. scan_lines jc (journal_bytes jc es @ torn) (length (journal_bytes jc (done @ [e]))) sc1 = Inr sc'
      \<and> index_agrees jc ((done @ [e]) @ es) st' sc'"
    using Cons.prems(3,5-10) by (intro Cons.IH [OF step(3) sc1(2)]) auto
  then obtain sc' where "scan_lines jc (journal_bytes jc es @ torn)
      (length (journal_bytes jc (done @ [e]))) sc1 = Inr sc'" "index_agrees jc (done @ e # es) st' sc'" by auto
  then show ?case
    using line sc1(1) Cons.prems(7)
    by (intro exI [of _ sc']) (subst scan_lines.simps, simp add: Let_def)
qed

lemma chain_of_walk:
  assumes "\<forall>i. slot_agrees jc es (bt_get (ss_entries st) i) (bt_get m i)"
    and "ss_archived st = None" and "walk_path st cursor seen = Inr path"
  shows "\<exists>ixs. chain_from m cursor seen = Inr ixs \<and> list_all2 (indexed jc es) path ixs"
  using assms(3)
proof (induction path arbitrary: cursor seen)
  case Nil
  then show ?case
    using assms(2) by (cases cursor)
      (auto simp: walk_path.simps(2) archived_end_def res_simps split: if_splits option.splits)
next
  case (Cons e path)
  obtain i where i: "cursor = Some i" "i \<notin> set seen" "bt_get (ss_entries st) i = Some e"
    "walk_path st (et_parent e) (i # seen) = Inr path"
    using Cons.prems assms(2) by (cases cursor)
      (auto simp: walk_path.simps(2) archived_end_def res_simps split: if_splits option.splits)
  obtain ix where ix: "bt_get m i = Some ix" "indexed jc es e ix" using assms(1) i(3) by (metis slot_agrees_simps(2))
  from Cons.IH [OF i(4)] obtain ixs where
    "chain_from m (et_parent e) (i # seen) = Inr ixs" "list_all2 (indexed jc es) path ixs" by blast
  moreover have "ix_parent ix = et_parent e" using ix(2) by (simp add: indexed_def)
  ultimately show ?case using i ix by (simp add: chain_from.simps(2))
qed

lemma read_indexed:
  assumes "\<forall>e \<in> set es. line_ok jc session e" and "indexed jc es e ix"
  shows "read_entry jc (journal_bytes jc es @ torn) ix = Inr (et_message e)" and "ix_len ix \<le> MAX_PAGE_BYTES"
proof -
  obtain before env after where at: "es = before @ env # after" "rn_record env = ConversationEntryAppended e"
    "ix_offset ix = length (journal_bytes jc before)" "ix_len ix = length (line_of jc env)"
    using assms(2) by (auto simp: indexed_def)
  have ok: "line_ok jc session env" using assms(1) at(1) by simp
  note line = read_line_of [OF ok]
  show "read_entry jc (journal_bytes jc es @ torn) ix = Inr (et_message e)"
    using line at by (simp add: read_entry_def Let_def)
  show "ix_len ix \<le> MAX_PAGE_BYTES"
    using line(2) at(4) by (simp add: MAX_PAGE_BYTES_def MAX_RECORD_BYTES_def)
qed

lemma read_indexed_list:
  assumes "\<forall>e \<in> set es. line_ok jc session e" and "list_all2 (indexed jc es) path ixs"
  shows "read_entries jc (journal_bytes jc es @ torn) ixs = Inr (map et_message path)"
  using assms(2) by (induction rule: list_all2_induct) (simp_all add: read_indexed(1) [OF assms(1)])


section \<open>Pages are slices of the restored conversation\<close>

lemma scan_of_reduced:
  assumes "store_holds jc session es st" and "reduce codec es = Some (Inr s)"
  shows "\<exists>sc. scan_lines jc (ls_disk st) 0 empty_scan = Inr sc \<and> index_agrees jc es s sc"
proof -
  obtain first rest thread workspace where es: "es = first # rest"
    and created: "rn_record first = SessionCreated thread workspace"
    and run: "reduce_from codec (empty_session (rn_session first) thread workspace) [] 0 es = Some (Inr s)"
    using assms(2) by (auto simp: reduce_def check_reduced_def res_simps
        split: list.splits session_record.splits if_splits)
  let ?st0 = "empty_session (rn_session first) thread workspace"
  have rest: "reduce_from codec ?st0 [rn_record_id first] (length [first]) rest = Some (Inr s)"
    using run by (auto simp: es split: sum.splits)
  have ok: "\<forall>e \<in> set es. line_ok jc session e" "length es \<le> MAX_SESSION_RECORDS"
    "length (journal_bytes jc es) \<le> MAX_SESSION_BYTES"
    using assms(1) by (simp_all add: store_holds_def log_ok_def)
  obtain torn where torn: "ls_disk st = journal_bytes jc es @ torn" "10 \<notin> set torn"
    "length torn \<le> MAX_RECORD_BYTES" "length (journal_bytes jc es) + length torn \<le> MAX_SESSION_BYTES"
    using assms(1) ok(3) by (fastforce simp: store_holds_def split: if_splits)
  define sc0 where "sc0 = index_record first 0 (length (line_of jc first))
    (empty_scan\<lparr>sc_ids := [rn_record_id first], sc_records := 1, sc_session := Some (rn_session first)\<rparr>)"
  have scan0: "scan_record first 0 (length (line_of jc first)) empty_scan = Inr sc0"
    using created ok(2) by (simp add: scan_record_def empty_scan_def sc0_def es)
  have "index_agrees jc [first] ?st0 sc0"
    by (simp add: index_agrees_def sc0_def index_record_def created empty_scan_def empty_session_def)
  from scan_journal [OF rest this, of session torn] ok torn obtain sc where sc:
    "scan_lines jc (journal_bytes jc rest @ torn) (length (line_of jc first)) sc0 = Inr sc"
    "index_agrees jc es s sc" by (auto simp: es)
  note line = read_line_of [OF ok(1) [rule_format, of first, unfolded es, simplified]]
  have "scan_lines jc (ls_disk st) 0 empty_scan = Inr sc"
    using line scan0 sc(1) ok(3) by (subst scan_lines.simps) (simp add: Let_def torn(1) es)
  then show ?thesis using sc(2) by blast
qed

text \<open>C35: a page read from the file, without restoring the session, is a slice of the conversation that
  the session restored from the same file has, whatever is left of a torn last line: it counts all
  messages, has at most 128 of them, lies next to its cursor, backwards or forwards, and is not empty
  while messages remain on that side, so that paging reaches every message exactly once.\<close>

theorem page_agrees_with_reduction:
  assumes "store_holds jc session es st" and "reduce codec es = Some (Inr s)"
  shows "\<exists>page messages. read_conversation_page jc (ls_disk st) anchor limit = Inr page
    \<and> conversation_path s = Inr messages
    \<and> cg_messages page = take (length (cg_messages page)) (drop (cg_start page) messages)
    \<and> cg_total page = length messages \<and> cg_has_older page = (cg_start page > 0)
    \<and> length (cg_messages page) \<le> MAX_PAGE_MESSAGES
    \<and> (case anchor of
         Before before \<Rightarrow> cg_start page + length (cg_messages page)
             = min (case before of None \<Rightarrow> length messages | Some b \<Rightarrow> b) (length messages)
       | From a \<Rightarrow> cg_start page = min a (length messages))
    \<and> (cg_messages page = [] \<longrightarrow> (case anchor of Before _ \<Rightarrow> cg_start page = 0
         | From _ \<Rightarrow> cg_start page = length messages))"
proof -
  obtain sc where sc: "scan_lines jc (ls_disk st) 0 empty_scan = Inr sc" "index_agrees jc es s sc"
    using scan_of_reduced [OF assms] by blast
  have archived: "ss_archived s = None" and head: "sc_head sc = ss_head s"
    and slots: "\<forall>i. slot_agrees jc es (bt_get (ss_entries s) i) (bt_get (sc_entries sc) i)"
    and thread: "sc_thread sc \<noteq> None"
    using sc(2) by (simp_all add: index_agrees_def)
  obtain path where path: "walk_path s (ss_head s) [] = Inr path"
    using entry_path_total [OF forest.reduced_inv [OF assms(2)]] by (auto simp: entry_path_def res_simps)
  from chain_of_walk [OF slots archived path] obtain ixs where
    chain: "chain_from (sc_entries sc) (ss_head s) [] = Inr ixs" "list_all2 (indexed jc es) path ixs" by blast
  define limit' where "limit' = min (max limit 1) MAX_PAGE_MESSAGES"
  have limit': "1 \<le> limit'" "limit' \<le> MAX_PAGE_MESSAGES"
    by (simp_all add: limit'_def MAX_PAGE_MESSAGES_def)
  define lens where "lens = map ix_len (rev ixs)"
  obtain start stop where range: "page_range lens anchor limit' = (start, stop)"
    by (cases "page_range lens anchor limit'")
  have ok: "\<forall>e \<in> set es. line_ok jc session e" using assms(1) by (simp add: store_holds_def log_ok_def)
  obtain torn where torn: "ls_disk st = journal_bytes jc es @ torn"
    using assms(1) by (fastforce simp: store_holds_def split: if_splits)
  have len: "length ixs = length path" using chain(2) by (simp add: list_all2_lengthD)
  have rel: "list_all2 (indexed jc es) (rev path) (rev ixs)" using chain(2) by simp
  have "\<forall>ix \<in> set ixs. ix_len ix \<le> MAX_PAGE_BYTES"
    using chain(2) read_indexed(2) [OF ok] by (induction rule: list_all2_induct) auto
  then have "\<forall>n \<in> set lens. n \<le> MAX_PAGE_BYTES" by (simp add: lens_def)
  note bounds = page_range_bounds [OF range limit'(1) this]
  let ?slice = "\<lambda>xs. take (stop - start) (drop start xs)"
  have "list_all2 (indexed jc es) (?slice (rev path)) (?slice (rev ixs))"
    using rel by (intro list_all2_takeI list_all2_dropI)
  from read_indexed_list [OF ok this, of torn]
  have read: "read_entries jc (ls_disk st) (?slice (rev ixs)) = Inr (?slice (map et_message (rev path)))"
    by (simp add: torn take_map drop_map)
  define page where "page = \<lparr>cg_messages = ?slice (map et_message (rev path)), cg_start = start,
    cg_total = length path, cg_has_older = (start > 0)\<rparr>"
  have "read_conversation_page jc (ls_disk st) anchor limit = Inr page"
    using sc(1) thread chain(1) head range read len
    by (simp add: read_conversation_page_def ensure_def page_def limit'_def lens_def Let_def)
  moreover have "conversation_path s = Inr (map et_message (rev path))"
    using path by (simp add: conversation_path_def entry_path_def)
  moreover have "length lens = length path" by (simp add: lens_def len)
  ultimately show ?thesis
    using bounds limit'(2) by (intro exI [of _ page] exI [of _ "map et_message (rev path)"])
      (auto simp: page_def min_def split: page_anchor.splits option.splits)
qed

section \<open>Witness\<close>

definition paged_journal :: "record_envelope list" where
  "paged_journal =
     map (\<lambda>(i, r). \<lparr>rn_version = 1, rn_record_id = i, rn_session = 9, rn_record = r\<rparr>)
       [(1, SessionCreated 7 []),
        (2, ConversationEntryAppended \<lparr>et_id = 20, et_parent = None, et_agent = 5,
              et_message = text_message UserRole (rstr ''hi'')\<rparr>),
        (3, ThreadHeadMoved 7 (Some 20))]"

definition paged_store :: legacy_store where
  "paged_store =
     \<lparr>ls_session = 9, ls_disk = [49, 125, 10, 50, 125, 10, 51, 125, 10, 123], ls_committed_bytes = 9,
      ls_committed_records = 3, ls_writable = False\<rparr>"

definition paged_session :: restored_session where
  "paged_session = (empty_session 9 7 [])\<lparr>ss_head := Some 20, ss_entries := [(20, \<lparr>et_id = 20,
     et_parent = None, et_agent = 5, et_message = text_message UserRole (rstr ''hi'')\<rparr>)]\<rparr>"

lemma paged_reduced: "reduce codec paged_journal = Some (Inr paged_session)"
  by (simp add: paged_journal_def reduce_def validate_envelope_def SESSION_RECORD_VERSION_def
      validate_entry_def validate_head_def text_message_def bt_contains_def bt_get_def empty_session_def
      check_reduced_def conversation_path_def entry_path_def walk_path.simps(2) archived_end_def
      validate_branch_history_def paged_session_def)

theorem page_agrees_with_reduction_witness:
  "store_holds (sample_codec_for paged_journal) 9 paged_journal paged_store
   \<and> (\<exists>page. read_conversation_page (sample_codec_for paged_journal) (ls_disk paged_store) (Before None) 5
         = Inr page \<and> cg_total page = 1 \<and> cg_start page = 0)"
proof -
  let ?jc = "sample_codec_for paged_journal"
  have holds: "store_holds ?jc 9 paged_journal paged_store"
    by (simp add: store_holds_def log_ok_def line_ok_def codec_keeps_def sample_codec_for_def paged_journal_def
        paged_store_def rstr_def line_of_def SESSION_RECORD_VERSION_def MAX_RECORD_BYTES_def
        MAX_SESSION_BYTES_def MAX_SESSION_RECORDS_def)
  have path: "conversation_path paged_session = Inr [text_message UserRole (rstr ''hi'')]"
    by (simp add: conversation_path_def entry_path_def paged_session_def empty_session_def bt_get_def
        walk_path.simps(2) archived_end_def)
  obtain page messages where page:
    "read_conversation_page ?jc (ls_disk paged_store) (Before None) 5 = Inr page"
    "conversation_path paged_session = Inr messages" "cg_total page = length messages"
    "cg_start page + length (cg_messages page) = length messages"
    "cg_messages page = [] \<longrightarrow> cg_start page = 0"
    using page_agrees_with_reduction [OF holds paged_reduced, of "Before None" 5]
    unfolding page_anchor.case option.case min.idem by (elim exE conjE) (rule that; assumption)
  have "length messages = 1" using path page(2) by auto
  moreover from this have "cg_start page = 0" using page(4,5) by (cases "cg_messages page") simp_all
  ultimately have "cg_total page = 1" "cg_start page = 0" using page(3) by simp_all
  then show ?thesis using holds page(1) by blast
qed

end
