(* ===== verification/Session_Writer.thy ===== *)
theory Session_Writer
  imports Journal_Store Session_Properties
begin

text \<open>
  The writer of a Conversation over the file store (\<open>src/src/session/durable.rs\<close>, the branches taken
  without a protected home): creation, resumption, and the guarded append that validates a record
  against the restored state, writes it and applies it, with the operations made of it. The lemmas
  show that the state in memory is at every moment the one that reducing the written records gives.
\<close>

section \<open>State and environment\<close>

datatype writer_error =
  RecordRejected reduction_error | StoreRefused store_error | AppendPanicked
| ArtifactUnavailable | OperationUnavailable | EntryNotOnPath uuid | ExecutionStarted

text \<open>
  What the writer asks of the outside: the two codecs, the n-th identifier drawn at random, the
  number of bytes after which the n-th append fails, and the artifact store. One counter numbers all
  of them.
\<close>

record writer_env =
  we_codec :: session_codec
  we_journal :: journal_codec
  we_fresh :: "nat \<Rightarrow> uuid"
  we_fault :: "nat \<Rightarrow> nat option"
  we_put :: "nat \<Rightarrow> u8 list \<Rightarrow> rust_string \<Rightarrow> uuid \<Rightarrow> artifact_record option"

record durable_session =
  du_store :: legacy_store
  du_records :: "record_envelope list"
  du_record_ids :: "uuid list"
  du_restored :: restored_session
  du_agent :: uuid
  du_owner :: uuid
  du_prefix :: "prefix_accumulator option"
  du_drawn :: nat

type_synonym 'a writing = "(durable_session, writer_error, 'a) effect"

section \<open>Creation and resumption\<close>

definition reduce_result ::
  "session_codec \<Rightarrow> record_envelope list \<Rightarrow> writer_error + restored_session" where
  "reduce_result codec records =
     (case reduce codec records of
        None \<Rightarrow> Inl AppendPanicked
      | Some (Inl e) \<Rightarrow> Inl (RecordRejected e)
      | Some (Inr st) \<Rightarrow> Inr st)"

definition store_result :: "store_error + 'a \<Rightarrow> writer_error + 'a" where
  "store_result r = (case r of Inl e \<Rightarrow> Inl (StoreRefused e) | Inr x \<Rightarrow> Inr x)"

text \<open>\<open>drawn\<close> identifiers are used when the session starts; the next one is its owner's.\<close>

definition from_open_store ::
  "writer_env \<Rightarrow> nat \<Rightarrow> legacy_store \<Rightarrow> record_envelope list \<Rightarrow> writer_error + durable_session" where
  "from_open_store env drawn store records =
     res_bind (reduce_result (we_codec env) records)
     (\<lambda>st. Inr \<lparr>du_store = store, du_records = records, du_record_ids = map rn_record_id records,
        du_restored = st, du_agent = sc_root_agent (we_codec env) (ss_id st),
        du_owner = we_fresh env drawn, du_prefix = None, du_drawn = drawn + 1\<rparr>)"

definition create_with_id ::
  "writer_env \<Rightarrow> nat \<Rightarrow> path \<Rightarrow> uuid \<Rightarrow> writer_error + durable_session" where
  "create_with_id env drawn workspace session =
     (let thread = we_fresh env drawn;
          created = new_envelope (we_fresh env (drawn + 1)) session (SessionCreated thread workspace)
      in res_bind (store_result (snd (store_create (we_journal env) (we_fault env (drawn + 1)) created)))
        (\<lambda>store. from_open_store env (drawn + 2) store [created]))"

record session_summary =
  sy_session :: uuid
  sy_record_count :: nat
  sy_repair :: "nat option"
  sy_unfinished :: "(uuid \<times> operation_state) list"
  sy_artifact_count :: nat
  sy_artifact_bytes :: nat
  sy_context_versions :: "(uuid \<times> nat) list"
  sy_child_count :: nat
  sy_children :: "(agent_handle \<times> child_report option \<times> bool) list"
  sy_compaction_count :: nat
  sy_compactions :: "compaction_checkpoint list"
  sy_branch :: "native_branch_lineage option"
  sy_active_entry_count :: nat
  sy_recent_entry_ids :: "uuid list"

definition MAX_INSPECTED_COMPACTIONS :: nat where "MAX_INSPECTED_COMPACTIONS = 64"
definition MAX_INSPECTED_ENTRY_IDS :: nat where "MAX_INSPECTED_ENTRY_IDS = 128"

definition last_n :: "nat \<Rightarrow> 'a list \<Rightarrow> 'a list" where
  "last_n n xs = rev (take n (rev xs))"

definition summary_from_loaded ::
  "session_codec \<Rightarrow> loaded_session \<Rightarrow> writer_error + session_summary" where
  "summary_from_loaded codec loaded =
     res_bind (reduce_result codec (ld_records loaded))
     (\<lambda>st. case entry_path st of
        Inl e \<Rightarrow> Inl (RecordRejected e)
      | Inr path \<Rightarrow> Inr \<lparr>sy_session = ss_id st, sy_record_count = length (ld_records loaded),
          sy_repair = ld_repair loaded, sy_unfinished = unfinished_operations st,
          sy_artifact_count = length (ss_artifacts st),
          sy_artifact_bytes = sum_list (map (art_byte_len \<circ> snd) (ss_artifacts st)),
          sy_context_versions = bt_keys (ss_contexts st),
          sy_child_count = length (ss_children st),
          sy_children = map (child_inspection \<circ> snd) (ss_children st),
          sy_compaction_count = length (ss_compactions st),
          sy_compactions = last_n MAX_INSPECTED_COMPACTIONS (ss_compactions st),
          sy_branch = ss_branch st, sy_active_entry_count = length path,
          sy_recent_entry_ids = last_n MAX_INSPECTED_ENTRY_IDS (map et_id path)\<rparr>)"

text \<open>\<open>lock_free\<close>: no other process holds the writer lock of the file.\<close>

definition resume ::
  "writer_env \<Rightarrow> bool \<Rightarrow> nat \<Rightarrow> u8 list \<Rightarrow> writer_error + (durable_session \<times> session_summary)" where
  "resume env lock_free drawn disk =
     res_bind (store_result (inspect (we_journal env) disk))
     (\<lambda>loaded. res_bind (summary_from_loaded (we_codec env) loaded)
     (\<lambda>summary. res_bind (store_result (open_for_resume (we_journal env) lock_free disk loaded))
     (\<lambda>store. res_bind (from_open_store env drawn store (ld_records loaded))
     (\<lambda>session. Inr (session, summary)))))"

definition inspect_restored ::
  "writer_env \<Rightarrow> u8 list \<Rightarrow> writer_error + (session_summary \<times> restored_session)" where
  "inspect_restored env disk =
     res_bind (store_result (inspect (we_journal env) disk))
     (\<lambda>loaded. res_bind (summary_from_loaded (we_codec env) loaded)
     (\<lambda>summary. res_bind (reduce_result (we_codec env) (ld_records loaded))
     (\<lambda>st. Inr (summary, st))))"

section \<open>Appending\<close>

definition draw :: "writer_env \<Rightarrow> nat writing" where
  "draw env s = (s\<lparr>du_drawn := du_drawn s + 1\<rparr>, Inr (du_drawn s))"

definition append_envelope ::
  "writer_env \<Rightarrow> source_proof option \<Rightarrow> nat option \<Rightarrow> record_envelope \<Rightarrow> unit writing" where
  "append_envelope env pf fault e s =
     (case validate_envelope (we_codec env) (du_restored s) (du_record_ids s) e (length (du_records s)) pf of
        Inl err \<Rightarrow> (s, Inl (RecordRejected err))
      | Inr _ \<Rightarrow>
          (case store_append (we_journal env) fault e (du_store s) of
             (store, Inl err) \<Rightarrow> (s\<lparr>du_store := store\<rparr>, Inl (StoreRefused err))
           | (store, Inr _) \<Rightarrow>
               (case apply_validated (rn_record e) (du_restored s) of
                  None \<Rightarrow> (s\<lparr>du_store := store\<rparr>, Inl AppendPanicked)
                | Some st \<Rightarrow> (s\<lparr>du_store := store, du_restored := st,
                    du_record_ids := rn_record_id e # du_record_ids s,
                    du_records := du_records s @ [e]\<rparr>, Inr ()))))"

definition append_guarded :: "writer_env \<Rightarrow> source_proof option \<Rightarrow> session_record \<Rightarrow> unit writing" where
  "append_guarded env pf r =
     eff_bind (draw env)
       (\<lambda>n s. append_envelope env pf (we_fault env n)
          (new_envelope (we_fresh env n) (ls_session (du_store s)) r) s)"

definition append_record :: "writer_env \<Rightarrow> session_record \<Rightarrow> unit writing" where
  "append_record env r = append_guarded env None r"

definition append_audit :: "writer_env \<Rightarrow> audit_fact \<Rightarrow> unit writing" where
  "append_audit env a = append_record env (PermissionAudited a)"

definition append_message :: "writer_env \<Rightarrow> message \<Rightarrow> uuid writing" where
  "append_message env m =
     eff_bind (draw env)
       (\<lambda>n s. let i = we_fresh env n in
          eff_bind (append_record env (ConversationEntryAppended
            \<lparr>et_id = i, et_parent = ss_head (du_restored s), et_agent = du_agent s, et_message = m\<rparr>))
          (\<lambda>_. eff_bind (append_record env (ThreadHeadMoved (ss_thread (du_restored s)) (Some i)))
          (\<lambda>_. eff_return i)) s)"

definition clear_conversation :: "writer_env \<Rightarrow> unit writing" where
  "clear_conversation env s =
     append_record env (ThreadHeadMoved (ss_thread (du_restored s)) None) (s\<lparr>du_prefix := None\<rparr>)"

definition configure_execution :: "writer_env \<Rightarrow> execution_configuration \<Rightarrow> unit writing" where
  "configure_execution env c s =
     (if ss_configuration (du_restored s) \<noteq> Some c
      then append_record env (ExecutionConfigured c) s
      else (s, Inr ()))"

definition commit_compaction ::
  "writer_env \<Rightarrow> compaction_checkpoint \<Rightarrow> source_proof option \<Rightarrow> compaction_checkpoint writing" where
  "commit_compaction env k pf =
     eff_bind (append_guarded env pf (ConversationCompacted k))
       (\<lambda>_ s. (s\<lparr>du_prefix := map_option accumulator pf\<rparr>, Inr k))"

text \<open>Values too long to be stored inline become artifacts.\<close>

definition stored_artifact :: "durable_session \<Rightarrow> durable_value_ref \<Rightarrow> artifact_record option" where
  "stored_artifact s v =
     (case v of ArtifactValue a \<Rightarrow> bt_get (ss_artifacts (du_restored s)) (arf_id a) | _ \<Rightarrow> None)"

definition store_json_value :: "writer_env \<Rightarrow> json \<Rightarrow> durable_value_ref writing" where
  "store_json_value env v s =
     (let bytes = utf8_bytes (cc_json_text (we_codec env) v) in
      if length bytes \<le> MAX_INLINE_VALUE_BYTES then (s, Inr (InlineJson v))
      else case we_put env (du_drawn s) bytes (rstr ''application/json'') (du_owner s) of
        None \<Rightarrow> (s, Inl ArtifactUnavailable)
      | Some a \<Rightarrow>
          eff_bind (append_record env (ArtifactRegistered a))
            (\<lambda>_. eff_return (ArtifactValue (art_reference a))) s)"

definition store_tool_output ::
  "writer_env \<Rightarrow> json \<Rightarrow> (durable_value_ref \<times> artifact_record option) writing" where
  "store_tool_output env v =
     eff_bind (store_json_value env v) (\<lambda>stored s. (s, Inr (stored, stored_artifact s stored)))"

definition finish_record ::
  "session_codec \<Rightarrow> durable_session \<Rightarrow> uuid \<Rightarrow> operation_outcome \<Rightarrow> writer_error + session_record" where
  "finish_record codec s i outcome =
     (case bt_get (ss_details (du_restored s)) i of
        None \<Rightarrow> Inl OperationUnavailable
      | Some d \<Rightarrow>
          if op_adapter d = None then Inr (OperationFinished i outcome)
          else Inr (AdapterOperationFinished i outcome
            (case Option.bind (ss_head (du_restored s)) (bt_get (ss_entries (du_restored s))) of
               None \<Rightarrow> None
             | Some e \<Rightarrow>
                 if msg_role (et_message e) = AssistantRole
                    \<and> adapter_output_descends_from_input (du_restored s) (et_id e) (op_input d)
                 then Some \<lparr>cr_entry = et_id e, cr_digest = message_digest codec (et_message e)\<rparr>
                 else None)))"

section \<open>Replaying what was written\<close>

text \<open>The fold of \<open>reduce\<close> without its closing checks.\<close>

definition replay :: "session_codec \<Rightarrow> record_envelope list \<Rightarrow> restored_session \<Rightarrow> bool" where
  "replay codec es st =
     (\<exists>first rest thread workspace. es = first # rest \<and> rn_record first = SessionCreated thread workspace
        \<and> rn_version first = SESSION_RECORD_VERSION
        \<and> reduce_from codec (empty_session (rn_session first) thread workspace) [] 0 es = Some (Inr st))"

lemma validate_envelope_cong:
  "set seen = set seen' \<Longrightarrow> validate_envelope codec st seen e n pf = validate_envelope codec st seen' e n pf"
  by (simp add: validate_envelope_def)

lemma reduce_from_snoc:
  assumes "reduce_from codec st seen n es = Some (Inr st')"
    and "validate_envelope codec st' (map rn_record_id es @ seen) e (n + length es) None = Inr ()"
    and "n + length es > 0" and "apply_validated (rn_record e) st' = Some st2"
  shows "reduce_from codec st seen n (es @ [e]) = Some (Inr st2)"
  using assms
proof (induction es arbitrary: st seen n)
  case (Cons x es)
  obtain st1 where step: "validate_envelope codec st seen x n None = Inr ()"
    "(if n = 0 then Some st else apply_validated (rn_record x) st) = Some st1"
    "reduce_from codec st1 (rn_record_id x # seen) (n + 1) es = Some (Inr st')"
    using Cons.prems(1) by (auto split: sum.splits option.splits)
  have "validate_envelope codec st' (map rn_record_id es @ rn_record_id x # seen) e (n + 1 + length es) None
      = validate_envelope codec st' (map rn_record_id (x # es) @ seen) e (n + length (x # es)) None"
    using validate_envelope_cong [of "map rn_record_id es @ rn_record_id x # seen"
      "map rn_record_id (x # es) @ seen"] by simp
  then show ?case using Cons.IH [OF step(3)] Cons.prems(2-4) step(1,2) by simp
qed simp

lemma reduce_from_distinct:
  "reduce_from codec st seen n es = Some (Inr st') \<Longrightarrow>
     distinct (map rn_record_id es) \<and> set (map rn_record_id es) \<inter> set seen = {}"
proof (induction es arbitrary: st seen n)
  case (Cons x es)
  then obtain st1 where "reduce_from codec st1 (rn_record_id x # seen) (n + 1) es = Some (Inr st')"
    and "rn_record_id x \<notin> set seen"
    by (auto simp: validate_envelope_def split: sum.splits option.splits if_splits)
  with Cons.IH [OF this(1)] show ?case by auto
qed simp

lemma replay_distinct: "replay codec es st \<Longrightarrow> distinct (map rn_record_id es) \<and> es \<noteq> []"
  using reduce_from_distinct by (fastforce simp: replay_def)

interpretation unarchived: journal_invariant codec "\<lambda>st. ss_archived st = None" for codec
proof unfold_locales
  fix st r st'
  assume "ss_archived st = None" and "session_step codec st r st'"
  then show "ss_archived st' = None" by (auto elim: session_stepE dest!: identity_after)
qed (simp add: empty_session_def)

lemma replay_reachable:
  assumes "replay codec es st"
  shows "reachable_session codec st"
proof -
  obtain first rest thread workspace where es: "es = first # rest"
    and run: "reduce_from codec (empty_session (rn_session first) thread workspace) [rn_record_id first] 1 rest
      = Some (Inr st)"
    using assms by (auto simp: replay_def split: sum.splits)
  then show ?thesis by (intro reduce_from_reachable [OF reachable_session.created _ run]) simp
qed

lemma replay_archived: "replay codec es st \<Longrightarrow> ss_archived st = None"
  by (rule unarchived.reachable_inv [OF replay_reachable])

lemma replay_path: "replay codec es st \<Longrightarrow> \<exists>path. entry_path st = Inr path"
  using entry_path_total [OF forest.reachable_inv [OF replay_reachable]] by blast

text \<open>Reducing the same records adds the check of the branch history only.\<close>

lemma replay_reduces:
  assumes "replay codec es st"
  shows "reduce_result codec es
    = (case validate_branch_history st of Inl e \<Rightarrow> Inl (RecordRejected e) | Inr _ \<Rightarrow> Inr st)"
proof -
  obtain path where "entry_path st = Inr path" using replay_path [OF assms] by blast
  then have "conversation_path st = Inr (map et_message path)" by (simp add: conversation_path_def)
  moreover obtain first rest thread workspace where "es = first # rest"
    "rn_record first = SessionCreated thread workspace" "rn_version first = SESSION_RECORD_VERSION"
    "reduce_from codec (empty_session (rn_session first) thread workspace) [] 0 es = Some (Inr st)"
    using assms by (auto simp: replay_def)
  ultimately have "reduce codec es = Some (res_bind (validate_branch_history st) (\<lambda>_. Inr st))"
    by (simp add: reduce_def check_reduced_def)
  then show ?thesis by (cases "validate_branch_history st") (simp_all add: reduce_result_def)
qed

lemma branch_history_error: "validate_branch_history st = Inl e \<Longrightarrow> entry_path st = Inr path \<Longrightarrow> e = InvalidBranchHistory"
  by (auto simp: validate_branch_history_def Let_def ensure_def split: option.splits if_splits)

text \<open>Without an archived prefix a source proof decides nothing.\<close>

lemma proof_is_unused:
  assumes "ss_archived st = None"
  shows "validate_envelope codec st seen e n pf = validate_envelope codec st seen e n None"
proof -
  have "retained_offset st = 0" using assms by (simp add: retained_offset_def)
  then have "validate_compaction_checkpoint codec st k pf = validate_compaction_checkpoint codec st k None" for k
    by (simp add: validate_compaction_checkpoint_def checkpoint_source_valid_def Let_def
        cong: sum.case_cong if_cong)
  then show ?thesis by (cases "rn_record e") (simp_all add: validate_envelope_def)
qed

lemma replay_snoc:
  assumes "replay codec es st" and "validate_envelope codec st ids e (length es) pf = Inr ()"
    and "set ids = set (map rn_record_id es)" and "apply_validated (rn_record e) st = Some st'"
  shows "replay codec (es @ [e]) st'"
proof -
  obtain first rest thread workspace where es: "es = first # rest"
    "rn_record first = SessionCreated thread workspace" "rn_version first = SESSION_RECORD_VERSION"
    "reduce_from codec (empty_session (rn_session first) thread workspace) [] 0 es = Some (Inr st)"
    using assms(1) by (auto simp: replay_def)
  have "validate_envelope codec st (map rn_record_id es @ []) e (0 + length es) None = Inr ()"
    using assms(2) validate_envelope_cong [of "map rn_record_id es @ []" ids codec st e "length es" None]
      proof_is_unused [OF replay_archived [OF assms(1)], of codec ids e "length es" pf] assms(3) by simp
  from reduce_from_snoc [OF es(4) this _ assms(4)] show ?thesis
    using es(1-3) by (auto simp: replay_def)
qed

section \<open>The writer keeps its state\<close>

definition keeps :: "('s \<Rightarrow> bool) \<Rightarrow> ('s, 'e, 'a) effect \<Rightarrow> bool" where
  "keeps I m = (\<forall>s. I s \<longrightarrow> I (fst (m s)))"

lemma keepsD: "keeps I m \<Longrightarrow> I s \<Longrightarrow> m s = (s', r) \<Longrightarrow> I s'"
  by (metis fst_conv keeps_def)

lemma keeps_return [intro]: "keeps I (eff_return x)"
  by (simp add: keeps_def)

lemma keeps_bind [intro]: "keeps I m \<Longrightarrow> (\<And>x. keeps I (f x)) \<Longrightarrow> keeps I (eff_bind m f)"
  by (auto simp: keeps_def eff_bind_def split: prod.splits sum.splits)

text \<open>
  What is in memory replays what was written, and the file holds the written records and, once an
  append has failed, possibly the record that was being written.
\<close>

definition written :: "writer_env \<Rightarrow> durable_session \<Rightarrow> record_envelope list \<Rightarrow> restored_session \<Rightarrow> bool"
where
  "written env s es st =
     (replay (we_codec env) es st \<and> store_holds (we_journal env) (ls_session (du_store s)) es (du_store s)
      \<and> prefix (du_records s) es \<and> length es \<le> length (du_records s) + 1
      \<and> (ls_writable (du_store s) \<longrightarrow> es = du_records s \<and> st = du_restored s))"

definition writer_ok :: "writer_env \<Rightarrow> durable_session \<Rightarrow> bool" where
  "writer_ok env s =
     (replay (we_codec env) (du_records s) (du_restored s)
      \<and> set (du_record_ids s) = set (map rn_record_id (du_records s))
      \<and> (\<exists>es st. written env s es st))"

text \<open>What \<open>serde_json\<close> documents, for every record it encodes.\<close>

definition codec_faithful :: "writer_env \<Rightarrow> bool" where
  "codec_faithful env = (\<forall>e. codec_keeps (we_journal env) e)"

text \<open>
  One append from a session of which \<open>es\<close> is known to be in the file: the record is in the file and
  in memory, in neither, or, after a failed write, in the file alone.
\<close>

lemma append_envelope_written:
  assumes faithful: "codec_faithful env" and ok: "writer_ok env s" and written: "written env s es st"
    and step: "append_envelope env pf fault e s = (s', r)"
  shows "(\<exists>es' st'. written env s' es' st'
      \<and> (st' = st \<or> session_step (we_codec env) (du_restored s) (rn_record e) st'))
    \<and> writer_ok env s' \<and> du_drawn s' = du_drawn s \<and> r \<noteq> Inl AppendPanicked
    \<and> (is_ok r \<longrightarrow> du_records s' = du_records s @ [e]
        \<and> apply_validated (rn_record e) (du_restored s) = Some (du_restored s')
        \<and> session_step (we_codec env) (du_restored s) (rn_record e) (du_restored s'))
    \<and> (\<not> is_ok r \<longrightarrow> du_records s' = du_records s \<and> du_restored s' = du_restored s)"
proof (cases "validate_envelope (we_codec env) (du_restored s) (du_record_ids s) e (length (du_records s)) pf")
  case (Inl err)
  then show ?thesis using step ok written by (auto simp: append_envelope_def)
next
  case (Inr u)
  then have check: "validate_envelope (we_codec env) (du_restored s) (du_record_ids s) e
      (length (du_records s)) pf = Inr ()" by simp
  let ?jc = "we_journal env" and ?session = "ls_session (du_store s)"
  have replay: "replay (we_codec env) (du_records s) (du_restored s)"
    and ids: "set (du_record_ids s) = set (map rn_record_id (du_records s))"
    using ok by (simp_all add: writer_ok_def)
  have keep: "codec_keeps ?jc e" using faithful by (simp add: codec_faithful_def)
  have "length (du_records s) \<noteq> 0" using replay_distinct [OF replay] by simp
  then have valid: "validate_record (we_codec env) (du_restored s) (length (du_records s)) pf
      (ss_id (du_restored s)) (rn_record e) = Inr ()"
    using check by (auto simp: validate_envelope_def split: if_splits)
  then obtain st' where applied: "apply_validated (rn_record e) (du_restored s) = Some st'"
    using validated_applies [OF receipts.reachable_inv [OF replay_reachable [OF replay]]] by blast
  have advanced: "session_step (we_codec env) (du_restored s) (rn_record e) st'"
    using valid applied \<open>length (du_records s) \<noteq> 0\<close> by (intro session_step.validated) simp_all
  have more: "replay (we_codec env) (du_records s @ [e]) st'"
    using replay_snoc [OF replay check ids applied] .
  obtain store result where put: "store_append ?jc fault e (du_store s) = (store, result)"
    by (cases "store_append ?jc fault e (du_store s)")
  have session: "ls_session store = ?session"
    using put by (auto simp: store_append_def Let_def split: if_splits option.splits)
  have holds: "store_holds ?jc ?session es (du_store s)" using written by (simp add: written_def)
  note cases = store_append_cases [OF put holds keep]
  show ?thesis
  proof (cases result)
    case (Inr v)
    then have "ls_writable (du_store s)" using put by (auto simp: store_append_def split: if_splits)
    then have "es = du_records s" using written by (simp add: written_def)
    moreover have s': "s' = s\<lparr>du_store := store, du_restored := st',
        du_record_ids := rn_record_id e # du_record_ids s, du_records := du_records s @ [e]\<rparr>" "r = Inr ()"
      using step Inr check put applied by (auto simp: append_envelope_def)
    ultimately have "written env s' (du_records s @ [e]) st'"
      using cases Inr more session by (simp add: written_def)
    then show ?thesis using s' more ids applied advanced by (auto simp: writer_ok_def)
  next
    case (Inl err)
    then have s': "s' = s\<lparr>du_store := store\<rparr>" "r = Inl (StoreRefused err)"
      using step check put by (auto simp: append_envelope_def)
    have "\<exists>es' st'. written env s' es' st'
        \<and> (st' = st \<or> session_step (we_codec env) (du_restored s) (rn_record e) st')"
    proof (cases "store = du_store s")
      case True
      then show ?thesis using written s' by (auto simp: written_def)
    next
      case False
      then have closed: "\<not> ls_writable store" and
        now: "store_holds ?jc ?session es store \<or> store_holds ?jc ?session (es @ [e]) store"
        using cases Inl by auto
      have "ls_writable (du_store s)" using put False poisoned_append by fastforce
      then have es: "es = du_records s" "st = du_restored s" using written by (simp_all add: written_def)
      show ?thesis
        using now
      proof
        assume "store_holds ?jc ?session es store"
        then show ?thesis using es s' closed replay session
          by (intro exI [of _ es] exI [of _ st]) (simp add: written_def)
      next
        assume "store_holds ?jc ?session (es @ [e]) store"
        then show ?thesis using es s' closed more session advanced
          by (intro exI [of _ "es @ [e]"] exI [of _ st']) (simp add: written_def)
      qed
    qed
    then show ?thesis using s' replay ids by (auto simp: writer_ok_def)
  qed
qed

lemma append_envelope_keeps:
  assumes "codec_faithful env" and ok: "writer_ok env s"
    and "append_envelope env pf fault e s = (s', r)"
  shows "writer_ok env s' \<and> du_drawn s' = du_drawn s \<and> r \<noteq> Inl AppendPanicked
    \<and> (is_ok r \<longrightarrow> du_records s' = du_records s @ [e]
        \<and> apply_validated (rn_record e) (du_restored s) = Some (du_restored s')
        \<and> session_step (we_codec env) (du_restored s) (rn_record e) (du_restored s'))
    \<and> (\<not> is_ok r \<longrightarrow> du_records s' = du_records s \<and> du_restored s' = du_restored s)"
proof -
  obtain es st where "written env s es st" using ok by (auto simp: writer_ok_def)
  from append_envelope_written [OF assms(1,2) this assms(3)] show ?thesis by blast
qed

lemma writer_ok_frame [simp]:
  "writer_ok env (s\<lparr>du_drawn := n\<rparr>) = writer_ok env s"
  "writer_ok env (s\<lparr>du_prefix := p\<rparr>) = writer_ok env s"
  by (simp_all add: writer_ok_def written_def)

text \<open>
  What every operation of the writer keeps, since all of them are made of appends: an invariant that
  one append keeps and that is not about the counter of identifiers or the cached source prefix.
\<close>

locale append_invariant =
  fixes env :: writer_env and I :: "durable_session \<Rightarrow> bool"
  assumes drawn: "I s \<Longrightarrow> I (s\<lparr>du_drawn := n\<rparr>)"
    and recached: "I s \<Longrightarrow> I (s\<lparr>du_prefix := p\<rparr>)"
    and enveloped: "I s \<Longrightarrow> append_envelope env pf fault e s = (s', r) \<Longrightarrow> I s'"
begin

lemma keeps_draw: "keeps I (draw env)"
  using drawn by (simp add: keeps_def draw_def)

lemma keeps_append: "keeps I (append_guarded env pf r)"
  unfolding append_guarded_def
proof (intro keeps_bind keeps_draw)
  fix n
  show "keeps I (\<lambda>s. append_envelope env pf (we_fault env n)
      (new_envelope (we_fresh env n) (ls_session (du_store s)) r) s)"
    using enveloped by (simp add: keeps_def) (metis prod.collapse)
qed

lemma keeps_record: "keeps I (append_record env r)"
  unfolding append_record_def by (rule keeps_append)

lemma keeps_message: "keeps I (append_message env m)"
proof -
  have "keeps I (eff_bind (append_record env (ConversationEntryAppended e))
      (\<lambda>_. eff_bind (append_record env (ThreadHeadMoved t (Some i))) (\<lambda>_. eff_return i)))" for e t i
    by (intro keeps_bind keeps_record keeps_return)
  then show ?thesis
    unfolding append_message_def Let_def by (intro keeps_bind keeps_draw) (simp add: keeps_def)
qed

lemma keeps_clear: "keeps I (clear_conversation env)"
  using keeps_record recached by (simp add: keeps_def clear_conversation_def)

lemma keeps_configure: "keeps I (configure_execution env c)"
  using keeps_record by (simp add: keeps_def configure_execution_def)

lemma keeps_compaction: "keeps I (commit_compaction env k pf)"
  unfolding commit_compaction_def
  by (intro keeps_bind keeps_append) (use recached in \<open>simp add: keeps_def\<close>)

lemma keeps_value: "keeps I (store_json_value env v)"
proof -
  have "keeps I (eff_bind (append_record env (ArtifactRegistered a))
      (\<lambda>_. eff_return (ArtifactValue (art_reference a))))" for a
    by (intro keeps_bind keeps_record keeps_return)
  then show ?thesis by (auto simp: keeps_def store_json_value_def Let_def split: option.splits)
qed

lemma keeps_output: "keeps I (store_tool_output env v)"
  unfolding store_tool_output_def by (intro keeps_bind keeps_value) (simp add: keeps_def)

lemmas keeps_operations =
  keeps_record keeps_message keeps_clear keeps_configure keeps_compaction keeps_value keeps_output

end

interpretation writing: append_invariant env "\<lambda>s. codec_faithful env \<and> writer_ok env s" for env
  by unfold_locales (use append_envelope_keeps in auto)

text \<open>The restored state only moves by validated steps.\<close>

interpretation growing: append_invariant env
  "\<lambda>s. codec_faithful env \<and> writer_ok env s \<and> session_run (we_codec env) st (du_restored s)" for env st
proof unfold_locales
  fix s pf fault e s' r
  assume I: "codec_faithful env \<and> writer_ok env s \<and> session_run (we_codec env) st (du_restored s)"
    and "append_envelope env pf fault e s = (s', r)"
  from append_envelope_keeps [OF _ _ this(2)] I
  show "codec_faithful env \<and> writer_ok env s' \<and> session_run (we_codec env) st (du_restored s')"
    by (cases "is_ok r") (auto intro: session_run.further)
qed auto

section \<open>Runs of the writer\<close>

datatype writer_op =
  OpAppend session_record | OpAudit audit_fact | OpMessage message | OpClear
| OpConfigure execution_configuration | OpCompact compaction_checkpoint "source_proof option" | OpStore json

text \<open>An operation that fails leaves the session as it was left at the failure.\<close>

fun writer_step :: "writer_env \<Rightarrow> durable_session \<Rightarrow> writer_op \<Rightarrow> durable_session" where
  "writer_step env s (OpAppend r) = fst (append_record env r s)"
| "writer_step env s (OpAudit a) = fst (append_audit env a s)"
| "writer_step env s (OpMessage m) = fst (append_message env m s)"
| "writer_step env s OpClear = fst (clear_conversation env s)"
| "writer_step env s (OpConfigure c) = fst (configure_execution env c s)"
| "writer_step env s (OpCompact k pf) = fst (commit_compaction env k pf s)"
| "writer_step env s (OpStore v) = fst (store_tool_output env v s)"

interpretation writer: machine "writer_step env" "\<lambda>s. codec_faithful env \<and> writer_ok env s" for env
proof unfold_locales
  fix s c
  assume "codec_faithful env \<and> writer_ok env s"
  then show "codec_faithful env \<and> writer_ok env (writer_step env s c)"
    using writing.keeps_operations [of env] by (cases c) (simp_all add: keeps_def append_audit_def)
qed

lemma reduce_result_replay:
  assumes "reduce_result codec es = Inr st"
  shows "replay codec es st \<and> validate_branch_history st = Inr ()"
proof -
  have "reduce codec es = Some (Inr st)"
    using assms by (auto simp: reduce_result_def split: option.splits sum.splits)
  then show ?thesis
    by (auto simp: reduce_def replay_def check_reduced_def res_simps
        split: list.splits session_record.splits if_splits option.splits)
qed

lemma started_ok:
  assumes "from_open_store env d store es = Inr s"
    and "store_holds (we_journal env) (ls_session store) es store"
  shows "writer_ok env s \<and> du_store s = store \<and> du_records s = es
    \<and> reduce_result (we_codec env) es = Inr (du_restored s)"
proof -
  obtain st where st: "reduce_result (we_codec env) es = Inr st" and s: "du_restored s = st"
    "du_store s = store" "du_records s = es" "du_record_ids s = map rn_record_id es"
    using assms(1) by (auto simp: from_open_store_def res_simps)
  moreover have "written env s es st"
    using reduce_result_replay [OF st] assms(2) s by (simp add: written_def)
  ultimately show ?thesis
    using reduce_result_replay [OF st] by (auto simp: writer_ok_def)
qed

lemma created_ok:
  assumes "create_with_id env d workspace session = Inr s" and "codec_faithful env"
  shows "writer_ok env s"
proof -
  define created where "created = new_envelope (we_fresh env (d + 1)) session
    (SessionCreated (we_fresh env d) workspace)"
  obtain store where store: "snd (store_create (we_journal env) (we_fault env (d + 1)) created) = Inr store"
    and start: "from_open_store env (d + 2) store [created] = Inr s"
    using assms(1) by (auto simp: create_with_id_def created_def Let_def store_result_def res_simps
        split: sum.splits)
  have "we_fault env (d + 1) = None"
    using store by (auto simp: store_create_def store_append_def Let_def split: if_splits prod.splits sum.splits option.splits)
  then have "store_create (we_journal env) None created
      = (fst (store_create (we_journal env) None created), Inr store)"
    using store by (metis prod.collapse)
  from store_create_holds [OF this] assms(2) have holds: "store_holds (we_journal env) (rn_session created) [created] store"
    by (simp add: codec_faithful_def)
  moreover from this have "ls_session store = rn_session created" by (simp add: store_holds_def)
  ultimately show ?thesis using started_ok [OF start] by simp
qed

lemma resumed:
  assumes "written env s es st"
  shows "case resume env True d (ls_disk (du_store s)) of
      Inl err \<Rightarrow> err = RecordRejected InvalidBranchHistory \<and> validate_branch_history st = Inl InvalidBranchHistory
    | Inr (s', _) \<Rightarrow> validate_branch_history st = Inr () \<and> du_restored s' = st \<and> du_records s' = es
        \<and> ls_writable (du_store s') \<and> writer_ok env s'"
proof -
  let ?jc = "we_journal env" and ?session = "ls_session (du_store s)"
  have replay: "replay (we_codec env) es st" and holds: "store_holds ?jc ?session es (du_store s)"
    using assms by (simp_all add: written_def)
  note reduced = replay_reduces [OF replay]
  obtain path where path: "entry_path st = Inr path" using replay_path [OF replay] by blast
  from reopened [OF holds] replay_distinct [OF replay] obtain loaded store where
    open_file: "inspect ?jc (ls_disk (du_store s)) = Inr loaded" "ld_records loaded = es"
      "open_for_resume ?jc True (ls_disk (du_store s)) loaded = Inr store"
      "store_holds ?jc ?session es store" "ls_writable store" by blast
  show ?thesis
  proof (cases "validate_branch_history st")
    case (Inl e)
    then show ?thesis using open_file reduced branch_history_error [OF Inl path]
      by (simp add: resume_def store_result_def summary_from_loaded_def)
  next
    case (Inr u)
    then have "reduce_result (we_codec env) es = Inr st" using reduced by simp
    moreover from this obtain s' where s': "from_open_store env d store es = Inr s'" "du_restored s' = st"
      by (auto simp: from_open_store_def)
    moreover have "store_holds ?jc (ls_session store) es store"
      using open_file(4) by (simp add: store_holds_def)
    note started_ok [OF s'(1) this]
    ultimately show ?thesis
      using open_file path Inr by (simp add: resume_def store_result_def summary_from_loaded_def)
  qed
qed

text \<open>C2: whatever the writer of a Conversation is asked to do, and whichever of its writes fail at
  whatever byte, resuming from the file gives the very state and records the writer held; after a
  failed write it may hold in addition the one record that was being written. Only the check of the
  branch lineage can refuse to resume.\<close>

theorem resume_restores_writer:
  assumes "codec_faithful env" and "create_with_id env d workspace session = Inr s0"
    and "s = foldl (writer_step env) s0 ops"
  shows "\<exists>es st. replay (we_codec env) es st \<and> prefix (du_records s) es
    \<and> length es \<le> length (du_records s) + 1
    \<and> (ls_writable (du_store s) \<longrightarrow> es = du_records s \<and> st = du_restored s)
    \<and> (case resume env True d' (ls_disk (du_store s)) of
         Inl err \<Rightarrow> err = RecordRejected InvalidBranchHistory
           \<and> validate_branch_history st = Inl InvalidBranchHistory
       | Inr (s', _) \<Rightarrow> validate_branch_history st = Inr () \<and> du_restored s' = st \<and> du_records s' = es
           \<and> ls_writable (du_store s'))"
proof -
  have "writer_ok env s"
    using writer.run_inv [of env s0 ops] created_ok [OF assms(2,1)] assms(1,3) by simp
  then obtain es st where "written env s es st" by (auto simp: writer_ok_def)
  from this resumed [OF this, of d'] show ?thesis
    by (intro exI [of _ es] exI [of _ st]) (auto simp: written_def split: sum.splits prod.splits)
qed

section \<open>Witness\<close>

text \<open>A codec that encodes a few given records and refuses all others.\<close>

definition finite_codec :: "record_envelope list \<Rightarrow> journal_codec" where
  "finite_codec es = (sample_codec_for es)\<lparr>jc_encode :=
     (\<lambda>e. if e \<in> set es then Some [word_of_nat (rn_record_id e + 48), 125] else None)\<rparr>"

definition writer_for :: "record_envelope list \<Rightarrow> nat option \<Rightarrow> writer_env" where
  "writer_for es fault =
     \<lparr>we_codec = sample_session_codec, we_journal = finite_codec es, we_fresh = (\<lambda>n. n + 1),
      we_fault = (\<lambda>n. if Some n = fault then Some 1 else None), we_put = (\<lambda>n bytes media owner. None)\<rparr>"

definition small_ids :: "record_envelope list \<Rightarrow> bool" where
  "small_ids es = list_all (\<lambda>e. rn_record_id e < 200 \<and> rn_version e = 1
     \<and> find (\<lambda>x. rn_record_id x = rn_record_id e) es = Some e) es"

lemma finite_codec_faithful:
  assumes "small_ids es"
  shows "codec_faithful (writer_for es fault)"
proof -
  have "codec_keeps (finite_codec es) e" for e
  proof (cases "e \<in> set es")
    case False
    then show ?thesis by (simp add: codec_keeps_def finite_codec_def)
  next
    case True
    then have e: "rn_record_id e < 200" "rn_version e = 1" "find (\<lambda>x. rn_record_id x = rn_record_id e) es = Some e"
      using assms by (auto simp: small_ids_def list_all_iff)
    have "unat (word_of_nat n :: 8 word) = n" if "n < 256" for n
      using that by (simp add: unat_of_nat)
    from this [of "rn_record_id e + 48"]
    have "unat (word_of_nat (rn_record_id e + 48) :: 8 word) = rn_record_id e + 48"
      using e(1) by linarith
    moreover have "(word_of_nat (rn_record_id e + 48) :: 8 word) \<noteq> 10"
    proof
      assume eq: "(word_of_nat (rn_record_id e + 48) :: 8 word) = 10"
      have "unat (word_of_nat (rn_record_id e + 48) :: 8 word) = unat (10 :: 8 word)" by (simp only: eq)
      moreover have "unat (10 :: 8 word) = 10" by simp
      ultimately show False using \<open>unat _ = rn_record_id e + 48\<close> by linarith
    qed
    ultimately show ?thesis
      using True e by (simp add: codec_keeps_def finite_codec_def sample_codec_for_def)
  qed
  then show ?thesis by (simp add: codec_faithful_def writer_for_def)
qed

definition written_lines :: "record_envelope list" where
  "written_lines =
     map (\<lambda>(i, r). new_envelope i 9 r)
       [(2, SessionCreated 1 []),
        (5, ConversationEntryAppended \<lparr>et_id = 4, et_parent = None, et_agent = 1009,
           et_message = text_message UserRole (rstr ''hi'')\<rparr>),
        (6, ThreadHeadMoved 1 (Some 4)),
        (7, ThreadHeadMoved 1 None)]"

definition opened :: durable_session where
  "opened =
     \<lparr>du_store = \<lparr>ls_session = 9, ls_disk = [50, 125, 10], ls_committed_bytes = 3,
        ls_committed_records = 1, ls_writable = True\<rparr>,
      du_records = [new_envelope 2 9 (SessionCreated 1 [])], du_record_ids = [2],
      du_restored = empty_session 9 1 [], du_agent = 1009, du_owner = 3, du_prefix = None, du_drawn = 3\<rparr>"

lemmas store_simps =
  writer_for_def finite_codec_def written_lines_def new_envelope_def store_append_def Let_def
  SESSION_RECORD_VERSION_def MAX_RECORD_BYTES_def MAX_SESSION_BYTES_def MAX_SESSION_RECORDS_def

lemma opened_created: "create_with_id (writer_for written_lines (Some 5)) 0 [] 9 = Inr opened"
  by (simp add: create_with_id_def store_create_def store_result_def from_open_store_def reduce_result_def
      reduce_def check_reduced_def conversation_path_def entry_path_def validate_branch_history_def
      validate_envelope_def opened_def empty_session_def sample_session_codec_def vision_codec.defs
      session_codec.defs store_simps)

lemma opened_torn:
  "\<exists>s. foldl (writer_step (writer_for written_lines (Some 5))) opened [OpMessage (text_message UserRole (rstr ''hi'')), OpClear] = s
     \<and> ls_disk (du_store s) = [50, 125, 10, 53, 125, 10, 54] \<and> length (du_records s) = 2"
  by (simp add: append_message_def append_record_def append_guarded_def append_envelope_def draw_def
      clear_conversation_def validate_envelope_def validate_entry_def validate_head_def bt_contains_def
      bt_get_def eff_bind_def opened_def empty_session_def text_message_def store_simps)

theorem resume_restores_writer_witness:
  "\<exists>s0 s es st. create_with_id (writer_for written_lines (Some 5)) 0 [] 9 = Inr s0
     \<and> s = foldl (writer_step (writer_for written_lines (Some 5))) s0
         [OpMessage (text_message UserRole (rstr ''hi'')), OpClear]
     \<and> ls_disk (du_store s) = [50, 125, 10, 53, 125, 10, 54]
     \<and> length (du_records s) = 2 \<and> prefix (du_records s) es \<and> length es \<le> 3
     \<and> (case resume (writer_for written_lines (Some 5)) True 0 (ls_disk (du_store s)) of
         Inl err \<Rightarrow> validate_branch_history st = Inl InvalidBranchHistory
       | Inr (s', _) \<Rightarrow> du_restored s' = st \<and> du_records s' = es)"
proof -
  let ?env = "writer_for written_lines (Some 5)"
  define s where "s = foldl (writer_step ?env) opened [OpMessage (text_message UserRole (rstr ''hi'')), OpClear]"
  have disk: "ls_disk (du_store s) = [50, 125, 10, 53, 125, 10, 54]" "length (du_records s) = 2"
    using opened_torn by (simp_all add: s_def)
  have "codec_faithful ?env"
    by (rule finite_codec_faithful)
      (simp add: small_ids_def written_lines_def new_envelope_def SESSION_RECORD_VERSION_def)
  from resume_restores_writer [OF this opened_created s_def, of 0] obtain es st where
    "prefix (du_records s) es" "length es \<le> length (du_records s) + 1"
    "case resume ?env True 0 (ls_disk (du_store s)) of
         Inl err \<Rightarrow> err = RecordRejected InvalidBranchHistory
           \<and> validate_branch_history st = Inl InvalidBranchHistory
       | Inr (s', _) \<Rightarrow> validate_branch_history st = Inr () \<and> du_restored s' = st \<and> du_records s' = es
           \<and> ls_writable (du_store s')" by blast
  then show ?thesis
    using opened_created s_def disk
    by (intro exI [of _ opened] exI [of _ s] exI [of _ es] exI [of _ st]) (auto split: sum.splits prod.splits)
qed

end
