(* ===== verification/Session_Branch.thy ===== *)
theory Session_Branch
  imports Session_Writer
begin

text \<open>
  Branching a Conversation at one of its entries (\<open>src/src/session/durable.rs\<close>, over the file
  store): the records of the target, its creation in one step, and the rules for discarding a target
  that was not started. The lemmas show that the target's records always reduce, and to which
  state; and that a branch whose conversation is cleared can never be resumed again, whatever is
  written to it afterwards.
\<close>

section \<open>Records of a branch\<close>

fun position :: "('a \<Rightarrow> bool) \<Rightarrow> 'a list \<Rightarrow> nat option" where
  "position P [] = None"
| "position P (x # xs) = (if P x then Some 0 else map_option Suc (position P xs))"

fun first_artifacts :: "uuid list \<Rightarrow> artifact_record list \<Rightarrow> artifact_record list" where
  "first_artifacts copied [] = []"
| "first_artifacts copied (a # as) =
     (if arf_id (art_reference a) \<in> set copied then first_artifacts copied as
      else a # first_artifacts (arf_id (art_reference a) # copied) as)"

definition shared_artifacts :: "conversation_entry list \<Rightarrow> artifact_record list" where
  "shared_artifacts shared = concat (map (\<lambda>e. message_artifacts (et_message e)) shared)"

definition envelopes :: "writer_env \<Rightarrow> uuid \<Rightarrow> nat \<Rightarrow> session_record list \<Rightarrow> record_envelope list" where
  "envelopes env session d rs =
     map2 (\<lambda>n r. new_envelope (we_fresh env n) session r) [d ..< d + length rs] rs"

definition branch_lineage :: "uuid \<Rightarrow> uuid \<Rightarrow> conversation_entry list \<Rightarrow> native_branch_lineage" where
  "branch_lineage source entry shared =
     \<lparr>ln_source_session = source, ln_source_entry = entry, ln_shared_entry_count = length shared\<rparr>"

definition branch_records ::
  "uuid \<Rightarrow> path \<Rightarrow> native_branch_lineage \<Rightarrow> conversation_entry list \<Rightarrow> session_record list" where
  "branch_records thread workspace lineage shared =
     [SessionCreated thread workspace, ConversationBranched lineage]
     @ map ArtifactRegistered (first_artifacts [] (shared_artifacts shared))
     @ map ConversationEntryAppended shared
     @ [ThreadHeadMoved thread (Some (ln_source_entry lineage))]"

record branch_receipt =
  br_source_session :: uuid
  br_source_entry :: uuid
  br_target_session :: uuid
  br_shared_entry_count :: nat

text \<open>
  The target's identifier is drawn first, then its thread, then one identifier per record.
  \<open>io_ok\<close>: writing and linking the batch succeeds.
\<close>

definition branch_at ::
  "writer_env \<Rightarrow> nat \<Rightarrow> bool \<Rightarrow> u8 list \<Rightarrow> uuid \<Rightarrow> uuid \<Rightarrow> writer_error + (durable_session \<times> branch_receipt)"
where
  "branch_at env d io_ok disk source_session source_entry =
     res_bind (inspect_restored env disk)
     (\<lambda>(_, source). case entry_path source of
        Inl e \<Rightarrow> Inl (RecordRejected e)
      | Inr path \<Rightarrow>
          res_bind (ok_or (position (\<lambda>e. et_id e = source_entry) path) (EntryNotOnPath source_entry))
          (\<lambda>index.
            let shared = take (index + 1) path;
                target = we_fresh env d;
                lineage = branch_lineage source_session source_entry shared;
                records = envelopes env target (d + 2)
                  (branch_records (we_fresh env (d + 1)) (ss_workspace source) lineage shared)
            in res_bind (reduce_result (we_codec env) records)
              (\<lambda>_. res_bind (store_result (create_batch (we_journal env) io_ok records))
              (\<lambda>store. res_bind (from_open_store env (d + 2 + length records) store records)
              (\<lambda>session. Inr (session, \<lparr>br_source_session = source_session, br_source_entry = source_entry,
                 br_target_session = target, br_shared_entry_count = length shared\<rparr>))))))"

section \<open>Discarding\<close>

definition discard_unstarted :: "durable_session \<Rightarrow> writer_error + unit" where
  "discard_unstarted s =
     ensure (\<not> (length (du_records s) \<noteq> 1 \<or> \<not> is_creation (rn_record (hd (du_records s))))) ExecutionStarted"

fun staged_tail :: "bool \<Rightarrow> session_record list \<Rightarrow> bool" where
  "staged_tail saw_head [] = True"
| "staged_tail saw_head (r # rs) =
     (case r of
        ConversationEntryAppended _ \<Rightarrow> \<not> saw_head \<and> staged_tail saw_head rs
      | ArtifactRegistered _ \<Rightarrow> \<not> saw_head \<and> staged_tail saw_head rs
      | ThreadHeadMoved _ _ \<Rightarrow> \<not> saw_head \<and> rs = [] \<and> staged_tail True rs
      | _ \<Rightarrow> False)"

definition discard_staged_branch :: "durable_session \<Rightarrow> writer_error + unit" where
  "discard_staged_branch s =
     (let records = map rn_record (du_records s);
          valid_creation = (case records of r # _ \<Rightarrow> is_creation r | [] \<Rightarrow> False);
          valid_lineage = (length records = 1
            \<or> (case records of _ # ConversationBranched _ # _ \<Rightarrow> True | _ \<Rightarrow> False));
          valid_tail = staged_tail False (drop 2 records)
      in ensure (valid_creation \<and> valid_lineage \<and> valid_tail) ExecutionStarted)"

section \<open>Replaying a list of records\<close>

lemma length_envelopes [simp]: "length (envelopes env session d rs) = length rs"
  by (simp add: envelopes_def)

lemma envelopes_snoc:
  "envelopes env session d (rs @ [r]) = envelopes env session d rs
     @ [new_envelope (we_fresh env (d + length rs)) session r]"
  by (simp add: envelopes_def)

lemma envelopes_ids:
  "map rn_record_id (envelopes env session d rs) = map (we_fresh env) [d ..< d + length rs]"
  by (induction rs rule: rev_induct)
    (simp_all add: envelopes_snoc new_envelope_def, simp add: envelopes_def)

lemma entry_position_Some:
  "position P xs = Some i \<Longrightarrow> i < length xs \<and> P (xs ! i)"
  by (induction xs arbitrary: i) (auto split: if_splits)

lemma entry_position_None: "position P xs = None \<longleftrightarrow> \<not> list_ex P xs"
  by (induction xs) auto

text \<open>
  A list of records replays when each of them is accepted by the state the ones before it lead to.
  \<open>P k\<close> is what holds of the state after \<open>k\<close> of them.
\<close>

lemma replay_list:
  assumes start: "replay codec (envelopes env session d rs0) st0" "P 0 st0"
    and ids: "distinct (map (we_fresh env) [d ..< d + length (rs0 @ rs)])"
    and session: "\<And>k st. P k st \<Longrightarrow> ss_id st = session"
    and step: "\<And>k st. k < length rs \<Longrightarrow> P k st \<Longrightarrow>
      \<exists>st'. validate_record codec st (length rs0 + k) None session (rs ! k) = Inr ()
        \<and> apply_validated (rs ! k) st = Some st' \<and> P (Suc k) st'"
  shows "\<exists>st. replay codec (envelopes env session d (rs0 @ rs)) st \<and> P (length rs) st"
  using ids step
proof (induction rs rule: rev_induct)
  case Nil
  then show ?case using start by auto
next
  case (snoc r rs)
  have "distinct (map (we_fresh env) [d ..< d + length (rs0 @ rs)])"
    using snoc.prems(1) by simp
  moreover have "\<exists>st'. validate_record codec st (length rs0 + k) None session (rs ! k) = Inr ()
      \<and> apply_validated (rs ! k) st = Some st' \<and> P (Suc k) st'" if "k < length rs" "P k st" for k st
    using snoc.prems(2) [of k st] that by (simp add: nth_append)
  ultimately obtain st where st: "replay codec (envelopes env session d (rs0 @ rs)) st" "P (length rs) st"
    using snoc.IH by blast
  obtain st' where next_state: "validate_record codec st (length rs0 + length rs) None session r = Inr ()"
    "apply_validated r st = Some st'" "P (Suc (length rs)) st'"
    using snoc.prems(2) [of "length rs" st] st(2) by auto
  let ?es = "envelopes env session d (rs0 @ rs)"
  let ?e = "new_envelope (we_fresh env (d + length (rs0 @ rs))) session r"
  have "we_fresh env (d + length (rs0 @ rs)) \<notin> set (map (we_fresh env) [d ..< d + length (rs0 @ rs)])"
    using snoc.prems(1) by auto
  then have "validate_envelope codec st (map rn_record_id ?es) ?e (length ?es) None = Inr ()"
    using next_state(1) session [OF st(2)]
    by (simp add: envelopes_ids validate_envelope_def new_envelope_def)
  from replay_snoc [OF st(1) this] next_state(2)
  have "replay codec (?es @ [?e]) st'" by (simp add: new_envelope_def)
  then show ?case using next_state(3) envelopes_snoc [of env session d "rs0 @ rs" r] by auto
qed

section \<open>The state of a branch\<close>

lemma get_fold_insert:
  "distinct (map f xs) \<Longrightarrow> bt_get (fold (\<lambda>x. bt_insert (f x) x) xs []) i = find (\<lambda>x. f x = i) xs"
proof (induction xs rule: rev_induct)
  case (snoc x xs)
  have "find (\<lambda>y. f y = i) (xs @ [x]) = (case find (\<lambda>y. f y = i) xs of
      None \<Rightarrow> (if f x = i then Some x else None) | Some y \<Rightarrow> Some y)" for xs
    by (induction xs) auto
  moreover have "f x \<notin> f ` set xs" using snoc.prems by simp
  then have "\<forall>y \<in> set xs. f y \<noteq> f x" by (metis imageI)
  then have "f x = i \<Longrightarrow> find (\<lambda>y. f y = i) xs = None" by (simp add: find_None_iff)
  ultimately show ?case using snoc by (auto simp: bt_get_insert split: option.splits)
qed simp

abbreviation artifact_id :: "artifact_record \<Rightarrow> uuid" where
  "artifact_id a \<equiv> arf_id (art_reference a)"

lemma first_artifacts_distinct:
  "distinct (map artifact_id (first_artifacts copied as))
    \<and> set (map artifact_id (first_artifacts copied as)) \<inter> set copied = {}
    \<and> set (first_artifacts copied as) \<subseteq> set as"
  by (induction copied as rule: first_artifacts.induct) auto

lemma first_artifacts_covers:
  assumes "a \<in> set as" and "artifact_id a \<notin> set copied"
  shows "\<exists>b \<in> set (first_artifacts copied as). artifact_id b = artifact_id a"
  using assms
proof (induction copied as rule: first_artifacts.induct)
  case (2 copied b as)
  then show ?case by (cases "artifact_id a = artifact_id b") auto
qed simp

text \<open>An artifact has one identity: entries that name it by the same identifier name the same record.\<close>

definition artifacts_agree :: "conversation_entry list \<Rightarrow> bool" where
  "artifacts_agree shared =
     (\<forall>a \<in> set (shared_artifacts shared). \<forall>b \<in> set (shared_artifacts shared).
        artifact_id a = artifact_id b \<longrightarrow> a = b)"

definition branch_base :: "uuid \<Rightarrow> uuid \<Rightarrow> path \<Rightarrow> native_branch_lineage \<Rightarrow> restored_session" where
  "branch_base session thread workspace lineage =
     (empty_session session thread workspace)\<lparr>ss_branch := Some lineage\<rparr>"

definition branch_state ::
  "uuid \<Rightarrow> uuid \<Rightarrow> path \<Rightarrow> native_branch_lineage \<Rightarrow> conversation_entry list \<Rightarrow> restored_session" where
  "branch_state session thread workspace lineage shared =
     (branch_base session thread workspace lineage)
       \<lparr>ss_artifacts := fold (\<lambda>a. bt_insert (artifact_id a) a) (first_artifacts [] (shared_artifacts shared)) [],
        ss_entries := fold (\<lambda>e. bt_insert (et_id e) e) shared [],
        ss_head := Some (ln_source_entry lineage)\<rparr>"

text \<open>Every stored entry's tool results name registered artifacts.\<close>

definition entries_backed :: "restored_session \<Rightarrow> bool" where
  "entries_backed st =
     (\<forall>e \<in> set (map snd (ss_entries st)). check_block_artifacts st (msg_content (et_message e)) = Inr ())"

lemma check_block_artifacts_iff:
  "check_block_artifacts st bs = Inr () \<longleftrightarrow>
     (\<forall>r a. ToolResultBlock r \<in> set bs \<longrightarrow> tr_artifact r = Some a \<longrightarrow>
        bt_get (ss_artifacts st) (artifact_id a) = Some a)"
  by (induction bs) (auto split: content_block.splits option.splits)

lemma set_bt_insert_subset: "set (map snd (bt_insert k v m)) \<subseteq> insert v (set (map snd m))"
  by (induction k v m rule: bt_insert.induct) auto

interpretation backed: journal_invariant codec entries_backed for codec
proof unfold_locales
  fix st r st'
  assume backed: "entries_backed st" and "session_step codec st r st'"
  then obtain index pf where valid: "validate_record codec st index pf (ss_id st) r = Inr ()"
    and applied: "apply_validated r st = Some st'" by (auto elim: session_stepE)
  have kept: "bt_get (ss_artifacts st) i = Some a \<Longrightarrow> bt_get (ss_artifacts st') i = Some a" for i a
    using artifacts_after [OF applied] valid
    by (cases r) (auto simp: validate_artifact_def ensure_eq_Inr bt_contains_def bt_get_insert)
  then have still: "check_block_artifacts st bs = Inr () \<Longrightarrow> check_block_artifacts st' bs = Inr ()" for bs
    by (auto simp: check_block_artifacts_iff)
  show "entries_backed st'"
    unfolding entries_backed_def
  proof
    fix e
    assume "e \<in> set (map snd (ss_entries st'))"
    moreover have "ss_entries st' = ss_entries st
        \<or> (\<exists>x. r = ConversationEntryAppended x \<and> ss_entries st' = bt_insert (et_id x) x (ss_entries st))"
      using entries_after [OF applied] by (cases r) simp_all
    ultimately have "e \<in> set (map snd (ss_entries st)) \<or> r = ConversationEntryAppended e"
    proof (elim disjE exE conjE)
      fix x
      assume here: "e \<in> set (map snd (ss_entries st'))" and r: "r = ConversationEntryAppended x"
        and "ss_entries st' = bt_insert (et_id x) x (ss_entries st)"
      then have "e \<in> insert x (set (map snd (ss_entries st)))"
        using subsetD [OF set_bt_insert_subset [of "et_id x" x "ss_entries st"]] by simp
      then show ?thesis using r by blast
    qed simp
    then have "check_block_artifacts st (msg_content (et_message e)) = Inr ()"
      using backed valid by (auto simp: entries_backed_def validate_entry_def res_simps)
    then show "check_block_artifacts st' (msg_content (et_message e)) = Inr ()" by (rule still)
  qed
qed (simp add: entries_backed_def empty_session_def)

lemma shared_entry_artifacts:
  "e \<in> set shared \<Longrightarrow> ToolResultBlock r \<in> set (msg_content (et_message e)) \<Longrightarrow> tr_artifact r = Some a \<Longrightarrow>
     a \<in> set (shared_artifacts shared)"
  by (force simp: shared_artifacts_def message_artifacts_def List.map_filter_def)

text \<open>The prefix of a path: a chain from a root.\<close>

fun chained :: "uuid option \<Rightarrow> conversation_entry list \<Rightarrow> bool" where
  "chained p [] = True"
| "chained p (e # es) = (et_parent e = p \<and> chained (Some (et_id e)) es)"

lemma chained_append: "chained p (xs @ ys) \<longleftrightarrow> chained p xs \<and> chained (if xs = [] then p else Some (et_id (last xs))) ys"
  by (induction xs arbitrary: p) auto

lemma parent_chain_rev:
  assumes "parent_chain st c es" and "ss_archived st = None"
  shows "chained None (rev es) \<and> c = (if es = [] then None else Some (et_id (hd es)))
    \<and> (\<forall>e \<in> set es. bt_get (ss_entries st) (et_id e) = Some e)"
  using assms by (induction st c es rule: parent_chain.induct)
    (auto simp: chained_append archived_end_def hd_rev last_rev)

lemma branch_created:
  assumes "distinct (map (we_fresh env) [d ..< d + 2])" and "ln_source_session lineage \<noteq> target"
    and "ln_shared_entry_count lineage \<noteq> 0"
  shows "replay codec (envelopes env target d [SessionCreated thread workspace, ConversationBranched lineage])
    (branch_base target thread workspace lineage)"
proof -
  have es: "envelopes env target d [SessionCreated thread workspace, ConversationBranched lineage]
    = [new_envelope (we_fresh env d) target (SessionCreated thread workspace),
       new_envelope (we_fresh env (Suc d)) target (ConversationBranched lineage)]"
    by (simp add: envelopes_def upt_rec)
  have "we_fresh env (Suc d) \<noteq> we_fresh env d" using assms(1) by (simp add: upt_rec)
  then show ?thesis
    using assms(2,3) unfolding replay_def es
    by (simp add: new_envelope_def validate_envelope_def empty_session_def validate_branched_def
        ensure_def branch_base_def)
qed

lemma branch_artifacts:
  assumes "replay codec (envelopes env target d rs0) base" and "base = branch_base target thread workspace lineage"
    and "distinct (map artifact_id arts)"
    and "distinct (map (we_fresh env) [d ..< d + length (rs0 @ map ArtifactRegistered arts)])"
  shows "replay codec (envelopes env target d (rs0 @ map ArtifactRegistered arts))
    (base\<lparr>ss_artifacts := fold (\<lambda>a. bt_insert (artifact_id a) a) arts []\<rparr>)"
proof -
  let ?ins = "fold (\<lambda>a. bt_insert (artifact_id a) a)"
  define P where "P k st \<longleftrightarrow> st = base\<lparr>ss_artifacts := ?ins (take k arts) []\<rparr>" for k st
  have start: "P 0 base" by (simp add: P_def assms(2) branch_base_def empty_session_def)
  have session: "ss_id st = target" if "P k st" for k st
    using that by (simp add: P_def assms(2) branch_base_def empty_session_def)
  have step: "\<exists>st'. validate_record codec st (length rs0 + k) None target (map ArtifactRegistered arts ! k) = Inr ()
      \<and> apply_validated (map ArtifactRegistered arts ! k) st = Some st' \<and> P (Suc k) st'"
    if k: "k < length (map ArtifactRegistered arts)" and st: "P k st" for k st
  proof -
    have "distinct (map artifact_id (take (Suc k) arts))"
      using assms(3) by (metis distinct_take take_map)
    then have fresh: "distinct (map artifact_id (take k arts))" "artifact_id (arts ! k) \<notin> artifact_id ` set (take k arts)"
      using k by (simp_all add: take_Suc_conv_app_nth)
    then have "\<forall>a \<in> set (take k arts). artifact_id a \<noteq> artifact_id (arts ! k)" by (metis imageI)
    then have "bt_get (?ins (take k arts) []) (artifact_id (arts ! k)) = None"
      using get_fold_insert [OF fresh(1)] by (simp add: find_None_iff)
    then show ?thesis
      using k st by (simp add: P_def validate_artifact_def bt_contains_def ensure_def take_Suc_conv_app_nth)
  qed
  have "\<exists>st. replay codec (envelopes env target d (rs0 @ map ArtifactRegistered arts)) st
      \<and> P (length (map ArtifactRegistered arts)) st"
    by (rule replay_list [where P = P, OF assms(1) start assms(4)]) (erule session, erule (1) step)
  then show ?thesis by (simp add: P_def)
qed

lemma branch_entries:
  assumes "replay codec (envelopes env target d rs0) base"
    and "base = (branch_base target thread workspace lineage)\<lparr>ss_artifacts := arts\<rparr>"
    and "distinct (map et_id shared)" and "chained None shared"
    and "\<forall>e \<in> set shared. check_block_artifacts base (msg_content (et_message e)) = Inr ()"
    and "distinct (map (we_fresh env) [d ..< d + length (rs0 @ map ConversationEntryAppended shared)])"
  shows "replay codec (envelopes env target d (rs0 @ map ConversationEntryAppended shared))
    (base\<lparr>ss_entries := fold (\<lambda>e. bt_insert (et_id e) e) shared []\<rparr>)"
proof -
  let ?ins = "fold (\<lambda>e. bt_insert (et_id e) e)"
  define P where "P k st \<longleftrightarrow> st = base\<lparr>ss_entries := ?ins (take k shared) []\<rparr>" for k st
  have start: "P 0 base" by (simp add: P_def assms(2) branch_base_def empty_session_def)
  have session: "ss_id st = target" if "P k st" for k st
    using that by (simp add: P_def assms(2) branch_base_def empty_session_def)
  have step: "\<exists>st'. validate_record codec st (length rs0 + k) None target (map ConversationEntryAppended shared ! k) = Inr ()
      \<and> apply_validated (map ConversationEntryAppended shared ! k) st = Some st' \<and> P (Suc k) st'"
    if k: "k < length (map ConversationEntryAppended shared)" and st: "P k st" for k st
  proof -
    let ?e = "shared ! k"
    have ids: "distinct (map et_id (take (Suc k) shared))"
      using assms(3) by (metis distinct_take take_map)
    then have fresh: "distinct (map et_id (take k shared))" "et_id ?e \<notin> et_id ` set (take k shared)"
      using k by (simp_all add: take_Suc_conv_app_nth)
    then have "\<forall>e \<in> set (take k shared). et_id e \<noteq> et_id ?e" by (metis imageI)
    then have unknown: "bt_get (?ins (take k shared) []) (et_id ?e) = None"
      using get_fold_insert [OF fresh(1)] by (simp add: find_None_iff)
    have split: "shared = take k shared @ ?e # drop (Suc k) shared"
      using k by (simp add: id_take_nth_drop)
    have parent: "et_parent ?e = (if k = 0 then None else Some (et_id (shared ! (k - 1))))"
    proof -
      have "chained (if take k shared = [] then None else Some (et_id (last (take k shared)))) (?e # drop (Suc k) shared)"
        using assms(4) split chained_append by metis
      then show ?thesis using k by (auto simp: last_conv_nth)
    qed
    have known: "bt_get (?ins (take k shared) []) (et_id (shared ! (k - 1))) = Some (shared ! (k - 1))" if "k \<noteq> 0"
    proof -
      have "take k shared ! (k - 1) \<in> set (take k shared)" using k that by (intro nth_mem) simp
      then have "shared ! (k - 1) \<in> set (take k shared)" using that by simp
      then show ?thesis using get_fold_insert [OF fresh(1)] find_distinct [OF fresh(1)] by simp
    qed
    have "?e \<in> set shared" using k by simp
    then have "check_block_artifacts base (msg_content (et_message ?e)) = Inr ()" using assms(5) by blast
    then have "check_block_artifacts st (msg_content (et_message ?e)) = Inr ()"
      using st by (simp add: P_def check_block_artifacts_iff)
    then have "validate_entry st ?e = Inr ()"
      using st unknown known parent by (cases "k = 0") (simp_all add: P_def validate_entry_def bt_contains_def)
    then show ?thesis using k st by (simp add: P_def take_Suc_conv_app_nth)
  qed
  have "\<exists>st. replay codec (envelopes env target d (rs0 @ map ConversationEntryAppended shared)) st
      \<and> P (length (map ConversationEntryAppended shared)) st"
    by (rule replay_list [where P = P, OF assms(1) start assms(6)]) (erule session, erule (1) step)
  then show ?thesis by (simp add: P_def)
qed

lemma distinct_shorter:
  "distinct (map f [d ..< d + m]) \<Longrightarrow> n \<le> m \<Longrightarrow> distinct (map f [d ..< d + n])"
  by (auto simp: distinct_map intro: inj_on_subset)

lemma branch_state_simps [simp]:
  "ss_id (branch_state i t w l shared) = i" "ss_workspace (branch_state i t w l shared) = w"
  "ss_branch (branch_state i t w l shared) = Some l"
  "ss_archived (branch_state i t w l shared) = None"
  "unfinished_operations (branch_state i t w l shared) = []"
  by (simp_all add: branch_state_def branch_base_def empty_session_def unfinished_operations_def)

lemma branch_replays:
  assumes ids: "distinct (map (we_fresh env) [d ..< d + length (branch_records thread workspace lineage shared)])"
    and lineage: "ln_source_session lineage \<noteq> target" "ln_shared_entry_count lineage \<noteq> 0"
    and path: "distinct (map et_id shared)" "chained None shared" "shared \<noteq> []"
    and head: "ln_source_entry lineage = et_id (last shared)"
    and agree: "artifacts_agree shared"
  shows "replay codec (envelopes env target d (branch_records thread workspace lineage shared))
    (branch_state target thread workspace lineage shared)"
proof -
  let ?arts = "first_artifacts [] (shared_artifacts shared)"
  let ?r0 = "[SessionCreated thread workspace, ConversationBranched lineage]"
  let ?r1 = "?r0 @ map ArtifactRegistered ?arts"
  let ?r2 = "?r1 @ map ConversationEntryAppended shared"
  let ?head = "ThreadHeadMoved thread (Some (ln_source_entry lineage))"
  let ?base = "branch_base target thread workspace lineage"
  let ?table = "fold (\<lambda>a. bt_insert (artifact_id a) a) ?arts []"
  have all: "branch_records thread workspace lineage shared = ?r2 @ [?head]"
    by (simp add: branch_records_def)
  have shorter: "distinct (map (we_fresh env) [d ..< d + n])" if "n \<le> length (?r2 @ [?head])" for n
    using distinct_shorter [OF ids [unfolded all] that] .
  have s0: "replay codec (envelopes env target d ?r0) ?base"
    by (rule branch_created [OF _ lineage]) (rule shorter, simp)
  have arts: "distinct (map artifact_id ?arts)" using first_artifacts_distinct by blast
  have s1: "replay codec (envelopes env target d ?r1) (?base\<lparr>ss_artifacts := ?table\<rparr>)"
    by (rule branch_artifacts [OF s0 refl arts]) (rule shorter, simp)
  have table: "bt_get ?table (artifact_id a) = Some a" if a: "a \<in> set (shared_artifacts shared)" for a
  proof -
    obtain b where b: "b \<in> set ?arts" "artifact_id b = artifact_id a"
      using first_artifacts_covers [OF a, of "[]"] by auto
    then have "b \<in> set (shared_artifacts shared)" using first_artifacts_distinct by blast
    then have "b = a" using agree a b(2) by (simp add: artifacts_agree_def)
    then show ?thesis using b get_fold_insert [OF arts] find_distinct [OF arts] by simp
  qed
  have backed: "\<forall>e \<in> set shared. check_block_artifacts (?base\<lparr>ss_artifacts := ?table\<rparr>) (msg_content (et_message e)) = Inr ()"
    using table shared_entry_artifacts by (auto simp: check_block_artifacts_iff)
  let ?st = "?base\<lparr>ss_artifacts := ?table, ss_entries := fold (\<lambda>e. bt_insert (et_id e) e) shared []\<rparr>"
  have s2: "replay codec (envelopes env target d ?r2) ?st"
    by (rule branch_entries [OF s1 refl path(1,2) backed]) (rule shorter, simp)
  have "last shared \<in> set shared" using path(3) by simp
  then have "bt_contains (ss_entries ?st) (ln_source_entry lineage)"
    using get_fold_insert [OF path(1)] find_distinct [OF path(1)] head by (simp add: bt_contains_def)
  then have valid: "validate_record codec ?st n None target ?head = Inr ()" for n
    by (simp add: validate_head_def branch_base_def empty_session_def)
  define P where "P k st \<longleftrightarrow> st = (if k = 0 then ?st else ?st\<lparr>ss_head := Some (ln_source_entry lineage)\<rparr>)" for k :: nat and st
  have "\<exists>st. replay codec (envelopes env target d (?r2 @ [?head])) st \<and> P (length [?head]) st"
  proof (rule replay_list [where P = P, OF s2 _ ids [unfolded all]])
    show "P 0 ?st" by (simp add: P_def)
    show "ss_id st = target" if "P k st" for k st
      using that by (auto simp: P_def branch_base_def empty_session_def split: if_splits)
    show "\<exists>st'. validate_record codec st (length ?r2 + k) None target ([?head] ! k) = Inr ()
        \<and> apply_validated ([?head] ! k) st = Some st' \<and> P (Suc k) st'"
      if "k < length [?head]" "P k st" for k st
      using that valid by (simp add: P_def)
  qed
  then show ?thesis by (simp add: P_def branch_state_def all)
qed

lemma parent_chain_unique:
  "parent_chain st c xs \<Longrightarrow> parent_chain st c ys \<Longrightarrow> xs = ys"
proof (induction st c xs arbitrary: ys rule: parent_chain.induct)
  case (1 st c)
  then show ?case by (cases ys) auto
next
  case (2 st c e es)
  then show ?case by (cases ys) auto
qed

lemma chain_of_prefix:
  assumes "chained None xs" and "ss_archived st = None"
    and "\<forall>e \<in> set xs. bt_get (ss_entries st) (et_id e) = Some e"
  shows "parent_chain st (if xs = [] then None else Some (et_id (last xs))) (rev xs)"
  using assms(1,3)
proof (induction xs rule: rev_induct)
  case (snoc x xs)
  then show ?case by (auto simp: chained_append archived_end_def assms(2))
qed (simp add: archived_end_def assms(2))

lemma branch_state_path:
  assumes "replay codec es (branch_state target thread workspace lineage shared)"
    and "distinct (map et_id shared)" "chained None shared" "shared \<noteq> []"
    and "ln_source_entry lineage = et_id (last shared)"
  shows "entry_path (branch_state target thread workspace lineage shared) = Inr shared"
proof -
  let ?st = "branch_state target thread workspace lineage shared"
  have state: "ss_archived ?st = None" "ss_head ?st = Some (et_id (last shared))"
    "ss_entries ?st = fold (\<lambda>e. bt_insert (et_id e) e) shared []"
    by (simp_all add: branch_state_def branch_base_def empty_session_def assms(5))
  have "\<forall>e \<in> set shared. bt_get (ss_entries ?st) (et_id e) = Some e"
    using get_fold_insert [OF assms(2)] find_distinct [OF assms(2)] by (simp add: state)
  then have "parent_chain ?st (ss_head ?st) (rev shared)"
    using chain_of_prefix [OF assms(3) state(1)] assms(4) by (simp add: state)
  moreover obtain path where "entry_path ?st = Inr (rev path)" "parent_chain ?st (ss_head ?st) path"
    using entry_path_total [OF forest.reachable_inv [OF replay_reachable [OF assms(1)]]] by blast
  ultimately show ?thesis using parent_chain_unique by fastforce
qed

lemma position_distinct:
  "distinct (map f xs) \<Longrightarrow> i < length xs \<Longrightarrow> position (\<lambda>x. f x = f (xs ! i)) xs = Some i"
proof (induction xs arbitrary: i)
  case (Cons x xs)
  show ?case
  proof (cases i)
    case (Suc j)
    then have "f (xs ! j) \<in> f ` set xs" using Cons.prems(2) by simp
    then have "f x \<noteq> f (xs ! j)" using Cons.prems(1) by auto
    then show ?thesis using Cons Suc by simp
  qed simp
qed simp

text \<open>An image carries its artifact; it is the artifact its identifier names elsewhere.\<close>

definition image_artifact :: "conversation_entry list \<Rightarrow> artifact_record \<Rightarrow> bool" where
  "image_artifact path a =
     (\<exists>e \<in> set path. \<exists>img. ImageBlock img \<in> set (msg_content (et_message e)) \<and> im_artifact img = a)"

definition result_artifact :: "conversation_entry list \<Rightarrow> artifact_record \<Rightarrow> bool" where
  "result_artifact path a =
     (\<exists>e \<in> set path. \<exists>r. ToolResultBlock r \<in> set (msg_content (et_message e)) \<and> tr_artifact r = Some a)"

definition images_agree :: "conversation_entry list \<Rightarrow> bool" where
  "images_agree path =
     (\<forall>a \<in> set (shared_artifacts path). \<forall>b \<in> set (shared_artifacts path).
        artifact_id a = artifact_id b \<longrightarrow> image_artifact path a \<longrightarrow> a = b)"

lemma artifact_source:
  assumes "a \<in> set (shared_artifacts path)"
  shows "image_artifact path a \<or> result_artifact path a"
proof -
  obtain e b where "e \<in> set path" "b \<in> set (msg_content (et_message e))" "block_artifact b = Some a"
    using assms by (auto simp: shared_artifacts_def message_artifacts_def List.map_filter_def)
  then show ?thesis by (cases b) (auto simp: image_artifact_def result_artifact_def)
qed

lemma path_artifacts_agree:
  assumes "images_agree path" and "entries_backed st"
    and stored: "\<forall>e \<in> set path. bt_get (ss_entries st) (et_id e) = Some e"
  shows "artifacts_agree path"
  unfolding artifacts_agree_def
proof (intro ballI impI)
  fix a b
  assume a: "a \<in> set (shared_artifacts path)" and b: "b \<in> set (shared_artifacts path)"
    and same: "artifact_id a = artifact_id b"
  have registered: "bt_get (ss_artifacts st) (artifact_id x) = Some x" if source: "result_artifact path x" for x
  proof -
    obtain e r where e: "e \<in> set path" "ToolResultBlock r \<in> set (msg_content (et_message e))" "tr_artifact r = Some x"
      using source by (auto simp: result_artifact_def)
    have "bt_get (ss_entries st) (et_id e) = Some e" using stored e(1) by (rule bspec)
    from bt_get_in_set [OF this] have "e \<in> set (map snd (ss_entries st))" by (simp add: image_iff) (metis snd_conv)
    then have "check_block_artifacts st (msg_content (et_message e)) = Inr ()"
      using assms(2) unfolding entries_backed_def by blast
    then show ?thesis using e(2,3) unfolding check_block_artifacts_iff by blast
  qed
  note images = assms(1) [unfolded images_agree_def, rule_format]
  consider "image_artifact path a" | "image_artifact path b" | "result_artifact path a" "result_artifact path b"
    using artifact_source [OF a] artifact_source [OF b] by blast
  then show "a = b"
  proof cases
    case 1
    then show ?thesis by (rule images [OF a b same])
  next
    case 2
    then show ?thesis using images [OF b a same [symmetric]] by simp
  next
    case 3
    then show ?thesis using registered same by (metis option.inject)
  qed
qed

lemma staged_branch: "staged_tail False (map ArtifactRegistered as @ map ConversationEntryAppended es @ [ThreadHeadMoved t h])"
proof -
  have "staged_tail False (map ConversationEntryAppended es @ [ThreadHeadMoved t h])" by (induction es) auto
  then show ?thesis by (induction as) auto
qed

lemma envelopes_records: "map rn_record (envelopes env session d rs) = rs"
  by (induction rs rule: rev_induct) (simp_all add: envelopes_snoc new_envelope_def, simp add: envelopes_def)

section \<open>Branching succeeds\<close>

lemma inspected_source:
  assumes "inspect_restored env disk = Inr (summary, source)"
  shows "\<exists>es. replay (we_codec env) es source"
  using assms reduce_result_replay by (auto simp: inspect_restored_def res_simps)

lemma branch_target:
  assumes source: "replay (we_codec env) source_records source" "entry_path source = Inr path" "index < length path"
    and agree: "images_agree path" and fresh: "inj (we_fresh env)" "we_fresh env d \<noteq> source_session"
    and shared: "shared = take (index + 1) path"
    and lineage: "lineage = branch_lineage source_session (et_id (path ! index)) shared"
    and records: "records = envelopes env (we_fresh env d) (d + 2)
      (branch_records (we_fresh env (d + 1)) workspace lineage shared)"
  shows "reduce_result (we_codec env) records = Inr (branch_state (we_fresh env d) (we_fresh env (d + 1)) workspace lineage shared)
    \<and> entry_path (branch_state (we_fresh env d) (we_fresh env (d + 1)) workspace lineage shared) = Inr shared"
proof -
  let ?t = "branch_state (we_fresh env d) (we_fresh env (d + 1)) workspace lineage shared"
  have archived: "ss_archived source = None" by (rule replay_archived [OF source(1)])
  obtain steps where steps: "path = rev steps" "parent_chain source (ss_head source) steps" "distinct (map et_id steps)"
    using entry_path_total [OF forest.reachable_inv [OF replay_reachable [OF source(1)]]] source(2) by auto
  note chain = parent_chain_rev [OF steps(2) archived]
  have stored: "\<forall>e \<in> set path. bt_get (ss_entries source) (et_id e) = Some e"
    using chain steps(1) by simp
  have "artifacts_agree path"
    by (rule path_artifacts_agree [OF agree backed.reachable_inv [OF replay_reachable [OF source(1)]] stored])
  moreover have "set (shared_artifacts shared) \<subseteq> set (shared_artifacts path)"
    using set_take_subset [of "index + 1" path] by (auto simp: shared_artifacts_def shared)
  ultimately have agrees: "artifacts_agree shared" unfolding artifacts_agree_def by blast
  have all: "distinct (map et_id path)" "chained None path"
    using steps(1,3) chain by (simp_all flip: rev_map)
  have "path = shared @ drop (index + 1) path" by (simp add: shared)
  then have parts: "distinct (map et_id shared)" "chained None shared"
    using all by (metis distinct_append map_append, metis chained_append)
  have ne: "shared \<noteq> []" "last shared = path ! index"
    using source(3) by (auto simp: shared take_Suc_conv_app_nth)
  have lin: "ln_source_session lineage \<noteq> we_fresh env d" "ln_shared_entry_count lineage \<noteq> 0"
    "ln_source_entry lineage = et_id (last shared)" "ln_shared_entry_count lineage = length shared"
    using fresh(2) ne by (simp_all add: lineage branch_lineage_def)
  have ids: "distinct (map (we_fresh env) [a ..< b])" for a b
    using fresh(1) by (simp add: distinct_map inj_on_def)
  have run: "replay (we_codec env) records ?t"
    unfolding records by (rule branch_replays [OF ids lin(1,2) parts ne(1) lin(3) agrees])
  have path: "entry_path ?t = Inr shared"
    by (rule branch_state_path [OF run parts ne(1) lin(3)])
  have "ss_archived ?t = None" "ss_branch ?t = Some lineage"
    by (simp_all add: branch_state_def branch_base_def empty_session_def)
  then have "validate_branch_history ?t = Inr ()"
    using path lin ne by (simp add: validate_branch_history_def retained_offset_def ensure_def last_conv_nth)
  then show ?thesis using replay_reduces [OF run] path by simp
qed

text \<open>C7: branching at any entry of the active conversation never produces a target that its own journal
  would reject. The target is written as a whole or not at all; it then has its own identity and the
  lineage, its conversation is the source's up to the chosen entry, nothing is unfinished in it, and it
  can still be discarded. It can be refused by the store only, for its size or because the disk fails.
  \<open>images_agree\<close>, that blocks naming the same artifact describe the same artifact, is not checked by
  the reducer for images; it holds since \<open>put_bounded\<close> draws every artifact identifier at random.\<close>

theorem branch_shares_the_prefix:
  assumes "inspect_restored env disk = Inr (summary, source)" and "entry_path source = Inr path"
    and "index < length path" and "images_agree path"
    and "inj (we_fresh env)" and "we_fresh env d \<noteq> source_session"
  shows "case branch_at env d io_ok disk source_session (et_id (path ! index)) of
      Inl err \<Rightarrow> (case err of StoreRefused _ \<Rightarrow> True | _ \<Rightarrow> False)
    | Inr (s, receipt) \<Rightarrow> io_ok \<and> entry_path (du_restored s) = Inr (take (index + 1) path)
        \<and> ss_id (du_restored s) = we_fresh env d \<and> ss_workspace (du_restored s) = ss_workspace source
        \<and> ss_branch (du_restored s) = Some (branch_lineage source_session (et_id (path ! index)) (take (index + 1) path))
        \<and> br_shared_entry_count receipt = index + 1
        \<and> unfinished_operations (du_restored s) = [] \<and> discard_staged_branch s = Inr ()"
proof -
  obtain source_records where replayed: "replay (we_codec env) source_records source"
    using inspected_source [OF assms(1)] by blast
  define shared where "shared = take (index + 1) path"
  define lineage where "lineage = branch_lineage source_session (et_id (path ! index)) shared"
  define payload where "payload = branch_records (we_fresh env (d + 1)) (ss_workspace source) lineage shared"
  define records where "records = envelopes env (we_fresh env d) (d + 2) payload"
  define target where "target = branch_state (we_fresh env d) (we_fresh env (d + 1)) (ss_workspace source) lineage shared"
  have reduced: "reduce_result (we_codec env) records = Inr target" and path: "entry_path target = Inr shared"
    using branch_target [OF replayed assms(2-6) shared_def lineage_def records_def [unfolded payload_def]]
    by (simp_all add: target_def)
  have "distinct (map et_id path)"
    using entry_path_total [OF forest.reachable_inv [OF replay_reachable [OF replayed]]] assms(2)
    by (auto simp flip: rev_map)
  then have index: "position (\<lambda>e. et_id e = et_id (path ! index)) path = Some index"
    using assms(3) by (rule position_distinct)
  have branch: "branch_at env d io_ok disk source_session (et_id (path ! index))
    = res_bind (store_result (create_batch (we_journal env) io_ok records))
        (\<lambda>store. res_bind (from_open_store env (d + 2 + length records) store records)
        (\<lambda>session. Inr (session, \<lparr>br_source_session = source_session, br_source_entry = et_id (path ! index),
           br_target_session = we_fresh env d, br_shared_entry_count = length shared\<rparr>)))"
    using assms(1,2) index reduced
    by (simp add: branch_at_def Let_def shared_def lineage_def records_def payload_def)
  show ?thesis
  proof (cases "create_batch (we_journal env) io_ok records")
    case (Inl err)
    then show ?thesis by (simp add: branch store_result_def)
  next
    case (Inr store)
    have io: io_ok
      using Inr by (auto simp: create_batch_def res_simps split: list.splits)
    obtain s where s: "from_open_store env (d + 2 + length records) store records = Inr s"
      "du_records s = records" "du_restored s = target"
      using reduced by (auto simp: from_open_store_def)
    have "map rn_record records = payload" by (simp add: records_def envelopes_records)
    then have "discard_staged_branch s = Inr ()"
      using staged_branch s(2) by (simp add: discard_staged_branch_def payload_def branch_records_def ensure_def)
    moreover have "length shared = index + 1" using assms(3) by (simp add: shared_def)
    ultimately show ?thesis
      unfolding branch using Inr path io s(1,3)
      by (simp add: store_result_def target_def shared_def lineage_def)
  qed
qed

section \<open>Clearing a branch\<close>

text \<open>
  A session that has left its branch: it keeps its lineage, and the last shared entry, although
  stored, is not on the path from the head. Only moving the head to an entry of another path can
  bring it back.
\<close>

definition lost :: "native_branch_lineage \<Rightarrow> restored_session \<Rightarrow> bool" where
  "lost l st =
     (ss_branch st = Some l \<and> ln_shared_entry_count l \<noteq> 0 \<and> ss_archived st = None \<and> conversation_ok st
      \<and> bt_contains (ss_entries st) (ln_source_entry l)
      \<and> (\<exists>path. entry_path st = Inr path \<and> ln_source_entry l \<notin> et_id ` set path))"

lemma lost_rejected: "lost l st \<Longrightarrow> validate_branch_history st = Inl InvalidBranchHistory"
proof -
  assume lost: "lost l st"
  then obtain path where path: "entry_path st = Inr path" "ln_source_entry l \<notin> et_id ` set path"
    by (auto simp: lost_def)
  have "retained_offset st = 0" using lost by (simp add: lost_def retained_offset_def)
  moreover have "et_id (path ! (ln_shared_entry_count l - 1)) \<noteq> ln_source_entry l"
    if "ln_shared_entry_count l \<le> length path"
    using path(2) lost that by (metis diff_less image_eqI less_le_trans lost_def nth_mem not_gr0 zero_less_one)
  ultimately show ?thesis
    using lost path(1) by (auto simp: lost_def validate_branch_history_def ensure_def Let_def)
qed

lemma branch_after:
  "apply_validated r st = Some st' \<Longrightarrow>
     ss_branch st' = (case r of ConversationBranched l \<Rightarrow> Some l | _ \<Rightarrow> ss_branch st)"
  by (cases r) (auto simp: frame_simps)

interpretation lineage: journal_invariant codec
  "\<lambda>st. \<forall>l. ss_branch st = Some l \<longrightarrow> ln_shared_entry_count l \<noteq> 0" for codec
proof unfold_locales
  fix st r st'
  assume "\<forall>l. ss_branch st = Some l \<longrightarrow> ln_shared_entry_count l \<noteq> 0" and "session_step codec st r st'"
  then obtain index pf where valid: "validate_record codec st index pf (ss_id st) r = Inr ()"
    and applied: "apply_validated r st = Some st'"
    and counted: "\<forall>l. ss_branch st = Some l \<longrightarrow> ln_shared_entry_count l \<noteq> 0"
    by (auto elim: session_stepE)
  have "ss_branch st' = ss_branch st \<or> (\<exists>l. ss_branch st' = Some l \<and> validate_branched st index l = Inr ())"
    using branch_after [OF applied] valid by (cases r) simp_all
  with counted show "\<forall>l. ss_branch st' = Some l \<longrightarrow> ln_shared_entry_count l \<noteq> 0"
    by (auto simp: validate_branched_def ensure_eq_Inr)
qed (simp add: empty_session_def)

text \<open>The head moves to nothing, or to a stored entry that follows it and was not shared last.\<close>

definition moves_on :: "native_branch_lineage \<Rightarrow> restored_session \<Rightarrow> session_record \<Rightarrow> bool" where
  "moves_on l st r =
     (\<forall>t h. r = ThreadHeadMoved t (Some h) \<longrightarrow> h \<noteq> ln_source_entry l
        \<and> (\<exists>e. bt_get (ss_entries st) h = Some e \<and> et_parent e = ss_head st))"

lemma parent_chain_kept:
  assumes "parent_chain st c es" and "ss_archived st' = ss_archived st"
    and "\<And>i e. bt_get (ss_entries st) i = Some e \<Longrightarrow> bt_get (ss_entries st') i = Some e"
  shows "parent_chain st' c es"
  using assms by (induction st c es rule: parent_chain.induct) (auto simp: archived_end_def)

lemma path_chain:
  assumes "conversation_ok st" and "entry_path st = Inr path"
  shows "parent_chain st (ss_head st) (rev path)"
  using entry_path_total [OF assms(1)] assms(2) by auto

lemma chain_path:
  assumes "conversation_ok st" and "parent_chain st (ss_head st) es"
  shows "entry_path st = Inr (rev es)"
proof -
  obtain xs where xs: "entry_path st = Inr (rev xs)" "parent_chain st (ss_head st) xs"
    using entry_path_total [OF assms(1)] by blast
  show ?thesis using xs(1) parent_chain_unique [OF assms(2) xs(2)] by simp
qed

lemma moved_path:
  assumes ok: "conversation_ok st'" and stop: "ss_archived st' = None"
    and path: "parent_chain st' (et_parent e) (rev path)"
    and e: "bt_get (ss_entries st') h = Some e" "ss_head st' = Some h"
  shows "entry_path st' = Inr (path @ [e])"
proof -
  have "et_id e = h" using conversation_okD [OF ok e(1)] by simp
  then have "parent_chain st' (ss_head st') (e # rev path)"
    using e path stop by (simp add: archived_end_def)
  from chain_path [OF ok this] show ?thesis by simp
qed

lemma entry_kept:
  assumes "session_step codec st r st'" and e: "bt_get (ss_entries st) i = Some e"
  shows "bt_get (ss_entries st') i = Some e"
proof -
  obtain index pf where valid: "validate_record codec st index pf (ss_id st) r = Inr ()"
    and applied: "apply_validated r st = Some st'" using assms(1) by (auto elim: session_stepE)
  show ?thesis
    using entries_after [OF applied] valid e
    by (cases r) (auto simp: validate_entry_def res_simps bt_contains_def bt_get_insert split: if_splits)
qed

lemma lost_step:
  assumes lost: "lost l st" and step: "session_step codec st r st'" and on: "moves_on l st r"
  shows "lost l st'"
proof -
  obtain index pf where valid: "validate_record codec st index pf (ss_id st) r = Inr ()"
    and applied: "apply_validated r st = Some st'" using step by (auto elim: session_stepE)
  obtain path where path: "entry_path st = Inr path" "ln_source_entry l \<notin> et_id ` set path"
    using lost by (auto simp: lost_def)
  note same = identity_after [OF applied] and kept = entry_kept [OF step]
  have ok: "conversation_ok st'" using conversation_step [OF _ step] lost by (simp add: lost_def)
  have archived: "ss_archived st' = None" using same lost by (simp add: lost_def)
  have chain: "parent_chain st' (ss_head st) (rev path)"
    using parent_chain_kept [OF path_chain [OF _ path(1)], of st'] lost same kept by (simp add: lost_def)
  have "\<exists>path. entry_path st' = Inr path \<and> ln_source_entry l \<notin> et_id ` set path"
  proof (cases "\<exists>t h. r = ThreadHeadMoved t h")
    case False
    then have "ss_head st' = ss_head st" using head_after [OF applied] by (cases r) simp_all
    then show ?thesis using chain_path [OF ok, of "rev path"] chain path(2) by simp
  next
    case True
    then obtain t h where r: "r = ThreadHeadMoved t h" by blast
    then have head: "ss_head st' = h" using head_after [OF applied] by simp
    show ?thesis
    proof (cases h)
      case None
      then have "entry_path st' = Inr []" using head by (simp add: entry_path_def)
      then show ?thesis by simp
    next
      case (Some i)
      then obtain e where e: "bt_get (ss_entries st) i = Some e" "et_parent e = ss_head st"
        "i \<noteq> ln_source_entry l" using on r by (auto simp: moves_on_def)
      have "entry_path st' = Inr (path @ [e])"
        using moved_path [OF ok archived _ kept [OF e(1)]] chain e(2) head Some by simp
      moreover have "et_id e = i" using conversation_okD [OF _ e(1)] lost by (simp add: lost_def)
      ultimately show ?thesis using path(2) e(3) by simp
    qed
  qed
  moreover have "ss_branch st' = Some l"
    using branch_after [OF applied] valid lost
    by (cases r) (auto simp: lost_def validate_branched_def ensure_eq_Inr)
  moreover have "bt_contains (ss_entries st') (ln_source_entry l)"
    using lost kept by (auto simp: lost_def bt_contains_def)
  ultimately show ?thesis using lost ok archived by (simp add: lost_def)
qed

text \<open>The session in memory is lost, and so is what a reader finds in its file.\<close>

definition astray :: "writer_env \<Rightarrow> native_branch_lineage \<Rightarrow> durable_session \<Rightarrow> bool" where
  "astray env l s =
     (codec_faithful env \<and> writer_ok env s \<and> lost l (du_restored s)
      \<and> (\<exists>es st. written env s es st \<and> lost l st))"

lemma astray_frame [simp]:
  "astray env l (s\<lparr>du_drawn := n\<rparr>) = astray env l s"
  "astray env l (s\<lparr>du_prefix := p\<rparr>) = astray env l s"
  by (simp_all add: astray_def written_def)

lemma astray_append:
  assumes "astray env l s" and "moves_on l (du_restored s) (rn_record e)"
    and "append_envelope env pf fault e s = (s', r)"
  shows "astray env l s'
    \<and> (is_ok r \<longrightarrow> session_step (we_codec env) (du_restored s) (rn_record e) (du_restored s'))"
proof -
  obtain es st where s: "codec_faithful env" "writer_ok env s" "lost l (du_restored s)"
    "written env s es st" "lost l st" using assms(1) by (auto simp: astray_def)
  note kept = append_envelope_written [OF s(1,2,4) assms(3)] and on = lost_step [OF s(3) _ assms(2)]
  have "\<exists>es st. written env s' es st \<and> lost l st" using kept on s(5) by metis
  moreover have "lost l (du_restored s')" using kept on s(3) by (cases "is_ok r") auto
  ultimately show ?thesis using kept s(1) by (simp add: astray_def)
qed

lemma astray_guarded:
  assumes "astray env l s" and "moves_on l (du_restored s) r" and "append_guarded env pf r s = (s', res)"
  shows "astray env l s' \<and> (is_ok res \<longrightarrow> session_step (we_codec env) (du_restored s) r (du_restored s'))"
proof -
  let ?s = "s\<lparr>du_drawn := du_drawn s + 1\<rparr>"
  let ?e = "new_envelope (we_fresh env (du_drawn s)) (ls_session (du_store s)) r"
  have "append_envelope env pf (we_fault env (du_drawn s)) ?e ?s = (s', res)"
    using assms(3) by (simp add: append_guarded_def draw_def eff_bind_def)
  from astray_append [OF _ _ this, of l] show ?thesis
    using assms(1,2) by (simp add: new_envelope_def)
qed

lemma astray_record:
  assumes "\<nexists>t h. r = ThreadHeadMoved t (Some h)"
  shows "keeps (astray env l) (append_guarded env pf r)"
  unfolding keeps_def
proof (intro allI impI)
  fix s
  assume "astray env l s"
  moreover have "moves_on l (du_restored s) r" using assms by (auto simp: moves_on_def)
  ultimately show "astray env l (fst (append_guarded env pf r s))"
    using astray_guarded by (metis prod.collapse)
qed

text \<open>A message becomes an entry of its own below the head, to which the head then moves.\<close>

lemma astray_message:
  assumes "astray env l s"
  shows "astray env l (fst (append_message env m s))"
proof -
  let ?s = "s\<lparr>du_drawn := du_drawn s + 1\<rparr>" and ?i = "we_fresh env (du_drawn s)"
  let ?e = "\<lparr>et_id = ?i, et_parent = ss_head (du_restored s), et_agent = du_agent s, et_message = m\<rparr>"
  let ?move = "ThreadHeadMoved (ss_thread (du_restored s)) (Some ?i)"
  obtain s1 r1 where entry: "append_guarded env None (ConversationEntryAppended ?e) ?s = (s1, r1)" by fastforce
  have "moves_on l (du_restored ?s) (ConversationEntryAppended ?e)" by (simp add: moves_on_def)
  from astray_guarded [OF _ this entry] assms have one: "astray env l s1"
    and stepped: "is_ok r1 \<Longrightarrow>
      session_step (we_codec env) (du_restored s) (ConversationEntryAppended ?e) (du_restored s1)" by simp_all
  show ?thesis
  proof (cases r1)
    case (Inl err)
    then show ?thesis using entry one
      by (simp add: append_message_def append_record_def draw_def eff_bind_def Let_def)
  next
    case (Inr u)
    obtain s2 r2 where moved: "append_guarded env None ?move s1 = (s2, r2)" by fastforce
    have "\<not> bt_contains (ss_entries (du_restored s)) ?i
      \<and> apply_validated (ConversationEntryAppended ?e) (du_restored s) = Some (du_restored s1)"
      using stepped Inr by (auto elim!: session_stepE simp: validate_entry_def res_simps split: if_splits)
    moreover have "bt_contains (ss_entries (du_restored s)) (ln_source_entry l)"
      using assms by (simp add: astray_def lost_def)
    ultimately have "moves_on l (du_restored s1) ?move"
      by (auto simp: moves_on_def bt_get_insert dest!: sym [of _ "du_restored s1"])
    from astray_guarded [OF one this moved] have "astray env l s2" by simp
    then show ?thesis using entry moved Inr
      by (cases r2) (simp_all add: append_message_def append_record_def draw_def eff_bind_def eff_return_def Let_def)
  qed
qed

text \<open>
  The program moves a head in two places only, \<open>append_message\<close> and \<open>clear_conversation\<close>: no
  operation of it appends a record that moves the head to an entry chosen by the caller.
\<close>

fun chooses_head :: "writer_op \<Rightarrow> bool" where
  "chooses_head (OpAppend (ThreadHeadMoved t (Some h))) = True"
| "chooses_head _ = False"

lemma astray_step:
  assumes "astray env l s" and "\<not> chooses_head c"
  shows "astray env l (writer_step env s c)"
proof (cases c)
  case (OpAppend r)
  then have "\<nexists>t h. r = ThreadHeadMoved t (Some h)" using assms(2) by auto
  from astray_record [OF this] show ?thesis
    using OpAppend assms(1) by (simp add: append_record_def keeps_def)
next
  case (OpAudit a)
  then show ?thesis using assms(1) astray_record [of "PermissionAudited a"]
    by (simp add: append_audit_def append_record_def keeps_def)
next
  case (OpMessage m)
  then show ?thesis using astray_message [OF assms(1)] by simp
next
  case OpClear
  then show ?thesis
    using assms(1) astray_record [of "ThreadHeadMoved (ss_thread (du_restored s)) None" env l None]
    by (simp add: clear_conversation_def append_record_def keeps_def)
next
  case (OpConfigure x)
  then show ?thesis using assms(1) astray_record [of "ExecutionConfigured x"]
    by (simp add: configure_execution_def append_record_def keeps_def)
next
  case (OpCompact k pf)
  have "keeps (astray env l) (commit_compaction env k pf)"
    unfolding commit_compaction_def
    by (intro keeps_bind astray_record) (simp_all add: keeps_def)
  then show ?thesis using OpCompact assms(1) by (simp add: keeps_def)
next
  case (OpStore v)
  have "keeps (astray env l) (eff_bind (append_record env (ArtifactRegistered a))
      (\<lambda>_. eff_return (ArtifactValue (art_reference a))))" for a
    unfolding append_record_def by (intro keeps_bind astray_record keeps_return) simp
  then have "keeps (astray env l) (store_json_value env v)"
    by (auto simp: keeps_def store_json_value_def Let_def split: option.splits)
  then have "keeps (astray env l) (store_tool_output env v)"
    unfolding store_tool_output_def by (rule keeps_bind) (simp add: keeps_def)
  then show ?thesis using OpStore assms(1) by (simp add: keeps_def)
qed

lemma astray_run:
  "astray env l s \<Longrightarrow> list_all (\<lambda>c. \<not> chooses_head c) ops \<Longrightarrow> astray env l (foldl (writer_step env) s ops)"
  by (induction ops arbitrary: s) (auto simp: astray_step)

lemma astray_resume:
  assumes "astray env l s"
  shows "resume env True d (ls_disk (du_store s)) = Inl (RecordRejected InvalidBranchHistory)"
proof -
  obtain es st where "written env s es st" and "lost l st" using assms by (auto simp: astray_def)
  then show ?thesis using resumed [of env s es st d] lost_rejected
    by (auto split: sum.splits prod.splits)
qed

lemma replay_session:
  assumes "replay codec es st"
  shows "\<forall>e \<in> set es. rn_session e = ss_id st"
proof -
  have same: "(\<forall>e \<in> set xs. rn_session e = ss_id st') \<and> ss_id st' = ss_id st"
    if "reduce_from codec st seen n xs = Some (Inr st')" for st seen n xs st'
    using that
  proof (induction xs arbitrary: st seen n)
    case (Cons x xs)
    obtain st1 where one: "validate_envelope codec st seen x n None = Inr ()"
      "(if n = 0 then Some st else apply_validated (rn_record x) st) = Some st1"
      "reduce_from codec st1 (rn_record_id x # seen) (n + 1) xs = Some (Inr st')"
      using Cons.prems by (auto split: sum.splits option.splits)
    have "ss_id st1 = ss_id st" using one(2) identity_after by (auto split: if_splits)
    moreover have "rn_session x = ss_id st" using one(1) by (auto simp: validate_envelope_def split: if_splits)
    ultimately show ?case using Cons.IH [OF one(3)] by simp
  qed simp
  obtain st0 where "reduce_from codec st0 [] 0 es = Some (Inr st)"
    using assms unfolding replay_def by blast
  from same [OF this] show ?thesis by simp
qed

lemma writer_session:
  assumes "writer_ok env s"
  shows "ls_session (du_store s) = ss_id (du_restored s)"
proof -
  have replay: "replay (we_codec env) (du_records s) (du_restored s)" using assms by (simp add: writer_ok_def)
  obtain es st where "store_holds (we_journal env) (ls_session (du_store s)) es (du_store s)"
    and "prefix (du_records s) es" using assms by (auto simp: writer_ok_def written_def)
  moreover obtain x where "x \<in> set (du_records s)" using replay_distinct [OF replay] by (meson last_in_set)
  ultimately show ?thesis
    using replay_session [OF replay] set_mono_prefix
    by (fastforce simp: store_holds_def log_ok_def line_ok_def)
qed

lemma clear_leads_astray:
  assumes faithful: "codec_faithful env" and ok: "writer_ok env s"
    and branch: "ss_branch (du_restored s) = Some l" "validate_branch_history (du_restored s) = Inr ()"
    and step: "append_envelope env pf fault e s = (s', Inr ())" and e: "rn_record e = ThreadHeadMoved t None"
  shows "astray env l s'"
proof -
  have replay: "replay (we_codec env) (du_records s) (du_restored s)" using ok by (simp add: writer_ok_def)
  note reachable = replay_reachable [OF replay] and archived = replay_archived [OF replay]
  obtain path where path: "entry_path (du_restored s) = Inr path" using replay_path [OF replay] by blast
  have count: "ln_shared_entry_count l \<noteq> 0" using lineage.reachable_inv [OF reachable] branch(1) by simp
  then have "ln_shared_entry_count l - 1 < length path
      \<and> et_id (path ! (ln_shared_entry_count l - 1)) = ln_source_entry l"
    using branch path archived
    by (auto simp: validate_branch_history_def retained_offset_def ensure_def Let_def split: if_splits)
  then have "\<exists>x \<in> set path. et_id x = ln_source_entry l" by (metis nth_mem)
  then have stored: "bt_contains (ss_entries (du_restored s)) (ln_source_entry l)"
    using parent_chain_rev [OF path_chain [OF forest.reachable_inv [OF reachable] path] archived]
    by (auto simp: bt_contains_def)
  have st: "du_restored s' = (du_restored s)\<lparr>ss_head := None\<rparr>" and kept: "writer_ok env s'"
    using append_envelope_keeps [OF faithful ok step] e by simp_all
  have "replay (we_codec env) (du_records s') (du_restored s')" using kept by (simp add: writer_ok_def)
  from forest.reachable_inv [OF replay_reachable [OF this]] have lost: "lost l (du_restored s')"
    using st branch(1) count archived stored by (simp add: lost_def entry_path_def)
  obtain es st' where written: "written env s' es st'" using kept by (auto simp: writer_ok_def)
  have "ls_writable (du_store s')"
    using step by (auto simp: append_envelope_def store_append_def Let_def
        split: sum.splits prod.splits if_splits option.splits)
  then have "st' = du_restored s'" using written by (simp add: written_def)
  then show ?thesis using faithful kept lost written by (auto simp: astray_def)
qed

text \<open>C8: the writer never rejects clearing the conversation of a branch: when the file store takes
  the record, the clear is acknowledged, and from then on the session is lost. Whatever the writer
  goes on to do, messages, compactions, audits and further clears included, resuming from the file is
  refused at every moment, since the shared prefix that the lineage counts is no longer on the path
  from the head. The one exception would be a head moved by hand to an entry of the caller's choice,
  a record that no operation of the program writes.\<close>

theorem cleared_branch_is_lost:
  assumes "codec_faithful env" and "writer_ok env s"
    and "ss_branch (du_restored s) = Some lineage"
    and "validate_branch_history (du_restored s) = Inr ()"
    and "we_fresh env (du_drawn s) \<notin> set (du_record_ids s)"
  shows "case clear_conversation env s of
      (s', Inl err) \<Rightarrow> du_restored s' = du_restored s \<and> (\<exists>refusal. err = StoreRefused refusal)
    | (s', Inr _) \<Rightarrow> \<forall>ops d. list_all (\<lambda>c. \<not> chooses_head c) ops \<longrightarrow>
        resume env True d (ls_disk (du_store (foldl (writer_step env) s' ops)))
          = Inl (RecordRejected InvalidBranchHistory)"
proof -
  let ?s = "s\<lparr>du_prefix := None, du_drawn := du_drawn s + 1\<rparr>"
  let ?r = "ThreadHeadMoved (ss_thread (du_restored s)) None"
  let ?e = "new_envelope (we_fresh env (du_drawn s)) (ls_session (du_store s)) ?r"
  have clear: "clear_conversation env s = append_envelope env None (we_fault env (du_drawn s)) ?e ?s"
    by (simp add: clear_conversation_def append_record_def append_guarded_def draw_def eff_bind_def)
  obtain s' res where step: "append_envelope env None (we_fault env (du_drawn s)) ?e ?s = (s', res)" by fastforce
  have ok: "writer_ok env ?s" using assms(2) by simp
  show ?thesis
  proof (cases res)
    case (Inl err)
    have "validate_envelope (we_codec env) (du_restored s) (du_record_ids s) ?e (length (du_records s)) None = Inr ()"
      using assms(5) writer_session [OF assms(2)]
      by (simp add: validate_envelope_def new_envelope_def validate_head_def)
    moreover have "du_restored s' = du_restored s \<and> err \<noteq> AppendPanicked"
      using append_envelope_keeps [OF assms(1) ok step] Inl by auto
    ultimately show ?thesis
      using clear step Inl by (auto simp: append_envelope_def split: sum.splits prod.splits option.splits)
  next
    case (Inr u)
    then have "astray env lineage s'"
      using clear_leads_astray [OF assms(1) ok, of lineage] assms(3,4) step by (simp add: new_envelope_def)
    from astray_resume [OF astray_run [OF this]] show ?thesis using clear step Inr by simp
  qed
qed

section \<open>Witnesses\<close>

definition branch_lines :: "record_envelope list" where
  "branch_lines =
     map (\<lambda>(i, r). new_envelope i 9 r)
       [(2, SessionCreated 1 []),
        (5, ConversationEntryAppended \<lparr>et_id = 4, et_parent = None, et_agent = 1009,
           et_message = text_message UserRole []\<rparr>),
        (6, ThreadHeadMoved 1 (Some 4))]
     @ map (\<lambda>(i, r). new_envelope i 21 r)
       [(23, SessionCreated 22 []),
        (24, ConversationBranched \<lparr>ln_source_session = 9, ln_source_entry = 4, ln_shared_entry_count = 1\<rparr>),
        (25, ConversationEntryAppended \<lparr>et_id = 4, et_parent = None, et_agent = 1009,
           et_message = text_message UserRole []\<rparr>),
        (26, ThreadHeadMoved 22 (Some 4)), (28, ThreadHeadMoved 22 None),
        (30, ConversationEntryAppended \<lparr>et_id = 29, et_parent = None, et_agent = 1021,
           et_message = text_message UserRole []\<rparr>),
        (31, ThreadHeadMoved 22 (Some 29))]"

definition branch_disk :: "u8 list" where
  "branch_disk = [50, 125, 10, 53, 125, 10, 54, 125, 10]"

lemma branch_codec: "codec_faithful (writer_for branch_lines None)"
  by (rule finite_codec_faithful) (simp add: small_ids_def branch_lines_def new_envelope_def SESSION_RECORD_VERSION_def)

definition branched_store :: legacy_store where
  "branched_store =
     \<lparr>ls_session = 21, ls_disk = [71, 125, 10, 72, 125, 10, 73, 125, 10, 74, 125, 10],
      ls_committed_bytes = 12, ls_committed_records = 4, ls_writable = True\<rparr>"

definition branched_records :: "record_envelope list" where
  "branched_records = take 4 (drop 3 branch_lines)"

lemma branched_batch:
  "create_batch (finite_codec branch_lines) True branched_records = Inr branched_store"
  by (simp add: branched_records_def branched_store_def branch_lines_def create_batch_def new_envelope_def
      finite_codec_def ensure_def SESSION_RECORD_VERSION_def MAX_RECORD_BYTES_def MAX_SESSION_BYTES_def
      MAX_SESSION_RECORDS_def)

definition branched_state :: restored_session where
  "branched_state = branch_state 21 22 [] \<lparr>ln_source_session = 9, ln_source_entry = 4, ln_shared_entry_count = 1\<rparr>
     [\<lparr>et_id = 4, et_parent = None, et_agent = 1009, et_message = text_message UserRole []\<rparr>]"

lemma branched_reduced:
  "reduce_result sample_session_codec branched_records = Inr branched_state"
  by (simp add: branched_records_def branched_state_def branch_lines_def branch_state_def branch_base_def
      reduce_result_def reduce_def check_reduced_def conversation_path_def entry_path_def validate_branch_history_def
      validate_envelope_def empty_session_def validate_entry_def validate_head_def validate_branched_def
      bt_contains_def bt_get_def text_message_def new_envelope_def ensure_def retained_offset_def archived_end_def
      walk_path.simps shared_artifacts_def message_artifacts_def List.map_filter_def SESSION_RECORD_VERSION_def)

abbreviation branch_env :: writer_env where
  "branch_env \<equiv> writer_for branch_lines None"

definition branched :: durable_session where
  "branched =
     \<lparr>du_store = branched_store, du_records = branched_records, du_record_ids = [23, 24, 25, 26],
      du_restored = branched_state, du_agent = 1021, du_owner = 27, du_prefix = None, du_drawn = 27\<rparr>"

lemma branched_opened: "from_open_store branch_env 26 branched_store branched_records = Inr branched"
proof -
  have "map rn_record_id branched_records = [23, 24, 25, 26]"
    by (simp add: branched_records_def branch_lines_def new_envelope_def)
  moreover have "sc_root_agent sample_session_codec 21 = 1021"
    by (simp add: sample_session_codec_def vision_codec.defs session_codec.defs)
  ultimately show ?thesis
    by (simp add: from_open_store_def writer_for_def branched_reduced branched_def branched_state_def)
qed

lemma branched_ok: "writer_ok branch_env branched"
proof -
  have "store_holds (finite_codec branch_lines) (ls_session branched_store) branched_records branched_store"
    using create_batch_holds [OF branched_batch] branch_codec by (simp add: codec_faithful_def writer_for_def)
  then show ?thesis using started_ok [OF branched_opened] by (simp add: writer_for_def)
qed

lemma branched_state_simps:
  "ss_thread branched_state = 22" "ss_id branched_state = 21" "length branched_records = 4"
  "bt_get (ss_entries branched_state) 29 = None"
  by (simp_all add: branched_state_def branch_state_def branch_base_def empty_session_def bt_get_def
      branched_records_def branch_lines_def)

lemma branched_lines:
  "{new_envelope 28 21 (ThreadHeadMoved 22 None),
    new_envelope 30 21 (ConversationEntryAppended \<lparr>et_id = 29, et_parent = None, et_agent = 1021,
      et_message = text_message UserRole []\<rparr>),
    new_envelope 31 21 (ThreadHeadMoved 22 (Some 29))} \<subseteq> set branch_lines"
  by (simp add: branch_lines_def)

lemma branched_cleared:
  "\<exists>s' s''. clear_conversation branch_env branched = (s', Inr ())
     \<and> append_message branch_env (text_message UserRole []) s' = (s'', Inr 29)"
  using branched_lines
  by (simp add: branched_state_simps clear_conversation_def append_message_def append_record_def
      append_guarded_def draw_def eff_bind_def eff_return_def append_envelope_def branched_def
      branched_store_def writer_for_def store_append_def finite_codec_def validate_envelope_def
      validate_head_def validate_entry_def text_message_def bt_contains_def bt_get_insert
      new_envelope_def MAX_RECORD_BYTES_def MAX_SESSION_BYTES_def MAX_SESSION_RECORDS_def
      SESSION_RECORD_VERSION_def Let_def)

text \<open>The clear and the message after it are accepted; resuming is refused.\<close>

theorem cleared_branch_is_lost_witness:
  "\<exists>s' s''. create_batch (we_journal branch_env) True branched_records = Inr (du_store branched)
     \<and> from_open_store branch_env 26 (du_store branched) branched_records = Inr branched
     \<and> clear_conversation branch_env branched = (s', Inr ())
     \<and> append_message branch_env (text_message UserRole []) s' = (s'', Inr 29)
     \<and> resume branch_env True 0 (ls_disk (du_store s'')) = Inl (RecordRejected InvalidBranchHistory)"
proof -
  obtain s' s'' where clear: "clear_conversation branch_env branched = (s', Inr ())"
    and said: "append_message branch_env (text_message UserRole []) s' = (s'', Inr 29)"
    using branched_cleared by blast
  have branch: "ss_branch (du_restored branched)
      = Some \<lparr>ln_source_session = 9, ln_source_entry = 4, ln_shared_entry_count = 1\<rparr>"
    by (simp add: branched_def branched_state_def)
  have "validate_branch_history (du_restored branched) = Inr ()"
    using reduce_result_replay [OF branched_reduced] by (simp add: branched_def)
  moreover have "we_fresh branch_env (du_drawn branched) \<notin> set (du_record_ids branched)"
    by (simp add: branched_def writer_for_def)
  ultimately have "\<forall>ops d. list_all (\<lambda>c. \<not> chooses_head c) ops \<longrightarrow>
      resume branch_env True d (ls_disk (du_store (foldl (writer_step branch_env) s' ops)))
        = Inl (RecordRejected InvalidBranchHistory)"
    using cleared_branch_is_lost [OF branch_codec branched_ok branch] clear by simp
  from this [rule_format, of "[OpMessage (text_message UserRole [])]" 0] said
  have "resume branch_env True 0 (ls_disk (du_store s'')) = Inl (RecordRejected InvalidBranchHistory)" by simp
  then show ?thesis
    using clear said branched_batch branched_opened by (auto simp: branched_def writer_for_def)
qed

definition source_records :: "record_envelope list" where
  "source_records = take 3 branch_lines"

definition source_store :: legacy_store where
  "source_store = \<lparr>ls_session = 9, ls_disk = branch_disk, ls_committed_bytes = 9,
     ls_committed_records = 3, ls_writable = True\<rparr>"

lemma source_batch: "create_batch (finite_codec branch_lines) True source_records = Inr source_store"
  by (simp add: source_records_def source_store_def branch_disk_def branch_lines_def create_batch_def new_envelope_def
      finite_codec_def ensure_def SESSION_RECORD_VERSION_def MAX_RECORD_BYTES_def MAX_SESSION_BYTES_def
      MAX_SESSION_RECORDS_def)

lemma source_reduced:
  "\<exists>st e. reduce_result sample_session_codec source_records = Inr st \<and> entry_path st = Inr [e]
     \<and> et_message e = text_message UserRole []"
  by (simp add: source_records_def branch_lines_def
      reduce_result_def reduce_def check_reduced_def conversation_path_def entry_path_def validate_branch_history_def
      validate_envelope_def empty_session_def validate_entry_def validate_head_def
      bt_contains_def bt_get_def text_message_def new_envelope_def ensure_def archived_end_def
      walk_path.simps SESSION_RECORD_VERSION_def)

lemma source_inspected:
  "\<exists>summary st e. inspect_restored branch_env branch_disk = Inr (summary, st) \<and> entry_path st = Inr [e]
     \<and> et_message e = text_message UserRole []"
proof -
  have "store_holds (finite_codec branch_lines) (ls_session source_store) source_records source_store"
    "distinct (map rn_record_id source_records)" "source_records \<noteq> []"
    using create_batch_holds [OF source_batch] branch_codec by (simp_all add: codec_faithful_def writer_for_def)
  from reopened [OF this] obtain loaded where
    "inspect (finite_codec branch_lines) branch_disk = Inr loaded" "ld_records loaded = source_records"
    by (auto simp: source_store_def)
  then show ?thesis
    using source_reduced
    by (auto simp: inspect_restored_def summary_from_loaded_def store_result_def writer_for_def)
qed

theorem branch_shares_the_prefix_witness:
  "\<exists>summary source path. inspect_restored branch_env branch_disk = Inr (summary, source)
     \<and> entry_path source = Inr path \<and> length path = 1
     \<and> (case branch_at branch_env 20 True branch_disk 9 (et_id (path ! 0)) of
          Inl err \<Rightarrow> (case err of StoreRefused _ \<Rightarrow> True | _ \<Rightarrow> False)
        | Inr (s, receipt) \<Rightarrow> entry_path (du_restored s) = Inr path \<and> ss_id (du_restored s) = 21
            \<and> br_shared_entry_count receipt = 1 \<and> discard_staged_branch s = Inr ())"
proof -
  obtain summary st e where src: "inspect_restored branch_env branch_disk = Inr (summary, st)"
    "entry_path st = Inr [e]" "et_message e = text_message UserRole []"
    using source_inspected by blast
  have "images_agree [e]"
    using src(3) by (simp add: images_agree_def image_artifact_def text_message_def)
  moreover have "inj (we_fresh branch_env)" by (simp add: writer_for_def inj_def)
  moreover have "we_fresh branch_env 20 \<noteq> 9" by (simp add: writer_for_def)
  ultimately have "case branch_at branch_env 20 True branch_disk 9 (et_id ([e] ! 0)) of
      Inl err \<Rightarrow> (case err of StoreRefused _ \<Rightarrow> True | _ \<Rightarrow> False)
    | Inr (s, receipt) \<Rightarrow> True \<and> entry_path (du_restored s) = Inr (take (0 + 1) [e])
        \<and> ss_id (du_restored s) = we_fresh branch_env 20 \<and> ss_workspace (du_restored s) = ss_workspace st
        \<and> ss_branch (du_restored s) = Some (branch_lineage 9 (et_id ([e] ! 0)) (take (0 + 1) [e]))
        \<and> br_shared_entry_count receipt = 0 + 1
        \<and> unfinished_operations (du_restored s) = [] \<and> discard_staged_branch s = Inr ()"
    using branch_shares_the_prefix [OF src(1,2), of 0 20 9 True] by (simp del: nth_Cons_0)
  then show ?thesis
    using src(1,2) by (intro exI [of _ summary] exI [of _ st] exI [of _ "[e]"])
      (auto simp: writer_for_def split: sum.splits prod.splits)
qed

end
