(* ===== verification/Tool_Registry.thy ===== *)
theory Tool_Registry
  imports Conversation_Data
begin

text \<open>
  Tools and their invocation (\<open>src/src/tool.rs\<close>): the registry of definitions and
  implementations, the planning of a call, the invocation with its authorization, the authority an
  execution is given, and the bounded supervisor of deferred cleanups. What a tool plans, decides and
  outputs is the tool's own; an invocation leaves a log of what it asked and executed.
\<close>

section \<open>Definitions and plans\<close>

record tool_definition =
  tn_name :: rust_string
  tn_contract_version :: nat
  tn_description :: rust_string
  tn_parameters :: json
  tn_effect :: effect_class
  tn_replay_safety :: replay_safety

record planning_error =
  pl_message :: rust_string
  pl_failure :: "tool_failure option"

record owner_turn_input =
  oi_operation :: uuid
  oi_source :: uuid
  oi_text :: rust_string

record planned_invocation =
  pn_arguments :: json
  pn_scope :: permission_scope
  pn_review :: "approval_request option"

definition new_planned :: "json \<Rightarrow> permission_scope \<Rightarrow> planned_invocation" where
  "new_planned arguments scope = \<lparr>pn_arguments = arguments, pn_scope = scope, pn_review = None\<rparr>"

definition with_outbound_review :: "approval_request \<Rightarrow> planned_invocation \<Rightarrow> planned_invocation" where
  "with_outbound_review review p = p\<lparr>pn_review := Some review\<rparr>"

record execution_context =
  xe_operation :: uuid
  xe_approval :: "reviewed_approval option"

text \<open>The trait \<open>Tool\<close>: planning, the saved outbound decision, and execution.\<close>

record tool_implementation =
  ti_definition :: tool_definition
  ti_plan :: "json \<Rightarrow> path \<Rightarrow> owner_turn_input option \<Rightarrow> planning_error + planned_invocation"
  ti_disposition :: "planned_invocation \<Rightarrow> rust_string + disposition option"
  ti_execute :: "planned_invocation \<Rightarrow> execution_context \<Rightarrow> rust_string + rust_string"

record registered_tool =
  rt_definition :: tool_definition
  rt_implementation :: tool_implementation
  rt_advertised :: bool

record tool_registry =
  tg_tools :: "registered_tool list"
  tg_unavailable :: "(rust_string, rust_string) btree"

definition new_registry :: tool_registry where
  "new_registry = \<lparr>tg_tools = [], tg_unavailable = []\<rparr>"

section \<open>The registry\<close>

datatype registry_error = DuplicateName rust_string | Composition rust_string

definition find_tool :: "tool_registry \<Rightarrow> rust_string \<Rightarrow> registered_tool option" where
  "find_tool g name = find (\<lambda>t. tn_name (rt_definition t) = name) (tg_tools g)"

definition tool_definition_of :: "tool_registry \<Rightarrow> rust_string \<Rightarrow> tool_definition option" where
  "tool_definition_of g name = map_option rt_definition (find_tool g name)"

definition tool_definitions :: "tool_registry \<Rightarrow> tool_definition list" where
  "tool_definitions g = map rt_definition (filter rt_advertised (tg_tools g))"

definition register_boxed :: "tool_implementation \<Rightarrow> (tool_registry, registry_error, unit) effect" where
  "register_boxed tool g =
     (let d = ti_definition tool in
      if tool_definition_of g (tn_name d) \<noteq> None \<or> bt_contains (tg_unavailable g) (tn_name d)
      then (g, Inl (DuplicateName (tn_name d)))
      else (g\<lparr>tg_tools := tg_tools g
          @ [\<lparr>rt_definition = d, rt_implementation = tool, rt_advertised = True\<rparr>]\<rparr>, Inr ()))"

definition register_legacy :: "tool_implementation \<Rightarrow> (tool_registry, registry_error, unit) effect" where
  "register_legacy tool =
     eff_bind (register_boxed tool)
       (\<lambda>_ g. (g\<lparr>tg_tools := butlast (tg_tools g) @ [(last (tg_tools g))\<lparr>rt_advertised := False\<rparr>]\<rparr>, Inr ()))"

definition register_unavailable ::
  "rust_string \<Rightarrow> rust_string \<Rightarrow> (tool_registry, registry_error, unit) effect" where
  "register_unavailable name reason g =
     (if tool_definition_of g name \<noteq> None \<or> bt_contains (tg_unavailable g) name
      then (g, Inl (DuplicateName name))
      else (g\<lparr>tg_unavailable := bt_insert name reason (tg_unavailable g)\<rparr>, Inr ()))"

definition map_implementations ::
  "(tool_implementation \<Rightarrow> tool_implementation) \<Rightarrow> tool_registry \<Rightarrow> tool_registry" where
  "map_implementations decorate g =
     g\<lparr>tg_tools := map (\<lambda>t. t\<lparr>rt_implementation := decorate (rt_implementation t)\<rparr>) (tg_tools g)\<rparr>"

section \<open>Quoted text\<close>

text \<open>
  The \<open>Debug\<close> form of a string, \<open>{:?}\<close>. \<open>graphic\<close> tells which characters are printed as they are:
  the printable ones of Unicode that extend no grapheme.
\<close>

fun hexadecimal :: "nat \<Rightarrow> rust_string" where
  "hexadecimal n =
     (let digit = (\<lambda>d. if d < 10 then 48 + d else 87 + d) in
      if n < 16 then [digit n] else hexadecimal (n div 16) @ [digit (n mod 16)])"

declare hexadecimal.simps [simp del]

definition debug_char :: "(nat \<Rightarrow> bool) \<Rightarrow> nat \<Rightarrow> rust_string" where
  "debug_char graphic c =
     (if c = 0 then [92, 48] else if c = 9 then [92, 116] else if c = 10 then [92, 110]
      else if c = 13 then [92, 114] else if c = 34 \<or> c = 92 then [92, c]
      else if graphic c then [c] else [92, 117, 123] @ hexadecimal c @ [125])"

definition debug_text :: "(nat \<Rightarrow> bool) \<Rightarrow> rust_string \<Rightarrow> rust_string" where
  "debug_text graphic s = [34] @ concat (map (debug_char graphic) s) @ [34]"

section \<open>Planning a call\<close>

record prepared_invocation =
  pi_call :: rust_string
  pi_definition :: tool_definition
  pi_implementation :: tool_implementation
  pi_planned :: planned_invocation

definition plan_in_turn ::
  "(nat \<Rightarrow> bool) \<Rightarrow> tool_registry \<Rightarrow> tool_call \<Rightarrow> path \<Rightarrow> owner_turn_input option
    \<Rightarrow> tool_result + prepared_invocation"
where
  "plan_in_turn graphic g call workspace owner =
     (case bt_get (tg_unavailable g) (tc_name call) of
        Some reason \<Rightarrow> Inl (unavailable_result (tc_id call) reason)
      | None \<Rightarrow>
          (case find_tool g (tc_name call) of
             None \<Rightarrow> Inl (error_result (tc_id call) (rstr ''unknown tool '' @ debug_text graphic (tc_name call)))
           | Some t \<Rightarrow>
               (case ti_plan (rt_implementation t) (tc_arguments call) workspace owner of
                  Inl e \<Rightarrow> Inl ((error_result (tc_id call) (pl_message e))\<lparr>tr_failure := pl_failure e\<rparr>)
                | Inr planned \<Rightarrow> Inr \<lparr>pi_call = tc_id call, pi_definition = rt_definition t,
                    pi_implementation = rt_implementation t, pi_planned = planned\<rparr>)))"

definition plan_call ::
  "(nat \<Rightarrow> bool) \<Rightarrow> tool_registry \<Rightarrow> tool_call \<Rightarrow> path \<Rightarrow> tool_result + prepared_invocation" where
  "plan_call graphic g call workspace = plan_in_turn graphic g call workspace None"

definition permission_request_of :: "prepared_invocation \<Rightarrow> uuid \<Rightarrow> uuid \<Rightarrow> permission_request" where
  "permission_request_of p operation invocation =
     \<lparr>rq_operation = operation, rq_invocation = invocation, rq_tool = tn_name (pi_definition p),
      rq_effect = tn_effect (pi_definition p), rq_arguments = pn_arguments (pi_planned p),
      rq_scope = pn_scope (pi_planned p),
      rq_outbound = map_option (\<lambda>review. for_operation review operation) (pn_review (pi_planned p))\<rparr>"

section \<open>Invocation\<close>

fun is_external :: "permission_scope \<Rightarrow> bool" where
  "is_external (ExternalScope r i) = True"
| "is_external _ = False"

text \<open>The approval that an authorization carries to the outbound guard of the tool.\<close>

definition approval_of :: "audit_fact \<Rightarrow> approval_decision option" where
  "approval_of f =
     (case af_controller f of
        Some AllowWebTurn \<Rightarrow> Some AllowPublicWebTurn
      | Some SaveOutboundAllow \<Rightarrow> Some SaveAllow
      | Some SaveOutboundDeny \<Rightarrow> Some SaveDeny
      | Some AllowRequestOnce \<Rightarrow> Some AllowOnce
      | Some (AllowSession s) \<Rightarrow> Some AllowOnce
      | Some DenyRequest \<Rightarrow> None
      | None \<Rightarrow> (if af_policy f = Ask then Some AllowOnce else None))"

definition authorized_context :: "uuid \<Rightarrow> authorization \<Rightarrow> execution_context" where
  "authorized_context operation a =
     \<lparr>xe_operation = operation,
      xe_approval = (case a of
        AuthAllowed f \<Rightarrow>
          if is_external (rq_scope (af_request f))
          then (case (approval_of f, rq_outbound (af_request f)) of
            (Some d, Some review) \<Rightarrow> Some (new_reviewed review d) | _ \<Rightarrow> None)
          else None
      | AuthDenied f \<Rightarrow> None)\<rparr>"

datatype tool_event = Asked permission_request | Executed prepared_invocation execution_context

text \<open>
  What surrounds an invocation: the workspace, the identifiers, the answer of the permission broker to
  a request, and the reading of the status that a command's output carries.
\<close>

record tool_context =
  tx_workspace :: path
  tx_operation :: uuid
  tx_invocation :: uuid
  tx_authorize :: "permission_request \<Rightarrow> rust_string + authorization"
  tx_observed_status :: "rust_string \<Rightarrow> command_status option"
  tx_graphic :: "nat \<Rightarrow> bool"

definition command_status_of :: "tool_context \<Rightarrow> rust_string \<Rightarrow> rust_string \<Rightarrow> command_status option" where
  "command_status_of cx name output =
     (if name = rstr ''run_command'' then tx_observed_status cx output else None)"

definition saved_outbound ::
  "prepared_invocation \<Rightarrow> rust_string + disposition option" where
  "saved_outbound p =
     (if is_external (pn_scope (pi_planned p)) then
        if pn_review (pi_planned p) = None
        then Inl (rstr ''external tool is missing Xana's exact outbound review'')
        else (case ti_disposition (pi_implementation p) (pi_planned p) of
            Inr (Some d) \<Rightarrow> Inr (Some d)
          | Inr None \<Rightarrow> Inl (rstr ''external tool is missing Xana's outbound authorization preflight'')
          | Inl e \<Rightarrow> Inl e)
      else Inr None)"

definition invoke_saved ::
  "tool_call \<Rightarrow> tool_context \<Rightarrow> prepared_invocation \<Rightarrow> tool_event list \<times> tool_result" where
  "invoke_saved call cx p =
     (let x = \<lparr>xe_operation = tx_operation cx, xe_approval = None\<rparr> in
      ([Executed p x],
       case ti_execute (pi_implementation p) (pi_planned p) x of
         Inr output \<Rightarrow> success_result (tc_id call) output
       | Inl e \<Rightarrow> error_result (tc_id call) e))"

definition invoke_authorized ::
  "tool_call \<Rightarrow> tool_context \<Rightarrow> prepared_invocation \<Rightarrow> tool_event list \<times> tool_result" where
  "invoke_authorized call cx p =
     (let request = permission_request_of p (tx_operation cx) (tx_invocation cx) in
      case tx_authorize cx request of
        Inl e \<Rightarrow> ([Asked request], error_result (tc_id call) e)
      | Inr (AuthDenied f) \<Rightarrow> ([Asked request],
          denied_result (tc_id call) (rstr ''permission denied for tool '' @ debug_text (tx_graphic cx) (tc_name call)))
      | Inr (AuthAllowed f) \<Rightarrow>
          (let x = authorized_context (tx_operation cx) (AuthAllowed f) in
           ([Asked request, Executed p x],
            case ti_execute (pi_implementation p) (pi_planned p) x of
              Inr output \<Rightarrow> (success_result (tc_id call) output)
                \<lparr>tr_command_status := command_status_of cx (tc_name call) output\<rparr>
            | Inl e \<Rightarrow> error_result (tc_id call) e)))"

definition invoke_in_turn ::
  "tool_registry \<Rightarrow> tool_call \<Rightarrow> tool_context \<Rightarrow> owner_turn_input option \<Rightarrow> tool_event list \<times> tool_result"
where
  "invoke_in_turn g call cx owner =
     (if (case owner of None \<Rightarrow> False | Some input \<Rightarrow> oi_operation input \<noteq> tx_operation cx)
      then ([], error_result (tc_id call) (rstr ''owner input belongs to another operation''))
      else case plan_in_turn (tx_graphic cx) g call (tx_workspace cx) owner of
        Inl result \<Rightarrow> ([], result)
      | Inr p \<Rightarrow>
          (case saved_outbound p of
             Inl e \<Rightarrow> ([], error_result (tc_id call) e)
           | Inr saved \<Rightarrow>
               if saved \<in> {Some DispSavedAllow, Some DispSavedDeny} then invoke_saved call cx p
               else invoke_authorized call cx p))"

definition invoke :: "tool_registry \<Rightarrow> tool_call \<Rightarrow> tool_context \<Rightarrow> tool_event list \<times> tool_result" where
  "invoke g call cx = invoke_in_turn g call cx None"

section \<open>Deferred cleanups\<close>

definition MAX_DEFERRED_CLEANUPS :: nat where "MAX_DEFERRED_CLEANUPS = 16"

record cleanup_state =
  cl_accepting :: bool
  cl_active :: nat

definition new_cleanup :: cleanup_state where
  "new_cleanup = \<lparr>cl_accepting = True, cl_active = 0\<rparr>"

definition schedule_cleanup :: "cleanup_state \<Rightarrow> cleanup_state \<times> bool" where
  "schedule_cleanup s =
     (if \<not> cl_accepting s \<or> cl_active s \<ge> MAX_DEFERRED_CLEANUPS then (s, False)
      else (s\<lparr>cl_active := cl_active s + 1\<rparr>, True))"

definition drop_slot :: "cleanup_state \<Rightarrow> cleanup_state" where
  "drop_slot s = s\<lparr>cl_active := cl_active s - 1\<rparr>"

definition drain_cleanup :: "cleanup_state \<Rightarrow> cleanup_state" where
  "drain_cleanup s = s\<lparr>cl_accepting := False\<rparr>"

section \<open>The registry keeps names apart\<close>

abbreviation tool_name :: "registered_tool \<Rightarrow> rust_string" where
  "tool_name t \<equiv> tn_name (rt_definition t)"

definition registry_ok :: "tool_registry \<Rightarrow> bool" where
  "registry_ok g =
     (distinct (map tool_name (tg_tools g))
      \<and> (\<forall>t \<in> set (tg_tools g). \<not> bt_contains (tg_unavailable g) (tool_name t)))"

datatype registry_op =
  RegisterTool tool_implementation | RegisterLegacy tool_implementation
| RegisterUnavailable rust_string rust_string | Decorate "tool_implementation \<Rightarrow> tool_implementation"

fun registry_step :: "tool_registry \<Rightarrow> registry_op \<Rightarrow> tool_registry" where
  "registry_step g (RegisterTool t) = fst (register_boxed t g)"
| "registry_step g (RegisterLegacy t) = fst (register_legacy t g)"
| "registry_step g (RegisterUnavailable n reason) = fst (register_unavailable n reason g)"
| "registry_step g (Decorate f) = map_implementations f g"

lemma find_tool_None: "find_tool g name = None \<longleftrightarrow> name \<notin> tool_name ` set (tg_tools g)"
  by (auto simp: find_tool_def find_None_iff)

lemma find_tool_Some: "find_tool g name = Some t \<Longrightarrow> t \<in> set (tg_tools g) \<and> tool_name t = name"
  by (auto simp: find_tool_def find_Some_iff)

lemma register_boxed_ok:
  assumes "registry_ok g"
  shows "registry_ok (fst (register_boxed t g))"
proof (cases "tool_definition_of g (tn_name (ti_definition t)) \<noteq> None
    \<or> bt_contains (tg_unavailable g) (tn_name (ti_definition t))")
  case False
  then have "tn_name (ti_definition t) \<notin> tool_name ` set (tg_tools g)"
    by (simp add: tool_definition_of_def find_tool_None)
  then show ?thesis using assms False by (simp add: register_boxed_def Let_def registry_ok_def)
qed (use assms in \<open>auto simp: register_boxed_def Let_def\<close>)

lemma registry_ok_legacy:
  assumes "registry_ok g" and "tg_tools g \<noteq> []"
  shows "registry_ok (g\<lparr>tg_tools := butlast (tg_tools g) @ [(last (tg_tools g))\<lparr>rt_advertised := False\<rparr>]\<rparr>)"
proof -
  obtain ts t where ts: "tg_tools g = ts @ [t]" using assms(2) by (metis append_butlast_last_id)
  then show ?thesis using assms(1) by (simp add: registry_ok_def)
qed

interpretation registry: machine registry_step registry_ok
proof unfold_locales
  fix g op
  assume ok: "registry_ok g"
  show "registry_ok (registry_step g op)"
  proof (cases op)
    case (RegisterTool t)
    then show ?thesis using register_boxed_ok [OF ok] by simp
  next
    case (RegisterLegacy t)
    show ?thesis
    proof (cases "register_boxed t g")
      case (Pair g' r)
      then have "registry_ok g'" using register_boxed_ok [OF ok, of t] by simp
      moreover have "r = Inr () \<Longrightarrow> tg_tools g' \<noteq> []"
        using Pair by (auto simp: register_boxed_def Let_def split: if_splits)
      ultimately show ?thesis
        using Pair registry_ok_legacy RegisterLegacy
        by (cases r) (simp_all add: register_legacy_def eff_bind_def)
    qed
  next
    case (RegisterUnavailable n reason)
    show ?thesis
    proof (cases "tool_definition_of g n \<noteq> None \<or> bt_contains (tg_unavailable g) n")
      case False
      then have "n \<notin> tool_name ` set (tg_tools g)" by (simp add: tool_definition_of_def find_tool_None)
      then have "\<forall>t \<in> set (tg_tools g). tool_name t \<noteq> n" by (metis imageI)
      then show ?thesis
        using ok False RegisterUnavailable
        by (simp add: register_unavailable_def registry_ok_def bt_contains_def bt_get_insert)
    qed (use ok RegisterUnavailable in \<open>auto simp: register_unavailable_def\<close>)
  next
    case (Decorate f)
    then show ?thesis using ok by (simp add: map_implementations_def registry_ok_def comp_def)
  qed
qed

text \<open>A registered tool is planned by its own implementation, whatever was registered besides.\<close>

lemma registered_tool_planned:
  assumes "registry_ok g" and "t \<in> set (tg_tools g)" and "tc_name call = tool_name t"
    and "ti_plan (rt_implementation t) (tc_arguments call) workspace owner = Inr planned"
  shows "plan_in_turn graphic g call workspace owner = Inr \<lparr>pi_call = tc_id call, pi_definition = rt_definition t,
    pi_implementation = rt_implementation t, pi_planned = planned\<rparr>"
proof -
  have "find_tool g (tool_name t) = Some t"
    using assms(1,2) find_distinct [of tool_name "tg_tools g" t] by (simp add: registry_ok_def find_tool_def)
  moreover have "bt_get (tg_unavailable g) (tool_name t) = None"
    using assms(1,2) by (auto simp: registry_ok_def bt_contains_def)
  ultimately show ?thesis using assms(3,4) by (simp add: plan_in_turn_def)
qed

section \<open>What is executed\<close>

lemma executed_cases:
  assumes "invoke_in_turn g call cx owner = (events, result)" and "Executed p x \<in> set events"
  obtains (authorized) f where "plan_in_turn (tx_graphic cx) g call (tx_workspace cx) owner = Inr p"
      and "events = [Asked (permission_request_of p (tx_operation cx) (tx_invocation cx)), Executed p x]"
      and "tx_authorize cx (permission_request_of p (tx_operation cx) (tx_invocation cx)) = Inr (AuthAllowed f)"
      and "x = authorized_context (tx_operation cx) (AuthAllowed f)"
    | (remembered) "plan_in_turn (tx_graphic cx) g call (tx_workspace cx) owner = Inr p"
      and "events = [Executed p x]" and "x = \<lparr>xe_operation = tx_operation cx, xe_approval = None\<rparr>"
      and "saved_outbound p \<in> {Inr (Some DispSavedAllow), Inr (Some DispSavedDeny)}"
proof -
  obtain q saved where q: "plan_in_turn (tx_graphic cx) g call (tx_workspace cx) owner = Inr q" "saved_outbound q = Inr saved"
    and run: "(events, result) = (if saved \<in> {Some DispSavedAllow, Some DispSavedDeny}
      then invoke_saved call cx q else invoke_authorized call cx q)"
    using assms by (auto simp: invoke_in_turn_def split: if_splits sum.splits)
  show thesis
  proof (cases "saved \<in> {Some DispSavedAllow, Some DispSavedDeny}")
    case True
    then show thesis using remembered q run assms(2) by (auto simp: invoke_saved_def Let_def)
  next
    case False
    then show thesis using authorized q run assms(2)
      by (auto simp: invoke_authorized_def Let_def split: sum.splits authorization.splits)
  qed
qed

lemma planned_registered:
  assumes "plan_in_turn graphic g call workspace owner = Inr p"
  shows "\<exists>t \<in> set (tg_tools g). tool_name t = tc_name call \<and> pi_definition p = rt_definition t
    \<and> ti_plan (rt_implementation t) (tc_arguments call) workspace owner = Inr (pi_planned p)"
  using assms by (auto simp: plan_in_turn_def split: option.splits sum.splits dest!: find_tool_Some)

text \<open>C3: a call executes a tool at most once, with the arguments and the scope that were planned for it
  in this workspace; and either after the permission broker allowed exactly that request, under
  the approval it carries, or, for an external tool whose recipient has a saved decision, without any
  approval of its own, so that only the saved decision can let data out.\<close>

theorem tool_runs_only_as_authorized:
  assumes "invoke_in_turn g call cx owner = (events, result)" and "Executed p x \<in> set events"
  shows "plan_in_turn (tx_graphic cx) g call (tx_workspace cx) owner = Inr p
    \<and> (\<exists>t \<in> set (tg_tools g). tool_name t = tc_name call \<and> pi_definition p = rt_definition t
        \<and> ti_plan (rt_implementation t) (tc_arguments call) (tx_workspace cx) owner = Inr (pi_planned p))
    \<and> xe_operation x = tx_operation cx
    \<and> ((\<exists>f. events = [Asked (permission_request_of p (tx_operation cx) (tx_invocation cx)), Executed p x]
          \<and> tx_authorize cx (permission_request_of p (tx_operation cx) (tx_invocation cx)) = Inr (AuthAllowed f)
          \<and> x = authorized_context (tx_operation cx) (AuthAllowed f))
      \<or> events = [Executed p x] \<and> xe_approval x = None \<and> is_external (pn_scope (pi_planned p))
          \<and> ti_disposition (pi_implementation p) (pi_planned p) \<in> {Inr (Some DispSavedAllow), Inr (Some DispSavedDeny)})"
  using assms
proof (cases rule: executed_cases)
  case (authorized f)
  then show ?thesis using planned_registered by (auto simp: authorized_context_def)
next
  case remembered
  then show ?thesis using planned_registered
    by (auto simp: saved_outbound_def split: if_splits sum.splits option.splits)
qed

lemma authorized_approval:
  assumes "xe_approval (authorized_context operation (AuthAllowed f)) = Some a"
  shows "is_external (rq_scope (af_request f))
    \<and> (\<exists>d review. approval_of f = Some d \<and> rq_outbound (af_request f) = Some review \<and> a = new_reviewed review d)"
  using assms by (auto simp: authorized_context_def split: if_splits option.splits)

text \<open>C4: data that an executed tool hands to the outbound guard leaves only if it is what the broker was
  asked about: this tool's review, for this operation, with the very recipient, purpose,
  classes, items and digests, and allowed by the answer. Otherwise saved decisions allow every class
  for the recipient.\<close>

theorem tool_sends_only_what_was_reviewed:
  assumes run: "invoke_in_turn g call cx owner = (events, result)" "Executed p x \<in> set events"
    and broker: "\<And>q f. tx_authorize cx q = Inr (AuthAllowed f) \<Longrightarrow> af_request f = q"
    and sends: "dispatch env request policy w = (w', res)" "sent w' \<noteq> sent w"
    and controller: "env_controller env = map_option reviewed_decide (xe_approval x)"
  shows "disposition_of (decisions w) (or_recipient request) (map oi_class (or_items request)) = DispSavedAllow
    \<or> (\<exists>review f. pn_review (pi_planned p) = Some review \<and> is_external (pn_scope (pi_planned p))
        \<and> review_of request = (for_operation review (tx_operation cx))\<lparr>ar_public_web := None\<rparr>
        \<and> tx_authorize cx (permission_request_of p (tx_operation cx) (tx_invocation cx)) = Inr (AuthAllowed f)
        \<and> approval_of f \<in> {Some AllowOnce, Some AllowPublicWebTurn, Some SaveAllow})"
proof -
  have may: "may_send env (review_of request)
      (saved_for (decisions w) (or_recipient request) (request_classes request))"
    using dispatch_cases(1) [OF sends(1)] sends(2) by blast
  show ?thesis
  proof (cases "xe_approval x")
    case None
    then show ?thesis
      using may controller by (auto simp: may_send_def disposition_of_def request_classes_def Let_def)
  next
    case (Some a)
    let ?q = "permission_request_of p (tx_operation cx) (tx_invocation cx)"
    obtain f where f: "tx_authorize cx ?q = Inr (AuthAllowed f)" "x = authorized_context (tx_operation cx) (AuthAllowed f)"
      using run by (cases rule: executed_cases) (use Some in auto)
    obtain d review where d: "is_external (rq_scope ?q)" "approval_of f = Some d"
        "rq_outbound ?q = Some review" "a = new_reviewed review d"
      using authorized_approval [of "tx_operation cx" f a] Some f broker [OF f(1)] by auto
    have "reviewed_decide a (review_of request) \<in> {AllowOnce, AllowPublicWebTurn, SaveAllow}"
      using may controller Some by (auto simp: may_send_def allows_def)
    then have "review\<lparr>ar_public_web := None\<rparr> = review_of request" "d \<in> {AllowOnce, AllowPublicWebTurn, SaveAllow}"
      using d(4) by (auto simp: reviewed_decide_def new_reviewed_def split: if_splits)
    then show ?thesis using d f(1) by (auto simp: permission_request_of_def)
  qed
qed

section \<open>Witnesses\<close>

definition web_tool :: tool_definition where
  "web_tool = \<lparr>tn_name = rstr ''fetch'', tn_contract_version = 1, tn_description = [], tn_parameters = JNull,
     tn_effect = Network, tn_replay_safety = ReplayNever\<rparr>"

definition web_implementation :: tool_implementation where
  "web_implementation = \<lparr>ti_definition = web_tool,
     ti_plan = (\<lambda>a w u. Inr (with_outbound_review (review_of sample_request) (new_planned a (ExternalScope [99] [102])))),
     ti_disposition = (\<lambda>p. Inr (Some ReviewRequired)), ti_execute = (\<lambda>p x. Inr [])\<rparr>"

definition web_registry :: tool_registry where
  "web_registry = fst (register_boxed web_implementation new_registry)"

definition web_call :: tool_call where
  "web_call = \<lparr>tc_id = [99], tc_name = rstr ''fetch'', tc_arguments = JNull\<rparr>"

definition web_prepared :: prepared_invocation where
  "web_prepared = \<lparr>pi_call = [99], pi_definition = web_tool, pi_implementation = web_implementation,
     pi_planned = with_outbound_review (review_of sample_request) (new_planned JNull (ExternalScope [99] [102]))\<rparr>"

definition allowed_once :: "permission_request \<Rightarrow> audit_fact" where
  "allowed_once q = \<lparr>af_request = q, af_policy = Ask, af_controller = Some AllowRequestOnce, af_effective = Allow\<rparr>"

definition web_context :: tool_context where
  "web_context = \<lparr>tx_workspace = [], tx_operation = 1, tx_invocation = 2,
     tx_authorize = (\<lambda>q. Inr (AuthAllowed (allowed_once q))), tx_observed_status = (\<lambda>s. None),
     tx_graphic = (\<lambda>c. True)\<rparr>"

lemma web_invoked:
  "invoke_in_turn web_registry web_call web_context None
     = ([Asked (permission_request_of web_prepared 1 2),
         Executed web_prepared (authorized_context 1 (AuthAllowed (allowed_once (permission_request_of web_prepared 1 2))))],
        success_result [99] [])"
proof -
  have "find_tool web_registry (rstr ''fetch'')
      = Some \<lparr>rt_definition = web_tool, rt_implementation = web_implementation, rt_advertised = True\<rparr>"
    by (simp add: find_tool_def web_registry_def register_boxed_def new_registry_def tool_definition_of_def
        web_implementation_def web_tool_def bt_contains_def bt_get_def)
  then have "plan_in_turn g web_registry web_call [] None = Inr web_prepared" for g
    by (simp add: plan_in_turn_def web_call_def web_prepared_def web_registry_def register_boxed_def
        new_registry_def tool_definition_of_def find_tool_def web_implementation_def web_tool_def bt_contains_def bt_get_def)
  then show ?thesis
    by (simp add: invoke_in_turn_def invoke_authorized_def Let_def web_context_def saved_outbound_def web_prepared_def
        web_implementation_def web_call_def new_planned_def with_outbound_review_def command_status_of_def success_result_def)
qed

theorem tool_runs_only_as_authorized_witness:
  "\<exists>events result p x. invoke_in_turn web_registry web_call web_context None = (events, result)
     \<and> Executed p x \<in> set events \<and> plan_in_turn (\<lambda>c. True) web_registry web_call [] None = Inr p
     \<and> xe_operation x = 1"
proof -
  let ?q = "permission_request_of web_prepared 1 2"
  let ?x = "authorized_context 1 (AuthAllowed (allowed_once ?q))"
  have "Executed web_prepared ?x \<in> set [Asked ?q, Executed web_prepared ?x]" by simp
  note ran = tool_runs_only_as_authorized [OF web_invoked this]
  then have "plan_in_turn (tx_graphic web_context) web_registry web_call (tx_workspace web_context) None = Inr web_prepared"
    and "xe_operation ?x = tx_operation web_context" by blast+
  then show ?thesis
    using web_invoked by (intro exI [of _ web_prepared] exI) (auto simp: web_context_def)
qed

theorem tool_sends_only_what_was_reviewed_witness:
  "\<exists>w' res. dispatch ((sample_env Cancel)\<lparr>env_controller := map_option reviewed_decide (xe_approval
        (authorized_context 1 (AuthAllowed (allowed_once (permission_request_of web_prepared 1 2)))))\<rparr>)
       sample_request sample_layers sample_world = (w', res)
     \<and> sent w' = [(or_recipient sample_request, or_items sample_request)]
     \<and> pn_review (pi_planned web_prepared) = Some (review_of sample_request)"
proof -
  let ?q = "permission_request_of web_prepared 1 2"
  let ?x = "authorized_context 1 (AuthAllowed (allowed_once ?q))"
  let ?env = "(sample_env Cancel)\<lparr>env_controller := map_option reviewed_decide (xe_approval ?x)\<rparr>"
  obtain w' res where d: "dispatch ?env sample_request sample_layers sample_world = (w', res)" by fastforce
  have "xe_approval ?x = Some (new_reviewed (for_operation (review_of sample_request) 1) AllowOnce)"
    by (simp add: authorized_context_def allowed_once_def permission_request_of_def web_prepared_def new_planned_def
        with_outbound_review_def approval_of_def)
  moreover have "(for_operation (review_of sample_request) 1)\<lparr>ar_public_web := None\<rparr> = review_of sample_request"
    by (simp add: for_operation_def review_of_def sample_request_def)
  ultimately have "map_option reviewed_decide (xe_approval ?x)
      = Some (\<lambda>r. if review_of sample_request = r then AllowOnce else DenyOnce)"
    by (auto simp: new_reviewed_def reviewed_decide_def)
  then have sent: "sent w' = [(or_recipient sample_request, or_items sample_request)]"
    using d by (auto simp: dispatch_run)
  have broker: "tx_authorize web_context q = Inr (AuthAllowed f) \<Longrightarrow> af_request f = q" for q f
    by (auto simp: web_context_def allowed_once_def)
  have "sent w' \<noteq> sent sample_world" using sent by (simp add: sample_world_def)
  from tool_sends_only_what_was_reviewed [OF web_invoked _ broker d this, of web_prepared ?x]
  have "disposition_of (decisions sample_world) (or_recipient sample_request) (map oi_class (or_items sample_request))
      = DispSavedAllow \<or> (\<exists>review. pn_review (pi_planned web_prepared) = Some review
        \<and> review_of sample_request = (for_operation review 1)\<lparr>ar_public_web := None\<rparr>)"
    by (auto simp: web_context_def)
  then show ?thesis
    using d sent by (auto simp: web_prepared_def with_outbound_review_def)
qed

end
