(* ===== verification/Operation_Executor.thy ===== *)
theory Operation_Executor
  imports Session_Branch Tool_Registry
begin

text \<open>
  The durable execution of tool calls (\<open>src/src/operation.rs\<close>, \<open>src/src/operation/output.rs\<close>): the
  permission audit and the intent are committed to the session before the tool runs, its result
  afterwards. Commits go through the single writer of the session (\<open>native_runtime.rs\<close> appends
  what it is sent and acknowledges). A process may stop at any commit, whose write fails, or at any
  of the boundaries that the source names.
\<close>

section \<open>World and boundaries\<close>

datatype crash_site =
  AfterOperationAccepted | AfterStepStarted | AfterPermissionAudit | AfterInvocationIntent
| AfterEffectBeforeResult | AfterInvocationResult | AfterConversationResult | AfterRoundBudgetDecision

datatype execution_error =
  CommitFailed writer_error | AuthorizationFailed rust_string | StoppedAt crash_site
| InvalidContract rust_string | ForeignOwnerInput | OperationMissing | RecoveryAlreadyFinished
| MissingIntentIndex uuid | MissingIntent | ReplayNotATool | ReplayPlanFailed rust_string

text \<open>The session and every execution of a tool so far: its invocation, its plan and its authority.\<close>

type_synonym tool_execution = "uuid \<times> prepared_invocation \<times> execution_context"

record op_world =
  ow_session :: durable_session
  ow_effects :: "tool_execution list"

type_synonym 'a run = "(op_world, execution_error, 'a) effect"

text \<open>
  What surrounds an execution: the writer, the registry of the process, the workspace, the answer of
  the permission broker, the boundaries that are passed, the turn's owner input, the reading of a
  command's status, the JSON form of an artifact reference, the text of an identifier and
  the characters that are quoted as they are.
\<close>

record executor =
  xo_env :: writer_env
  xo_registry :: tool_registry
  xo_workspace :: path
  xo_authorize :: "permission_request \<Rightarrow> rust_string + authorization"
  xo_reached :: "crash_site \<Rightarrow> bool"
  xo_owner :: "owner_turn_input option"
  xo_observed_status :: "rust_string \<Rightarrow> command_status option"
  xo_artifact_json :: "artifact_ref \<Rightarrow> json"
  xo_show_id :: "uuid \<Rightarrow> rust_string"
  xo_graphic :: "nat \<Rightarrow> bool"

definition commit_session :: "'a writing \<Rightarrow> 'a run" where
  "commit_session m w =
     (case m (ow_session w) of
        (s, Inl e) \<Rightarrow> (w\<lparr>ow_session := s\<rparr>, Inl (CommitFailed e))
      | (s, Inr x) \<Rightarrow> (w\<lparr>ow_session := s\<rparr>, Inr x))"

definition commit_record :: "executor \<Rightarrow> session_record \<Rightarrow> unit run" where
  "commit_record ex r = commit_session (append_record (xo_env ex) r)"

definition new_identifier :: "executor \<Rightarrow> uuid run" where
  "new_identifier ex = commit_session (eff_bind (draw (xo_env ex)) (\<lambda>n. eff_return (we_fresh (xo_env ex) n)))"

definition reached :: "executor \<Rightarrow> crash_site \<Rightarrow> unit run" where
  "reached ex site = (if xo_reached ex site then eff_return () else eff_fail (StoppedAt site))"

text \<open>Running the tool: the effect has happened, whatever becomes of its result.\<close>

definition run_tool ::
  "uuid \<Rightarrow> prepared_invocation \<Rightarrow> execution_context \<Rightarrow> (rust_string + rust_string) run" where
  "run_tool invocation p x w =
     (w\<lparr>ow_effects := ow_effects w @ [(invocation, p, x)]\<rparr>,
      Inr (ti_execute (pi_implementation p) (pi_planned p) x))"

section \<open>Outputs\<close>

definition MAX_PREVIEW_BYTES :: nat where "MAX_PREVIEW_BYTES = 4 * 1024"

definition for_model :: "executor \<Rightarrow> rust_string \<Rightarrow> durable_value_ref \<Rightarrow> rust_string" where
  "for_model ex output stored =
     (case stored of
        ArtifactValue reference \<Rightarrow>
          (let preview = floor_prefix (min (str_len output) MAX_PREVIEW_BYTES) output in
           cc_json_text (we_codec (xo_env ex)) (JObject
             [(rstr ''preview'', JString preview),
              (rstr ''preview_truncated'', JBool (str_len preview < str_len output)),
              (rstr ''complete_output_bytes'', JNumber (decimal (str_len output))),
              (rstr ''artifact'', xo_artifact_json ex reference),
              (rstr ''encoding'', JString (rstr ''JSON string'')),
              (rstr ''notice'', JString (rstr ''The complete output is retained in the immutable artifact, not in this preview. TUI /artifact ID and Desktop artifact actions inspect this reference. For more detail request a narrower read; do not repeat an action with side effects just to obtain its output.''))]))
      | _ \<Rightarrow> output)"

definition named_tool_output :: "uuid \<Rightarrow> (nat \<Rightarrow> rust_string) \<Rightarrow> invocation_intent \<Rightarrow> durable_value_ref \<Rightarrow> session_record" where
  "named_tool_output fresh shown n v =
     NamedValueSet \<lparr>nv_id = fresh, nv_operation = ii_operation n,
       nv_name = rstr ''tool_output:'' @ shown (ii_invocation n), nv_value = v\<rparr>"

definition commit_named_output :: "executor \<Rightarrow> invocation_intent \<Rightarrow> durable_value_ref \<Rightarrow> unit run" where
  "commit_named_output ex n v =
     eff_bind (new_identifier ex) (\<lambda>i. commit_record ex (named_tool_output i (xo_show_id ex) n v))"

section \<open>Invoking a tool\<close>

definition fact_of :: "authorization \<Rightarrow> audit_fact" where
  "fact_of a = (case a of AuthAllowed f \<Rightarrow> f | AuthDenied f \<Rightarrow> f)"

definition intent_of ::
  "prepared_invocation \<Rightarrow> uuid \<Rightarrow> uuid \<Rightarrow> uuid \<Rightarrow> uuid \<Rightarrow> audit_fact \<Rightarrow> invocation_intent" where
  "intent_of p operation step invocation result f =
     \<lparr>ii_operation = operation, ii_step = step, ii_invocation = invocation, ii_result = result,
      ii_model_call = pi_call p,
      ii_target = ToolTarget (tn_name (pi_definition p)) (tn_contract_version (pi_definition p)),
      ii_arguments = pn_arguments (pi_planned p), ii_permission = f,
      ii_replay_safety = tn_replay_safety (pi_definition p)\<rparr>"

definition denial_reason :: "executor \<Rightarrow> rust_string \<Rightarrow> rust_string" where
  "denial_reason ex name = rstr ''permission denied for tool '' @ debug_text (xo_graphic ex) name"

definition execute_authorized ::
  "executor \<Rightarrow> uuid \<Rightarrow> uuid \<Rightarrow> prepared_invocation \<Rightarrow> authorization \<Rightarrow> (tool_result \<times> invocation_outcome) run"
where
  "execute_authorized ex operation invocation p a =
     (case a of
        AuthDenied f \<Rightarrow>
          (let reason = denial_reason ex (tn_name (pi_definition p)) in
           eff_return (denied_result (pi_call p) reason, InvocationDeclined (bounded_diagnostic reason)))
      | AuthAllowed f \<Rightarrow>
          eff_bind (run_tool invocation p (authorized_context operation a))
          (\<lambda>execution. eff_bind (reached ex AfterEffectBeforeResult)
          (\<lambda>_. case execution of
             Inl e \<Rightarrow> eff_return (error_result (pi_call p) e, InvocationFailed (bounded_diagnostic e))
           | Inr output \<Rightarrow>
               eff_bind (commit_session (store_tool_output (xo_env ex) (JString output)))
               (\<lambda>(stored, artifact). eff_return
                 ((success_result (pi_call p) (for_model ex output stored))
                    \<lparr>tr_artifact := artifact,
                     tr_command_status := (if tn_name (pi_definition p) = rstr ''run_command''
                       then xo_observed_status ex output else None)\<rparr>,
                  InvocationCompleted stored)))))"

definition commit_outcome ::
  "executor \<Rightarrow> invocation_intent \<Rightarrow> uuid \<Rightarrow> command_status option \<Rightarrow> invocation_outcome \<Rightarrow> unit run" where
  "commit_outcome ex n result status outcome =
     eff_bind (commit_record ex (InvocationResultAppended
       \<lparr>ir_operation = ii_operation n, ir_invocation = ii_invocation n, ir_result = result,
        ir_outcome = outcome, ir_command_status = status\<rparr>))
     (\<lambda>_. case outcome of
        InvocationCompleted v \<Rightarrow> commit_named_output ex n v
      | _ \<Rightarrow> eff_return ())"

definition invoke_prepared ::
  "executor \<Rightarrow> uuid \<Rightarrow> uuid \<Rightarrow> uuid \<Rightarrow> prepared_invocation \<Rightarrow> authorization \<Rightarrow> tool_result run" where
  "invoke_prepared ex operation step invocation p a =
     eff_bind (commit_record ex (PermissionAudited (fact_of a)))
     (\<lambda>_. eff_bind (reached ex AfterPermissionAudit)
     (\<lambda>_. eff_bind (new_identifier ex)
     (\<lambda>result. let n = intent_of p operation step invocation result (fact_of a) in
        eff_bind (commit_record ex (InvocationIntentAppended n))
        (\<lambda>_. eff_bind (reached ex AfterInvocationIntent)
        (\<lambda>_. eff_bind (execute_authorized ex operation invocation p a)
        (\<lambda>(tool_result, outcome). eff_bind (commit_outcome ex n result (tr_command_status tool_result) outcome)
        (\<lambda>_. eff_bind (reached ex AfterInvocationResult)
        (\<lambda>_. eff_return tool_result))))))))"

definition invoke_tool :: "executor \<Rightarrow> uuid \<Rightarrow> uuid \<Rightarrow> uuid \<Rightarrow> tool_call \<Rightarrow> tool_result run" where
  "invoke_tool ex operation step invocation call =
     (if (case xo_owner ex of None \<Rightarrow> False | Some input \<Rightarrow> oi_operation input \<noteq> operation)
      then eff_fail ForeignOwnerInput
      else case plan_in_turn (xo_graphic ex) (xo_registry ex) call (xo_workspace ex) (xo_owner ex) of
        Inl result \<Rightarrow> eff_return result
      | Inr p \<Rightarrow>
          if tn_contract_version (pi_definition p) = 0
          then eff_fail (InvalidContract (tn_name (pi_definition p)))
          else case xo_authorize ex (permission_request_of p operation invocation) of
            Inl e \<Rightarrow> eff_fail (AuthorizationFailed e)
          | Inr a \<Rightarrow> invoke_prepared ex operation step invocation p a)"

section \<open>Intents persist\<close>

lemma recorded_intent:
  assumes "session_step codec st (InvocationIntentAppended n) st'"
  shows "n \<in> all_intents st'"
proof -
  have applied: "apply_validated (InvocationIntentAppended n) st = Some st'"
    using assms by (auto elim: session_stepE)
  from details_after [OF this] obtain d where
    "ss_details st' = bt_insert (ii_operation n) (operation_edit (InvocationIntentAppended n) d) (ss_details st)"
    by auto
  then have "bt_get (ss_details st') (ii_operation n) = Some (operation_edit (InvocationIntentAppended n) d)"
    by (simp add: bt_get_insert)
  moreover have "bt_get (op_intents (operation_edit (InvocationIntentAppended n) d)) (ii_invocation n) = Some n"
    by (simp add: bt_get_insert)
  ultimately show ?thesis unfolding all_intents_def by blast
qed

lemma edit_keeps_intents:
  assumes "validate_record codec st index pf session r = Inr ()" and "edited_operation r = Some i"
    and "bt_get (ss_details st) i = Some d" and "bt_get (op_intents d) k = Some n"
  shows "bt_get (op_intents (operation_edit r d)) k = Some n"
proof (cases "\<exists>m. r = InvocationIntentAppended m")
  case True
  then obtain m where r: "r = InvocationIntentAppended m" by blast
  then have "\<not> bt_contains (op_intents d) (ii_invocation m)"
    using assms(1) bt_get_in_set [OF assms(3)] by (auto simp: validate_intent_def res_simps list_ex_iff)
  then show ?thesis using assms(4) by (auto simp: r bt_get_insert bt_contains_def)
next
  case False
  then show ?thesis using assms(4) by (cases r) auto
qed

lemma intents_persist:
  assumes "operations_ok st" and "session_step codec st r st'"
  shows "all_intents st \<subseteq> all_intents st'"
  using assms(2)
proof cases
  case (validated index pf)
  note details = details_after [OF validated(3)]
  show ?thesis
  proof
    fix n
    assume "n \<in> all_intents st"
    then obtain i d k where d: "bt_get (ss_details st) i = Some d" "bt_get (op_intents d) k = Some n"
      by (auto simp: all_intents_def)
    have "\<exists>d'. bt_get (ss_details st') i = Some d' \<and> bt_get (op_intents d') k = Some n"
    proof (cases "edited_operation r")
      case None
      have "accepted_operation r = Some (j, x) \<Longrightarrow> bt_get (ss_details st) j = None" for j x
        using validated(2) by (cases r) (auto simp: validate_acceptance_def validate_adapter_acceptance_def
            validate_finite_acceptance_def bt_contains_def split: if_splits)
      then show ?thesis using details None d by (force simp: bt_get_insert split: option.splits prod.splits)
    next
      case (Some j)
      then obtain x where x: "bt_get (ss_details st) j = Some x"
        "ss_details st' = bt_insert j (operation_edit r x) (ss_details st)" using details by auto
      then show ?thesis using d edit_keeps_intents [OF validated(2) Some x(1)] by (auto simp: bt_get_insert)
    qed
    then show "n \<in> all_intents st'" unfolding all_intents_def by blast
  qed
qed

interpretation intents: journal_monotone codec identities_ok "\<lambda>st st'. all_intents st \<subseteq> all_intents st'" for codec
  by unfold_locales (auto simp: identities_ok_def dest: intents_persist)

lemma writer_identities: "writer_ok env s \<Longrightarrow> identities_ok (du_restored s)"
  using identities.reachable_inv [OF replay_reachable] by (auto simp: writer_ok_def)

section \<open>Triples\<close>

text \<open>A postcondition for the value, and one for the state that an error leaves.\<close>

definition triple ::
  "('s \<Rightarrow> bool) \<Rightarrow> ('s, 'e, 'a) effect \<Rightarrow> ('a \<Rightarrow> 's \<Rightarrow> bool) \<Rightarrow> ('s \<Rightarrow> bool) \<Rightarrow> bool" where
  "triple P m Q E = (\<forall>s. P s \<longrightarrow> (case m s of (s', Inr x) \<Rightarrow> Q x s' | (s', Inl e) \<Rightarrow> E s'))"

lemma triple_bind:
  "triple P m R E \<Longrightarrow> (\<And>x. triple (R x) (f x) Q E) \<Longrightarrow> triple P (eff_bind m f) Q E"
  unfolding triple_def eff_bind_def by (fastforce split: prod.splits sum.splits)

lemma triple_return: "(\<And>s. P s \<Longrightarrow> Q x s) \<Longrightarrow> triple P (eff_return x) Q E"
  by (simp add: triple_def)

lemma triple_fail: "(\<And>s. P s \<Longrightarrow> E s) \<Longrightarrow> triple P (eff_fail e) Q E"
  by (simp add: triple_def)

lemma triple_weaken:
  "triple P' m Q' E' \<Longrightarrow> (\<And>s. P s \<Longrightarrow> P' s) \<Longrightarrow> (\<And>x s. Q' x s \<Longrightarrow> Q x s) \<Longrightarrow> (\<And>s. E' s \<Longrightarrow> E s) \<Longrightarrow>
     triple P m Q E"
  unfolding triple_def by (fastforce split: prod.splits sum.splits)

lemma tripleD: "triple P m (\<lambda>_. Q) Q \<Longrightarrow> P s \<Longrightarrow> Q (fst (m s))"
  unfolding triple_def by (fastforce split: prod.splits sum.splits)

section \<open>Effects follow intents\<close>

definition covers :: "invocation_intent \<Rightarrow> tool_execution \<Rightarrow> bool" where
  "covers n = (\<lambda>(i, p, x). ii_invocation n = i \<and> ii_operation n = xe_operation x
     \<and> ii_arguments n = pn_arguments (pi_planned p)
     \<and> ii_target n = ToolTarget (tn_name (pi_definition p)) (tn_contract_version (pi_definition p)))"

definition repeatable :: "restored_session \<Rightarrow> uuid \<Rightarrow> bool" where
  "repeatable st i = (\<exists>n \<in> all_intents st. ii_invocation n = i \<and> ii_replay_safety n = ReplaySafe)"

definition times_run :: "uuid \<Rightarrow> tool_execution list \<Rightarrow> nat" where
  "times_run i effects = length (filter (\<lambda>x. fst x = i) effects)"

definition effects_intended :: "restored_session \<Rightarrow> tool_execution list \<Rightarrow> bool" where
  "effects_intended st effects =
     ((\<forall>x \<in> set effects. \<exists>n \<in> all_intents st. covers n x)
      \<and> (\<forall>i. 1 < times_run i effects \<longrightarrow> repeatable st i))"

lemma effects_intended_mono:
  "effects_intended st effects \<Longrightarrow> all_intents st \<subseteq> all_intents st' \<Longrightarrow> effects_intended st' effects"
  unfolding effects_intended_def repeatable_def by blast

definition world_ok :: "writer_env \<Rightarrow> op_world \<Rightarrow> bool" where
  "world_ok env w =
     (codec_faithful env \<and> writer_ok env (ow_session w)
      \<and> effects_intended (du_restored (ow_session w)) (ow_effects w))"

text \<open>The world with its effects so far and some intents that the session holds.\<close>

definition holding :: "writer_env \<Rightarrow> invocation_intent set \<Rightarrow> tool_execution list \<Rightarrow> op_world \<Rightarrow> bool" where
  "holding env ns effects w =
     (world_ok env w \<and> ow_effects w = effects \<and> ns \<subseteq> all_intents (du_restored (ow_session w)))"

abbreviation grown :: "writer_env \<Rightarrow> restored_session \<Rightarrow> durable_session \<Rightarrow> bool" where
  "grown env st \<equiv> (\<lambda>s. codec_faithful env \<and> writer_ok env s \<and> session_run (we_codec env) st (du_restored s))"

lemma commit_holds:
  assumes "\<And>st. keeps (grown env st) m"
  shows "triple (holding env ns effects) (commit_session m) (\<lambda>_. holding env ns effects) (holding env ns effects)"
proof -
  have "holding env ns effects (w\<lparr>ow_session := s'\<rparr>)" if w: "holding env ns effects w" and m: "m (ow_session w) = (s', r)" for w s' r
  proof -
    let ?st = "du_restored (ow_session w)"
    have ok: "codec_faithful env" "writer_ok env (ow_session w)" using w by (simp_all add: holding_def world_ok_def)
    then have "grown env ?st s'"
      using keepsD [OF assms [of ?st] _ m] session_run.start by blast
    then have "writer_ok env s'" and run: "session_run (we_codec env) ?st (du_restored s')" by simp_all
    moreover have "all_intents ?st \<subseteq> all_intents (du_restored s')"
      using intents.run_below [OF run] writer_identities [OF ok(2)] by simp
    ultimately show ?thesis
      using w effects_intended_mono by (auto simp: holding_def world_ok_def)
  qed
  then show ?thesis unfolding triple_def commit_session_def by (auto split: prod.splits sum.splits)
qed

lemma commit_record_holds:
  "xo_env ex = env \<Longrightarrow> triple (holding env ns effects) (commit_record ex r) (\<lambda>_. holding env ns effects) (holding env ns effects)"
  unfolding commit_record_def using growing.keeps_record by (intro commit_holds) simp

lemma new_identifier_holds:
  "xo_env ex = env \<Longrightarrow> triple (holding env ns effects) (new_identifier ex) (\<lambda>_. holding env ns effects) (holding env ns effects)"
  unfolding new_identifier_def using growing.keeps_draw
  by (intro commit_holds keeps_bind keeps_return) simp

lemma reached_holds: "triple P (reached ex site) (\<lambda>_. P) P"
  by (simp add: triple_def reached_def)

lemma append_record_step:
  assumes "codec_faithful env" and "writer_ok env s" and "append_record env r s = (s', Inr u)"
  shows "writer_ok env s' \<and> session_step (we_codec env) (du_restored s) r (du_restored s')"
proof -
  let ?s = "s\<lparr>du_drawn := du_drawn s + 1\<rparr>"
  let ?e = "new_envelope (we_fresh env (du_drawn s)) (ls_session (du_store s)) r"
  have "append_envelope env None (we_fault env (du_drawn s)) ?e ?s = (s', Inr u)"
    using assms(3) by (simp add: append_record_def append_guarded_def draw_def eff_bind_def)
  from append_envelope_keeps [OF assms(1) _ this] assms(2) show ?thesis by (simp add: new_envelope_def)
qed

text \<open>An acknowledged intent is held, and no effect has its identifier yet.\<close>

lemma commit_intent_holds:
  assumes "xo_env ex = env"
  shows "triple (holding env ns effects) (commit_record ex (InvocationIntentAppended n))
    (\<lambda>_ w. holding env (insert n ns) effects w \<and> times_run (ii_invocation n) effects = 0) (world_ok env)"
  unfolding triple_def
proof (intro allI impI)
  fix w
  assume w: "holding env ns effects w"
  let ?r = "InvocationIntentAppended n" and ?st = "du_restored (ow_session w)"
  have ok: "codec_faithful env" "writer_ok env (ow_session w)" "effects_intended ?st effects"
    using w by (auto simp: holding_def world_ok_def)
  obtain s' r where run: "append_record env ?r (ow_session w) = (s', r)" by fastforce
  have kept: "holding env ns effects (w\<lparr>ow_session := s'\<rparr>)"
    using commit_record_holds [OF assms, of ns effects ?r] w run
    by (auto simp: triple_def commit_record_def commit_session_def assms split: sum.splits)
  have "n \<in> all_intents (du_restored s') \<and> times_run (ii_invocation n) effects = 0" if "r = Inr u" for u
  proof -
    have step: "session_step (we_codec env) ?st ?r (du_restored s')"
      using append_record_step [OF ok(1,2)] run that by blast
    then have valid: "validate_intent ?st n = Inr ()" by (auto elim: session_stepE)
    have "operations_ok ?st" using writer_identities [OF ok(2)] by (simp add: identities_ok_def)
    note fresh = intent_is_fresh [OF valid this]
    have "fst x \<noteq> ii_invocation n" if "x \<in> set effects" for x
      using ok(3) that fresh by (fastforce simp: effects_intended_def covers_def)
    then have "times_run (ii_invocation n) effects = 0" by (simp add: times_run_def)
    then show ?thesis using recorded_intent [OF step] by simp
  qed
  then show "case commit_record ex ?r w of
      (s', Inr x) \<Rightarrow> holding env (insert n ns) effects s' \<and> times_run (ii_invocation n) effects = 0
    | (s', Inl e) \<Rightarrow> world_ok env s'"
    using kept run by (cases r) (simp_all add: commit_record_def commit_session_def assms holding_def)
qed

lemma run_tool_holds:
  assumes "n \<in> ns" and "covers n (i, p, x)" and "times_run i effects = 0 \<or> ii_replay_safety n = ReplaySafe"
  shows "triple (holding env ns effects) (run_tool i p x) (\<lambda>_. holding env ns (effects @ [(i, p, x)])) E"
proof -
  have "effects_intended st (effects @ [(i, p, x)])" if "effects_intended st effects" "ns \<subseteq> all_intents st" for st
  proof -
    have n: "n \<in> all_intents st" "ii_invocation n = i" using assms(1,2) that(2) by (auto simp: covers_def)
    have "times_run j (effects @ [(i, p, x)]) = (if j = i then Suc (times_run j effects) else times_run j effects)" for j
      by (simp add: times_run_def)
    then have "1 < times_run j (effects @ [(i, p, x)]) \<Longrightarrow> repeatable st j" for j
      using assms(3) n that(1) by (auto simp: effects_intended_def repeatable_def split: if_splits)
    then show ?thesis using that(1) n assms(2) by (auto simp: effects_intended_def)
  qed
  then show ?thesis by (auto simp: triple_def run_tool_def holding_def world_ok_def)
qed

lemma commit_outcome_holds:
  assumes "xo_env ex = env"
  shows "triple (holding env ns effects) (commit_outcome ex n result status outcome)
    (\<lambda>_. holding env ns effects) (holding env ns effects)"
proof -
  note named = triple_bind [OF new_identifier_holds [OF assms] commit_record_holds [OF assms]]
  show ?thesis
    unfolding commit_outcome_def
    by (rule triple_bind [OF commit_record_holds [OF assms]])
      (cases outcome; auto simp: commit_named_output_def intro: named triple_return)
qed

lemma execute_authorized_holds:
  assumes "xo_env ex = env" and "n \<in> ns" and "n = intent_of p operation step invocation result f"
    and "times_run invocation effects = 0"
  shows "triple (holding env ns effects) (execute_authorized ex operation invocation p a)
    (\<lambda>_ w. \<exists>effects. holding env ns effects w) (\<lambda>w. \<exists>effects. holding env ns effects w)"
proof (cases a)
  case (AuthDenied g)
  then show ?thesis by (auto simp: execute_authorized_def Let_def intro: triple_return)
next
  case (AuthAllowed g)
  let ?x = "authorized_context operation (AuthAllowed g)"
  let ?after = "holding env ns (effects @ [(invocation, p, ?x)])"
  have "covers n (invocation, p, ?x)"
    by (simp add: assms(3) covers_def intent_of_def authorized_context_def)
  note run = run_tool_holds [OF assms(2) this, of effects env ?after]
  have store: "triple ?after (commit_session (store_tool_output env v)) (\<lambda>_. ?after) ?after" for v
    using growing.keeps_output by (intro commit_holds)
  have "triple (holding env ns effects) (execute_authorized ex operation invocation p a) (\<lambda>_. ?after) ?after"
    unfolding execute_authorized_def AuthAllowed authorization.case
  proof (rule triple_bind [OF run], simp add: assms(4), rule triple_bind [OF reached_holds])
    fix execution :: "rust_string + rust_string" and u :: unit
    show "triple ?after (case execution of
          Inl e \<Rightarrow> eff_return (error_result (pi_call p) e, InvocationFailed (bounded_diagnostic e))
        | Inr output \<Rightarrow> eff_bind (commit_session (store_tool_output (xo_env ex) (JString output)))
            (\<lambda>(stored, artifact). eff_return
               ((success_result (pi_call p) (for_model ex output stored))
                  \<lparr>tr_artifact := artifact,
                   tr_command_status := (if tn_name (pi_definition p) = rstr ''run_command''
                     then xo_observed_status ex output else None)\<rparr>,
                InvocationCompleted stored))) (\<lambda>_. ?after) ?after"
    proof (cases execution)
      case (Inl e)
      then show ?thesis by (simp add: triple_return)
    next
      case (Inr printed)
      show ?thesis unfolding Inr sum.case assms(1)
        by (rule triple_bind [OF store]) (auto intro: triple_return)
    qed
  qed
  then show ?thesis by (rule triple_weaken) auto
qed

lemma world_holding: "world_ok env w \<Longrightarrow> holding env {} (ow_effects w) w"
  by (simp add: holding_def)

lemma holding_world: "holding env ns effects w \<Longrightarrow> world_ok env w"
  by (simp add: holding_def)

lemma triple_effects:
  assumes "\<And>effects. triple (\<lambda>s. P effects s) m Q E"
  shows "triple (\<lambda>s. \<exists>effects. P effects s) m Q E"
  unfolding triple_def
proof (intro allI impI)
  fix s
  assume "\<exists>effects. P effects s"
  then obtain effects where "P effects s" by blast
  with assms [of effects] show "case m s of (s', Inr x) \<Rightarrow> Q x s' | (s', Inl e) \<Rightarrow> E s'"
    by (simp add: triple_def)
qed

lemma triple_conj: "(c \<Longrightarrow> triple P m Q E) \<Longrightarrow> triple (\<lambda>s. P s \<and> c) m Q E"
  by (simp add: triple_def)

lemma invoke_prepared_holds:
  assumes env: "xo_env ex = env"
  shows "triple (holding env {} effects) (invoke_prepared ex operation step invocation p a)
    (\<lambda>_. world_ok env) (world_ok env)"
proof -
  have committed: "triple (holding env {} effects) (commit_record ex r) (\<lambda>_. holding env {} effects) (world_ok env)" for r
    by (rule triple_weaken [OF commit_record_holds [OF env]]) (auto dest: holding_world)
  have named: "triple (holding env {} effects) (new_identifier ex) (\<lambda>_. holding env {} effects) (world_ok env)"
    by (rule triple_weaken [OF new_identifier_holds [OF env]]) (auto dest: holding_world)
  have boundary: "triple (holding env ns effects) (reached ex site) (\<lambda>_. holding env ns effects) (world_ok env)"
    for ns effects site
    by (rule triple_weaken [OF reached_holds [where P = "holding env ns effects"]]) (auto dest: holding_world)
  let ?n = "\<lambda>result. intent_of p operation step invocation result (fact_of a)"
  have tail: "triple (\<lambda>w. \<exists>effects. holding env {?n result} effects w)
      (eff_bind (commit_outcome ex (?n result) result (tr_command_status t) outcome)
        (\<lambda>_. eff_bind (reached ex AfterInvocationResult) (\<lambda>_. eff_return t)))
      (\<lambda>_. world_ok env) (world_ok env)" for result t outcome
  proof (rule triple_effects)
    fix effects
    show "triple (holding env {?n result} effects)
      (eff_bind (commit_outcome ex (?n result) result (tr_command_status t) outcome)
        (\<lambda>_. eff_bind (reached ex AfterInvocationResult) (\<lambda>_. eff_return t)))
      (\<lambda>_. world_ok env) (world_ok env)"
      by (rule triple_weaken [where P' = "holding env {?n result} effects"
            and Q' = "\<lambda>_. holding env {?n result} effects" and E' = "holding env {?n result} effects"])
        (intro triple_bind [OF commit_outcome_holds [OF env]] triple_bind [OF reached_holds] triple_return, auto dest: holding_world)
  qed
  have middle: "triple (\<lambda>w. holding env {?n result} effects w \<and> times_run invocation effects = 0)
      (eff_bind (reached ex AfterInvocationIntent)
        (\<lambda>_. eff_bind (execute_authorized ex operation invocation p a)
        (\<lambda>(t, outcome). eff_bind (commit_outcome ex (?n result) result (tr_command_status t) outcome)
        (\<lambda>_. eff_bind (reached ex AfterInvocationResult) (\<lambda>_. eff_return t)))))
      (\<lambda>_. world_ok env) (world_ok env)" for result
  proof (rule triple_conj)
    assume fresh: "times_run invocation effects = 0"
    have execute: "triple (holding env {?n result} effects) (execute_authorized ex operation invocation p a)
        (\<lambda>_ w. \<exists>effects. holding env {?n result} effects w) (world_ok env)"
      by (rule triple_weaken [OF execute_authorized_holds [where ns = "{?n result}", OF env _ refl fresh]])
        (auto dest: holding_world)
    show "triple (holding env {?n result} effects)
      (eff_bind (reached ex AfterInvocationIntent)
        (\<lambda>_. eff_bind (execute_authorized ex operation invocation p a)
        (\<lambda>(t, outcome). eff_bind (commit_outcome ex (?n result) result (tr_command_status t) outcome)
        (\<lambda>_. eff_bind (reached ex AfterInvocationResult) (\<lambda>_. eff_return t)))))
      (\<lambda>_. world_ok env) (world_ok env)"
    proof (rule triple_bind [OF boundary])
      show "triple (holding env {?n result} effects)
        (eff_bind (execute_authorized ex operation invocation p a)
          (\<lambda>(t, outcome). eff_bind (commit_outcome ex (?n result) result (tr_command_status t) outcome)
          (\<lambda>_. eff_bind (reached ex AfterInvocationResult) (\<lambda>_. eff_return t))))
        (\<lambda>_. world_ok env) (world_ok env)"
        by (rule triple_bind [OF execute], simp split: prod.split, intro allI impI, rule tail)
    qed
  qed
  show ?thesis
    unfolding invoke_prepared_def Let_def
  proof (rule triple_bind [OF committed], rule triple_bind [OF boundary], rule triple_bind [OF named],
      rule triple_bind)
    fix result
    show "triple (holding env {} effects) (commit_record ex (InvocationIntentAppended (?n result)))
      (\<lambda>_ w. holding env {?n result} effects w \<and> times_run invocation effects = 0) (world_ok env)"
      using commit_intent_holds [OF env, of "{}" effects "?n result"] by (simp add: intent_of_def)
  qed (rule middle)
qed

lemma invoke_tool_keeps:
  assumes "xo_env ex = env" and "world_ok env w"
  shows "world_ok env (fst (invoke_tool ex operation step invocation call w))"
proof -
  have "world_ok env (fst (invoke_prepared ex operation step invocation p a w))" for p a
    using tripleD [OF invoke_prepared_holds [OF assms(1)] world_holding [OF assms(2)]] .
  then show ?thesis
    using assms(2) by (simp add: invoke_tool_def eff_fail_def eff_return_def split: sum.splits)
qed

end
