(* ===== verification/Operation_Recovery.thy ===== *)
theory Operation_Recovery
  imports Operation_Executor
begin

text \<open>
  The recovery of an interrupted operation (\<open>src/src/operation/recovery.rs\<close>): what is planned for its
  first invocation without a result, and how the plan is carried out; and the runs of a
  Conversation through tool calls, crashes, resumptions and recoveries.
\<close>

section \<open>Planning\<close>

datatype recovery_action =
  AlreadyCompleted uuid
| ReplayExactInvocation uuid
| RecordInterruption uuid uuid interruption_reason
| ContinueWithNextInvocation
| FinishOperation

definition pending_action :: "tool_registry \<Rightarrow> uuid \<Rightarrow> invocation_intent \<Rightarrow> recovery_action" where
  "pending_action g i n =
     (case ii_target n of
        ContextTransform _ \<Rightarrow> RecordInterruption i (ii_result n) UnknownOutcome
      | ToolTarget name version \<Rightarrow>
          (case tool_definition_of g name of
             None \<Rightarrow> RecordInterruption i (ii_result n) MissingTool
           | Some t \<Rightarrow>
               if tn_contract_version t \<noteq> version then RecordInterruption i (ii_result n) ContractChanged
               else (case (ii_replay_safety n, tn_replay_safety t) of
                   (ReplaySafe, ReplaySafe) \<Rightarrow> ReplayExactInvocation i
                 | (ReplayNever, _) \<Rightarrow> RecordInterruption i (ii_result n) SavedReplayUnsafe
                 | (ReplaySafe, ReplayNever) \<Rightarrow> RecordInterruption i (ii_result n) CurrentReplayUnsafe)))"

fun plan_invocations ::
  "tool_registry \<Rightarrow> restored_operation \<Rightarrow> uuid list \<Rightarrow> execution_error + recovery_action list" where
  "plan_invocations g d [] = Inr [FinishOperation]"
| "plan_invocations g d (i # rest) =
     (case bt_get (op_intents d) i of
        None \<Rightarrow> Inl (MissingIntentIndex i)
      | Some n \<Rightarrow>
          if bt_contains (op_results d) i
          then res_bind (plan_invocations g d rest)
            (\<lambda>actions. Inr (AlreadyCompleted (ii_result n)
               # (if rest \<noteq> [] then [ContinueWithNextInvocation] else []) @ actions))
          else Inr [pending_action g i n])"

definition plan_recovery ::
  "tool_registry \<Rightarrow> restored_operation \<Rightarrow> execution_error + recovery_action list" where
  "plan_recovery g d =
     (if op_finished d \<noteq> None then Inl RecoveryAlreadyFinished
      else plan_invocations g d (op_invocation_order d))"

section \<open>Carrying out a plan\<close>

fun debug_reason :: "interruption_reason \<Rightarrow> rust_string" where
  "debug_reason SavedReplayUnsafe = rstr ''SavedReplayUnsafe''"
| "debug_reason CurrentReplayUnsafe = rstr ''CurrentReplayUnsafe''"
| "debug_reason MissingTool = rstr ''MissingTool''"
| "debug_reason ContractChanged = rstr ''ContractChanged''"
| "debug_reason ScopeChanged = rstr ''ScopeChanged''"
| "debug_reason ReauthorizationDenied = rstr ''ReauthorizationDenied''"
| "debug_reason UnknownOutcome = rstr ''UnknownOutcome''"

definition recovered_record :: "invocation_intent \<Rightarrow> uuid \<Rightarrow> invocation_outcome \<Rightarrow> session_record" where
  "recovered_record n result outcome = InvocationResultAppended
     \<lparr>ir_operation = ii_operation n, ir_invocation = ii_invocation n, ir_result = result,
      ir_outcome = outcome, ir_command_status = None\<rparr>"

definition recovered_message ::
  "executor \<Rightarrow> invocation_outcome \<Rightarrow> tool_result \<Rightarrow> durable_session \<Rightarrow> message" where
  "recovered_message ex outcome t s =
     tool_result_message
       (case outcome of
          InvocationCompleted v \<Rightarrow>
            t\<lparr>tr_output := for_model ex (tr_output t) v, tr_artifact := stored_artifact s v\<rparr>
        | _ \<Rightarrow> t)"

definition append_recovery_result ::
  "executor \<Rightarrow> invocation_intent \<Rightarrow> invocation_outcome \<Rightarrow> tool_result \<Rightarrow> uuid \<Rightarrow> unit run" where
  "append_recovery_result ex n outcome t result =
     eff_bind (commit_record ex (recovered_record n result outcome))
     (\<lambda>_. eff_bind (case outcome of
          InvocationCompleted v \<Rightarrow> commit_named_output ex n v
        | _ \<Rightarrow> eff_return ())
     (\<lambda>_. commit_session (\<lambda>s. eff_bind (append_message (xo_env ex) (recovered_message ex outcome t s))
        (\<lambda>_. eff_return ()) s)))"

definition settle ::
  "executor \<Rightarrow> uuid \<Rightarrow> invocation_intent \<Rightarrow> uuid \<Rightarrow> recovery_decision \<Rightarrow> invocation_outcome \<Rightarrow> tool_result
    \<Rightarrow> uuid \<Rightarrow> unit run" where
  "settle ex operation n i decision outcome t result =
     eff_bind (commit_record ex (RecoveryDecisionAppended operation i decision))
     (\<lambda>_. append_recovery_result ex n outcome t result)"

definition interrupt ::
  "executor \<Rightarrow> uuid \<Rightarrow> invocation_intent \<Rightarrow> uuid \<Rightarrow> interruption_reason \<Rightarrow> rust_string \<Rightarrow> uuid \<Rightarrow> unit run" where
  "interrupt ex operation n i reason text result =
     settle ex operation n i (InterruptInvocation reason) (InvocationInterrupted reason)
       (error_result (ii_model_call n) text) result"

definition recovery_context :: "uuid \<Rightarrow> execution_context" where
  "recovery_context operation = \<lparr>xe_operation = operation, xe_approval = None\<rparr>"

definition replay_authorized ::
  "executor \<Rightarrow> uuid \<Rightarrow> invocation_intent \<Rightarrow> uuid \<Rightarrow> prepared_invocation \<Rightarrow> unit run" where
  "replay_authorized ex operation n i p =
     eff_bind (commit_record ex (RecoveryDecisionAppended operation i ReplayInvocation))
     (\<lambda>_. eff_bind (run_tool i p (recovery_context operation))
     (\<lambda>execution. case execution of
        Inl e \<Rightarrow> append_recovery_result ex n (InvocationFailed (bounded_diagnostic e))
          (error_result (ii_model_call n) e) (ii_result n)
      | Inr output \<Rightarrow>
          eff_bind (commit_session (store_json_value (xo_env ex) (JString output)))
          (\<lambda>v. append_recovery_result ex n (InvocationCompleted v)
            (success_result (ii_model_call n) output) (ii_result n))))"

definition replay_planned ::
  "executor \<Rightarrow> uuid \<Rightarrow> invocation_intent \<Rightarrow> uuid \<Rightarrow> nat \<Rightarrow> prepared_invocation \<Rightarrow> unit run" where
  "replay_planned ex operation n i version p =
     (if tn_contract_version (pi_definition p) \<noteq> version
         \<or> pn_arguments (pi_planned p) \<noteq> ii_arguments n
         \<or> pn_scope (pi_planned p) \<noteq> rq_scope (af_request (ii_permission n))
      then (let reason = if tn_contract_version (pi_definition p) \<noteq> version
              then ContractChanged else ScopeChanged in
        interrupt ex operation n i reason
          (rstr ''tool recovery was interrupted ('' @ debug_reason reason @ rstr '')'') (ii_result n))
      else case xo_authorize ex (permission_request_of p operation i) of
        Inl e \<Rightarrow> eff_fail (AuthorizationFailed e)
      | Inr a \<Rightarrow>
          eff_bind (commit_record ex (PermissionAudited (fact_of a)))
          (\<lambda>_. case a of
             AuthDenied _ \<Rightarrow> settle ex operation n i DeclineInvocation
               (InvocationDeclined (rstr ''current permission denied replay''))
               (error_result (ii_model_call n) (rstr ''current permission denied tool recovery'')) (ii_result n)
           | AuthAllowed _ \<Rightarrow> replay_authorized ex operation n i p))"

definition replay_invocation :: "executor \<Rightarrow> path \<Rightarrow> uuid \<Rightarrow> invocation_intent \<Rightarrow> uuid \<Rightarrow> unit run" where
  "replay_invocation ex workspace operation n i =
     (case ii_target n of
        ContextTransform _ \<Rightarrow> eff_fail ReplayNotATool
      | ToolTarget name version \<Rightarrow>
          (case plan_call (xo_graphic ex) (xo_registry ex)
              \<lparr>tc_id = ii_model_call n, tc_name = name, tc_arguments = ii_arguments n\<rparr> workspace of
             Inl t \<Rightarrow> eff_fail (ReplayPlanFailed (tr_output t))
           | Inr p \<Rightarrow> replay_planned ex operation n i version p))"

fun run_actions :: "executor \<Rightarrow> path \<Rightarrow> uuid \<Rightarrow> restored_operation \<Rightarrow> recovery_action list \<Rightarrow> unit run" where
  "run_actions ex workspace operation d [] = eff_return ()"
| "run_actions ex workspace operation d (RecordInterruption i result reason # rest) =
     (case bt_get (op_intents d) i of
        None \<Rightarrow> eff_fail MissingIntent
      | Some n \<Rightarrow> interrupt ex operation n i reason
          (rstr ''tool outcome is unknown and was not repeated ('' @ debug_reason reason
            @ rstr ''); manual reconciliation may be required'') result)"
| "run_actions ex workspace operation d (ReplayExactInvocation i # rest) =
     (case bt_get (op_intents d) i of
        None \<Rightarrow> eff_fail MissingIntent
      | Some n \<Rightarrow> replay_invocation ex workspace operation n i)"
| "run_actions ex workspace operation d (_ # rest) = run_actions ex workspace operation d rest"

definition finish_interrupted :: "executor \<Rightarrow> uuid \<Rightarrow> unit run" where
  "finish_interrupted ex operation w =
     (case finish_record (we_codec (xo_env ex)) (ow_session w) operation OpInterrupted of
        Inl e \<Rightarrow> (w, Inl (CommitFailed e))
      | Inr r \<Rightarrow> commit_record ex r w)"

definition execute_recovery :: "executor \<Rightarrow> uuid \<Rightarrow> recovery_action list run" where
  "execute_recovery ex operation w =
     (let st = du_restored (ow_session w) in
      case bt_get (ss_details st) operation of
        None \<Rightarrow> (w, Inl OperationMissing)
      | Some d \<Rightarrow>
          (case plan_recovery (xo_registry ex) d of
             Inl e \<Rightarrow> (w, Inl e)
           | Inr actions \<Rightarrow>
               eff_bind (run_actions ex (ss_workspace st) operation d actions)
               (\<lambda>_. eff_bind (finish_interrupted ex operation)
               (\<lambda>_. eff_return actions)) w))"

section \<open>What is planned\<close>

definition first_pending :: "restored_operation \<Rightarrow> uuid option" where
  "first_pending d = find (\<lambda>i. \<not> bt_contains (op_results d) i) (op_invocation_order d)"

fun settled_action :: "recovery_action \<Rightarrow> bool" where
  "settled_action (AlreadyCompleted _) = True"
| "settled_action ContinueWithNextInvocation = True"
| "settled_action _ = False"

lemma pending_action_not_settled: "\<not> settled_action (pending_action g i n)"
  by (simp add: pending_action_def split: invocation_target.split option.split replay_safety.split)

lemma plan_invocations_last:
  assumes "plan_invocations g d is = Inr actions"
  shows "\<exists>before. actions = before @ [case find (\<lambda>i. \<not> bt_contains (op_results d) i) is of
      None \<Rightarrow> FinishOperation | Some i \<Rightarrow> pending_action g i (the (bt_get (op_intents d) i))]
    \<and> list_all settled_action before
    \<and> (\<forall>i. find (\<lambda>i. \<not> bt_contains (op_results d) i) is = Some i \<longrightarrow> bt_get (op_intents d) i \<noteq> None)"
  using assms
proof (induction "is" arbitrary: actions)
  case (Cons i rest)
  then obtain n where n: "bt_get (op_intents d) i = Some n" by (auto split: option.splits)
  show ?case
  proof (cases "bt_contains (op_results d) i")
    case True
    then obtain more where more: "plan_invocations g d rest = Inr more"
      "actions = (AlreadyCompleted (ii_result n) # (if rest \<noteq> [] then [ContinueWithNextInvocation] else [])) @ more"
      using Cons.prems n by (auto simp: res_simps)
    from Cons.IH [OF more(1)] obtain before where "more = before @ [case find (\<lambda>i. \<not> bt_contains (op_results d) i) rest of
        None \<Rightarrow> FinishOperation | Some i \<Rightarrow> pending_action g i (the (bt_get (op_intents d) i))]"
      "list_all settled_action before"
      "\<forall>i. find (\<lambda>i. \<not> bt_contains (op_results d) i) rest = Some i \<longrightarrow> bt_get (op_intents d) i \<noteq> None" by blast
    then show ?thesis using True more(2)
      by (intro exI [of _ "(AlreadyCompleted (ii_result n) # (if rest \<noteq> [] then [ContinueWithNextInvocation] else [])) @ before"])
        simp
  qed (use Cons.prems n in auto)
qed simp

lemma plan_invocations_exist:
  "\<forall>i \<in> set order. bt_get (op_intents d) i \<noteq> None \<Longrightarrow> \<exists>actions. plan_invocations g d order = Inr actions"
  by (induction order) (auto simp: res_simps)

lemma run_settled:
  "list_all settled_action before \<Longrightarrow>
     run_actions ex workspace operation d (before @ actions) = run_actions ex workspace operation d actions"
proof (induction before)
  case (Cons a before)
  then show ?case by (cases a) simp_all
qed simp

section \<open>Recovery keeps the world\<close>

lemma append_recovery_result_holds:
  assumes "xo_env ex = env"
  shows "triple (holding env ns effects) (append_recovery_result ex n outcome t result)
    (\<lambda>_. holding env ns effects) (holding env ns effects)"
proof -
  note recorded = commit_record_holds [OF assms]
  have named: "triple (holding env ns effects) (commit_named_output ex n v) (\<lambda>_. holding env ns effects)
      (holding env ns effects)" for v
    unfolding commit_named_output_def by (rule triple_bind [OF new_identifier_holds [OF assms] recorded])
  have message: "keeps (grown env st) (\<lambda>s. eff_bind (append_message env (f s)) (\<lambda>_. eff_return ()) s)" for f st
  proof -
    have "keeps (grown env st) (eff_bind (append_message env m) (\<lambda>_. eff_return ()))" for m
      by (intro keeps_bind growing.keeps_message keeps_return)
    then show ?thesis by (simp add: keeps_def)
  qed
  show ?thesis
    unfolding append_recovery_result_def assms
    by (rule triple_bind [OF recorded], rule triple_bind [OF _ commit_holds [OF message]], cases outcome)
      (simp_all add: named triple_return)
qed

lemma settle_holds:
  assumes "xo_env ex = env"
  shows "triple (holding env ns effects) (settle ex operation n i decision outcome t result)
    (\<lambda>_. holding env ns effects) (holding env ns effects)"
  unfolding settle_def
  by (rule triple_bind [OF commit_record_holds [OF assms] append_recovery_result_holds [OF assms]])

text \<open>At most the one invocation was executed, and only once.\<close>

definition resettled :: "writer_env \<Rightarrow> tool_execution list \<Rightarrow> uuid \<Rightarrow> uuid \<Rightarrow> op_world \<Rightarrow> bool" where
  "resettled env effects i operation w =
     (world_ok env w \<and> (ow_effects w = effects
        \<or> (\<exists>p. ow_effects w = effects @ [(i, p, recovery_context operation)])))"

lemma holding_resettled:
  "holding env ns effects w \<Longrightarrow> resettled env effects i operation w"
  "holding env ns (effects @ [(i, p, recovery_context operation)]) w \<Longrightarrow> resettled env effects i operation w"
  by (auto simp: holding_def resettled_def)

lemma replay_authorized_holds:
  assumes "xo_env ex = env" and "n \<in> ns" and "covers n (i, p, recovery_context operation)"
    and "ii_replay_safety n = ReplaySafe"
  shows "triple (holding env ns effects) (replay_authorized ex operation n i p)
    (\<lambda>_. resettled env effects i operation) (resettled env effects i operation)"
proof -
  let ?after = "holding env ns (effects @ [(i, p, recovery_context operation)])"
  have committed: "triple (holding env ns effects) (commit_record ex r) (\<lambda>_. holding env ns effects) (resettled env effects i operation)" for r
    by (rule triple_weaken [OF commit_record_holds [OF assms(1)]]) (auto dest: holding_resettled)
  have run: "triple (holding env ns effects) (run_tool i p (recovery_context operation)) (\<lambda>_. ?after) (resettled env effects i operation)"
    using assms(2-4) by (intro run_tool_holds) auto
  have stored: "triple ?after (commit_session (store_json_value (xo_env ex) v)) (\<lambda>_. ?after) (resettled env effects i operation)" for v
    by (rule triple_weaken [OF commit_holds [OF growing.keeps_value]]) (auto simp: assms(1) dest: holding_resettled)
  have finished: "triple ?after (append_recovery_result ex n outcome t result) (\<lambda>_. resettled env effects i operation) (resettled env effects i operation)"
    for outcome t result
    by (rule triple_weaken [OF append_recovery_result_holds [OF assms(1)]]) (auto dest: holding_resettled)
  show ?thesis
    unfolding replay_authorized_def
    by (rule triple_bind [OF committed], rule triple_bind [OF run])
      (auto intro: finished triple_bind [OF stored] split: sum.split)
qed

lemma settle_world:
  assumes "xo_env ex = env"
  shows "triple (holding env ns effects) (settle ex operation' n i' decision outcome t result)
    (\<lambda>_. resettled env effects i operation) (resettled env effects i operation)"
  by (rule triple_weaken [OF settle_holds [OF assms]]) (auto dest: holding_resettled)

lemma replay_planned_holds:
  assumes "xo_env ex = env" and "n \<in> ns" and "ii_invocation n = i" and "ii_operation n = operation"
    and "ii_target n = ToolTarget (tn_name (pi_definition p)) version" and "ii_replay_safety n = ReplaySafe"
  shows "triple (holding env ns effects) (replay_planned ex operation n i version p)
    (\<lambda>_. resettled env effects i operation) (resettled env effects i operation)"
proof (cases "tn_contract_version (pi_definition p) \<noteq> version
    \<or> pn_arguments (pi_planned p) \<noteq> ii_arguments n
    \<or> pn_scope (pi_planned p) \<noteq> rq_scope (af_request (ii_permission n))")
  case True
  then show ?thesis by (simp add: replay_planned_def interrupt_def settle_world [OF assms(1)])
next
  case False
  then have "covers n (i, p, recovery_context operation)"
    using assms by (simp add: covers_def recovery_context_def)
  note replay = replay_authorized_holds [OF assms(1,2) this assms(6)]
  have committed: "triple (holding env ns effects) (commit_record ex r) (\<lambda>_. holding env ns effects) (resettled env effects i operation)" for r
    by (rule triple_weaken [OF commit_record_holds [OF assms(1)]]) (auto dest: holding_resettled)
  have failed: "triple (holding env ns effects) (eff_fail e) (\<lambda>_. resettled env effects i operation) (resettled env effects i operation)" for e :: execution_error
    by (rule triple_fail) (rule holding_resettled)
  show ?thesis
    using False
    by (auto simp: replay_planned_def failed replay settle_world [OF assms(1)]
        intro!: triple_bind [OF committed] split: sum.split authorization.split)
qed

lemma replay_invocation_holds:
  assumes "xo_env ex = env" and "n \<in> ns" and "ii_invocation n = i" and "ii_operation n = operation"
    and "ii_replay_safety n = ReplaySafe"
  shows "triple (holding env ns effects) (replay_invocation ex workspace operation n i)
    (\<lambda>_. resettled env effects i operation) (resettled env effects i operation)"
proof (cases "ii_target n")
  case (ContextTransform x)
  then show ?thesis by (auto simp: replay_invocation_def intro: triple_fail holding_resettled)
next
  case (ToolTarget name version)
  let ?call = "\<lparr>tc_id = ii_model_call n, tc_name = name, tc_arguments = ii_arguments n\<rparr>"
  show ?thesis
  proof (cases "plan_call (xo_graphic ex) (xo_registry ex) ?call workspace")
    case (Inl t)
    then show ?thesis using ToolTarget by (auto simp: replay_invocation_def intro: triple_fail holding_resettled)
  next
    case (Inr p)
    then have "tn_name (pi_definition p) = name"
      by (auto simp: plan_call_def plan_in_turn_def split: option.splits sum.splits dest!: find_tool_Some)
    then show ?thesis
      using replay_planned_holds [OF assms(1-4) _ assms(5), of p version] Inr ToolTarget
      by (simp add: replay_invocation_def)
  qed
qed

lemma commit_record_world:
  assumes "xo_env ex = env" and "world_ok env w"
  shows "world_ok env (fst (commit_record ex r w))"
  using tripleD [OF commit_record_holds [OF assms(1)] world_holding [OF assms(2)]] by (rule holding_world)

lemma finish_interrupted_keeps:
  assumes "xo_env ex = env" and "world_ok env w"
  shows "world_ok env (fst (finish_interrupted ex operation w))"
  using assms commit_record_world [OF assms] by (simp add: finish_interrupted_def split: sum.split)

lemma pending_replay:
  assumes "pending_action g i n = ReplayExactInvocation j"
  shows "j = i \<and> ii_replay_safety n = ReplaySafe
    \<and> (\<exists>name t. ii_target n = ToolTarget name (tn_contract_version t) \<and> tool_definition_of g name = Some t
        \<and> tn_replay_safety t = ReplaySafe)"
  using assms
  by (auto simp: pending_action_def split: invocation_target.splits option.splits if_splits replay_safety.splits)

lemma run_actions_keeps:
  assumes env: "xo_env ex = env" and w: "world_ok env w"
    and d: "bt_get (ss_details (du_restored (ow_session w))) operation = Some d"
    and plan: "plan_recovery (xo_registry ex) d = Inr actions"
  shows "\<exists>i. resettled env (ow_effects w) i operation (fst (run_actions ex workspace operation d actions w))
    \<and> (first_pending d = Some i
      \<or> ow_effects (fst (run_actions ex workspace operation d actions w)) = ow_effects w)"
proof -
  let ?st = "du_restored (ow_session w)"
  have "identities_ok ?st" using w writer_identities by (auto simp: world_ok_def)
  then have "operation_ok operation d" using d by (simp add: identities_ok_def operations_ok_def)
  then have named: "n \<in> all_intents ?st \<and> ii_invocation n = i \<and> ii_operation n = operation"
    if "bt_get (op_intents d) i = Some n" for i n
    using that d by (auto simp: operation_ok_def all_intents_def)
  have held: "holding env {n} (ow_effects w) w" if "bt_get (op_intents d) i = Some n" for i n
    using named [OF that] w by (simp add: holding_def)
  have "plan_invocations (xo_registry ex) d (op_invocation_order d) = Inr actions"
    using plan by (simp add: plan_recovery_def split: if_splits)
  from plan_invocations_last [OF this, folded first_pending_def] obtain before where
    before: "actions = before @ [case first_pending d of None \<Rightarrow> FinishOperation
        | Some i \<Rightarrow> pending_action (xo_registry ex) i (the (bt_get (op_intents d) i))]" "list_all settled_action before"
      "\<forall>i. first_pending d = Some i \<longrightarrow> bt_get (op_intents d) i \<noteq> None" by blast
  show ?thesis
  proof (cases "first_pending d")
    case None
    then show ?thesis using w before by (simp add: run_settled eff_return_def resettled_def)
  next
    case (Some i)
    then obtain n where n: "bt_get (op_intents d) i = Some n" using before(3) by auto
    define a where "a = pending_action (xo_registry ex) i n"
    then have run: "run_actions ex workspace operation d actions = run_actions ex workspace operation d [a]"
      using before Some n by (simp add: run_settled)
    have "resettled env (ow_effects w) i operation (fst (run_actions ex workspace operation d actions w))"
    proof (cases a)
      case (ReplayExactInvocation j)
      then have "j = i" "ii_replay_safety n = ReplaySafe"
        using pending_replay [of "xo_registry ex" i n j] by (simp_all add: a_def)
      then show ?thesis
        using tripleD [OF replay_invocation_holds [OF env, of n "{n}"] held [OF n]] named [OF n] n
        by (simp add: run ReplayExactInvocation)
    next
      case (RecordInterruption j result reason)
      then show ?thesis
        using tripleD [OF settle_world [OF env] world_holding [OF w]] w
        by (simp add: run interrupt_def eff_fail_def resettled_def split: option.split)
    qed (simp_all add: run w eff_return_def resettled_def)
    then show ?thesis using Some by blast
  qed
qed

lemma execute_recovery_keeps:
  assumes env: "xo_env ex = env" and w: "world_ok env w"
  shows "world_ok env (fst (execute_recovery ex operation w))"
proof -
  have finish: "world_ok env (fst (eff_bind m (\<lambda>_. eff_bind (finish_interrupted ex operation) (\<lambda>_. eff_return x)) w))"
    if "world_ok env (fst (m w))" for m :: "unit run" and x :: "recovery_action list"
  proof (cases "m w")
    case (Pair w' r)
    then show ?thesis using finish_interrupted_keeps [OF env, of w' operation] that
      by (auto simp: eff_bind_def eff_return_def split: sum.split prod.split)
  qed
  show ?thesis
    using finish run_actions_keeps [OF env w] w 
    by (auto simp: resettled_def execute_recovery_def Let_def split: option.split sum.split)
qed

section \<open>The world a Conversation runs in\<close>

text \<open>
  A process creates the Conversation, writes to it, executes tool calls with whatever registry,
  broker and boundaries, dies and resumes from the file, and recovers operations. A failed write
  closes the writer, and a stopped boundary ends the call: the next process resumes from the file.
\<close>

inductive tool_world :: "writer_env \<Rightarrow> op_world \<Rightarrow> bool" for env where
  opened: "create_with_id env drawn workspace session = Inr s \<Longrightarrow>
     tool_world env \<lparr>ow_session = s, ow_effects = []\<rparr>"
| wrote: "tool_world env w \<Longrightarrow> tool_world env (w\<lparr>ow_session := writer_step env (ow_session w) c\<rparr>)"
| invoked: "tool_world env w \<Longrightarrow> xo_env ex = env \<Longrightarrow>
     tool_world env (fst (invoke_tool ex operation step invocation call w))"
| recovered: "tool_world env w \<Longrightarrow> xo_env ex = env \<Longrightarrow>
     tool_world env (fst (execute_recovery ex operation w))"
| restarted: "tool_world env w \<Longrightarrow>
     resume env True drawn (ls_disk (du_store (ow_session w))) = Inr (s, summary) \<Longrightarrow>
     tool_world env (w\<lparr>ow_session := s\<rparr>)"

lemma reduce_from_last:
  assumes "reduce_from codec st seen n (xs @ [y]) = Some (Inr st2)" and "n + length xs > 0"
    and "reduce_from codec st seen n xs = Some (Inr st1)"
  shows "session_step codec st1 (rn_record y) st2"
  using assms
proof (induction xs arbitrary: st seen n)
  case Nil
  then have "validate_envelope codec st1 seen y n None = Inr ()" "apply_validated (rn_record y) st1 = Some st2" "n \<noteq> 0"
    by (auto split: sum.splits option.splits)
  then show ?case
    by (intro session_step.validated [where index = n and pf = None]) (auto simp: validate_envelope_def split: if_splits)
next
  case (Cons x xs)
  then obtain st' where "validate_envelope codec st seen x n None = Inr ()"
    "(if n = 0 then Some st else apply_validated (rn_record x) st) = Some st'"
    "reduce_from codec st' (rn_record_id x # seen) (n + 1) (xs @ [y]) = Some (Inr st2)"
    "reduce_from codec st' (rn_record_id x # seen) (n + 1) xs = Some (Inr st1)"
    by (auto split: sum.splits option.splits)
  then show ?case using Cons.IH by simp
qed

text \<open>The file holds every intent that the writer has acknowledged.\<close>

lemma written_intents:
  assumes "writer_ok env s" and "written env s es st"
  shows "all_intents (du_restored s) \<subseteq> all_intents st"
proof -
  have replays: "replay (we_codec env) (du_records s) (du_restored s)" "replay (we_codec env) es st"
    and short: "prefix (du_records s) es" "length es \<le> length (du_records s) + 1"
    using assms by (simp_all add: writer_ok_def written_def)
  obtain more where "es = du_records s @ more" "length more \<le> 1" using short by (auto elim!: prefixE)
  then consider "es = du_records s" | e where "es = du_records s @ [e]" by (cases more) auto
  then show ?thesis
  proof cases
    case 1
    then show ?thesis using replays by (auto simp: replay_def)
  next
    case (2 e)
    have "session_step (we_codec env) (du_restored s) (rn_record e) st"
      using replays 2 replay_distinct [OF replays(1)]
      by (auto simp: replay_def simp del: reduce_from.simps intro: reduce_from_last [where seen = "[]" and n = 0])
    from intents_persist [OF _ this] show ?thesis
      using writer_identities [OF assms(1)] by (simp add: identities_ok_def)
  qed
qed

lemma restart_keeps:
  assumes w: "world_ok env w"
    and up: "resume env True drawn (ls_disk (du_store (ow_session w))) = Inr (s, summary)"
  shows "world_ok env (w\<lparr>ow_session := s\<rparr>)"
proof -
  have ok: "writer_ok env (ow_session w)" using w by (simp add: world_ok_def)
  then obtain es st where es: "written env (ow_session w) es st" by (auto simp: writer_ok_def)
  from resumed [OF this, of drawn] have "du_restored s = st" "writer_ok env s" using up by simp_all
  then show ?thesis
    using w effects_intended_mono written_intents [OF ok es] by (auto simp: world_ok_def)
qed

lemma tool_world_ok:
  assumes "codec_faithful env" and "tool_world env w"
  shows "world_ok env w"
  using assms(2,1)
proof (induction rule: tool_world.induct)
  case (opened drawn workspace session s)
  then show ?case using created_ok [OF opened(1,2)] by (simp add: world_ok_def effects_intended_def times_run_def)
next
  case (wrote w c)
  then have w: "world_ok env w" by simp
  have "triple (holding env {} (ow_effects w)) (commit_session (\<lambda>s. (writer_step env s c, Inr ())))
      (\<lambda>_. holding env {} (ow_effects w)) (holding env {} (ow_effects w))"
  proof (rule commit_holds)
    show "keeps (grown env st) (\<lambda>s. (writer_step env s c, Inr ()))" for st
      using growing.keeps_operations [of env st] by (cases c) (simp_all add: keeps_def append_audit_def)
  qed
  from tripleD [OF this world_holding [OF w]] show ?case by (simp add: commit_session_def holding_def)
next
  case (invoked w ex operation step invocation call)
  then show ?case by (intro invoke_tool_keeps) simp_all
next
  case (recovered w ex operation)
  then show ?case by (intro execute_recovery_keeps) simp_all
next
  case (restarted w drawn s summary)
  then show ?case by (intro restart_keeps) simp_all
qed

text \<open>C1: over every run of a Conversation, with processes that die at any boundary or at any byte of
  a write, resume and recover, every execution of a tool has an intent in the journal,
  for the same invocation, operation, tool, contract and arguments; and an invocation whose intent was
  not recorded as safe to replay is executed at most once.\<close>

theorem effects_at_most_once:
  assumes "codec_faithful env" and "tool_world env w" and "n \<in> all_intents (du_restored (ow_session w))"
  shows "(\<forall>x \<in> set (ow_effects w). \<exists>m \<in> all_intents (du_restored (ow_session w)). covers m x)
    \<and> (ii_replay_safety n = ReplayNever \<longrightarrow> times_run (ii_invocation n) (ow_effects w) \<le> 1)"
proof -
  let ?st = "du_restored (ow_session w)"
  have ok: "world_ok env w" using tool_world_ok [OF assms(1,2)] .
  then have "identities_ok ?st" using writer_identities by (auto simp: world_ok_def)
  then have "\<not> repeatable ?st (ii_invocation n)" if "ii_replay_safety n = ReplayNever"
    using assms(3) that by (fastforce simp: repeatable_def identities_ok_def)
  moreover have "1 < times_run (ii_invocation n) (ow_effects w) \<Longrightarrow> repeatable ?st (ii_invocation n)"
    and "\<forall>x \<in> set (ow_effects w). \<exists>m \<in> all_intents ?st. covers m x"
    using ok by (simp_all add: world_ok_def effects_intended_def)
  ultimately show ?thesis by (metis not_le)
qed

section \<open>What recovery decides and what it leaves\<close>

text \<open>C5: for an unfinished operation of any reachable session, recovery always has a plan. It finishes
  the operation exactly when every invocation has a result; it replays an invocation exactly when it
  is the first without a result, its tool is still registered under the contract of the intent, and
  both the intent and the current definition call it safe to replay; and it settles one
  invocation at most.\<close>

theorem recovery_replays_exactly:
  assumes "reachable_session codec st" and "bt_get (ss_details st) operation = Some d" and "op_finished d = None"
  shows "\<exists>actions. plan_recovery g d = Inr actions
    \<and> (FinishOperation \<in> set actions
        \<longleftrightarrow> set (op_invocation_order d) \<subseteq> {i. bt_contains (op_results d) i})
    \<and> (\<forall>i. ReplayExactInvocation i \<in> set actions
        \<longleftrightarrow> first_pending d = Some i
          \<and> (\<exists>n name t. bt_get (op_intents d) i = Some n
              \<and> ii_target n = ToolTarget name (tn_contract_version t)
              \<and> tool_definition_of g name = Some t
              \<and> ii_replay_safety n = ReplaySafe \<and> tn_replay_safety t = ReplaySafe))
    \<and> length (filter (\<lambda>a. \<not> settled_action a) actions) = 1"
proof -
  have "operation_ok operation d"
    using identities.reachable_inv [OF assms(1)] assms(2) by (simp add: identities_ok_def operations_ok_def)
  then have "\<forall>i \<in> set (op_invocation_order d). bt_get (op_intents d) i \<noteq> None"
    by (auto simp: operation_ok_def bt_contains_def)
  from plan_invocations_exist [OF this] obtain actions where
    plan: "plan_invocations g d (op_invocation_order d) = Inr actions" by blast
  from plan_invocations_last [OF this, folded first_pending_def] obtain before a where
    before: "actions = before @ [a]" "list_all settled_action before"
      "a = (case first_pending d of None \<Rightarrow> FinishOperation
        | Some i \<Rightarrow> pending_action g i (the (bt_get (op_intents d) i)))"
      "\<forall>i. first_pending d = Some i \<longrightarrow> bt_get (op_intents d) i \<noteq> None" by blast
  have open_action: "\<not> settled_action a"
    by (simp add: before(3) pending_action_not_settled split: option.split)
  have only: "x \<in> set actions \<longleftrightarrow> x = a" if "\<not> settled_action x" for x
    using before(1,2) that by (auto simp: list_all_iff)
  have one: "filter (\<lambda>a. \<not> settled_action a) actions = [a]"
    using before(1,2) open_action by (simp add: list_all_iff filter_empty_conv)
  have finish: "a = FinishOperation \<longleftrightarrow> first_pending d = None"
    by (auto simp: before(3) pending_action_def split: option.splits invocation_target.splits replay_safety.splits)
  have settled: "first_pending d = None \<longleftrightarrow> set (op_invocation_order d) \<subseteq> {i. bt_contains (op_results d) i}"
    by (auto simp: first_pending_def find_None_iff)
  have replay: "a = ReplayExactInvocation i \<longleftrightarrow> first_pending d = Some i
      \<and> (\<exists>n. bt_get (op_intents d) i = Some n \<and> pending_action g i n = ReplayExactInvocation i)" for i
  proof (cases "first_pending d")
    case (Some k)
    then obtain n where "bt_get (op_intents d) k = Some n" using before(4) by auto
    then show ?thesis using Some before(3) pending_replay [of g k n i] by auto
  qed (simp add: before(3))
  have decided: "pending_action g i n = ReplayExactInvocation i \<longleftrightarrow>
      (\<exists>name t. ii_target n = ToolTarget name (tn_contract_version t) \<and> tool_definition_of g name = Some t
        \<and> ii_replay_safety n = ReplaySafe \<and> tn_replay_safety t = ReplaySafe)" for i n
    using pending_replay [of g i n i] by (auto simp: pending_action_def)
  have "FinishOperation \<in> set actions \<longleftrightarrow> set (op_invocation_order d) \<subseteq> {i. bt_contains (op_results d) i}"
    using only [of FinishOperation] finish settled by auto
  moreover have "ReplayExactInvocation i \<in> set actions \<longleftrightarrow> a = ReplayExactInvocation i" for i
    using only [of "ReplayExactInvocation i"] by auto
  ultimately show ?thesis
    using plan assms(3) one by (intro exI [of _ actions]) (simp add: plan_recovery_def replay decided)
qed

text \<open>C6: when a recovery returns, the operation is finished as interrupted and every invocation of it has
  a result; nothing was executed, or the first invocation without a result was, once, without any
  outbound approval.\<close>

theorem recovery_finishes:
  assumes "codec_faithful env" and "tool_world env w" and "xo_env ex = env"
    and "execute_recovery ex operation w = (w', Inr actions)"
  shows "\<exists>d d'. bt_get (ss_details (du_restored (ow_session w))) operation = Some d \<and> op_finished d = None
    \<and> bt_get (ss_details (du_restored (ow_session w'))) operation = Some d'
    \<and> op_finished d' = Some OpInterrupted
    \<and> set (op_invocation_order d') \<subseteq> {i. bt_contains (op_results d') i}
    \<and> (ow_effects w' = ow_effects w
      \<or> (\<exists>i p. first_pending d = Some i \<and> ow_effects w' = ow_effects w @ [(i, p, recovery_context operation)]))"
proof -
  let ?st = "\<lambda>w. du_restored (ow_session w)"
  have w: "world_ok env w" using tool_world_ok [OF assms(1,2)] .
  obtain d w1 u where d: "bt_get (ss_details (?st w)) operation = Some d"
    and plan: "plan_recovery (xo_registry ex) d = Inr actions"
    and run: "run_actions ex (ss_workspace (?st w)) operation d actions w = (w1, Inr u)"
    and fin: "finish_interrupted ex operation w1 = (w', Inr ())"
    using assms(4) by (auto simp: execute_recovery_def Let_def eff_bind_def eff_return_def
        split: option.splits sum.splits prod.splits)
  obtain i where ran: "resettled env (ow_effects w) i operation w1"
    "first_pending d = Some i \<or> ow_effects w1 = ow_effects w"
    using run_actions_keeps [OF assms(3) w d plan, of "ss_workspace (?st w)"] run by auto
  then have w1: "world_ok env w1" by (simp add: resettled_def)
  obtain r s' where r: "finish_record (we_codec env) (ow_session w1) operation OpInterrupted = Inr r"
    and append: "append_record env r (ow_session w1) = (s', Inr ())" and w': "w' = w1\<lparr>ow_session := s'\<rparr>"
    using fin assms(3) by (auto simp: finish_interrupted_def commit_record_def commit_session_def split: sum.splits prod.splits)
  have step: "session_step (we_codec env) (?st w1) r (?st w')" and s': "writer_ok env s'"
    using append_record_step [OF assms(1) _ append] w1 w' by (simp_all add: world_ok_def)
  have edited: "edited_operation r = Some operation" "op_finished (operation_edit r x) = Some OpInterrupted" for x
    using r by (auto simp: finish_record_def split: option.splits if_splits)
  obtain x where "ss_details (?st w') = bt_insert operation (operation_edit r x) (ss_details (?st w1))"
    using step details_after edited(1) by (fastforce elim: session_stepE)
  then have d': "bt_get (ss_details (?st w')) operation = Some (operation_edit r x)" by (simp add: bt_get_insert)
  moreover have "operation_ok operation (operation_edit r x)"
    using writer_identities [OF s'] d' w' by (simp add: identities_ok_def operations_ok_def)
  moreover have "op_finished d = None" using plan by (simp add: plan_recovery_def split: if_splits)
  moreover have "ow_effects w' = ow_effects w1" by (simp add: w')
  ultimately show ?thesis
    using d edited(2) ran by (auto simp: resettled_def operation_ok_def)
qed

section \<open>Witnesses\<close>

text \<open>A state after one more record, when the codec knows its line and the record is valid.\<close>

definition line_of :: "record_envelope \<Rightarrow> u8 list" where
  "line_of e = [word_of_nat (rn_record_id e + 48), 125, 10]"

definition next_envelope :: "durable_session \<Rightarrow> session_record \<Rightarrow> record_envelope" where
  "next_envelope s r = new_envelope (du_drawn s + 1) (ls_session (du_store s)) r"

definition after :: "durable_session \<Rightarrow> session_record \<Rightarrow> durable_session" where
  "after s r =
     s\<lparr>du_store := (du_store s)\<lparr>ls_disk := ls_disk (du_store s) @ line_of (next_envelope s r),
         ls_committed_bytes := ls_committed_bytes (du_store s) + 3,
         ls_committed_records := ls_committed_records (du_store s) + 1\<rparr>,
       du_restored := (case apply_validated r (du_restored s) of None \<Rightarrow> du_restored s | Some st \<Rightarrow> st),
       du_record_ids := (du_drawn s + 1) # du_record_ids s,
       du_records := du_records s @ [next_envelope s r], du_drawn := du_drawn s + 1\<rparr>"

definition ready :: "record_envelope list \<Rightarrow> durable_session \<Rightarrow> session_record \<Rightarrow> bool" where
  "ready es s r =
     (next_envelope s r \<in> set es \<and> ls_writable (du_store s)
      \<and> ls_committed_bytes (du_store s) < 100 \<and> ls_committed_records (du_store s) < 100
      \<and> validate_envelope sample_session_codec (du_restored s) (du_record_ids s) (next_envelope s r)
          (length (du_records s)) None = Inr ()
      \<and> apply_validated r (du_restored s) \<noteq> None)"

lemma append_ready:
  assumes "ready es s r"
  shows "append_record (writer_for es None) r s = (after s r, Inr ())"
proof -
  obtain st where st: "apply_validated r (du_restored s) = Some st" using assms by (auto simp: ready_def)
  have "store_append (finite_codec es) None (next_envelope s r) (du_store s)
      = ((du_store s)\<lparr>ls_disk := ls_disk (du_store s) @ line_of (next_envelope s r),
         ls_committed_bytes := ls_committed_bytes (du_store s) + 3,
         ls_committed_records := ls_committed_records (du_store s) + 1\<rparr>, Inr ())"
    using assms by (simp add: ready_def next_envelope_def line_of_def store_simps)
  then show ?thesis
    using assms st by (simp add: append_record_def append_guarded_def draw_def eff_bind_def append_envelope_def
        writer_for_def after_def ready_def next_envelope_def Let_def new_envelope_def)
qed

lemma commit_ready:
  "xo_env ex = writer_for es None \<Longrightarrow> ready es (ow_session w) r \<Longrightarrow>
     commit_record ex r w = (w\<lparr>ow_session := after (ow_session w) r\<rparr>, Inr ())"
  by (simp add: commit_record_def commit_session_def append_ready)

lemma append_ready_message:
  assumes "e = ConversationEntryAppended \<lparr>et_id = du_drawn s + 1, et_parent = ss_head (du_restored s),
      et_agent = du_agent s, et_message = m\<rparr>"
    and "s1 = s\<lparr>du_drawn := du_drawn s + 1\<rparr>" and "ready es s1 e"
    and "h = ThreadHeadMoved (ss_thread (du_restored s)) (Some (du_drawn s + 1))" and "ready es (after s1 e) h"
  shows "append_message (writer_for es None) m s = (after (after s1 e) h, Inr (du_drawn s + 1))"
proof -
  have "we_fresh (writer_for es None) n = n + 1" for n by (simp add: writer_for_def)
  then show ?thesis
    using append_ready [OF assms(3)] append_ready [OF assms(5)]
    by (simp add: append_message_def eff_bind_def draw_def Let_def eff_return_def assms(1,2,4))
qed

text \<open>A tool that must not be repeated, and a process that dies between its effect and its result.\<close>

definition remove_tool :: tool_definition where
  "remove_tool = \<lparr>tn_name = rstr ''rm'', tn_contract_version = 1, tn_description = [], tn_parameters = JNull,
     tn_effect = Write, tn_replay_safety = ReplayNever\<rparr>"

definition remove_implementation :: tool_implementation where
  "remove_implementation = \<lparr>ti_definition = remove_tool, ti_plan = (\<lambda>a w u. Inr (new_planned a Unscoped)),
     ti_disposition = (\<lambda>p. Inr None), ti_execute = (\<lambda>p x. Inr (rstr ''ok''))\<rparr>"

definition remove_registry :: tool_registry where
  "remove_registry = \<lparr>tg_tools = [\<lparr>rt_definition = remove_tool, rt_implementation = remove_implementation,
     rt_advertised = True\<rparr>], tg_unavailable = []\<rparr>"

definition remove_fact :: audit_fact where
  "remove_fact =
     \<lparr>af_request = \<lparr>rq_operation = 20, rq_invocation = 40, rq_tool = rstr ''rm'', rq_effect = Write,
        rq_arguments = JNull, rq_scope = Unscoped, rq_outbound = None\<rparr>,
      af_policy = Allow, af_controller = None, af_effective = Allow\<rparr>"

definition remove_intent :: invocation_intent where
  "remove_intent =
     \<lparr>ii_operation = 20, ii_step = 30, ii_invocation = 40, ii_result = 10, ii_model_call = [99],
      ii_target = ToolTarget (rstr ''rm'') 1, ii_arguments = JNull, ii_permission = remove_fact,
      ii_replay_safety = ReplayNever\<rparr>"

definition remove_lines :: "record_envelope list" where
  "remove_lines = map (\<lambda>(i, r). new_envelope i 9 r)
     [(2, SessionCreated 1 []),
      (5, ConversationEntryAppended \<lparr>et_id = 4, et_parent = None, et_agent = 1009, et_message = text_message UserRole []\<rparr>),
      (6, ThreadHeadMoved 1 (Some 4)), (7, OperationAccepted 20 1 4), (8, StepStarted 20 30 4),
      (9, PermissionAudited remove_fact), (11, InvocationIntentAppended remove_intent),
      (10, OperationFinished 20 OpInterrupted)]"

definition remove_executor :: executor where
  "remove_executor =
     \<lparr>xo_env = writer_for remove_lines None, xo_registry = remove_registry, xo_workspace = [],
      xo_authorize = (\<lambda>q. Inr (AuthAllowed
        \<lparr>af_request = q, af_policy = Allow, af_controller = None, af_effective = Allow\<rparr>)),
      xo_reached = (\<lambda>site. site \<noteq> AfterEffectBeforeResult), xo_owner = None,
      xo_observed_status = (\<lambda>s. None), xo_artifact_json = (\<lambda>a. JNull), xo_show_id = (\<lambda>i. []),
      xo_graphic = (\<lambda>c. True)\<rparr>"

definition remove_call :: tool_call where
  "remove_call = \<lparr>tc_id = [99], tc_name = rstr ''rm'', tc_arguments = JNull\<rparr>"

definition remove_prepared :: prepared_invocation where
  "remove_prepared = \<lparr>pi_call = [99], pi_definition = remove_tool, pi_implementation = remove_implementation,
     pi_planned = new_planned JNull Unscoped\<rparr>"

text \<open>The sessions of the run, by the records that lead to them; an identifier is drawn in between.\<close>

definition drawn_once :: "durable_session \<Rightarrow> durable_session" where
  "drawn_once s = s\<lparr>du_drawn := du_drawn s + 1\<rparr>"

definition asked :: session_record where
  "asked = ConversationEntryAppended
     \<lparr>et_id = 4, et_parent = None, et_agent = 1009, et_message = text_message UserRole []\<rparr>"

definition headed :: durable_session where
  "headed = after (after (drawn_once opened) asked) (ThreadHeadMoved 1 (Some 4))"

definition stepped :: durable_session where
  "stepped = after (after headed (OperationAccepted 20 1 4)) (StepStarted 20 30 4)"

definition audited :: durable_session where
  "audited = drawn_once (after stepped (PermissionAudited remove_fact))"

definition intended :: durable_session where
  "intended = after audited (InvocationIntentAppended remove_intent)"

lemma remove_ready:
  "ready remove_lines (drawn_once opened) asked"
  "ready remove_lines (after (drawn_once opened) asked) (ThreadHeadMoved 1 (Some 4))"
  "ready remove_lines headed (OperationAccepted 20 1 4)"
  "ready remove_lines (after headed (OperationAccepted 20 1 4)) (StepStarted 20 30 4)"
  "ready remove_lines stepped (PermissionAudited remove_fact)"
  "ready remove_lines audited (InvocationIntentAppended remove_intent)"
  "ready remove_lines (drawn_once stepped) (OperationFinished 20 OpInterrupted)"
  by code_simp+

abbreviation remove_env :: writer_env where
  "remove_env \<equiv> writer_for remove_lines None"

lemma remove_codec: "codec_faithful remove_env"
  by (rule finite_codec_faithful) (simp add: small_ids_def remove_lines_def new_envelope_def SESSION_RECORD_VERSION_def)

lemma remove_created: "create_with_id remove_env 0 [] 9 = Inr opened"
  by (simp add: create_with_id_def store_create_def store_result_def from_open_store_def reduce_result_def
      reduce_def check_reduced_def conversation_path_def entry_path_def validate_branch_history_def
      validate_envelope_def opened_def empty_session_def sample_session_codec_def vision_codec.defs
      session_codec.defs store_simps remove_lines_def)

lemma remove_asked: "append_message remove_env (text_message UserRole []) opened = (headed, Inr 4)"
  using append_ready_message [of asked opened "text_message UserRole []" "drawn_once opened" remove_lines
      "ThreadHeadMoved 1 (Some 4)"] remove_ready(1,2)
  by (simp add: asked_def drawn_once_def opened_def empty_session_def headed_def)

lemma remove_stepped: "tool_world remove_env \<lparr>ow_session = stepped, ow_effects = []\<rparr>"
proof -
  note opened = tool_world.opened [OF remove_created]
  from tool_world.wrote [OF opened, of "OpMessage (text_message UserRole [])"]
  have "tool_world remove_env \<lparr>ow_session = headed, ow_effects = []\<rparr>" by (simp add: remove_asked)
  from tool_world.wrote [OF this, of "OpAppend (OperationAccepted 20 1 4)"]
  have "tool_world remove_env \<lparr>ow_session = after headed (OperationAccepted 20 1 4), ow_effects = []\<rparr>"
    by (simp add: append_ready [OF remove_ready(3)] del: One_nat_def)
  from tool_world.wrote [OF this, of "OpAppend (StepStarted 20 30 4)"] show ?thesis
    by (simp add: append_ready [OF remove_ready(4)] stepped_def del: One_nat_def)
qed

definition crashed_world :: op_world where
  "crashed_world = \<lparr>ow_session = intended,
     ow_effects = [(40, remove_prepared, \<lparr>xe_operation = 20, xe_approval = None\<rparr>)]\<rparr>"

lemma remove_invoked:
  "invoke_tool remove_executor 20 30 40 remove_call \<lparr>ow_session = stepped, ow_effects = []\<rparr>
     = (crashed_world, Inl (StoppedAt AfterEffectBeforeResult))"
proof -
  have env: "xo_env remove_executor = remove_env" by (simp add: remove_executor_def)
  have plan: "plan_in_turn (xo_graphic remove_executor) (xo_registry remove_executor) remove_call
      (xo_workspace remove_executor) (xo_owner remove_executor) = Inr remove_prepared"
    by (simp add: plan_in_turn_def remove_executor_def remove_registry_def find_tool_def remove_call_def
        remove_tool_def remove_implementation_def remove_prepared_def)
  have ask: "permission_request_of remove_prepared 20 40 = af_request remove_fact"
    by (simp add: permission_request_of_def remove_prepared_def remove_tool_def new_planned_def remove_fact_def)
  have answer: "xo_authorize remove_executor (af_request remove_fact) = Inr (AuthAllowed remove_fact)"
    by (simp add: remove_executor_def remove_fact_def)
  have audit: "commit_record remove_executor (PermissionAudited remove_fact) \<lparr>ow_session = stepped, ow_effects = []\<rparr>
      = (\<lparr>ow_session = after stepped (PermissionAudited remove_fact), ow_effects = []\<rparr>, Inr ())"
    using commit_ready [OF env, of "\<lparr>ow_session = stepped, ow_effects = []\<rparr>"] remove_ready(5) by simp
  have drawn: "new_identifier remove_executor \<lparr>ow_session = after stepped (PermissionAudited remove_fact), ow_effects = []\<rparr>
      = (\<lparr>ow_session = audited, ow_effects = []\<rparr>, Inr 10)"
  proof -
    have "du_drawn (after stepped (PermissionAudited remove_fact)) = 9"
      by (simp add: after_def stepped_def headed_def drawn_once_def opened_def)
    then show ?thesis
      by (simp add: new_identifier_def commit_session_def eff_bind_def draw_def eff_return_def env writer_for_def
          audited_def drawn_once_def)
  qed
  have intent: "intent_of remove_prepared 20 30 40 10 remove_fact = remove_intent"
    by (simp add: intent_of_def remove_intent_def remove_prepared_def remove_tool_def new_planned_def)
  have commit: "commit_record remove_executor (InvocationIntentAppended remove_intent) \<lparr>ow_session = audited, ow_effects = []\<rparr>
      = (\<lparr>ow_session = intended, ow_effects = []\<rparr>, Inr ())"
    using commit_ready [OF env, of "\<lparr>ow_session = audited, ow_effects = []\<rparr>"] remove_ready(6) by (simp add: intended_def)
  have boundary: "reached remove_executor site w = (w, if site = AfterEffectBeforeResult
      then Inl (StoppedAt AfterEffectBeforeResult) else Inr ())" for site w
    by (simp add: reached_def remove_executor_def eff_return_def eff_fail_def)
  have run: "run_tool 40 remove_prepared (authorized_context 20 (AuthAllowed remove_fact))
      \<lparr>ow_session = intended, ow_effects = []\<rparr> = (crashed_world, Inr (Inr (rstr ''ok'')))"
    by (simp add: run_tool_def crashed_world_def authorized_context_def remove_fact_def remove_prepared_def
        remove_implementation_def)
  have "invoke_prepared remove_executor 20 30 40 remove_prepared (AuthAllowed remove_fact)
      \<lparr>ow_session = stepped, ow_effects = []\<rparr> = (crashed_world, Inl (StoppedAt AfterEffectBeforeResult))"
    by (simp add: invoke_prepared_def execute_authorized_def fact_of_def eff_bind_def audit drawn intent commit
        boundary run Let_def)
  moreover have owner: "xo_owner remove_executor = None" by (simp add: remove_executor_def)
  moreover have "tn_contract_version (pi_definition remove_prepared) = 1"
    by (simp add: remove_prepared_def remove_tool_def)
  ultimately show ?thesis
    by (simp add: invoke_tool_def plan [unfolded owner] ask answer)
qed

lemma crashed_reached: "tool_world remove_env crashed_world"
proof -
  have "xo_env remove_executor = remove_env" by (simp add: remove_executor_def)
  from tool_world.invoked [OF remove_stepped this, of 20 30 40 remove_call] show ?thesis
    by (simp add: remove_invoked)
qed

lemma intended_operation:
  "bt_get (ss_details (du_restored intended)) 20 = Some (operation_edit (InvocationIntentAppended remove_intent)
     (operation_edit (StepStarted 20 30 4) (fresh_operation 20 1 4 None)))"
  by code_simp

lemma intended_intent: "remove_intent \<in> all_intents (du_restored intended)"
proof -
  have "bt_get (op_intents (operation_edit (InvocationIntentAppended remove_intent)
     (operation_edit (StepStarted 20 30 4) (fresh_operation 20 1 4 None)))) 40 = Some remove_intent"
    by code_simp
  with intended_operation show ?thesis unfolding all_intents_def by blast
qed

theorem effects_at_most_once_witness:
  "tool_world remove_env crashed_world \<and> ow_effects crashed_world \<noteq> []
     \<and> remove_intent \<in> all_intents (du_restored (ow_session crashed_world))
     \<and> times_run (ii_invocation remove_intent) (ow_effects crashed_world) \<le> 1"
proof -
  have intent: "remove_intent \<in> all_intents (du_restored (ow_session crashed_world))"
    using intended_intent by (simp add: crashed_world_def)
  have "ii_replay_safety remove_intent = ReplayNever" by (simp add: remove_intent_def)
  then show ?thesis
    using effects_at_most_once [OF remove_codec crashed_reached intent] crashed_reached intent
    by (simp add: crashed_world_def)
qed

theorem recovery_replays_exactly_witness:
  "\<exists>st d actions. reachable_session sample_session_codec st \<and> bt_get (ss_details st) 20 = Some d
     \<and> op_invocation_order d = [40] \<and> plan_recovery remove_registry d = Inr actions
     \<and> ReplayExactInvocation 40 \<notin> set actions \<and> FinishOperation \<notin> set actions"
proof -
  let ?st = "du_restored intended"
  define d where "d = operation_edit (InvocationIntentAppended remove_intent)
     (operation_edit (StepStarted 20 30 4) (fresh_operation 20 1 4 None))"
  have "writer_ok remove_env intended"
    using tool_world_ok [OF remove_codec crashed_reached] by (simp add: world_ok_def crashed_world_def)
  then have "reachable_session sample_session_codec ?st"
    using replay_reachable by (auto simp: writer_ok_def writer_for_def)
  moreover have "bt_get (ss_details ?st) 20 = Some d" by (simp add: d_def intended_operation)
  moreover have "op_finished d = None" "op_invocation_order d = [40]" "op_results d = []"
      "bt_get (op_intents d) 40 = Some remove_intent"
    unfolding d_def by code_simp+
  moreover from this have "\<not> bt_contains (op_results d) 40" by (simp add: bt_contains_def bt_get_def)
  ultimately show ?thesis
    using recovery_replays_exactly [of sample_session_codec ?st 20 d remove_registry]
    by (intro exI [of _ ?st] exI [of _ d]) (auto simp: remove_intent_def)
qed

text \<open>Another process recovers the operation before any tool call; an append was rejected before.\<close>

definition finished_world :: op_world where
  "finished_world = \<lparr>ow_session = after (drawn_once stepped) (OperationFinished 20 OpInterrupted), ow_effects = []\<rparr>"

lemma remove_rejected: 
  "append_record remove_env (ThreadHeadMoved 5 None) stepped
     = (drawn_once stepped, Inl (RecordRejected (UnknownThread 5)))"
proof -
  have "validate_envelope sample_session_codec (du_restored stepped) (du_record_ids stepped)
      (new_envelope 9 9 (ThreadHeadMoved 5 None)) (length (du_records stepped)) None = Inl (UnknownThread 5)"
    "du_drawn stepped = 8" "ls_session (du_store stepped) = 9"
    by code_simp+
  then show ?thesis
    by (simp add: append_record_def append_guarded_def draw_def eff_bind_def append_envelope_def writer_for_def drawn_once_def)
qed

lemma remove_recovered:
  "execute_recovery remove_executor 20 \<lparr>ow_session = drawn_once stepped, ow_effects = []\<rparr>
     = (finished_world, Inr [FinishOperation])"
proof -
  have env: "xo_env remove_executor = remove_env" by (simp add: remove_executor_def)
  let ?d = "operation_edit (StepStarted 20 30 4) (fresh_operation 20 1 4 None)"
  have d: "bt_get (ss_details (du_restored (drawn_once stepped))) 20 = Some ?d" by code_simp
  have order: "op_invocation_order ?d = []" "op_finished ?d = None" "op_adapter ?d = None" by code_simp+
  have "finish_interrupted remove_executor 20 \<lparr>ow_session = drawn_once stepped, ow_effects = []\<rparr>
      = (finished_world, Inr ())"
    using commit_ready [OF env, of "\<lparr>ow_session = drawn_once stepped, ow_effects = []\<rparr>"] remove_ready(7)
    by (simp add: finish_interrupted_def finish_record_def d order finished_world_def fresh_operation_def)
  then show ?thesis
    by (simp add: execute_recovery_def Let_def d plan_recovery_def order eff_bind_def eff_return_def
        fresh_operation_def)
qed

theorem recovery_finishes_witness:
  "\<exists>w w' d. tool_world remove_env w \<and> execute_recovery remove_executor 20 w = (w', Inr [FinishOperation])
     \<and> bt_get (ss_details (du_restored (ow_session w'))) 20 = Some d \<and> op_finished d = Some OpInterrupted"
proof -
  have "tool_world remove_env \<lparr>ow_session = drawn_once stepped, ow_effects = []\<rparr>"
    using tool_world.wrote [OF remove_stepped, of "OpAppend (ThreadHeadMoved 5 None)"] by (simp add: remove_rejected)
  moreover have "xo_env remove_executor = remove_env" by (simp add: remove_executor_def)
  ultimately show ?thesis
    using recovery_finishes [OF remove_codec _ _ remove_recovered] remove_recovered by blast
qed

end
