(* ===== verification/Autonomy_Jobs.thy ===== *)
theory Autonomy_Jobs
  imports Completion_Evidence Bounded_Text "HOL-Library.List_Lexorder"
begin

text \<open>
  The domain of scheduled work, \<open>src/src/autonomy.rs\<close>: owner-authored jobs, their schedules
  (\<open>autonomy/calendar.rs\<close>), the receipts of their runs, and the deterministic observation of
  trigger sources (\<open>autonomy/triggers.rs\<close>, \<open>triggers/files.rs\<close>, \<open>triggers/github.rs\<close>).
  Instants are \<open>i64\<close> seconds, read as integers with the saturating operations written out. The
  time-zone database, the JSON encoder, the hash of a snapshot, a scan of the file system and
  the reply of the CI service are arguments.
\<close>

section \<open>Instants\<close>

definition i64_sat :: "int \<Rightarrow> int" where
  "i64_sat n = max (- (2 ^ 63)) (min (2 ^ 63 - 1) n)"

definition i64_sat_add :: "int \<Rightarrow> int \<Rightarrow> int" where "i64_sat_add a b = i64_sat (a + b)"
definition i64_sat_sub :: "int \<Rightarrow> int \<Rightarrow> int" where "i64_sat_sub a b = i64_sat (a - b)"

definition is_i64 :: "int \<Rightarrow> bool" where "is_i64 n = (- (2 ^ 63) \<le> n \<and> n < 2 ^ 63)"

section \<open>Data\<close>

definition JOB_BYTES :: nat where "JOB_BYTES = 64 * 1024"
definition PAGE_SIZE :: nat where "PAGE_SIZE = 32"
definition QUEUE_LIMIT :: nat where "QUEUE_LIMIT = 1000"
definition RUN_SECONDS :: u64 where "RUN_SECONDS = 120"
definition JOB_TOKENS :: u64 where "JOB_TOKENS = 8192"

record task_budget =
  tb_conservative_tokens :: u64
  tb_run_seconds :: u64
  tb_daily_tokens :: u64

definition default_task_budget :: task_budget where
  "default_task_budget =
     \<lparr>tb_conservative_tokens = JOB_TOKENS, tb_run_seconds = RUN_SECONDS, tb_daily_tokens = 32768\<rparr>"

record task_scope =
  sc_workspace :: path
  sc_workspace_identity :: rust_string
  sc_project :: "uuid option"
  sc_profile :: rust_string
  sc_profile_id :: uuid
  sc_configuration_digest :: rust_string
  sc_connection :: rust_string
  sc_model :: rust_string
  sc_endpoint :: rust_string

datatype task_action = Reminder rust_string | NativeTask rust_string bool

datatype job_state =
  JobReady | JobRunning | JobCancelRequested | JobPaused | JobNeedsYou | JobCompleted
| JobCancelled | JobExpired

fun state_code :: "job_state \<Rightarrow> nat" where
  "state_code JobReady = 0"
| "state_code JobRunning = 1"
| "state_code JobCancelRequested = 2"
| "state_code JobPaused = 3"
| "state_code JobNeedsYou = 4"
| "state_code JobCompleted = 5"
| "state_code JobCancelled = 6"
| "state_code JobExpired = 7"

definition state_active :: "job_state \<Rightarrow> bool" where
  "state_active s = (state_code s < 5)"

text \<open>The numbers of \<open>Daily\<close> are \<open>i8\<close> and the poll interval is \<open>u32\<close>.\<close>

datatype schedule = Once int | Daily rust_string int int | Triggered u32

record scheduled_occurrence =
  oc_at :: int
  oc_local_date :: rust_string
  oc_dst_adjusted :: bool

record observation =
  ob_last_checked :: "int option"
  ob_last_event :: "int option"
  ob_pending :: bool
  ob_status :: rust_string
  ob_failures :: u32

record file_trigger =
  ft_root :: path
  ft_identity :: rust_string
  ft_baseline :: "(rust_string, rust_string) btree"
  ft_candidate :: "(rust_string \<times> int) option"
  ft_unknown_generation :: u64
  ft_observation :: observation

record own_outputs =
  ow_files :: "(rust_string, rust_string \<times> int) btree"
  ow_unknown_generation :: u64

datatype credential_reference = EnvironmentCredential rust_string | StoredCredential rust_string

record run_status =
  rs_attempt :: u64
  rs_head_sha :: rust_string
  rs_status :: rust_string
  rs_conclusion :: "rust_string option"
  rs_updated_at :: int

record github_trigger =
  gt_repository :: rust_string
  gt_run :: u64
  gt_credential :: credential_reference
  gt_last :: "run_status option"
  gt_etag :: "rust_string option"
  gt_observation :: observation

datatype trigger = Files file_trigger | Github github_trigger

datatype run_outcome = RunCompleted | RunNeedsYou | RunUnknown | RunCancelled | RunExpired

record run_receipt =
  rr_completion :: "completion_evidence option"
  rr_occurrence :: uuid
  rr_scheduled_at :: int
  rr_finished_at :: int
  rr_outcome :: run_outcome
  rr_detail :: rust_string
  rr_coalesced :: bool
  rr_dst_adjusted :: bool

record job =
  jb_id :: uuid
  jb_revision :: u64
  jb_conversation :: uuid
  jb_name :: rust_string
  jb_scope :: task_scope
  jb_action :: task_action
  jb_budget :: task_budget
  jb_schedule :: schedule
  jb_trigger :: "trigger option"
  jb_expires_at :: int
  jb_authorized :: bool
  jb_state :: job_state
  jb_next :: scheduled_occurrence
  jb_not_before :: int
  jb_occurrence :: "uuid option"
  jb_pause_after_run :: bool
  jb_last_receipt :: "run_receipt option"

datatype job_edit = PauseEdit | ResumeEdit bool | CancelEdit

record host_policy =
  hp_revision :: u64
  hp_detached_enabled :: bool
  hp_startup_enabled :: bool
  hp_stop_requested :: bool
  hp_lock_requested :: bool

definition default_host_policy :: host_policy where
  "default_host_policy =
     \<lparr>hp_revision = 0, hp_detached_enabled = False, hp_startup_enabled = False,
      hp_stop_requested = False, hp_lock_requested = False\<rparr>"

text \<open>
  The time-zone database: what an instant and a civil time read as in one zone. A civil time
  inside a gap is read with the offset after the gap; otherwise the earlier instant is taken.
  Dates are opaque day numbers.
\<close>

datatype civil_reading = InGap "int option" | Exists "int option"

record time_zone =
  tz_date :: "int \<Rightarrow> nat"
  tz_reading :: "nat \<Rightarrow> int \<Rightarrow> int \<Rightarrow> civil_reading"
  tz_following :: "int \<Rightarrow> int option"

record calendar =
  cal_zone :: "rust_string \<Rightarrow> time_zone option"
  cal_instant :: "int \<Rightarrow> bool"
  cal_tomorrow :: "nat \<Rightarrow> nat option"
  cal_text :: "nat \<Rightarrow> rust_string"

record autonomy_env =
  av_codec :: evidence_codec
  av_calendar :: calendar
  av_job_json :: "job \<Rightarrow> nat"
  av_receipt_json :: "run_receipt \<Rightarrow> nat"

datatype autonomy_error =
  InvalidJobRevision | InvalidJobIdentity | InvalidJobName | InvalidWorkspaceScope
| InvalidTaskRoute | InvalidTaskText | PollInterval | OneShotInstant | TimestampRange
| InvalidDaily | UnknownZone | NoTransition | GapBound | CivilRange | NoBoundedOccurrence
| NoNextOccurrence | TriggerScheduleDisagree | InvalidObservation | InvalidWatcherRoot
| WatcherSnapshot | InvalidRepository | InvalidRun | InvalidCredentialSource
| InvalidExecutionIdentity | UnsupportedStatus | UnsupportedConclusion | InconsistentTerminal
| UnsupportedBudget | InvalidJobTime | InvalidRunningOccurrence | JobRecordBound
| ReceiptEvidence evidence_error | ForeignEvidence | ContradictedCompletion | InvalidReceipt
| UnattributedEffects | GenerationExhausted | NoValidatorBaseline | CredentialDenied
| RetryDelayBound | RetryBudget | RunUnavailable | ResponseBound | WireDecode | ResourceChanged
| RunChanged

section \<open>The calendar\<close>

definition validate_schedule :: "calendar \<Rightarrow> schedule \<Rightarrow> autonomy_error + unit" where
  "validate_schedule cal s =
     (case s of
        Triggered poll \<Rightarrow> ensure (5 \<le> poll \<and> poll \<le> 3600) PollInterval
      | Once at \<Rightarrow>
          res_bind (ensure (at > 0) OneShotInstant)
          (\<lambda>_. ensure (cal_instant cal at) TimestampRange)
      | Daily zone hour minute \<Rightarrow>
          res_bind (ensure (str_len zone \<le> 128 \<and> 0 \<le> hour \<and> hour < 24
              \<and> 0 \<le> minute \<and> minute < 60) InvalidDaily)
          (\<lambda>_. res_bind (ok_or (cal_zone cal zone) UnknownZone) (\<lambda>_. Inr ())))"

definition on_date ::
  "calendar \<Rightarrow> time_zone \<Rightarrow> nat \<Rightarrow> int \<Rightarrow> int \<Rightarrow> autonomy_error + scheduled_occurrence" where
  "on_date cal zone date hour minute =
     res_bind
       (case tz_reading zone date hour minute of
          InGap before \<Rightarrow>
            res_bind (ok_or before CivilRange)
            (\<lambda>b. res_bind (ok_or (tz_following zone b) NoTransition)
            (\<lambda>t. res_bind (ensure (t - b \<le> 48 * 3600) GapBound)
            (\<lambda>_. Inr (t, True))))
        | Exists earlier \<Rightarrow> res_bind (ok_or earlier CivilRange) (\<lambda>t. Inr (t, False)))
     (\<lambda>(t, adjusted).
        Inr \<lparr>oc_at = t, oc_local_date = cal_text cal date, oc_dst_adjusted = adjusted\<rparr>)"

text \<open>The loop of \<open>after\<close>: at most three dates, the first occurrence later than \<open>now\<close>.\<close>

fun search_dates ::
  "calendar \<Rightarrow> time_zone \<Rightarrow> int \<Rightarrow> int \<Rightarrow> int \<Rightarrow> nat \<Rightarrow> nat
    \<Rightarrow> autonomy_error + scheduled_occurrence option" where
  "search_dates cal zone hour minute now 0 date = Inl NoBoundedOccurrence"
| "search_dates cal zone hour minute now (Suc n) date =
     res_bind (on_date cal zone date hour minute)
     (\<lambda>occurrence.
        if oc_at occurrence > now then Inr (Some occurrence)
        else res_bind (ok_or (cal_tomorrow cal date) CivilRange)
             (search_dates cal zone hour minute now n))"

definition triggered_occurrence :: "int \<Rightarrow> u32 \<Rightarrow> scheduled_occurrence" where
  "triggered_occurrence now poll =
     \<lparr>oc_at = i64_sat_add now (uint poll), oc_local_date = [], oc_dst_adjusted = False\<rparr>"

definition schedule_after ::
  "calendar \<Rightarrow> schedule \<Rightarrow> int \<Rightarrow> autonomy_error + scheduled_occurrence option" where
  "schedule_after cal s now =
     (case s of
        Triggered poll \<Rightarrow>
          res_bind (validate_schedule cal s) (\<lambda>_. Inr (Some (triggered_occurrence now poll)))
      | Once at \<Rightarrow> Inr None
      | Daily name hour minute \<Rightarrow>
          res_bind (ok_or (cal_zone cal name) UnknownZone)
          (\<lambda>zone. res_bind (ensure (cal_instant cal now) TimestampRange)
          (\<lambda>_. search_dates cal zone hour minute now 3 (tz_date zone now))))"

definition schedule_first ::
  "calendar \<Rightarrow> schedule \<Rightarrow> int \<Rightarrow> autonomy_error + scheduled_occurrence" where
  "schedule_first cal s now =
     res_bind (validate_schedule cal s)
     (\<lambda>_. case s of
        Triggered poll \<Rightarrow> Inr (triggered_occurrence now poll)
      | Once at \<Rightarrow> Inr \<lparr>oc_at = at, oc_local_date = [], oc_dst_adjusted = False\<rparr>
      | Daily _ _ _ \<Rightarrow>
          res_bind (schedule_after cal s now) (\<lambda>found. ok_or found NoNextOccurrence))"

section \<open>Trigger sources\<close>

definition default_observation :: observation where
  "default_observation =
     \<lparr>ob_last_checked = None, ob_last_event = None, ob_pending = False, ob_status = [],
      ob_failures = 0\<rparr>"

definition same_source :: "trigger \<Rightarrow> trigger \<Rightarrow> bool" where
  "same_source a b =
     (case (a, b) of
        (Files l, Files r) \<Rightarrow> ft_root l = ft_root r \<and> ft_identity l = ft_identity r
      | (Github l, Github r) \<Rightarrow>
          gt_repository l = gt_repository r \<and> gt_run l = gt_run r
          \<and> gt_credential l = gt_credential r
      | _ \<Rightarrow> False)"

fun trigger_observation :: "trigger \<Rightarrow> observation" where
  "trigger_observation (Files v) = ft_observation v"
| "trigger_observation (Github v) = gt_observation v"

text \<open>A write through \<open>observation_mut\<close>.\<close>

fun update_observation :: "(observation \<Rightarrow> observation) \<Rightarrow> trigger \<Rightarrow> trigger" where
  "update_observation f (Files v) = Files (v\<lparr>ft_observation := f (ft_observation v)\<rparr>)"
| "update_observation f (Github v) = Github (v\<lparr>gt_observation := f (gt_observation v)\<rparr>)"

definition trigger_completed :: "trigger \<Rightarrow> bool" where
  "trigger_completed t =
     (case t of
        Github v \<Rightarrow> (case gt_last v of Some l \<Rightarrow> rs_status l = rstr ''completed'' | None \<Rightarrow> False)
      | _ \<Rightarrow> False)"

subsection \<open>Watched files\<close>

definition MAX_ENTRIES :: nat where "MAX_ENTRIES = 256"

definition validate_file_trigger :: "file_trigger \<Rightarrow> path \<Rightarrow> autonomy_error + unit" where
  "validate_file_trigger v workspace =
     res_bind (ensure (is_absolute (ft_root v) \<and> path_starts_with (ft_root v) workspace
         \<and> str_len (ft_identity v) = 64) InvalidWatcherRoot)
     (\<lambda>_. ensure (length (ft_baseline v) \<le> MAX_ENTRIES
         \<and> list_all (\<lambda>(k, d). str_len k = 64 \<and> str_len d = 64) (ft_baseline v)) WatcherSnapshot)"

text \<open>One iteration of the loop that absorbs the sampled revision of an output of the program.\<close>

definition absorb_output ::
  "int \<Rightarrow> (rust_string, rust_string) btree \<Rightarrow> rust_string \<times> rust_string \<times> int
    \<Rightarrow> (rust_string, rust_string) btree \<Rightarrow> (rust_string, rust_string) btree" where
  "absorb_output now current e baseline =
     (case e of (k, fp, at) \<Rightarrow>
        if i64_sat_sub now at \<le> 86400 \<and> bt_get current k = Some fp
        then bt_insert k fp baseline else baseline)"

definition absorb_outputs ::
  "int \<Rightarrow> (rust_string, rust_string) btree \<Rightarrow> own_outputs \<Rightarrow> (rust_string, rust_string) btree
    \<Rightarrow> (rust_string, rust_string) btree" where
  "absorb_outputs now current own baseline = fold (absorb_output now current) (ow_files own) baseline"

definition unchanged_text :: rust_string where
  "unchanged_text = rstr ''Unchanged; no model call or notification''"

definition stable_text :: rust_string where
  "stable_text =
     rstr ''Stable selected-file change; fixed owner-authored action is ready (file contents are not instructions)''"

definition coalescing_text :: rust_string where
  "coalescing_text = rstr ''Coalescing selected-file changes until the snapshot is stable''"

text \<open>
  \<open>observe\<close> of \<open>files.rs\<close> after the scan: \<open>current\<close> is the snapshot, \<open>own\<close> the recorded outputs
  of the program and \<open>H\<close> the digest of a snapshot's encoding.
\<close>

definition observe_files ::
  "((rust_string, rust_string) btree \<Rightarrow> rust_string) \<Rightarrow> own_outputs
    \<Rightarrow> (rust_string, rust_string) btree \<Rightarrow> file_trigger \<Rightarrow> int \<Rightarrow> autonomy_error + file_trigger"
where
  "observe_files H own current watch now =
     (let w = watch\<lparr>ft_baseline := absorb_outputs now current own (ft_baseline watch),
                ft_observation := (ft_observation watch)\<lparr>ob_last_checked := Some now\<rparr>\<rparr>;
          say = (\<lambda>t o'. o'\<lparr>ob_status := t\<rparr>)
      in if current = ft_baseline w then
           Inr (w\<lparr>ft_unknown_generation := ow_unknown_generation own, ft_candidate := None,
             ft_observation := say unchanged_text (ft_observation w)\<rparr>)
         else res_bind (ensure (ow_unknown_generation own = ft_unknown_generation w)
                UnattributedEffects)
           (\<lambda>_. Inr
             (case ft_candidate w of
                Some (prior, since) \<Rightarrow>
                  if prior = H current then
                    if i64_sat_sub now since \<ge> 2 then
                      w\<lparr>ft_baseline := current, ft_candidate := None,
                        ft_observation := say stable_text
                          ((ft_observation w)\<lparr>ob_pending := True, ob_last_event := Some now\<rparr>)\<rparr>
                    else w
                  else w\<lparr>ft_candidate := Some (H current, now),
                         ft_observation := say coalescing_text (ft_observation w)\<rparr>
              | None \<Rightarrow> w\<lparr>ft_candidate := Some (H current, now),
                         ft_observation := say coalescing_text (ft_observation w)\<rparr>)))"

text \<open>The update \<open>record_invocation\<close> makes to the recorded outputs after an allowed invocation.\<close>

definition bump_generation :: "own_outputs \<Rightarrow> autonomy_error + own_outputs" where
  "bump_generation own =
     res_bind (ok_or (checked_add (ow_unknown_generation own) 1) GenerationExhausted)
     (\<lambda>g. Inr (own\<lparr>ow_unknown_generation := g\<rparr>))"

definition retain_recent :: "int \<Rightarrow> own_outputs \<Rightarrow> own_outputs" where
  "retain_recent now own =
     own\<lparr>ow_files := filter (\<lambda>(_, _, at). i64_sat_sub now at \<le> 86400) (ow_files own)\<rparr>"

definition record_output ::
  "int \<Rightarrow> (rust_string \<times> rust_string) option \<Rightarrow> own_outputs \<Rightarrow> autonomy_error + own_outputs" where
  "record_output now output own0 =
     (let own = retain_recent now own0
      in case output of
           Some (k, fp) \<Rightarrow>
             res_bind
               (if MAX_ENTRIES \<le> length (ow_files own) \<and> \<not> bt_contains (ow_files own) k
                then bump_generation (own\<lparr>ow_files := []\<rparr>) else Inr own)
             (\<lambda>o'. Inr (o'\<lparr>ow_files := bt_insert k (fp, now) (ow_files o')\<rparr>))
         | None \<Rightarrow> bump_generation own)"

subsection \<open>A named run of the CI service\<close>

definition ascii_alphanumeric :: "nat \<Rightarrow> bool" where
  "ascii_alphanumeric c =
     (48 \<le> c \<and> c \<le> 57 \<or> 65 \<le> c \<and> c \<le> 90 \<or> 97 \<le> c \<and> c \<le> 122)"

fun split_slash :: "rust_string \<Rightarrow> rust_string list" where
  "split_slash [] = [[]]"
| "split_slash (c # s) =
     (if c = 47 then [] # split_slash s
      else case split_slash s of p # ps \<Rightarrow> (c # p) # ps | [] \<Rightarrow> [[c]])"

definition repository_part :: "rust_string \<Rightarrow> bool" where
  "repository_part p =
     (p \<noteq> [] \<and> str_len p \<le> 100 \<and> p \<noteq> rstr ''.'' \<and> p \<noteq> rstr ''..''
      \<and> list_all (\<lambda>c. ascii_alphanumeric c \<or> c \<in> {45, 95, 46}) p)"

definition credential_name :: "credential_reference \<Rightarrow> rust_string" where
  "credential_name c = (case c of EnvironmentCredential v \<Rightarrow> v | StoredCredential i \<Rightarrow> i)"

definition github_statuses :: "rust_string list" where
  "github_statuses =
     map rstr [''queued'', ''requested'', ''waiting'', ''pending'', ''in_progress'', ''completed'']"

definition github_conclusions :: "rust_string list" where
  "github_conclusions =
     map rstr [''success'', ''failure'', ''neutral'', ''cancelled'', ''skipped'', ''timed_out'',
       ''action_required'', ''stale'', ''startup_failure'']"

definition validate_run_status :: "run_status \<Rightarrow> autonomy_error + unit" where
  "validate_run_status s =
     res_bind (ensure (rs_attempt s > 0 \<and> rs_updated_at s > 0 \<and> str_len (rs_head_sha s) = 40
         \<and> list_all is_ascii_hexdigit (rs_head_sha s)) InvalidExecutionIdentity)
     (\<lambda>_. res_bind (ensure (rs_status s \<in> set github_statuses) UnsupportedStatus)
     (\<lambda>_. res_bind (ensure (case rs_conclusion s of None \<Rightarrow> True
           | Some c \<Rightarrow> c \<in> set github_conclusions) UnsupportedConclusion)
     (\<lambda>_. ensure ((rs_status s = rstr ''completed'') = (rs_conclusion s \<noteq> None))
           InconsistentTerminal)))"

definition validate_github_trigger :: "github_trigger \<Rightarrow> autonomy_error + unit" where
  "validate_github_trigger v =
     res_bind (ensure (length (split_slash (gt_repository v)) = 2
         \<and> list_all repository_part (split_slash (gt_repository v))) InvalidRepository)
     (\<lambda>_. res_bind (ensure (gt_run v > 0 \<and> (case gt_etag v of None \<Rightarrow> True
           | Some e \<Rightarrow> str_len e \<le> 256 \<and> \<not> list_ex is_control e)) InvalidRun)
     (\<lambda>_. res_bind (ensure (credential_name (gt_credential v) \<noteq> []
           \<and> str_len (credential_name (gt_credential v)) \<le> 128
           \<and> list_all (\<lambda>c. ascii_alphanumeric c \<or> c \<in> {95, 45, 46})
               (credential_name (gt_credential v))) InvalidCredentialSource)
     (\<lambda>_. case gt_last v of None \<Rightarrow> Inr () | Some l \<Rightarrow> validate_run_status l)))"

text \<open>The body of a reply (\<open>updated_at\<close> is \<open>None\<close> where the instant does not parse).\<close>

record wire_run =
  wr_id :: u64
  wr_full_name :: rust_string
  wr_run_attempt :: u64
  wr_head_sha :: rust_string
  wr_status :: rust_string
  wr_conclusion :: "rust_string option"
  wr_updated_at :: "int option"

text \<open>
  \<open>retry\<close>, \<open>accept\<close> and \<open>poll\<close> change the trigger in place, so they return the trigger they leave
  also where they fail.
\<close>

definition retry_delay :: "rust_string \<Rightarrow> u32 \<Rightarrow> (github_trigger, autonomy_error, u32) effect" where
  "retry_delay detail minimum v =
     (let failures = min (sat_add (ob_failures (gt_observation v)) 1) 16;
          v1 = v\<lparr>gt_observation := (gt_observation v)\<lparr>ob_failures := failures\<rparr>\<rparr>
      in if failures \<le> 6 then
           (v1\<lparr>gt_observation := (gt_observation v1)\<lparr>ob_status := detail\<rparr>\<rparr>,
            Inr (max minimum (min (sat_mul 30 (push_bit (unat failures) 1)) 3600)))
         else (v1, Inl RetryBudget))"

definition reordered :: "run_status \<Rightarrow> run_status \<Rightarrow> bool" where
  "reordered previous s =
     (rs_updated_at s < rs_updated_at previous
      \<or> rs_status previous = rstr ''completed'' \<and> rs_status s \<noteq> rstr ''completed''
      \<or> rs_status previous = rstr ''in_progress'' \<and> rs_status s \<noteq> rstr ''in_progress''
        \<and> rs_status s \<noteq> rstr ''completed'')"

definition describe_run :: "github_trigger \<Rightarrow> run_status \<Rightarrow> rust_string" where
  "describe_run v s =
     rstr ''GitHub '' @ gt_repository v @ rstr ''/'' @ decimal (unat (gt_run v)) @ rstr '': ''
     @ rs_status s
     @ (case rs_conclusion s of None \<Rightarrow> [] | Some c \<Rightarrow> rstr '' ('' @ c @ rstr '')'')"

definition accept_status ::
  "github_trigger \<Rightarrow> run_status \<Rightarrow> rust_string option \<Rightarrow> int \<Rightarrow> github_trigger" where
  "accept_status v s etag now =
     (let changed = (case gt_last v of None \<Rightarrow> True
             | Some l \<Rightarrow> rs_status l \<noteq> rs_status s \<or> rs_conclusion l \<noteq> rs_conclusion s);
          o1 = (gt_observation v)\<lparr>ob_failures := 0, ob_last_checked := Some now\<rparr>
      in v\<lparr>gt_observation :=
             (if changed then o1\<lparr>ob_pending := True, ob_last_event := Some now,
                ob_status := describe_run v s\<rparr>
              else o1\<lparr>ob_status := unchanged_text\<rparr>),
           gt_last := Some s, gt_etag := etag\<rparr>)"

definition accept_reply ::
  "github_trigger \<Rightarrow> wire_run \<Rightarrow> rust_string option \<Rightarrow> int \<Rightarrow> autonomy_error + github_trigger" where
  "accept_reply v wire etag now =
     res_bind (ensure (wr_id wire = gt_run v
         \<and> to_ascii_lowercase (wr_full_name wire) = to_ascii_lowercase (gt_repository v))
         ResourceChanged)
     (\<lambda>_. res_bind (ok_or (wr_updated_at wire) WireDecode)
     (\<lambda>at. let s = \<lparr>rs_attempt = wr_run_attempt wire, rs_head_sha = wr_head_sha wire,
                 rs_status = wr_status wire, rs_conclusion = wr_conclusion wire,
                 rs_updated_at = at\<rparr>
        in res_bind (validate_run_status s)
     (\<lambda>_. case gt_last v of
            None \<Rightarrow> Inr (accept_status v s etag now)
          | Some l \<Rightarrow>
              res_bind (ensure (rs_attempt l = rs_attempt s \<and> rs_head_sha l = rs_head_sha s)
                RunChanged)
              (\<lambda>_. if reordered l s
                 then Inr (v\<lparr>gt_observation := (gt_observation v)\<lparr>ob_status :=
                   rstr ''Ignored reordered GitHub status; last accepted observation retained''\<rparr>\<rparr>)
                 else Inr (accept_status v s etag now)))))"

text \<open>What came back from the request: nothing, or a status with the headers that are read.\<close>

record http_answer =
  ha_status :: nat
  ha_retry_after :: "u64 option"
  ha_remaining :: "u64 option"
  ha_reset :: "u64 option"
  ha_etag :: "rust_string option"
  ha_content_length :: "u64 option"
  ha_body_bytes :: nat
  ha_wire :: "wire_run option"

datatype http_reply = CredentialUnresolved | Unreachable | Answered http_answer

definition RESPONSE_BYTES :: nat where "RESPONSE_BYTES = 128 * 1024"

definition rate_limited :: "http_answer \<Rightarrow> int \<Rightarrow> (github_trigger, autonomy_error, u32) effect" where
  "rate_limited a now v =
     (if \<not> (ha_status a = 429 \<or> ha_retry_after a \<noteq> None \<or> ha_remaining a = Some 0)
      then (v, Inl CredentialDenied)
      else let base = (case ha_retry_after a of Some d \<Rightarrow> d | None \<Rightarrow> 60);
               until_reset = (case ha_reset a of Some at \<Rightarrow> sat_sub at (of_int now) | None \<Rightarrow> 0);
               delay = max base until_reset
           in if delay \<le> 86400
              then retry_delay (rstr ''GitHub rate limited; waiting for server retry window'')
                (ucast delay) v
              else (v, Inl RetryDelayBound))"

definition poll_github :: "http_reply \<Rightarrow> int \<Rightarrow> (github_trigger, autonomy_error, u32) effect" where
  "poll_github reply now v0 =
     (let v = v0\<lparr>gt_observation := (gt_observation v0)\<lparr>ob_last_checked := Some now\<rparr>\<rparr>
      in case reply of
           CredentialUnresolved \<Rightarrow> (v0, Inl CredentialDenied)
         | Unreachable \<Rightarrow> retry_delay (rstr ''GitHub transport unavailable'') 0 v
         | Answered a \<Rightarrow>
             if ha_status a = 304 then
               if gt_last v = None then (v, Inl NoValidatorBaseline)
               else (v\<lparr>gt_observation := (gt_observation v)
                   \<lparr>ob_status := unchanged_text, ob_failures := 0\<rparr>\<rparr>, Inr 60)
             else if ha_status a = 429 \<or> ha_status a = 403 then rate_limited a now v
             else if 500 \<le> ha_status a \<and> ha_status a < 600
               then retry_delay (rstr ''GitHub temporarily unavailable'') 0 v
             else if ha_status a \<noteq> 200 then (v, Inl RunUnavailable)
             else if (case ha_content_length a of Some n \<Rightarrow> unat n > RESPONSE_BYTES | None \<Rightarrow> False)
                 \<or> ha_body_bytes a > RESPONSE_BYTES
               then (v, Inl ResponseBound)
             else case ha_wire a of
                 None \<Rightarrow> (v, Inl WireDecode)
               | Some wire \<Rightarrow>
                   let etag = (case ha_etag a of
                         Some e \<Rightarrow> if str_len e \<le> 256 then Some e else None | None \<Rightarrow> None)
                   in case accept_reply v wire etag now of
                        Inl e \<Rightarrow> (v, Inl e)
                      | Inr v' \<Rightarrow> (v', Inr 60))"

definition observe_github :: "http_reply \<Rightarrow> int \<Rightarrow> (github_trigger, autonomy_error, u32) effect" where
  "observe_github reply now v =
     (case validate_github_trigger v of Inl e \<Rightarrow> (v, Inl e) | Inr _ \<Rightarrow> poll_github reply now v)"

subsection \<open>One refresh of a due job\<close>

text \<open>
  What the environment gives \<open>refresh_due\<close> for one job: a scan with the recorded outputs of the
  program (or its error), a sample discarded because the foreground became active or the
  background lease was taken, a reply of the CI service, or a cancellation.
\<close>

datatype source_sample =
  Scanned "autonomy_error + own_outputs \<times> (rust_string, rust_string) btree"
| Discarded | Replied http_reply | Stopped

definition source_result ::
  "((rust_string, rust_string) btree \<Rightarrow> rust_string) \<Rightarrow> source_sample \<Rightarrow> int \<Rightarrow> trigger
    \<Rightarrow> (trigger \<times> (autonomy_error + u32)) option" where
  "source_result H sample now t =
     (case (t, sample) of
        (Files w, Scanned r) \<Rightarrow>
          Some (case res_bind r (\<lambda>(own, current). observe_files H own current w now) of
              Inl e \<Rightarrow> (Files w, Inl e)
            | Inr w' \<Rightarrow> (Files w', Inr 5))
      | (Github v, Replied reply) \<Rightarrow>
          (case observe_github reply now v of (v', r) \<Rightarrow> Some (Github v', r))
      | _ \<Rightarrow> None)"

definition source_failed :: "int \<Rightarrow> observation \<Rightarrow> observation" where
  "source_failed now o1 =
     o1\<lparr>ob_last_checked := Some now, ob_pending := False,
        ob_status := rstr ''Source unavailable, replaced, out of bounds, or unknown Xana effects; owner review required''\<rparr>"

definition refreshed_job ::
  "int \<Rightarrow> job \<Rightarrow> trigger \<times> (autonomy_error + u32) \<Rightarrow> job" where
  "refreshed_job now jb tr =
     (let (t, failed, delay) = (case tr of
            (t, Inr delay) \<Rightarrow> (t, False, delay)
          | (t, Inl e) \<Rightarrow> (update_observation (source_failed now) t, True, 60));
          at = (if ob_pending (trigger_observation t) then now else i64_sat_add now (uint delay))
      in jb\<lparr>jb_state := (if failed then JobNeedsYou else jb_state jb), jb_not_before := at,
            jb_next := (jb_next jb)\<lparr>oc_at := at\<rparr>, jb_trigger := Some t\<rparr>)"

section \<open>Validation\<close>

text \<open>The bytes of an absolute path are its separators and the bytes of its names.\<close>

definition component_len :: "path_component \<Rightarrow> nat" where
  "component_len c = (case c of Normal n \<Rightarrow> str_len n | Prefix n \<Rightarrow> str_len n | RootDir \<Rightarrow> 0
     | CurDir \<Rightarrow> 1 | ParentDir \<Rightarrow> 2)"

definition path_len :: "path \<Rightarrow> nat" where
  "path_len p = (if p = [RootDir] then 1 else sum_list (map component_len p) + (length p - 1))"

definition validate_trigger :: "trigger \<Rightarrow> path \<Rightarrow> autonomy_error + unit" where
  "validate_trigger t workspace =
     res_bind (ensure (str_len (ob_status (trigger_observation t)) \<le> 512
         \<and> ob_failures (trigger_observation t) \<le> 16) InvalidObservation)
     (\<lambda>_. case t of Files v \<Rightarrow> validate_file_trigger v workspace
            | Github v \<Rightarrow> validate_github_trigger v)"

definition action_text :: "task_action \<Rightarrow> rust_string" where
  "action_text a = (case a of Reminder t \<Rightarrow> t | NativeTask p _ \<Rightarrow> p)"

definition route_value :: "rust_string \<Rightarrow> bool" where
  "route_value v = (v \<noteq> [] \<and> str_len v \<le> 1024 \<and> \<not> list_ex is_control v)"

definition validate_run_receipt :: "autonomy_env \<Rightarrow> run_receipt \<Rightarrow> autonomy_error + unit" where
  "validate_run_receipt env r =
     res_bind
       (case rr_completion r of
          None \<Rightarrow> Inr ()
        | Some e \<Rightarrow>
            res_bind (case validate_outcome (av_codec env) e of
                Inl x \<Rightarrow> Inl (ReceiptEvidence x) | Inr u \<Rightarrow> Inr u)
            (\<lambda>_. res_bind (ensure (cv_generation e = rr_occurrence r) ForeignEvidence)
            (\<lambda>_. ensure (rr_outcome r \<noteq> RunCompleted \<or> evidence_supported e)
                   ContradictedCompletion)))
     (\<lambda>_. ensure (rr_occurrence r \<noteq> nil_uuid \<and> rr_scheduled_at r > 0 \<and> rr_finished_at r > 0
         \<and> str_len (rr_detail r) \<le> 16 * 1024) InvalidReceipt)"

definition state_running :: "job_state \<Rightarrow> bool" where
  "state_running s = (s \<in> {JobRunning, JobCancelRequested})"

definition validate_identity :: "job \<Rightarrow> autonomy_error + unit" where
  "validate_identity j =
     res_bind (ensure (jb_revision j > 0 \<and> unat (jb_revision j) < 2 ^ 63) InvalidJobRevision)
     (\<lambda>_. res_bind (ensure (jb_id j \<noteq> nil_uuid \<and> jb_conversation j \<noteq> nil_uuid
         \<and> sc_profile_id (jb_scope j) \<noteq> nil_uuid) InvalidJobIdentity)
     (\<lambda>_. ensure (trim (jb_name j) \<noteq> [] \<and> str_len (jb_name j) \<le> 128
         \<and> \<not> list_ex is_control (jb_name j)) InvalidJobName))"

definition validate_scope :: "task_scope \<Rightarrow> autonomy_error + unit" where
  "validate_scope s =
     res_bind (ensure (is_absolute (sc_workspace s) \<and> path_len (sc_workspace s) \<le> 4096)
       InvalidWorkspaceScope)
     (\<lambda>_. ensure (list_all route_value [sc_profile s, sc_connection s, sc_model s,
         sc_workspace_identity s, sc_configuration_digest s, sc_endpoint s]) InvalidTaskRoute)"

definition is_triggered :: "schedule \<Rightarrow> bool" where
  "is_triggered s = (case s of Triggered _ \<Rightarrow> True | _ \<Rightarrow> False)"

definition validate_job :: "autonomy_env \<Rightarrow> job \<Rightarrow> autonomy_error + unit" where
  "validate_job env j =
     (let text = action_text (jb_action j) in
      res_bind (validate_identity j)
     (\<lambda>_. res_bind (validate_scope (jb_scope j))
     (\<lambda>_. res_bind (ensure (trim text \<noteq> [] \<and> str_len text \<le> 16 * 1024 \<and> 0 \<notin> set text)
         InvalidTaskText)
     (\<lambda>_. res_bind (validate_schedule (av_calendar env) (jb_schedule j))
     (\<lambda>_. res_bind (ensure (is_triggered (jb_schedule j) = (jb_trigger j \<noteq> None))
         TriggerScheduleDisagree)
     (\<lambda>_. res_bind (case jb_trigger j of None \<Rightarrow> Inr ()
         | Some t \<Rightarrow> validate_trigger t (sc_workspace (jb_scope j)))
     (\<lambda>_. res_bind (ensure (jb_budget j = default_task_budget) UnsupportedBudget)
     (\<lambda>_. res_bind (ensure (jb_expires_at j > 0 \<and> oc_at (jb_next j) > 0 \<and> jb_not_before j > 0)
         InvalidJobTime)
     (\<lambda>_. res_bind (ensure (state_running (jb_state j) = (jb_occurrence j \<noteq> None))
         InvalidRunningOccurrence)
     (\<lambda>_. res_bind (case jb_last_receipt j of None \<Rightarrow> Inr () | Some r \<Rightarrow> validate_run_receipt env r)
     (\<lambda>_. ensure (av_job_json env j \<le> JOB_BYTES) JobRecordBound)))))))))))"

text \<open>\<open>validate_dispatch\<close>: \<open>root_ok\<close> is the check of the watched root by the operating system.\<close>

definition validate_dispatch :: "bool \<Rightarrow> job \<Rightarrow> bool" where
  "validate_dispatch root_ok j =
     (case jb_trigger j of
        None \<Rightarrow> True
      | Some t \<Rightarrow> (case t of Files _ \<Rightarrow> root_ok | Github _ \<Rightarrow> True)
          \<and> ob_pending (trigger_observation t))"

section \<open>What the calendar promises\<close>

text \<open>The date \<open>n\<close> days later, where the calendar reaches it.\<close>

primrec days_later :: "calendar \<Rightarrow> nat \<Rightarrow> nat \<Rightarrow> nat option" where
  "days_later cal 0 date = Some date"
| "days_later cal (Suc n) date = Option.bind (cal_tomorrow cal date) (days_later cal n)"

lemma search_dates_first:
  assumes "search_dates cal zone hour minute now n date = Inr r"
  shows "\<exists>k<n. \<exists>d oc. days_later cal k date = Some d
      \<and> on_date cal zone d hour minute = Inr oc \<and> now < oc_at oc \<and> r = Some oc
      \<and> (\<forall>i<k. \<exists>d' oc'. days_later cal i date = Some d'
           \<and> on_date cal zone d' hour minute = Inr oc' \<and> oc_at oc' \<le> now)"
  using assms
proof (induction n arbitrary: date)
  case (Suc n)
  then obtain oc where oc: "on_date cal zone date hour minute = Inr oc"
    by (auto simp: res_simps)
  show ?case
  proof (cases "now < oc_at oc")
    case True
    then have "r = Some oc" using Suc.prems oc by simp
    then show ?thesis using True oc by (intro exI [of _ 0]) simp
  next
    case False
    then obtain d' where d': "cal_tomorrow cal date = Some d'"
      and rest: "search_dates cal zone hour minute now n d' = Inr r"
      using Suc.prems oc by (auto simp: res_simps)
    from Suc.IH [OF rest] obtain k d x where k: "k < n" and "days_later cal k d' = Some d"
      and "on_date cal zone d hour minute = Inr x" and "now < oc_at x" and "r = Some x"
      and before: "\<forall>i<k. \<exists>d'' oc'. days_later cal i d' = Some d''
           \<and> on_date cal zone d'' hour minute = Inr oc' \<and> oc_at oc' \<le> now"
      by blast
    moreover have "\<exists>d'' oc'. days_later cal i date = Some d''
        \<and> on_date cal zone d'' hour minute = Inr oc' \<and> oc_at oc' \<le> now" if "i < Suc k" for i
      using that before oc d' False by (cases i) auto
    ultimately show ?thesis using d' by (intro exI [of _ "Suc k"]) auto
  qed
qed simp

lemma validate_triggered [simp]:
  "validate_schedule cal (Triggered poll) = Inr u \<longleftrightarrow> 5 \<le> poll \<and> poll \<le> 3600"
  by (simp add: validate_schedule_def res_simps)

lemma triggered_later:
  assumes "5 \<le> (poll :: u32)" and "now < 2 ^ 63 - 1"
  shows "now < oc_at (triggered_occurrence now poll)"
proof -
  have "5 \<le> uint poll" using assms(1) by (simp add: word_le_def)
  then show ?thesis
    using assms(2) by (auto simp: triggered_occurrence_def i64_sat_add_def i64_sat_def)
qed

lemma schedule_after_later:
  assumes after: "schedule_after cal s now = Inr (Some oc)" and "now < 2 ^ 63 - 1"
  shows "now < oc_at oc"
proof (cases s)
  case (Daily zone hour minute)
  then show ?thesis
    using after by (auto simp: schedule_after_def res_simps dest!: search_dates_first)
next
  case (Triggered poll)
  then have "5 \<le> poll" and "oc = triggered_occurrence now poll"
    using after by (auto simp: schedule_after_def res_simps)
  then show ?thesis using triggered_later assms(2) by simp
qed (use after in \<open>simp add: schedule_after_def\<close>)

section \<open>What the trigger sources promise\<close>

lemma bt_ext:
  assumes "bt_wf a" and "bt_wf b" and "\<And>k. bt_get a k = bt_get b k"
  shows "a = b"
proof -
  have keys: "map fst a = map fst b"
  proof (rule sorted_distinct_set_unique)
    have "set (bt_keys a) = set (bt_keys b)" using assms(3) by (simp add: set_bt_keys)
    then show "set (map fst a) = set (map fst b)" by (simp add: bt_keys_def)
  qed (use assms(1,2) in \<open>simp_all add: bt_wf_def strict_sorted_iff\<close>)
  have vals: "map snd m = map (\<lambda>k. the (bt_get m k)) (map fst m)" if "bt_wf m" for m :: "('a, 'b) btree"
  proof -
    have "snd kv = the (bt_get m (fst kv))" if "kv \<in> set m" for kv
      using bt_in_set_get [OF \<open>bt_wf m\<close>, of "fst kv" "snd kv"] that by simp
    then show ?thesis by simp
  qed
  have "map snd a = map snd b"
    using vals [OF assms(1)] vals [OF assms(2)] keys assms(3) by simp
  then show ?thesis using keys by (simp add: pair_list_eqI)
qed

definition recent_output ::
  "int \<Rightarrow> (rust_string, rust_string) btree \<Rightarrow> own_outputs \<Rightarrow> rust_string \<Rightarrow> bool" where
  "recent_output now current own k =
     (case bt_get (ow_files own) k of
        Some (fp, at) \<Rightarrow> i64_sat_sub now at \<le> 86400 \<and> bt_get current k = Some fp
      | None \<Rightarrow> False)"

lemma bt_get_absorb:
  "bt_get (absorb_output now current e baseline) k' =
     (if fst e = k' \<and> i64_sat_sub now (snd (snd e)) \<le> 86400
         \<and> bt_get current k' = Some (fst (snd e))
      then bt_get current k' else bt_get baseline k')"
  by (cases e) (auto simp: absorb_output_def bt_get_insert)

lemma absorb_outputs_wf:
  assumes "bt_wf baseline"
  shows "bt_wf (absorb_outputs now current own baseline)"
proof -
  have "bt_wf (fold (absorb_output now current) es baseline)" for es
    using assms
    by (induction es arbitrary: baseline)
      (auto simp: absorb_output_def bt_wf_insert split: prod.splits)
  then show ?thesis by (simp add: absorb_outputs_def)
qed

lemma bt_get_absorb_outputs:
  assumes "bt_wf (ow_files own)"
  shows "bt_get (absorb_outputs now current own baseline) k =
     (if recent_output now current own k then bt_get current k else bt_get baseline k)"
proof -
  have step: "bt_get (fold (absorb_output now current) es baseline) k =
      (if \<exists>fp at. (k, fp, at) \<in> set es \<and> i64_sat_sub now at \<le> 86400 \<and> bt_get current k = Some fp
       then bt_get current k else bt_get baseline k)" for es
  proof (induction es arbitrary: baseline)
    case (Cons e es)
    obtain k' fp at where e: "e = (k', fp, at)" by (cases e) auto
    show ?case by (auto simp: Cons.IH bt_get_absorb e)
  qed simp
  have "(\<exists>fp at. (k, fp, at) \<in> set (ow_files own) \<and> i64_sat_sub now at \<le> 86400
        \<and> bt_get current k = Some fp) \<longleftrightarrow> recent_output now current own k"
    using assms
    by (auto simp: recent_output_def dest: bt_get_in_set bt_in_set_get split: option.splits)
  then show ?thesis by (simp add: absorb_outputs_def step)
qed

lemma own_outputs_absorbed:
  assumes "bt_wf (ow_files own)" and "bt_wf (ft_baseline w)" and "bt_wf current"
    and "\<And>k. bt_get current k \<noteq> bt_get (ft_baseline w) k \<Longrightarrow> recent_output now current own k"
  shows "absorb_outputs now current own (ft_baseline w) = current"
proof (rule bt_ext)
  show "bt_get (absorb_outputs now current own (ft_baseline w)) k = bt_get current k" for k
    using assms(4) [of k] by (metis bt_get_absorb_outputs [OF assms(1)])
qed (simp_all add: assms absorb_outputs_wf)

text \<open>
  What the program wrote itself never wakes a watcher. If every file on which the snapshot
  differs from the baseline is an output recorded within the last day whose fingerprint is
  unchanged since, the sample is accepted as unchanged: no event becomes pending, the candidate
  is dropped and the baseline moves to the snapshot, whatever the generation of unknown effects.
\<close>

theorem own_outputs_never_trigger:
  assumes "bt_wf (ow_files own)" and "bt_wf (ft_baseline w)" and "bt_wf current"
    and "\<forall>k. bt_get current k = bt_get (ft_baseline w) k \<or> recent_output now current own k"
  shows "\<exists>w'. observe_files H own current w now = Inr w'
     \<and> ob_pending (ft_observation w') = ob_pending (ft_observation w)
     \<and> ft_candidate w' = None \<and> ft_baseline w' = current"
proof -
  have "absorb_outputs now current own (ft_baseline w) = current"
    using assms by (intro own_outputs_absorbed) blast+
  then show ?thesis by (simp add: observe_files_def Let_def)
qed

definition sample_watch :: file_trigger where
  "sample_watch =
     \<lparr>ft_root = [RootDir, Normal [119]], ft_identity = [1], ft_baseline = [([97], [1])],
      ft_candidate = None, ft_unknown_generation = 0, ft_observation = default_observation\<rparr>"

definition sample_outputs :: own_outputs where
  "sample_outputs = \<lparr>ow_files = [([98], [2], 100)], ow_unknown_generation = 7\<rparr>"

theorem own_outputs_never_trigger_witness:
  "\<exists>w'. observe_files (\<lambda>m. map hd (map fst m)) sample_outputs [([97], [1]), ([98], [2])] sample_watch 160 = Inr w'
     \<and> \<not> ob_pending (ft_observation w')"
proof -
  have "bt_get [([97], [1]), ([98], [2])] k = bt_get (ft_baseline sample_watch) k
      \<or> recent_output 160 [([97], [1]), ([98], [2])] sample_outputs k" for k
    by (auto simp: sample_watch_def sample_outputs_def recent_output_def bt_get_def i64_sat_sub_def
        i64_sat_def)
  then show ?thesis
    using own_outputs_never_trigger [of sample_outputs sample_watch "[([97], [1]), ([98], [2])]" 160]
    by (auto simp: sample_watch_def sample_outputs_def bt_wf_def default_observation_def)
qed

text \<open>
  A pending event is raised only by a snapshot that differs from the baseline, was sampled with
  the same digest at least two seconds before, and is not clouded by unattributed effects.
\<close>

lemma file_event_is_stable:
  assumes "observe_files H own current w now = Inr w'"
    and "ob_pending (ft_observation w')" and "\<not> ob_pending (ft_observation w)"
  shows "(\<exists>since. ft_candidate w = Some (H current, since) \<and> 2 \<le> i64_sat_sub now since)
     \<and> current \<noteq> absorb_outputs now current own (ft_baseline w)
     \<and> ow_unknown_generation own = ft_unknown_generation w \<and> ft_baseline w' = current"
  using assms
  by (auto simp: observe_files_def Let_def res_simps split: if_splits option.splits)

lemma observe_files_keeps:
  "observe_files H own current w now = Inr w' \<Longrightarrow>
     ft_root w' = ft_root w \<and> ft_identity w' = ft_identity w"
  by (auto simp: observe_files_def Let_def res_simps split: if_splits option.splits)

text \<open>A changed snapshot under unattributed effects is an error, never an event.\<close>

lemma unattributed_effects_refused:
  assumes "ow_unknown_generation own \<noteq> ft_unknown_generation w"
    and "current \<noteq> absorb_outputs now current own (ft_baseline w)"
  shows "observe_files H own current w now = Inl UnattributedEffects"
  using assms by (simp add: observe_files_def Let_def ensure_def)

lemma accept_reply_cases:
  assumes "accept_reply v wire etag now = Inr v'"
  obtains (fresh) s where "gt_last v = None" and "validate_run_status s = Inr ()"
      and "v' = accept_status v s etag now"
  | (ignored) l t where "gt_last v = Some l"
      and "v' = v\<lparr>gt_observation := (gt_observation v)\<lparr>ob_status := t\<rparr>\<rparr>"
  | (accepted) l s where "gt_last v = Some l" and "\<not> reordered l s"
      and "rs_attempt l = rs_attempt s" and "rs_head_sha l = rs_head_sha s"
      and "validate_run_status s = Inr ()" and "v' = accept_status v s etag now"
proof -
  obtain at where at: "wr_updated_at wire = Some at"
    using assms by (auto simp: accept_reply_def res_simps)
  define s where "s = \<lparr>rs_attempt = wr_run_attempt wire, rs_head_sha = wr_head_sha wire,
    rs_status = wr_status wire, rs_conclusion = wr_conclusion wire, rs_updated_at = at\<rparr>"
  have valid: "validate_run_status s = Inr ()" and
    rest: "(case gt_last v of None \<Rightarrow> Inr (accept_status v s etag now)
      | Some l \<Rightarrow> res_bind (ensure (rs_attempt l = rs_attempt s \<and> rs_head_sha l = rs_head_sha s)
            RunChanged)
          (\<lambda>_. if reordered l s
             then Inr (v\<lparr>gt_observation := (gt_observation v)\<lparr>ob_status :=
               rstr ''Ignored reordered GitHub status; last accepted observation retained''\<rparr>\<rparr>)
             else Inr (accept_status v s etag now))) = Inr v'"
    using assms unfolding s_def by (simp_all add: accept_reply_def Let_def res_bind_eq_Inr at)
  show ?thesis
  proof (cases "gt_last v")
    case None
    then show ?thesis using rest valid fresh by simp
  next
    case (Some l)
    then have same: "rs_attempt l = rs_attempt s" "rs_head_sha l = rs_head_sha s"
      using rest by (simp_all add: res_bind_eq_Inr ensure_eq_Inr)
    show ?thesis
    proof (cases "reordered l s")
      case True
      then have "v' = v\<lparr>gt_observation := (gt_observation v)\<lparr>ob_status :=
          rstr ''Ignored reordered GitHub status; last accepted observation retained''\<rparr>\<rparr>"
        using rest Some same by (simp add: ensure_def)
      then show ?thesis using ignored Some by blast
    next
      case False
      then have "v' = accept_status v s etag now" using rest Some same by (simp add: ensure_def)
      then show ?thesis using accepted Some False same valid by blast
    qed
  qed
qed

lemma accept_status_fields:
  "gt_last (accept_status v s etag now) = Some s"
  "gt_repository (accept_status v s etag now) = gt_repository v"
  "gt_run (accept_status v s etag now) = gt_run v"
  "gt_credential (accept_status v s etag now) = gt_credential v"
  "ob_pending (gt_observation (accept_status v s etag now)) \<longleftrightarrow>
     ob_pending (gt_observation v) \<or>
     (case gt_last v of None \<Rightarrow> True
      | Some l \<Rightarrow> rs_status l \<noteq> rs_status s \<or> rs_conclusion l \<noteq> rs_conclusion s)"
  by (auto simp: accept_status_def Let_def split: option.splits)

text \<open>
  The watched run only moves forward. An accepted reply keeps the repository, the run and the
  credential, and against the last accepted observation it keeps the attempt and the revision,
  never goes back in time, never leaves \<open>completed\<close>, and raises a new event only when the status
  or the conclusion changed.
\<close>

theorem watched_run_moves_forward:
  assumes reply: "accept_reply v wire etag now = Inr v'" and prev: "gt_last v = Some l"
  shows "\<exists>l'. gt_last v' = Some l' \<and> rs_attempt l' = rs_attempt l \<and> rs_head_sha l' = rs_head_sha l
     \<and> rs_updated_at l \<le> rs_updated_at l'
     \<and> (rs_status l = rstr ''completed'' \<longrightarrow> rs_status l' = rstr ''completed'')
     \<and> same_source (Github v) (Github v')
     \<and> (ob_pending (gt_observation v') \<and> \<not> ob_pending (gt_observation v) \<longrightarrow>
          rs_status l' \<noteq> rs_status l \<or> rs_conclusion l' \<noteq> rs_conclusion l)"
  using reply
proof (cases rule: accept_reply_cases)
  case (accepted l0 s)
  then show ?thesis
    using prev by (auto simp: accept_status_fields same_source_def reordered_def)
qed (use prev in \<open>auto simp: same_source_def\<close>)

definition sample_run :: github_trigger where
  "sample_run =
     \<lparr>gt_repository = rstr ''o/r'', gt_run = 7, gt_credential = EnvironmentCredential (rstr ''T''),
      gt_last = Some \<lparr>rs_attempt = 1, rs_head_sha = replicate 40 97, rs_status = rstr ''queued'',
        rs_conclusion = None, rs_updated_at = 10\<rparr>,
      gt_etag = None, gt_observation = default_observation\<rparr>"

definition sample_wire :: wire_run where
  "sample_wire =
     \<lparr>wr_id = 7, wr_full_name = rstr ''O/R'', wr_run_attempt = 1, wr_head_sha = replicate 40 97,
      wr_status = rstr ''completed'', wr_conclusion = Some (rstr ''success''),
      wr_updated_at = Some 20\<rparr>"

theorem watched_run_moves_forward_witness:
  "\<exists>v' l'. accept_reply sample_run sample_wire None 30 = Inr v' \<and> gt_last v' = Some l'
     \<and> rs_attempt l' = 1"
proof -
  have "is_ok (accept_reply sample_run sample_wire None 30)" by code_simp
  then obtain v' where v': "accept_reply sample_run sample_wire None 30 = Inr v'"
    by (auto elim: is_okE)
  moreover have "\<exists>l. gt_last sample_run = Some l \<and> rs_attempt l = 1" by (simp add: sample_run_def)
  ultimately show ?thesis using watched_run_moves_forward [OF v'] by fastforce
qed

end
