(* ===== verification/Autonomy_Queue.thy ===== *)
theory Autonomy_Queue
  imports Autonomy_Jobs
begin

text \<open>
  The durable queue of scheduled work, \<open>src/src/storage/autonomy.rs\<close>: the two tables of the
  protected store, their reads and every transaction on them. A row keeps its indexed columns
  beside the job it encodes, because the code compares them on every read. An operation is one
  immediate transaction: it returns the store it commits, or an error that leaves the store as it
  was. Fresh identifiers and the clock are arguments; a BLOB is the value it encodes and its
  length is a parameter of the environment.
\<close>

section \<open>The tables\<close>

record job_row =
  jr_sequence :: nat
  jr_id :: uuid
  jr_revision :: u64
  jr_state :: nat
  jr_due :: int
  jr_body :: job

record receipt_row =
  rw_sequence :: nat
  rw_job :: uuid
  rw_occurrence :: uuid
  rw_body :: run_receipt

record stop_job =
  sj_id :: uuid
  sj_conversation :: uuid
  sj_name :: rust_string

record stop_clients =
  sl_host_id :: uuid
  sl_host_generation :: u64
  sl_count :: nat
  sl_identities :: "uuid list"

record stop_impact =
  si_policy_revision :: u64
  si_requested_at :: int
  si_active_job :: "stop_job option"
  si_attached_clients :: "stop_clients option"

record autonomy_store =
  as_jobs :: "job_row list"
  as_receipts :: "receipt_row list"
  as_policy :: "host_policy option"
  as_impact :: "stop_impact option"
  as_outputs :: "own_outputs option"
  as_review_required :: bool

record queue_env = autonomy_env +
  qe_impact_json :: "stop_impact \<Rightarrow> nat"
  qe_outputs_json :: "own_outputs \<Rightarrow> nat"

datatype queue_error =
  JobInvalid autonomy_error | InvalidQuery | NoSuchJob | ConstraintViolation
| RevisionExhausted | ChangedConcurrently | NotOwnerAuthorized | ReviewRequired | QueueFull
| StaleRevision | NotPausable | AlreadyTerminal | NotResumable | AuthorityExpired
| UnknownNeedsReview | TriggerNeedsReview | IndexMismatch | StaleOccurrence
| StaleCompletion | WrongScheduledInstant | RunningBound | MissingOccurrence
| ObservationChangesAuthority | MissingInstant | AttentionIdentity | StalePolicy
| StartupWithoutDetached | PolicyExhausted | ImpactBound | ClientSnapshotBound | OutputsBound

definition valid :: "autonomy_error + unit \<Rightarrow> queue_error + unit" where
  "valid r = (case r of Inl e \<Rightarrow> Inl (JobInvalid e) | Inr u \<Rightarrow> Inr u)"

lemma valid_eq_Inr [res_simps]: "valid r = Inr u \<longleftrightarrow> r = Inr u"
  by (auto simp: valid_def split: sum.splits)

lemma valid_ok [simp]: "valid (Inr u) = Inr u"
  by (simp add: valid_def)

text \<open>The identifier SQLite gives the next row of a table.\<close>

definition next_sequence :: "nat list \<Rightarrow> nat" where
  "next_sequence used = Suc (fold max used 0)"

section \<open>Reading and writing rows\<close>

definition decode_job :: "'x queue_env_scheme \<Rightarrow> job \<Rightarrow> queue_error + job" where
  "decode_job env j = res_bind (valid (validate_job (autonomy_env.truncate env) j)) (\<lambda>_. Inr j)"

definition stored_job :: "'x queue_env_scheme \<Rightarrow> job_row \<Rightarrow> queue_error + job" where
  "stored_job env r =
     (let j = jr_body r in
      if av_job_json env j \<le> JOB_BYTES \<and> is_ok (decode_job env j) \<and> jr_id r = jb_id j
         \<and> jr_revision r = jb_revision j \<and> jr_state r = state_code (jb_state j)
         \<and> jr_due r = jb_not_before j
      then Inr j else Inl InvalidQuery)"

fun read_all :: "('r \<Rightarrow> 'e + 'a) \<Rightarrow> 'r list \<Rightarrow> 'e + 'a list" where
  "read_all f [] = Inr []"
| "read_all f (r # rs) = res_bind (f r) (\<lambda>x. res_bind (read_all f rs) (\<lambda>xs. Inr (x # xs)))"

definition get_job :: "'x queue_env_scheme \<Rightarrow> autonomy_store \<Rightarrow> uuid \<Rightarrow> queue_error + job" where
  "get_job env st i =
     res_bind (ok_or (find (\<lambda>r. jr_id r = i) (as_jobs st)) NoSuchJob) (stored_job env)"

definition write_row :: "job \<Rightarrow> job_row \<Rightarrow> job_row" where
  "write_row j r =
     r\<lparr>jr_revision := jb_revision j, jr_state := state_code (jb_state j),
       jr_due := jb_not_before j, jr_body := j\<rparr>"

definition save_job ::
  "'x queue_env_scheme \<Rightarrow> job \<Rightarrow> autonomy_store \<Rightarrow> queue_error + job \<times> autonomy_store" where
  "save_job env j st =
     res_bind (ok_or (checked_add (jb_revision j) 1) RevisionExhausted)
     (\<lambda>revision. let j' = j\<lparr>jb_revision := revision\<rparr>;
          matches = (\<lambda>r. jr_id r = jb_id j \<and> jr_revision r = jb_revision j)
        in res_bind (valid (validate_job (autonomy_env.truncate env) j'))
     (\<lambda>_. res_bind (ensure (length (filter matches (as_jobs st)) = 1) ChangedConcurrently)
     (\<lambda>_. Inr (j', st\<lparr>as_jobs :=
         map (\<lambda>r. if matches r then write_row j' r else r) (as_jobs st)\<rparr>))))"

definition insert_receipt ::
  "'x queue_env_scheme \<Rightarrow> uuid \<Rightarrow> run_receipt \<Rightarrow> autonomy_store \<Rightarrow> queue_error + autonomy_store" where
  "insert_receipt env i receipt st =
     res_bind (valid (validate_run_receipt (autonomy_env.truncate env) receipt))
     (\<lambda>_. res_bind (ensure (rr_occurrence receipt \<notin> set (map rw_occurrence (as_receipts st)))
         ConstraintViolation)
     (\<lambda>_. Inr (st\<lparr>as_receipts := as_receipts st @
         [\<lparr>rw_sequence = next_sequence (map rw_sequence (as_receipts st)), rw_job = i,
           rw_occurrence = rr_occurrence receipt, rw_body = receipt\<rparr>]\<rparr>)))"

section \<open>Queries\<close>

definition running_rows :: "autonomy_store \<Rightarrow> job_row list" where
  "running_rows st = filter (\<lambda>r. jr_state r \<in> {1, 2}) (as_jobs st)"

text \<open>\<open>ORDER BY due, sequence\<close> over the rows in state \<open>Ready\<close> whose instant has come.\<close>

definition due_rows :: "int \<Rightarrow> autonomy_store \<Rightarrow> job_row list" where
  "due_rows now st =
     sort_key jr_due (sort_key jr_sequence (filter (\<lambda>r. jr_state r = 0 \<and> jr_due r \<le> now) (as_jobs st)))"

definition rows_after :: "('r \<Rightarrow> nat) \<Rightarrow> ('r \<Rightarrow> bool) \<Rightarrow> nat \<Rightarrow> nat \<Rightarrow> 'r list \<Rightarrow> 'r list" where
  "rows_after seq p limit from rs =
     take limit (sort_key seq (filter (\<lambda>r. p r \<and> from < seq r) rs))"

definition sequenced_job :: "'x queue_env_scheme \<Rightarrow> job_row \<Rightarrow> queue_error + nat \<times> job" where
  "sequenced_job env r = res_bind (stored_job env r) (\<lambda>j. Inr (jr_sequence r, j))"

text \<open>A receipt is read through a bound of its own; its job and its columns are checked as stored.\<close>

definition RECEIPT_READ_BYTES :: nat where "RECEIPT_READ_BYTES = 20 * 1024"

definition stored_receipt :: "'x queue_env_scheme \<Rightarrow> receipt_row \<Rightarrow> queue_error + run_receipt" where
  "stored_receipt env r =
     (if av_receipt_json env (rw_body r) \<le> RECEIPT_READ_BYTES
      then res_bind (valid (validate_run_receipt (autonomy_env.truncate env) (rw_body r)))
        (\<lambda>_. Inr (rw_body r))
      else Inl InvalidQuery)"

definition autonomy_attention_baseline :: "autonomy_store \<Rightarrow> nat \<times> nat" where
  "autonomy_attention_baseline st =
     (fold max (map jr_sequence (as_jobs st)) 0, fold max (map rw_sequence (as_receipts st)) 0)"

definition autonomy_attention_jobs ::
  "'x queue_env_scheme \<Rightarrow> autonomy_store \<Rightarrow> nat \<Rightarrow> queue_error + (nat \<times> job) list" where
  "autonomy_attention_jobs env st from =
     read_all (sequenced_job env)
       (rows_after jr_sequence (\<lambda>r. jr_state r \<in> {0, 1, 2, 3, 4}) 16 from (as_jobs st))"

definition attention_receipt ::
  "'x queue_env_scheme \<Rightarrow> autonomy_store \<Rightarrow> receipt_row \<Rightarrow> queue_error + nat \<times> job \<times> run_receipt" where
  "attention_receipt env st r =
     res_bind (get_job env st (rw_job r))
     (\<lambda>j. res_bind (stored_receipt env r)
     (\<lambda>receipt. res_bind (ensure (rr_occurrence receipt = rw_occurrence r) AttentionIdentity)
     (\<lambda>_. Inr (rw_sequence r, j, receipt))))"

definition autonomy_attention_receipts ::
  "'x queue_env_scheme \<Rightarrow> autonomy_store \<Rightarrow> nat \<Rightarrow> queue_error + (nat \<times> job \<times> run_receipt) list" where
  "autonomy_attention_receipts env st from =
     read_all (attention_receipt env st)
       (rows_after rw_sequence (\<lambda>r. rw_job r \<in> set (map jr_id (as_jobs st))) 16 from
         (as_receipts st))"

definition autonomy_due ::
  "'x queue_env_scheme \<Rightarrow> autonomy_store \<Rightarrow> int \<Rightarrow> queue_error + job list" where
  "autonomy_due env st now = read_all (stored_job env) (take 8 (due_rows now st))"

definition autonomy_page ::
  "'x queue_env_scheme \<Rightarrow> autonomy_store \<Rightarrow> nat \<Rightarrow> queue_error + (nat \<times> job) list" where
  "autonomy_page env st from =
     read_all (sequenced_job env) (rows_after jr_sequence (\<lambda>r. True) PAGE_SIZE from (as_jobs st))"

definition autonomy_receipts ::
  "'x queue_env_scheme \<Rightarrow> autonomy_store \<Rightarrow> uuid \<Rightarrow> nat \<Rightarrow> queue_error + (nat \<times> run_receipt) list" where
  "autonomy_receipts env st i from =
     read_all (\<lambda>r. res_bind (stored_receipt env r) (\<lambda>receipt. Inr (rw_sequence r, receipt)))
       (rows_after rw_sequence (\<lambda>r. rw_job r = i) PAGE_SIZE from (as_receipts st))"

definition autonomy_policy :: "autonomy_store \<Rightarrow> host_policy" where
  "autonomy_policy st =
     (case as_policy st of Some p \<Rightarrow> p | None \<Rightarrow> default_host_policy)"

section \<open>Transactions\<close>

definition autonomy_create ::
  "'x queue_env_scheme \<Rightarrow> job \<Rightarrow> autonomy_store \<Rightarrow> queue_error + job \<times> autonomy_store" where
  "autonomy_create env j st =
     res_bind (valid (validate_job (autonomy_env.truncate env) j))
     (\<lambda>_. res_bind (ensure (jb_state j = JobReady \<and> jb_revision j = 1 \<and> jb_authorized j)
         NotOwnerAuthorized)
     (\<lambda>_. res_bind (ensure (\<not> as_review_required st) ReviewRequired)
     (\<lambda>_. res_bind (ensure (min 1000 (length (filter (\<lambda>r. jr_state r < 5) (as_jobs st)))
         < QUEUE_LIMIT) QueueFull)
     (\<lambda>_. res_bind (ensure (jb_id j \<notin> set (map jr_id (as_jobs st))) ConstraintViolation)
     (\<lambda>_. Inr (j, st\<lparr>as_jobs := as_jobs st @
         [\<lparr>jr_sequence = next_sequence (map jr_sequence (as_jobs st)), jr_id = jb_id j,
           jr_revision = 1, jr_state = 0, jr_due = jb_not_before j, jr_body = j\<rparr>]\<rparr>))))))"

definition review_generation :: "autonomy_store \<Rightarrow> u64" where
  "review_generation st = (case as_outputs st of Some own \<Rightarrow> ow_unknown_generation own | None \<Rightarrow> 0)"

definition reviewed_trigger :: "bool \<Rightarrow> autonomy_store \<Rightarrow> trigger option \<Rightarrow> trigger option" where
  "reviewed_trigger review_unknown st t =
     (case t of
        Some (Files w) \<Rightarrow>
          if review_unknown
          then Some (Files (w\<lparr>ft_unknown_generation := review_generation st, ft_candidate := None\<rparr>))
          else t
      | _ \<Rightarrow> t)"

definition last_unknown :: "job \<Rightarrow> bool" where
  "last_unknown j = (case jb_last_receipt j of Some r \<Rightarrow> rr_outcome r = RunUnknown | None \<Rightarrow> False)"

definition edited_job ::
  "autonomy_store \<Rightarrow> job_edit \<Rightarrow> int \<Rightarrow> job \<Rightarrow> queue_error + job" where
  "edited_job st edit now j =
     (case edit of
        PauseEdit \<Rightarrow>
          if jb_state j = JobRunning then Inr (j\<lparr>jb_pause_after_run := True\<rparr>)
          else if jb_state j \<in> {JobReady, JobPaused} then Inr (j\<lparr>jb_state := JobPaused\<rparr>)
          else Inl NotPausable
      | CancelEdit \<Rightarrow>
          if state_running (jb_state j)
          then Inr (j\<lparr>jb_state := JobCancelRequested, jb_authorized := False\<rparr>)
          else if state_active (jb_state j)
          then Inr (j\<lparr>jb_state := JobCancelled, jb_authorized := False\<rparr>)
          else Inl AlreadyTerminal
      | ResumeEdit review_unknown \<Rightarrow>
          res_bind (ensure (jb_state j \<in> {JobPaused, JobNeedsYou}) NotResumable)
          (\<lambda>_. res_bind (ensure (jb_expires_at j > now \<and> jb_authorized j) AuthorityExpired)
          (\<lambda>_. res_bind (ensure (\<not> last_unknown j \<or> review_unknown) UnknownNeedsReview)
          (\<lambda>_. res_bind (ensure (\<not> (jb_state j = JobNeedsYou \<and> jb_trigger j \<noteq> None) \<or> review_unknown)
              TriggerNeedsReview)
          (\<lambda>_. Inr (j\<lparr>jb_trigger := reviewed_trigger review_unknown st (jb_trigger j),
               jb_state := JobReady, jb_pause_after_run := False,
               jb_not_before := max now (oc_at (jb_next j))\<rparr>))))))"

definition autonomy_edit ::
  "'x queue_env_scheme \<Rightarrow> uuid \<Rightarrow> u64 \<Rightarrow> job_edit \<Rightarrow> int \<Rightarrow> autonomy_store
    \<Rightarrow> queue_error + job \<times> autonomy_store" where
  "autonomy_edit env i revision edit now st =
     res_bind (get_job env st i)
     (\<lambda>j. res_bind (ensure (jb_revision j = revision) StaleRevision)
     (\<lambda>_. res_bind (edited_job st edit now j) (\<lambda>j'. save_job env j' st)))"

definition expired_text :: rust_string where
  "expired_text = rstr ''Authority expired before dispatch; no work started''"

definition expiry_receipt :: "uuid \<Rightarrow> int \<Rightarrow> job \<Rightarrow> run_receipt" where
  "expiry_receipt fresh now j =
     \<lparr>rr_completion = None, rr_occurrence = fresh, rr_scheduled_at = oc_at (jb_next j),
      rr_finished_at = now, rr_outcome = RunExpired, rr_detail = expired_text,
      rr_coalesced = (now > oc_at (jb_next j)), rr_dst_adjusted = oc_dst_adjusted (jb_next j)\<rparr>"

text \<open>A claimable job is authorized, unexpired and, when it has a trigger, has a pending event.\<close>

definition event_missing :: "job \<Rightarrow> bool" where
  "event_missing j =
     (case jb_trigger j of Some t \<Rightarrow> \<not> ob_pending (trigger_observation t) | None \<Rightarrow> False)"

definition claim_job ::
  "'x queue_env_scheme \<Rightarrow> int \<Rightarrow> uuid \<Rightarrow> job \<Rightarrow> autonomy_store
    \<Rightarrow> queue_error + job option \<times> autonomy_store" where
  "claim_job env now fresh j st =
     (if jb_expires_at j > now \<and> jb_authorized j \<and> event_missing j then Inr (None, st)
      else if jb_expires_at j \<le> now \<or> \<not> jb_authorized j then
        let receipt = expiry_receipt fresh now j
        in res_bind (insert_receipt env (jb_id j) receipt st)
           (\<lambda>st1. res_bind (save_job env
               (j\<lparr>jb_state := JobExpired, jb_last_receipt := Some receipt\<rparr>) st1)
           (\<lambda>(_, st2). Inr (None, st2)))
      else res_bind (save_job env (j\<lparr>jb_state := JobRunning, jb_occurrence := Some fresh\<rparr>) st)
           (\<lambda>(j', st'). Inr (Some j', st')))"

definition autonomy_claim ::
  "'x queue_env_scheme \<Rightarrow> int \<Rightarrow> uuid \<Rightarrow> autonomy_store
    \<Rightarrow> queue_error + job option \<times> autonomy_store" where
  "autonomy_claim env now fresh st =
     res_bind (ensure (\<not> as_review_required st) ReviewRequired)
     (\<lambda>_. if running_rows st \<noteq> [] then Inr (None, st)
          else case due_rows now st of
              [] \<Rightarrow> Inr (None, st)
            | r # _ \<Rightarrow>
                res_bind (stored_job env r)
                (\<lambda>j. res_bind (ensure (jb_not_before j \<le> now \<and> jb_state j = JobReady) IndexMismatch)
                (\<lambda>_. claim_job env now fresh j st)))"

definition deferred_state :: "job \<Rightarrow> job_state" where
  "deferred_state j =
     (if jb_state j = JobCancelRequested then JobCancelled
      else if jb_pause_after_run j then JobPaused else JobReady)"

definition autonomy_defer ::
  "'x queue_env_scheme \<Rightarrow> uuid \<Rightarrow> uuid \<Rightarrow> int \<Rightarrow> autonomy_store \<Rightarrow> queue_error + unit \<times> autonomy_store"
where
  "autonomy_defer env i occurrence until st =
     res_bind (get_job env st i)
     (\<lambda>j. res_bind (ensure (jb_occurrence j = Some occurrence) StaleOccurrence)
     (\<lambda>_. res_bind (save_job env (j\<lparr>jb_state := deferred_state j, jb_occurrence := None,
         jb_not_before := until\<rparr>) st)
     (\<lambda>(_, st'). Inr ((), st'))))"

text \<open>What a receipt makes of the job: its state and, after a completed run, its next occurrence.\<close>

definition settled_trigger :: "run_outcome \<Rightarrow> trigger option \<Rightarrow> trigger option" where
  "settled_trigger outcome t =
     (if outcome \<in> {RunCompleted, RunCancelled, RunExpired}
      then map_option (update_observation (\<lambda>v. v\<lparr>ob_pending := False\<rparr>)) t else t)"

definition completed_run ::
  "'x queue_env_scheme \<Rightarrow> run_receipt \<Rightarrow> job \<Rightarrow> queue_error + job" where
  "completed_run env receipt j =
     (if jb_state j = JobCancelRequested then Inr (j\<lparr>jb_state := JobCancelled\<rparr>)
      else if (case jb_trigger j of Some t \<Rightarrow> trigger_completed t | None \<Rightarrow> False)
      then Inr (j\<lparr>jb_state := JobCompleted\<rparr>)
      else res_bind (case schedule_after (av_calendar env) (jb_schedule j)
            (max (rr_finished_at receipt) (oc_at (jb_next j))) of
            Inl e \<Rightarrow> Inl (JobInvalid e) | Inr x \<Rightarrow> Inr x)
        (\<lambda>found. Inr (case found of
             Some occurrence \<Rightarrow>
               j\<lparr>jb_not_before := oc_at occurrence, jb_next := occurrence,
                 jb_state := (if jb_pause_after_run j then JobPaused else JobReady)\<rparr>
           | None \<Rightarrow> j\<lparr>jb_state := JobCompleted\<rparr>)))"

definition finished_job ::
  "'x queue_env_scheme \<Rightarrow> run_receipt \<Rightarrow> job \<Rightarrow> queue_error + job" where
  "finished_job env receipt j0 =
     (let j = j0\<lparr>jb_occurrence := None,
                 jb_trigger := settled_trigger (rr_outcome receipt) (jb_trigger j0)\<rparr>
      in res_bind (case rr_outcome receipt of
             RunUnknown \<Rightarrow> Inr (j\<lparr>jb_state := JobNeedsYou\<rparr>)
           | RunNeedsYou \<Rightarrow> Inr (j\<lparr>jb_state := JobNeedsYou\<rparr>)
           | RunCancelled \<Rightarrow> Inr (j\<lparr>jb_state := JobCancelled\<rparr>)
           | RunExpired \<Rightarrow> Inr (j\<lparr>jb_state := JobExpired\<rparr>)
           | RunCompleted \<Rightarrow> completed_run env receipt j)
         (\<lambda>j'. Inr (j'\<lparr>jb_last_receipt := Some receipt\<rparr>)))"

definition autonomy_finish ::
  "'x queue_env_scheme \<Rightarrow> uuid \<Rightarrow> run_receipt \<Rightarrow> autonomy_store \<Rightarrow> queue_error + job \<times> autonomy_store"
where
  "autonomy_finish env i receipt st =
     res_bind (valid (validate_run_receipt (autonomy_env.truncate env) receipt))
     (\<lambda>_. res_bind (get_job env st i)
     (\<lambda>j. res_bind (ensure (jb_occurrence j = Some (rr_occurrence receipt)) StaleCompletion)
     (\<lambda>_. res_bind (ensure (oc_at (jb_next j) = rr_scheduled_at receipt) WrongScheduledInstant)
     (\<lambda>_. res_bind (insert_receipt env i receipt st)
     (\<lambda>st1. res_bind (finished_job env receipt j)
     (\<lambda>j'. save_job env j' st1))))))"

definition interrupted_text :: rust_string where
  "interrupted_text = rstr ''Previous host exited without a terminal receipt. Work may have occurred; review before a new attempt''"

definition interruption_receipt :: "int \<Rightarrow> uuid \<Rightarrow> job \<Rightarrow> run_receipt" where
  "interruption_receipt now occurrence j =
     \<lparr>rr_completion = None, rr_occurrence = occurrence, rr_scheduled_at = oc_at (jb_next j),
      rr_finished_at = now, rr_outcome = RunUnknown, rr_detail = interrupted_text,
      rr_coalesced = (now > oc_at (jb_next j)), rr_dst_adjusted = oc_dst_adjusted (jb_next j)\<rparr>"

definition autonomy_recover ::
  "'x queue_env_scheme \<Rightarrow> int \<Rightarrow> autonomy_store \<Rightarrow> queue_error + unit \<times> autonomy_store" where
  "autonomy_recover env now st =
     res_bind (read_all (stored_job env) (take 2 (running_rows st)))
     (\<lambda>jobs. res_bind (ensure (length jobs \<le> 1) RunningBound)
     (\<lambda>_. case jobs of
            [] \<Rightarrow> Inr ((), st)
          | j # _ \<Rightarrow>
              res_bind (ok_or (jb_occurrence j) MissingOccurrence)
              (\<lambda>occurrence. res_bind
                  (autonomy_finish env (jb_id j) (interruption_receipt now occurrence j) st)
              (\<lambda>(_, st'). Inr ((), st')))))"

text \<open>An observation that would change the task or its authority is refused.\<close>

definition same_authority :: "job \<Rightarrow> job \<Rightarrow> bool" where
  "same_authority current observed =
     (jb_action current = jb_action observed \<and> jb_scope current = jb_scope observed
      \<and> jb_authorized current = jb_authorized observed
      \<and> jb_conversation current = jb_conversation observed \<and> jb_name current = jb_name observed
      \<and> jb_budget current = jb_budget observed \<and> jb_expires_at current = jb_expires_at observed
      \<and> jb_schedule current = jb_schedule observed
      \<and> jb_occurrence current = jb_occurrence observed
      \<and> jb_pause_after_run current = jb_pause_after_run observed
      \<and> jb_last_receipt current = jb_last_receipt observed
      \<and> jb_state observed \<in> {JobReady, JobNeedsYou}
      \<and> (case (jb_trigger current, jb_trigger observed) of
           (Some l, Some r) \<Rightarrow> same_source l r | _ \<Rightarrow> False))"

definition source_text :: rust_string where
  "source_text = rstr ''Source observation requires owner review; no task execution started''"

definition source_receipt :: "uuid \<Rightarrow> int \<Rightarrow> job \<Rightarrow> run_receipt" where
  "source_receipt fresh checked current =
     \<lparr>rr_completion = None, rr_occurrence = fresh, rr_scheduled_at = oc_at (jb_next current),
      rr_finished_at = checked, rr_outcome = RunNeedsYou, rr_detail = source_text,
      rr_coalesced = (checked > oc_at (jb_next current)), rr_dst_adjusted = False\<rparr>"

definition autonomy_observed ::
  "'x queue_env_scheme \<Rightarrow> uuid \<Rightarrow> job \<Rightarrow> autonomy_store \<Rightarrow> queue_error + unit \<times> autonomy_store" where
  "autonomy_observed env fresh observed st =
     res_bind (get_job env st (jb_id observed))
     (\<lambda>current.
        if jb_revision current \<noteq> jb_revision observed \<or> jb_state current \<noteq> JobReady
        then Inr ((), st)
        else res_bind (ensure (same_authority current observed) ObservationChangesAuthority)
        (\<lambda>_. res_bind
           (if jb_state observed = JobNeedsYou then
              res_bind (ok_or (Option.bind (jb_trigger observed)
                  (\<lambda>t. ob_last_checked (trigger_observation t))) MissingInstant)
              (\<lambda>checked. let receipt = source_receipt fresh checked current
                 in res_bind (insert_receipt env (jb_id observed) receipt st)
                    (\<lambda>st1. Inr (observed\<lparr>jb_last_receipt := Some receipt\<rparr>, st1)))
            else Inr (observed, st))
        (\<lambda>(j, st1). res_bind (save_job env j st1) (\<lambda>(_, st2). Inr ((), st2)))))"

section \<open>The host policy and the documents\<close>

definition active_stop_job :: "job list \<Rightarrow> stop_job option" where
  "active_stop_job jobs =
     (case jobs of
        j # _ \<Rightarrow> Some \<lparr>sj_id = jb_id j, sj_conversation = jb_conversation j, sj_name = jb_name j\<rparr>
      | [] \<Rightarrow> None)"

definition record_stop ::
  "'x queue_env_scheme \<Rightarrow> u64 \<Rightarrow> int \<Rightarrow> autonomy_store \<Rightarrow> queue_error + autonomy_store" where
  "record_stop env revision now st =
     res_bind (read_all (stored_job env) (take 2 (running_rows st)))
     (\<lambda>jobs. res_bind (ensure (length jobs \<le> 1) RunningBound)
     (\<lambda>_. let impact = \<lparr>si_policy_revision = revision, si_requested_at = now,
               si_active_job = active_stop_job jobs, si_attached_clients = None\<rparr>
        in res_bind (ensure (qe_impact_json env impact \<le> 8192) ImpactBound)
           (\<lambda>_. Inr (st\<lparr>as_impact := Some impact\<rparr>))))"

definition autonomy_edit_policy ::
  "'x queue_env_scheme \<Rightarrow> u64 \<Rightarrow> (host_policy \<Rightarrow> host_policy) \<Rightarrow> int \<Rightarrow> autonomy_store
    \<Rightarrow> queue_error + host_policy \<times> autonomy_store" where
  "autonomy_edit_policy env revision edit now st =
     res_bind (ensure (hp_revision (autonomy_policy st) = revision) StalePolicy)
     (\<lambda>_. let edited = edit (autonomy_policy st) in
        res_bind (ensure (\<not> hp_startup_enabled edited \<or> hp_detached_enabled edited)
          StartupWithoutDetached)
     (\<lambda>_. res_bind (ok_or (checked_add revision 1) PolicyExhausted)
     (\<lambda>next_revision. let p = edited\<lparr>hp_revision := next_revision\<rparr> in
        res_bind (if hp_stop_requested p then record_stop env next_revision now st else Inr st)
     (\<lambda>st1. Inr (p, st1\<lparr>as_policy := Some p\<rparr>)))))"

definition autonomy_record_stop_clients ::
  "'x queue_env_scheme \<Rightarrow> u64 \<Rightarrow> stop_clients \<Rightarrow> autonomy_store \<Rightarrow> queue_error + unit \<times> autonomy_store"
where
  "autonomy_record_stop_clients env revision clients st =
     res_bind (ensure (sl_count clients = length (sl_identities clients) \<and> sl_count clients \<le> 32)
       ClientSnapshotBound)
     (\<lambda>_. case as_impact st of
            None \<Rightarrow> Inr ((), st)
          | Some impact \<Rightarrow>
              if si_policy_revision impact = revision \<and> si_attached_clients impact = None then
                let impact' = impact\<lparr>si_attached_clients := Some clients\<rparr>
                in res_bind (ensure (qe_impact_json env impact' \<le> 8192) ImpactBound)
                   (\<lambda>_. Inr ((), st\<lparr>as_impact := Some impact'\<rparr>))
              else Inr ((), st))"

definition autonomy_record_outputs ::
  "'x queue_env_scheme \<Rightarrow> int \<Rightarrow> (rust_string \<times> rust_string) option \<Rightarrow> autonomy_store
    \<Rightarrow> queue_error + unit \<times> autonomy_store" where
  "autonomy_record_outputs env now output st =
     (if \<not> list_ex (\<lambda>r. jr_state r \<in> {0, 1, 3, 4}) (as_jobs st) then Inr ((), st)
      else let previous = (case as_outputs st of Some own \<Rightarrow> own
               | None \<Rightarrow> \<lparr>ow_files = [], ow_unknown_generation = 0\<rparr>)
        in res_bind (case record_output now output previous of
               Inl e \<Rightarrow> Inl (JobInvalid e) | Inr own \<Rightarrow> Inr own)
           (\<lambda>own. res_bind (ensure (qe_outputs_json env own \<le> 128 * 1024) OutputsBound)
           (\<lambda>_. Inr ((), st\<lparr>as_outputs := Some own\<rparr>))))"

section \<open>The queue as a machine\<close>

datatype queue_command =
  Create job | Edit uuid u64 job_edit int | Claim int uuid | Defer uuid uuid int
| FinishRun uuid run_receipt | Recover int | Observed uuid job
| EditPolicy u64 "host_policy \<Rightarrow> host_policy" int | StopClients u64 stop_clients
| RecordOutputs int "(rust_string \<times> rust_string) option"

text \<open>The store a command commits: the old one where the transaction fails.\<close>

definition committed :: "queue_error + 'a \<times> autonomy_store \<Rightarrow> autonomy_store \<Rightarrow> autonomy_store" where
  "committed r st = (case r of Inl _ \<Rightarrow> st | Inr (_, st') \<Rightarrow> st')"

fun queue_step :: "'x queue_env_scheme \<Rightarrow> autonomy_store \<Rightarrow> queue_command \<Rightarrow> autonomy_store" where
  "queue_step env st (Create j) = committed (autonomy_create env j st) st"
| "queue_step env st (Edit i revision edit now) =
     committed (autonomy_edit env i revision edit now st) st"
| "queue_step env st (Claim now fresh) = committed (autonomy_claim env now fresh st) st"
| "queue_step env st (Defer i occurrence until) =
     committed (autonomy_defer env i occurrence until st) st"
| "queue_step env st (FinishRun i receipt) = committed (autonomy_finish env i receipt st) st"
| "queue_step env st (Recover now) = committed (autonomy_recover env now st) st"
| "queue_step env st (Observed fresh j) = committed (autonomy_observed env fresh j st) st"
| "queue_step env st (EditPolicy revision edit now) =
     committed (autonomy_edit_policy env revision edit now st) st"
| "queue_step env st (StopClients revision clients) =
     committed (autonomy_record_stop_clients env revision clients st) st"
| "queue_step env st (RecordOutputs now output) =
     committed (autonomy_record_outputs env now output st) st"

definition new_store :: autonomy_store where
  "new_store =
     \<lparr>as_jobs = [], as_receipts = [], as_policy = None, as_impact = None, as_outputs = None,
      as_review_required = False\<rparr>"

end
