(* ===== verification/Autonomy_Safety.thy ===== *)
theory Autonomy_Safety
  imports Autonomy_Queue
begin

text \<open>
  What the job queue guarantees. The abstract specification is the life cycle of one job as a
  step relation on its state; every committed transaction either leaves the job table alone,
  appends a new job, or moves one job along that relation (\<open>queue_moves\<close>) and appends at most one
  receipt. The invariant of the tables, the monotone growth of the store and the safety of
  interrupted work are proved over that summary.
\<close>

section \<open>The life cycle of a job\<close>

inductive lifecycle :: "job_state \<Rightarrow> job_state \<Rightarrow> bool" where
  observed: "lifecycle JobReady JobReady"
| source_failed: "lifecycle JobReady JobNeedsYou"
| paused: "s \<in> {JobReady, JobPaused, JobRunning} \<Longrightarrow> lifecycle s JobPaused"
| claimed: "lifecycle JobReady JobRunning"
| expired: "s \<in> {JobReady, JobRunning, JobCancelRequested} \<Longrightarrow> lifecycle s JobExpired"
| pause_requested: "lifecycle JobRunning JobRunning"
| cancel_requested: "s \<in> {JobRunning, JobCancelRequested} \<Longrightarrow> lifecycle s JobCancelRequested"
| returned: "lifecycle JobRunning JobReady"
| interrupted: "s \<in> {JobRunning, JobCancelRequested} \<Longrightarrow> lifecycle s JobNeedsYou"
| completed: "lifecycle JobRunning JobCompleted"
| cancelled: "state_active s \<Longrightarrow> lifecycle s JobCancelled"
| resumed: "s \<in> {JobPaused, JobNeedsYou} \<Longrightarrow> lifecycle s JobReady"

inductive_cases lifecycle_from_terminal:
  "lifecycle JobCompleted s" "lifecycle JobCancelled s" "lifecycle JobExpired s"
inductive_cases lifecycle_from_review: "lifecycle JobNeedsYou s"
inductive_simps lifecycle_to_running: "lifecycle s JobRunning"
inductive_simps lifecycle_to_cancelling: "lifecycle s JobCancelRequested"

lemma lifecycle_active: "lifecycle s t \<Longrightarrow> state_active s"
  by (induction rule: lifecycle.induct) (auto simp: state_active_def)

lemma lifecycle_table:
  "lifecycle s t \<longleftrightarrow>
     (case s of
        JobReady \<Rightarrow> t \<in> {JobReady, JobNeedsYou, JobPaused, JobRunning, JobExpired, JobCancelled}
      | JobRunning \<Rightarrow> True
      | JobCancelRequested \<Rightarrow> t \<in> {JobCancelRequested, JobExpired, JobNeedsYou, JobCancelled}
      | JobPaused \<Rightarrow> t \<in> {JobPaused, JobReady, JobCancelled}
      | JobNeedsYou \<Rightarrow> t \<in> {JobReady, JobCancelled}
      | _ \<Rightarrow> False)"
  by (cases s; cases t) (auto simp: lifecycle.simps state_active_def)

lemma lifecycle_running:
  "lifecycle s t \<Longrightarrow> state_running t \<Longrightarrow> state_running s \<or> s = JobReady \<and> t = JobRunning"
  by (auto simp: state_running_def lifecycle_to_running lifecycle_to_cancelling)

section \<open>Changes of one job\<close>

definition same_intent :: "job \<Rightarrow> job \<Rightarrow> bool" where
  "same_intent b j =
     (jb_id j = jb_id b \<and> jb_conversation j = jb_conversation b \<and> jb_name j = jb_name b
      \<and> jb_scope j = jb_scope b \<and> jb_action j = jb_action b \<and> jb_budget j = jb_budget b
      \<and> jb_schedule j = jb_schedule b \<and> jb_expires_at j = jb_expires_at b
      \<and> (jb_authorized j \<longrightarrow> jb_authorized b)
      \<and> rel_option same_source (jb_trigger b) (jb_trigger j))"

definition job_change :: "job \<Rightarrow> job \<Rightarrow> bool" where
  "job_change b j = (same_intent b j \<and> lifecycle (jb_state b) (jb_state j))"

lemma same_source_refl [simp]: "same_source t t"
  by (cases t) (auto simp: same_source_def)

lemma rel_source_refl [simp]: "rel_option same_source t t"
  by (cases t) auto

lemma same_source_trans: "same_source a b \<Longrightarrow> same_source b c \<Longrightarrow> same_source a c"
  by (cases a; cases b; cases c) (auto simp: same_source_def)

lemma same_source_update [simp]: "same_source t (update_observation f t)"
  by (cases t) (auto simp: same_source_def)

lemma same_source_reviewed [simp]: "rel_option same_source t (reviewed_trigger b st t)"
  by (auto simp: reviewed_trigger_def same_source_def split: option.splits trigger.splits)

lemma same_source_settled [simp]: "rel_option same_source t (settled_trigger outcome t)"
  by (cases t) (auto simp: settled_trigger_def)

lemma reviewed_trigger_None [simp]: "reviewed_trigger b st None = None"
  by (simp add: reviewed_trigger_def)

lemma same_intent_refl [simp]: "same_intent b b"
  by (simp add: same_intent_def)

lemma rel_source_trans:
  "rel_option same_source a b \<Longrightarrow> rel_option same_source b c \<Longrightarrow> rel_option same_source a c"
  by (cases a; cases b; cases c) (auto intro: same_source_trans)

lemma same_intent_trans: "same_intent a b \<Longrightarrow> same_intent b c \<Longrightarrow> same_intent a c"
  by (auto simp: same_intent_def elim: rel_source_trans)

lemma same_intent_fields:
  "same_intent b (b\<lparr>jb_state := s\<rparr>)" "same_intent b (b\<lparr>jb_pause_after_run := p\<rparr>)"
  by (simp_all add: same_intent_def)

lemma edited_job_change:
  assumes "edited_job st edit now b = Inr j"
  shows "job_change b j \<and> jb_revision j = jb_revision b
     \<and> jb_occurrence j = jb_occurrence b \<and> jb_last_receipt j = jb_last_receipt b"
  using assms
  by (cases "jb_state b")
    (auto simp: edited_job_def job_change_def same_intent_def state_running_def res_simps
      state_active_def lifecycle_table split: job_edit.splits if_splits)

lemma completed_run_change:
  assumes "completed_run env receipt b = Inr j" and "state_running (jb_state b)"
  shows "job_change b j \<and> jb_revision j = jb_revision b \<and> jb_occurrence j = jb_occurrence b"
  using assms
  by (auto simp: completed_run_def job_change_def same_intent_def state_running_def res_simps
      lifecycle_table split: if_splits option.splits sum.splits)

lemma finished_job_change:
  assumes "finished_job env receipt b = Inr j" and running: "state_running (jb_state b)"
  shows "job_change b j \<and> jb_revision j = jb_revision b \<and> jb_occurrence j = None
     \<and> jb_last_receipt j = Some receipt"
proof -
  define b1 where "b1 = b\<lparr>jb_occurrence := None,
    jb_trigger := settled_trigger (rr_outcome receipt) (jb_trigger b)\<rparr>"
  have b1: "same_intent b b1" "jb_state b1 = jb_state b" "jb_revision b1 = jb_revision b"
    "jb_occurrence b1 = None"
    by (simp_all add: b1_def same_intent_def)
  obtain j1 where j1: "j = j1\<lparr>jb_last_receipt := Some receipt\<rparr>"
    and outcome: "(case rr_outcome receipt of
             RunUnknown \<Rightarrow> Inr (b1\<lparr>jb_state := JobNeedsYou\<rparr>)
           | RunNeedsYou \<Rightarrow> Inr (b1\<lparr>jb_state := JobNeedsYou\<rparr>)
           | RunCancelled \<Rightarrow> Inr (b1\<lparr>jb_state := JobCancelled\<rparr>)
           | RunExpired \<Rightarrow> Inr (b1\<lparr>jb_state := JobExpired\<rparr>)
           | RunCompleted \<Rightarrow> completed_run env receipt b1) = Inr j1"
    using assms(1) unfolding finished_job_def Let_def b1_def [symmetric] res_bind_eq_Inr by blast
  have "job_change b1 j1 \<and> jb_revision j1 = jb_revision b1 \<and> jb_occurrence j1 = None"
  proof (cases "rr_outcome receipt")
    case RunCompleted
    then show ?thesis using outcome running b1 completed_run_change [of env receipt b1 j1] by simp
  qed (use outcome running b1(2,4) in
      \<open>auto simp: job_change_def state_running_def same_intent_def lifecycle_table\<close>)
  then have "job_change b j1" and "jb_revision j1 = jb_revision b" and "jb_occurrence j1 = None"
    using b1 same_intent_trans by (auto simp: job_change_def)
  then show ?thesis by (simp add: j1 job_change_def same_intent_def)
qed

lemma deferred_change:
  assumes "state_running (jb_state b)"
  shows "job_change b (b\<lparr>jb_state := deferred_state b, jb_occurrence := None,
     jb_not_before := until\<rparr>)"
  using assms
  by (auto simp: job_change_def same_intent_def deferred_state_def state_running_def
      lifecycle_table)

lemma observed_change:
  assumes "same_authority b j" and "jb_state b = JobReady" and "jb_id j = jb_id b"
  shows "job_change b j"
  using assms
  by (auto simp: job_change_def same_intent_def same_authority_def lifecycle_table
      split: option.splits)

section \<open>The invariant of the tables\<close>

definition receipt_ok :: "'x queue_env_scheme \<Rightarrow> receipt_row \<Rightarrow> bool" where
  "receipt_ok env w =
     (rw_occurrence w = rr_occurrence (rw_body w)
      \<and> validate_run_receipt (autonomy_env.truncate env) (rw_body w) = Inr ())"

definition row_ok :: "'x queue_env_scheme \<Rightarrow> job_row \<Rightarrow> bool" where
  "row_ok env r = (stored_job env r = Inr (jr_body r))"

text \<open>The rows that the ceiling on pending work counts.\<close>

definition active_rows :: "job_row list \<Rightarrow> job_row list" where
  "active_rows rows = filter (\<lambda>r. jr_state r < 5) rows"

definition store_inv :: "'x queue_env_scheme \<Rightarrow> autonomy_store \<Rightarrow> bool" where
  "store_inv env st =
     (distinct (map jr_id (as_jobs st)) \<and> sorted_wrt (<) (map jr_sequence (as_jobs st))
      \<and> list_all (row_ok env) (as_jobs st)
      \<and> distinct (map rw_occurrence (as_receipts st))
      \<and> sorted_wrt (<) (map rw_sequence (as_receipts st))
      \<and> list_all (receipt_ok env) (as_receipts st)
      \<and> length (running_rows st) \<le> 1 \<and> length (active_rows (as_jobs st)) \<le> QUEUE_LIMIT
      \<and> (hp_startup_enabled (autonomy_policy st) \<longrightarrow> hp_detached_enabled (autonomy_policy st)))"

lemma row_ok_iff:
  "row_ok env r \<longleftrightarrow>
     validate_job (autonomy_env.truncate env) (jr_body r) = Inr () \<and> jr_id r = jb_id (jr_body r)
     \<and> av_job_json env (jr_body r) \<le> JOB_BYTES
     \<and> jr_revision r = jb_revision (jr_body r) \<and> jr_state r = state_code (jb_state (jr_body r))
     \<and> jr_due r = jb_not_before (jr_body r)"
  by (auto simp: row_ok_def stored_job_def decode_job_def Let_def res_simps elim!: is_okE)

lemma stored_job_eq_Inr [res_simps]:
  "stored_job env r = Inr j \<longleftrightarrow> row_ok env r \<and> j = jr_body r"
  by (auto simp: row_ok_def stored_job_def Let_def split: if_splits)

lemma store_inv_rows: "store_inv env st \<Longrightarrow> r \<in> set (as_jobs st) \<Longrightarrow> row_ok env r"
  by (simp add: store_inv_def list_all_iff)

lemma store_inv_ids:
  "store_inv env st \<Longrightarrow> r \<in> set (as_jobs st) \<Longrightarrow> r' \<in> set (as_jobs st) \<Longrightarrow> jr_id r = jr_id r' \<Longrightarrow> r = r'"
  by (auto simp: store_inv_def distinct_map dest: inj_onD)

lemma validate_job_running:
  "validate_job env j = Inr () \<Longrightarrow> state_running (jb_state j) \<longleftrightarrow> jb_occurrence j \<noteq> None"
  by (auto simp: validate_job_def Let_def res_simps)

lemma row_running:
  "row_ok env r \<Longrightarrow> state_running (jb_state (jr_body r)) \<longleftrightarrow> jb_occurrence (jr_body r) \<noteq> None"
  by (drule iffD1 [OF row_ok_iff]) (blast dest: validate_job_running)

lemma state_code_running: "state_code s = Suc 0 \<or> state_code s = 2 \<longleftrightarrow> state_running s"
  by (cases s) (auto simp: state_running_def)

lemma row_code_running:
  "row_ok env r \<Longrightarrow> jr_state r = Suc 0 \<or> jr_state r = 2 \<longleftrightarrow> state_running (jb_state (jr_body r))"
  by (simp add: row_ok_iff state_code_running)

lemma state_code_eq: "state_code s = state_code t \<longleftrightarrow> s = t"
  by (cases s; cases t) auto

lemma running_rows_iff:
  "store_inv env st \<Longrightarrow>
     set (running_rows st) = {r \<in> set (as_jobs st). state_running (jb_state (jr_body r))}"
  using row_code_running store_inv_rows by (fastforce simp: running_rows_def)

lemma get_jobE:
  assumes "get_job env st i = Inr b"
  obtains r where "r \<in> set (as_jobs st)" and "jr_id r = i" and "b = jr_body r" and "row_ok env r"
  using assms by (auto simp: get_job_def res_simps find_Some_iff) (metis nth_mem)

section \<open>Moves of the store\<close>

definition replace_job :: "job \<Rightarrow> job_row list \<Rightarrow> job_row list" where
  "replace_job j rows = map (\<lambda>r. if jr_id r = jb_id j then write_row j r else r) rows"

definition queue_moves ::
  "'x queue_env_scheme \<Rightarrow> autonomy_store \<Rightarrow> job_row \<Rightarrow> job \<Rightarrow> receipt_row list \<Rightarrow> autonomy_store \<Rightarrow> bool"
where
  "queue_moves env st r j ws st' =
     (r \<in> set (as_jobs st) \<and> row_ok env r \<and> job_change (jr_body r) j
      \<and> unat (jb_revision j) = Suc (unat (jr_revision r))
      \<and> validate_job (autonomy_env.truncate env) j = Inr ()
      \<and> as_jobs st' = replace_job j (as_jobs st)
      \<and> as_receipts st' = as_receipts st @ ws
      \<and> as_policy st' = as_policy st)"

lemma validate_job_bytes: "validate_job env j = Inr () \<Longrightarrow> av_job_json env j \<le> JOB_BYTES"
  by (simp add: validate_job_def Let_def res_simps)

lemma truncate_job_json [simp]: "av_job_json (autonomy_env.truncate env) = av_job_json env"
  by (simp add: autonomy_env.truncate_def)

lemma moved_row:
  assumes "queue_moves env st r j ws st'"
  shows "write_row j r \<in> set (as_jobs st')" and "jr_id r = jb_id j"
proof -
  show "jr_id r = jb_id j"
    using assms by (simp add: queue_moves_def row_ok_iff job_change_def same_intent_def)
  then show "write_row j r \<in> set (as_jobs st')"
    using assms by (force simp: queue_moves_def replace_job_def)
qed

text \<open>Saving a changed job whose row the transaction has read.\<close>

lemma save_moves:
  assumes inv: "store_inv env st" and r: "r \<in> set (as_jobs st)"
    and j: "job_change (jr_body r) j" "jb_revision j = jb_revision (jr_body r)"
    and st1: "as_jobs st1 = as_jobs st" "as_receipts st1 = as_receipts st @ ws"
      "as_policy st1 = as_policy st"
    and save: "save_job env j st1 = Inr (j', st')"
  shows "queue_moves env st r j' ws st' \<and> j' = j\<lparr>jb_revision := jb_revision j'\<rparr>"
proof -
  have ok: "row_ok env r" using inv r by (rule store_inv_rows)
  obtain v where v: "checked_add (jb_revision j) 1 = Some v"
    and j': "j' = j\<lparr>jb_revision := v\<rparr>" and valid: "validate_job (autonomy_env.truncate env) j' = Inr ()"
    and st': "st' = st1\<lparr>as_jobs := map (\<lambda>r. if jr_id r = jb_id j \<and> jr_revision r = jb_revision j
        then write_row j' r else r) (as_jobs st1)\<rparr>"
    using save by (auto simp: save_job_def Let_def res_simps)
  have ids: "jr_id r = jb_id j" "jr_revision r = jb_revision j"
    using ok j by (simp_all add: row_ok_iff job_change_def same_intent_def)
  have "jr_revision r' = jb_revision j" if "r' \<in> set (as_jobs st)" and "jr_id r' = jb_id j" for r'
    using store_inv_ids [OF inv that(1) r] that(2) ids by simp
  then have "as_jobs st' = replace_job j' (as_jobs st)"
    by (auto simp: st' st1 replace_job_def j')
  moreover have "job_change (jr_body r) j'"
    using j(1) by (simp add: j' job_change_def same_intent_def)
  moreover have "unat v = Suc (unat (jr_revision r))"
    using v ids(2) by (simp add: sat_simps)
  ultimately show ?thesis
    using r ok valid by (simp add: queue_moves_def st' st1 j')
qed

definition receipt_added ::
  "'x queue_env_scheme \<Rightarrow> autonomy_store \<Rightarrow> uuid \<Rightarrow> run_receipt \<Rightarrow> receipt_row \<Rightarrow> bool" where
  "receipt_added env st i receipt w =
     (rw_job w = i \<and> rw_body w = receipt \<and> rw_occurrence w = rr_occurrence receipt
      \<and> receipt_ok env w \<and> rw_occurrence w \<notin> set (map rw_occurrence (as_receipts st))
      \<and> rw_sequence w = next_sequence (map rw_sequence (as_receipts st)))"

lemma insert_receiptE:
  assumes "insert_receipt env i receipt st = Inr st1"
  obtains w where "receipt_added env st i receipt w"
    and "st1 = st\<lparr>as_receipts := as_receipts st @ [w]\<rparr>"
proof (rule that)
  show "st1 = st\<lparr>as_receipts := as_receipts st @
      [\<lparr>rw_sequence = next_sequence (map rw_sequence (as_receipts st)), rw_job = i,
        rw_occurrence = rr_occurrence receipt, rw_body = receipt\<rparr>]\<rparr>"
    using assms by (simp add: insert_receipt_def res_simps)
qed (use assms in \<open>simp add: insert_receipt_def receipt_added_def receipt_ok_def res_simps\<close>)

lemma edit_moves:
  assumes inv: "store_inv env st" and edit: "autonomy_edit env i revision edit now st = Inr (j', st')"
  obtains r j where "queue_moves env st r j' [] st'" and "jr_id r = i" and "jr_revision r = revision"
    and "edited_job st edit now (jr_body r) = Inr j" and "j' = j\<lparr>jb_revision := jb_revision j'\<rparr>"
proof -
  obtain b j where get: "get_job env st i = Inr b" and rev: "jb_revision b = revision"
    and ed: "edited_job st edit now b = Inr j" and save: "save_job env j st = Inr (j', st')"
    using edit by (auto simp: autonomy_edit_def res_simps)
  obtain r where r: "r \<in> set (as_jobs st)" "jr_id r = i" "b = jr_body r" and ok: "row_ok env r"
    using get by (rule get_jobE)
  have change: "job_change b j" "jb_revision j = jb_revision b"
    using edited_job_change [OF ed] by simp_all
  have "queue_moves env st r j' [] st' \<and> j' = j\<lparr>jb_revision := jb_revision j'\<rparr>"
    by (rule save_moves [OF inv r(1) _ _ _ _ _ save]) (use change r in simp_all)
  moreover have "jr_revision r = revision" using ok rev r(3) by (simp add: row_ok_iff)
  ultimately show ?thesis using that r ed by blast
qed

lemma defer_moves:
  assumes inv: "store_inv env st" and d: "autonomy_defer env i occurrence until st = Inr (u, st')"
  obtains r j' where "queue_moves env st r j' [] st'" and "jr_id r = i"
    and "jb_occurrence (jr_body r) = Some occurrence"
    and "j' = (jr_body r)\<lparr>jb_state := deferred_state (jr_body r), jb_occurrence := None,
         jb_not_before := until, jb_revision := jb_revision j'\<rparr>"
proof -
  obtain b j' where get: "get_job env st i = Inr b" and occ: "jb_occurrence b = Some occurrence"
    and save: "save_job env (b\<lparr>jb_state := deferred_state b, jb_occurrence := None,
         jb_not_before := until\<rparr>) st = Inr (j', st')"
    using d by (auto simp: autonomy_defer_def res_simps)
  obtain r where r: "r \<in> set (as_jobs st)" "jr_id r = i" "b = jr_body r" and ok: "row_ok env r"
    using get by (rule get_jobE)
  have running: "state_running (jb_state b)" using row_running [OF ok] occ r(3) by simp
  have "queue_moves env st r j' [] st' \<and> j' = (b\<lparr>jb_state := deferred_state b,
      jb_occurrence := None, jb_not_before := until\<rparr>)\<lparr>jb_revision := jb_revision j'\<rparr>"
    by (rule save_moves [OF inv r(1) _ _ _ _ _ save])
      (use deferred_change [OF running] r in simp_all)
  then show ?thesis using that r occ by auto
qed

lemma finish_moves:
  assumes inv: "store_inv env st" and f: "autonomy_finish env i receipt st = Inr (j', st')"
  obtains r w j where "queue_moves env st r j' [w] st'" and "jr_id r = i"
    and "receipt_added env st i receipt w"
    and "jb_occurrence (jr_body r) = Some (rr_occurrence receipt)"
    and "finished_job env receipt (jr_body r) = Inr j" and "j' = j\<lparr>jb_revision := jb_revision j'\<rparr>"
    and "rr_scheduled_at receipt = oc_at (jb_next (jr_body r))"
proof -
  obtain b st1 j where get: "get_job env st i = Inr b"
    and occ: "jb_occurrence b = Some (rr_occurrence receipt)"
    and at: "oc_at (jb_next b) = rr_scheduled_at receipt"
    and ins: "insert_receipt env i receipt st = Inr st1"
    and fin: "finished_job env receipt b = Inr j" and save: "save_job env j st1 = Inr (j', st')"
    using f by (auto simp: autonomy_finish_def res_simps)
  obtain r where r: "r \<in> set (as_jobs st)" "jr_id r = i" "b = jr_body r" and ok: "row_ok env r"
    using get by (rule get_jobE)
  obtain w where w: "receipt_added env st i receipt w"
    and st1: "st1 = st\<lparr>as_receipts := as_receipts st @ [w]\<rparr>"
    using ins by (rule insert_receiptE)
  have running: "state_running (jb_state b)" using row_running [OF ok] occ r(3) by simp
  have "queue_moves env st r j' [w] st' \<and> j' = j\<lparr>jb_revision := jb_revision j'\<rparr>"
    by (rule save_moves [OF inv r(1) _ _ _ _ _ save])
      (use finished_job_change [OF fin running] r st1 in \<open>simp_all add: autonomy_policy_def\<close>)
  then show ?thesis using that r w occ fin at by auto
qed

lemma read_all_eq_Inr: "read_all f rs = Inr xs \<Longrightarrow> list_all2 (\<lambda>r x. f r = Inr x) rs xs"
  by (induction rs arbitrary: xs) (auto simp: res_simps)

text \<open>Recovery finds at most the one running row and finishes it as unknown, or changes nothing.\<close>

lemma recover_moves:
  assumes inv: "store_inv env st" and rec: "autonomy_recover env now st = Inr (u, st')"
  obtains (idle) "running_rows st = []" and "st' = st"
  | (interrupted) r occurrence j' where "running_rows st = [r]"
      and "autonomy_finish env (jr_id r) (interruption_receipt now occurrence (jr_body r)) st
        = Inr (j', st')"
proof (cases "running_rows st")
  case Nil
  then have "st' = st" using rec by (simp add: autonomy_recover_def ensure_def)
  then show ?thesis using idle Nil by blast
next
  case (Cons r rest)
  then have one: "running_rows st = [r]" using inv by (simp add: store_inv_def)
  then have "r \<in> set (running_rows st)" by simp
  then have "r \<in> set (as_jobs st)" by (simp add: running_rows_def)
  then have ok: "row_ok env r" using inv store_inv_rows by blast
  then have read: "stored_job env r = Inr (jr_body r)" by (simp only: row_ok_def)
  obtain occurrence j' where
    "autonomy_finish env (jb_id (jr_body r)) (interruption_receipt now occurrence (jr_body r)) st
      = Inr (j', st')"
    using rec by (auto simp: autonomy_recover_def one read res_bind_eq_Inr ensure_def)
  moreover have "jb_id (jr_body r) = jr_id r" using ok by (simp add: row_ok_iff)
  ultimately show ?thesis using interrupted one by simp
qed

lemma due_rows_member: "set (due_rows now st) = {r \<in> set (as_jobs st). jr_state r = 0 \<and> jr_due r \<le> now}"
  by (auto simp: due_rows_def)

lemma claim_job_moves:
  assumes inv: "store_inv env st" and r: "r \<in> set (as_jobs st)"
    and ready: "jb_state (jr_body r) = JobReady"
    and claim: "claim_job env now fresh (jr_body r) st = Inr (res, st')"
  obtains (nothing) "res = None" and "st' = st"
  | (lapsed) w j' where "res = None" and "queue_moves env st r j' [w] st'"
      and "receipt_added env st (jr_id r) (expiry_receipt fresh now (jr_body r)) w"
      and "jb_state j' = JobExpired"
      and "jb_expires_at (jr_body r) \<le> now \<or> \<not> jb_authorized (jr_body r)"
  | (claimed) j' where "res = Some j'" and "queue_moves env st r j' [] st'"
      and "j' = (jr_body r)\<lparr>jb_state := JobRunning, jb_occurrence := Some fresh,
             jb_revision := jb_revision j'\<rparr>"
      and "now < jb_expires_at (jr_body r)" and "jb_authorized (jr_body r)"
      and "\<not> event_missing (jr_body r)"
proof -
  define b where "b = jr_body r"
  have id: "jb_id b = jr_id r" using store_inv_rows [OF inv r] by (simp add: row_ok_iff b_def)
  consider (a) "jb_expires_at b > now" "jb_authorized b" "event_missing b"
    | (b) "jb_expires_at b \<le> now \<or> \<not> jb_authorized b"
    | (c) "jb_expires_at b > now" "jb_authorized b" "\<not> event_missing b" by fastforce
  then show ?thesis
  proof cases
    case a
    then have "res = None" and "st' = st" using claim by (simp_all add: claim_job_def b_def)
    then show ?thesis by (rule nothing)
  next
    case b
    let ?receipt = "expiry_receipt fresh now b"
    let ?j = "b\<lparr>jb_state := JobExpired, jb_last_receipt := Some ?receipt\<rparr>"
    obtain st1 j' where ins: "insert_receipt env (jr_id r) ?receipt st = Inr st1"
      and save: "save_job env ?j st1 = Inr (j', st')" and res: "res = None"
      using claim b unfolding b_def [symmetric]
      by (auto simp: claim_job_def Let_def res_bind_eq_Inr id split: if_splits)
    obtain w where w: "receipt_added env st (jr_id r) ?receipt w"
      and st1: "st1 = st\<lparr>as_receipts := as_receipts st @ [w]\<rparr>"
      using ins by (rule insert_receiptE)
    have change: "job_change b ?j"
      using ready by (simp add: job_change_def same_intent_def b_def lifecycle_table)
    have "queue_moves env st r j' [w] st' \<and> j' = ?j\<lparr>jb_revision := jb_revision j'\<rparr>"
      by (rule save_moves [OF inv r _ _ _ _ _ save])
        (use change st1 in \<open>simp_all add: b_def autonomy_policy_def\<close>)
    moreover from this have "jb_state j' = JobExpired" by (metis job.select_convs(12) job.surjective job.update_convs(12,2,17))
    ultimately show ?thesis using lapsed res w b unfolding b_def by blast
  next
    case c
    let ?j = "b\<lparr>jb_state := JobRunning, jb_occurrence := Some fresh\<rparr>"
    obtain j' where save: "save_job env ?j st = Inr (j', st')" and res: "res = Some j'"
      using claim c unfolding b_def [symmetric]
      by (auto simp: claim_job_def Let_def res_bind_eq_Inr)
    have change: "job_change b ?j"
      using ready by (simp add: job_change_def same_intent_def b_def lifecycle_table)
    have "queue_moves env st r j' [] st' \<and> j' = ?j\<lparr>jb_revision := jb_revision j'\<rparr>"
      by (rule save_moves [OF inv r _ _ _ _ _ save]) (use change in \<open>simp_all add: b_def\<close>)
    then show ?thesis using claimed res c unfolding b_def by simp
  qed
qed

lemma claim_moves:
  assumes inv: "store_inv env st" and claim: "autonomy_claim env now fresh st = Inr (res, st')"
  obtains (nothing) "res = None" and "st' = st"
  | (lapsed) r w j' where "res = None" and "queue_moves env st r j' [w] st'"
      and "receipt_added env st (jr_id r) (expiry_receipt fresh now (jr_body r)) w"
      and "jb_state j' = JobExpired" and "jb_state (jr_body r) = JobReady"
  | (claimed) r rest j' where "running_rows st = []" and "due_rows now st = r # rest"
      and "res = Some j'" and "queue_moves env st r j' [] st'"
      and "j' = (jr_body r)\<lparr>jb_state := JobRunning, jb_occurrence := Some fresh,
             jb_revision := jb_revision j'\<rparr>"
      and "jb_state (jr_body r) = JobReady" and "now < jb_expires_at (jr_body r)"
      and "jb_authorized (jr_body r)" and "\<not> event_missing (jr_body r)"
proof (cases "running_rows st = [] \<and> due_rows now st \<noteq> []")
  case False
  then have "res = None" and "st' = st"
    using claim by (auto simp: autonomy_claim_def res_simps split: if_splits list.splits)
  then show ?thesis by (rule nothing)
next
  case True
  then obtain r rest where due: "due_rows now st = r # rest" by (auto simp: neq_Nil_conv)
  have job: "claim_job env now fresh (jr_body r) st = Inr (res, st')"
    and ready: "jb_state (jr_body r) = JobReady"
    using claim True due by (auto simp: autonomy_claim_def res_simps)
  have r: "r \<in> set (as_jobs st)" using due due_rows_member [of now st] by auto
  show ?thesis
    using inv r ready job
  proof (cases rule: claim_job_moves)
    case (claimed j')
    then show ?thesis using that(3) [of r rest j'] True due ready by blast
  next
    case nothing
    then show ?thesis by (rule that(1))
  next
    case (lapsed w j')
    then show ?thesis using that(2) ready by blast
  qed
qed

lemma observed_moves:
  assumes inv: "store_inv env st" and obs: "autonomy_observed env fresh observed st = Inr (u, st')"
  obtains (stale) "st' = st"
  | (sampled) r j' ws where "queue_moves env st r j' ws st'" and "jr_id r = jb_id observed"
      and "jr_revision r = jb_revision observed" and "jb_state (jr_body r) = JobReady"
      and "same_authority (jr_body r) observed"
      and "ws = [] \<and> jb_state observed \<noteq> JobNeedsYou
        \<or> (\<exists>w checked. ws = [w]
            \<and> receipt_added env st (jr_id r) (source_receipt fresh checked (jr_body r)) w)"
      and "jb_state j' = jb_state observed"
proof -
  obtain b where get: "get_job env st (jb_id observed) = Inr b"
    using obs by (auto simp: autonomy_observed_def res_simps)
  obtain r where r: "r \<in> set (as_jobs st)" "jr_id r = jb_id observed" "b = jr_body r"
    and ok: "row_ok env r" using get by (rule get_jobE)
  have ids: "jb_id b = jb_id observed" "jr_revision r = jb_revision b"
    using ok r by (simp_all add: row_ok_iff)
  show ?thesis
  proof (cases "jb_revision b \<noteq> jb_revision observed \<or> jb_state b \<noteq> JobReady")
    case True
    then have "st' = st" using obs get by (auto simp: autonomy_observed_def)
    then show ?thesis by (rule stale)
  next
    case False
    then obtain j st1 j' where auth: "same_authority b observed"
      and j: "jb_state observed = JobNeedsYou \<and> (\<exists>checked.
            insert_receipt env (jb_id observed) (source_receipt fresh checked b) st = Inr st1
            \<and> j = observed\<lparr>jb_last_receipt := Some (source_receipt fresh checked b)\<rparr>)
          \<or> jb_state observed \<noteq> JobNeedsYou \<and> j = observed \<and> st1 = st"
      and save: "save_job env j st1 = Inr (j', st')"
      using obs get
      by (auto simp: autonomy_observed_def res_bind_eq_Inr ensure_eq_Inr ok_or_eq_Inr Let_def
          split: if_splits)
    have change: "job_change b j" and rev: "jb_revision j = jb_revision b"
      and state: "jb_state j = jb_state observed"
      using observed_change [OF auth] False ids j
      by (auto simp: job_change_def same_intent_def)
    obtain ws where ws: "ws = [] \<and> jb_state observed \<noteq> JobNeedsYou
        \<or> (\<exists>w checked. ws = [w]
            \<and> receipt_added env st (jr_id r) (source_receipt fresh checked (jr_body r)) w)"
      and st1: "st1 = st\<lparr>as_receipts := as_receipts st @ ws\<rparr>"
    proof (cases "jb_state observed = JobNeedsYou")
      case True
      then show ?thesis using j r that by (auto elim!: insert_receiptE)
    qed (use j that [of "[]"] in simp)
    have "queue_moves env st r j' ws st' \<and> j' = j\<lparr>jb_revision := jb_revision j'\<rparr>"
      by (rule save_moves [OF inv r(1) _ _ _ _ _ save])
        (use change rev r st1 in \<open>simp_all add: autonomy_policy_def\<close>)
    moreover from this have "jb_state j' = jb_state j"
      by (metis job.select_convs(12) job.surjective job.update_convs(2))
    moreover have "jr_revision r = jb_revision observed" and "jb_state b = JobReady"
      using ids False by simp_all
    ultimately show ?thesis
      using sampled [of r j' ws] r(2,3) ws auth state by simp
  qed
qed

section \<open>Every transaction\<close>

text \<open>
  What a committed transaction may do to the tables: nothing, one new job, or one move of one job
  with at most one new receipt. A job enters the running states only by a claim, which finds no
  other job there.
\<close>

inductive queue_progress ::
  "'x queue_env_scheme \<Rightarrow> autonomy_store \<Rightarrow> autonomy_store \<Rightarrow> bool" for env st where
  kept: "as_jobs st' = as_jobs st \<Longrightarrow> as_receipts st' = as_receipts st \<Longrightarrow>
    (hp_startup_enabled (autonomy_policy st') \<longrightarrow> hp_detached_enabled (autonomy_policy st')) \<Longrightarrow>
    queue_progress env st st'"
| created: "as_jobs st' = as_jobs st @ [r] \<Longrightarrow> row_ok env r \<Longrightarrow>
    jr_id r \<notin> set (map jr_id (as_jobs st)) \<Longrightarrow>
    jr_sequence r = next_sequence (map jr_sequence (as_jobs st)) \<Longrightarrow>
    length (active_rows (as_jobs st)) < QUEUE_LIMIT \<Longrightarrow>
    jb_state (jr_body r) = JobReady \<Longrightarrow> as_receipts st' = as_receipts st \<Longrightarrow>
    as_policy st' = as_policy st \<Longrightarrow> queue_progress env st st'"
| moved: "queue_moves env st r j ws st' \<Longrightarrow>
    ws = [] \<or> (\<exists>w receipt. ws = [w] \<and> receipt_added env st (jr_id r) receipt w) \<Longrightarrow>
    state_running (jb_state j) \<longrightarrow> state_running (jb_state (jr_body r)) \<or> running_rows st = [] \<Longrightarrow>
    queue_progress env st st'"

lemma progress_refl: "store_inv env st \<Longrightarrow> queue_progress env st st"
  by (rule kept) (simp_all add: store_inv_def)

lemma settled_run_not_running:
  assumes "finished_job env receipt b = Inr j"
  shows "\<not> state_running (jb_state j)"
  using assms
  by (auto simp: finished_job_def completed_run_def Let_def res_bind_eq_Inr state_running_def
      split: run_outcome.splits if_splits option.splits sum.splits)

lemma finish_progress:
  assumes inv: "store_inv env st" and fin: "autonomy_finish env i receipt st = Inr (j', st')"
  shows "queue_progress env st st'"
  using inv fin
proof (cases rule: finish_moves)
  case (1 r w j)
  have "\<not> state_running (jb_state j')"
    using settled_run_not_running [OF 1(5)] by (subst 1(6)) simp
  then show ?thesis using 1 by (intro moved) auto
qed

lemma edit_progress:
  assumes inv: "store_inv env st" and ed: "autonomy_edit env i revision edit now st = Inr (j', st')"
  shows "queue_progress env st st'"
  using inv ed
proof (cases rule: edit_moves)
  case (1 r j)
  have "state_running (jb_state j') \<longrightarrow> state_running (jb_state (jr_body r))"
    using 1(4) by (subst 1(5)) (auto simp: edited_job_def state_running_def res_simps
        split: job_edit.splits if_splits)
  then show ?thesis using 1 by (intro moved) auto
qed

lemma defer_progress:
  assumes inv: "store_inv env st" and d: "autonomy_defer env i occurrence until st = Inr (u, st')"
  shows "queue_progress env st st'"
  using inv d
proof (cases rule: defer_moves)
  case (1 r j')
  have "\<not> state_running (jb_state j')"
    by (subst 1(4)) (simp add: deferred_state_def state_running_def)
  then show ?thesis using 1 by (intro moved) auto
qed

lemma claim_progress:
  assumes inv: "store_inv env st" and c: "autonomy_claim env now fresh st = Inr (res, st')"
  shows "queue_progress env st st'"
  using inv c
proof (cases rule: claim_moves)
  case nothing
  then show ?thesis using inv progress_refl by simp
next
  case (lapsed r w j')
  then show ?thesis by (intro moved [of env st r j' "[w]"]) (auto simp: state_running_def)
next
  case (claimed r rest j')
  then show ?thesis by (intro moved [of env st r j' "[]"]) simp_all
qed

lemma recover_progress:
  assumes inv: "store_inv env st" and rec: "autonomy_recover env now st = Inr (u, st')"
  shows "queue_progress env st st'"
  using inv rec
proof (cases rule: recover_moves)
  case idle
  then show ?thesis using inv progress_refl by simp
next
  case (interrupted r occurrence j')
  then show ?thesis using finish_progress inv by blast
qed

lemma observed_progress:
  assumes inv: "store_inv env st" and obs: "autonomy_observed env fresh observed st = Inr (u, st')"
  shows "queue_progress env st st'"
  using inv obs
proof (cases rule: observed_moves)
  case stale
  then show ?thesis using inv progress_refl by simp
next
  case (sampled r j' ws)
  have "\<not> state_running (jb_state j')"
    using sampled(5,7) by (auto simp: same_authority_def state_running_def)
  then show ?thesis using sampled by (intro moved) auto
qed

lemma create_progress:
  assumes c: "autonomy_create env j st = Inr (j', st')"
  shows "queue_progress env st st'"
proof (rule created)
  show "as_jobs st' = as_jobs st @ [\<lparr>jr_sequence = next_sequence (map jr_sequence (as_jobs st)),
      jr_id = jb_id j, jr_revision = 1, jr_state = 0, jr_due = jb_not_before j, jr_body = j\<rparr>]"
    using c by (auto simp: autonomy_create_def res_simps)
qed (use c in \<open>auto simp: autonomy_create_def row_ok_iff res_simps active_rows_def QUEUE_LIMIT_def
      dest: validate_job_bytes\<close>)

lemma policy_progress:
  assumes inv: "store_inv env st" and e: "autonomy_edit_policy env revision edit now st = Inr (p, st')"
  shows "queue_progress env st st'"
proof (rule kept)
  have "as_jobs st' = as_jobs st \<and> as_receipts st' = as_receipts st
      \<and> (hp_startup_enabled (autonomy_policy st') \<longrightarrow> hp_detached_enabled (autonomy_policy st'))"
    using e
    by (auto simp: autonomy_edit_policy_def record_stop_def Let_def res_bind_eq_Inr ensure_eq_Inr
        ok_or_eq_Inr autonomy_policy_def split: if_splits)
  then show "as_jobs st' = as_jobs st" "as_receipts st' = as_receipts st"
    "hp_startup_enabled (autonomy_policy st') \<longrightarrow> hp_detached_enabled (autonomy_policy st')"
    by simp_all
qed

lemma documents_progress:
  assumes "store_inv env st" and "as_jobs st' = as_jobs st" and "as_receipts st' = as_receipts st"
    and "as_policy st' = as_policy st"
  shows "queue_progress env st st'"
  using assms by (intro kept) (simp_all add: store_inv_def autonomy_policy_def)

lemma stop_clients_keeps:
  "autonomy_record_stop_clients env revision clients st = Inr (u, st') \<Longrightarrow>
     as_jobs st' = as_jobs st \<and> as_receipts st' = as_receipts st \<and> as_policy st' = as_policy st"
  by (auto simp: autonomy_record_stop_clients_def Let_def res_simps split: option.splits if_splits)

lemma record_outputs_keeps:
  "autonomy_record_outputs env now output st = Inr (u, st') \<Longrightarrow>
     as_jobs st' = as_jobs st \<and> as_receipts st' = as_receipts st \<and> as_policy st' = as_policy st"
  by (auto simp: autonomy_record_outputs_def Let_def res_simps split: if_splits)

lemma committed_progress:
  assumes "store_inv env st" and "\<And>x st'. r = Inr (x, st') \<Longrightarrow> queue_progress env st st'"
  shows "queue_progress env st (committed r st)"
  using assms by (auto simp: committed_def progress_refl split: sum.splits)

lemma step_progress:
  assumes inv: "store_inv env st"
  shows "queue_progress env st (queue_step env st c)"
proof (cases c)
  case (Create j)
  show ?thesis
    unfolding Create queue_step.simps by (rule committed_progress [OF inv create_progress])
next
  case (Edit i revision edit now)
  show ?thesis
    unfolding Edit queue_step.simps by (rule committed_progress [OF inv edit_progress [OF inv]])
next
  case (Claim now fresh)
  show ?thesis
    unfolding Claim queue_step.simps by (rule committed_progress [OF inv claim_progress [OF inv]])
next
  case (Defer i occurrence until)
  show ?thesis
    unfolding Defer queue_step.simps by (rule committed_progress [OF inv defer_progress [OF inv]])
next
  case (FinishRun i receipt)
  show ?thesis
    unfolding FinishRun queue_step.simps by (rule committed_progress [OF inv finish_progress [OF inv]])
next
  case (Recover now)
  show ?thesis
    unfolding Recover queue_step.simps by (rule committed_progress [OF inv recover_progress [OF inv]])
next
  case (Observed fresh j)
  show ?thesis
    unfolding Observed queue_step.simps
    by (rule committed_progress [OF inv observed_progress [OF inv]])
next
  case (EditPolicy revision edit now)
  show ?thesis
    unfolding EditPolicy queue_step.simps by (rule committed_progress [OF inv policy_progress [OF inv]])
next
  case (StopClients revision clients)
  show ?thesis
    unfolding StopClients queue_step.simps using stop_clients_keeps
    by (intro committed_progress [OF inv] documents_progress [OF inv]) blast+
next
  case (RecordOutputs now sampled_output)
  show ?thesis
    unfolding RecordOutputs queue_step.simps using record_outputs_keeps
    by (intro committed_progress [OF inv] documents_progress [OF inv]) blast+
qed

section \<open>The invariant holds\<close>

lemma next_sequence_greater: "x \<in> set xs \<Longrightarrow> x < next_sequence xs"
proof -
  assume x: "x \<in> set xs"
  have ge: "a \<le> fold max ys a" for ys and a :: nat
    by (induction ys arbitrary: a) (auto intro: order_trans [OF max.cobounded2])
  have "x \<le> fold max xs a" for a
    using x
  proof (induction xs arbitrary: a)
    case (Cons y ys)
    then show ?case using ge [of "max y a" ys] by auto
  qed simp
  then show ?thesis by (simp add: next_sequence_def le_imp_less_Suc)
qed

lemma replace_job_id: "jr_id (if jr_id r = jb_id j then write_row j r else r) = jr_id r"
  by (simp add: write_row_def)

lemma map_replace_job [simp]:
  "map jr_id (replace_job j rows) = map jr_id rows"
  "map jr_sequence (replace_job j rows) = map jr_sequence rows"
  by (simp_all add: replace_job_def write_row_def comp_def if_distrib cong: if_cong)

lemma write_row_ok:
  "validate_job (autonomy_env.truncate env) j = Inr () \<Longrightarrow> jr_id r = jb_id j \<Longrightarrow>
     row_ok env (write_row j r)"
  using validate_job_bytes [of "autonomy_env.truncate env" j] by (simp add: row_ok_iff write_row_def)

lemma length_filter_unique:
  "distinct (map f xs) \<Longrightarrow> (\<And>x. x \<in> set xs \<Longrightarrow> P x \<Longrightarrow> f x = k) \<Longrightarrow> length (filter P xs) \<le> 1"
proof (induction xs)
  case (Cons x xs)
  show ?case
  proof (cases "P x")
    case True
    then have "f x = k" using Cons.prems(2) by simp
    have "\<not> P y" if y: "y \<in> set xs" for y
    proof
      assume "P y"
      then have "f x = f y" using Cons.prems(2) \<open>f x = k\<close> y by simp
      then show False using Cons.prems(1) y by (auto simp: image_iff)
    qed
    then have "filter P xs = []" by (simp add: filter_empty_conv)
    then show ?thesis using True by simp
  qed (use Cons in simp)
qed simp

lemma running_rows_settled:
  assumes jobs: "as_jobs st' = replace_job j (as_jobs st)" and "\<not> state_running (jb_state j)"
  shows "running_rows st' = filter (\<lambda>x. jr_id x \<noteq> jb_id j) (running_rows st)"
proof -
  have "jr_state (write_row j x) \<notin> {1, 2}" for x
    using assms(2) state_code_running [of "jb_state j"] by (simp add: write_row_def)
  then have "filter (\<lambda>r. jr_state r \<in> {1, 2}) (replace_job j rows) =
      filter (\<lambda>x. jr_id x \<noteq> jb_id j) (filter (\<lambda>r. jr_state r \<in> {1, 2}) rows)" for rows
    by (induction rows) (simp_all add: replace_job_def del: insert_iff)
  then show ?thesis by (simp add: running_rows_def jobs)
qed

lemma one_running:
  assumes "length (running_rows st) \<le> 1" and "distinct (map jr_id (as_jobs st))"
    and jobs: "as_jobs st' = replace_job j (as_jobs st)" and r: "r \<in> set (as_jobs st)"
    and id: "jr_id r = jb_id j" and ok: "row_ok env r"
    and run: "state_running (jb_state j) \<longrightarrow> state_running (jb_state (jr_body r)) \<or> running_rows st = []"
  shows "length (running_rows st') \<le> 1"
proof (cases "state_running (jb_state j)")
  case True
  have "jr_id x = jb_id j" if "x \<in> set (as_jobs st')" and "jr_state x \<in> {1, 2}" for x
  proof (rule ccontr)
    assume other: "jr_id x \<noteq> jb_id j"
    then have x: "x \<in> set (running_rows st)"
      using that jobs by (auto simp: replace_job_def running_rows_def write_row_def split: if_splits)
    then have "running_rows st \<noteq> []" by auto
    then have "r \<in> set (running_rows st)"
      using run True r row_code_running [OF ok] by (simp add: running_rows_def)
    then have "x = r"
      using x assms(1) by (cases "running_rows st") auto
    then show False using other id by simp
  qed
  moreover have "distinct (map jr_id (as_jobs st'))" using assms(2) jobs by simp
  ultimately show ?thesis unfolding running_rows_def by (intro length_filter_unique) blast+
next
  case False
  then show ?thesis
    using assms(1) running_rows_settled [OF jobs] by (metis le_trans length_filter_le)
qed

lemma sorted_snoc_next:
  "sorted_wrt (<) xs \<Longrightarrow> sorted_wrt (<) (xs @ [next_sequence xs])"
  by (simp add: sorted_wrt_append next_sequence_greater)

lemma receipt_added_facts:
  assumes "receipt_added env st i receipt w"
  shows "receipt_ok env w" "rw_occurrence w \<notin> rw_occurrence ` set (as_receipts st)"
    "rw_sequence w = next_sequence (map rw_sequence (as_receipts st))"
    "rw_job w = i" "rw_body w = receipt"
  using assms unfolding receipt_added_def set_map by blast+

lemma active_replace:
  "(\<And>r. r \<in> set rows \<Longrightarrow> jr_id r = jb_id j \<Longrightarrow> jr_state r < 5) \<Longrightarrow>
     length (active_rows (replace_job j rows)) \<le> length (active_rows rows)"
  by (induction rows) (auto simp: active_rows_def replace_job_def write_row_def)

lemma moves_inv:
  assumes inv: "store_inv env st" and m: "queue_moves env st r j ws st'"
    and ws: "ws = [] \<or> (\<exists>w receipt. ws = [w] \<and> receipt_added env st (jr_id r) receipt w)"
    and run: "state_running (jb_state j) \<longrightarrow> state_running (jb_state (jr_body r)) \<or> running_rows st = []"
  shows "store_inv env st'"
proof -
  have r: "r \<in> set (as_jobs st)" and ok: "row_ok env r"
    and valid: "validate_job (autonomy_env.truncate env) j = Inr ()"
    and jobs: "as_jobs st' = replace_job j (as_jobs st)"
    and receipts: "as_receipts st' = as_receipts st @ ws" and policy: "as_policy st' = as_policy st"
    and change: "job_change (jr_body r) j"
    using m by (auto simp: queue_moves_def)
  have id: "jr_id r = jb_id j" using ok change by (simp add: row_ok_iff job_change_def same_intent_def)
  have "row_ok env x" if "x \<in> set (as_jobs st')" for x
    using that inv write_row_ok [OF valid]
    by (auto simp: jobs replace_job_def dest: store_inv_rows split: if_splits)
  moreover have "length (running_rows st') \<le> 1"
    using inv one_running [OF _ _ jobs r id ok run] by (simp add: store_inv_def)
  moreover have "distinct (map rw_occurrence (as_receipts st'))
      \<and> sorted_wrt (<) (map rw_sequence (as_receipts st')) \<and> list_all (receipt_ok env) (as_receipts st')"
    using ws inv sorted_snoc_next [of "map rw_sequence (as_receipts st)"]
    by (elim disjE exE conjE) (simp_all add: receipts store_inv_def receipt_added_facts)
  moreover have "jr_state x < 5" if "x \<in> set (as_jobs st)" "jr_id x = jb_id j" for x
    using store_inv_ids [OF inv that(1) r] that(2) id ok change lifecycle_active
    by (fastforce simp: row_ok_iff job_change_def state_active_def)
  then have "length (active_rows (as_jobs st')) \<le> QUEUE_LIMIT"
    using inv active_replace [of "as_jobs st" j] by (simp add: store_inv_def jobs)
  ultimately show ?thesis
    using inv by (simp add: store_inv_def jobs list_all_iff autonomy_policy_def policy)
qed

lemma created_inv:
  assumes inv: "store_inv env st" and jobs: "as_jobs st' = as_jobs st @ [r]" and ok: "row_ok env r"
    and fresh: "jr_id r \<notin> set (map jr_id (as_jobs st))"
    and seq: "jr_sequence r = next_sequence (map jr_sequence (as_jobs st))"
    and room: "length (active_rows (as_jobs st)) < QUEUE_LIMIT"
    and ready: "jb_state (jr_body r) = JobReady" and rest: "as_receipts st' = as_receipts st"
    "as_policy st' = as_policy st"
  shows "store_inv env st'"
proof -
  have "running_rows st' = running_rows st"
    using ok ready by (simp add: running_rows_def jobs row_ok_iff)
  moreover have "length (active_rows (as_jobs st')) \<le> QUEUE_LIMIT"
    using room by (simp add: active_rows_def jobs)
  ultimately show ?thesis
    using inv ok fresh sorted_snoc_next [of "map jr_sequence (as_jobs st)"]
    by (simp add: store_inv_def jobs rest seq autonomy_policy_def)
qed

lemma progress_inv: "queue_progress env st st' \<Longrightarrow> store_inv env st \<Longrightarrow> store_inv env st'"
proof (induction rule: queue_progress.induct)
  case (kept st')
  then show ?case by (simp add: store_inv_def running_rows_def)
next
  case (created st' r)
  then show ?case using created_inv by blast
next
  case (moved r j ws st')
  then show ?case using moves_inv by blast
qed

lemma store_inv_new: "store_inv env new_store"
  by (simp add: store_inv_def active_rows_def new_store_def running_rows_def autonomy_policy_def
      default_host_policy_def)

section \<open>The store only grows\<close>

text \<open>
  What every transaction keeps of the store before it: each job is still there under its
  identifier with the same owner-authored intent, a revision that is not smaller and no authority
  it did not have, and each receipt is still in its place.
\<close>

definition row_extends :: "job_row \<Rightarrow> job_row \<Rightarrow> bool" where
  "row_extends r r' =
     (jr_id r' = jr_id r \<and> same_intent (jr_body r) (jr_body r') \<and> jr_revision r \<le> jr_revision r'
      \<and> (jr_revision r' = jr_revision r \<longrightarrow> r' = r)
      \<and> (\<not> state_active (jb_state (jr_body r)) \<longrightarrow> r' = r))"

definition extends :: "autonomy_store \<Rightarrow> autonomy_store \<Rightarrow> bool" where
  "extends st st' =
     ((\<forall>r\<in>set (as_jobs st). \<exists>r'\<in>set (as_jobs st'). row_extends r r')
      \<and> (\<exists>ws. as_receipts st' = as_receipts st @ ws))"

lemma row_extends_refl [simp]: "row_extends r r"
  by (simp add: row_extends_def)

lemma row_extends_trans:
  assumes "row_extends r x" and "row_extends x y"
  shows "row_extends r y"
proof -
  have "jr_revision y = jr_revision r \<longrightarrow> y = r"
    using assms by (metis order_antisym row_extends_def)
  then show ?thesis
    using assms same_intent_trans [of "jr_body r" "jr_body x" "jr_body y"]
    by (auto simp: row_extends_def)
qed

lemma extends_refl: "extends st st"
  by (auto simp: extends_def intro: row_extends_refl)

lemma extends_trans:
  assumes "extends a b" and "extends b c"
  shows "extends a c"
proof -
  have "\<exists>y\<in>set (as_jobs c). row_extends r y" if "r \<in> set (as_jobs a)" for r
    using assms that row_extends_trans unfolding extends_def by meson
  moreover have "\<exists>ws. as_receipts c = as_receipts a @ ws"
    using assms unfolding extends_def by (metis append.assoc)
  ultimately show ?thesis by (simp add: extends_def)
qed

lemma moved_row_extends:
  assumes change: "job_change (jr_body r) j"
    and rev: "unat (jb_revision j) = Suc (unat (jr_revision r))"
  shows "row_extends r (write_row j r)"
proof -
  have "jr_revision r \<le> jb_revision j \<and> jb_revision j \<noteq> jr_revision r"
    using rev by (auto simp: word_le_nat_alt)
  moreover have "state_active (jb_state (jr_body r))"
    using change lifecycle_active by (auto simp: job_change_def)
  ultimately show ?thesis
    using change by (simp add: row_extends_def write_row_def job_change_def)
qed

lemma moves_extends:
  assumes inv: "store_inv env st" and m: "queue_moves env st r j ws st'"
  shows "extends st st'"
proof -
  have r: "r \<in> set (as_jobs st)" and ok: "row_ok env r"
    and change: "job_change (jr_body r) j" and rev: "unat (jb_revision j) = Suc (unat (jr_revision r))"
    and jobs: "as_jobs st' = replace_job j (as_jobs st)"
    and receipts: "as_receipts st' = as_receipts st @ ws"
    using m by (auto simp: queue_moves_def)
  have id: "jr_id r = jb_id j" using ok change by (simp add: row_ok_iff job_change_def same_intent_def)
  have "\<exists>x'\<in>set (as_jobs st'). row_extends x x'" if x: "x \<in> set (as_jobs st)" for x
  proof (cases "x = r")
    case True
    have "write_row j r \<in> set (as_jobs st')" using r id by (force simp: jobs replace_job_def)
    then show ?thesis using True moved_row_extends [OF change rev] by blast
  next
    case False
    then have "jr_id x \<noteq> jb_id j" using store_inv_ids [OF inv x r] id by auto
    then have "x \<in> set (as_jobs st')" using x by (force simp: jobs replace_job_def)
    then show ?thesis by (intro bexI [of _ x]) simp_all
  qed
  then show ?thesis by (simp add: extends_def receipts)
qed

lemma progress_extends: "queue_progress env st st' \<Longrightarrow> store_inv env st \<Longrightarrow> extends st st'"
proof (induction rule: queue_progress.induct)
  case (kept st')
  then show ?case by (auto simp: extends_def intro: row_extends_refl)
next
  case (created st' r)
  then show ?case by (auto simp: extends_def intro: row_extends_refl)
next
  case (moved r j ws st')
  then show ?case using moves_extends by blast
qed

interpretation autonomy: monotone_machine "queue_step env" "store_inv env" extends
proof unfold_locales
  show "store_inv env s \<Longrightarrow> store_inv env (queue_step env s c)" for s c
    using progress_inv step_progress by blast
  show "store_inv env s \<Longrightarrow> extends s (queue_step env s c)" for s c
    using progress_extends step_progress by blast
qed (use extends_refl extends_trans in blast)+

section \<open>Nothing is left running\<close>

lemma claimed_fields:
  assumes inv: "store_inv env st" and claim: "autonomy_claim env now fresh st = Inr (Some j, st')"
  shows "jb_state j = JobRunning" and "jb_occurrence j = Some fresh"
proof -
  obtain b where j: "j = b\<lparr>jb_state := JobRunning, jb_occurrence := Some fresh,
      jb_revision := jb_revision j\<rparr>"
    using inv claim by (cases rule: claim_moves) auto
  show "jb_state j = JobRunning" "jb_occurrence j = Some fresh" by (subst j, simp)+
qed

lemma settled_idle:
  assumes inv: "store_inv env st" and m: "queue_moves env st r j ws st'"
    and "\<not> state_running (jb_state j)"
    and source: "running_rows st = [] \<or> state_running (jb_state (jr_body r))"
  shows "running_rows st' = []"
proof -
  have jobs: "as_jobs st' = replace_job j (as_jobs st)" and r: "r \<in> set (as_jobs st)"
    using m by (simp_all add: queue_moves_def)
  have "running_rows st = [] \<or> r \<in> set (running_rows st)"
    using source r running_rows_iff [OF inv] by blast
  moreover have "length (running_rows st) \<le> 1" using inv by (simp add: store_inv_def)
  ultimately have "running_rows st = [] \<or> running_rows st = [r]"
    by (cases "running_rows st") auto
  then show ?thesis
    using running_rows_settled [OF jobs assms(3)] moved_row(2) [OF m] by auto
qed

lemma finish_idle:
  assumes inv: "store_inv env st" and fin: "autonomy_finish env i receipt st = Inr (j, st')"
  shows "running_rows st' = []"
  using inv fin
proof (cases rule: finish_moves)
  case (1 r w x)
  have "\<not> state_running (jb_state j)"
    using settled_run_not_running [OF 1(5)] by (subst 1(6)) simp
  moreover have "state_running (jb_state (jr_body r))"
    using 1(1,4) row_running [of env r] by (simp add: queue_moves_def)
  ultimately show ?thesis using settled_idle [OF inv 1(1)] by blast
qed

lemma defer_idle:
  assumes inv: "store_inv env st" and d: "autonomy_defer env i occurrence until st = Inr (u, st')"
  shows "running_rows st' = []"
  using inv d
proof (cases rule: defer_moves)
  case (1 r j)
  have "\<not> state_running (jb_state j)"
    by (subst 1(4)) (simp add: deferred_state_def state_running_def)
  moreover have "state_running (jb_state (jr_body r))"
    using 1(1,3) row_running [of env r] by (simp add: queue_moves_def)
  ultimately show ?thesis using settled_idle [OF inv 1(1)] by blast
qed

lemma observed_idle:
  assumes inv: "store_inv env st" and idle: "running_rows st = []"
    and obs: "autonomy_observed env fresh observed st = Inr (u, st')"
  shows "running_rows st' = []"
  using inv obs
proof (cases rule: observed_moves)
  case (sampled r j ws)
  have "\<not> state_running (jb_state j)"
    using sampled(5,7) by (auto simp: same_authority_def state_running_def)
  then show ?thesis using settled_idle [OF inv sampled(1)] idle by blast
qed (use idle in simp)

lemma unclaimed_idle:
  assumes inv: "store_inv env st" and idle: "running_rows st = []"
    and c: "autonomy_claim env now fresh st = Inr (None, st')"
  shows "running_rows st' = []"
  using inv c
proof (cases rule: claim_moves)
  case (lapsed r w j)
  have "\<not> state_running (jb_state j)" using lapsed by (simp add: state_running_def)
  then show ?thesis using settled_idle [OF inv lapsed(2)] idle by blast
qed (use idle in simp_all)

end
