(* ===== verification/Autonomy_Properties.thy ===== *)
theory Autonomy_Properties
  imports Autonomy_Safety
begin

text \<open>
  The properties of the job queue over whole runs of its transactions, with a sample queue on
  which their hypotheses hold: the tables stay readable and bounded, owner-authored intent and
  receipts are final, only authorized and due work is claimed, a completed run is scheduled
  strictly later, interrupted work waits for its review, and a receipt longer than its read
  bound is never read again.
\<close>

section \<open>A sample queue\<close>

text \<open>The bytes \<open>serde_json\<close> writes for a string: quotes, and escapes of two or six bytes.\<close>

definition escaped_len :: "nat \<Rightarrow> nat" where
  "escaped_len c =
     (if c \<in> {34, 92, 8, 9, 10, 12, 13} then 2 else if c < 32 then 6 else utf8_len c)"

definition json_string_len :: "rust_string \<Rightarrow> nat" where
  "json_string_len s = 2 + sum_list (map escaped_len s)"

definition utc :: time_zone where
  "utc = \<lparr>tz_date = (\<lambda>t. nat (t div 86400)),
     tz_reading = (\<lambda>d h m. Exists (Some (int d * 86400 + h * 3600 + m * 60))),
     tz_following = (\<lambda>t. None)\<rparr>"

definition sample_calendar :: calendar where
  "sample_calendar = \<lparr>cal_zone = (\<lambda>n. Some utc), cal_instant = is_i64,
     cal_tomorrow = (\<lambda>d. Some (Suc d)), cal_text = (\<lambda>d. decimal d)\<rparr>"

definition sample_queue_env :: queue_env where
  "sample_queue_env =
     \<lparr>av_codec = \<lparr>ec_blake3 = (\<lambda>_. []), ec_contract_json = (\<lambda>_. []), ec_command_json = (\<lambda>_. []),
        ec_evidence_json = (\<lambda>_. [])\<rparr>,
      av_calendar = sample_calendar, av_job_json = (\<lambda>_. 900),
      av_receipt_json = (\<lambda>r. 200 + json_string_len (rr_detail r)),
      qe_impact_json = (\<lambda>_. 100), qe_outputs_json = (\<lambda>_. 100)\<rparr>"

definition sample_job :: job where
  "sample_job =
     \<lparr>jb_id = 1, jb_revision = 1, jb_conversation = 2, jb_name = [110],
      jb_scope = \<lparr>sc_workspace = [RootDir, Normal [119]], sc_workspace_identity = [97],
        sc_project = None, sc_profile = [112], sc_profile_id = 3, sc_configuration_digest = [100],
        sc_connection = [99], sc_model = [109], sc_endpoint = [101]\<rparr>,
      jb_action = Reminder [104], jb_budget = default_task_budget,
      jb_schedule = Daily [122] 9 30, jb_trigger = None, jb_expires_at = 10000000,
      jb_authorized = True, jb_state = JobReady,
      jb_next = \<lparr>oc_at = 34200, oc_local_date = [], oc_dst_adjusted = False\<rparr>,
      jb_not_before = 34200, jb_occurrence = None, jb_pause_after_run = False,
      jb_last_receipt = None\<rparr>"

definition row_of :: "nat \<Rightarrow> job \<Rightarrow> job_row" where
  "row_of n j =
     \<lparr>jr_sequence = n, jr_id = jb_id j, jr_revision = jb_revision j,
      jr_state = state_code (jb_state j), jr_due = jb_not_before j, jr_body = j\<rparr>"

definition sample_running :: job where
  "sample_running = sample_job\<lparr>jb_state := JobRunning, jb_revision := 2, jb_occurrence := Some 5\<rparr>"

definition sample_base :: autonomy_store where
  "sample_base = new_store\<lparr>as_policy := Some (default_host_policy
     \<lparr>hp_revision := 1, hp_detached_enabled := True\<rparr>)\<rparr>"

definition ready_store :: autonomy_store where
  "ready_store = sample_base\<lparr>as_jobs := [row_of 1 sample_job]\<rparr>"

definition running_store :: autonomy_store where
  "running_store = sample_base\<lparr>as_jobs := [row_of 1 sample_running]\<rparr>"

lemma sample_queue_env_simps [simp]:
  "av_job_json (autonomy_env.truncate sample_queue_env) j = 900"
  "av_job_json sample_queue_env j = 900"
  "av_receipt_json sample_queue_env r = 200 + json_string_len (rr_detail r)"
  "av_calendar (autonomy_env.truncate sample_queue_env) = sample_calendar"
  "av_calendar sample_queue_env = sample_calendar"
  by (simp_all add: sample_queue_env_def autonomy_env.truncate_def)

lemma sample_calendar_simps [simp]:
  "cal_zone sample_calendar n = Some utc" "cal_instant sample_calendar = is_i64"
  by (simp_all add: sample_calendar_def)

lemma sample_job_valid: "validate_job (autonomy_env.truncate sample_queue_env) sample_job = Inr ()"
  by (simp add: validate_job_def validate_identity_def validate_scope_def validate_schedule_def
      sample_job_def res_simps nil_uuid_def trim_def is_whitespace_def str_len_def utf8_len_def
      is_control_def is_absolute_def path_len_def component_len_def route_value_def
      action_text_def is_triggered_def state_running_def JOB_BYTES_def)

lemma sample_running_valid: "validate_job (autonomy_env.truncate sample_queue_env) sample_running = Inr ()"
  using sample_job_valid
  by (simp add: validate_job_def validate_identity_def sample_running_def res_simps
      state_running_def sample_job_def)

lemma ready_store_inv: "store_inv sample_queue_env ready_store"
  using sample_job_valid
  by (simp add: store_inv_def active_rows_def QUEUE_LIMIT_def ready_store_def sample_base_def new_store_def row_of_def row_ok_iff running_rows_def
      autonomy_policy_def default_host_policy_def JOB_BYTES_def sample_job_def)

lemma running_store_inv: "store_inv sample_queue_env running_store"
  using sample_running_valid
  by (simp add: store_inv_def active_rows_def QUEUE_LIMIT_def running_store_def sample_base_def new_store_def row_of_def row_ok_iff running_rows_def
      autonomy_policy_def default_host_policy_def JOB_BYTES_def sample_running_def)

section \<open>Whole runs\<close>

text \<open>
  C12: After any sequence of transactions, failed ones included, on a new store: every job row
  reads back as the job it holds; identifiers and sequence numbers are unique, those of the jobs
  and those of the receipts; each occurrence has at most one receipt; at most one job is running
  and at most a thousand have not ended; and startup is never enabled without detached work.
\<close>

theorem queue_stays_readable_and_bounded:
  "case foldl (queue_step env) new_store cs of st \<Rightarrow>
     list_all (\<lambda>r. stored_job env r = Inr (jr_body r)) (as_jobs st)
     \<and> distinct (map jr_id (as_jobs st)) \<and> distinct (map jr_sequence (as_jobs st))
     \<and> distinct (map rw_occurrence (as_receipts st)) \<and> distinct (map rw_sequence (as_receipts st))
     \<and> length (filter (\<lambda>r. state_running (jb_state (jr_body r))) (as_jobs st)) \<le> 1
     \<and> length (filter (\<lambda>r. state_active (jb_state (jr_body r))) (as_jobs st)) \<le> 1000
     \<and> \<not> (hp_startup_enabled (autonomy_policy st) \<and> \<not> hp_detached_enabled (autonomy_policy st))"
proof -
  define st where "st = foldl (queue_step env) new_store cs"
  have inv: "store_inv env st" unfolding st_def by (rule autonomy.run_inv [OF store_inv_new])
  have "filter (\<lambda>r. state_running (jb_state (jr_body r))) (as_jobs st) = running_rows st"
    unfolding running_rows_def
    by (rule filter_cong) (use inv row_code_running store_inv_rows in \<open>fastforce+\<close>)
  moreover have "filter (\<lambda>r. state_active (jb_state (jr_body r))) (as_jobs st) = active_rows (as_jobs st)"
    unfolding active_rows_def
    by (rule filter_cong) (use inv store_inv_rows in \<open>fastforce simp: state_active_def row_ok_iff\<close>)+
  moreover have "distinct (map jr_sequence (as_jobs st)) \<and> distinct (map rw_sequence (as_receipts st))"
    using inv by (simp add: store_inv_def strict_sorted_iff)
  ultimately show ?thesis
    using inv by (auto simp: store_inv_def row_ok_def list_all_iff QUEUE_LIMIT_def st_def [symmetric])
qed

text \<open>
  What the owner authored is final. Whatever transactions follow, every job keeps its
  identity, conversation, name, scope, action, budget, schedule, expiry and trigger source,
  authority that was withdrawn does not come back, a job that has ended keeps its row, and every
  receipt stays in its place.
\<close>

theorem authored_intent_is_final:
  "extends (foldl (queue_step env) new_store cs) (foldl (queue_step env) new_store (cs @ ds))"
  by (rule autonomy.run_split_below [OF store_inv_new])

text \<open>
  C9: A claim dispatches only the earliest due job, and only when nothing is running and the job
  is ready, due, authorized, unexpired and not waiting for an event of its trigger. It commits
  the attempt before any effect: the row is running under the fresh occurrence and a new
  revision, and is the only one.
\<close>

theorem claim_dispatches_only_authorized:
  assumes inv: "store_inv env st" and claim: "autonomy_claim env now fresh st = Inr (Some j, st')"
  shows "\<exists>r\<in>set (as_jobs st). jb_state (jr_body r) = JobReady \<and> jr_due r \<le> now
     \<and> now < jb_expires_at (jr_body r) \<and> jb_authorized (jr_body r) \<and> \<not> event_missing (jr_body r)
     \<and> list_all (\<lambda>r'. jr_due r \<le> jr_due r') (due_rows now st)
     \<and> same_intent (jr_body r) j \<and> jb_occurrence j = Some fresh \<and> jb_revision j \<noteq> jr_revision r
     \<and> running_rows st = [] \<and> set (running_rows st') = {write_row j r}"
  using inv claim
proof (cases rule: claim_moves)
  case (claimed r rest j')
  have r: "r \<in> set (as_jobs st)" and "jr_due r \<le> now"
    using claimed(2) due_rows_member [of now st] by auto
  have m: "queue_moves env st r j [] st'" using claimed(3,4) by simp
  note j = claimed_fields [OF inv claim]
  have inv': "store_inv env st'" using progress_inv claim_progress inv claim by blast
  have row: "write_row j r \<in> set (as_jobs st')" using m by (rule moved_row)
  then have "write_row j r \<in> set (running_rows st')"
    using j(1) by (simp add: running_rows_def write_row_def)
  then have "set (running_rows st') = {write_row j r}"
    using inv' by (cases "running_rows st'") (auto simp: store_inv_def)
  moreover have "sorted (map jr_due (due_rows now st))" by (simp add: due_rows_def)
  then have "list_all (\<lambda>r'. jr_due r \<le> jr_due r') (due_rows now st)"
    by (simp add: claimed(2) list_all_iff)
  moreover have "same_intent (jr_body r) j" and "jb_revision j \<noteq> jr_revision r"
    using m by (auto simp: queue_moves_def job_change_def)
  ultimately show ?thesis
    using r claimed(1,6,7,8,9) \<open>jr_due r \<le> now\<close> j(2) by blast
qed simp_all

lemma sample_save:
  "save_job sample_queue_env (sample_job\<lparr>jb_state := JobRunning, jb_occurrence := Some 5\<rparr>) ready_store
     = Inr (sample_running, running_store)"
proof -
  have add: "checked_add (1 :: u64) 1 = Some 2" by (simp add: checked_add_def)
  have j: "sample_job\<lparr>jb_state := JobRunning, jb_occurrence := Some 5, jb_revision := 2\<rparr>
      = sample_running" by (simp add: sample_running_def sample_job_def)
  have rev: "jb_revision sample_job = 1" and id: "jb_id sample_job = 1"
    by (simp_all add: sample_job_def)
  have row: "write_row sample_running (row_of 1 sample_job) = row_of 1 sample_running"
    by (simp add: write_row_def row_of_def sample_running_def sample_job_def)
  show ?thesis
    using sample_running_valid add j row
    by (simp add: save_job_def rev id ensure_def)
      (simp add: ready_store_def running_store_def sample_base_def new_store_def row_of_def rev id)
qed

lemma sample_claim: "autonomy_claim sample_queue_env 40000 5 ready_store = Inr (Some sample_running, running_store)"
proof -
  have due: "due_rows 40000 ready_store = [row_of 1 sample_job]" and idle: "running_rows ready_store = []"
    and open_store: "\<not> as_review_required ready_store"
    by (simp_all add: due_rows_def running_rows_def ready_store_def row_of_def sample_job_def
        sample_base_def new_store_def)
  have "row_ok sample_queue_env (row_of 1 sample_job)"
    using ready_store_inv by (simp add: store_inv_def active_rows_def QUEUE_LIMIT_def ready_store_def)
  then have stored: "stored_job sample_queue_env (row_of 1 sample_job) = Inr sample_job"
    by (simp add: row_ok_def row_of_def)
  have "claim_job sample_queue_env 40000 5 sample_job ready_store = Inr (Some sample_running, running_store)"
    using sample_save by (simp add: claim_job_def) (simp add: sample_job_def event_missing_def)
  moreover have "jb_not_before sample_job \<le> 40000" "jb_state sample_job = JobReady"
    by (simp_all add: sample_job_def)
  ultimately show ?thesis
    by (simp add: autonomy_claim_def due idle open_store stored ensure_def del: One_nat_def)
qed

theorem claim_dispatches_only_authorized_witness:
  "\<exists>r\<in>set (as_jobs ready_store). jb_authorized (jr_body r) \<and> running_rows ready_store = []
     \<and> set (running_rows running_store) = {write_row sample_running r}"
  using claim_dispatches_only_authorized [OF ready_store_inv sample_claim] by blast

section \<open>Completed runs\<close>

text \<open>
  C13: A completed run is never scheduled again at an instant that has passed. If the transaction
  that finishes it leaves the job ready or paused, the next occurrence is later than both the end
  of the run and the occurrence it served, so occurrences missed meanwhile collapse into one, and
  the job is due exactly then.
\<close>

theorem completed_run_is_scheduled_later:
  assumes inv: "store_inv env st" and fin: "autonomy_finish env i receipt st = Inr (j, st')"
    and ended: "rr_outcome receipt = RunCompleted" and ready: "jb_state j \<in> {JobReady, JobPaused}"
    and i64: "rr_finished_at receipt < 2 ^ 63 - 1" "rr_scheduled_at receipt < 2 ^ 63 - 1"
  shows "rr_finished_at receipt < oc_at (jb_next j) \<and> rr_scheduled_at receipt < oc_at (jb_next j)
     \<and> jb_not_before j = oc_at (jb_next j) \<and> jb_occurrence j = None
     \<and> jb_last_receipt j = Some receipt"
  using inv fin
proof (cases rule: finish_moves)
  case (1 r w x)
  define b where "b = (jr_body r)\<lparr>jb_occurrence := None,
    jb_trigger := settled_trigger RunCompleted (jb_trigger (jr_body r))\<rparr>"
  obtain y where y: "completed_run env receipt b = Inr y" and x: "x = y\<lparr>jb_last_receipt := Some receipt\<rparr>"
    using 1(5) ended by (auto simp: finished_job_def Let_def b_def res_bind_eq_Inr)
  have fields: "jb_state j = jb_state y" "jb_next j = jb_next y" "jb_not_before j = jb_not_before y"
    "jb_occurrence j = jb_occurrence y" "jb_last_receipt j = Some receipt"
    by (subst 1(6), simp add: x)+
  have next_b: "jb_next b = jb_next (jr_body r)" and occ_b: "jb_occurrence b = None"
    by (simp_all add: b_def)
  obtain oc where after: "schedule_after (av_calendar env) (jb_schedule b)
        (max (rr_finished_at receipt) (oc_at (jb_next b))) = Inr (Some oc)"
    and yx: "jb_next y = oc" "jb_not_before y = oc_at oc" "jb_occurrence y = None"
    using y ready fields(1) occ_b
    by (auto simp: completed_run_def res_bind_eq_Inr split: if_splits sum.splits option.splits)
  have "max (rr_finished_at receipt) (oc_at (jb_next b)) < oc_at oc"
    by (rule schedule_after_later [OF after]) (use i64 1(7) next_b in simp)
  then show ?thesis using fields yx next_b 1(7) by simp
qed

definition sample_receipt :: "run_outcome \<Rightarrow> rust_string \<Rightarrow> run_receipt" where
  "sample_receipt outcome detail =
     \<lparr>rr_completion = None, rr_occurrence = 5, rr_scheduled_at = 34200, rr_finished_at = 41000,
      rr_outcome = outcome, rr_detail = detail, rr_coalesced = True, rr_dst_adjusted = False\<rparr>"

lemma sample_receipt_valid:
  "str_len detail \<le> 16 * 1024 \<Longrightarrow> validate_run_receipt env (sample_receipt outcome detail) = Inr ()"
  by (simp add: validate_run_receipt_def sample_receipt_def nil_uuid_def ensure_def)

text \<open>The sample job after a completed run: ready again the next morning.\<close>

definition sample_next :: "rust_string \<Rightarrow> job" where
  "sample_next detail = sample_job\<lparr>jb_revision := 3, jb_not_before := 120600,
     jb_next := \<lparr>oc_at = 120600, oc_local_date = decimal 1, oc_dst_adjusted = False\<rparr>,
     jb_last_receipt := Some (sample_receipt RunCompleted detail)\<rparr>"

definition sample_receipt_row :: "run_receipt \<Rightarrow> receipt_row" where
  "sample_receipt_row receipt =
     \<lparr>rw_sequence = 1, rw_job = 1, rw_occurrence = 5, rw_body = receipt\<rparr>"

definition finished_store :: "run_receipt \<Rightarrow> job \<Rightarrow> autonomy_store" where
  "finished_store receipt j =
     sample_base\<lparr>as_jobs := [row_of 1 j], as_receipts := [sample_receipt_row receipt]\<rparr>"

lemma utc_day: "schedule_after sample_calendar (Daily [122] 9 30) 41000 =
    Inr (Some \<lparr>oc_at = 120600, oc_local_date = decimal 1, oc_dst_adjusted = False\<rparr>)"
  by (simp add: schedule_after_def numeral_3_eq_3 on_date_def utc_def is_i64_def ensure_def
      sample_calendar_def)

lemma sample_finished_job:
  "finished_job sample_queue_env (sample_receipt RunCompleted detail) sample_running
     = Inr (sample_next detail\<lparr>jb_revision := 2\<rparr>)"
  using utc_day
  by (simp add: finished_job_def completed_run_def Let_def settled_trigger_def sample_running_def
      sample_job_def sample_next_def sample_receipt_def)

lemma sample_next_valid:
  assumes "str_len detail \<le> 16 * 1024"
  shows "validate_job (autonomy_env.truncate sample_queue_env) (sample_next detail) = Inr ()"
  using sample_job_valid sample_receipt_valid [OF assms]
  by (simp add: validate_job_def validate_identity_def sample_next_def res_simps
      state_running_def sample_job_def)

lemma sample_finish:
  assumes receipt: "\<And>e. validate_run_receipt e receipt = Inr ()" "rr_occurrence receipt = 5"
      "rr_scheduled_at receipt = 34200"
    and j: "finished_job sample_queue_env receipt sample_running = Inr (j\<lparr>jb_revision := 2\<rparr>)"
      "validate_job (autonomy_env.truncate sample_queue_env) j = Inr ()" "jb_id j = 1"
      "jb_revision j = 3"
  shows "autonomy_finish sample_queue_env 1 receipt running_store = Inr (j, finished_store receipt j)"
proof -
  have "row_ok sample_queue_env (row_of 1 sample_running)"
    using running_store_inv by (simp add: store_inv_def active_rows_def QUEUE_LIMIT_def running_store_def)
  then have stored: "stored_job sample_queue_env (row_of 1 sample_running) = Inr sample_running"
    by (simp add: row_ok_def row_of_def)
  have read: "get_job sample_queue_env running_store 1 = Inr sample_running"
    using stored by (simp add: get_job_def running_store_def row_of_def sample_running_def
        sample_job_def)
  have insert: "insert_receipt sample_queue_env 1 receipt running_store
      = Inr (running_store\<lparr>as_receipts := [sample_receipt_row receipt]\<rparr>)"
    using receipt
    by (simp add: insert_receipt_def ensure_def running_store_def sample_base_def new_store_def next_sequence_def
        sample_receipt_row_def)
  have add: "checked_add (2 :: u64) 1 = Some 3" by (simp add: checked_add_def)
  have same: "j\<lparr>jb_revision := 3\<rparr> = j" using j(4) by (metis job.surjective job.update_convs(2) job.select_convs(2))
  have row: "write_row j (row_of 1 sample_running) = row_of 1 j"
    and ids: "jr_id (row_of 1 sample_running) = 1" "jr_revision (row_of 1 sample_running) = 2"
    using j(3) by (simp_all add: write_row_def row_of_def sample_running_def sample_job_def)
  have save: "save_job sample_queue_env (j\<lparr>jb_revision := 2\<rparr>)
      (running_store\<lparr>as_receipts := [sample_receipt_row receipt]\<rparr>) = Inr (j, finished_store receipt j)"
    using j(2,3)
    by (simp add: save_job_def add same ids row ensure_def running_store_def finished_store_def
        sample_base_def new_store_def Let_def del: One_nat_def)
  have "jb_occurrence sample_running = Some 5" "oc_at (jb_next sample_running) = 34200"
    by (simp_all add: sample_running_def sample_job_def)
  then show ?thesis
    using receipt by (simp add: autonomy_finish_def read insert j(1) save ensure_def del: One_nat_def)
qed

lemma sample_completed:
  assumes "str_len detail \<le> 16 * 1024"
  shows "autonomy_finish sample_queue_env 1 (sample_receipt RunCompleted detail) running_store
     = Inr (sample_next detail, finished_store (sample_receipt RunCompleted detail) (sample_next detail))"
  using assms
  by (intro sample_finish sample_receipt_valid sample_finished_job sample_next_valid)
    (simp_all add: sample_receipt_def sample_next_def sample_job_def)

theorem completed_run_is_scheduled_later_witness:
  "41000 < oc_at (jb_next (sample_next [])) \<and> jb_occurrence (sample_next []) = None"
  using completed_run_is_scheduled_later [OF running_store_inv sample_completed [of "[]"]]
  by (simp add: sample_next_def sample_job_def sample_receipt_def str_len_def)

text \<open>
  The next occurrence of a daily schedule is the first of at most three dates, counted from
  today, whose reading lies after the given instant; every earlier date reads as no later than it.
\<close>

theorem next_day_is_first:
  assumes "schedule_after cal (Daily name hour minute) now = Inr found"
  shows "\<exists>zone k oc d. cal_zone cal name = Some zone \<and> k < 3 \<and> found = Some oc
     \<and> days_later cal k (tz_date zone now) = Some d
     \<and> on_date cal zone d hour minute = Inr oc \<and> now < oc_at oc
     \<and> list_all (\<lambda>n. \<exists>d' oc'. days_later cal n (tz_date zone now) = Some d'
          \<and> on_date cal zone d' hour minute = Inr oc' \<and> oc_at oc' \<le> now) [0..<k]"
proof -
  obtain zone where zone: "cal_zone cal name = Some zone"
    and s: "search_dates cal zone hour minute now 3 (tz_date zone now) = Inr found"
    using assms by (auto simp: schedule_after_def res_simps)
  show ?thesis using search_dates_first [OF s] zone by (auto simp: list_all_iff)
qed

theorem next_day_is_first_witness:
  "\<exists>k oc d. k < (3 :: nat) \<and> on_date sample_calendar utc d 9 30 = Inr oc \<and> 41000 < oc_at oc"
  using next_day_is_first [OF utc_day] by auto

section \<open>Interrupted work\<close>

text \<open>The one transaction that lets interrupted work run again: a resume that reviews the unknown.\<close>

definition reviews :: "uuid \<Rightarrow> queue_command \<Rightarrow> bool" where
  "reviews i c = (case c of Edit i' _ (ResumeEdit True) _ \<Rightarrow> i' = i | _ \<Rightarrow> False)"

definition held_row :: "uuid \<Rightarrow> job_row \<Rightarrow> bool" where
  "held_row i r =
     (jr_id r = i \<and> (jb_state (jr_body r) = JobCancelled
        \<or> jb_state (jr_body r) = JobNeedsYou \<and> last_unknown (jr_body r)))"

definition held :: "uuid \<Rightarrow> autonomy_store \<Rightarrow> bool" where
  "held i st = list_ex (held_row i) (as_jobs st)"

lemma other_row_kept:
  assumes inv: "store_inv env st" and m: "queue_moves env st r0 j ws st'"
    and r: "r \<in> set (as_jobs st)" "r \<noteq> r0"
  shows "r \<in> set (as_jobs st')"
proof -
  have "r0 \<in> set (as_jobs st)" and jobs: "as_jobs st' = replace_job j (as_jobs st)"
    using m by (simp_all add: queue_moves_def)
  moreover have "jr_id r0 = jb_id j" using m by (rule moved_row)
  ultimately have "jr_id r \<noteq> jb_id j" using store_inv_ids [OF inv r(1)] r(2) by auto
  then show ?thesis using r(1) by (force simp: jobs replace_job_def)
qed

lemma committed_holds:
  assumes "r \<in> set (as_jobs st)" and "\<And>x st'. res = Inr (x, st') \<Longrightarrow> r \<in> set (as_jobs st')"
  shows "r \<in> set (as_jobs (committed res st))"
  using assms by (auto simp: committed_def split: sum.splits)

lemma waiting_move:
  assumes inv: "store_inv env st" and r: "r \<in> set (as_jobs st)"
    and waiting: "jb_state (jr_body r) = JobNeedsYou" and m: "queue_moves env st r0 j ws st'"
    and source: "jb_state (jr_body r0) = JobReady \<or> jb_occurrence (jr_body r0) \<noteq> None"
  shows "r \<in> set (as_jobs st')"
proof -
  have "row_ok env r0" using m by (simp add: queue_moves_def)
  then have "jb_state (jr_body r0) \<noteq> JobNeedsYou"
    using source row_running [of env r0] by (auto simp: state_running_def)
  then show ?thesis using other_row_kept [OF inv m r] waiting by blast
qed

lemma waiting_ops:
  assumes inv: "store_inv env st" and r: "r \<in> set (as_jobs st)"
    and waiting: "jb_state (jr_body r) = JobNeedsYou"
  shows waiting_finish: "autonomy_finish env i receipt st = Inr (j, st') \<Longrightarrow> r \<in> set (as_jobs st')"
    and waiting_claim: "autonomy_claim env now fresh st = Inr (res, st') \<Longrightarrow> r \<in> set (as_jobs st')"
    and waiting_defer: "autonomy_defer env i occurrence until st = Inr (u, st') \<Longrightarrow> r \<in> set (as_jobs st')"
    and waiting_observed: "autonomy_observed env fresh j st = Inr (u, st') \<Longrightarrow> r \<in> set (as_jobs st')"
proof -
  note kept = waiting_move [OF inv r waiting]
  show "autonomy_finish env i receipt st = Inr (j, st') \<Longrightarrow> r \<in> set (as_jobs st')"
    using inv by (elim finish_moves) (auto intro: kept)
  show "autonomy_claim env now fresh st = Inr (res, st') \<Longrightarrow> r \<in> set (as_jobs st')"
    using inv r by (elim claim_moves) (auto intro: kept)
  show "autonomy_defer env i occurrence until st = Inr (u, st') \<Longrightarrow> r \<in> set (as_jobs st')"
    using inv by (elim defer_moves) (auto intro: kept)
  show "autonomy_observed env fresh j st = Inr (u, st') \<Longrightarrow> r \<in> set (as_jobs st')"
    using inv r by (elim observed_moves) (auto intro: kept)
qed

lemma waiting_recover:
  assumes inv: "store_inv env st" and r: "r \<in> set (as_jobs st)"
    and "jb_state (jr_body r) = JobNeedsYou" and "autonomy_recover env now st = Inr (u, st')"
  shows "r \<in> set (as_jobs st')"
  using inv assms(4) by (cases rule: recover_moves) (use assms waiting_finish in auto)

lemma edit_policy_keeps:
  "autonomy_edit_policy env revision edit now st = Inr (p, st') \<Longrightarrow> as_jobs st' = as_jobs st"
  by (auto simp: autonomy_edit_policy_def record_stop_def Let_def res_bind_eq_Inr split: if_splits)

lemma create_keeps:
  "autonomy_create env j st = Inr (j', st') \<Longrightarrow> set (as_jobs st) \<subseteq> set (as_jobs st')"
  by (auto simp: autonomy_create_def res_simps)

lemma waiting_other_edit:
  assumes inv: "store_inv env st" and r: "r \<in> set (as_jobs st)" and other: "i \<noteq> jr_id r"
    and ed: "autonomy_edit env i revision edit now st = Inr (j, st')"
  shows "r \<in> set (as_jobs st')"
  using inv ed
proof (cases rule: edit_moves)
  case (1 r0 j0)
  then have "r0 \<noteq> r" using other by auto
  then show ?thesis using other_row_kept [OF inv 1(1) r] by blast
qed

text \<open>A job waiting for its owner is left alone by every transaction but an edit of it.\<close>

lemma waiting_row_kept:
  assumes inv: "store_inv env st" and r: "r \<in> set (as_jobs st)"
    and waiting: "jb_state (jr_body r) = JobNeedsYou"
    and other: "\<And>revision edit now. c \<noteq> Edit (jr_id r) revision edit now"
  shows "r \<in> set (as_jobs (queue_step env st c))"
proof (cases c)
  case (Edit i revision edit now)
  then have "i \<noteq> jr_id r" using other by auto
  then show ?thesis
    unfolding Edit queue_step.simps
    by (intro committed_holds [OF r]) (rule waiting_other_edit [OF inv r])
next
  case (StopClients revision clients)
  then show ?thesis using r stop_clients_keeps
    unfolding StopClients queue_step.simps by (intro committed_holds [OF r]) fastforce
next
  case (RecordOutputs now sampled)
  then show ?thesis using r record_outputs_keeps
    unfolding RecordOutputs queue_step.simps by (intro committed_holds [OF r]) fastforce
next
  case (EditPolicy revision edit now)
  then show ?thesis using r edit_policy_keeps
    unfolding EditPolicy queue_step.simps by (intro committed_holds [OF r]) fastforce
next
  case (Create j)
  then show ?thesis using r create_keeps
    unfolding Create queue_step.simps by (intro committed_holds [OF r]) blast
qed (auto intro!: committed_holds [OF r]
    intro: waiting_ops [OF inv r waiting] waiting_recover [OF inv r waiting])

lemma ended_row_kept:
  assumes inv: "store_inv env st" and r: "r \<in> set (as_jobs st)"
    and ended: "\<not> state_active (jb_state (jr_body r))"
  shows "r \<in> set (as_jobs (queue_step env st c))"
proof -
  obtain r' where "r' \<in> set (as_jobs (queue_step env st c))" and "row_extends r r'"
    using progress_extends [OF step_progress [OF inv, of c] inv] r by (auto simp: extends_def)
  then show ?thesis using ended by (simp add: row_extends_def)
qed

lemma heldI: "x \<in> set (as_jobs st) \<Longrightarrow> held_row i x \<Longrightarrow> held i st"
  by (auto simp: held_def list_ex_iff)

lemma held_edit:
  assumes inv: "store_inv env st" and r: "r \<in> set (as_jobs st)" "jr_id r = i"
    and waiting: "jb_state (jr_body r) = JobNeedsYou" "last_unknown (jr_body r)"
    and quiet: "edit \<noteq> ResumeEdit True"
    and ed: "autonomy_edit env i revision edit now st = Inr (j, st')"
  shows "held i st'"
  using inv ed
proof (cases rule: edit_moves)
  case (1 r0 j0)
  have "r0 = r" using 1(1,2) r store_inv_ids [OF inv] by (auto simp: queue_moves_def)
  then have "edit = CancelEdit" and "jb_state j0 = JobCancelled"
    using 1(4) waiting quiet
    by (auto simp: edited_job_def state_running_def res_simps split: job_edit.splits if_splits)
  then have "jb_state j = JobCancelled" by (subst 1(5)) simp
  moreover have "write_row j r \<in> set (as_jobs st')"
    using moved_row(1) [OF 1(1)] \<open>r0 = r\<close> by simp
  ultimately show ?thesis
    using heldI [of "write_row j r"] r(2) by (simp add: held_row_def write_row_def)
qed

lemma held_step:
  assumes inv: "store_inv env st" and h: "held i st" and quiet: "\<not> reviews i c"
  shows "held i (queue_step env st c)"
proof -
  obtain r where r: "r \<in> set (as_jobs st)" "held_row i r" using h by (auto simp: held_def list_ex_iff)
  then have id: "jr_id r = i" by (simp add: held_row_def)
  consider (ended) "jb_state (jr_body r) = JobCancelled"
    | (waiting) "jb_state (jr_body r) = JobNeedsYou" "last_unknown (jr_body r)"
    using r(2) by (auto simp: held_row_def)
  then show ?thesis
  proof cases
    case ended
    then have "r \<in> set (as_jobs (queue_step env st c))"
      using ended_row_kept [OF inv r(1)] by (simp add: state_active_def)
    then show ?thesis using r(2) heldI by blast
  next
    case waiting
    show ?thesis
    proof (cases "\<exists>revision edit now. c = Edit i revision edit now")
      case True
      then obtain revision edit now where c: "c = Edit i revision edit now" by blast
      then have "edit \<noteq> ResumeEdit True" using quiet by (auto simp: reviews_def)
      then show ?thesis
        using held_edit [OF inv r(1) id waiting] h by (auto simp: c committed_def split: sum.splits)
    next
      case False
      then have "r \<in> set (as_jobs (queue_step env st c))"
        using waiting_row_kept [OF inv r(1) waiting(1)] id by blast
      then show ?thesis using r(2) heldI by blast
    qed
  qed
qed

lemma held_run:
  "store_inv env st \<Longrightarrow> held i st \<Longrightarrow> list_all (\<lambda>c. \<not> reviews i c) cs \<Longrightarrow>
     held i (foldl (queue_step env) st cs)"
  by (induction cs arbitrary: st) (auto intro: held_step autonomy.step_inv)

text \<open>
  C11: Interrupted work waits for its owner. When recovery finds a running job, it stores one
  receipt of unknown outcome for the running occurrence, and from then on, through any
  transactions other than a resume of that job that explicitly reviews the unknown effect, the
  job waits for its owner or has been cancelled: it is neither ready nor running again.
\<close>

theorem interrupted_work_waits_for_review:
  assumes inv: "store_inv env st" and running: "running_rows st = [r]"
    and rec: "autonomy_recover env now st = Inr (u, st')"
    and quiet: "list_all (\<lambda>c. \<not> reviews (jr_id r) c) cs"
  shows "held (jr_id r) (foldl (queue_step env) st' cs)
     \<and> (\<exists>w. as_receipts st' = as_receipts st @ [w] \<and> rw_job w = jr_id r
          \<and> jb_occurrence (jr_body r) = Some (rw_occurrence w)
          \<and> rr_outcome (rw_body w) = RunUnknown)"
  using inv rec
proof (cases rule: recover_moves)
  case (interrupted r1 occurrence j)
  then have r1: "r1 = r" using running by simp
  have fin: "autonomy_finish env (jr_id r) (interruption_receipt now occurrence (jr_body r)) st = Inr (j, st')"
    using interrupted(2) r1 by simp
  show ?thesis using inv fin
  proof (cases rule: finish_moves)
    case (1 r0 w x)
    have r0: "r0 = r"
      using 1(1,2) store_inv_ids [OF inv] running_rows_iff [OF inv] running
      by (auto simp: queue_moves_def)
    have "jb_state x = JobNeedsYou \<and> jb_last_receipt x = Some (interruption_receipt now occurrence (jr_body r))"
      using 1(5) by (auto simp: finished_job_def Let_def interruption_receipt_def)
    then have "jb_state j = JobNeedsYou" and "last_unknown j"
      by (subst 1(6), simp add: last_unknown_def interruption_receipt_def)+
    moreover have "write_row j r \<in> set (as_jobs st')"
      using moved_row(1) [OF 1(1)] r0 by simp
    ultimately have "held (jr_id r) st'"
      using heldI [of "write_row j r"] by (simp add: held_row_def write_row_def)
    moreover have "store_inv env st'" using recover_progress [OF inv rec] inv progress_inv by blast
    moreover have "as_receipts st' = as_receipts st @ [w]" using 1(1) by (simp add: queue_moves_def)
    moreover have "rw_body w = interruption_receipt now occurrence (jr_body r)"
      and "rw_job w = jr_id r" and "rw_occurrence w = occurrence"
      using receipt_added_facts [OF 1(3)] 1(3)
      by (auto simp: receipt_added_def interruption_receipt_def)
    ultimately show ?thesis
      using held_run quiet 1(4) r0 by (auto simp: interruption_receipt_def)
  qed
qed (use running in simp)

lemma str_len_rstr: "str_len (rstr s) \<le> 4 * length s"
  by (induction s) (auto simp: str_len_def rstr_def utf8_len_def)

definition sample_interruption :: run_receipt where
  "sample_interruption = interruption_receipt 50000 5 sample_running"

definition sample_held :: job where
  "sample_held = sample_running\<lparr>jb_revision := 3, jb_state := JobNeedsYou, jb_occurrence := None,
     jb_last_receipt := Some sample_interruption\<rparr>"

lemma sample_interruption_valid: "validate_run_receipt e sample_interruption = Inr ()"
proof -
  have "length ''Previous host exited without a terminal receipt. Work may have occurred; review before a new attempt'' \<le> 200"
    by simp
  then have "str_len interrupted_text \<le> 16 * 1024"
    unfolding interrupted_text_def by (intro order_trans [OF str_len_rstr]) simp
  then show ?thesis
    by (simp add: validate_run_receipt_def sample_interruption_def interruption_receipt_def nil_uuid_def
        ensure_def sample_running_def sample_job_def)
qed

lemma sample_recover: "autonomy_recover sample_queue_env 50000 running_store =
    Inr ((), finished_store sample_interruption sample_held)"
proof -
  have fin: "autonomy_finish sample_queue_env 1 sample_interruption running_store
      = Inr (sample_held, finished_store sample_interruption sample_held)"
  proof (rule sample_finish)
    show "validate_run_receipt e sample_interruption = Inr ()" for e by (rule sample_interruption_valid)
    show "finished_job sample_queue_env sample_interruption sample_running
        = Inr (sample_held\<lparr>jb_revision := 2\<rparr>)"
      by (simp add: finished_job_def Let_def settled_trigger_def sample_interruption_def
          interruption_receipt_def sample_held_def sample_running_def sample_job_def)
    show "validate_job (autonomy_env.truncate sample_queue_env) sample_held = Inr ()"
      using sample_job_valid sample_interruption_valid
      by (simp add: validate_job_def validate_identity_def sample_held_def sample_running_def
          res_simps state_running_def sample_job_def)
  qed (simp_all add: sample_interruption_def interruption_receipt_def sample_held_def
      sample_running_def sample_job_def)
  have run: "running_rows running_store = [row_of 1 sample_running]"
    by (simp add: running_rows_def running_store_def row_of_def sample_running_def)
  have "row_ok sample_queue_env (row_of 1 sample_running)"
    using running_store_inv by (simp add: store_inv_def active_rows_def QUEUE_LIMIT_def running_store_def)
  then have "stored_job sample_queue_env (row_of 1 sample_running) = Inr sample_running"
    by (simp add: row_ok_def row_of_def)
  moreover have "jb_occurrence sample_running = Some 5" "jb_id sample_running = 1"
    by (simp_all add: sample_running_def sample_job_def)
  ultimately show ?thesis
    using fin by (simp add: autonomy_recover_def run ensure_def sample_interruption_def
        del: One_nat_def)
qed

theorem interrupted_work_waits_for_review_witness:
  "held 1 (foldl (queue_step sample_queue_env) (finished_store sample_interruption sample_held)
     [Claim 60000 6, Edit 1 3 (ResumeEdit False) 60000, Recover 60000])"
proof -
  have run: "running_rows running_store = [row_of 1 sample_running]"
    by (simp add: running_rows_def running_store_def row_of_def sample_running_def)
  have "jr_id (row_of 1 sample_running) = 1"
    by (simp add: row_of_def sample_running_def sample_job_def)
  then show ?thesis
    using interrupted_work_waits_for_review [OF running_store_inv run sample_recover,
        of "[Claim 60000 6, Edit 1 3 (ResumeEdit False) 60000, Recover 60000]"]
    by (simp add: reviews_def)
qed

section \<open>Receipts beyond the bound of their read\<close>

lemma sorted_wrt_sort_key: "sorted_wrt (<) (map f xs) \<Longrightarrow> sort_key f xs = xs"
  for f :: "'a \<Rightarrow> nat"
  by (rule sort_key_id_if_sorted) (simp add: strict_sorted_iff)

lemma rows_after_new:
  assumes sorted: "sorted_wrt (<) (map seq (xs @ w # ys))" and "p w" and "0 < limit"
    and old: "\<And>x. x \<in> set xs \<Longrightarrow> seq x \<le> from" and new: "from < seq w"
  shows "\<exists>zs. rows_after seq p limit from (xs @ w # ys) = w # zs"
proof -
  have "filter (\<lambda>r. p r \<and> from < seq r) (xs @ w # ys) = w # filter (\<lambda>r. p r \<and> from < seq r) ys"
    using assms by (auto simp: filter_empty_conv not_less)
  moreover have "sorted_wrt (<) (map seq (w # filter (\<lambda>r. p r \<and> from < seq r) ys))"
    using sorted by (simp add: sorted_wrt_append sorted_wrt_map sorted_wrt_filter)
  then have "sort_key seq (w # filter (\<lambda>r. p r \<and> from < seq r) ys)
      = w # filter (\<lambda>r. p r \<and> from < seq r) ys"
    by (rule sorted_wrt_sort_key)
  ultimately have "rows_after seq p limit from (xs @ w # ys)
      = take limit (w # filter (\<lambda>r. p r \<and> from < seq r) ys)"
    by (simp only: rows_after_def)
  then show ?thesis using \<open>0 < limit\<close> by (cases limit) auto
qed

lemma fold_max_le: "x \<in> set xs \<Longrightarrow> x \<le> fold max xs (0 :: nat)"
  using next_sequence_greater [of x xs] by (simp add: next_sequence_def)

text \<open>Where a receipt is read after every older one: the page begins with it.\<close>

lemma new_receipt_first:
  assumes inv: "store_inv env fin" and receipts: "as_receipts fin = as_receipts st @ w # ws"
    and w: "rw_sequence w = next_sequence (map rw_sequence (as_receipts st))" and "p w" and "0 < limit"
  shows "\<exists>zs. rows_after rw_sequence p limit (snd (autonomy_attention_baseline st))
     (as_receipts fin) = w # zs"
  unfolding receipts
proof (rule rows_after_new)
  show "sorted_wrt (<) (map rw_sequence (as_receipts st @ w # ws))"
    using inv unfolding store_inv_def receipts by blast
  show "rw_sequence x \<le> snd (autonomy_attention_baseline st)" if "x \<in> set (as_receipts st)" for x
    using that by (simp add: autonomy_attention_baseline_def fold_max_le)
qed (use assms(4,5) in \<open>simp_all add: w autonomy_attention_baseline_def next_sequence_def\<close>)

lemma get_job_found:
  assumes inv: "store_inv env st" and r: "r \<in> set (as_jobs st)"
  shows "get_job env st (jr_id r) = Inr (jr_body r)"
proof -
  have "find (\<lambda>x. jr_id x = jr_id r) (as_jobs st) = Some r"
    using inv r by (intro find_distinct) (simp_all add: store_inv_def)
  then show ?thesis using store_inv_rows [OF inv r] by (simp add: get_job_def row_ok_def)
qed

text \<open>
  C14: A receipt is stored without the bound it is later read through. If the encoding of a
  receipt that finishes a run is longer than the read bound, then from the position before it
  neither the receipts of its job nor the attention feed can be read, whatever transactions
  follow: every page that starts there fails at that receipt.
\<close>

theorem long_receipts_are_never_read:
  assumes inv: "store_inv env st" and fin: "autonomy_finish env i receipt st = Inr (j, st')"
    and long: "RECEIPT_READ_BYTES < av_receipt_json env receipt"
  shows "case foldl (queue_step env) st' cs of later \<Rightarrow>
     autonomy_receipts env later i (snd (autonomy_attention_baseline st)) = Inl InvalidQuery
     \<and> autonomy_attention_receipts env later (snd (autonomy_attention_baseline st)) = Inl InvalidQuery"
proof -
  define later where "later = foldl (queue_step env) st' cs"
  have inv': "store_inv env st'" using finish_progress inv fin progress_inv by blast
  have inv_l: "store_inv env later" unfolding later_def using inv' by (rule autonomy.run_inv)
  have ext: "extends st' later" unfolding later_def using inv' by (rule autonomy.run_below)
  obtain r w where m: "queue_moves env st r j [w] st'" and r: "jr_id r = i"
    and w: "receipt_added env st i receipt w"
    using finish_moves [OF inv fin] by metis
  obtain ws where receipts: "as_receipts later = as_receipts st @ w # ws"
    using m ext by (auto simp: queue_moves_def extends_def)
  obtain r' where "r' \<in> set (as_jobs later)" and "row_extends (write_row j r) r'"
    using ext moved_row(1) [OF m] by (auto simp: extends_def)
  then have r': "r' \<in> set (as_jobs later)" "jr_id r' = i"
    using r by (simp_all add: row_extends_def write_row_def)
  have unread: "stored_receipt env w = Inl InvalidQuery"
    using long receipt_added_facts(5) [OF w] by (simp add: stored_receipt_def)
  have own: "rw_job w = i" using w by (rule receipt_added_facts)
  note first = new_receipt_first [OF inv_l receipts receipt_added_facts(3) [OF w]]
  have "autonomy_receipts env later i (snd (autonomy_attention_baseline st)) = Inl InvalidQuery"
    using first [of "\<lambda>r. rw_job r = i" PAGE_SIZE] own unread
    by (auto simp: autonomy_receipts_def PAGE_SIZE_def)
  moreover have "rw_job w \<in> set (map jr_id (as_jobs later))" using r' own by force
  then have "autonomy_attention_receipts env later (snd (autonomy_attention_baseline st))
      = Inl InvalidQuery"
    using first [of "\<lambda>r. rw_job r \<in> set (map jr_id (as_jobs later))" 16] own unread
      get_job_found [OF inv_l r'(1)] r'(2)
    by (auto simp: autonomy_attention_receipts_def attention_receipt_def)
  ultimately show ?thesis by (simp add: later_def)
qed

text \<open>Eleven thousand quotes are a valid reminder text and a receipt detail of 22,002 bytes.\<close>

lemma quotes_len: "str_len (replicate n 34) = n" "sum_list (map escaped_len (replicate n 34)) = 2 * n"
  by (induction n) (simp_all add: str_len_def utf8_len_def escaped_len_def)

theorem long_receipts_are_never_read_witness:
  "autonomy_receipts sample_queue_env
     (finished_store (sample_receipt RunCompleted (replicate 11000 34))
       (sample_next (replicate 11000 34))) 1 0 = Inl InvalidQuery"
proof -
  have short: "str_len (replicate 11000 34) \<le> 16 * 1024"
    unfolding quotes_len by simp
  have "json_string_len (replicate 11000 34) = 22002"
    unfolding json_string_len_def quotes_len by simp
  then have long: "RECEIPT_READ_BYTES
      < av_receipt_json sample_queue_env (sample_receipt RunCompleted (replicate 11000 34))"
    by (simp add: RECEIPT_READ_BYTES_def sample_receipt_def)
  have "snd (autonomy_attention_baseline running_store) = 0"
    by (simp add: autonomy_attention_baseline_def running_store_def sample_base_def new_store_def)
  then show ?thesis
    using long_receipts_are_never_read [OF running_store_inv sample_completed [OF short] long, of "[]"]
    by simp
qed

end
