(* ===== verification/Autonomy_Runs.thy ===== *)
theory Autonomy_Runs
  imports Autonomy_Properties
begin

text \<open>
  One tick of the detached host, \<open>tick\<close> of \<open>src/src/autonomy/runner.rs\<close>, with the refresh of due
  sources before it (\<open>refresh_due\<close> of \<open>autonomy/triggers.rs\<close>): policy, refresh, background lease,
  claim, conversation lease, execution, receipt. The state is the store with the jobs handed to the
  executor so far. The executor's answer, the leases, the clock and the transactions other parts
  of the program commit while the task runs are arguments (\<open>None\<close> where reading a lease or the
  clock fails); the cancellation loop only decides what the executor returns.
\<close>

section \<open>The tick\<close>

datatype root_lease = RootAcquired | RootBusy | RootFailed

datatype tick_error = StoreFailed queue_error | HostFailed | MissingClaim

record tick_inputs =
  ti_now :: int
  ti_shutdown :: bool
  ti_digest :: "(rust_string, rust_string) btree \<Rightarrow> rust_string"
  ti_sample :: "job \<Rightarrow> source_sample"
  ti_sample_fresh :: "job \<Rightarrow> uuid"
  ti_background :: "bool option"
  ti_foreground :: "bool option"
  ti_fresh :: uuid
  ti_root :: root_lease
  ti_during :: "queue_command list"
  ti_result :: "job \<Rightarrow> (run_outcome \<times> rust_string) option"
  ti_finished_at :: "int option"
  ti_completion :: "job \<Rightarrow> completion_evidence option"

type_synonym tick_state = "autonomy_store \<times> job list"

text \<open>An operation of the store as an effect: it commits, or fails and leaves the store.\<close>

definition transact ::
  "(autonomy_store \<Rightarrow> queue_error + 'a \<times> autonomy_store) \<Rightarrow> (tick_state, tick_error, 'a) effect"
where
  "transact f s =
     (case f (fst s) of
        Inl e \<Rightarrow> (s, Inl (StoreFailed e))
      | Inr (x, st') \<Rightarrow> ((st', snd s), Inr x))"

definition needs_refresh :: "int \<Rightarrow> job \<Rightarrow> bool" where
  "needs_refresh now j = (now < jb_expires_at j \<and> jb_authorized j \<and> event_missing j)"

fun refresh_jobs ::
  "'x queue_env_scheme \<Rightarrow> tick_inputs \<Rightarrow> job list \<Rightarrow> (tick_state, tick_error, unit) effect" where
  "refresh_jobs env t [] = eff_return ()"
| "refresh_jobs env t (j # js) =
     (if \<not> needs_refresh (ti_now t) j then refresh_jobs env t js
      else if ti_sample t j = Stopped then eff_return ()
      else case Option.bind (jb_trigger j) (source_result (ti_digest t) (ti_sample t j) (ti_now t)) of
          None \<Rightarrow> refresh_jobs env t js
        | Some found \<Rightarrow>
            eff_bind (transact (autonomy_observed env (ti_sample_fresh t j)
                (refreshed_job (ti_now t) j found)))
              (\<lambda>_. refresh_jobs env t js))"

definition refresh_due ::
  "'x queue_env_scheme \<Rightarrow> tick_inputs \<Rightarrow> (tick_state, tick_error, unit) effect" where
  "refresh_due env t s =
     (case autonomy_due env (fst s) (ti_now t) of
        Inl e \<Rightarrow> (s, Inl (StoreFailed e))
      | Inr jobs \<Rightarrow> refresh_jobs env t jobs s)"

definition failed_text :: rust_string where
  "failed_text = rstr ''Task validation or runtime failed without a conclusive terminal receipt. Inspect scope, credentials, permissions, budgets and the task-owned Conversation before retrying''"

definition run_receipt_of :: "tick_inputs \<Rightarrow> int \<Rightarrow> uuid \<Rightarrow> job \<Rightarrow> run_receipt" where
  "run_receipt_of t finished occurrence j =
     (let (outcome, detail) = (case ti_result t j of Some r \<Rightarrow> r | None \<Rightarrow> (RunUnknown, failed_text))
      in \<lparr>rr_completion = ti_completion t j, rr_occurrence = occurrence,
          rr_scheduled_at = oc_at (jb_next j), rr_finished_at = finished,
          rr_outcome = outcome, rr_detail = detail,
          rr_coalesced = (ti_now t > i64_sat_add (oc_at (jb_next j)) 60),
          rr_dst_adjusted = oc_dst_adjusted (jb_next j)\<rparr>)"

text \<open>The executor gets the job, and other transactions commit until it returns.\<close>

definition dispatch_job ::
  "'x queue_env_scheme \<Rightarrow> tick_inputs \<Rightarrow> job \<Rightarrow> (tick_state, tick_error, unit) effect" where
  "dispatch_job env t j s =
     ((foldl (queue_step env) (fst s) (ti_during t), snd s @ [j]), Inr ())"

definition run_claimed ::
  "'x queue_env_scheme \<Rightarrow> tick_inputs \<Rightarrow> job \<Rightarrow> (tick_state, tick_error, job option) effect" where
  "run_claimed env t j =
     (case jb_occurrence j of
        None \<Rightarrow> eff_fail MissingClaim
      | Some occurrence \<Rightarrow>
          (case ti_root t of
             RootBusy \<Rightarrow>
               eff_bind (transact (autonomy_defer env (jb_id j) occurrence
                   (i64_sat_add (ti_now t) 30)))
                 (\<lambda>_. eff_return None)
           | RootFailed \<Rightarrow> eff_fail HostFailed
           | RootAcquired \<Rightarrow>
               eff_bind (dispatch_job env t j)
                 (\<lambda>_. case ti_finished_at t of
                    None \<Rightarrow> eff_fail HostFailed
                  | Some finished \<Rightarrow>
                      eff_bind
                        (transact (autonomy_finish env (jb_id j) (run_receipt_of t finished occurrence j)))
                        (\<lambda>done_job. eff_return (Some done_job)))))"

definition claim_and_run ::
  "'x queue_env_scheme \<Rightarrow> tick_inputs \<Rightarrow> (tick_state, tick_error, job option) effect" where
  "claim_and_run env t =
     eff_bind (transact (autonomy_claim env (ti_now t) (ti_fresh t)))
       (\<lambda>claimed. case claimed of
            None \<Rightarrow> eff_return None
          | Some j \<Rightarrow> run_claimed env t j)"

definition tick ::
  "'x queue_env_scheme \<Rightarrow> tick_inputs \<Rightarrow> (tick_state, tick_error, job option) effect" where
  "tick env t s =
     (let policy = autonomy_policy (fst s) in
      if hp_stop_requested policy \<or> \<not> hp_detached_enabled policy \<or> ti_shutdown t then (s, Inr None)
      else eff_bind (refresh_due env t)
        (\<lambda>_. case ti_background t of
           None \<Rightarrow> eff_fail HostFailed
         | Some False \<Rightarrow> eff_return None
         | Some True \<Rightarrow>
             (case ti_foreground t of
                None \<Rightarrow> eff_fail HostFailed
              | Some True \<Rightarrow> eff_return None
              | Some False \<Rightarrow> claim_and_run env t)) s)"

text \<open>The queue between ticks: the transactions of the rest of the program, and whole ticks.\<close>

datatype host_event = Transaction queue_command | Ticked tick_inputs

fun host_step :: "'x queue_env_scheme \<Rightarrow> tick_state \<Rightarrow> host_event \<Rightarrow> tick_state" where
  "host_step env s (Transaction c) = (queue_step env (fst s) c, snd s)"
| "host_step env s (Ticked t) = fst (tick env t s)"

section \<open>What a tick leaves behind\<close>

lemma transact_eq:
  "transact f s = (s', Inr x) \<longleftrightarrow> f (fst s) = Inr (x, fst s') \<and> snd s' = snd s"
  "transact f s = (s', Inl e) \<longleftrightarrow> s' = s \<and> (\<exists>q. f (fst s) = Inl q \<and> e = StoreFailed q)"
  by (cases s, cases s', auto simp: transact_def split: sum.splits prod.splits)+

lemma refresh_jobs_idle:
  assumes "refresh_jobs env t js s = (s', Inr u)" and "store_inv env (fst s)"
    and "running_rows (fst s) = []"
  shows "store_inv env (fst s') \<and> running_rows (fst s') = [] \<and> snd s' = snd s"
  using assms
proof (induction env t js arbitrary: s rule: refresh_jobs.induct)
  case (2 env t j js)
  show ?case
  proof (cases "needs_refresh (ti_now t) j \<and> ti_sample t j \<noteq> Stopped")
    case True
    show ?thesis
    proof (cases "Option.bind (jb_trigger j) (source_result (ti_digest t) (ti_sample t j) (ti_now t))")
      case None
      then show ?thesis using 2 True by simp
    next
      case (Some found)
      then obtain s1 v where
        obs: "autonomy_observed env (ti_sample_fresh t j) (refreshed_job (ti_now t) j found) (fst s)
          = Inr (v, fst s1)" and same: "snd s1 = snd s"
        and rest: "refresh_jobs env t js s1 = (s', Inr u)"
        using "2.prems"(1) True
        by (auto simp: transact_eq elim!: eff_bind_cases)
      have "store_inv env (fst s1)" using observed_progress "2.prems"(2) obs progress_inv by blast
      moreover have "running_rows (fst s1) = []" using observed_idle "2.prems"(2,3) obs by blast
      ultimately show ?thesis using "2.IH"(3) True Some rest same by simp
    qed
  next
    case False
    then show ?thesis using 2 by (auto split: if_splits)
  qed
qed simp

lemma run_claimed_idle:
  assumes inv: "store_inv env (fst s)" and run: "run_claimed env t j s = (s', Inr res)"
  shows "store_inv env (fst s') \<and> running_rows (fst s') = []
     \<and> (case res of
          None \<Rightarrow> snd s' = snd s
        | Some x \<Rightarrow> snd s' = snd s @ [j] \<and> jb_id x = jb_id j \<and> jb_occurrence x = None
            \<and> (\<exists>occurrence finished. jb_occurrence j = Some occurrence
                \<and> jb_last_receipt x = Some (run_receipt_of t finished occurrence j)))"
proof -
  obtain occurrence where occ: "jb_occurrence j = Some occurrence"
    using run by (auto simp: run_claimed_def split: option.splits)
  show ?thesis
  proof (cases "ti_root t")
    case RootBusy
    then have "res = None" and "\<exists>u. autonomy_defer env (jb_id j) occurrence
        (i64_sat_add (ti_now t) 30) (fst s) = Inr (u, fst s')" and "snd s' = snd s"
      using run occ by (auto simp: run_claimed_def transact_eq elim!: eff_bind_cases)
    then show ?thesis using inv defer_idle defer_progress progress_inv by fastforce
  next
    case RootAcquired
    let ?st = "foldl (queue_step env) (fst s) (ti_during t)"
    obtain x finished where res: "res = Some x" and log: "snd s' = snd s @ [j]" and
      fin: "autonomy_finish env (jb_id j) (run_receipt_of t finished occurrence j) ?st = Inr (x, fst s')"
      using run occ RootAcquired
      by (auto simp: run_claimed_def dispatch_job_def transact_eq elim!: eff_bind_cases split: option.splits)
    have inv1: "store_inv env ?st" using inv by (rule autonomy.run_inv)
    have "jb_last_receipt x = Some (run_receipt_of t finished occurrence j) \<and> jb_occurrence x = None
        \<and> jb_id x = jb_id j"
      using inv1 fin
    proof (cases rule: finish_moves)
      case (1 r w y)
      have "state_running (jb_state (jr_body r))"
        using 1(1,4) row_running [of env r] by (simp add: queue_moves_def)
      moreover have "jb_id x = jb_id j" using moved_row(2) [OF 1(1)] 1(2) by simp
      ultimately show ?thesis using finished_job_change [OF 1(5)] by (subst (1 2) 1(6)) simp
    qed
    then show ?thesis
      using inv1 fin finish_idle finish_progress progress_inv res occ log by fastforce
  qed (use run occ in \<open>simp add: run_claimed_def\<close>)
qed

lemma claim_and_run_idle:
  assumes inv: "store_inv env (fst s)" and idle: "running_rows (fst s) = []"
    and run: "claim_and_run env t s = (s', Inr res)"
  shows "store_inv env (fst s') \<and> running_rows (fst s') = []
     \<and> (case res of
          None \<Rightarrow> snd s' = snd s
        | Some x \<Rightarrow> jb_occurrence x = None
            \<and> (\<exists>j receipt. snd s' = snd s @ [j] \<and> jb_id j = jb_id x \<and> jb_last_receipt x = Some receipt
                 \<and> jb_occurrence j = Some (ti_fresh t) \<and> rr_occurrence receipt = ti_fresh t))"
proof -
  obtain claimed s2 where claim: "autonomy_claim env (ti_now t) (ti_fresh t) (fst s) = Inr (claimed, fst s2)"
    and log: "snd s2 = snd s"
    and run2: "(case claimed of None \<Rightarrow> eff_return None | Some j \<Rightarrow> run_claimed env t j) s2 = (s', Inr res)"
    using run by (auto simp: claim_and_run_def transact_eq elim!: eff_bind_cases)
  have s2: "store_inv env (fst s2)" using inv claim claim_progress progress_inv by blast
  show ?thesis
  proof (cases claimed)
    case None
    then show ?thesis using run2 claim s2 log unclaimed_idle [OF inv idle] by auto
  next
    case (Some j)
    have "jb_occurrence j = Some (ti_fresh t)"
      using claimed_fields(2) [OF inv] claim Some by simp
    then show ?thesis
      using run_claimed_idle [OF s2, of t j s' res] run2 Some log
      by (auto simp: run_receipt_of_def Let_def split: option.splits prod.splits)
  qed
qed

text \<open>
  C15: A tick leaves nothing running. Started on an idle queue, a tick that returns without an
  error has no job running behind it, whatever the sources, the leases and the executor did and
  whatever other transactions committed meanwhile. When it reports no job it handed none to the
  executor; when it reports one it handed exactly that one over, once, and the job carries the
  receipt of exactly the occurrence the tick claimed.
\<close>

theorem tick_leaves_nothing_running:
  assumes inv: "store_inv env st" and idle: "running_rows st = []"
    and tick: "tick env t (st, handed) = ((st', handed'), Inr res)"
  shows "store_inv env st' \<and> running_rows st' = []
     \<and> (case res of
          None \<Rightarrow> handed' = handed
        | Some x \<Rightarrow> jb_occurrence x = None
            \<and> (\<exists>j receipt. handed' = handed @ [j] \<and> jb_id j = jb_id x \<and> jb_last_receipt x = Some receipt
                 \<and> jb_occurrence j = Some (ti_fresh t) \<and> rr_occurrence receipt = ti_fresh t))"
proof (cases "hp_stop_requested (autonomy_policy st) \<or> \<not> hp_detached_enabled (autonomy_policy st)
    \<or> ti_shutdown t")
  case True
  then show ?thesis using tick inv idle by (auto simp: tick_def Let_def)
next
  case False
  then obtain s1 where refreshed: "refresh_due env t (st, handed) = (s1, Inr ())"
    and rest: "res = None \<and> s1 = (st', handed') \<or> claim_and_run env t s1 = ((st', handed'), Inr res)"
    using tick by (auto simp: tick_def Let_def elim!: eff_bind_cases split: option.splits bool.splits)
  have s1: "store_inv env (fst s1)" "running_rows (fst s1) = []" "snd s1 = handed"
    using refreshed refresh_jobs_idle [of env t _ "(st, handed)" s1] inv idle
    by (auto simp: refresh_due_def split: sum.splits)
  from rest show ?thesis
  proof
    assume "claim_and_run env t s1 = ((st', handed'), Inr res)"
    from claim_and_run_idle [OF s1(1,2) this] show ?thesis unfolding s1(3) fst_conv snd_conv .
  qed (use s1 in auto)
qed

definition sample_tick :: tick_inputs where
  "sample_tick =
     \<lparr>ti_now = 40000, ti_shutdown = False, ti_digest = (\<lambda>_. []), ti_sample = (\<lambda>_. Discarded),
      ti_sample_fresh = (\<lambda>_. 9), ti_background = Some True, ti_foreground = Some False, ti_fresh = 5,
      ti_root = RootAcquired, ti_during = [], ti_result = (\<lambda>_. Some (RunCompleted, [])),
      ti_finished_at = Some 41000, ti_completion = (\<lambda>_. None)\<rparr>"

lemma sample_refresh:
  "refresh_due sample_queue_env sample_tick (ready_store, []) = ((ready_store, []), Inr ())"
proof -
  have due: "due_rows 40000 ready_store = [row_of 1 sample_job]"
    by (simp add: due_rows_def ready_store_def row_of_def sample_job_def)
  have "row_ok sample_queue_env (row_of 1 sample_job)"
    using ready_store_inv by (simp add: store_inv_def ready_store_def)
  then have "stored_job sample_queue_env (row_of 1 sample_job) = Inr sample_job"
    by (simp add: row_ok_def row_of_def)
  moreover have "\<not> needs_refresh 40000 sample_job"
    by (simp add: needs_refresh_def event_missing_def sample_job_def)
  ultimately show ?thesis
    using due by (simp add: refresh_due_def autonomy_due_def sample_tick_def del: One_nat_def)
qed

lemma sample_run: "run_claimed sample_queue_env sample_tick sample_running (running_store, []) =
    ((finished_store (sample_receipt RunCompleted []) (sample_next []), [sample_running]),
     Inr (Some (sample_next [])))"
proof -
  have "run_receipt_of sample_tick 41000 5 sample_running = sample_receipt RunCompleted []"
    by (simp add: run_receipt_of_def sample_tick_def sample_receipt_def sample_running_def
        sample_job_def i64_sat_add_def i64_sat_def)
  moreover have "jb_occurrence sample_running = Some 5" "jb_id sample_running = 1"
    by (simp_all add: sample_running_def sample_job_def)
  moreover have "ti_root sample_tick = RootAcquired" "ti_during sample_tick = []"
    "ti_finished_at sample_tick = Some 41000"
    by (simp_all add: sample_tick_def)
  ultimately show ?thesis
    using sample_completed [of "[]"]
    by (simp add: run_claimed_def dispatch_job_def transact_def eff_bind_def str_len_def del: One_nat_def)
qed

lemma sample_ticked: "tick sample_queue_env sample_tick (ready_store, []) =
    ((finished_store (sample_receipt RunCompleted []) (sample_next []), [sample_running]),
     Inr (Some (sample_next [])))"
proof -
  have "\<not> hp_stop_requested (autonomy_policy ready_store)"
    and "hp_detached_enabled (autonomy_policy ready_store)"
    by (simp_all add: autonomy_policy_def ready_store_def sample_base_def default_host_policy_def)
  moreover have "autonomy_claim sample_queue_env (ti_now sample_tick) (ti_fresh sample_tick) ready_store
      = Inr (Some sample_running, running_store)"
    using sample_claim by (simp add: sample_tick_def)
  ultimately show ?thesis
    using sample_run
    by (simp add: tick_def claim_and_run_def eff_bind_def sample_refresh transact_def)
      (simp add: sample_tick_def claim_and_run_def eff_bind_def transact_def)
qed

theorem tick_leaves_nothing_running_witness:
  "running_rows (finished_store (sample_receipt RunCompleted []) (sample_next [])) = []
     \<and> jb_occurrence (sample_next []) = None"
proof -
  have "running_rows ready_store = []"
    by (simp add: running_rows_def ready_store_def row_of_def sample_job_def)
  then show ?thesis
    using tick_leaves_nothing_running [OF ready_store_inv _ sample_ticked] by fastforce
qed

section \<open>Revoked authority\<close>

lemma unauthorized_kept:
  assumes "store_inv env st" and "r \<in> set (as_jobs st)" and "\<not> jb_authorized (jr_body r)"
  shows "\<exists>x\<in>set (as_jobs (foldl (queue_step env) st cs)). jr_id x = jr_id r
     \<and> \<not> jb_authorized (jr_body x)"
proof -
  obtain x where "x \<in> set (as_jobs (foldl (queue_step env) st cs))" and "row_extends r x"
    using autonomy.run_below [OF assms(1), of cs] assms(2) by (auto simp: extends_def)
  then show ?thesis using assms(3) by (auto simp: row_extends_def same_intent_def intro!: bexI)
qed

lemma revoked_not_claimed:
  assumes inv: "store_inv env st" and r: "r \<in> set (as_jobs st)"
    and revoked: "\<not> jb_authorized (jr_body r)"
    and claim: "autonomy_claim env now fresh (foldl (queue_step env) st cs) = Inr (Some j, st')"
  shows "jb_id j \<noteq> jr_id r"
proof
  assume same: "jb_id j = jr_id r"
  let ?st = "foldl (queue_step env) st cs"
  have inv': "store_inv env ?st" using inv by (rule autonomy.run_inv)
  obtain x where x: "x \<in> set (as_jobs ?st)" "jr_id x = jr_id r" "\<not> jb_authorized (jr_body x)"
    using unauthorized_kept [OF inv r revoked] by blast
  from inv' claim show False
  proof (cases rule: claim_moves)
    case (claimed r1 rest j')
    have "jr_id r1 = jb_id j" using moved_row(2) [OF claimed(4)] claimed(3) by simp
    then have "r1 = x"
      using claimed(4) x(1,2) same store_inv_ids [OF inv'] by (simp add: queue_moves_def)
    then show False using claimed(8) x(3) by simp
  qed simp_all
qed

text \<open>
  What a step of the host does to the store is a sequence of transactions, and every job it hands
  to the executor came out of a claim on a store that such a sequence leads to.
\<close>

definition only_transacts ::
  "'x queue_env_scheme \<Rightarrow> (tick_state, tick_error, 'a) effect \<Rightarrow> bool" where
  "only_transacts env m =
     (\<forall>s. \<exists>cs. fst (m s) = (foldl (queue_step env) (fst s) cs, snd s))"

definition dispatches_claimed ::
  "'x queue_env_scheme \<Rightarrow> tick_state \<Rightarrow> tick_state \<Rightarrow> bool" where
  "dispatches_claimed env s s' =
     (\<exists>cs new. s' = (foldl (queue_step env) (fst s) cs, snd s @ new)
        \<and> (\<forall>j\<in>set new. \<exists>ds now fresh st'.
             autonomy_claim env now fresh (foldl (queue_step env) (fst s) ds) = Inr (Some j, st')))"

lemma only_transacts_return [intro]: "only_transacts env (eff_return x)" "only_transacts env (eff_fail e)"
  unfolding only_transacts_def by (auto intro: exI [of _ "[]"])

lemma only_transacts_bind [intro]:
  assumes "only_transacts env m" and "\<And>x. only_transacts env (f x)"
  shows "only_transacts env (eff_bind m f)"
  unfolding only_transacts_def
proof
  fix s
  obtain cs r where m: "m s = ((foldl (queue_step env) (fst s) cs, snd s), r)"
    using assms(1) unfolding only_transacts_def by (metis prod.collapse)
  show "\<exists>cs. fst (eff_bind m f s) = (foldl (queue_step env) (fst s) cs, snd s)"
  proof (cases r)
    case (Inl e)
    then show ?thesis using m by (auto simp: eff_bind_def)
  next
    case (Inr x)
    obtain ds where "fst (f x (foldl (queue_step env) (fst s) cs, snd s))
        = (foldl (queue_step env) (foldl (queue_step env) (fst s) cs) ds, snd s)"
      using assms(2) [of x] unfolding only_transacts_def by (metis fst_conv snd_conv)
    then show ?thesis using m Inr by (auto simp: eff_bind_def simp flip: foldl_append)
  qed
qed

lemma only_transacts_step:
  assumes "\<And>st. queue_step env st c = committed (f st) st"
  shows "only_transacts env (transact f)"
  unfolding only_transacts_def
proof
  fix s
  show "\<exists>cs. fst (transact f s) = (foldl (queue_step env) (fst s) cs, snd s)"
    by (rule exI [of _ "[c]"]) (auto simp: transact_def assms committed_def split: sum.splits)
qed

lemma refresh_only_transacts: "only_transacts env (refresh_jobs env t js)"
proof (induction js)
  case (Cons j js)
  have "only_transacts env (transact (autonomy_observed env fresh x))" for fresh x
    by (rule only_transacts_step [of env "Observed fresh x"]) simp
  then show ?case
    using Cons only_transacts_return [of env] by (auto simp: eff_return_def split: option.splits)
qed (simp only: refresh_jobs.simps only_transacts_return)

lemma dispatches_refl: "dispatches_claimed env s s"
  unfolding dispatches_claimed_def by (intro exI [of _ "[]"]) simp

lemma dispatches_transacting: "only_transacts env m \<Longrightarrow> dispatches_claimed env s (fst (m s))"
  unfolding only_transacts_def dispatches_claimed_def by (metis append_Nil2 empty_iff empty_set)

lemma dispatches_trans:
  assumes "dispatches_claimed env a b" and "dispatches_claimed env b c"
  shows "dispatches_claimed env a c"
proof -
  obtain cs new where b: "b = (foldl (queue_step env) (fst a) cs, snd a @ new)" and
    new: "\<forall>j\<in>set new. \<exists>ds now fresh st'.
       autonomy_claim env now fresh (foldl (queue_step env) (fst a) ds) = Inr (Some j, st')"
    using assms(1) by (auto simp: dispatches_claimed_def)
  obtain cs' new' where c: "c = (foldl (queue_step env) (fst b) cs', snd b @ new')" and
    new': "\<forall>j\<in>set new'. \<exists>ds now fresh st'.
       autonomy_claim env now fresh (foldl (queue_step env) (fst b) ds) = Inr (Some j, st')"
    using assms(2) by (auto simp: dispatches_claimed_def)
  have "\<exists>ds now fresh st'. autonomy_claim env now fresh (foldl (queue_step env) (fst a) ds) = Inr (Some j, st')"
    if j: "j \<in> set (new @ new')" for j
  proof (cases "j \<in> set new")
    case False
    then obtain ds now fresh st' where
      "autonomy_claim env now fresh (foldl (queue_step env) (fst b) ds) = Inr (Some j, st')"
      using j new' by auto
    then have "autonomy_claim env now fresh (foldl (queue_step env) (fst a) (cs @ ds)) = Inr (Some j, st')"
      by (simp add: b)
    then show ?thesis by blast
  qed (use new in blast)
  moreover have "c = (foldl (queue_step env) (fst a) (cs @ cs'), snd a @ (new @ new'))"
    by (simp add: b c)
  ultimately show ?thesis unfolding dispatches_claimed_def by blast
qed

lemma run_claimed_dispatches:
  assumes claim: "autonomy_claim env now fresh (fst s) = Inr (Some j, st')"
  shows "dispatches_claimed env s (fst (run_claimed env t j (st', snd s)))"
proof -
  have st': "st' = foldl (queue_step env) (fst s) [Claim now fresh]"
    using claim by (simp add: committed_def)
  have after: "autonomy_claim env now fresh (foldl (queue_step env) (fst s) []) = Inr (Some j, st')"
    using claim by simp
  show ?thesis
  proof (cases "ti_root t = RootAcquired \<and> jb_occurrence j \<noteq> None")
    case True
    then obtain occurrence where occ: "jb_occurrence j = Some occurrence" by auto
    let ?s = "fst (dispatch_job env t j (st', snd s))"
    have "?s = (foldl (queue_step env) (fst s) (Claim now fresh # ti_during t), snd s @ [j])"
      by (simp add: dispatch_job_def st' del: queue_step.simps)
    moreover have "\<forall>x\<in>set [j]. \<exists>ds now fresh st'.
        autonomy_claim env now fresh (foldl (queue_step env) (fst s) ds) = Inr (Some x, st')"
      using after by (auto simp only: set_simps singleton_iff)
    ultimately have dispatched: "dispatches_claimed env s ?s"
      unfolding dispatches_claimed_def by blast
    have "only_transacts env (transact (autonomy_finish env i receipt))" for i receipt
      by (rule only_transacts_step [of env "FinishRun i receipt"]) simp
    then have "only_transacts env (case ti_finished_at t of None \<Rightarrow> eff_fail HostFailed
        | Some finished \<Rightarrow> eff_bind
            (transact (autonomy_finish env (jb_id j) (run_receipt_of t finished occurrence j)))
            (\<lambda>done_job. eff_return (Some done_job)))"
      by (auto split: option.splits)
    from dispatches_trans [OF dispatched dispatches_transacting [OF this]] show ?thesis
      using True occ by (simp add: run_claimed_def eff_bind_def dispatch_job_def)
  next
    case False
    have "only_transacts env (transact (autonomy_defer env i occurrence until))" for i occurrence until
      by (rule only_transacts_step [of env "Defer i occurrence until"]) simp
    then have "only_transacts env (run_claimed env t j)"
      using False by (auto simp: run_claimed_def split: option.splits root_lease.splits)
    then have "dispatches_claimed env (st', snd s) (fst (run_claimed env t j (st', snd s)))"
      by (rule dispatches_transacting)
    moreover have "dispatches_claimed env s (st', snd s)"
      unfolding dispatches_claimed_def st' by (intro exI [of _ "[Claim now fresh]"]) simp
    ultimately show ?thesis by (rule dispatches_trans [rotated])
  qed
qed

lemma claim_and_run_dispatches: "dispatches_claimed env s (fst (claim_and_run env t s))"
proof (cases "\<exists>j st'. autonomy_claim env (ti_now t) (ti_fresh t) (fst s) = Inr (Some j, st')")
  case True
  then obtain j st' where claim: "autonomy_claim env (ti_now t) (ti_fresh t) (fst s) = Inr (Some j, st')"
    by blast
  then have "claim_and_run env t s = run_claimed env t j (st', snd s)"
    by (simp add: claim_and_run_def eff_bind_def transact_def)
  then show ?thesis using run_claimed_dispatches [OF claim] by simp
next
  case False
  have "only_transacts env (transact (autonomy_claim env (ti_now t) (ti_fresh t)))"
    by (rule only_transacts_step [of env "Claim (ti_now t) (ti_fresh t)"]) simp
  from dispatches_transacting [OF this, of s]
  have "dispatches_claimed env s (fst (transact (autonomy_claim env (ti_now t) (ti_fresh t)) s))" .
  moreover have "fst (claim_and_run env t s)
      = fst (transact (autonomy_claim env (ti_now t) (ti_fresh t)) s)"
    using False by (auto simp: claim_and_run_def eff_bind_def transact_def split: sum.splits prod.splits option.splits)
  ultimately show ?thesis by simp
qed

lemma tick_dispatches: "dispatches_claimed env s (fst (tick env t s))"
proof -
  have refresh: "only_transacts env (refresh_due env t)"
    unfolding only_transacts_def
  proof
    fix s
    show "\<exists>cs. fst (refresh_due env t s) = (foldl (queue_step env) (fst s) cs, snd s)"
    proof (cases "autonomy_due env (fst s) (ti_now t)")
      case (Inl e)
      then show ?thesis by (intro exI [of _ "[]"]) (simp add: refresh_due_def)
    next
      case (Inr js)
      moreover obtain cs where "fst (refresh_jobs env t js s) = (foldl (queue_step env) (fst s) cs, snd s)"
        using refresh_only_transacts [of env t js] unfolding only_transacts_def by blast
      ultimately show ?thesis by (intro exI [of _ cs]) (simp add: refresh_due_def)
    qed
  qed
  from dispatches_transacting [OF this, of s]
  have first: "dispatches_claimed env s (fst (refresh_due env t s))" .
  have rest: "fst (tick env t s) \<in> {s, fst (refresh_due env t s),
      fst (claim_and_run env t (fst (refresh_due env t s)))}"
    by (auto simp: tick_def Let_def eff_bind_def eff_return_def eff_fail_def
        split: prod.splits sum.splits option.splits bool.splits)
  have "dispatches_claimed env s (fst (claim_and_run env t (fst (refresh_due env t s))))"
    by (rule dispatches_trans [OF first claim_and_run_dispatches])
  then show ?thesis using rest first dispatches_refl [of env s] by (elim insertE) simp_all
qed

lemma host_step_dispatches: "dispatches_claimed env s (host_step env s e)"
proof (cases e)
  case (Transaction c)
  then show ?thesis
    unfolding dispatches_claimed_def by (intro exI [of _ "[c]"]) simp
next
  case (Ticked t)
  then show ?thesis by (simp add: tick_dispatches)
qed

lemma host_run_dispatches: "dispatches_claimed env s (foldl (host_step env) s es)"
proof (induction es rule: rev_induct)
  case (snoc e es)
  then show ?case using dispatches_trans [OF snoc host_step_dispatches] by simp
qed (simp add: dispatches_refl)

text \<open>
  C10: Authority that was revoked never runs again. Once a job's row is without authority (the
  owner cancelled it), then over any sequence of transactions and ticks, ticks that fail at any
  point included, that job is never handed to the executor, and no claim hands it out either.
\<close>

theorem revoked_authority_never_runs:
  assumes inv: "store_inv env st" and r: "r \<in> set (as_jobs st)"
    and revoked: "\<not> jb_authorized (jr_body r)"
    and run: "foldl (host_step env) (st, handed) events = (st', handed')"
  shows "(\<exists>new. handed' = handed @ new \<and> jr_id r \<notin> jb_id ` set new)
    \<and> (\<nexists>j st''. autonomy_claim env now fresh st' = Inr (Some j, st'') \<and> jb_id j = jr_id r)"
proof -
  obtain cs new where st': "st' = foldl (queue_step env) st cs" and grown: "handed' = handed @ new"
    and claimed: "\<forall>j\<in>set new. \<exists>ds now fresh st'.
        autonomy_claim env now fresh (foldl (queue_step env) st ds) = Inr (Some j, st')"
    using host_run_dispatches [of env "(st, handed)" events] run by (auto simp: dispatches_claimed_def)
  note never = revoked_not_claimed [OF inv r revoked]
  have "jb_id j \<noteq> jr_id r" if "j \<in> set new" for j using claimed that never by blast
  then have "\<exists>new. handed' = handed @ new \<and> jr_id r \<notin> jb_id ` set new" using grown by fastforce
  moreover have "\<nexists>j st''. autonomy_claim env now fresh st' = Inr (Some j, st'') \<and> jb_id j = jr_id r"
    using never by (auto simp: st')
  ultimately show ?thesis by blast
qed

definition sample_cancelled :: job where
  "sample_cancelled = sample_job\<lparr>jb_revision := 2, jb_state := JobCancelled, jb_authorized := False\<rparr>"

definition cancelled_store :: autonomy_store where
  "cancelled_store = sample_base\<lparr>as_jobs := [row_of 1 sample_cancelled]\<rparr>"

lemma cancelled_store_inv: "store_inv sample_queue_env cancelled_store"
proof -
  have "validate_job (autonomy_env.truncate sample_queue_env) sample_cancelled = Inr ()"
    using sample_job_valid
    by (simp add: validate_job_def validate_identity_def sample_cancelled_def res_simps
        state_running_def sample_job_def)
  then show ?thesis
    by (simp add: store_inv_def active_rows_def QUEUE_LIMIT_def cancelled_store_def sample_base_def new_store_def row_of_def
        row_ok_iff running_rows_def autonomy_policy_def default_host_policy_def JOB_BYTES_def
        sample_cancelled_def)
qed

text \<open>Resuming a cancelled job is refused, and a tick that finds nothing due runs nothing.\<close>

theorem revoked_authority_never_runs_witness:
  "let s = foldl (host_step sample_queue_env) (cancelled_store, [])
         [Transaction (Edit 1 2 (ResumeEdit True) 45000), Ticked sample_tick]
   in 1 \<notin> jb_id ` set (snd s)
      \<and> (\<nexists>j st''. autonomy_claim sample_queue_env 50000 7 (fst s) = Inr (Some j, st'') \<and> jb_id j = 1)"
proof -
  let ?events = "[Transaction (Edit 1 2 (ResumeEdit True) 45000), Ticked sample_tick]"
  obtain st' handed' where run: "foldl (host_step sample_queue_env) (cancelled_store, []) ?events = (st', handed')"
    by fastforce
  have r: "row_of 1 sample_cancelled \<in> set (as_jobs cancelled_store)"
    "\<not> jb_authorized (jr_body (row_of 1 sample_cancelled))"
    "jr_id (row_of 1 sample_cancelled) = 1"
    by (simp_all add: cancelled_store_def row_of_def sample_cancelled_def sample_job_def)
  from revoked_authority_never_runs [OF cancelled_store_inv r(1,2) run] show ?thesis
    unfolding run Let_def fst_conv snd_conv r(3) by auto
qed

end
