(* ===== verification/Progress_Guard.thy ===== *)
theory Progress_Guard
  imports Permission_Policy Conversation_Data
begin

text \<open>
  The guard against repeated failed tool calls, \<open>src/src/agent/progress.rs\<close>, with the loop over
  the calls of one assistant message that consults it (\<open>agent.rs\<close>). Windows are kept as lists,
  oldest first. The BLAKE3 fingerprint of a call (its name and canonical arguments) and of a
  capability name are parameters; executing a call is an argument of the loop.
\<close>

section \<open>The guard\<close>

definition WINDOW :: nat where "WINDOW = 32"
definition REPEAT_LIMIT :: nat where "REPEAT_LIMIT = 3"
definition CONSECUTIVE_ERROR_LIMIT :: nat where "CONSECUTIVE_ERROR_LIMIT = 6"

record progress_codec =
  pc_fingerprint :: "tool_call \<Rightarrow> rust_string"
  pc_hash :: "rust_string \<Rightarrow> rust_string"

record progress_guard =
  pg_failed :: "rust_string list"
  pg_denied :: "rust_string list"
  pg_unavailable :: "rust_string list"
  pg_consecutive_errors :: usize
  pg_stopped :: bool
  pg_memory_rejections :: u8

definition default_guard :: progress_guard where
  "default_guard =
     \<lparr>pg_failed = [], pg_denied = [], pg_unavailable = [], pg_consecutive_errors = 0,
      pg_stopped = False, pg_memory_rejections = 0\<rparr>"

definition unavailable_capability :: "progress_codec \<Rightarrow> rust_string \<Rightarrow> rust_string" where
  "unavailable_capability codec name =
     pc_hash codec (if is_mutation name then rstr ''memory_lookup'' else name)"

text \<open>\<open>push_back\<close> of a window that drops its oldest entry when it is full.\<close>

definition push_window :: "'a \<Rightarrow> 'a list \<Rightarrow> 'a list" where
  "push_window x w = (if length w = WINDOW then tl w else w) @ [x]"

definition memory_recovery_needed :: "progress_guard \<Rightarrow> bool" where
  "memory_recovery_needed g = (pg_memory_rejections g \<ge> 2)"

definition stop_reason :: rust_string where
  "stop_reason = rstr ''Stopped after repeated tool failures without progress. Remaining tools in this batch were not executed. Review the tool errors and correct the request before retrying; repeating failed calls will not fix them.''"

definition blocked_result :: "progress_codec \<Rightarrow> progress_guard \<Rightarrow> tool_call \<Rightarrow> tool_result option" where
  "blocked_result codec g call =
     (if memory_recovery_needed g \<and> is_mutation (tc_name call) then
        Some ((error_result (tc_id call) (rstr ''Memory mutation repair allowance exhausted; no tool was executed. Answer from known facts without more mutations.''))
          \<lparr>tr_failure := Some InvalidMemoryArguments\<rparr>)
      else if pg_stopped g then Some (error_result (tc_id call) stop_reason)
      else if unavailable_capability codec (tc_name call) \<in> set (pg_unavailable g) then
        Some (unavailable_result (tc_id call) (rstr ''This capability is unavailable for this turn. Retrying cannot enable it; no tool was executed.''))
      else if pc_fingerprint codec call \<in> set (pg_denied g) then
        Some (denied_result (tc_id call) (rstr ''This exact tool request was already denied in this turn. Do not request it again; choose another approach or ask the user for direction.''))
      else None)"

definition count_rejection :: "tool_result \<Rightarrow> progress_guard \<Rightarrow> progress_guard" where
  "count_rejection result g =
     (case tr_failure result of
        Some f \<Rightarrow>
          if is_memory_rejection f
          then g\<lparr>pg_memory_rejections := sat_add (pg_memory_rejections g) 1\<rparr> else g
      | None \<Rightarrow> g)"

definition note_unavailable ::
  "progress_codec \<Rightarrow> tool_call \<Rightarrow> tool_result \<Rightarrow> progress_guard \<Rightarrow> progress_guard" where
  "note_unavailable codec call result g =
     (if tr_failure result = Some ToolUnavailable then
        let capability = unavailable_capability codec (tc_name call)
        in if capability \<in> set (pg_unavailable g) then g\<lparr>pg_stopped := True\<rparr>
           else g\<lparr>pg_unavailable := push_window capability (pg_unavailable g)\<rparr>
      else g)"

definition note_denied ::
  "progress_codec \<Rightarrow> tool_call \<Rightarrow> tool_result \<Rightarrow> progress_guard \<Rightarrow> progress_guard" where
  "note_denied codec call result g =
     (if tr_failure result = Some PermissionDenied
         \<and> pc_fingerprint codec call \<notin> set (pg_denied g)
      then g\<lparr>pg_denied := push_window (pc_fingerprint codec call) (pg_denied g)\<rparr> else g)"

definition note_failure :: "rust_string \<Rightarrow> progress_guard \<Rightarrow> progress_guard" where
  "note_failure pattern g =
     (let errors = sat_add (pg_consecutive_errors g) 1;
          failed = push_window pattern (pg_failed g)
      in g\<lparr>pg_consecutive_errors := errors, pg_failed := failed,
           pg_stopped := (pg_stopped g
             \<or> length (filter (\<lambda>p. p = pattern) failed) \<ge> REPEAT_LIMIT
             \<or> unat errors \<ge> CONSECUTIVE_ERROR_LIMIT)\<rparr>)"

definition observe_result ::
  "progress_codec \<Rightarrow> tool_call \<Rightarrow> tool_result \<Rightarrow> progress_guard \<Rightarrow> progress_guard" where
  "observe_result codec call result g0 =
     (let g = count_rejection result g0; pattern = pc_fingerprint codec call
      in if tr_status result = ResultSuccess
         then g\<lparr>pg_consecutive_errors := 0, pg_failed := filter (\<lambda>p. p \<noteq> pattern) (pg_failed g)\<rparr>
         else note_failure pattern
           (note_denied codec call result (note_unavailable codec call result g)))"

section \<open>Rebuilding from the history of the turn\<close>

text \<open>What follows the last message of the user; the whole history where there is none.\<close>

definition current_turn :: "message list \<Rightarrow> message list" where
  "current_turn ms = rev (takeWhile (\<lambda>m. msg_role m \<noteq> UserRole) (rev ms))"

definition call_of :: "content_block list \<Rightarrow> rust_string \<Rightarrow> tool_call option" where
  "call_of calls i =
     (case List.map_filter (\<lambda>b. case b of ToolCallBlock c \<Rightarrow> if tc_id c = i then Some c else None
          | _ \<Rightarrow> None) calls of [] \<Rightarrow> None | c # _ \<Rightarrow> Some c)"

definition observe_block ::
  "progress_codec \<Rightarrow> content_block list \<Rightarrow> progress_guard \<Rightarrow> content_block \<Rightarrow> progress_guard" where
  "observe_block codec calls g b =
     (case b of
        ToolResultBlock r \<Rightarrow>
          (case call_of calls (tr_call_id r) of
             Some c \<Rightarrow> observe_result codec c r g
           | None \<Rightarrow> g)
      | _ \<Rightarrow> g)"

definition replay_message ::
  "progress_codec \<Rightarrow> progress_guard \<times> content_block list \<Rightarrow> message
    \<Rightarrow> progress_guard \<times> content_block list" where
  "replay_message codec s m =
     (case s of (g, calls) \<Rightarrow>
        if msg_role m = AssistantRole then (g, msg_content m)
        else if msg_role m = ToolRole then (foldl (observe_block codec calls) g (msg_content m), calls)
        else (g, calls))"

definition from_history :: "progress_codec \<Rightarrow> message list \<Rightarrow> progress_guard" where
  "from_history codec ms =
     fst (foldl (replay_message codec) (default_guard, []) (current_turn ms))"

section \<open>The calls of one assistant message\<close>

text \<open>
  The loop of the agent over one batch: a blocked call gets its result without execution. The
  returned list is the calls that were executed, the message list what is appended.
\<close>

definition batch_result ::
  "progress_codec \<Rightarrow> (tool_call \<Rightarrow> tool_result) \<Rightarrow> progress_guard \<Rightarrow> tool_call \<Rightarrow> tool_result" where
  "batch_result codec exec g call =
     (case blocked_result codec g call of Some r \<Rightarrow> r | None \<Rightarrow> exec call)"

fun run_batch ::
  "progress_codec \<Rightarrow> (tool_call \<Rightarrow> tool_result) \<Rightarrow> tool_call list \<Rightarrow> progress_guard
    \<Rightarrow> progress_guard \<times> tool_call list \<times> message list" where
  "run_batch codec exec [] g = (g, [], [])"
| "run_batch codec exec (call # calls) g =
     (let result = batch_result codec exec g call;
          (g', executed, appended) = run_batch codec exec calls (observe_result codec call result g)
      in (g', (if blocked_result codec g call = None then [call] else []) @ executed,
          tool_result_message result # appended))"

section \<open>Bounds of the windows\<close>

lemma length_push_window: "length w \<le> WINDOW \<Longrightarrow> length (push_window x w) \<le> WINDOW"
  by (auto simp: push_window_def WINDOW_def)

definition guard_bounded :: "progress_guard \<Rightarrow> bool" where
  "guard_bounded g =
     (length (pg_failed g) \<le> WINDOW \<and> length (pg_denied g) \<le> WINDOW
      \<and> length (pg_unavailable g) \<le> WINDOW
      \<and> (unat (pg_consecutive_errors g) \<ge> CONSECUTIVE_ERROR_LIMIT \<longrightarrow> pg_stopped g))"

lemma observe_bounded: "guard_bounded g \<Longrightarrow> guard_bounded (observe_result codec call result g)"
  by (auto simp: guard_bounded_def observe_result_def note_failure_def note_denied_def
      note_unavailable_def count_rejection_def Let_def length_push_window
      CONSECUTIVE_ERROR_LIMIT_def order_trans [OF length_filter_le] split: option.splits)

interpretation guard: machine "\<lambda>g (call, result). observe_result codec call result g" guard_bounded
  by unfold_locales (auto simp: observe_bounded split: prod.splits)

section \<open>Stopping\<close>

lemma blocked_not_success:
  "blocked_result codec g call = Some r \<Longrightarrow> tr_status r = ResultError \<and> tr_call_id r = tc_id call"
  by (auto simp: blocked_result_def error_result_def unavailable_result_def denied_result_def
      split: if_splits)

lemma error_counts:
  assumes "tr_status result \<noteq> ResultSuccess"
  shows "pg_consecutive_errors (observe_result codec call result g)
     = sat_add (pg_consecutive_errors g) 1"
  using assms
  by (simp add: observe_result_def note_failure_def note_denied_def note_unavailable_def
      count_rejection_def Let_def split: option.splits)

lemma stopped_stays: "pg_stopped g \<Longrightarrow> pg_stopped (observe_result codec call result g)"
  by (simp add: observe_result_def note_failure_def note_denied_def note_unavailable_def
      count_rejection_def Let_def split: option.splits)

lemma stopped_blocks: "pg_stopped g \<Longrightarrow> blocked_result codec g call \<noteq> None"
  by (simp add: blocked_result_def)

text \<open>One call of a batch, by the parts of the result.\<close>

lemma run_batch_Cons:
  fixes codec exec g call
  defines "g1 \<equiv> observe_result codec call (batch_result codec exec g call) g"
  shows "fst (run_batch codec exec (call # calls) g) = fst (run_batch codec exec calls g1)"
    and "fst (snd (run_batch codec exec (call # calls) g))
      = (if blocked_result codec g call = None then [call] else [])
        @ fst (snd (run_batch codec exec calls g1))"
    and "snd (snd (run_batch codec exec (call # calls) g))
      = tool_result_message (batch_result codec exec g call) # snd (snd (run_batch codec exec calls g1))"
  by (simp_all add: g1_def Let_def split: prod.splits)

declare run_batch.simps(2) [simp del]

lemma batch_result_id:
  "(\<And>c. tr_call_id (exec c) = tc_id c) \<Longrightarrow> tr_call_id (batch_result codec exec g call) = tc_id call"
  using blocked_not_success [of codec g call] by (auto simp: batch_result_def split: option.splits)

lemma stopped_batch: "pg_stopped g \<Longrightarrow> fst (snd (run_batch codec exec calls g)) = []"
  using stopped_blocks stopped_stays
  by (induction calls arbitrary: g) (simp_all add: run_batch_Cons)

text \<open>
  C17: Failing calls stop. Whatever the calls are and whatever the guard has seen before, a batch
  in which every executed call fails executes at most as many calls as are left to the limit of
  six consecutive errors; once the guard has stopped it executes none.
\<close>

theorem failing_batch_is_cut:
  assumes "guard_bounded g" and "\<forall>c. tr_status (exec c) = ResultError"
  shows "length (fst (snd (run_batch codec exec calls g))) \<le> 6 - unat (pg_consecutive_errors g)"
  using assms(1)
proof (induction calls arbitrary: g)
  case (Cons call calls)
  define g1 where "g1 = observe_result codec call (batch_result codec exec g call) g"
  have err: "tr_status (batch_result codec exec g call) \<noteq> ResultSuccess"
    using assms(2) blocked_not_success [of codec g call] by (auto simp: batch_result_def split: option.splits)
  have bound: "guard_bounded g1" unfolding g1_def using Cons.prems by (rule observe_bounded)
  have "pg_consecutive_errors g1 = sat_add (pg_consecutive_errors g) 1"
    unfolding g1_def using err by (rule error_counts)
  then have count: "unat (pg_consecutive_errors g1) = min (2 ^ 64 - 1) (unat (pg_consecutive_errors g) + 1)"
    by (simp add: sat_simps)
  show ?case
  proof (cases "pg_stopped g")
    case True
    then show ?thesis by (simp only: stopped_batch) simp
  next
    case False
    then have "unat (pg_consecutive_errors g) < 6"
      using Cons.prems by (simp add: guard_bounded_def CONSECUTIVE_ERROR_LIMIT_def)
    then have "Suc (length (fst (snd (run_batch codec exec calls g1)))) \<le> 6 - unat (pg_consecutive_errors g)"
      using Cons.IH [OF bound] count by simp
    then show ?thesis by (simp add: run_batch_Cons g1_def [symmetric])
  qed
qed simp

definition sample_progress :: progress_codec where
  "sample_progress = \<lparr>pc_fingerprint = tc_name, pc_hash = (\<lambda>n. n)\<rparr>"

theorem failing_batch_is_cut_witness:
  "length (fst (snd (run_batch sample_progress (\<lambda>c. error_result (tc_id c) [])
     (replicate 9 \<lparr>tc_id = [49], tc_name = [97], tc_arguments = JObject []\<rparr>) default_guard))) \<le> 6"
proof -
  have "guard_bounded default_guard"
    by (simp add: guard_bounded_def default_guard_def CONSECUTIVE_ERROR_LIMIT_def)
  then show ?thesis
    using failing_batch_is_cut [of default_guard "\<lambda>c. error_result (tc_id c) []" sample_progress
      "replicate 9 \<lparr>tc_id = [49], tc_name = [97], tc_arguments = JObject []\<rparr>"]
    by (simp add: default_guard_def error_result_def)
qed

section \<open>Denied calls\<close>

lemma observe_denied:
  "pg_denied (observe_result codec call result g) = pg_denied g
   \<or> (\<exists>x. pg_denied (observe_result codec call result g) = push_window x (pg_denied g))"
  by (auto simp: observe_result_def note_failure_def note_denied_def note_unavailable_def
      count_rejection_def Let_def split: option.splits)

text \<open>An entry among the newest \<open>k\<close> is among the newest \<open>k + 1\<close> after another one is pushed.\<close>

lemma window_keeps:
  assumes "x \<in> set (take k (rev w))" and "k < WINDOW"
  shows "x \<in> set (take (Suc k) (rev (push_window y w)))"
proof -
  have "take k (rev (tl w)) = take k (rev w)" if "length w = WINDOW"
    using that assms(2) take_butlast [of k "rev w"] by (simp add: butlast_rev)
  then show ?thesis using assms(1) by (auto simp: push_window_def)
qed

lemma denied_kept:
  assumes "x \<in> set (take k (rev (pg_denied g)))" and "k + length pairs \<le> WINDOW"
  shows "x \<in> set (pg_denied (foldl (\<lambda>g (call, result). observe_result codec call result g) g pairs))"
  using assms
proof (induction pairs arbitrary: g k)
  case Nil
  then show ?case using set_take_subset [of k "rev (pg_denied g)"] by auto
next
  case (Cons p pairs)
  obtain call result where p: "p = (call, result)" by (cases p) auto
  let ?g = "observe_result codec call result g"
  have "k < WINDOW" using Cons.prems(2) by simp
  have "x \<in> set (take (Suc k) (rev (pg_denied g)))"
    using Cons.prems(1) set_take_subset_set_take [of k "Suc k" "rev (pg_denied g)"] by auto
  then have "x \<in> set (take (Suc k) (rev (pg_denied ?g)))"
    using observe_denied [of codec call result g] window_keeps [OF Cons.prems(1) \<open>k < WINDOW\<close>]
    by auto
  then show ?case using Cons.IH [of "Suc k" ?g] Cons.prems(2) p by simp
qed

lemma denial_remembered:
  assumes "tr_status result = ResultError" and "tr_failure result = Some PermissionDenied"
    and "pc_fingerprint codec call \<notin> set (pg_denied g)"
  shows "pg_denied (observe_result codec call result g)
     = push_window (pc_fingerprint codec call) (pg_denied g)"
  using assms
  by (simp add: observe_result_def note_failure_def note_denied_def note_unavailable_def
      count_rejection_def Let_def is_memory_rejection_def)

text \<open>
  A denied request is not asked again. After a call was denied, the same request, whatever
  its identifier, is answered without execution for at least the next thirty-one observed
  results of the turn, whatever they are.
\<close>

theorem denied_request_stays_blocked:
  assumes "tr_status result = ResultError" and "tr_failure result = Some PermissionDenied"
    and "pc_fingerprint codec call \<notin> set (pg_denied g)"
    and "pc_fingerprint codec again = pc_fingerprint codec call" and "length pairs \<le> 31"
  shows "blocked_result codec (foldl (\<lambda>g (c, r). observe_result codec c r g)
     (observe_result codec call result g) pairs) again \<noteq> None"
proof -
  have "pc_fingerprint codec call \<in> set (pg_denied (foldl (\<lambda>g (c, r). observe_result codec c r g)
      (observe_result codec call result g) pairs))"
    by (rule denied_kept [of _ 1])
      (use assms denial_remembered [OF assms(1-3)] in \<open>simp_all add: push_window_def WINDOW_def\<close>)
  then show ?thesis using assms(4) by (simp add: blocked_result_def)
qed

definition sample_call :: "rust_string \<Rightarrow> tool_call" where
  "sample_call n = \<lparr>tc_id = n, tc_name = [97], tc_arguments = JObject []\<rparr>"

theorem denied_request_stays_blocked_witness:
  "blocked_result sample_progress (observe_result sample_progress (sample_call [49])
     (denied_result [49] []) default_guard) (sample_call [50]) \<noteq> None"
  using denied_request_stays_blocked [of "denied_result [49] []" sample_progress "sample_call [49]"
      default_guard "sample_call [50]" "[]"]
  by (simp add: denied_result_def error_result_def default_guard_def sample_progress_def
      sample_call_def)

section \<open>Rebuilding the guard\<close>

text \<open>Rounds of one turn: each assistant message with the batch of its calls.\<close>

definition message_calls :: "message \<Rightarrow> tool_call list" where
  "message_calls m =
     List.map_filter (\<lambda>b. case b of ToolCallBlock c \<Rightarrow> Some c | _ \<Rightarrow> None) (msg_content m)"

fun run_rounds ::
  "progress_codec \<Rightarrow> (tool_call \<Rightarrow> tool_result) \<Rightarrow> message list \<Rightarrow> progress_guard
    \<Rightarrow> progress_guard \<times> message list" where
  "run_rounds codec exec [] g = (g, [])"
| "run_rounds codec exec (assistant # rounds) g =
     (let (g1, executed, appended) = run_batch codec exec (message_calls assistant) g;
          (g2, rest) = run_rounds codec exec rounds g1
      in (g2, assistant # appended @ rest))"

lemma call_of_found:
  assumes "c \<in> set (message_calls m)" and "distinct (map tc_id (message_calls m))"
  shows "call_of (msg_content m) (tc_id c) = Some c"
proof -
  have "call_of bs (tc_id c) = Some c"
    if "c \<in> set (List.map_filter (\<lambda>b. case b of ToolCallBlock c \<Rightarrow> Some c | _ \<Rightarrow> None) bs)"
      and "distinct (map tc_id (List.map_filter (\<lambda>b. case b of ToolCallBlock c \<Rightarrow> Some c | _ \<Rightarrow> None) bs))"
    for bs
    using that
  proof (induction bs)
    case (Cons b bs)
    then show ?case
      by (cases b) (auto simp: call_of_def List.map_filter_simps image_iff split: list.splits)
  qed (simp add: List.map_filter_simps)
  then show ?thesis using assms by (simp add: message_calls_def)
qed

lemma replay_batch:
  assumes "\<And>c. tr_call_id (exec c) = tc_id c"
    and "\<And>c. c \<in> set calls \<Longrightarrow> call_of content (tc_id c) = Some c"
  shows "foldl (replay_message codec) (g, content) (snd (snd (run_batch codec exec calls g)))
     = (fst (run_batch codec exec calls g), content)"
  using assms(2)
proof (induction calls arbitrary: g)
  case (Cons call calls)
  have "tr_call_id (batch_result codec exec g call) = tc_id call"
    using assms(1) by (rule batch_result_id)
  then have "replay_message codec (g, content) (tool_result_message (batch_result codec exec g call))
      = (observe_result codec call (batch_result codec exec g call) g, content)"
    using Cons.prems [of call] by (simp add: replay_message_def tool_result_message_def observe_block_def)
  then show ?case using Cons by (simp add: run_batch_Cons)
qed simp

lemma run_rounds_Cons:
  fixes codec exec g m
  defines "g1 \<equiv> fst (run_batch codec exec (message_calls m) g)"
  shows "fst (run_rounds codec exec (m # rounds) g) = fst (run_rounds codec exec rounds g1)"
    and "snd (run_rounds codec exec (m # rounds) g)
      = m # snd (snd (run_batch codec exec (message_calls m) g)) @ snd (run_rounds codec exec rounds g1)"
  by (simp_all add: g1_def Let_def split: prod.splits)

declare run_rounds.simps(2) [simp del]

lemma replay_rounds:
  assumes "\<And>c. tr_call_id (exec c) = tc_id c"
    and "\<And>m. m \<in> set rounds \<Longrightarrow> msg_role m = AssistantRole \<and> distinct (map tc_id (message_calls m))"
  shows "fst (foldl (replay_message codec) (g, content) (snd (run_rounds codec exec rounds g)))
     = fst (run_rounds codec exec rounds g)"
  using assms(2)
proof (induction rounds arbitrary: g content)
  case (Cons m rounds)
  have "replay_message codec (g, content) m = (g, msg_content m)"
    using Cons.prems by (simp add: replay_message_def)
  moreover have "foldl (replay_message codec) (g, msg_content m)
      (snd (snd (run_batch codec exec (message_calls m) g)))
      = (fst (run_batch codec exec (message_calls m) g), msg_content m)"
    using replay_batch [of exec "message_calls m" "msg_content m" codec g] assms(1)
      call_of_found Cons.prems by simp
  ultimately show ?case using Cons by (simp add: run_rounds_Cons)
qed simp

lemma run_batch_roles:
  "list_all (\<lambda>m. msg_role m = ToolRole) (snd (snd (run_batch codec exec calls g)))"
  by (induction calls arbitrary: g) (simp_all add: run_batch_Cons tool_result_message_def)

lemma run_rounds_roles:
  assumes "\<And>m. m \<in> set rounds \<Longrightarrow> msg_role m = AssistantRole"
  shows "list_all (\<lambda>m. msg_role m \<noteq> UserRole) (snd (run_rounds codec exec rounds g))"
  using assms
proof (induction rounds arbitrary: g)
  case (Cons a rounds)
  have "list_all (\<lambda>m. msg_role m \<noteq> UserRole) (snd (snd (run_batch codec exec (message_calls a) g)))"
    using run_batch_roles [of codec exec "message_calls a" g] by (auto simp: list_all_iff)
  then show ?case using Cons by (simp add: run_rounds_Cons)
qed simp

lemma current_turn_after_user:
  assumes "msg_role user = UserRole" and "\<And>m. m \<in> set ms \<Longrightarrow> msg_role m \<noteq> UserRole"
  shows "current_turn (before @ user # ms) = ms"
proof -
  have "takeWhile (\<lambda>m. msg_role m \<noteq> UserRole) (rev ms @ user # rev before) = rev ms"
    using assms by (subst takeWhile_append2) simp_all
  then show ?thesis by (simp add: current_turn_def)
qed

text \<open>
  C16: Restarting within a turn loses nothing. If every result carries the identifier of its call
  and the calls of one message have distinct identifiers, the guard rebuilt from the committed
  history of the turn is the guard the live loop had, blocked and executed calls alike.
\<close>

theorem rebuilt_guard_is_the_live_guard:
  assumes "\<forall>c. tr_call_id (exec c) = tc_id c" and "msg_role user = UserRole"
    and "\<forall>m\<in>set rounds. msg_role m = AssistantRole \<and> distinct (map tc_id (message_calls m))"
  shows "from_history codec (before @ user # snd (run_rounds codec exec rounds default_guard))
     = fst (run_rounds codec exec rounds default_guard)"
proof -
  have "current_turn (before @ user # snd (run_rounds codec exec rounds default_guard))
      = snd (run_rounds codec exec rounds default_guard)"
    using assms(2,3) run_rounds_roles [of rounds codec exec default_guard]
    by (intro current_turn_after_user) (auto simp: list_all_iff)
  then show ?thesis
    using replay_rounds [of exec rounds codec default_guard "[]"] assms(1,3)
    by (simp add: from_history_def)
qed

theorem rebuilt_guard_is_the_live_guard_witness:
  "from_history sample_progress (text_message UserRole [104] #
       snd (run_rounds sample_progress (\<lambda>c. error_result (tc_id c) [])
         [\<lparr>msg_role = AssistantRole, msg_content = [ToolCallBlock (sample_call [49])]\<rparr>] default_guard))
     = fst (run_rounds sample_progress (\<lambda>c. error_result (tc_id c) [])
         [\<lparr>msg_role = AssistantRole, msg_content = [ToolCallBlock (sample_call [49])]\<rparr>] default_guard)"
  using rebuilt_guard_is_the_live_guard [of "\<lambda>c. error_result (tc_id c) []"
      "text_message UserRole [104]"
      "[\<lparr>msg_role = AssistantRole, msg_content = [ToolCallBlock (sample_call [49])]\<rparr>]"
      sample_progress "[]"]
  by (simp add: error_result_def text_message_def message_calls_def List.map_filter_simps)

end
