(* ===== verification/Orchestration_Plan.thy ===== *)
theory Orchestration_Plan
  imports Session_Properties "HOL-Library.List_Lexorder"
begin

text \<open>
  Orchestration plans, \<open>src/src/orchestration/plan.rs\<close>: their structural validation and the
  resolution of handle references, the admission of a plan's children in order
  (\<open>orchestration/supervisor/admission.rs\<close>), and the execution of its steps under the budget of
  its result (\<open>orchestration/supervisor/handle.rs\<close>). The JSON encoder, the hash, the preparation of
  a child and the supervisor's answers to await, collect and cancel are parameters; an index out
  of range is the error \<open>PlanPanic\<close>.
\<close>

section \<open>Plans\<close>

definition ORCHESTRATION_PLAN_VERSION :: nat where "ORCHESTRATION_PLAN_VERSION = 1"
definition MAX_PLAN_BYTES :: nat where "MAX_PLAN_BYTES = 256 * 1024"
definition MAX_PLAN_CHILDREN :: nat where "MAX_PLAN_CHILDREN = 64"
definition MAX_PLAN_RESULT_BYTES :: nat where "MAX_PLAN_RESULT_BYTES = 256 * 1024"
definition MAX_STEP_ID_BYTES :: nat where "MAX_STEP_ID_BYTES = 64"
definition MAX_TIMEOUT_MS :: nat where "MAX_TIMEOUT_MS = 10 * 60 * 1000"

record plan_handle_ref =
  hr_step :: rust_string
  hr_index :: nat

datatype collection_failure_policy = ContinueOnError | FailFast

datatype plan_step =
  SpawnStep rust_string "spawn_request list"
| AwaitStep rust_string plan_handle_ref "nat option" bool
| CollectStep rust_string "plan_handle_ref list" "nat option" collection_failure_policy bool bool
| CancelStep rust_string plan_handle_ref

fun step_id :: "plan_step \<Rightarrow> rust_string" where
  "step_id (SpawnStep i requests) = i"
| "step_id (AwaitStep i h timeout c) = i"
| "step_id (CollectStep i hs timeout policy r c) = i"
| "step_id (CancelStep i h) = i"

record orchestration_plan =
  opl_version :: nat
  opl_plan :: uuid
  opl_steps :: "plan_step list"

type_synonym handle_range = "nat \<times> nat"

record validated_plan =
  vp_plan :: orchestration_plan
  vp_fingerprint :: rust_string
  vp_spawn_requests :: "spawn_request list"
  vp_spawn_ranges :: "(rust_string, handle_range) btree"

record plan_codec =
  pl_json :: "orchestration_plan \<Rightarrow> u8 list"
  pl_blake3 :: "u8 list \<Rightarrow> rust_string"

datatype plan_error =
  PlanTooLarge nat | UnsupportedPlanVersion nat | EmptyPlan | TooManySteps nat
| InvalidStepId rust_string | DuplicateStepId rust_string | EmptySpawn rust_string
| TooManyChildren nat | InvalidTimeout rust_string nat | EmptyCollection rust_string
| DuplicateReference rust_string plan_handle_ref
| UnknownOrForwardReference rust_string plan_handle_ref

section \<open>Validation\<close>

type_synonym seen_steps = "(rust_string, handle_range option) btree"

definition step_id_char :: "nat \<Rightarrow> bool" where
  "step_id_char c =
     (48 \<le> c \<and> c \<le> 57 \<or> 65 \<le> c \<and> c \<le> 90 \<or> 97 \<le> c \<and> c \<le> 122 \<or> c = 95 \<or> c = 45)"

definition valid_step_id :: "rust_string \<Rightarrow> bool" where
  "valid_step_id i = (\<not> (i = [] \<or> str_len i > MAX_STEP_ID_BYTES \<or> \<not> list_all step_id_char i))"

definition validate_timeout :: "rust_string \<Rightarrow> nat option \<Rightarrow> plan_error + unit" where
  "validate_timeout step timeout =
     (case timeout of
        Some t \<Rightarrow> ensure (1 \<le> t \<and> t \<le> MAX_TIMEOUT_MS) (InvalidTimeout step t)
      | None \<Rightarrow> Inr ())"

definition validate_reference :: "rust_string \<Rightarrow> seen_steps \<Rightarrow> plan_handle_ref \<Rightarrow> plan_error + unit" where
  "validate_reference step seen r =
     (case bt_get seen (hr_step r) of
        Some (Some (a, b)) \<Rightarrow> ensure (\<not> hr_index r \<ge> b - a) (UnknownOrForwardReference step r)
      | _ \<Rightarrow> Inl (UnknownOrForwardReference step r))"

fun validate_references ::
  "rust_string \<Rightarrow> seen_steps \<Rightarrow> plan_handle_ref set \<Rightarrow> plan_handle_ref list \<Rightarrow> plan_error + unit" where
  "validate_references step seen unique [] = Inr ()"
| "validate_references step seen unique (r # rs) =
     res_bind (validate_reference step seen r)
     (\<lambda>_. res_bind (ensure (r \<notin> unique) (DuplicateReference step r))
     (\<lambda>_. validate_references step seen (insert r unique) rs))"

text \<open>The state of the loop: the steps seen, the requests and the ranges of the spawn steps.\<close>

type_synonym plan_loop = "seen_steps \<times> spawn_request list \<times> (rust_string, handle_range) btree"

definition check_plan_step :: "plan_step \<Rightarrow> plan_loop \<Rightarrow> plan_error + plan_loop" where
  "check_plan_step step s =
     (case s of (seen, requests, ranges) \<Rightarrow>
        let i = step_id step; marked = bt_insert i None seen in
        res_bind (ensure (valid_step_id i) (InvalidStepId i))
        (\<lambda>_. res_bind (ensure (\<not> bt_contains seen i) (DuplicateStepId i))
        (\<lambda>_. case step of
               SpawnStep _ new \<Rightarrow>
                 res_bind (ensure (new \<noteq> []) (EmptySpawn i))
                 (\<lambda>_. let total = length requests + length new;
                          range = (length requests, total)
                   in res_bind (ensure (\<not> total > MAX_PLAN_CHILDREN) (TooManyChildren total))
                   (\<lambda>_. Inr (bt_insert i (Some range) seen, requests @ new,
                      bt_insert i range ranges)))
             | AwaitStep _ h timeout _ \<Rightarrow>
                 res_bind (validate_timeout i timeout)
                 (\<lambda>_. res_bind (validate_reference i seen h)
                 (\<lambda>_. Inr (marked, requests, ranges)))
             | CollectStep _ hs timeout _ _ _ \<Rightarrow>
                 res_bind (validate_timeout i timeout)
                 (\<lambda>_. res_bind (ensure (hs \<noteq> []) (EmptyCollection i))
                 (\<lambda>_. res_bind (validate_references i seen {} hs)
                 (\<lambda>_. Inr (marked, requests, ranges))))
             | CancelStep _ h \<Rightarrow>
                 res_bind (validate_reference i seen h)
                 (\<lambda>_. Inr (marked, requests, ranges)))))"

fun validate_steps :: "plan_step list \<Rightarrow> plan_loop \<Rightarrow> plan_error + plan_loop" where
  "validate_steps [] s = Inr s"
| "validate_steps (step # steps) s =
     res_bind (check_plan_step step s) (\<lambda>s'. validate_steps steps s')"

definition validate_plan_structure ::
  "plan_codec \<Rightarrow> orchestration_plan \<Rightarrow> plan_error + validated_plan" where
  "validate_plan_structure codec p =
     (let encoded = pl_json codec p in
      res_bind (ensure (\<not> length encoded > MAX_PLAN_BYTES) (PlanTooLarge (length encoded)))
     (\<lambda>_. res_bind (ensure (opl_version p = ORCHESTRATION_PLAN_VERSION)
         (UnsupportedPlanVersion (opl_version p)))
     (\<lambda>_. res_bind (ensure (opl_steps p \<noteq> []) EmptyPlan)
     (\<lambda>_. res_bind (ensure (\<not> length (opl_steps p) > MAX_PLAN_STEPS) (TooManySteps (length (opl_steps p))))
     (\<lambda>_. res_bind (validate_steps (opl_steps p) ([], [], []))
     (\<lambda>(seen, requests, ranges).
        Inr \<lparr>vp_plan = p, vp_fingerprint = pl_blake3 codec encoded, vp_spawn_requests = requests,
             vp_spawn_ranges = ranges\<rparr>))))))"

section \<open>Admission and resolution\<close>

text \<open>
  The candidates of a plan, in the order of its spawn requests, each attributed to its step and
  its place in it. \<open>prepare n r\<close> is the preparation of the \<open>n\<close>-th request.
\<close>

fun prepare_step ::
  "(nat \<Rightarrow> spawn_request \<Rightarrow> 'e + child_admission) \<Rightarrow> uuid \<Rightarrow> rust_string \<Rightarrow> nat \<Rightarrow> nat
    \<Rightarrow> spawn_request list \<Rightarrow> 'e + child_admission list" where
  "prepare_step prepare plan step n i [] = Inr []"
| "prepare_step prepare plan step n i (r # rs) =
     res_bind (prepare n r)
     (\<lambda>a. res_bind (prepare_step prepare plan step (Suc n) (Suc i) rs)
     (\<lambda>as. Inr (a\<lparr>cm_plan := Some \<lparr>pc_plan = plan, pc_step = step, pc_output_index = i\<rparr>\<rparr> # as)))"

fun plan_candidates ::
  "(nat \<Rightarrow> spawn_request \<Rightarrow> 'e + child_admission) \<Rightarrow> uuid \<Rightarrow> nat \<Rightarrow> plan_step list
    \<Rightarrow> 'e + child_admission list" where
  "plan_candidates prepare plan n [] = Inr []"
| "plan_candidates prepare plan n (SpawnStep i requests # steps) =
     res_bind (prepare_step prepare plan i n 0 requests)
     (\<lambda>as. res_bind (plan_candidates prepare plan (n + length requests) steps)
     (\<lambda>bs. Inr (as @ bs)))"
| "plan_candidates prepare plan n (step # steps) = plan_candidates prepare plan n steps"

definition admitted_handles :: "child_admission list \<Rightarrow> agent_handle list" where
  "admitted_handles as = map (\<lambda>a. apply_lifecycle ChildQueued (admitted_handle a)) as"

definition plan_start_record :: "validated_plan \<Rightarrow> uuid \<Rightarrow> orchestration_plan_start" where
  "plan_start_record v operation =
     \<lparr>ps_plan = opl_plan (vp_plan v), ps_operation = operation, ps_fingerprint = vp_fingerprint v,
      ps_step_ids = map step_id (opl_steps (vp_plan v))\<rparr>"

text \<open>Indexing a map or a list out of range panics: \<open>None\<close>.\<close>

definition resolve_handle ::
  "(rust_string, handle_range) btree \<Rightarrow> agent_handle list \<Rightarrow> plan_handle_ref \<Rightarrow> uuid option" where
  "resolve_handle ranges handles r =
     (case bt_get ranges (hr_step r) of
        None \<Rightarrow> None
      | Some (a, b) \<Rightarrow>
          if a + hr_index r < length handles
          then Some (ca_agent (cm_attribution (hs_admission (handles ! (a + hr_index r)))))
          else None)"

section \<open>Execution\<close>

datatype supervisor_request =
  AwaitAgent uuid "nat option" bool
| CollectAgents "uuid list" "nat option" collection_failure_policy bool bool
| CancelAgent uuid

datatype 'o step_result =
  SpawnResult rust_string "agent_handle list" | AwaitResult rust_string 'o
| CollectResult rust_string 'o | CancelResult rust_string 'o

datatype 'e plan_execution_error = Supervisor 'e | ResultOverflow | ResultTooLarge nat | PlanPanic

record result_budget =
  rb_empty_result_bytes :: nat
  rb_retained_step_bytes :: nat
  rb_retained_steps :: nat

definition charge_result :: "nat \<Rightarrow> result_budget \<Rightarrow> 'e plan_execution_error + result_budget" where
  "charge_result step_bytes b =
     (let retained = rb_retained_step_bytes b + (if rb_retained_steps b > 0 then 1 else 0) + step_bytes;
          total = rb_empty_result_bytes b + retained
      in res_bind (ensure (retained < 2 ^ 64 \<and> total < 2 ^ 64) ResultOverflow)
         (\<lambda>_. res_bind (ensure (\<not> total > MAX_PLAN_RESULT_BYTES) (ResultTooLarge total))
         (\<lambda>_. Inr (b\<lparr>rb_retained_step_bytes := retained, rb_retained_steps := rb_retained_steps b + 1\<rparr>))))"

definition retained_bytes :: "result_budget \<Rightarrow> nat" where
  "retained_bytes b = rb_empty_result_bytes b + rb_retained_step_bytes b"

fun resolve_all ::
  "(rust_string, handle_range) btree \<Rightarrow> agent_handle list \<Rightarrow> plan_handle_ref list \<Rightarrow> uuid list option" where
  "resolve_all ranges handles [] = Some []"
| "resolve_all ranges handles (r # rs) =
     Option.bind (resolve_handle ranges handles r)
       (\<lambda>a. Option.bind (resolve_all ranges handles rs) (\<lambda>as. Some (a # as)))"

text \<open>The request a step makes of the supervisor, or the handles of a spawn step.\<close>

definition step_request ::
  "validated_plan \<Rightarrow> agent_handle list \<Rightarrow> plan_step \<Rightarrow> (agent_handle list + supervisor_request) option"
where
  "step_request v handles step =
     (case step of
        SpawnStep i _ \<Rightarrow>
          (case bt_get (vp_spawn_ranges v) i of
             Some (a, b) \<Rightarrow>
               if a \<le> b \<and> b \<le> length handles then Some (Inl (take (b - a) (drop a handles))) else None
           | None \<Rightarrow> None)
      | AwaitStep _ h timeout cancel \<Rightarrow>
          map_option (\<lambda>a. Inr (AwaitAgent a timeout cancel)) (resolve_handle (vp_spawn_ranges v) handles h)
      | CollectStep _ hs timeout policy remaining cancel \<Rightarrow>
          map_option (\<lambda>as. Inr (CollectAgents as timeout policy remaining cancel))
            (resolve_all (vp_spawn_ranges v) handles hs)
      | CancelStep _ h \<Rightarrow>
          map_option (\<lambda>a. Inr (CancelAgent a)) (resolve_handle (vp_spawn_ranges v) handles h))"

definition step_outcome :: "plan_step \<Rightarrow> 'o \<Rightarrow> 'o step_result" where
  "step_outcome step out =
     (case step of
        CollectStep i _ _ _ _ _ \<Rightarrow> CollectResult i out
      | CancelStep i _ \<Rightarrow> CancelResult i out
      | _ \<Rightarrow> AwaitResult (step_id step) out)"

text \<open>
  The loop over the steps. \<open>ask\<close> is the supervisor, \<open>bytes_of\<close> the encoded length of a step result;
  an error ends the loop and keeps what the supervisor has done.
\<close>

fun execute_steps ::
  "(supervisor_request \<Rightarrow> ('s, 'e plan_execution_error, 'o) effect) \<Rightarrow> ('o step_result \<Rightarrow> nat) \<Rightarrow> validated_plan
    \<Rightarrow> agent_handle list \<Rightarrow> plan_step list \<Rightarrow> result_budget
    \<Rightarrow> ('s, 'e plan_execution_error, 'o step_result list \<times> result_budget) effect" where
  "execute_steps ask bytes_of v handles [] b = eff_return ([], b)"
| "execute_steps ask bytes_of v handles (step # steps) b =
     eff_bind
       (case step_request v handles step of
          None \<Rightarrow> eff_fail PlanPanic
        | Some (Inl spawned) \<Rightarrow> eff_return (SpawnResult (step_id step) spawned)
        | Some (Inr wanted) \<Rightarrow> eff_bind (ask wanted) (\<lambda>out. eff_return (step_outcome step out)))
       (\<lambda>result. case charge_result (bytes_of result) b of
          Inl e \<Rightarrow> eff_fail e
        | Inr b' \<Rightarrow>
            eff_bind (execute_steps ask bytes_of v handles steps b')
              (\<lambda>(results, b''). eff_return (result # results, b'')))"

section \<open>The declarative form of a valid plan\<close>

fun step_requests :: "plan_step \<Rightarrow> spawn_request list" where
  "step_requests (SpawnStep i requests) = requests"
| "step_requests _ = []"

definition all_requests :: "plan_step list \<Rightarrow> spawn_request list" where
  "all_requests steps = concat (map step_requests steps)"

definition timeout_ok :: "nat option \<Rightarrow> bool" where
  "timeout_ok t = (case t of Some n \<Rightarrow> 1 \<le> n \<and> n \<le> MAX_TIMEOUT_MS | None \<Rightarrow> True)"

text \<open>A reference is good after the steps \<open>before\<close> when an earlier spawn step has that output.\<close>

definition reference_ok :: "plan_step list \<Rightarrow> plan_handle_ref \<Rightarrow> bool" where
  "reference_ok before r =
     list_ex (\<lambda>s. case s of SpawnStep i requests \<Rightarrow> i = hr_step r \<and> hr_index r < length requests
        | _ \<Rightarrow> False) before"

definition step_ok :: "plan_step list \<Rightarrow> plan_step \<Rightarrow> bool" where
  "step_ok before step =
     (valid_step_id (step_id step) \<and> step_id step \<notin> set (map step_id before)
      \<and> (case step of
           SpawnStep _ requests \<Rightarrow>
             requests \<noteq> [] \<and> length (all_requests before) + length requests \<le> MAX_PLAN_CHILDREN
         | AwaitStep _ h timeout _ \<Rightarrow> timeout_ok timeout \<and> reference_ok before h
         | CollectStep _ hs timeout _ _ _ \<Rightarrow>
             timeout_ok timeout \<and> hs \<noteq> [] \<and> distinct hs \<and> list_all (reference_ok before) hs
         | CancelStep _ h \<Rightarrow> reference_ok before h))"

fun steps_ok :: "plan_step list \<Rightarrow> plan_step list \<Rightarrow> bool" where
  "steps_ok before [] = True"
| "steps_ok before (step # steps) = (step_ok before step \<and> steps_ok (before @ [step]) steps)"

text \<open>The range each step gets when \<open>n\<close> requests precede it.\<close>

fun step_ranges :: "nat \<Rightarrow> plan_step list \<Rightarrow> (rust_string \<times> handle_range option) list" where
  "step_ranges n [] = []"
| "step_ranges n (step # steps) =
     (step_id step, case step of SpawnStep _ rs \<Rightarrow> Some (n, n + length rs) | _ \<Rightarrow> None)
     # step_ranges (n + length (step_requests step)) steps"

definition loop_matches :: "plan_step list \<Rightarrow> plan_loop \<Rightarrow> bool" where
  "loop_matches before s =
     (case s of (seen, requests, ranges) \<Rightarrow>
        requests = all_requests before
        \<and> (\<forall>i. bt_get seen i = map_of (step_ranges 0 before) i)
        \<and> (\<forall>i. bt_get ranges i = Option.bind (map_of (step_ranges 0 before) i) (\<lambda>x. x)))"

lemma keys_step_ranges [simp]: "map fst (step_ranges n steps) = map step_id steps"
  by (induction steps arbitrary: n) auto

lemma unknown_step: "map_of (step_ranges n steps) i = None \<longleftrightarrow> i \<notin> set (map step_id steps)"
  by (metis keys_step_ranges map_of_eq_None_iff set_map)

lemma reference_ok_spawn:
  "reference_ok before r \<longleftrightarrow>
     (\<exists>rs. SpawnStep (hr_step r) rs \<in> set before \<and> hr_index r < length rs)"
proof (induction before)
  case (Cons step before)
  then show ?case by (cases step) (auto simp: reference_ok_def)
qed (simp add: reference_ok_def)

lemma step_ranges_append:
  "step_ranges n (as @ bs) = step_ranges n as @ step_ranges (n + length (all_requests as)) bs"
  by (induction as arbitrary: n) (auto simp: all_requests_def add.assoc)

lemma step_ranges_spawn:
  "map_of (step_ranges n steps) i = Some (Some (a, b)) \<Longrightarrow>
     \<exists>rs. SpawnStep i rs \<in> set steps \<and> b = a + length rs \<and> n \<le> a \<and> b \<le> n + length (all_requests steps)"
proof (induction steps arbitrary: n)
  case (Cons step steps)
  show ?case
  proof (cases "step_id step = i")
    case True
    then show ?thesis using Cons.prems by (cases step) (auto simp: all_requests_def)
  next
    case False
    then have "map_of (step_ranges (n + length (step_requests step)) steps) i = Some (Some (a, b))"
      using Cons.prems by simp
    from Cons.IH [OF this] show ?thesis by (fastforce simp: all_requests_def)
  qed
qed simp

lemma spawn_step_ranges:
  assumes "SpawnStep i rs \<in> set steps" and "distinct (map step_id steps)"
  shows "\<exists>a. map_of (step_ranges n steps) i = Some (Some (a, a + length rs))"
  using assms
proof (induction steps arbitrary: n)
  case (Cons step steps)
  show ?case
  proof (cases "step_id step = i")
    case True
    then have "step = SpawnStep i rs" using Cons.prems by (force simp: image_iff)
    then show ?thesis by simp
  next
    case False
    then have "SpawnStep i rs \<in> set steps" using Cons.prems(1) by auto
    then show ?thesis using Cons.IH [of "n + length (step_requests step)"] Cons.prems(2) False by simp
  qed
qed simp

lemma reference_ok_iff:
  assumes "distinct (map step_id before)" and "loop_matches before (seen, requests, ranges)"
  shows "validate_reference step seen r = Inr u \<longleftrightarrow> reference_ok before r"
proof
  assume "validate_reference step seen r = Inr u"
  then obtain a b where "map_of (step_ranges 0 before) (hr_step r) = Some (Some (a, b))"
    and i: "hr_index r < b - a"
    using assms(2) by (auto simp: validate_reference_def loop_matches_def res_simps split: option.splits)
  from step_ranges_spawn [OF this(1)] obtain rs where "SpawnStep (hr_step r) rs \<in> set before"
    and "b = a + length rs" by blast
  then show "reference_ok before r" using i by (auto simp: reference_ok_spawn)
next
  assume "reference_ok before r"
  then obtain rs where "SpawnStep (hr_step r) rs \<in> set before" and i: "hr_index r < length rs"
    by (auto simp: reference_ok_spawn)
  from spawn_step_ranges [OF this(1) assms(1)] obtain a
    where "map_of (step_ranges 0 before) (hr_step r) = Some (Some (a, a + length rs))" by blast
  then show "validate_reference step seen r = Inr u"
    using assms(2) i by (simp add: validate_reference_def loop_matches_def ensure_def)
qed

lemma references_ok_iff:
  assumes "distinct (map step_id before)" and "loop_matches before (seen, requests, ranges)"
  shows "validate_references step seen unique rs = Inr u \<longleftrightarrow>
     list_all (reference_ok before) rs \<and> distinct rs \<and> set rs \<inter> unique = {}"
  using reference_ok_iff [OF assms]
  by (induction rs arbitrary: unique) (auto simp: res_simps)

lemma timeout_ok_iff: "validate_timeout step t = Inr u \<longleftrightarrow> timeout_ok t"
  by (auto simp: validate_timeout_def timeout_ok_def res_simps split: option.splits)

text \<open>One iteration: it succeeds exactly on a good step, and keeps the correspondence.\<close>

lemma check_plan_step_ok:
  assumes d: "distinct (map step_id before)" and m: "loop_matches before s"
  shows "(\<exists>s'. check_plan_step step s = Inr s') \<longleftrightarrow> step_ok before step"
    and "check_plan_step step s = Inr s' \<Longrightarrow> loop_matches (before @ [step]) s'"
proof -
  obtain seen requests ranges where s: "s = (seen, requests, ranges)" by (cases s) auto
  have known: "bt_contains seen i \<longleftrightarrow> i \<in> set (map step_id before)" for i
    using m unknown_step [of 0 before i] by (simp add: s bt_contains_def loop_matches_def)
  have reqs: "requests = all_requests before" using m by (simp add: s loop_matches_def)
  note iffs = reference_ok_iff [OF d m [unfolded s]] references_ok_iff [OF d m [unfolded s]] timeout_ok_iff
  show "(\<exists>s'. check_plan_step step s = Inr s') \<longleftrightarrow> step_ok before step"
    by (cases step) (auto simp: check_plan_step_def step_ok_def s Let_def res_simps known reqs iffs)
  assume ok: "check_plan_step step s = Inr s'"
  then have new: "step_id step \<notin> set (map step_id before)"
    by (auto simp: check_plan_step_def s Let_def res_simps known)
  then have fresh: "map_of (step_ranges 0 before) (step_id step) = None"
    by (simp only: unknown_step)  simp
  show "loop_matches (before @ [step]) s'"
    using ok m fresh
    by (cases step)
      (auto simp: check_plan_step_def s Let_def res_simps loop_matches_def step_ranges_append
        bt_get_insert all_requests_def map_add_def split: option.splits)
qed

lemma validate_steps_ok:
  assumes "distinct (map step_id before)" and "loop_matches before s"
  shows "((\<exists>s'. validate_steps steps s = Inr s') \<longleftrightarrow> steps_ok before steps)
     \<and> (\<forall>s'. validate_steps steps s = Inr s' \<longrightarrow>
          loop_matches (before @ steps) s' \<and> distinct (map step_id (before @ steps)))"
  using assms
proof (induction steps arbitrary: before s)
  case (Cons step steps)
  note one = check_plan_step_ok [OF Cons.prems, of step]
  show ?case
  proof (cases "check_plan_step step s")
    case (Inl e)
    then show ?thesis using one(1) by auto
  next
    case (Inr s1)
    then have "step_ok before step" using one(1) by blast
    moreover have "loop_matches (before @ [step]) s1" using one(2) Inr by blast
    moreover have "distinct (map step_id (before @ [step]))"
      using Cons.prems(1) \<open>step_ok before step\<close> by (simp add: step_ok_def)
    ultimately show ?thesis using Cons.IH [of "before @ [step]" s1] Inr by simp
  qed
next
  case Nil
  then show ?case by (cases s) auto
qed

lemma loop_matches_start: "loop_matches [] ([], [], [])"
  by (simp add: loop_matches_def all_requests_def)

lemma validated_facts:
  assumes "validate_plan_structure codec p = Inr v"
  shows "vp_plan v = p" and "vp_fingerprint v = pl_blake3 codec (pl_json codec p)"
    and "steps_ok [] (opl_steps p)" and "distinct (map step_id (opl_steps p))"
    and "bt_get (vp_spawn_ranges v) i = Option.bind (map_of (step_ranges 0 (opl_steps p)) i) (\<lambda>x. x)"
    and "vp_spawn_requests v = all_requests (opl_steps p)"
    and "opl_steps p \<noteq> []" and "length (opl_steps p) \<le> MAX_PLAN_STEPS"
proof -
  obtain seen requests ranges where steps: "validate_steps (opl_steps p) ([], [], []) = Inr (seen, requests, ranges)"
    and v: "v = \<lparr>vp_plan = p, vp_fingerprint = pl_blake3 codec (pl_json codec p),
      vp_spawn_requests = requests, vp_spawn_ranges = ranges\<rparr>"
    and "opl_steps p \<noteq> []" and "length (opl_steps p) \<le> MAX_PLAN_STEPS"
    using assms by (auto simp: validate_plan_structure_def Let_def res_simps not_less)
  then show "opl_steps p \<noteq> []" "length (opl_steps p) \<le> MAX_PLAN_STEPS" by simp_all
  have "steps_ok [] (opl_steps p)" "loop_matches (opl_steps p) (seen, requests, ranges)"
    "distinct (map step_id (opl_steps p))"
    using validate_steps_ok [OF _ loop_matches_start, of "opl_steps p"] steps by auto
  then show "vp_plan v = p" "vp_fingerprint v = pl_blake3 codec (pl_json codec p)"
    "steps_ok [] (opl_steps p)" "distinct (map step_id (opl_steps p))"
    "bt_get (vp_spawn_ranges v) i = Option.bind (map_of (step_ranges 0 (opl_steps p)) i) (\<lambda>x. x)"
    "vp_spawn_requests v = all_requests (opl_steps p)"
    by (simp_all add: v loop_matches_def)
qed

text \<open>
  C18: The loop that validates a plan accepts exactly the well-formed plans: encoded within the
  bound, of the supported version, with one to sixty-four steps of distinct valid identifiers,
  spawn steps that are not empty and hold at most sixty-four children together, timeouts in
  range, and references, distinct within a collection, only to outputs of earlier spawn steps.
\<close>

theorem plan_validation_is_exact:
  "is_ok (validate_plan_structure codec p) \<longleftrightarrow>
     length (pl_json codec p) \<le> MAX_PLAN_BYTES \<and> opl_version p = ORCHESTRATION_PLAN_VERSION
     \<and> opl_steps p \<noteq> [] \<and> length (opl_steps p) \<le> MAX_PLAN_STEPS \<and> steps_ok [] (opl_steps p)"
proof -
  have "is_ok (validate_plan_structure codec p) \<longleftrightarrow>
     length (pl_json codec p) \<le> MAX_PLAN_BYTES \<and> opl_version p = ORCHESTRATION_PLAN_VERSION
     \<and> opl_steps p \<noteq> [] \<and> length (opl_steps p) \<le> MAX_PLAN_STEPS
     \<and> (\<exists>s'. validate_steps (opl_steps p) ([], [], []) = Inr s')"
    by (cases "validate_steps (opl_steps p) ([], [], [])")
      (auto simp: validate_plan_structure_def Let_def ensure_def not_less split: prod.splits)
  then show ?thesis
    using validate_steps_ok [OF _ loop_matches_start, of "opl_steps p"] by simp
qed

section \<open>References reach their child\<close>

fun step_references :: "plan_step \<Rightarrow> plan_handle_ref list" where
  "step_references (SpawnStep i requests) = []"
| "step_references (AwaitStep i h timeout c) = [h]"
| "step_references (CollectStep i hs timeout policy r c) = hs"
| "step_references (CancelStep i h) = [h]"

lemma steps_ok_references:
  assumes "steps_ok before steps" and "step \<in> set steps" and "r \<in> set (step_references step)"
  shows "reference_ok (before @ steps) r"
  using assms
proof (induction steps arbitrary: before)
  case (Cons s steps)
  show ?case
  proof (cases "step = s")
    case True
    then have "reference_ok before r"
      using Cons.prems by (cases s) (auto simp: step_ok_def list_all_iff)
    then show ?thesis by (auto simp: reference_ok_def)
  next
    case False
    then show ?thesis using Cons.IH [of "before @ [s]"] Cons.prems by simp
  qed
qed simp

lemma prepare_step_facts:
  assumes "prepare_step prepare plan step n i rs = Inr as"
  shows "length as = length rs \<and> (\<forall>k<length rs. cm_plan (as ! k)
     = Some \<lparr>pc_plan = plan, pc_step = step, pc_output_index = i + k\<rparr>)"
  using assms
proof (induction rs arbitrary: n i as)
  case (Cons r rs)
  then obtain a bs where bs: "prepare_step prepare plan step (Suc n) (Suc i) rs = Inr bs"
    and as: "as = a\<lparr>cm_plan := Some \<lparr>pc_plan = plan, pc_step = step, pc_output_index = i\<rparr>\<rparr> # bs"
    by (auto simp: res_simps)
  show ?case using Cons.IH [OF bs] by (auto simp: as nth_Cons split: nat.splits)
qed simp

lemma plan_candidates_facts:
  assumes "plan_candidates prepare plan n steps = Inr as"
  shows "length as = length (all_requests steps)
     \<and> (\<forall>i a b k. map_of (step_ranges m steps) i = Some (Some (a, b)) \<and> k < b - a \<longrightarrow>
          m \<le> a \<and> cm_plan (as ! (a + k - m)) = Some \<lparr>pc_plan = plan, pc_step = i, pc_output_index = k\<rparr>)"
  using assms
proof (induction prepare plan n steps arbitrary: m as rule: plan_candidates.induct)
  case (2 prepare plan n i requests steps)
  obtain xs ys where xs: "prepare_step prepare plan i n 0 requests = Inr xs"
    and ys: "plan_candidates prepare plan (n + length requests) steps = Inr ys" and as: "as = xs @ ys"
    using "2.prems" by (auto simp: res_simps)
  note px = prepare_step_facts [OF xs] and py = "2.IH" [OF ys, of "m + length requests"]
  have "m \<le> a \<and> cm_plan (as ! (a + k - m)) = Some \<lparr>pc_plan = plan, pc_step = j, pc_output_index = k\<rparr>"
    if range: "map_of (step_ranges m (SpawnStep i requests # steps)) j = Some (Some (a, b))"
      and k: "k < b - a" for j a b k
  proof (cases "j = i")
    case True
    then have "a = m" and "k < length requests" using range k by auto
    then show ?thesis using px True by (simp add: as nth_append)
  next
    case False
    then have "map_of (step_ranges (m + length requests) steps) j = Some (Some (a, b))" using range by simp
    then have "m + length requests \<le> a" and "cm_plan (ys ! (a + k - (m + length requests)))
        = Some \<lparr>pc_plan = plan, pc_step = j, pc_output_index = k\<rparr>"
      using py k by blast+
    moreover from this(1) have "\<not> a + k - m < length xs"
      and "a + k - m - length xs = a + k - (m + length requests)" using px by simp_all
    ultimately show ?thesis by (simp add: as nth_append)
  qed
  moreover have "length as = length (all_requests (SpawnStep i requests # steps))"
    using px py by (simp add: as all_requests_def)
  ultimately show ?case by blast
qed (auto simp: all_requests_def split: if_splits)

text \<open>A reference of a validated plan, through the handles of the admitted children.\<close>

lemma resolve_validated:
  assumes v: "validate_plan_structure codec p = Inr v"
    and cand: "plan_candidates prepare (opl_plan p) 0 (opl_steps p) = Inr as"
    and r: "step \<in> set (opl_steps p)" "r \<in> set (step_references step)"
  obtains k where "k < length as"
    and "resolve_handle (vp_spawn_ranges v) (admitted_handles as) r
      = Some (ca_agent (cm_attribution (as ! k)))"
    and "cm_plan (as ! k) = Some \<lparr>pc_plan = opl_plan p, pc_step = hr_step r, pc_output_index = hr_index r\<rparr>"
proof -
  have "reference_ok (opl_steps p) r"
    using steps_ok_references [OF validated_facts(3) [OF v] r] by simp
  then obtain rs where "SpawnStep (hr_step r) rs \<in> set (opl_steps p)" and i: "hr_index r < length rs"
    by (auto simp: reference_ok_spawn)
  from spawn_step_ranges [OF this(1) validated_facts(4) [OF v], of 0] obtain a
    where range: "map_of (step_ranges 0 (opl_steps p)) (hr_step r) = Some (Some (a, a + length rs))" by blast
  have "hr_index r < a + length rs - a" using i by simp
  then have len: "length as = length (all_requests (opl_steps p))"
    and "cm_plan (as ! (a + hr_index r - 0))
      = Some \<lparr>pc_plan = opl_plan p, pc_step = hr_step r, pc_output_index = hr_index r\<rparr>"
    using plan_candidates_facts [OF cand, of 0] range by blast+
  then have plan: "cm_plan (as ! (a + hr_index r))
      = Some \<lparr>pc_plan = opl_plan p, pc_step = hr_step r, pc_output_index = hr_index r\<rparr>" by simp
  have k: "a + hr_index r < length as"
    using step_ranges_spawn [OF range] i len by auto
  then have "resolve_handle (vp_spawn_ranges v) (admitted_handles as) r
      = Some (ca_agent (cm_attribution (as ! (a + hr_index r))))"
    using validated_facts(5) [OF v] range
    by (simp add: resolve_handle_def admitted_handles_def apply_lifecycle_def admitted_handle_def)
  then show ?thesis using that k plan by blast
qed

text \<open>
  A reference reaches its child. In a validated plan whose children were admitted, every
  reference of every step resolves, without indexing out of range, to the agent of the child that
  was admitted for exactly that spawn step and that output.
\<close>

theorem references_reach_their_child:
  assumes "validate_plan_structure codec p = Inr v"
    and "plan_candidates prepare (opl_plan p) 0 (opl_steps p) = Inr as"
    and "step \<in> set (opl_steps p)" and "r \<in> set (step_references step)"
  shows "\<exists>a\<in>set as. resolve_handle (vp_spawn_ranges v) (admitted_handles as) r
       = Some (ca_agent (cm_attribution a))
     \<and> cm_plan a = Some \<lparr>pc_plan = opl_plan p, pc_step = hr_step r, pc_output_index = hr_index r\<rparr>"
  using resolve_validated [OF assms] by (metis nth_mem)

definition sample_spawn :: spawn_request where
  "sample_spawn =
     \<lparr>sw_route = None, sw_task = rstr ''t'', sw_result_schema = SchemaSummary,
      sw_restrictions = \<lparr>cs_completion = \<lparr>co_conditions = []\<rparr>, cs_permission_mode = None,
        cs_max_tool_rounds = None, cs_deadline_seconds = None, cs_max_context_tokens = None,
        cs_max_report_bytes = None, cs_max_artifact_bytes = None, cs_hard_token_limit = None,
        cs_hard_spend = None\<rparr>,
      sw_handoff = \<lparr>hf_previews = [], hf_artifacts = []\<rparr>\<rparr>"

definition sample_await :: plan_step where
  "sample_await = AwaitStep [98] \<lparr>hr_step = [97], hr_index = 0\<rparr> None False"

definition sample_plan :: orchestration_plan where
  "sample_plan =
     \<lparr>opl_version = 1, opl_plan = 7, opl_steps = [SpawnStep [97] [sample_spawn], sample_await]\<rparr>"

definition sample_plan_codec :: plan_codec where
  "sample_plan_codec = \<lparr>pl_json = (\<lambda>_. []), pl_blake3 = (\<lambda>_. [])\<rparr>"

definition sample_candidate :: child_admission where
  "sample_candidate = (hs_admission sample_handle)
     \<lparr>cm_plan := Some \<lparr>pc_plan = 7, pc_step = [97], pc_output_index = 0\<rparr>\<rparr>"

lemma sample_plan_validated: "\<exists>v. validate_plan_structure sample_plan_codec sample_plan = Inr v"
proof -
  have "is_ok (validate_plan_structure sample_plan_codec sample_plan)"
    by (simp add: validate_plan_structure_def sample_plan_def sample_plan_codec_def sample_await_def
        Let_def ensure_def check_plan_step_def valid_step_id_def step_id_char_def validate_timeout_def
        validate_reference_def bt_contains_def bt_get_def MAX_PLAN_BYTES_def
        ORCHESTRATION_PLAN_VERSION_def MAX_PLAN_STEPS_def MAX_STEP_ID_BYTES_def MAX_PLAN_CHILDREN_def
        str_len_def utf8_len_def)
  then show ?thesis by (auto elim: is_okE)
qed

lemma sample_plan_candidates:
  "plan_candidates (\<lambda>n r. Inr (hs_admission sample_handle)) (opl_plan sample_plan) 0
     (opl_steps sample_plan) = Inr [sample_candidate]"
  by (simp add: sample_plan_def sample_await_def sample_candidate_def)

theorem references_reach_their_child_witness:
  "\<exists>v. validate_plan_structure sample_plan_codec sample_plan = Inr v
     \<and> resolve_handle (vp_spawn_ranges v) (admitted_handles [sample_candidate])
         \<lparr>hr_step = [97], hr_index = 0\<rparr> = Some (ca_agent (cm_attribution sample_candidate))"
proof -
  obtain v where v: "validate_plan_structure sample_plan_codec sample_plan = Inr v"
    using sample_plan_validated by blast
  have "sample_await \<in> set (opl_steps sample_plan)"
    and "\<lparr>hr_step = [97], hr_index = 0\<rparr> \<in> set (step_references sample_await)"
    by (simp_all add: sample_plan_def sample_await_def)
  from references_reach_their_child [OF v sample_plan_candidates this] v show ?thesis by auto
qed

section \<open>Execution does not panic and stays bounded\<close>

lemma step_request_found:
  assumes v: "validate_plan_structure codec p = Inr v"
    and cand: "plan_candidates prepare (opl_plan p) 0 (opl_steps p) = Inr as"
    and step: "step \<in> set (opl_steps p)"
  shows "step_request v (admitted_handles as) step \<noteq> None"
proof -
  have one: "resolve_handle (vp_spawn_ranges v) (admitted_handles as) r \<noteq> None"
    if "r \<in> set (step_references step)" for r
    using resolve_validated [OF v cand step that] by (metis option.distinct(1))
  have all: "resolve_all (vp_spawn_ranges v) (admitted_handles as) rs \<noteq> None"
    if "set rs \<subseteq> set (step_references step)" for rs
    using that
  proof (induction rs)
    case (Cons r rs)
    then obtain x xs where "resolve_handle (vp_spawn_ranges v) (admitted_handles as) r = Some x"
      and "resolve_all (vp_spawn_ranges v) (admitted_handles as) rs = Some xs"
      using one [of r] by auto
    then show ?case by simp
  qed simp
  show ?thesis
  proof (cases step)
    case (SpawnStep i rs)
    from spawn_step_ranges [OF step [unfolded SpawnStep] validated_facts(4) [OF v], of 0] obtain a
      where range: "map_of (step_ranges 0 (opl_steps p)) i = Some (Some (a, a + length rs))" by blast
    have "a + length rs \<le> length as"
      using step_ranges_spawn [OF range] plan_candidates_facts [OF cand] by auto
    then show ?thesis
      using validated_facts(5) [OF v] range by (simp add: step_request_def SpawnStep admitted_handles_def)
  qed (use one all in \<open>auto simp: step_request_def\<close>)
qed

text \<open>Effects that do not fail with \<open>PlanPanic\<close>.\<close>

definition no_panic :: "('s, 'e plan_execution_error, 'a) effect \<Rightarrow> bool" where
  "no_panic m = (\<forall>s. snd (m s) \<noteq> Inl PlanPanic)"

lemma no_panic_simps [simp]: "no_panic (eff_return x)" "no_panic (eff_fail e) \<longleftrightarrow> e \<noteq> PlanPanic"
  by (simp_all add: no_panic_def)

lemma no_panic_bind: "no_panic m \<Longrightarrow> (\<And>x. no_panic (f x)) \<Longrightarrow> no_panic (eff_bind m f)"
  by (auto simp: no_panic_def eff_bind_def split: prod.splits sum.splits) (metis snd_conv)+

lemma charge_no_panic: "charge_result n b = Inl e \<Longrightarrow> e \<noteq> PlanPanic"
  by (auto simp: charge_result_def Let_def res_bind_def ensure_def split: if_splits)

lemma execute_steps_no_panic:
  assumes "\<And>step. step \<in> set steps \<Longrightarrow> step_request v handles step \<noteq> None"
    and "\<And>wanted. no_panic (ask wanted)"
  shows "no_panic (execute_steps ask bytes_of v handles steps b)"
  using assms(1)
proof (induction steps arbitrary: b)
  case (Cons step steps)
  obtain req where req: "step_request v handles step = Some req" using Cons.prems by fastforce
  have rest: "no_panic (case charge_result (bytes_of x) b of Inl e \<Rightarrow> eff_fail e
        | Inr b' \<Rightarrow> eff_bind (execute_steps ask bytes_of v handles steps b')
              (\<lambda>(results, b''). eff_return (x # results, b'')))" for x
    using Cons by (auto split: sum.split intro!: no_panic_bind dest: charge_no_panic)
  show ?case
    unfolding execute_steps.simps
  proof (rule no_panic_bind [OF _ rest])
    show "no_panic (case step_request v handles step of None \<Rightarrow> eff_fail PlanPanic
        | Some (Inl spawned) \<Rightarrow> eff_return (SpawnResult (step_id step) spawned)
        | Some (Inr wanted) \<Rightarrow> eff_bind (ask wanted) (\<lambda>out. eff_return (step_outcome step out)))"
      using assms(2) by (cases req) (simp_all add: req no_panic_bind)
  qed
qed simp

text \<open>
  Executing a validated plan never indexes out of range. Whatever the supervisor answers,
  unless it fails with that error itself, the execution of the steps over the handles of the
  admitted children does not panic.
\<close>

theorem plan_execution_never_panics:
  assumes v: "validate_plan_structure codec p = Inr v"
    and cand: "plan_candidates prepare (opl_plan p) 0 (opl_steps p) = Inr as"
    and ask: "\<forall>wanted s. snd (ask wanted s) \<noteq> Inl PlanPanic"
  shows "snd (execute_steps ask bytes_of v (admitted_handles as) (opl_steps p) b st) \<noteq> Inl PlanPanic"
proof -
  have "no_panic (execute_steps ask bytes_of v (admitted_handles as) (opl_steps p) b)"
    using ask step_request_found [OF v cand]
    by (intro execute_steps_no_panic) (auto simp: no_panic_def)
  then show ?thesis by (simp add: no_panic_def)
qed

theorem plan_execution_never_panics_witness:
  "\<exists>v. validate_plan_structure sample_plan_codec sample_plan = Inr v
     \<and> snd (execute_steps (\<lambda>wanted. eff_return (0 :: nat)) (\<lambda>_. 10) v (admitted_handles [sample_candidate])
           (opl_steps sample_plan) \<lparr>rb_empty_result_bytes = 90, rb_retained_step_bytes = 0,
             rb_retained_steps = 0\<rparr> (5 :: nat)) \<noteq> Inl (PlanPanic :: unit plan_execution_error)"
proof -
  obtain v where v: "validate_plan_structure sample_plan_codec sample_plan = Inr v"
    using sample_plan_validated by blast
  have "snd (execute_steps (\<lambda>wanted. eff_return (0 :: nat)) (\<lambda>_. 10) v
      (admitted_handles [sample_candidate]) (opl_steps sample_plan) b st)
      \<noteq> Inl (PlanPanic :: unit plan_execution_error)" for b and st :: nat
    by (rule plan_execution_never_panics [OF v sample_plan_candidates]) (simp add: eff_return_def)
  then show ?thesis using v by blast
qed

end
