(* ===== verification/Spec2Isabelle.thy ===== *)
theory Spec2Isabelle
  imports Controller_Leases Budget_Ledger Sse_Decoder Workbench_Layout Permission_Broker Usage_Ledger
    Session_Properties Evidence_Lifecycle Journal_Paging Operation_Recovery Autonomy_Runs Progress_Guard
    Orchestration_Plan
begin

text \<open>
  A verification development of xana, a local-first agent host written in Rust.

  \<^bold>\<open>The program.\<close> A Conversation is driven by an agent loop that calls model providers and tools.
  Clients attach to a Conversation and at most one of them controls it (controller leases). Every
  tool call asks the permission broker, a task that owns the permission policy, the session grants
  and the remembered denials and that may suspend the request until the controller decides. Data
  that leaves the machine passes the outbound guard as well, which knows the policy ceilings, the
  saved decisions and the audit journal. Requests to providers are admitted against a durable usage
  ledger, delegated work against an orchestration budget. Provider answers arrive as server-sent
  events. What happens in a Conversation is recorded in a journal of typed records: entries, operations
  with their invocations and results, artifacts and context versions, delegated children and their
  reports, compaction checkpoints, image receipts and completion evidence. Every record is validated
  against the state that the journal so far restores, and then applied to it; restoring a session is
  folding the two over its journal. The desktop application arranges its panels in a validated
  layout tree.

  \<^bold>\<open>Theories.\<close> Each component theory has the definitions in the order of its source file and then
  its lemmas; the paths below are under \<open>src/src\<close>.
  \<^item> \<open>Prelude\<close>: saturating and checked machine arithmetic, results as sums with the early return of
    the question-mark operator (\<open>res_bind\<close>, \<open>ensure\<close>), state-passing effects, Rust strings as
    lists of code points, component-wise paths, \<open>BTreeMap\<close> as an ordered association list. It states
    three interfaces: \<open>key_store\<close> (a map with insertion, removal and keys, interpreted on the
    ordered list), \<open>machine\<close> (a step function with an invariant) and \<open>monotone_machine\<close>
    (a machine whose states only grow in a preorder).
  \<^item> \<open>Controller_Leases\<close>, \<open>controller.rs\<close>: acquisition, confirmed takeover, renewal, disconnection
    with a reconnect grace, reconnection by capability, release and expiry. The lemmas show the
    invariant of the tables, the growth of generations, and that control passes only on proof.
  \<^item> \<open>Budget_Ledger\<close>, \<open>orchestration/budget.rs\<close> with the limit check of \<open>config.rs\<close> and the probe of
    \<open>orchestration/supervisor/admission.rs\<close>, over 64-bit words: batch admission refines a
    specification over the naturals, and the counters are the account of what is outstanding.
  \<^item> \<open>Sse_Decoder\<close>, \<open>sse.rs\<close>: chunked framing is equivalent to a byte-at-a-time machine, inverts an
    encoder and is bounded in memory.
  \<^item> \<open>Workbench_Layout\<close>, \<open>desktop/layout.rs\<close>: the layout tree, its validating traversal against a
    declarative condition, the edits, and the layout store with its order of precedence.
  \<^item> \<open>Outbound_Guard\<close>, \<open>outbound.rs\<close>: requests, reviews, policy layers, saved decisions, audit and the
    whole dispatch; the lemmas show what authority every transmission has.
  \<^item> \<open>Permission_Policy\<close>, \<open>permission.rs\<close>, \<open>permission/policy.rs\<close>, \<open>permission/scope.rs\<close>: rules, their
    resolution and matching, the decision against its specification, session grants.
  \<^item> \<open>Permission_Broker\<close>, \<open>permission/broker.rs\<close>, on top of the policy and of the reviews of the
    outbound guard: the broker task as a machine over its commands; every request is answered once,
    and every allowance is traced to the policy or to a decision the controller took in the run.
  \<^item> \<open>Usage_Ledger\<close>, \<open>usage_budget.rs\<close> and \<open>storage/usage.rs\<close>: the request table and the counter
    table of the usage store, admission, settlement and the remaining allowance.
  \<^item> \<open>Bounded_Text\<close>, \<open>context/preview.rs\<close>: token estimates, bounded prefixes, previews.
  \<^item> \<open>Conversation_Data\<close>, \<open>message.rs\<close>, \<open>artifact.rs\<close>, \<open>operation.rs\<close>, \<open>operation/adapter.rs\<close>,
    \<open>native_runtime/protocol.rs\<close>, \<open>context/persisted.rs\<close>: the data that Conversations and their
    operations share.
  \<^item> \<open>Completion_Evidence\<close> and \<open>Evidence_Lifecycle\<close>, \<open>completion_evidence.rs\<close>: contracts, facts, the
    verdict and the revision rule; the verdict is fail-closed and a receipt has at most three
    revisions.
  \<^item> \<open>Prompt_Budget\<close>, \<open>prompt/budget.rs\<close>, and \<open>Compaction\<close>, \<open>session/compaction.rs\<close> with the token
    estimate of \<open>prompt/render.rs\<close>: the budget of a prompt, summaries of compacted entries and their
    bounds, the retained tail, digests and proofs of a source range and their incremental form.
  \<^item> \<open>Vision_Receipt\<close>, \<open>vision/receipt.rs\<close>: the two receipts of an image attempt.
  \<^item> \<open>Child_Records\<close>, \<open>orchestration/types.rs\<close>: spawn requests, admissions, handles and reports of
    delegated children.
  \<^item> \<open>Session_State\<close>, \<open>session/record.rs\<close> and the state of \<open>session/reduce.rs\<close>: the journal records, the
    restored session and its conversation path. \<open>Session_Reducer\<close>: one validation function per arm
    of the source's match, application of a record (\<open>None\<close> where the source has an \<open>expect\<close> or
    \<open>unreachable\<close>), and the reduction of a journal. \<open>Session_Invariants\<close>: what each record changes
    (the \<open>_after\<close> lemmas), the step relation of a journal, and the interface \<open>journal_invariant\<close>
    with its interpretations for receipts, the entry forest, operations, identities and children.
    \<open>Session_Properties\<close>: contexts and evidence, the interface \<open>journal_monotone\<close>, and the
    properties of whole journals.
  \<^item> \<open>Journal_Store\<close> and \<open>Journal_Paging\<close>, \<open>session/store/legacy.rs\<close>: the file that keeps a journal, over
    its bytes: appending, torn tails, inspection, reopening; and the page reader, which agrees
    with the conversation path of the reduced journal.
  \<^item> \<open>Session_Writer\<close>, \<open>session/durable.rs\<close> over the file store: the guarded append that validates,
    writes and applies a record, and everything made of it. The interface \<open>append_invariant\<close> has
    the lemmas on what all these operations keep; memory is at every moment what the file replays to.
  \<^item> \<open>Session_Branch\<close>: branching a Conversation at an entry (\<open>branch_at\<close>), discarding the
    branch, and the loss of a branch whose conversation was cleared.
  \<^item> \<open>Tool_Registry\<close>, \<open>tool.rs\<close>: registration, planning, and invocation under the broker's answer, composed
    with the dispatch of the outbound guard.
  \<^item> \<open>Operation_Executor\<close>, \<open>operation.rs\<close> and \<open>operation/output.rs\<close>, and \<open>Operation_Recovery\<close>,
    \<open>operation/recovery.rs\<close>: the effect of a tool between its recorded intent and its recorded result,
    and the recovery of what was interrupted. \<open>tool_world\<close> is the relation of all runs of a
    Conversation over crashes and resumptions; \<open>triple\<close> is the small program logic its proofs use.
  \<^item> \<open>Progress_Guard\<close>, \<open>agent/progress.rs\<close> with the batch loop of \<open>agent.rs\<close>: the guard that stops
    repeated failures, and its reconstruction from the messages of a turn.
  \<^item> \<open>Orchestration_Plan\<close>, \<open>orchestration/plan.rs\<close>: validation against the declarative form of a
    plan, the admission of its children, and the execution of its steps.
  \<^item> \<open>Autonomy_Jobs\<close>, \<open>autonomy.rs\<close>, \<open>autonomy/calendar.rs\<close> and \<open>autonomy/triggers\<close>: scheduled
    jobs, their validation, the calendar and the observation of trigger sources. \<open>Autonomy_Queue\<close>,
    \<open>storage/autonomy.rs\<close>: the two tables and every transaction on them, a failed one leaving
    the store. \<open>Autonomy_Safety\<close>: the life cycle of a job, the invariant of the tables and their
    growth, by an interpretation of \<open>monotone_machine\<close>. \<open>Autonomy_Properties\<close>: what this means for
    dispatch, review, scheduling and the reading of receipts. \<open>Autonomy_Runs\<close>: a tick of
    \<open>autonomy/runner.rs\<close>, composed of the refresh of sources, the claim, the run and its receipt, and runs of
    ticks between other transactions, with what the executor was handed.

  \<^bold>\<open>Conventions.\<close> A struct is a record, an enum a datatype, a method a function from the old state
  to the new one and its result. An \<open>Err\<close> is \<open>Inl\<close>, an \<open>Ok\<close> is \<open>Inr\<close>; a panic is \<open>None\<close> where the code
  can reach one. Word types keep the width of the source where wrap-around or saturation
  matters (leases, budget, decoder, layout ratios); elsewhere counts are naturals and the overflow
  checks of the source are written out. No loop needs fuel: every recursion is structural or has a
  measure.

  Identifiers are opaque numbers. A \<open>while\<close> over parents keeps the set of entries seen, as the
  source does, and its recursion is on the entries not yet seen.

  \<^bold>\<open>Parameters.\<close> Clocks, random capabilities, digests, canonicalization by the operating system,
  the TOML and JSON codecs, the audit sink, the document files, the transport and the controller's
  answers are arguments or fields of an environment record. The blake3 hash and the JSON encodings of
  messages, contracts, evidence, summaries and receipts are fields of codec records that extend each
  other (\<open>evidence_codec\<close>, \<open>compaction_codec\<close>, \<open>vision_codec\<close>, \<open>session_codec\<close>). The properties hold for every value
  of them unless a hypothesis says otherwise.

  \<^bold>\<open>Not modelled.\<close> The asynchronous handles and channels around these components, terminal
  and desktop rendering, process and socket I/O, provider dialects, SQL outside the usage and autonomy
  tables, and the text of messages. Of the session: the execution
  checkpoints and the encrypted store; the writer and the branches are modelled over the file store only.
  In the agent layer: the provider loop, the collection of evidence, the orchestration supervisor
  behind a plan, the host service of scheduled work, and the tools themselves.
\<close>

end
